(* ===== verification/Prelude.thy ===== *)
theory Prelude
  imports Main "HOL-Library.Word" "HOL-Library.AList" "HOL-Library.Sublist"
begin

text \<open>
  Shared vocabulary of the development: bytes and their big and little endian encodings, the
  result type with its error values, exact reads from a byte stream, durations, and lemmas on
  association lists. \<open>usize\<close> offsets into a buffer are \<open>nat\<close>, since a buffer never exceeds the
  address space.
\<close>

unbundle bit_operations_syntax

named_theorems result_simps \<open>equations for chaining fallible operations\<close>
named_theorems bytes_simps \<open>lengths and inverses of integer encodings\<close>

section \<open>Machine integers and bytes\<close>

type_synonym byte = "8 word"
type_synonym bytes = "byte list"
type_synonym u16 = "16 word"
type_synonym u32 = "32 word"
type_synonym u64 = "64 word"

text \<open>The \<open>k\<close> low bytes of a number, most significant first (Rust's \<open>to_be_bytes\<close>).\<close>

fun be_bytes :: "nat \<Rightarrow> nat \<Rightarrow> bytes" where
  "be_bytes 0 n = []"
| "be_bytes (Suc k) n = be_bytes k (n div 256) @ [word_of_nat n]"

definition from_be :: "bytes \<Rightarrow> nat" where
  "from_be bs = foldl (\<lambda>a b. a * 256 + unat b) 0 bs"

definition le_bytes :: "nat \<Rightarrow> nat \<Rightarrow> bytes" where
  "le_bytes k n = rev (be_bytes k n)"

definition from_le :: "bytes \<Rightarrow> nat" where
  "from_le bs = from_be (rev bs)"

lemma length_be_bytes [simp]: "length (be_bytes k n) = k"
  by (induction k arbitrary: n) auto

lemma length_le_bytes [simp]: "length (le_bytes k n) = k"
  by (simp add: le_bytes_def)

lemma from_be_Nil [simp]: "from_be [] = 0"
  by (simp add: from_be_def)

lemma from_be_snoc [simp]: "from_be (bs @ [b]) = from_be bs * 256 + unat b"
  by (simp add: from_be_def)

lemma unat_byte_of_nat [simp]: "unat (word_of_nat n :: byte) = n mod 256"
  by (simp add: unat_of_nat)

lemma unat_byte_less [simp]: "unat (b :: byte) < 256"
  using unsigned_less [of b] by simp

lemma from_be_be_bytes [bytes_simps]: "from_be (be_bytes k n) = n mod 256 ^ k"
proof (induction k arbitrary: n)
  case (Suc k)
  have "n mod 256 ^ Suc k = n div 256 mod 256 ^ k * 256 + n mod 256"
    by (simp add: mod_mult2_eq ac_simps)
  then show ?case by (simp add: Suc)
qed simp

lemma from_be_less: "from_be bs < 256 ^ length bs"
proof (induction bs rule: rev_induct)
  case (snoc b bs)
  have "from_be bs * 256 + unat b < (from_be bs + 1) * 256"
    by simp
  also have "\<dots> \<le> 256 ^ length bs * 256"
    using snoc by (intro mult_le_mono1) simp
  finally show ?case by (simp add: mult.commute)
qed simp

lemma be_bytes_from_be [bytes_simps]: "length bs = k \<Longrightarrow> be_bytes k (from_be bs) = bs"
proof (induction bs arbitrary: k rule: rev_induct)
  case (snoc b bs)
  then obtain j where "k = Suc j" "length bs = j" by auto
  moreover have "(from_be bs * 256 + unat b) div 256 = from_be bs" by simp
  moreover have "(word_of_nat (from_be bs * 256 + unat b) :: byte) = b"
    by (simp only: word_unat_eq_iff unat_byte_of_nat) simp
  ultimately show ?case using snoc.IH [of j] by simp
qed simp

lemma from_le_le_bytes [bytes_simps]: "from_le (le_bytes k n) = n mod 256 ^ k"
  by (simp add: from_le_def le_bytes_def bytes_simps)

lemma le_bytes_0 [simp]: "le_bytes 0 n = []"
  by (simp add: le_bytes_def)

lemma le_bytes_Suc: "le_bytes (Suc k) n = word_of_nat n # le_bytes k (n div 256)"
  by (simp add: le_bytes_def)

lemma from_le_less: "from_le bs < 256 ^ length bs"
  using from_be_less [of "rev bs"] by (simp add: from_le_def)

lemma le_bytes_from_le [bytes_simps]: "length bs = k \<Longrightarrow> le_bytes k (from_le bs) = bs"
  by (simp add: from_le_def le_bytes_def be_bytes_from_be)

text \<open>Words of fixed width survive the trip through their bytes.\<close>

lemma unat_word_bounds [simp]:
  "unat (a :: u16) < 65536"
  "unat (b :: u32) < 4294967296"
  "unat (c :: u64) < 18446744073709551616"
  using unsigned_less [of a] unsigned_less [of b] unsigned_less [of c] by simp_all

lemma u16_be_roundtrip [simp]: "(word_of_nat (from_be (be_bytes 2 (unat w))) :: u16) = w"
  by (simp add: bytes_simps)

lemma u32_be_roundtrip [simp]: "(word_of_nat (from_be (be_bytes 4 (unat w))) :: u32) = w"
  by (simp add: bytes_simps)

lemma u64_be_roundtrip [simp]: "(word_of_nat (from_be (be_bytes 8 (unat w))) :: u64) = w"
  by (simp add: bytes_simps)

lemma u32_le_roundtrip [simp]: "(word_of_nat (from_le (le_bytes 4 (unat w))) :: u32) = w"
  by (simp add: bytes_simps)

lemma u64_le_roundtrip [simp]: "(word_of_nat (from_le (le_bytes 8 (unat w))) :: u64) = w"
  by (simp add: bytes_simps)

lemma unat_u16_of_nat: "n < 65536 \<Longrightarrow> unat (word_of_nat n :: u16) = n"
  by (simp add: unat_of_nat)

lemma unat_u32_of_nat: "n < 4294967296 \<Longrightarrow> unat (word_of_nat n :: u32) = n"
  by (simp add: unat_of_nat)

text \<open>Assembling a number from disjoint groups of bits by \<open>|\<close> and \<open><<\<close> is addition.\<close>

lemma or_push_bit_add: "(a :: nat) < 2 ^ k \<Longrightarrow> a OR push_bit k b = a + 2 ^ k * b"
proof -
  assume "a < 2 ^ k"
  then have a: "take_bit k a = a" by (simp add: take_bit_eq_mod)
  have "a + push_bit k b = a OR push_bit k b"
  proof (rule disjunctive_add)
    fix n
    show "\<not> bit a n \<or> \<not> bit (push_bit k b) n"
      by (subst a [symmetric]) (auto simp: bit_take_bit_iff bit_push_bit_iff)
  qed
  then show ?thesis by (simp add: push_bit_eq_mult mult.commute)
qed

lemma unat_and_3: "unat (b AND 3 :: byte) = unat b mod 4"
proof -
  have "b AND 3 = take_bit 2 b" by (simp add: take_bit_eq_mask mask_eq_exp_minus_1)
  then have "unat (b AND 3) = take_bit 2 (unat b)" by (simp only: unsigned_take_bit_eq)
  then show ?thesis by (simp add: take_bit_eq_mod)
qed

section \<open>Fallible operations\<close>

text \<open>
  The error values name the failing site of the source (a \<open>bail!\<close>, a \<open>context\<close> on an I/O error,
  a panic); the text of the message is kept only where it is sent to a peer.
\<close>

datatype err =
    Eof                        \<comment> \<open>\<open>read_exact\<close> met the end of the stream\<close>
  | MessageTooLarge nat        \<comment> \<open>a frame header announces more than the limit\<close>
  | EmptyMessage               \<comment> \<open>a message without a type byte\<close>
  | UnknownMsgType byte        \<comment> \<open>a frame with an unknown type byte\<close>
  | Truncated nat              \<comment> \<open>a field runs past the end of the buffer, at this offset\<close>
  | InvalidUtf8                \<comment> \<open>a string field is not UTF-8\<close>
  | PayloadTooShort            \<comment> \<open>a fixed part of a payload is missing\<close>
  | Serialize                  \<comment> \<open>the serialiser refused a value\<close>
  | Deserialize                \<comment> \<open>the bytes do not parse\<close>
  | Decompress                 \<comment> \<open>the compressed payload does not decompress\<close>
  | Panicked                   \<comment> \<open>an index or arithmetic panic\<close>
  | Failed string              \<comment> \<open>any other \<open>bail!\<close>, with its message\<close>

type_synonym 'a result = "err + 'a"

definition and_then :: "'a result \<Rightarrow> ('a \<Rightarrow> 'b result) \<Rightarrow> 'b result" where
  "and_then r f = (case r of Inl e \<Rightarrow> Inl e | Inr x \<Rightarrow> f x)"

lemma and_then_simps [simp]:
  "and_then (Inl e) f = Inl e"
  "and_then (Inr x) f = f x"
  by (simp_all add: and_then_def)

lemma and_then_Inr_iff [result_simps]:
  "and_then r f = Inr y \<longleftrightarrow> (\<exists>x. r = Inr x \<and> f x = Inr y)"
  by (cases r) auto

lemma and_then_Inl_iff [result_simps]:
  "and_then r f = Inl e \<longleftrightarrow> r = Inl e \<or> (\<exists>x. r = Inr x \<and> f x = Inl e)"
  by (cases r) auto

lemma and_then_assoc: "and_then (and_then r f) g = and_then r (\<lambda>x. and_then (f x) g)"
  by (cases r) auto

definition ok_or :: "err \<Rightarrow> 'a option \<Rightarrow> 'a result" where
  "ok_or e r = (case r of None \<Rightarrow> Inl e | Some x \<Rightarrow> Inr x)"

lemma ok_or_simps [simp]:
  "ok_or e None = Inl e"
  "ok_or e (Some x) = Inr x"
  by (simp_all add: ok_or_def)

lemma ok_or_Inr_iff [result_simps]: "ok_or e r = Inr x \<longleftrightarrow> r = Some x"
  by (cases r) auto

section \<open>Reading from a byte stream\<close>

text \<open>
  The peer's side of a connection is the list of bytes it will still deliver before it closes.
  \<open>read_exact\<close> hands out the next \<open>n\<close> bytes or fails at the end of the stream.
\<close>

definition read_exact :: "nat \<Rightarrow> bytes \<Rightarrow> (bytes \<times> bytes) result" where
  "read_exact n s = (if n \<le> length s then Inr (take n s, drop n s) else Inl Eof)"

lemma read_exact_append [simp]: "length xs = n \<Longrightarrow> read_exact n (xs @ ys) = Inr (xs, ys)"
  by (simp add: read_exact_def)

lemma read_exact_Inr_iff:
  "read_exact n s = Inr (xs, ys) \<longleftrightarrow> s = xs @ ys \<and> length xs = n"
  by (auto simp: read_exact_def)

lemma read_exact_mono:
  "read_exact n s = Inr (xs, ys) \<Longrightarrow> read_exact n (s @ t) = Inr (xs, ys @ t)"
  by (auto simp: read_exact_Inr_iff)

section \<open>Association lists\<close>

lemma list_all_update: "P (k, v) \<Longrightarrow> list_all P m \<Longrightarrow> list_all P (AList.update k v m)"
  by (induction m) auto

lemma map_of_fold_delete: "map_of (fold AList.delete ks m) k = (if k \<in> set ks then None else map_of m k)"
  by (induction ks arbitrary: m) (auto simp: delete_conv')

lemma distinct_fold_delete: "distinct (map fst m) \<Longrightarrow> distinct (map fst (fold AList.delete ks m))"
  by (induction ks arbitrary: m) (auto intro: distinct_delete)

lemma list_all_delete: "list_all P m \<Longrightarrow> list_all P (AList.delete k m)"
  by (auto simp: AList.delete_eq list_all_iff)

lemma list_all_fold_delete: "list_all P m \<Longrightarrow> list_all P (fold AList.delete ks m)"
  by (induction ks arbitrary: m) (auto intro: list_all_delete)

lemma map_of_filter_snd:
  "distinct (map fst m) \<Longrightarrow>
    map_of (filter (\<lambda>e. P (snd e)) m) k = (case map_of m k of Some v \<Rightarrow> if P v then Some v else None | None \<Rightarrow> None)"
  by (induction m) (auto simp: map_of_eq_None_iff image_iff split: option.splits)

section \<open>Durations\<close>

text \<open>Instants and durations are numbers of nanoseconds.\<close>

definition from_secs :: "nat \<Rightarrow> nat" where
  "from_secs s = s * 1000000000"

definition as_secs :: "nat \<Rightarrow> nat" where
  "as_secs d = d div 1000000000"

end
