(* ===== verification/Rust_Str.thy ===== *)
theory Rust_Str
  imports Prelude
begin

text \<open>
  The operations of Rust's \<open>str\<close> and \<open>[T]\<close> that the sources call. A string is the list of its UTF-8
  bytes. Whitespace is Unicode's \<open>White_Space\<close> class, recognised at the head (or, reversed, at the
  end) of the byte list; since a UTF-8 sequence is recognised by its first byte, scanning bytes
  and scanning characters agree on valid strings.
\<close>

section \<open>Bytes of a string\<close>

definition as_bytes :: "string \<Rightarrow> bytes" where
  "as_bytes s = map of_char s"

definition str_of_bytes :: "bytes \<Rightarrow> string" where
  "str_of_bytes bs = map (\<lambda>b. char_of (unat b)) bs"

lemma length_as_bytes [simp]: "length (as_bytes s) = length s"
  by (simp add: as_bytes_def)

lemma unat_of_char [simp]: "unat (of_char c :: byte) = of_char c"
proof -
  have "(of_char c :: byte) = of_nat (of_char c)" by (rule of_nat_of_char [symmetric])
  then show ?thesis by (simp only: unat_of_nat) simp
qed

lemma as_bytes_str_of_bytes [simp]: "as_bytes (str_of_bytes bs) = bs"
proof -
  have "of_char (char_of (unat b)) = b" for b :: byte
  proof -
    have n: "(of_char (char_of (unat b)) :: nat) = unat b" using unsigned_less [of b] by simp
    have "(word_of_nat (of_char (char_of (unat b)) :: nat) :: byte) = b" by (simp only: n) simp
    then show ?thesis by (simp only: of_nat_of_char)
  qed
  then show ?thesis by (simp add: str_of_bytes_def as_bytes_def comp_def)
qed

lemma str_of_as_bytes [simp]: "str_of_bytes (as_bytes s) = s"
  by (simp add: str_of_bytes_def as_bytes_def comp_def)

lemma as_bytes_append [simp]: "as_bytes (s @ t) = as_bytes s @ as_bytes t"
  by (simp add: as_bytes_def)

text \<open>\<open>std::str::from_utf8\<close>: the well-formed byte sequences of the Unicode standard.\<close>

definition cont :: "byte \<Rightarrow> bool" where
  "cont b \<longleftrightarrow> 0x80 \<le> b \<and> b \<le> 0xBF"

fun utf8_valid :: "bytes \<Rightarrow> bool" where
  "utf8_valid [] = True"
| "utf8_valid (b # bs) =
     (if b \<le> 0x7F then utf8_valid bs
      else if 0xC2 \<le> b \<and> b \<le> 0xDF
      then (case bs of c # r \<Rightarrow> cont c \<and> utf8_valid r | _ \<Rightarrow> False)
      else if 0xE0 \<le> b \<and> b \<le> 0xEF
      then (case bs of
              c # d # r \<Rightarrow>
                (if b = 0xE0 then 0xA0 \<le> c \<and> c \<le> 0xBF
                 else if b = 0xED then 0x80 \<le> c \<and> c \<le> 0x9F else cont c)
                \<and> cont d \<and> utf8_valid r
            | _ \<Rightarrow> False)
      else if 0xF0 \<le> b \<and> b \<le> 0xF4
      then (case bs of
              c # d # e # r \<Rightarrow>
                (if b = 0xF0 then 0x90 \<le> c \<and> c \<le> 0xBF
                 else if b = 0xF4 then 0x80 \<le> c \<and> c \<le> 0x8F else cont c)
                \<and> cont d \<and> cont e \<and> utf8_valid r
            | _ \<Rightarrow> False)
      else False)"

text \<open>A Rust string always holds valid UTF-8; ASCII text does.\<close>

definition is_str :: "string \<Rightarrow> bool" where
  "is_str s \<longleftrightarrow> utf8_valid (as_bytes s)"

definition is_ascii :: "string \<Rightarrow> bool" where
  "is_ascii s \<longleftrightarrow> list_all (\<lambda>c. of_char c < (128 :: nat)) s"

definition from_utf8 :: "bytes \<Rightarrow> string result" where
  "from_utf8 bs = (if utf8_valid bs then Inr (str_of_bytes bs) else Inl InvalidUtf8)"

lemma from_utf8_as_bytes [simp]: "is_str s \<Longrightarrow> from_utf8 (as_bytes s) = Inr s"
  by (simp add: from_utf8_def is_str_def)

lemma ascii_byte: "of_char c < (128 :: nat) \<Longrightarrow> (of_char c :: byte) \<le> 0x7F"
  by (simp add: word_le_nat_alt)

lemma is_ascii_is_str [simp]: "is_ascii s \<Longrightarrow> is_str s"
  unfolding is_str_def by (induction s) (auto simp: is_ascii_def as_bytes_def ascii_byte)

section \<open>Searching\<close>

definition starts_with :: "string \<Rightarrow> string \<Rightarrow> bool" where
  "starts_with s p \<longleftrightarrow> prefix p s"

definition ends_with :: "string \<Rightarrow> string \<Rightarrow> bool" where
  "ends_with s p \<longleftrightarrow> suffix p s"

definition contains :: "string \<Rightarrow> string \<Rightarrow> bool" where
  "contains s p \<longleftrightarrow> sublist p s"

text \<open>\<open>str::find\<close>: the byte offset of the first occurrence.\<close>

fun find_str :: "string \<Rightarrow> string \<Rightarrow> nat option" where
  "find_str p [] = (if p = [] then Some 0 else None)"
| "find_str p (c # cs) = (if prefix p (c # cs) then Some 0 else map_option Suc (find_str p cs))"

lemma find_str_Some: "find_str p s = Some i \<Longrightarrow> prefix p (drop i s) \<and> i \<le> length s"
  by (induction s arbitrary: i) (auto split: if_splits)

lemma find_str_None_iff: "find_str p s = None \<longleftrightarrow> \<not> sublist p s"
  by (induction s) (auto simp: sublist_Cons_right)

section \<open>Whitespace\<close>

definition ascii_ws :: "char \<Rightarrow> bool" where
  "ascii_ws c \<longleftrightarrow> c = CHR '' '' \<or> c = CHR 0x09 \<or> c = CHR 0x0A \<or> c = CHR 0x0B \<or> c = CHR 0x0C \<or> c = CHR 0x0D"

text \<open>The whitespace characters of two and three bytes (U+0085, U+00A0, U+1680, U+2000 to U+200A,
  U+2028, U+2029, U+202F, U+205F, U+3000).\<close>

definition ws2 :: "char \<Rightarrow> char \<Rightarrow> bool" where
  "ws2 a b \<longleftrightarrow> a = CHR 0xC2 \<and> (b = CHR 0x85 \<or> b = CHR 0xA0)"

definition ws3 :: "char \<Rightarrow> char \<Rightarrow> char \<Rightarrow> bool" where
  "ws3 a b c \<longleftrightarrow>
     (a = CHR 0xE1 \<and> b = CHR 0x9A \<and> c = CHR 0x80)
     \<or> (a = CHR 0xE2 \<and> b = CHR 0x80 \<and>
         ((0x80 \<le> (of_char c :: nat) \<and> (of_char c :: nat) \<le> 0x8A)
          \<or> c = CHR 0xA8 \<or> c = CHR 0xA9 \<or> c = CHR 0xAF))
     \<or> (a = CHR 0xE2 \<and> b = CHR 0x81 \<and> c = CHR 0x9F)
     \<or> (a = CHR 0xE3 \<and> b = CHR 0x80 \<and> c = CHR 0x80)"

text \<open>The number of bytes of the whitespace character at the head, 0 if there is none; the second
  function reads a reversed string.\<close>

definition ws_len :: "string \<Rightarrow> nat" where
  "ws_len s = (case s of
      [] \<Rightarrow> 0
    | a # s1 \<Rightarrow> if ascii_ws a then 1 else (case s1 of
          [] \<Rightarrow> 0
        | b # s2 \<Rightarrow> if ws2 a b then 2 else (case s2 of
              [] \<Rightarrow> 0
            | c # _ \<Rightarrow> if ws3 a b c then 3 else 0)))"

definition ws_len_rev :: "string \<Rightarrow> nat" where
  "ws_len_rev s = (case s of
      [] \<Rightarrow> 0
    | a # s1 \<Rightarrow> if ascii_ws a then 1 else (case s1 of
          [] \<Rightarrow> 0
        | b # s2 \<Rightarrow> if ws2 b a then 2 else (case s2 of
              [] \<Rightarrow> 0
            | c # _ \<Rightarrow> if ws3 c b a then 3 else 0)))"

lemma ws_len_le: "ws_len s \<le> length s"
  by (auto simp: ws_len_def split: list.splits)

lemma ws_len_rev_le: "ws_len_rev s \<le> length s"
  by (auto simp: ws_len_rev_def split: list.splits)

function strip :: "(string \<Rightarrow> nat) \<Rightarrow> string \<Rightarrow> string" where
  "strip w s = (if w s = 0 \<or> s = [] then s else strip w (drop (w s) s))"
  by pat_completeness auto
termination
  by (relation "measure (\<lambda>(w, s). length s)") auto

declare strip.simps [simp del]

definition trim_start :: "string \<Rightarrow> string" where
  "trim_start s = strip ws_len s"

definition trim_end :: "string \<Rightarrow> string" where
  "trim_end s = rev (strip ws_len_rev (rev s))"

definition trim :: "string \<Rightarrow> string" where
  "trim s = trim_end (trim_start s)"

lemma strip_suffix: "\<exists>p. s = p @ strip w s"
proof (induction w s rule: strip.induct)
  case (1 w s)
  show ?case
  proof (cases "w s = 0 \<or> s = []")
    case True
    then show ?thesis by (subst strip.simps) simp
  next
    case False
    with 1 obtain p where "drop (w s) s = p @ strip w (drop (w s) s)" by blast
    then have "s = (take (w s) s @ p) @ strip w (drop (w s) s)"
      by (metis append_assoc append_take_drop_id)
    with False show ?thesis using strip.simps [of w s] by metis
  qed
qed

lemma strip_fixed: "w s = 0 \<Longrightarrow> strip w s = s"
  by (subst strip.simps) simp

lemma strip_zero: "w [] = 0 \<Longrightarrow> w (strip w s) = 0"
proof (induction w s rule: strip.induct)
  case (1 w s)
  then show ?case by (cases "w s = 0 \<or> s = []") (auto simp: strip.simps [of w s])
qed

lemma trim_Nil [simp]: "trim [] = []"
  by (simp add: trim_def trim_start_def trim_end_def strip.simps)

text \<open>Trimming keeps a substring, and leaves a string without outer whitespace alone.\<close>

lemma trim_sublist: "\<exists>p q. s = p @ trim s @ q"
proof -
  obtain p where p: "s = p @ trim_start s"
    using strip_suffix unfolding trim_start_def by blast
  obtain q where "rev (trim_start s) = q @ strip ws_len_rev (rev (trim_start s))"
    using strip_suffix by blast
  then have "rev (rev (trim_start s)) = rev (q @ strip ws_len_rev (rev (trim_start s)))"
    by (rule arg_cong)
  then have "trim_start s = trim s @ rev q"
    by (simp add: trim_def trim_end_def)
  with p show ?thesis by metis
qed

lemma trim_fixed: "ws_len s = 0 \<Longrightarrow> ws_len_rev (rev s) = 0 \<Longrightarrow> trim s = s"
  by (simp add: trim_def trim_start_def trim_end_def strip_fixed)

section \<open>Splitting\<close>

text \<open>\<open>split_whitespace\<close>: the maximal runs of non-whitespace.\<close>

function split_ws :: "string \<Rightarrow> string \<Rightarrow> string list" where
  "split_ws cur [] = (if cur = [] then [] else [rev cur])"
| "split_ws cur (c # cs) =
     (if ws_len (c # cs) = 0 then split_ws (c # cur) cs
      else (if cur = [] then [] else [rev cur]) @ split_ws [] (drop (ws_len (c # cs)) (c # cs)))"
  by pat_completeness auto
termination
  by (relation "measure (\<lambda>(cur, s). length s)") auto

definition split_whitespace :: "string \<Rightarrow> string list" where
  "split_whitespace s = split_ws [] s"

text \<open>\<open>splitn(n, char::is_whitespace)\<close>: at most \<open>n\<close> parts, split at single whitespace characters.\<close>

function splitn_ws :: "nat \<Rightarrow> string \<Rightarrow> string \<Rightarrow> string list" where
  "splitn_ws 0 cur s = []"
| "splitn_ws (Suc 0) cur s = [rev cur @ s]"
| "splitn_ws (Suc (Suc n)) cur [] = [rev cur]"
| "splitn_ws (Suc (Suc n)) cur (c # cs) =
     (if ws_len (c # cs) = 0 then splitn_ws (Suc (Suc n)) (c # cur) cs
      else rev cur # splitn_ws (Suc n) [] (drop (ws_len (c # cs)) (c # cs)))"
  by pat_completeness auto
termination
  by (relation "measure (\<lambda>(n, cur, s). length s)") auto

text \<open>\<open>str::lines\<close>: split at line feeds, drop a final carriage return of each line and a final
  empty line.\<close>

fun split_char :: "char \<Rightarrow> string \<Rightarrow> string \<Rightarrow> string list" where
  "split_char d cur [] = [rev cur]"
| "split_char d cur (c # cs) =
     (if c = d then rev cur # split_char d [] cs else split_char d (c # cur) cs)"

definition strip_cr :: "string \<Rightarrow> string" where
  "strip_cr l = (if l \<noteq> [] \<and> last l = CHR 0x0D then butlast l else l)"

text \<open>Every part but the last was ended by a line feed, so only there is the carriage return
  removed; the last part is kept as it is, and dropped when empty.\<close>

definition lines :: "string \<Rightarrow> string list" where
  "lines s =
     (let ps = split_char (CHR 0x0A) [] s
      in map strip_cr (butlast ps) @ (if last ps = [] then [] else [last ps]))"

fun join :: "string \<Rightarrow> string list \<Rightarrow> string" where
  "join sep [] = []"
| "join sep [x] = x"
| "join sep (x # y # zs) = x @ sep @ join sep (y # zs)"

text \<open>\<open>slice::chunks\<close>.\<close>

function chunks :: "nat \<Rightarrow> 'a list \<Rightarrow> 'a list list" where
  "chunks n xs = (if xs = [] \<or> n = 0 then [] else take n xs # chunks n (drop n xs))"
  by pat_completeness auto
termination
  by (relation "measure (\<lambda>(n, xs). length xs)") auto

declare chunks.simps [simp del]

lemma concat_chunks: "0 < n \<Longrightarrow> concat (chunks n xs) = xs"
  by (induction n xs rule: chunks.induct) (subst chunks.simps, auto)

lemma chunks_length: "list_all (\<lambda>d. length d \<le> n) (chunks n xs)"
  by (induction n xs rule: chunks.induct) (subst chunks.simps, auto)

text \<open>\<open>split_once\<close> with a character.\<close>

definition split_once :: "char \<Rightarrow> string \<Rightarrow> (string \<times> string) option" where
  "split_once c s =
     (if c \<in> set s then Some (takeWhile (\<lambda>x. x \<noteq> c) s, tl (dropWhile (\<lambda>x. x \<noteq> c) s)) else None)"

section \<open>Case\<close>

text \<open>The ASCII case mappings, and the documented behaviour of the Unicode ones on ASCII text.\<close>

definition ascii_lower :: "string \<Rightarrow> string" where
  "ascii_lower s = map (\<lambda>c. let n = (of_char c :: nat) in if 65 \<le> n \<and> n \<le> 90 then char_of (n + 32) else c) s"

definition ascii_upper :: "string \<Rightarrow> string" where
  "ascii_upper s = map (\<lambda>c. let n = (of_char c :: nat) in if 97 \<le> n \<and> n \<le> 122 then char_of (n - 32) else c) s"

section \<open>Tokens\<close>

text \<open>Printable ASCII without the space: what fingerprints, hashes and keys are made of.\<close>

definition graphic :: "char \<Rightarrow> bool" where
  "graphic c \<longleftrightarrow> 33 \<le> (of_char c :: nat) \<and> (of_char c :: nat) < 127"

definition token :: "string \<Rightarrow> bool" where
  "token s \<longleftrightarrow> s \<noteq> [] \<and> list_all graphic s"

lemma graphic_no_ws:
  assumes "graphic c"
  shows "\<not> ascii_ws c" "\<not> ws2 c d" "\<not> ws2 d c" "\<not> ws3 c d e" "\<not> ws3 e d c" "c \<noteq> CHR 0x0A"
    "c \<noteq> CHR 0x0D"
  using assms by (auto simp: graphic_def ascii_ws_def ws2_def ws3_def)

lemma ws_len_graphic [simp]: "graphic c \<Longrightarrow> ws_len (c # cs) = 0"
  by (auto simp: ws_len_def graphic_no_ws split: list.splits)

lemma ws_len_rev_graphic [simp]: "graphic c \<Longrightarrow> ws_len_rev (c # cs) = 0"
  by (auto simp: ws_len_rev_def graphic_no_ws split: list.splits)

lemma ws_len_space [simp]: "ws_len (CHR '' '' # cs) = 1"
  by (simp add: ws_len_def ascii_ws_def)

lemma trim_graphic_ends:
  assumes "s \<noteq> []" "graphic (hd s)" "graphic (last s)"
  shows "trim s = s"
proof (rule trim_fixed)
  show "ws_len s = 0" using assms by (cases s) auto
  show "ws_len_rev (rev s) = 0" using assms by (cases s rule: rev_cases) auto
qed

lemma split_ws_graphic: "list_all graphic t \<Longrightarrow> split_ws cur (t @ s) = split_ws (rev t @ cur) s"
  by (induction t arbitrary: cur) simp_all

lemma split_whitespace_tokens:
  "list_all token ts \<Longrightarrow> ts \<noteq> [] \<Longrightarrow> split_whitespace (join '' '' ts) = ts"
proof (induction ts)
  case (Cons t ts)
  from Cons.prems have t: "list_all graphic t" "t \<noteq> []" by (simp_all add: token_def)
  show ?case
  proof (cases ts)
    case Nil
    with t split_ws_graphic [of t "[]" "[]"] show ?thesis by (simp add: split_whitespace_def)
  next
    case (Cons u us)
    with t split_ws_graphic [of t "[]" "CHR '' '' # join '' '' ts"] Cons.IH Cons.prems
    show ?thesis by (simp add: split_whitespace_def)
  qed
qed simp

lemma ws_not_graphic:
  "ascii_ws a \<Longrightarrow> \<not> graphic a"
  "ws2 a b \<Longrightarrow> \<not> graphic a \<and> \<not> graphic b"
  "ws3 a b c \<Longrightarrow> \<not> graphic a \<and> \<not> graphic b \<and> \<not> graphic c"
  by (auto simp: graphic_def ascii_ws_def ws2_def ws3_def)

lemma take_ws_len: "list_all (\<lambda>c. \<not> graphic c) (take (ws_len s) s)"
  by (auto simp: ws_len_def ws_not_graphic numeral_2_eq_2 numeral_3_eq_3 split: list.splits)

lemma split_ws_pending: "cur \<noteq> [] \<Longrightarrow> \<exists>t. rev cur @ t \<in> set (split_ws cur s)"
proof (induction s arbitrary: cur)
  case (Cons c s)
  show ?case
  proof (cases "ws_len (c # s) = 0")
    case True
    then show ?thesis using Cons.IH [of "c # cur"] by auto
  next
    case False
    then show ?thesis using Cons.prems by (auto intro: exI [of _ "[]"])
  qed
qed (auto intro: exI [of _ "[]"])

text \<open>Text without whitespace is never torn apart.\<close>

lemma split_ws_sublist:
  "list_all graphic p \<Longrightarrow> p \<noteq> [] \<Longrightarrow> \<exists>t\<in>set (split_ws cur (a @ p @ b)). sublist p t"
proof (induction "length a" arbitrary: a cur rule: less_induct)
  case less
  show ?case
  proof (cases a)
    case Nil
    obtain t where "rev (rev p @ cur) @ t \<in> set (split_ws (rev p @ cur) b)"
      using split_ws_pending [of "rev p @ cur" b] less.prems by auto
    moreover have "sublist p (rev (rev p @ cur) @ t)" by (simp add: sublist_appendI)
    ultimately show ?thesis using Nil less.prems split_ws_graphic [of p cur b] by auto
  next
    case (Cons c a')
    let ?s = "a @ p @ b"
    show ?thesis
    proof (cases "ws_len ?s = 0")
      case True
      with less.hyps [of a' "c # cur"] less.prems Cons show ?thesis by auto
    next
      case False
      have "ws_len ?s \<le> length a"
      proof (rule ccontr)
        assume "\<not> ws_len ?s \<le> length a"
        then have "hd p \<in> set (take (ws_len ?s) ?s)"
          using less.prems(2) by (cases p; cases "ws_len ?s - length a") auto
        with take_ws_len [of ?s] less.prems show False by (cases p) (auto simp: list_all_iff)
      qed
      then have "drop (ws_len ?s) ?s = drop (ws_len ?s) a @ p @ b" by simp
      moreover have "length (drop (ws_len ?s) a) < length a" using False Cons by simp
      ultimately show ?thesis
        using less.hyps [of "drop (ws_len ?s) a" "[]"] less.prems False Cons by auto
    qed
  qed
qed

lemma sublist_join: "t \<in> set ts \<Longrightarrow> sublist t (join sep ts)"
proof (induction ts rule: induct_list012)
  case (3 x y zs)
  then show ?case
    by (auto simp: sublist_append_leftI intro: sublist_order.order.trans [OF _ sublist_append_leftI]
        sublist_append_rightI)
qed auto

lemma contains_normalized:
  assumes "contains s p" "list_all graphic p" "p \<noteq> []"
  shows "contains (join '' '' (split_whitespace s)) p"
proof -
  obtain a b where "s = a @ p @ b" using assms(1) by (auto simp: contains_def sublist_def)
  with split_ws_sublist [OF assms(2,3), of "[]" a b] obtain t where
    "t \<in> set (split_whitespace s)" "sublist p t" by (auto simp: split_whitespace_def)
  then show ?thesis
    unfolding contains_def by (blast intro: sublist_join sublist_order.order.trans)
qed

lemma split_char_line:
  "d \<notin> set l \<Longrightarrow> split_char d cur (l @ d # rest) = (rev cur @ l) # split_char d [] rest"
  by (induction l arbitrary: cur) auto

lemma split_char_last: "d \<notin> set l \<Longrightarrow> split_char d cur l = [rev cur @ l]"
  by (induction l arbitrary: cur) auto

definition unline :: "string \<Rightarrow> string" where
  "unline l = l @ [CHR 0x0A]"

definition clean_line :: "string \<Rightarrow> bool" where
  "clean_line l \<longleftrightarrow> CHR 0x0A \<notin> set l \<and> (l = [] \<or> last l \<noteq> CHR 0x0D)"

lemma split_char_unlines:
  "list_all clean_line ls \<Longrightarrow>
    split_char (CHR 0x0A) [] (concat (map unline ls)) = ls @ [[]]"
  by (induction ls) (auto simp: unline_def clean_line_def split_char_line)

lemma lines_unlines: "list_all clean_line ls \<Longrightarrow> lines (concat (map unline ls)) = ls"
proof -
  assume ls: "list_all clean_line ls"
  then have "map strip_cr ls = ls"
    by (induction ls) (auto simp: clean_line_def strip_cr_def)
  with ls show ?thesis by (simp add: lines_def split_char_unlines Let_def)
qed

section \<open>Decimal numbers\<close>

function show_nat :: "nat \<Rightarrow> string" where
  "show_nat n = (if n < 10 then [char_of (48 + n)] else show_nat (n div 10) @ [char_of (48 + n mod 10)])"
  by pat_completeness auto
termination
  by (relation "measure id") auto

declare show_nat.simps [simp del]

text \<open>\<open>{:02x}\<close>.\<close>

definition hex_digit :: "nat \<Rightarrow> char" where
  "hex_digit n = (if n < 10 then char_of (48 + n) else char_of (87 + n))"

definition hex_byte :: "byte \<Rightarrow> string" where
  "hex_byte b = [hex_digit (unat b div 16), hex_digit (unat b mod 16)]"

lemma show_nat_digits: "c \<in> set (show_nat n) \<Longrightarrow> \<exists>k<10. c = char_of (48 + k :: nat)"
proof (induction n rule: show_nat.induct)
  case (1 n)
  show ?case
  proof (cases "n < 10")
    case True
    with 1(2) show ?thesis by (subst (asm) show_nat.simps) auto
  next
    case False
    with 1(2) have "c \<in> set (show_nat (n div 10)) \<or> c = char_of (48 + n mod 10)"
      by (subst (asm) show_nat.simps) auto
    with 1(1) [OF False] show ?thesis by (auto intro: exI [of _ "n mod 10"])
  qed
qed

lemma show_nat_not_Nil [simp]: "show_nat n \<noteq> []"
  by (subst show_nat.simps) simp

lemma show_nat_token: "token (show_nat n)"
  using show_nat_digits [of _ n] by (auto simp: token_def graphic_def list_all_iff) fastforce+

lemma length_show_nat: "n < 10 ^ Suc k \<Longrightarrow> length (show_nat n) \<le> Suc k"
proof (induction k arbitrary: n)
  case 0
  then show ?case by (subst show_nat.simps) simp
next
  case (Suc k)
  then have "n div 10 < 10 ^ Suc k" by (simp add: less_mult_imp_div_less mult.commute)
  with Suc.IH show ?case by (subst show_nat.simps) simp
qed

lemma hd_show_nat: "hd (show_nat n) = CHR ''0'' \<longleftrightarrow> n = 0"
proof (induction n rule: show_nat.induct)
  case (1 n)
  show ?case
  proof (cases "n < 10")
    case True
    then show ?thesis by (subst show_nat.simps) (simp add: char_of_eq_iff take_bit_nat_eq_self)
  next
    case False
    with 1 show ?thesis by (subst show_nat.simps) simp
  qed
qed

section \<open>Parsing decimal numbers\<close>

text \<open>\<open>str::parse\<close> for unsigned integers below \<open>bound\<close>: an optional plus sign and digits.\<close>

fun parse_digits :: "nat \<Rightarrow> nat \<Rightarrow> string \<Rightarrow> nat option" where
  "parse_digits bound acc [] = Some acc"
| "parse_digits bound acc (c # cs) =
     (let n = (of_char c :: nat) in
      if 48 \<le> n \<and> n \<le> 57 \<and> acc * 10 + (n - 48) < bound then parse_digits bound (acc * 10 + (n - 48)) cs
      else None)"

definition parse_uint :: "nat \<Rightarrow> string \<Rightarrow> nat option" where
  "parse_uint bound s =
     (let ds = (if s \<noteq> [] \<and> hd s = CHR ''+'' then tl s else s) in if ds = [] then None else parse_digits bound 0 ds)"

lemma parse_digits_show:
  "n < bound \<Longrightarrow> parse_digits bound 0 (show_nat n @ cs) = parse_digits bound n cs"
proof (induction n arbitrary: cs rule: show_nat.induct)
  case (1 n)
  have d: "(of_char (char_of (48 + k) :: char) :: nat) = 48 + k" if "k < 10" for k :: nat
    using that by (simp add: take_bit_nat_eq_self)
  show ?case
  proof (cases "n < 10")
    case True
    with 1(2) d [OF True] show ?thesis by (subst show_nat.simps) (simp del: of_char_of)
  next
    case False
    have "n div 10 < bound" and m: "n mod 10 < 10" "n mod 10 \<le> 9" using 1(2) by simp_all
    from 1(1) [OF False this(1), of "char_of (48 + n mod 10) # cs"] False 1(2) d [OF m(1)] m show ?thesis
      by (subst show_nat.simps) (simp del: of_char_of)
  qed
qed

lemma parse_uint_show: "n < bound \<Longrightarrow> parse_uint bound (show_nat n) = Some n"
proof -
  assume "n < bound"
  moreover have "hd (show_nat n) \<noteq> CHR ''+''"
  proof
    assume "hd (show_nat n) = CHR ''+''"
    then obtain k :: nat where "k < 10" "CHR ''+'' = char_of (48 + k)"
      using show_nat_digits [of "hd (show_nat n)" n] hd_in_set [of "show_nat n"] by auto
    then have "of_char (CHR ''+'') = 48 + k" by (simp add: take_bit_nat_eq_self)
    then show False by simp
  qed
  ultimately show ?thesis
    using parse_digits_show [of n bound "[]"] by (simp add: parse_uint_def)
qed

section \<open>Signed numbers\<close>

definition show_int :: "int \<Rightarrow> string" where
  "show_int i = (if i < 0 then CHR ''-'' # show_nat (nat (- i)) else show_nat (nat i))"

text \<open>\<open>str::parse\<close> for signed integers from \<open>- bound\<close> to \<open>bound - 1\<close>: an optional sign and digits.\<close>

definition parse_int :: "nat \<Rightarrow> string \<Rightarrow> int option" where
  "parse_int bound s =
     (if s \<noteq> [] \<and> hd s = CHR ''-''
      then if tl s = [] then None else map_option (\<lambda>n. - int n) (parse_digits (bound + 1) 0 (tl s))
      else map_option int (parse_uint bound s))"

lemma hd_show_nat_digit: "\<exists>k<10. hd (show_nat n) = char_of (48 + k :: nat)"
  using show_nat_digits [of "hd (show_nat n)" n] hd_in_set [of "show_nat n"] by auto

lemma parse_int_show:
  assumes "- int bound \<le> i" "i < int bound"
  shows "parse_int bound (show_int i) = Some i"
proof (cases "i < 0")
  case True
  then have "parse_digits (bound + 1) 0 (show_nat (nat (- i))) = Some (nat (- i))"
    using parse_digits_show [of "nat (- i)" "bound + 1" "[]"] assms by auto
  with True show ?thesis by (simp add: parse_int_def show_int_def)
next
  case False
  have "hd (show_nat (nat i)) \<noteq> CHR ''-''"
  proof
    assume "hd (show_nat (nat i)) = CHR ''-''"
    then obtain k :: nat where "k < 10" "CHR ''-'' = char_of (48 + k)" using hd_show_nat_digit by metis
    then have "of_char (CHR ''-'') = 48 + k" by (simp add: take_bit_nat_eq_self)
    then show False by simp
  qed
  with False assms show ?thesis by (simp add: parse_int_def show_int_def parse_uint_show)
qed

lemma show_int_token: "token (show_int i)"
  using show_nat_token [of "nat i"] show_nat_token [of "nat (- i)"]
  by (auto simp: show_int_def token_def graphic_def)

section \<open>Characters of a string\<close>

text \<open>\<open>s.chars().take(n)\<close>: a character is a byte that is no continuation byte, with those after it.\<close>

definition is_cont :: "char \<Rightarrow> bool" where
  "is_cont c \<longleftrightarrow> 128 \<le> (of_char c :: nat) \<and> (of_char c :: nat) < 192"

fun take_chars :: "nat \<Rightarrow> string \<Rightarrow> string" where
  "take_chars n [] = []"
| "take_chars n (c # cs) =
     (if is_cont c then c # take_chars n cs
      else case n of 0 \<Rightarrow> [] | Suc m \<Rightarrow> c # take_chars m cs)"

definition char_count :: "string \<Rightarrow> nat" where
  "char_count s = length (filter (\<lambda>c. \<not> is_cont c) s)"

lemma take_chars_prefix: "\<exists>t. s = take_chars n s @ t"
  by (induction n s rule: take_chars.induct) (auto split: nat.split)

lemma take_chars_all: "take_chars n s = s \<longleftrightarrow> char_count s \<le> n"
  by (induction n s rule: take_chars.induct) (auto simp: char_count_def split: nat.split)

lemma take_chars_set: "c \<in> set (take_chars n s) \<Longrightarrow> c \<in> set s"
  by (induction n s rule: take_chars.induct) (auto split: nat.splits if_splits)

lemma char_count_take_chars: "char_count (take_chars n s) \<le> n"
  by (induction n s rule: take_chars.induct) (auto simp: char_count_def split: nat.split)

text \<open>\<open>str::trim_matches\<close> with one character.\<close>

definition trim_matches :: "char \<Rightarrow> string \<Rightarrow> string" where
  "trim_matches c s = rev (dropWhile ((=) c) (rev (dropWhile ((=) c) s)))"

lemma trim_matches_quoted: "c \<notin> set s \<Longrightarrow> trim_matches c (c # s @ [c]) = s"
proof -
  assume c: "c \<notin> set s"
  have d: "dropWhile ((=) c) t = t" if "c \<notin> set t" for t
    using that by (cases t) auto
  have "dropWhile ((=) c) (c # s @ [c]) = (if s = [] then [] else s @ [c])"
    using d [OF c] c by (cases s) auto
  with d [of "rev s"] c show ?thesis by (simp add: trim_matches_def)
qed

text \<open>A space in front is trimmed away.\<close>

lemma trim_start_space: "trim_start (CHR '' '' # s) = trim_start s"
  unfolding trim_start_def by (subst strip.simps) simp

lemma trim_space: "trim (CHR '' '' # s) = trim s"
  by (simp add: trim_def trim_start_space)

section \<open>Valid text, one character at a time\<close>

text \<open>The bytes of one character: a first byte and the continuation bytes it asks for.\<close>

definition one_char :: "bytes \<Rightarrow> bool" where
  "one_char bs \<longleftrightarrow> bs \<noteq> [] \<and> \<not> cont (hd bs) \<and> list_all cont (tl bs) \<and> (\<forall>r. utf8_valid (bs @ r) = utf8_valid r)"

lemma not_cont_first: "b \<le> 0x7F \<or> 0xC2 \<le> b \<Longrightarrow> \<not> cont b"
  by (auto simp: cont_def word_le_nat_alt)

lemma cont_bounds: "0xA0 \<le> c \<and> c \<le> 0xBF \<Longrightarrow> cont c" "0x80 \<le> c \<and> c \<le> 0x9F \<Longrightarrow> cont c"
    "0x90 \<le> c \<and> c \<le> 0xBF \<Longrightarrow> cont c" "0x80 \<le> c \<and> c \<le> 0x8F \<Longrightarrow> cont c"
  by (auto simp: cont_def word_le_nat_alt)

lemma utf8_first:
  assumes "utf8_valid (b # bs)"
  shows "\<exists>k r. one_char (b # k) \<and> bs = k @ r \<and> utf8_valid r"
proof -
  have no: "\<not> b \<le> 0x7F" if "0xC2 \<le> b" using that by (auto simp: word_le_nat_alt)
  consider (1) "b \<le> 0x7F" | (2) "0xC2 \<le> b" "b \<le> 0xDF" | (3) "0xE0 \<le> b" "b \<le> 0xEF" | (4) "0xF0 \<le> b" "b \<le> 0xF4"
    using assms by (auto split: if_splits)
  then show ?thesis
  proof cases
    case 1
    then have "one_char [b]" by (auto simp: one_char_def not_cont_first)
    with assms 1 show ?thesis by (intro exI [of _ "[]"] exI [of _ bs]) simp
  next
    case 2
    with assms no obtain c r where bs: "bs = c # r" "cont c" "utf8_valid r" by (auto split: list.splits)
    with 2 no have "one_char [b, c]" by (auto simp: one_char_def not_cont_first)
    with bs show ?thesis by (intro exI [of _ "[c]"] exI [of _ r]) simp
  next
    case 3
    then have n: "0xC2 \<le> b" "\<not> b \<le> 0xDF" by (auto simp: word_le_nat_alt)
    with assms no 3 obtain c d r where bs: "bs = c # d # r" "utf8_valid r" "cont d"
      and c: "if b = 0xE0 then 0xA0 \<le> c \<and> c \<le> 0xBF else if b = 0xED then 0x80 \<le> c \<and> c \<le> 0x9F else cont c"
      by (auto split: list.splits)
    from c have "cont c" by (auto split: if_splits intro: cont_bounds)
    with bs c 3 n no have "one_char [b, c, d]" by (simp add: one_char_def not_cont_first)
    with bs show ?thesis by (intro exI [of _ "[c, d]"] exI [of _ r]) simp
  next
    case 4
    then have n: "0xC2 \<le> b" "\<not> b \<le> 0xDF" "\<not> b \<le> 0xEF" by (auto simp: word_le_nat_alt)
    with assms no 4 obtain c d e r where bs: "bs = c # d # e # r" "utf8_valid r" "cont d" "cont e"
      and c: "if b = 0xF0 then 0x90 \<le> c \<and> c \<le> 0xBF else if b = 0xF4 then 0x80 \<le> c \<and> c \<le> 0x8F else cont c"
      by (auto split: list.splits)
    from c have "cont c" by (auto split: if_splits intro: cont_bounds)
    moreover have "utf8_valid ([b, c, d, e] @ t) = utf8_valid t" for t using bs(3,4) c 4 n no by simp
    moreover have "\<not> cont b" using n by (simp add: not_cont_first)
    ultimately have "one_char [b, c, d, e]" using bs(3,4) unfolding one_char_def by simp
    with bs(1,2) have "one_char (b # [c, d, e]) \<and> bs = [c, d, e] @ r \<and> utf8_valid r" by simp
    then show ?thesis by blast
  qed
qed

lemma is_str_induct [consumes 1, case_names Nil Char]:
  assumes "is_str s" and "P []"
    and "\<And>c s. one_char (as_bytes c) \<Longrightarrow> is_str s \<Longrightarrow> P s \<Longrightarrow> P (c @ s)"
  shows "P s"
  using assms(1)
proof (induction s rule: length_induct)
  case (1 s)
  show ?case
  proof (cases s)
    case Nil
    with assms(2) show ?thesis by simp
  next
    case (Cons a s')
    with "1.prems" obtain k r where k: "one_char (of_char a # k)" "as_bytes s' = k @ r" "utf8_valid r"
      using utf8_first [of "of_char a" "as_bytes s'"] by (auto simp: is_str_def as_bytes_def)
    have s': "s' = str_of_bytes k @ str_of_bytes r"
      using arg_cong [OF k(2), of str_of_bytes] str_of_as_bytes [of s'] by (simp add: str_of_bytes_def)
    have "as_bytes (a # str_of_bytes k) = of_char a # k" using as_bytes_str_of_bytes [of k] by (simp add: as_bytes_def)
    moreover have r: "is_str (str_of_bytes r)" using k(3) by (simp add: is_str_def)
    moreover have "length (str_of_bytes r) < length s" by (simp add: Cons s')
    ultimately have "P ((a # str_of_bytes k) @ str_of_bytes r)"
      using "1.IH" k(1) by (intro assms(3)) auto
    then show ?thesis by (simp add: Cons s')
  qed
qed

lemma is_str_Nil [simp]: "is_str []"
  by (simp add: is_str_def as_bytes_def)

lemma is_str_one_char: "one_char (as_bytes c) \<Longrightarrow> is_str (c @ s) \<longleftrightarrow> is_str s"
  by (auto simp: one_char_def is_str_def)

lemma is_str_append: "is_str s \<Longrightarrow> is_str t \<Longrightarrow> is_str (s @ t)"
  by (induction s rule: is_str_induct) (simp_all add: is_str_one_char)

lemma is_cont_cont: "is_cont c \<longleftrightarrow> cont (of_char c)"
  by (simp add: is_cont_def cont_def word_le_nat_alt) linarith

lemma take_chars_cont: "list_all is_cont c \<Longrightarrow> take_chars n (c @ s) = c @ take_chars n s"
  by (induction c) auto

lemma one_char_parts: "one_char bs \<Longrightarrow> bs \<noteq> [] \<and> \<not> cont (hd bs) \<and> list_all cont (tl bs)"
  unfolding one_char_def by blast

lemma one_char_string:
  assumes "one_char (as_bytes c)"
  obtains a k where "c = a # k" "\<not> is_cont a" "list_all is_cont k"
  using one_char_parts [OF assms] by (cases c) (auto simp: as_bytes_def is_cont_cont list_all_iff)

text \<open>Cutting between characters and dropping some ASCII characters leaves valid text.\<close>

lemma is_str_take_chars: "is_str s \<Longrightarrow> is_str (take_chars n s)"
proof (induction s arbitrary: n rule: is_str_induct)
  case (Char c s)
  obtain a k where c: "c = a # k" "\<not> is_cont a" "list_all is_cont k" using Char(1) by (rule one_char_string)
  have "take_chars (Suc m) (c @ s) = c @ take_chars m s" for m using c by (simp add: take_chars_cont)
  moreover have "take_chars 0 (c @ s) = []" using c by simp
  ultimately show ?case using Char is_str_one_char [OF Char(1)] by (cases n) simp_all
qed simp

lemma is_str_filter:
  assumes "is_str s" and "\<And>c. \<not> P c \<Longrightarrow> of_char c < (128 :: nat)"
  shows "is_str (filter P s)"
  using assms(1)
proof (induction s rule: is_str_induct)
  case (Char c s)
  obtain a k where c: "c = a # k" "\<not> is_cont a" "list_all is_cont k" using Char(1) by (rule one_char_string)
  have "filter P k = k"
    using c(3) assms(2) by (intro filter_True) (fastforce simp: list_all_iff is_cont_def not_less)
  show ?case
  proof (cases "P a")
    case True
    with \<open>filter P k = k\<close> Char is_str_one_char [OF Char(1)] show ?thesis by (simp add: c)
  next
    case False
    then have "is_str [a]" using assms(2) by (intro is_ascii_is_str) (simp add: is_ascii_def)
    have "k = []"
    proof (rule ccontr)
      assume "k \<noteq> []"
      then obtain x y where k: "k = x # y" by (cases k) auto
      have a: "(of_char a :: byte) \<le> 0x7F" using assms(2) [OF False] by (rule ascii_byte)
      have "utf8_valid (as_bytes c @ []) = utf8_valid []" using Char(1) unfolding one_char_def by blast
      then have "utf8_valid (as_bytes k)" using a by (simp add: c as_bytes_def)
      then have "utf8_valid (of_char x # as_bytes y)" by (simp add: k as_bytes_def)
      from utf8_first [OF this] have "\<not> cont (of_char x)" by (auto simp only: one_char_def list.sel)
      with c(3) k show False by (simp add: is_cont_cont)
    qed
    with False Char \<open>filter P k = k\<close> show ?thesis by (simp add: c)
  qed
qed simp

lemma is_str_ascii_append: "is_ascii s \<Longrightarrow> is_str t \<Longrightarrow> is_str (s @ t)"
  by (simp add: is_str_append)

end
