(* ===== verification/Protocol.thy ===== *)
theory Protocol
  imports Rust_Str
begin

text \<open>
  The messages of \<open>mrsh-core/src/protocol.rs\<close> as records, one field per field of the struct; absent
  JSON members are \<open>None\<close>.
\<close>

record auth_request =
  auth_type :: string
  aq_public_key :: "string option"
  aq_key_type :: "string option"
  aq_username :: "string option"
  aq_password :: "string option"
  aq_version :: "string option"
  want_mux :: "bool option"
  aq_caps :: "string list option"

record auth_challenge =
  ac_challenge :: string

record auth_response =
  ar_signature :: string

record totp_challenge =
  totp_required :: bool

record totp_response =
  totp_code :: string

record auth_result =
  au_success :: bool
  au_error :: "string option"
  au_version :: "string option"
  mux_enabled :: "bool option"
  au_caps :: "string list option"
  au_banner :: "string option"
  au_device_id :: "string option"
  au_rendezvous_server :: "string option"

record delta_op_msg =
  op_type :: string
  op_index :: "int option"
  op_data :: "string option"

record block_sig =
  bs_index :: int
  bs_weak :: u32
  bs_strong :: string

record batch_patch_item =
  bp_path :: string
  bp_delta :: "delta_op_msg list option"
  bp_content :: "string option"
  backup_suffix :: "string option"

record request =
  req_type :: string
  rq_command :: "string option"
  rq_path :: "string option"
  rq_content :: "string option"
  rq_binary :: "bool option"
  rq_gzip :: "bool option"
  rq_sync_type :: "string option"
  rq_delta :: "delta_op_msg list option"
  rq_signatures :: "block_sig list option"
  rq_paths :: "string list option"
  rq_batch_patches :: "batch_patch_item list option"
  rq_env_vars :: "string list option"
  rq_track :: "string option"
  rq_version :: "string option"
  rq_allow_downgrade :: "bool option"
  rq_insecure_no_verify :: "bool option"

record response =
  rs_success :: bool
  rs_output :: "string option"
  rs_error :: "string option"
  rs_size :: "int option"
  rs_binary :: "bool option"
  rs_gzip :: "bool option"

record file_info =
  fi_name :: string
  fi_size :: int
  fi_mode :: string
  fi_mod_time :: string
  fi_is_dir :: bool

definition response_error :: "string \<Rightarrow> response" where
  "response_error m = \<lparr>rs_success = False, rs_output = None, rs_error = Some m, rs_size = None,
     rs_binary = None, rs_gzip = None\<rparr>"

definition response_ok :: "string option \<Rightarrow> response" where
  "response_ok out = \<lparr>rs_success = True, rs_output = out, rs_error = None, rs_size = None,
     rs_binary = None, rs_gzip = None\<rparr>"

end
