(* ===== verification/Framing.thy ===== *)
theory Framing
  imports Prelude
begin

text \<open>
  What every framing of the program promises: a frame decodes to the message it was made from and
  leaves the rest of the stream alone, and a decision once taken does not depend on bytes that
  arrive later. Three framings implement it: the length-prefixed messages of
  \<open>mrsh-core/src/wire.rs\<close>, the variable-length relay frames of \<open>mrsh-relay/src/codec.rs\<close> and the
  multiplexer frames of \<open>mrsh-server/src/mux.rs\<close>.
\<close>

text \<open>Reading a number of frames one after the other, as every receive loop does.\<close>

fun recv_n :: "(bytes \<Rightarrow> ('m \<times> bytes) result) \<Rightarrow> nat \<Rightarrow> bytes \<Rightarrow> ('m list \<times> bytes) result" where
  "recv_n dec 0 s = Inr ([], s)"
| "recv_n dec (Suc n) s =
     and_then (dec s) (\<lambda>(m, s'). and_then (recv_n dec n s') (\<lambda>(ms, s''). Inr (m # ms, s'')))"

locale framing =
  fixes enc :: "'m \<Rightarrow> bytes"
    and dec :: "bytes \<Rightarrow> ('m \<times> bytes) result"
    and sendable :: "'m \<Rightarrow> bool"
  assumes dec_enc: "sendable m \<Longrightarrow> dec (enc m @ rest) = Inr (m, rest)"
    and dec_mono: "dec s = Inr (m, r) \<Longrightarrow> dec (s @ t) = Inr (m, r @ t)"
begin

lemma dec_enc_alone: "sendable m \<Longrightarrow> dec (enc m) = Inr (m, [])"
  using dec_enc [of m "[]"] by simp

lemma enc_prefix_free:
  assumes "sendable m" "sendable m'" "enc m @ r = enc m' @ r'"
  shows "m = m' \<and> r = r'"
proof -
  have "Inr (m, r) = dec (enc m @ r)" by (simp only: dec_enc [OF assms(1)])
  also have "\<dots> = Inr (m', r')" by (simp only: assms(3) dec_enc [OF assms(2)])
  finally show ?thesis by simp
qed

lemma truncated_refused:
  assumes "sendable m" "enc m = p @ t" "t \<noteq> []"
  shows "\<exists>e. dec p = Inl e"
proof (cases "dec p")
  case (Inr mr)
  then obtain m' r where "dec p = Inr (m', r)" by (cases mr) auto
  then have "dec (p @ t) = Inr (m', r @ t)" by (rule dec_mono)
  with dec_enc_alone [OF assms(1)] assms(2,3) show ?thesis by simp
qed simp

lemma recv_n_stream:
  "list_all sendable ms \<Longrightarrow>
    recv_n dec (length ms) (concat (map enc ms) @ rest) = Inr (ms, rest)"
  by (induction ms) (auto simp: dec_enc)

end

end
