(* ===== verification/Wire.thy ===== *)
theory Wire
  imports Framing
begin

text \<open>
  The length-prefixed wire protocol of \<open>mrsh-core/src/wire.rs\<close>: a 4-byte big-endian header and the
  payload, JSON values as payloads, and the optionally compressed JSON messages with their flag
  byte. Serde's serialiser and deserialiser and the zstd coder are parameters.
\<close>

section \<open>Messages\<close>

definition MAX_MESSAGE_SIZE :: u32 where
  "MAX_MESSAGE_SIZE = 50 * 1024 * 1024"

text \<open>\<open>data.len() as u32\<close> keeps the low 32 bits of the length.\<close>

definition send_message :: "bytes \<Rightarrow> bytes" where
  "send_message data = be_bytes 4 (unat (word_of_nat (length data) :: u32)) @ data"

definition recv_message :: "bytes \<Rightarrow> (bytes \<times> bytes) result" where
  "recv_message s =
     and_then (read_exact 4 s) (\<lambda>(header, s1).
       let len = (word_of_nat (from_be header) :: u32)
       in if MAX_MESSAGE_SIZE < len then Inl (MessageTooLarge (unat len))
          else read_exact (unat len) s1)"

definition wire_sendable :: "bytes \<Rightarrow> bool" where
  "wire_sendable data \<longleftrightarrow> length data \<le> 52428800"

section \<open>JSON payloads\<close>

definition send_json :: "('a \<Rightarrow> bytes option) \<Rightarrow> 'a \<Rightarrow> bytes result" where
  "send_json ser v = and_then (ok_or Serialize (ser v)) (\<lambda>d. Inr (send_message d))"

definition recv_json :: "(bytes \<Rightarrow> 'a option) \<Rightarrow> bytes \<Rightarrow> ('a \<times> bytes) result" where
  "recv_json de s =
     and_then (recv_message s) (\<lambda>(d, s'). and_then (ok_or Deserialize (de d)) (\<lambda>v. Inr (v, s')))"

definition ZSTD_FLAG :: byte where "ZSTD_FLAG = 1"
definition RAW_FLAG :: byte where "RAW_FLAG = 0"
definition COMPRESS_THRESHOLD :: nat where "COMPRESS_THRESHOLD = 256"

text \<open>The payload \<open>send_json_compressed\<close> frames: compressed only when that is shorter.\<close>

definition compressed_payload :: "(bytes \<Rightarrow> bytes option) \<Rightarrow> bytes \<Rightarrow> bytes result" where
  "compressed_payload zstd json =
     (if COMPRESS_THRESHOLD < length json
      then and_then (ok_or Serialize (zstd json)) (\<lambda>c.
             if length c < length json then Inr (ZSTD_FLAG # c) else Inr (RAW_FLAG # json))
      else Inr (RAW_FLAG # json))"

definition send_json_compressed ::
  "('a \<Rightarrow> bytes option) \<Rightarrow> (bytes \<Rightarrow> bytes option) \<Rightarrow> 'a \<Rightarrow> bytes result" where
  "send_json_compressed ser zstd v =
     and_then (ok_or Serialize (ser v)) (\<lambda>json.
       and_then (compressed_payload zstd json) (\<lambda>m. Inr (send_message m)))"

definition decode_compressed ::
  "(bytes \<Rightarrow> 'a option) \<Rightarrow> (bytes \<Rightarrow> bytes option) \<Rightarrow> bytes \<Rightarrow> 'a result" where
  "decode_compressed de unzstd d =
     (case d of
        [] \<Rightarrow> Inl EmptyMessage
      | flag # body \<Rightarrow>
          if flag = ZSTD_FLAG
          then and_then (ok_or Decompress (unzstd body)) (\<lambda>j. ok_or Deserialize (de j))
          else if flag = RAW_FLAG then ok_or Deserialize (de body)
          else ok_or Deserialize (de d))"

definition recv_json_compressed ::
  "(bytes \<Rightarrow> 'a option) \<Rightarrow> (bytes \<Rightarrow> bytes option) \<Rightarrow> bytes \<Rightarrow> ('a \<times> bytes) result" where
  "recv_json_compressed de unzstd s =
     and_then (recv_message s) (\<lambda>(d, s').
       and_then (decode_compressed de unzstd d) (\<lambda>v. Inr (v, s')))"

section \<open>The wire protocol is a framing\<close>

lemma unat_MAX_MESSAGE_SIZE [simp]: "unat MAX_MESSAGE_SIZE = 52428800"
  by (simp add: MAX_MESSAGE_SIZE_def)

text \<open>The receiver with its 32-bit length read as a number.\<close>

lemma recv_message_nat:
  "recv_message s =
     (if length s < 4 then Inl Eof
      else if 52428800 < from_be (take 4 s) then Inl (MessageTooLarge (from_be (take 4 s)))
      else read_exact (from_be (take 4 s)) (drop 4 s))"
proof (cases "length s < 4")
  case False
  then have "from_be (take 4 s) < 4294967296"
    using from_be_less [of "take 4 s"] by simp
  then have "unat (word_of_nat (from_be (take 4 s)) :: u32) = from_be (take 4 s)"
    by (rule unat_u32_of_nat)
  with False show ?thesis
    by (simp add: recv_message_def read_exact_def [of 4] word_less_nat_alt)
qed (simp add: recv_message_def read_exact_def)

lemma recv_send_message:
  assumes "wire_sendable data"
  shows "recv_message (send_message data @ rest) = Inr (data, rest)"
  using assms
  by (simp add: recv_message_nat send_message_def wire_sendable_def unat_u32_of_nat bytes_simps)

lemma recv_message_mono:
  "recv_message s = Inr (m, r) \<Longrightarrow> recv_message (s @ t) = Inr (m, r @ t)"
  by (auto simp: recv_message_nat read_exact_mono split: if_splits)

lemma recv_message_Inl_mono:
  "recv_message s = Inl e \<Longrightarrow> e = Eof \<or> recv_message (s @ t) = Inl e"
  by (auto simp: recv_message_def read_exact_def Let_def split: if_splits)

lemma recv_message_bounded:
  "recv_message s = Inr (m, r) \<Longrightarrow> wire_sendable m \<and> length s = 4 + length m + length r"
  by (auto simp: recv_message_nat read_exact_def wire_sendable_def split: if_splits)

interpretation wire: framing send_message recv_message wire_sendable
  by unfold_locales (rule recv_send_message, assumption, rule recv_message_mono)

lemma recv_json_send_json:
  assumes "ser v = Some d" "de d = Some v" "wire_sendable d"
  shows "\<exists>bs. send_json ser v = Inr bs \<and> recv_json de (bs @ rest) = Inr (v, rest)"
  using assms by (simp add: send_json_def recv_json_def recv_send_message)

lemma decode_compressed_payload:
  assumes "de json = Some v" "\<And>c. zstd json = Some c \<Longrightarrow> unzstd c = Some json"
    and "compressed_payload zstd json = Inr m"
  shows "decode_compressed de unzstd m = Inr v"
  using assms
  by (auto simp: compressed_payload_def decode_compressed_def ZSTD_FLAG_def RAW_FLAG_def result_simps
      split: if_splits)

lemma compressed_payload_length:
  "compressed_payload zstd json = Inr m \<Longrightarrow> length m \<le> length json + 1"
  by (auto simp: compressed_payload_def result_simps split: if_splits)

section \<open>Properties\<close>

text \<open>C1. A stream of messages written one after the other with \<open>send_message\<close> is read back by the
  same number of \<open>recv_message\<close> calls as exactly those messages, and nothing of what follows on the
  stream is consumed. Messages are at most 50 MB, the limit the receiver enforces.\<close>

theorem wire_stream_roundtrip:
  assumes "list_all wire_sendable ms"
  shows "recv_n recv_message (length ms) (concat (map send_message ms) @ rest) = Inr (ms, rest)"
  using assms by (rule wire.recv_n_stream)

theorem wire_stream_roundtrip_witness:
  "recv_n recv_message 2 [0, 0, 0, 2, 1, 2, 0, 0, 0, 0, 7] = Inr ([[1, 2], []], [7])"
proof -
  have ok: "list_all wire_sendable [[1, 2], []]" by (simp add: wire_sendable_def)
  have bytes: "concat (map send_message [[1, 2], []]) @ [7] = [0, 0, 0, 2, 1, 2, 0, 0, 0, 0, 7]"
    by code_simp
  show ?thesis
    using wire_stream_roundtrip [OF ok, of "[7]", unfolded bytes]
    by (simp only: length_Cons list.size(3) numeral_2_eq_2)
qed

end
