(* ===== verification/Binproto.thy ===== *)
theory Binproto
  imports Rust_Str Wire
begin

text \<open>
  The binary message protocol of \<open>mrsh-core/src/binproto.rs\<close>: typed messages over the wire framing,
  length-prefixed strings and blobs, and the builders and parsers of every payload. Builders append
  to a buffer in the source; here each field is the bytes it appends.
\<close>

section \<open>Message types\<close>

definition AUTH_REQUEST :: byte where "AUTH_REQUEST = 0x01"
definition AUTH_CHALLENGE :: byte where "AUTH_CHALLENGE = 0x02"
definition AUTH_RESPONSE :: byte where "AUTH_RESPONSE = 0x03"
definition AUTH_OK :: byte where "AUTH_OK = 0x04"
definition AUTH_FAIL :: byte where "AUTH_FAIL = 0x05"
definition TOTP_CHALLENGE :: byte where "TOTP_CHALLENGE = 0x06"
definition TOTP_RESPONSE :: byte where "TOTP_RESPONSE = 0x07"
definition EXEC :: byte where "EXEC = 0x10"
definition EXEC_RESULT :: byte where "EXEC_RESULT = 0x11"
definition EXEC_STREAM :: byte where "EXEC_STREAM = 0x12"
definition EXEC_STDOUT :: byte where "EXEC_STDOUT = 0x13"
definition EXEC_STDERR :: byte where "EXEC_STDERR = 0x14"
definition EXEC_EXIT :: byte where "EXEC_EXIT = 0x15"
definition EXEC_SIGNAL :: byte where "EXEC_SIGNAL = 0x16"
definition PUSH_START :: byte where "PUSH_START = 0x20"
definition PUSH_DATA :: byte where "PUSH_DATA = 0x21"
definition PUSH_END :: byte where "PUSH_END = 0x22"
definition PUSH_OK :: byte where "PUSH_OK = 0x23"
definition PULL_REQ :: byte where "PULL_REQ = 0x30"
definition PULL_DATA :: byte where "PULL_DATA = 0x31"
definition PULL_END :: byte where "PULL_END = 0x32"
definition INFO_REQ :: byte where "INFO_REQ = 0x40"
definition INFO_RESP :: byte where "INFO_RESP = 0x41"
definition PING :: byte where "PING = 0x50"
definition PONG :: byte where "PONG = 0x51"
definition SCREENSHOT_REQ :: byte where "SCREENSHOT_REQ = 0x60"
definition SCREENSHOT_DATA :: byte where "SCREENSHOT_DATA = 0x61"
definition SELF_UPDATE :: byte where "SELF_UPDATE = 0x70"
definition SELF_UPDATE_OK :: byte where "SELF_UPDATE_OK = 0x71"
definition SHELL_REQ :: byte where "SHELL_REQ = 0x80"
definition SHELL_DATA :: byte where "SHELL_DATA = 0x81"
definition SHELL_RESIZE :: byte where "SHELL_RESIZE = 0x82"
definition SYNC_REQ :: byte where "SYNC_REQ = 0x90"
definition SYNC_RESP :: byte where "SYNC_RESP = 0x91"
definition LOG_QUERY :: byte where "LOG_QUERY = 0xA0"
definition LOG_DATA :: byte where "LOG_DATA = 0xA1"
definition LOG_END :: byte where "LOG_END = 0xA2"
definition REQUEST :: byte where "REQUEST = 0xF0"
definition RESPONSE :: byte where "RESPONSE = 0xF1"
definition ERROR :: byte where "ERROR = 0xFF"

lemmas msg_ids =
  AUTH_REQUEST_def AUTH_CHALLENGE_def AUTH_RESPONSE_def AUTH_OK_def AUTH_FAIL_def
  TOTP_CHALLENGE_def TOTP_RESPONSE_def EXEC_def EXEC_RESULT_def EXEC_STREAM_def EXEC_STDOUT_def
  EXEC_STDERR_def EXEC_EXIT_def EXEC_SIGNAL_def PUSH_START_def PUSH_DATA_def PUSH_END_def
  PUSH_OK_def PULL_REQ_def PULL_DATA_def PULL_END_def INFO_REQ_def INFO_RESP_def PING_def
  PONG_def SCREENSHOT_REQ_def SCREENSHOT_DATA_def SELF_UPDATE_def SELF_UPDATE_OK_def
  SHELL_REQ_def SHELL_DATA_def SHELL_RESIZE_def SYNC_REQ_def SYNC_RESP_def LOG_QUERY_def
  LOG_DATA_def LOG_END_def REQUEST_def RESPONSE_def ERROR_def

section \<open>Encoding helpers\<close>

definition encode_str :: "string \<Rightarrow> bytes" where
  "encode_str s = be_bytes 2 (unat (word_of_nat (length s) :: u16)) @ as_bytes s"

definition encode_blob :: "bytes \<Rightarrow> bytes" where
  "encode_blob data = be_bytes 4 (unat (word_of_nat (length data) :: u32)) @ data"

definition decode_str :: "bytes \<Rightarrow> nat \<Rightarrow> (string \<times> nat) result" where
  "decode_str data offset =
     (if length data < offset + 2 then Inl (Truncated offset)
      else let len = from_be [data ! offset, data ! (offset + 1)];
               start = offset + 2;
               end' = start + len
           in if length data < end' then Inl (Truncated offset)
              else and_then (from_utf8 (take len (drop start data))) (\<lambda>s. Inr (s, end')))"

definition decode_blob :: "bytes \<Rightarrow> nat \<Rightarrow> (bytes \<times> nat) result" where
  "decode_blob data offset =
     (if length data < offset + 4 then Inl (Truncated offset)
      else let len = from_be [data ! offset, data ! (offset + 1), data ! (offset + 2), data ! (offset + 3)];
               start = offset + 4;
               end' = start + len
           in if length data < end' then Inl (Truncated offset)
              else Inr (take len (drop start data), end'))"

definition decode_u32_le :: "bytes \<Rightarrow> nat \<Rightarrow> (u32 \<times> nat) result" where
  "decode_u32_le data offset =
     (if length data < offset + 4 then Inl (Truncated offset)
      else Inr (word_of_nat (from_le (take 4 (drop offset data))), offset + 4))"

definition decode_u64_le :: "bytes \<Rightarrow> nat \<Rightarrow> (u64 \<times> nat) result" where
  "decode_u64_le data offset =
     (if length data < offset + 8 then Inl (Truncated offset)
      else Inr (word_of_nat (from_le (take 8 (drop offset data))), offset + 8))"

text \<open>The loops \<open>for _ in 0..n\<close> that decode a counted list of strings.\<close>

fun decode_n :: "(bytes \<Rightarrow> nat \<Rightarrow> ('a \<times> nat) result) \<Rightarrow> nat \<Rightarrow> bytes \<Rightarrow> nat \<Rightarrow> ('a list \<times> nat) result" where
  "decode_n get 0 data off = Inr ([], off)"
| "decode_n get (Suc n) data off =
     and_then (get data off) (\<lambda>(x, off1).
       and_then (decode_n get n data off1) (\<lambda>(xs, off2). Inr (x # xs, off2)))"

section \<open>Typed messages\<close>

definition send_msg :: "byte \<Rightarrow> bytes \<Rightarrow> bytes" where
  "send_msg type_id payload = send_message (type_id # payload)"

definition send_empty :: "byte \<Rightarrow> bytes" where
  "send_empty type_id = send_message [type_id]"

definition recv_msg :: "bytes \<Rightarrow> ((byte \<times> bytes) \<times> bytes) result" where
  "recv_msg s =
     and_then (recv_message s) (\<lambda>(data, s').
       case data of [] \<Rightarrow> Inl EmptyMessage | type_id # payload \<Rightarrow> Inr ((type_id, payload), s'))"

section \<open>Payloads\<close>

subsection \<open>Authentication\<close>

definition build_auth_request :: "bytes \<Rightarrow> string \<Rightarrow> string list \<Rightarrow> bytes" where
  "build_auth_request pubkey version caps =
     encode_blob pubkey @ encode_str version @ [word_of_nat (length caps)] @ concat (map encode_str caps)"

definition parse_auth_request :: "bytes \<Rightarrow> (bytes \<times> string \<times> string list) result" where
  "parse_auth_request data =
     and_then (decode_blob data 0) (\<lambda>(pubkey, off).
     and_then (decode_str data off) (\<lambda>(version, off).
       if length data \<le> off then Inr (pubkey, version, [])
       else and_then (decode_n decode_str (unat (data ! off)) data (off + 1)) (\<lambda>(caps, _).
              Inr (pubkey, version, caps))))"

text \<open>An optional string: a flag byte and, after flag 1, the string.\<close>

definition encode_opt :: "string option \<Rightarrow> bytes" where
  "encode_opt x = (case x of Some s \<Rightarrow> 1 # encode_str s | None \<Rightarrow> [0])"

definition decode_opt :: "bytes \<Rightarrow> nat \<Rightarrow> (string option \<times> nat) result" where
  "decode_opt data off =
     (if off < length data \<and> data ! off = 1
      then and_then (decode_str data (off + 1)) (\<lambda>(s, new_off). Inr (Some s, new_off))
      else Inr (None, if off < length data then off + 1 else off))"

definition build_auth_ok_full ::
  "string \<Rightarrow> string list \<Rightarrow> string option \<Rightarrow> string option \<Rightarrow> string option \<Rightarrow> bytes" where
  "build_auth_ok_full version caps banner device_id rendezvous_server =
     encode_str version @ [word_of_nat (length caps)] @ concat (map encode_str caps)
     @ encode_opt banner @ encode_opt device_id @ encode_opt rendezvous_server"

record auth_ok_fields =
  aok_version :: string
  aok_caps :: "string list"
  aok_banner :: "string option"
  aok_device_id :: "string option"
  aok_rendezvous_server :: "string option"

definition parse_auth_ok_full :: "bytes \<Rightarrow> auth_ok_fields result" where
  "parse_auth_ok_full data =
     and_then (decode_str data 0) (\<lambda>(version, off).
       if length data \<le> off
       then Inr \<lparr>aok_version = version, aok_caps = [], aok_banner = None, aok_device_id = None,
                  aok_rendezvous_server = None\<rparr>
       else
         and_then (decode_n decode_str (unat (data ! off)) data (off + 1)) (\<lambda>(caps, off).
         and_then (decode_opt data off) (\<lambda>(banner, off).
         and_then (decode_opt data off) (\<lambda>(device_id, off).
         and_then (decode_opt data off) (\<lambda>(rdv, _).
           Inr \<lparr>aok_version = version, aok_caps = caps, aok_banner = banner,
                aok_device_id = device_id, aok_rendezvous_server = rdv\<rparr>)))))"

subsection \<open>Exec, push, pull and errors\<close>

definition build_exec :: "string \<Rightarrow> string list \<Rightarrow> bytes" where
  "build_exec command env_vars =
     encode_str command @ [word_of_nat (min (length env_vars) 255)]
     @ concat (map encode_str (take 255 env_vars))"

definition parse_exec :: "bytes \<Rightarrow> (string \<times> string list) result" where
  "parse_exec data =
     and_then (decode_str data 0) (\<lambda>(command, off).
       if length data \<le> off then Inr (command, [])
       else and_then (decode_n decode_str (unat (data ! off)) data (off + 1)) (\<lambda>(env_vars, _).
              Inr (command, env_vars)))"

definition build_exec_result :: "u32 \<Rightarrow> bytes \<Rightarrow> bytes" where
  "build_exec_result exit_code output = le_bytes 4 (unat exit_code) @ encode_blob output"

definition parse_exec_result :: "bytes \<Rightarrow> (u32 \<times> bytes) result" where
  "parse_exec_result data =
     and_then (decode_u32_le data 0) (\<lambda>(exit_code, off).
     and_then (decode_blob data off) (\<lambda>(output, _). Inr (exit_code, output)))"

definition build_push_start :: "u64 \<Rightarrow> string \<Rightarrow> bytes" where
  "build_push_start file_size remote_path = le_bytes 8 (unat file_size) @ encode_str remote_path"

definition parse_push_start :: "bytes \<Rightarrow> (u64 \<times> string) result" where
  "parse_push_start data =
     and_then (decode_u64_le data 0) (\<lambda>(file_size, off).
     and_then (decode_str data off) (\<lambda>(path, _). Inr (file_size, path)))"

definition build_pull_req :: "string \<Rightarrow> bytes" where
  "build_pull_req remote_path = encode_str remote_path"

definition parse_pull_req :: "bytes \<Rightarrow> string result" where
  "parse_pull_req data = and_then (decode_str data 0) (\<lambda>(path, _). Inr path)"

definition build_error :: "string \<Rightarrow> bytes" where
  "build_error error = encode_str error"

definition parse_error :: "bytes \<Rightarrow> string result" where
  "parse_error data = and_then (decode_str data 0) (\<lambda>(error, _). Inr error)"

subsection \<open>Log queries\<close>

definition build_log_query :: "string \<Rightarrow> string \<Rightarrow> byte \<Rightarrow> u32 \<Rightarrow> u64 \<Rightarrow> u32 \<Rightarrow> bytes" where
  "build_log_query path pattern flags tail_lines byte_offset max_matches =
     encode_str path @ encode_str pattern @ [flags] @ be_bytes 4 (unat tail_lines)
     @ be_bytes 8 (unat byte_offset) @ be_bytes 4 (unat max_matches)"

definition parse_log_query :: "bytes \<Rightarrow> (string \<times> string \<times> byte \<times> u32 \<times> u64 \<times> u32) result" where
  "parse_log_query data =
     and_then (decode_str data 0) (\<lambda>(path, off).
     and_then (decode_str data off) (\<lambda>(pattern, off).
       if length data < off + 1 + 4 + 8 + 4 then Inl PayloadTooShort
       else Inr (path, pattern, data ! off,
              word_of_nat (from_be (take 4 (drop (off + 1) data))),
              word_of_nat (from_be (take 8 (drop (off + 5) data))),
              word_of_nat (from_be (take 4 (drop (off + 13) data))))))"

definition build_log_end :: "u64 \<Rightarrow> u64 \<Rightarrow> u64 \<Rightarrow> bytes" where
  "build_log_end lines_scanned matches_found final_offset =
     be_bytes 8 (unat lines_scanned) @ be_bytes 8 (unat matches_found) @ be_bytes 8 (unat final_offset)"

definition parse_log_end :: "bytes \<Rightarrow> (u64 \<times> u64 \<times> u64) result" where
  "parse_log_end data =
     (if length data < 24 then Inl PayloadTooShort
      else Inr (word_of_nat (from_be (take 8 data)),
                word_of_nat (from_be (take 8 (drop 8 data))),
                word_of_nat (from_be (take 8 (drop 16 data)))))"

section \<open>Fields\<close>

text \<open>
  The contract every field decoder keeps: at the offset where a field was written it returns the
  value and the offset just after it, and whatever it accepts lies inside the buffer.
\<close>

locale field =
  fixes put :: "'a \<Rightarrow> bytes"
    and get :: "bytes \<Rightarrow> nat \<Rightarrow> ('a \<times> nat) result"
    and fits :: "'a \<Rightarrow> bool"
  assumes get_put: "fits x \<Longrightarrow> get (p @ put x @ q) (length p) = Inr (x, length p + length (put x))"
    and get_within: "get d off = Inr (x, off') \<Longrightarrow> off < off' \<and> off' \<le> length d"
begin

lemma get_at:
  assumes "fits x" "d = p @ put x @ q" "off = length p"
  shows "get d off = Inr (x, length p + length (put x))"
  using get_put [OF assms(1)] assms(2,3) by simp

lemma decode_n_put:
  "list_all fits xs \<Longrightarrow>
    decode_n get (length xs) (p @ concat (map put xs) @ q) (length p)
      = Inr (xs, length p + length (concat (map put xs)))"
proof (induction xs arbitrary: p)
  case (Cons x xs)
  then have x: "get (p @ put x @ concat (map put xs) @ q) (length p)
      = Inr (x, length (p @ put x))"
    using get_put [of x p "concat (map put xs) @ q"] by simp
  from Cons have xs: "decode_n get (length xs) ((p @ put x) @ concat (map put xs) @ q) (length (p @ put x))
      = Inr (xs, length (p @ put x) + length (concat (map put xs)))"
    by (intro Cons.IH) simp
  from x xs show ?case by simp
qed simp

lemma decode_n_at:
  assumes "list_all fits xs" "d = p @ concat (map put xs) @ q" "off = length p" "n = length xs"
  shows "decode_n get n d off = Inr (xs, length p + length (concat (map put xs)))"
  using decode_n_put [OF assms(1)] assms(2-4) by simp

lemma decode_n_within:
  "decode_n get n d off = Inr (xs, off') \<Longrightarrow> off \<le> length d \<Longrightarrow>
    length xs = n \<and> off + n \<le> off' \<and> off' \<le> length d"
proof (induction n arbitrary: off xs)
  case (Suc n)
  then obtain x off1 ys where
    "get d off = Inr (x, off1)" "decode_n get n d off1 = Inr (ys, off')" "xs = x # ys"
    by (auto simp: result_simps)
  with Suc.IH [of off1 ys] get_within [of d off x off1] show ?case by auto
qed auto

end

text \<open>Strings of up to 65535 bytes and blobs of up to \<open>2 ^ 32 - 1\<close> bytes fit their length prefix.\<close>

definition str_fits :: "string \<Rightarrow> bool" where
  "str_fits s \<longleftrightarrow> is_str s \<and> length s < 65536"

definition blob_fits :: "bytes \<Rightarrow> bool" where
  "blob_fits b \<longleftrightarrow> length b < 4294967296"

definition opt_fits :: "string option \<Rightarrow> bool" where
  "opt_fits x \<longleftrightarrow> (case x of None \<Rightarrow> True | Some s \<Rightarrow> str_fits s)"

lemma opt_fits_simps [simp]: "opt_fits None" "opt_fits (Some s) = str_fits s"
  by (simp_all add: opt_fits_def)

lemma length_encode_str [simp]: "length (encode_str s) = 2 + length s"
  by (simp add: encode_str_def)

lemma length_encode_blob [simp]: "length (encode_blob b) = 4 + length b"
  by (simp add: encode_blob_def)

text \<open>The length prefixes, written and read at an offset.\<close>

lemma decode_str_drop:
  "decode_str d off =
     (if length d < off + 2 then Inl (Truncated off)
      else let len = from_be (take 2 (drop off d))
           in if length d < off + 2 + len then Inl (Truncated off)
              else and_then (from_utf8 (take len (drop (off + 2) d))) (\<lambda>s. Inr (s, off + 2 + len)))"
proof -
  have "take 2 (drop off d) = [d ! off, d ! (off + 1)]" if "off + 2 \<le> length d"
    using that by (simp add: take_Suc_conv_app_nth numeral_2_eq_2)
  then show ?thesis by (auto simp: decode_str_def Let_def)
qed

lemma decode_blob_drop:
  "decode_blob d off =
     (if length d < off + 4 then Inl (Truncated off)
      else let len = from_be (take 4 (drop off d))
           in if length d < off + 4 + len then Inl (Truncated off)
              else Inr (take len (drop (off + 4) d), off + 4 + len))"
proof -
  have "take 4 (drop off d) = [d ! off, d ! (off + 1), d ! (off + 2), d ! (off + 3)]"
    if "off + 4 \<le> length d"
    using that by (simp add: take_Suc_conv_app_nth numeral_eq_Suc)
  then show ?thesis by (auto simp: decode_blob_def Let_def)
qed

text \<open>Reading back a string gives its first \<open>len mod 65536\<close> bytes: the prefix is 16 bits wide.\<close>

lemma decode_encode_str_mod:
  assumes "utf8_valid (take (length s mod 65536) (as_bytes s))"
  shows "decode_str (p @ encode_str s @ q) (length p) =
     Inr (take (length s mod 65536) s, length p + 2 + length s mod 65536)"
proof -
  have len: "from_be (be_bytes 2 (length s mod 65536)) = length s mod 65536"
    by (simp add: bytes_simps)
  have bound: "length s mod 65536 \<le> length s" by simp
  then have room: "\<not> length s + length q < length s mod 65536" by linarith
  have rest: "drop (length p + 2) (p @ be_bytes 2 n @ r) = r" for n r by simp
  show ?thesis
    using assms bound
    by (simp add: decode_str_drop encode_str_def unat_of_nat len from_utf8_def str_of_bytes_def
        as_bytes_def take_map comp_def Let_def room rest)
qed

interpretation strf: field encode_str decode_str str_fits
proof
  fix x p q
  assume "str_fits x"
  then show "decode_str (p @ encode_str x @ q) (length p) = Inr (x, length p + length (encode_str x))"
    using decode_encode_str_mod [of x p q] by (simp add: str_fits_def is_str_def)
next
  fix d off x off'
  assume "decode_str d off = Inr (x, off')"
  then show "off < off' \<and> off' \<le> length d"
    by (auto simp: decode_str_drop Let_def result_simps split: if_splits)
qed

interpretation blobf: field encode_blob decode_blob blob_fits
proof
  fix x p q
  assume "blob_fits x"
  then show "decode_blob (p @ encode_blob x @ q) (length p) = Inr (x, length p + length (encode_blob x))"
    by (simp add: decode_blob_drop encode_blob_def blob_fits_def unat_u32_of_nat bytes_simps)
next
  fix d off x off'
  assume "decode_blob d off = Inr (x, off')"
  then show "off < off' \<and> off' \<le> length d"
    by (auto simp: decode_blob_drop Let_def split: if_splits)
qed

interpretation u32f: field "\<lambda>w. le_bytes 4 (unat w)" decode_u32_le "\<lambda>_. True"
  by unfold_locales (auto simp: decode_u32_le_def split: if_splits)

interpretation u64f: field "\<lambda>w. le_bytes 8 (unat w)" decode_u64_le "\<lambda>_. True"
  by unfold_locales (auto simp: decode_u64_le_def split: if_splits)

lemma decode_opt_at:
  assumes "opt_fits x" "d = p @ encode_opt x @ q" "off = length p"
  shows "decode_opt d off = Inr (x, length p + length (encode_opt x))"
proof (cases x)
  case None
  with assms show ?thesis by (simp add: decode_opt_def encode_opt_def nth_append)
next
  case (Some s)
  with assms have "decode_str d (off + 1) = Inr (s, length (p @ [1]) + length (encode_str s))"
    by (intro strf.get_at) (simp_all add: encode_opt_def)
  with Some assms show ?thesis by (simp add: decode_opt_def encode_opt_def nth_append)
qed

section \<open>Round trips\<close>

lemma unat_count [simp]: "n < 256 \<Longrightarrow> unat (word_of_nat n :: byte) = n"
  by simp

lemma parse_build_exec:
  assumes "str_fits command" "list_all str_fits (take 255 env_vars)"
  shows "parse_exec (build_exec command env_vars) = Inr (command, take 255 env_vars)"
proof -
  let ?d = "build_exec command env_vars" and ?e = "take 255 env_vars"
  have c: "decode_str ?d 0 = Inr (command, 2 + length command)"
    using strf.get_at [OF assms(1), where d = ?d and p = "[]"] by (simp add: build_exec_def)
  have n: "?d ! (2 + length command) = word_of_nat (length ?e)" "2 + length command < length ?d"
    by (simp_all add: build_exec_def nth_append)
  have "decode_n decode_str (length ?e) ?d (2 + length command + 1)
      = Inr (?e, length (encode_str command @ [word_of_nat (length ?e)]) + length (concat (map encode_str ?e)))"
    using assms(2) by (intro strf.decode_n_at) (simp_all add: build_exec_def)
  with c n show ?thesis by (simp add: parse_exec_def)
qed

lemma parse_build_auth_request:
  assumes "blob_fits pubkey" "str_fits version" "list_all str_fits caps" "length caps < 256"
  shows "parse_auth_request (build_auth_request pubkey version caps) = Inr (pubkey, version, caps)"
proof -
  let ?d = "build_auth_request pubkey version caps"
  let ?o1 = "4 + length pubkey" and ?o2 = "6 + length pubkey + length version"
  have k: "decode_blob ?d 0 = Inr (pubkey, ?o1)"
    using blobf.get_at [OF assms(1), where d = ?d and p = "[]"] by (simp add: build_auth_request_def)
  have v: "decode_str ?d ?o1 = Inr (version, ?o2)"
    using strf.get_at [OF assms(2), where d = ?d and p = "encode_blob pubkey"]
    by (simp add: build_auth_request_def)
  have n: "?d ! ?o2 = word_of_nat (length caps)" "?o2 < length ?d"
    by (simp_all add: build_auth_request_def nth_append)
  have "decode_n decode_str (length caps) ?d (?o2 + 1)
      = Inr (caps, length (encode_blob pubkey @ encode_str version @ [word_of_nat (length caps)])
                     + length (concat (map encode_str caps)))"
    using assms(3) by (intro strf.decode_n_at) (simp_all add: build_auth_request_def)
  with k v n assms(4) show ?thesis by (simp add: parse_auth_request_def)
qed

lemma parse_build_auth_ok_full:
  assumes "str_fits version" "list_all str_fits caps" "length caps < 256"
    and "opt_fits banner" "opt_fits device_id" "opt_fits rdv"
  shows "parse_auth_ok_full (build_auth_ok_full version caps banner device_id rdv) =
     Inr \<lparr>aok_version = version, aok_caps = caps, aok_banner = banner, aok_device_id = device_id,
          aok_rendezvous_server = rdv\<rparr>"
proof -
  let ?d = "build_auth_ok_full version caps banner device_id rdv"
  let ?p = "encode_str version @ [word_of_nat (length caps)]"
  let ?c = "?p @ concat (map encode_str caps)"
  have v: "decode_str ?d 0 = Inr (version, 2 + length version)"
    using strf.get_at [OF assms(1), where d = ?d and p = "[]"] by (simp add: build_auth_ok_full_def)
  have n: "?d ! (2 + length version) = word_of_nat (length caps)" "2 + length version < length ?d"
    by (simp_all add: build_auth_ok_full_def nth_append)
  have c: "decode_n decode_str (length caps) ?d (2 + length version + 1)
      = Inr (caps, length ?p + length (concat (map encode_str caps)))"
    using assms(2) by (intro strf.decode_n_at) (simp_all add: build_auth_ok_full_def)
  have b: "decode_opt ?d (length ?c) = Inr (banner, length (?c @ encode_opt banner))"
    using decode_opt_at [OF assms(4), where d = ?d and p = ?c] by (simp add: build_auth_ok_full_def)
  have i: "decode_opt ?d (length (?c @ encode_opt banner))
      = Inr (device_id, length (?c @ encode_opt banner @ encode_opt device_id))"
    using decode_opt_at [OF assms(5), where d = ?d and p = "?c @ encode_opt banner"]
    by (simp add: build_auth_ok_full_def)
  have r: "\<exists>o'. decode_opt ?d (length (?c @ encode_opt banner @ encode_opt device_id)) = Inr (rdv, o')"
    using decode_opt_at [OF assms(6), where d = ?d and p = "?c @ encode_opt banner @ encode_opt device_id"]
    by (simp add: build_auth_ok_full_def)
  from v n c b i r assms(3) show ?thesis by (auto simp: parse_auth_ok_full_def)
qed

lemma parse_build_log_query:
  assumes "str_fits path" "str_fits pattern"
  shows "parse_log_query (build_log_query path pattern flags tail_lines byte_offset max_matches)
           = Inr (path, pattern, flags, tail_lines, byte_offset, max_matches)"
proof -
  let ?d = "build_log_query path pattern flags tail_lines byte_offset max_matches"
  let ?o1 = "2 + length path" and ?o2 = "4 + length path + length pattern"
  have p: "decode_str ?d 0 = Inr (path, ?o1)"
    using strf.get_at [OF assms(1), where d = ?d and p = "[]"] by (simp add: build_log_query_def)
  have t: "decode_str ?d ?o1 = Inr (pattern, ?o2)"
    using strf.get_at [OF assms(2), where d = ?d and p = "encode_str path"]
    by (simp add: build_log_query_def)
  show ?thesis
    by (simp only: parse_log_query_def p t and_then_simps prod.case)
      (simp add: build_log_query_def nth_append)
qed

text \<open>The other payloads are a sequence of at most two fields.\<close>

lemma parse_build_exec_result:
  assumes "blob_fits output"
  shows "parse_exec_result (build_exec_result code output) = Inr (code, output)"
proof -
  let ?d = "build_exec_result code output"
  have "decode_u32_le ?d 0 = Inr (code, 4)"
    using u32f.get_at [where d = ?d and p = "[]"] by (simp add: build_exec_result_def)
  moreover have "decode_blob ?d 4 = Inr (output, 4 + (4 + length output))"
    using blobf.get_at [OF assms, where d = ?d and p = "le_bytes 4 (unat code)"]
    by (simp add: build_exec_result_def)
  ultimately show ?thesis by (simp add: parse_exec_result_def)
qed

lemma parse_build_push_start:
  assumes "str_fits path"
  shows "parse_push_start (build_push_start fsize path) = Inr (fsize, path)"
proof -
  let ?d = "build_push_start fsize path"
  have "decode_u64_le ?d 0 = Inr (fsize, 8)"
    using u64f.get_at [where d = ?d and p = "[]"] by (simp add: build_push_start_def)
  moreover have "decode_str ?d 8 = Inr (path, 8 + (2 + length path))"
    using strf.get_at [OF assms, where d = ?d and p = "le_bytes 8 (unat fsize)"]
    by (simp add: build_push_start_def)
  ultimately show ?thesis by (simp add: parse_push_start_def)
qed

lemma decode_encode_str_alone: "str_fits s \<Longrightarrow> decode_str (encode_str s) 0 = Inr (s, 2 + length s)"
  using strf.get_put [of s "[]" "[]"] by simp

lemma parse_build_log_end:
  "parse_log_end (build_log_end scanned matches final) = Inr (scanned, matches, final)"
  by (simp add: parse_log_end_def build_log_end_def)

section \<open>Typed messages are a framing\<close>

definition msg_sendable :: "byte \<times> bytes \<Rightarrow> bool" where
  "msg_sendable m \<longleftrightarrow> length (snd m) < 52428800"

lemma recv_msg_mono: "recv_msg s = Inr (m, r) \<Longrightarrow> recv_msg (s @ t) = Inr (m, r @ t)"
  by (auto simp: recv_msg_def and_then_Inr_iff recv_message_mono split: list.splits)

interpretation msgs: framing "\<lambda>m. send_msg (fst m) (snd m)" recv_msg msg_sendable
proof
  fix m :: "byte \<times> bytes" and rest
  assume "msg_sendable m"
  then show "recv_msg (send_msg (fst m) (snd m) @ rest) = Inr (m, rest)"
    by (simp add: recv_msg_def send_msg_def recv_send_message wire_sendable_def msg_sendable_def)
qed (rule recv_msg_mono)

section \<open>Properties\<close>

text \<open>The authentication payloads survive the trip: what \<open>build_auth_request\<close> and
  \<open>build_auth_ok_full\<close> write is read back by their parsers field by field, including the optional
  banner, device id and rendezvous server. Each string must fit its 16-bit length prefix and there
  may be at most 255 capabilities, whose number is sent in one byte.\<close>

theorem auth_payload_roundtrip:
  assumes "blob_fits pubkey" "str_fits version" "list_all str_fits caps" "length caps < 256"
    and "opt_fits banner" "opt_fits device_id" "opt_fits rdv"
  shows "parse_auth_request (build_auth_request pubkey version caps) = Inr (pubkey, version, caps)
    \<and> parse_auth_ok_full (build_auth_ok_full version caps banner device_id rdv) =
        Inr \<lparr>aok_version = version, aok_caps = caps, aok_banner = banner, aok_device_id = device_id,
             aok_rendezvous_server = rdv\<rparr>"
  using assms by (simp add: parse_build_auth_request parse_build_auth_ok_full)

theorem auth_payload_roundtrip_witness:
  "parse_auth_request [0, 0, 0, 2, 9, 8, 0, 1, 49, 1, 0, 4, 122, 115, 116, 100]
     = Inr ([9, 8], ''1'', [''zstd''])"
proof -
  have pre: "blob_fits [9, 8]" "str_fits ''1''" "list_all str_fits [''zstd'']"
    "length [''zstd''] < 256" "opt_fits (Some ''hi'')" "opt_fits None" "opt_fits None"
    by (simp_all add: blob_fits_def str_fits_def is_ascii_def)
  have "build_auth_request [9, 8] ''1'' [''zstd'']
      = [0, 0, 0, 2, 9, 8, 0, 1, 49, 1, 0, 4, 122, 115, 116, 100]"
    by code_simp
  then show ?thesis using auth_payload_roundtrip [OF pre] by simp
qed

text \<open>The request and result payloads survive the trip: exec (of whose environment at most the
  first 255 entries travel), exec result, push start, pull request, error, log query and log end.\<close>

theorem request_payload_roundtrip:
  assumes "str_fits command" "list_all str_fits (take 255 env_vars)" "blob_fits output"
    and "str_fits path" "str_fits pattern"
  shows "parse_exec (build_exec command env_vars) = Inr (command, take 255 env_vars)
    \<and> parse_exec_result (build_exec_result code output) = Inr (code, output)
    \<and> parse_push_start (build_push_start file_size path) = Inr (file_size, path)
    \<and> parse_pull_req (build_pull_req path) = Inr path
    \<and> parse_error (build_error path) = Inr path
    \<and> parse_log_query (build_log_query path pattern flags tail_lines offset max_matches) =
        Inr (path, pattern, flags, tail_lines, offset, max_matches)
    \<and> parse_log_end (build_log_end scanned found final) = Inr (scanned, found, final)"
  using assms
  by (simp add: parse_build_exec parse_build_exec_result parse_build_push_start parse_pull_req_def
      build_pull_req_def parse_error_def build_error_def decode_encode_str_alone
      parse_build_log_query parse_build_log_end)

theorem request_payload_roundtrip_witness:
  "parse_exec [0, 2, 108, 115, 1, 0, 3, 65, 61, 49] = Inr (''ls'', [''A=1''])"
proof -
  have pre: "str_fits ''ls''" "list_all str_fits (take 255 [''A=1''])" "blob_fits []"
    "str_fits ''/tmp''" "str_fits ''x''"
    by (simp_all add: blob_fits_def str_fits_def is_ascii_def)
  have "build_exec ''ls'' [''A=1''] = [0, 2, 108, 115, 1, 0, 3, 65, 61, 49]"
    by code_simp
  then show ?thesis using request_payload_roundtrip [OF pre] by simp
qed

text \<open>The length prefix of a string is 16 bits wide and written without a check: an ASCII
  string of any length is read back as its first \<open>length mod 65536\<close> characters, and the decoder
  stops there. A string of 65536 characters or more is therefore silently cut, and the parser
  goes on reading the cut-off text as the next field.\<close>

theorem encode_str_truncates:
  assumes "is_ascii s"
  shows "decode_str (encode_str s @ rest) 0 =
    Inr (take (length s mod 65536) s, 2 + length s mod 65536)"
proof -
  have "is_ascii (take (length s mod 65536) s)"
    using assms by (auto simp: is_ascii_def list_all_iff dest: in_set_takeD)
  then have "utf8_valid (take (length s mod 65536) (as_bytes s))"
    using is_ascii_is_str by (simp add: is_str_def as_bytes_def take_map)
  from decode_encode_str_mod [OF this, of "[]"] show ?thesis by simp
qed

theorem encode_str_truncates_witness:
  "decode_str (encode_str (replicate 65537 CHR ''a'') @ []) 0 = Inr (''a'', 3)"
proof -
  have "is_ascii (replicate 65537 CHR ''a'')" by (simp add: is_ascii_def list_all_iff)
  from encode_str_truncates [OF this, of "[]"] show ?thesis
    by (simp add: take_replicate)
qed

end
