(* ===== verification/Exec.thy ===== *)
theory Exec
  imports Protocol Binproto
begin

text \<open>
  Command execution, \<open>mrsh-server/src/safety.rs\<close> and \<open>mrsh-server/src/exec.rs\<close>: the guard against
  commands that would end the server itself, the choice of shell, the environment passed on, buffered
  and streaming execution. Full Unicode case mapping, lossy UTF-8 decoding and the operating system
  are parameters, gathered in the record \<open>exec_env\<close>; a handler returns its answer with the
  command it spawned, if any.
\<close>

section \<open>The safety guard\<close>

datatype safety_verdict = Allow | Block string

definition block :: "string \<Rightarrow> safety_verdict" where
  "block reason = Block (''BLOCKED by safety guard: '' @ reason)"

definition check_exec :: "(string \<Rightarrow> string) \<Rightarrow> string \<Rightarrow> safety_verdict" where
  "check_exec to_lowercase command =
     (let normalized = join '' '' (split_whitespace (to_lowercase command)); has = contains normalized
      in if has ''taskkill'' \<and> has ''rsh''
         then block (''taskkill would kill the mrsh process serving this connection. Use 'mrsh self-update' ''
           @ ''for safe binary replacement, or schedule via schtask if you need to restart.'')
         else if (has ''stop-service'' \<or> has ''restart-service'' \<or> has ''net stop'')
           \<and> (has ''rsh'' \<or> has ''mrsh'' \<or> has ''remote shell'')
         then block (''Stopping/restarting the mrsh service would cut off this connection. ''
           @ ''Use 'mrsh self-update' for safe binary replacement (restarts via schtask).'')
         else if has ''stop-process'' \<and> has ''rsh''
         then block (''Stop-Process would kill the mrsh process serving this connection. ''
           @ ''Use 'mrsh self-update' for safe replacement.'')
         else if (has ''remove-item'' \<or> has ''del '') \<and> has ''rsh.exe''
         then block (''Deleting mrsh.exe while it's running would prevent service restart. ''
           @ ''Push the new binary as mrsh-new.exe first, then use 'mrsh self-update'.'')
         else if has ''sc'' \<and> has ''delete'' \<and> (has ''rsh'' \<or> has ''mrsh'')
         then block (''Deleting the mrsh service registration would prevent restart. ''
           @ ''Use 'mrsh self-update' or manual schtask-based update instead.'')
         else Allow)"

section \<open>Building the command\<close>

record command =
  program :: string
  args :: "string list"
  env :: "(string \<times> string) list"

text \<open>The platform: Unix, or Windows with what it finds there.\<close>

datatype platform = Unix | Windows (git_bash: bool) (powershell_direct: bool)

definition git_bash_path :: string where
  "git_bash_path = join [CHR 0x5C] [''C:'', ''Program Files'', ''Git'', ''bin'', ''bash.exe'']"

definition build_command_with_shell :: "platform \<Rightarrow> string \<Rightarrow> string option \<Rightarrow> command" where
  "build_command_with_shell os cmd shell =
     (case os of
        Unix \<Rightarrow>
          \<lparr>program = (if shell = Some ''bash'' then ''bash'' else ''sh''), args = [''-c'', cmd], env = []\<rparr>
      | Windows bash_found direct \<Rightarrow>
          if shell = Some ''cmd'' then \<lparr>program = ''cmd'', args = [''/c'', cmd], env = []\<rparr>
          else if shell = Some ''sh'' \<or> shell = Some ''bash'' then
            \<lparr>program = (if bash_found then git_bash_path else ''bash''),
             args = [''-c'', cmd], env = []\<rparr>
          else if direct then
            \<lparr>program = ''powershell'', args = [''-NoProfile'', ''-Command'', cmd], env = []\<rparr>
          else
            \<lparr>program = ''cmd'', args = [''/d'', ''/c'', ''powershell'', ''-NoProfile'', ''-Command'', cmd],
             env = []\<rparr>)"

definition build_command :: "platform \<Rightarrow> string \<Rightarrow> command" where
  "build_command os cmd = build_command_with_shell os cmd None"

definition dangerous_names :: "string list" where
  "dangerous_names =
     [''PATH'', ''LD_PRELOAD'', ''LD_LIBRARY_PATH'', ''DYLD_INSERT_LIBRARIES'', ''DYLD_LIBRARY_PATH'',
      ''SHELL'', ''COMSPEC'', ''IFS'', ''PSMODULEPATH'', ''PSModulePath'', ''HTTP_PROXY'', ''HTTPS_PROXY'',
      ''ALL_PROXY'', ''NO_PROXY'', ''http_proxy'', ''https_proxy'', ''HOME'', ''USERPROFILE'', ''USER'',
      ''USERNAME'', ''LOGNAME'']"

definition is_dangerous_env_var :: "(string \<Rightarrow> string) \<Rightarrow> string \<Rightarrow> bool" where
  "is_dangerous_env_var to_uppercase name \<longleftrightarrow> to_uppercase name \<in> set dangerous_names"

fun add_env :: "(string \<Rightarrow> string) \<Rightarrow> string list \<Rightarrow> command \<Rightarrow> command" where
  "add_env to_uppercase [] cmd = cmd"
| "add_env to_uppercase (ev # evs) cmd =
     add_env to_uppercase evs
       (case split_once (CHR ''='') ev of
          Some (k, v) \<Rightarrow>
            if is_dangerous_env_var to_uppercase k then cmd else cmd\<lparr>env := env cmd @ [(k, v)]\<rparr>
        | None \<Rightarrow> cmd)"

section \<open>Buffered execution\<close>

text \<open>\<open>spawn\<close> runs a command to its end: an error text, or standard output, standard error and
  whether it succeeded.\<close>

record exec_env =
  os :: platform
  to_lowercase :: "string \<Rightarrow> string"
  to_uppercase :: "string \<Rightarrow> string"
  from_utf8_lossy :: "bytes \<Rightarrow> string"
  spawn :: "command \<Rightarrow> string + (bytes \<times> bytes \<times> bool)"

definition run_command_with_shell ::
  "exec_env \<Rightarrow> string \<Rightarrow> string list \<Rightarrow> string option \<Rightarrow> command \<times> (string + (string \<times> bool))" where
  "run_command_with_shell E cmd env_vars shell =
     (let c = add_env (to_uppercase E) env_vars (build_command_with_shell (os E) cmd shell)
      in (c, case spawn E c of
               Inl e \<Rightarrow> Inl (''spawn failed: '' @ e)
             | Inr (out, errs, ok) \<Rightarrow> Inr (from_utf8_lossy E out @ from_utf8_lossy E errs, ok)))"

definition strip_prefix :: "string \<Rightarrow> string \<Rightarrow> string option" where
  "strip_prefix s p = (if prefix p s then Some (drop (length p) s) else None)"

definition select_shell :: "string \<Rightarrow> string option \<Rightarrow> string option \<times> string" where
  "select_shell cmd shell =
     (case strip_prefix cmd ''CMD:'' of
        Some rest \<Rightarrow> (Some ''cmd'', rest)
      | None \<Rightarrow>
          (case strip_prefix cmd ''SH:'' of
             Some rest \<Rightarrow> (Some ''sh'', rest)
           | None \<Rightarrow> (shell, cmd)))"

definition handle_exec_with_shell ::
  "exec_env \<Rightarrow> string \<Rightarrow> string list \<Rightarrow> string option \<Rightarrow> response \<times> command option" where
  "handle_exec_with_shell E cmd0 env_vars shell0 =
     (let (shell, cmd) = select_shell cmd0 shell0
      in if cmd = [] then (response_error ''empty command'', None)
         else case check_exec (to_lowercase E) cmd of
                Block reason \<Rightarrow> (response_error reason, None)
              | Allow \<Rightarrow>
                  (case run_command_with_shell E cmd env_vars shell of
                     (c, Inr (output, success)) \<Rightarrow>
                       (\<lparr>rs_success = success, rs_output = Some output, rs_error = None, rs_size = None,
                         rs_binary = None, rs_gzip = None\<rparr>, Some c)
                   | (c, Inl e) \<Rightarrow> (response_error e, Some c)))"

definition handle_exec :: "exec_env \<Rightarrow> string \<Rightarrow> string list \<Rightarrow> response \<times> command option" where
  "handle_exec E cmd env_vars = handle_exec_with_shell E cmd env_vars None"

section \<open>Streaming execution\<close>

text \<open>What the child does, in the order the \<open>select!\<close> sees it: chunks of at most 32768 and 8192 bytes,
  and the end of either stream (end of file or a read error).\<close>

datatype stream_event = Out bytes | Out_End | Err bytes | Err_End

fun stream_loop ::
  "bool \<Rightarrow> bool \<Rightarrow> stream_event list \<Rightarrow> (byte \<times> bytes) list \<Rightarrow> (byte \<times> bytes) list option" where
  "stream_loop stdout_done stderr_done [] sent = (if stdout_done \<and> stderr_done then Some sent else None)"
| "stream_loop stdout_done stderr_done (e # es) sent =
     (if stdout_done \<and> stderr_done then Some sent
      else case e of
             Out d \<Rightarrow> if stdout_done then stream_loop stdout_done stderr_done es sent
                      else if d = [] then stream_loop True stderr_done es sent
                      else stream_loop stdout_done stderr_done es (sent @ [(EXEC_STDOUT, d)])
           | Out_End \<Rightarrow> stream_loop True stderr_done es sent
           | Err d \<Rightarrow> if stderr_done then stream_loop stdout_done stderr_done es sent
                      else if d = [] then stream_loop stdout_done True es sent
                      else stream_loop stdout_done stderr_done es (sent @ [(EXEC_STDERR, d)])
           | Err_End \<Rightarrow> stream_loop stdout_done True es sent)"

text \<open>\<open>child\<close> is the spawn error or the child's events with its exit code; the result is the messages
  sent, \<open>None\<close> while the child still has a stream open.\<close>

definition handle_exec_stream ::
  "exec_env \<Rightarrow> (command \<Rightarrow> string + (stream_event list \<times> u32 option)) \<Rightarrow> string \<Rightarrow> string list
     \<Rightarrow> (byte \<times> bytes) list option \<times> command option" where
  "handle_exec_stream E child cmd env_vars =
     (if cmd = [] then (Some [(ERROR, build_error ''empty command'')], None)
      else case check_exec (to_lowercase E) cmd of
             Block reason \<Rightarrow> (Some [(ERROR, build_error reason)], None)
           | Allow \<Rightarrow>
               let c = add_env (to_uppercase E) env_vars (build_command (os E) cmd)
               in (case child c of
                     Inl e \<Rightarrow> Some [(ERROR, build_error (''spawn failed: '' @ e))]
                   | Inr (es, code) \<Rightarrow>
                       map_option (\<lambda>sent. sent @ [(EXEC_EXIT, le_bytes 4 (unat (case code of Some x \<Rightarrow> x | None \<Rightarrow> 1)))])
                         (stream_loop False False es []),
                   Some c))"

section \<open>The guard sees through case and whitespace\<close>

text \<open>The trigger words, each alternative a list of words that must all occur.\<close>

definition triggers :: "string list list" where
  "triggers =
     [[''taskkill'', ''rsh''], [''stop-service'', ''rsh''], [''restart-service'', ''rsh''],
      [''stop-process'', ''rsh''], [''remove-item'', ''rsh.exe''], [''sc'', ''delete'', ''rsh'']]"

definition triggered :: "string \<Rightarrow> bool" where
  "triggered text \<longleftrightarrow> list_ex (list_all (contains text)) triggers"

lemma trigger_words: "ws \<in> set triggers \<Longrightarrow> w \<in> set ws \<Longrightarrow> list_all graphic w \<and> w \<noteq> []"
proof -
  have "list_all (list_all (\<lambda>w. list_all graphic w \<and> w \<noteq> [])) triggers" by code_simp
  then show "ws \<in> set triggers \<Longrightarrow> w \<in> set ws \<Longrightarrow> ?thesis" by (auto simp: list_all_iff)
qed

lemma triggered_normalized: "triggered s \<Longrightarrow> triggered (join '' '' (split_whitespace s))"
  unfolding triggered_def list_ex_iff list_all_iff
  using trigger_words contains_normalized by blast

lemma first_block:
  "A \<or> B \<or> C \<or> D \<or> F \<Longrightarrow>
    \<exists>m. (if A then block a else if B then block b else if C then block c else if D then block d
          else if F then block e else Allow) = block m"
  by auto

lemma triggered_blocked:
  assumes "triggered (join '' '' (split_whitespace (f cmd)))"
  shows "\<exists>m. check_exec f cmd = block m"
proof -
  have any: "triggered t \<Longrightarrow> \<exists>ws\<in>set triggers. \<forall>w\<in>set ws. contains t w" for t
    by (auto simp: triggered_def list_ex_iff list_all_iff)
  show ?thesis
    unfolding check_exec_def Let_def
    by (rule first_block) (use any [OF assms] in \<open>unfold triggers_def; fastforce\<close>)
qed

text \<open>Case and whitespace do not get a self-destructive command past the guard: a command whose
  ASCII text, lowercased, contains the words of a trigger anywhere, is answered with the guard's
  refusal and nothing is spawned.\<close>

theorem guard_refuses:
  assumes lower: "\<And>s. is_ascii s \<Longrightarrow> to_lowercase E s = ascii_lower s"
    and "select_shell cmd0 shell = (sh, cmd)" "is_ascii cmd" "triggered (ascii_lower cmd)"
  shows "\<exists>m. handle_exec_with_shell E cmd0 env_vars shell = (response_error (''BLOCKED by safety guard: '' @ m), None)"
proof -
  have "cmd \<noteq> []" using assms(4) by (auto simp: triggered_def triggers_def contains_def ascii_lower_def)
  moreover obtain m where "check_exec (to_lowercase E) cmd = block m"
    using triggered_blocked [of "to_lowercase E" cmd] triggered_normalized [OF assms(4)] lower [OF assms(3)] by auto
  ultimately show ?thesis using assms(2) by (auto simp: handle_exec_with_shell_def block_def)
qed

definition sample_env :: exec_env where
  "sample_env = \<lparr>os = Unix, to_lowercase = ascii_lower, to_uppercase = ascii_upper,
     from_utf8_lossy = str_of_bytes, spawn = (\<lambda>c. Inr ([], [], True))\<rparr>"

theorem guard_refuses_witness:
  "\<exists>m. handle_exec_with_shell sample_env ''CMD:TaskKill  /im MRSH.exe'' [] None
     = (response_error (''BLOCKED by safety guard: '' @ m), None)"
proof (rule guard_refuses)
  show "select_shell ''CMD:TaskKill  /im MRSH.exe'' None = (Some ''cmd'', ''TaskKill  /im MRSH.exe'')" by code_simp
  show "is_ascii ''TaskKill  /im MRSH.exe''" by code_simp
  show "triggered (ascii_lower ''TaskKill  /im MRSH.exe'')" by code_simp
qed (simp add: sample_env_def)

section \<open>What reaches the child\<close>

lemma split_once_Some: "split_once c s = Some (k, v) \<Longrightarrow> s = k @ [c] @ v \<and> c \<notin> set k"
  unfolding split_once_def
  by (auto split: if_splits dest: set_takeWhileD)
    (metis (mono_tags, lifting) dropWhile_eq_Cons_conv dropWhile_eq_Nil_conv list.collapse takeWhile_dropWhile_id)

lemma add_env_env:
  "env (add_env up evs c) = env c @ concat (map (\<lambda>ev. case split_once (CHR ''='') ev of
      Some (k, v) \<Rightarrow> if is_dangerous_env_var up k then [] else [(k, v)] | None \<Rightarrow> []) evs)"
  by (induction evs arbitrary: c) (auto split: option.split)

lemma add_env_other: "program (add_env up evs c) = program c" "args (add_env up evs c) = args c"
  by (induction evs arbitrary: c; auto split: option.split)+

lemma last_args_build: "last (args (build_command_with_shell p cmd sh)) = cmd" "env (build_command_with_shell p cmd sh) = []"
  by (auto simp: build_command_with_shell_def split: platform.split)

text \<open>What is spawned: a non-empty command that the guard allows, its text handed whole as the
  last argument to the shell, with exactly the given variables, in order, whose names are not
  dangerous; no ASCII spelling of a dangerous name in any case gets through.\<close>

theorem exec_spawned:
  assumes upper: "\<And>s. is_ascii s \<Longrightarrow> to_uppercase E s = ascii_upper s"
    and spawned: "handle_exec_with_shell E cmd0 env_vars shell0 = (resp, Some c)"
  shows "\<exists>sh cmd. select_shell cmd0 shell0 = (sh, cmd) \<and> cmd \<noteq> [] \<and> check_exec (to_lowercase E) cmd = Allow \<and>
    last (args c) = cmd \<and>
    env c = filter (\<lambda>(k, v). \<not> is_dangerous_env_var (to_uppercase E) k)
              (List.map_filter (split_once (CHR ''='')) env_vars) \<and>
    (\<forall>(k, v)\<in>set (env c). is_ascii k \<longrightarrow> ascii_upper k \<notin> set dangerous_names)"
proof -
  obtain sh cmd where sel: "select_shell cmd0 shell0 = (sh, cmd)" by (cases "select_shell cmd0 shell0")
  with spawned have c: "cmd \<noteq> []" "check_exec (to_lowercase E) cmd = Allow"
    "c = add_env (to_uppercase E) env_vars (build_command_with_shell (os E) cmd sh)"
    by (auto simp: handle_exec_with_shell_def run_command_with_shell_def Let_def
        split: if_splits safety_verdict.splits sum.splits prod.splits)
  have "concat (map (\<lambda>ev. case split_once (CHR ''='') ev of
      Some (k, v) \<Rightarrow> if is_dangerous_env_var up k then [] else [(k, v)] | None \<Rightarrow> []) evs)
    = filter (\<lambda>(k, v). \<not> is_dangerous_env_var up k) (List.map_filter (split_once (CHR ''='')) evs)" for up evs
    by (induction evs) (auto simp: map_filter_simps split: option.split)
  then have e: "env c = filter (\<lambda>(k, v). \<not> is_dangerous_env_var (to_uppercase E) k)
      (List.map_filter (split_once (CHR ''='')) env_vars)"
    by (simp add: c(3) add_env_env last_args_build)
  then have "\<forall>(k, v)\<in>set (env c). is_ascii k \<longrightarrow> ascii_upper k \<notin> set dangerous_names"
    using upper by (fastforce simp: is_dangerous_env_var_def)
  with sel c e show ?thesis by (auto simp: add_env_other last_args_build)
qed

theorem exec_spawned_witness:
  "\<exists>c. handle_exec_with_shell sample_env ''ls'' [''Path=/x'', ''LANG=C''] None = (response_ok (Some []), Some c)
     \<and> env c = [(''LANG'', ''C'')] \<and> last (args c) = ''ls''"
proof -
  let ?c = "\<lparr>program = ''sh'', args = [''-c'', ''ls''], env = [(''LANG'', ''C'')]\<rparr>"
  have h: "handle_exec_with_shell sample_env ''ls'' [''Path=/x'', ''LANG=C''] None = (response_ok (Some []), Some ?c)"
    by code_simp
  have "select_shell ''ls'' None = (None, ''ls'')" by code_simp
  with exec_spawned [OF _ h] h show ?thesis by (auto simp: sample_env_def)
qed

section \<open>What the stream says\<close>

text \<open>What the child wrote to either stream before its end, and what the messages carry of a type.\<close>

fun out_bytes :: "stream_event list \<Rightarrow> bytes" where
  "out_bytes (Out d # es) = (if d = [] then [] else d @ out_bytes es)"
| "out_bytes (Out_End # es) = []"
| "out_bytes (e # es) = out_bytes es"
| "out_bytes [] = []"

fun err_bytes :: "stream_event list \<Rightarrow> bytes" where
  "err_bytes (Err d # es) = (if d = [] then [] else d @ err_bytes es)"
| "err_bytes (Err_End # es) = []"
| "err_bytes (e # es) = err_bytes es"
| "err_bytes [] = []"

definition carried :: "byte \<Rightarrow> (byte \<times> bytes) list \<Rightarrow> bytes" where
  "carried t msgs = concat (map snd (filter (\<lambda>m. fst m = t) msgs))"

lemma carried_simps [simp]:
  "carried t [] = []" "carried t (xs @ ys) = carried t xs @ carried t ys"
  "carried t [(u, d)] = (if u = t then d else [])"
  by (simp_all add: carried_def)

lemma stream_ids [simp]:
  "EXEC_STDOUT \<noteq> EXEC_STDERR" "EXEC_STDERR \<noteq> EXEC_STDOUT" "EXEC_EXIT \<noteq> EXEC_STDOUT" "EXEC_EXIT \<noteq> EXEC_STDERR"
  by (simp_all add: msg_ids)

lemma stream_loop_carries:
  "stream_loop so se es sent = Some msgs \<Longrightarrow>
    carried EXEC_STDOUT msgs = carried EXEC_STDOUT sent @ (if so then [] else out_bytes es) \<and>
    carried EXEC_STDERR msgs = carried EXEC_STDERR sent @ (if se then [] else err_bytes es)"
proof (induction so se es sent rule: stream_loop.induct)
  case (2 so se e es sent)
  then show ?case by (cases e) (auto split: if_splits)
qed (auto split: if_splits)

text \<open>The end of a stream: its end event or an empty read.\<close>

definition ends_out :: "stream_event \<Rightarrow> bool" where
  "ends_out e \<longleftrightarrow> e = Out_End \<or> e = Out []"

definition ends_err :: "stream_event \<Rightarrow> bool" where
  "ends_err e \<longleftrightarrow> e = Err_End \<or> e = Err []"

lemma stream_loop_returns:
  "so \<or> list_ex ends_out es \<Longrightarrow> se \<or> list_ex ends_err es \<Longrightarrow> \<exists>msgs. stream_loop so se es sent = Some msgs"
proof (induction so se es sent rule: stream_loop.induct)
  case (2 so se e es sent)
  then show ?case by (cases e) (auto simp: ends_out_def ends_err_def)
qed auto

text \<open>Streaming is complete: once both of the child's streams have ended, the loop has returned,
  the stdout messages carry exactly the bytes of standard output, the stderr messages those of standard
  error, and one exit message with the exit code (1 when there is none) comes last.\<close>

theorem exec_stream_complete:
  assumes "cmd \<noteq> []" "check_exec (to_lowercase E) cmd = Allow"
    "child (add_env (to_uppercase E) env_vars (build_command (os E) cmd)) = Inr (es, code)"
    "list_ex ends_out es" "list_ex ends_err es"
  shows "\<exists>sent c. handle_exec_stream E child cmd env_vars =
      (Some (sent @ [(EXEC_EXIT, le_bytes 4 (unat (case code of Some x \<Rightarrow> x | None \<Rightarrow> 1)))]), Some c) \<and>
    carried EXEC_STDOUT sent = out_bytes es \<and> carried EXEC_STDERR sent = err_bytes es \<and>
    carried EXEC_EXIT sent = [] \<and> list_all (\<lambda>(t, d). t \<in> {EXEC_STDOUT, EXEC_STDERR} \<and> (Out d \<in> set es \<or> Err d \<in> set es)) sent"
proof -
  obtain sent where s: "stream_loop False False es [] = Some sent"
    using stream_loop_returns [of False es False "[]"] assms(4,5) by auto
  have from_child: "list_all (\<lambda>(t, d). t \<in> {EXEC_STDOUT, EXEC_STDERR} \<and> (Out d \<in> E \<or> Err d \<in> E)) msgs"
    if "stream_loop so se es' acc = Some msgs" "set es' \<subseteq> E"
      "list_all (\<lambda>(t, d). t \<in> {EXEC_STDOUT, EXEC_STDERR} \<and> (Out d \<in> E \<or> Err d \<in> E)) acc" for so se es' acc msgs E
    using that by (induction so se es' acc rule: stream_loop.induct)
      (auto split: if_splits stream_event.splits)
  note f = from_child [OF s, of "set es", simplified]
  then have "filter (\<lambda>m. fst m = EXEC_EXIT) sent = []"
    by (fastforce simp: filter_empty_conv list_all_iff)
  then have "carried EXEC_EXIT sent = []" by (simp add: carried_def)
  with stream_loop_carries [OF s] s f assms(1-3) show ?thesis by (simp add: handle_exec_stream_def)
qed

theorem exec_stream_complete_witness:
  "\<exists>sent c. handle_exec_stream sample_env (\<lambda>c. Inr ([Out [104], Err [33], Out_End, Err_End], Some 0)) ''ls'' []
      = (Some (sent @ [(EXEC_EXIT, le_bytes 4 0)]), Some c) \<and> carried EXEC_STDOUT sent = [104]"
proof -
  have "check_exec (to_lowercase sample_env) ''ls'' = Allow" by code_simp
  from exec_stream_complete [where E = sample_env and cmd = "''ls''" and env_vars = "[]" and code = "Some 0"
      and child = "\<lambda>c. Inr ([Out [104], Err [33], Out_End, Err_End], Some 0)", OF _ this refl]
  show ?thesis by (auto simp: ends_out_def ends_err_def)
qed

end
