(* ===== verification/Calendar.thy ===== *)
theory Calendar
  imports Rust_Str
begin

text \<open>
  Days and dates: the two copies of the civil-calendar algorithm, in \<open>mrsh-server/src/fileops.rs\<close>
  (all in 64-bit integers) and in \<open>mrsh-server/src/session.rs\<close> (the day of the era in 32 bits
  unsigned), and the ISO 8601 formatting around them. Both are shown to be the Gregorian calendar.
  The 64-bit values are integers: callers pass at most \<open>2 ^ 64 div 86400\<close> days.
\<close>

section \<open>Dates\<close>

text \<open>Rust's \<open>/\<close> on signed integers truncates; the era is computed so that it rounds down.\<close>

definition trunc_div :: "int \<Rightarrow> int \<Rightarrow> int" where
  "trunc_div a b = (if 0 \<le> a then a div b else - ((- a) div b))"

definition days_to_date :: "int \<Rightarrow> int \<times> int \<times> int" where
  "days_to_date days0 =
     (let days = days0 + 719468;
          era = trunc_div (if 0 \<le> days then days else days - 146096) 146097;
          doe = days - era * 146097;
          yoe = (doe - doe div 1460 + doe div 36524 - doe div 146096) div 365;
          y = yoe + era * 400;
          doy = doe - (365 * yoe + yoe div 4 - yoe div 100);
          mp = (5 * doy + 2) div 153;
          d = doy - (153 * mp + 2) div 5 + 1;
          m = (if mp < 10 then mp + 3 else mp - 9);
          y = (if m \<le> 2 then y + 1 else y)
      in (y, m, d))"

text \<open>The session store's copy: from the day of the era on, everything is \<open>u32\<close>.\<close>

definition days_to_date_u32 :: "int \<Rightarrow> int \<times> u32 \<times> u32" where
  "days_to_date_u32 days =
     (let z = days + 719468;
          era = trunc_div (if 0 \<le> z then z else z - 146096) 146097;
          doe = (word_of_int (z - era * 146097) :: u32);
          yoe = (doe - doe div 1460 + doe div 36524 - doe div 146096) div 365;
          y = uint yoe + era * 400;
          doy = doe - (365 * yoe + yoe div 4 - yoe div 100);
          mp = (5 * doy + 2) div 153;
          d = doy - (153 * mp + 2) div 5 + 1;
          m = (if mp < 10 then mp + 3 else mp - 9);
          y = (if m \<le> 2 then y + 1 else y)
      in (y, m, d))"

section \<open>Formatting\<close>

text \<open>\<open>{:0w}\<close>: the sign first, then zeros up to the width.\<close>

definition show_padded :: "nat \<Rightarrow> int \<Rightarrow> string" where
  "show_padded w i =
     (let sign = (if i < 0 then ''-'' else []); digits = show_nat (nat \<bar>i\<bar>)
      in sign @ replicate (w - length sign - length digits) (CHR ''0'') @ digits)"

definition iso8601 :: "int \<Rightarrow> int \<Rightarrow> int \<Rightarrow> int \<Rightarrow> int \<Rightarrow> int \<Rightarrow> string" where
  "iso8601 y m d hh mm ss =
     show_padded 4 y @ ''-'' @ show_padded 2 m @ ''-'' @ show_padded 2 d @ ''T''
       @ show_padded 2 hh @ '':'' @ show_padded 2 mm @ '':'' @ show_padded 2 ss @ ''Z''"

text \<open>\<open>chrono_format_unix\<close> of file times, which are never before the epoch.\<close>

definition chrono_format_unix :: "nat \<Rightarrow> string" where
  "chrono_format_unix secs =
     (let days = secs div 86400; time_of_day = secs mod 86400;
          hours = time_of_day div 3600; minutes = (time_of_day mod 3600) div 60;
          seconds = time_of_day mod 60;
          (year, month, day) = days_to_date (int days)
      in iso8601 year month day (int hours) (int minutes) (int seconds))"

definition format_unix_ts :: "nat \<Rightarrow> string" where
  "format_unix_ts ts =
     (let days = ts div 86400; day_secs = ts mod 86400;
          hours = day_secs div 3600; minutes = (day_secs mod 3600) div 60;
          seconds = day_secs mod 60;
          (y, m, d) = days_to_date_u32 (int days)
      in iso8601 y (uint m) (uint d) (int hours) (int minutes) (int seconds))"

section \<open>The calendar\<close>

definition leap :: "int \<Rightarrow> bool" where
  "leap y \<longleftrightarrow> y mod 4 = 0 \<and> (y mod 100 \<noteq> 0 \<or> y mod 400 = 0)"

definition days_in_month :: "int \<Rightarrow> int \<Rightarrow> int" where
  "days_in_month y m = (if m = 2 then if leap y then 29 else 28 else if m \<in> {4, 6, 9, 11} then 30 else 31)"

definition next_day :: "int \<times> int \<times> int \<Rightarrow> int \<times> int \<times> int" where
  "next_day = (\<lambda>(y, m, d).
     if d < days_in_month y m then (y, m, d + 1)
     else if m < 12 then (y, m + 1, 1) else (y + 1, 1, 1))"

section \<open>Year, month and day of an era\<close>

text \<open>Day \<open>e\<close> of an era of 400 years that begins on the first of March.\<close>

definition yoe_of :: "int \<Rightarrow> int" where
  "yoe_of e = (e - e div 1460 + e div 36524 - e div 146096) div 365"

definition year_start :: "int \<Rightarrow> int" where
  "year_start y = 365 * y + y div 4 - y div 100"

definition md_of :: "int \<Rightarrow> int \<times> int" where
  "md_of doy = (let mp = (5 * doy + 2) div 153 in
     (if mp < 10 then mp + 3 else mp - 9, doy - (153 * mp + 2) div 5 + 1))"

lemma era_floor: "trunc_div (if 0 \<le> z then z else z - 146096) 146097 = z div (146097 :: int)"
  unfolding trunc_div_def by (auto split: if_splits)

definition date_of_era :: "int \<Rightarrow> int \<Rightarrow> int \<times> int \<times> int" where
  "date_of_era era e =
     (let yoe = yoe_of e; (m, d) = md_of (e - year_start yoe)
      in (if m \<le> 2 then yoe + era * 400 + 1 else yoe + era * 400, m, d))"

lemma days_to_date_era:
  "days_to_date n = date_of_era ((n + 719468) div 146097) ((n + 719468) mod 146097)"
  unfolding days_to_date_def era_floor date_of_era_def yoe_of_def year_start_def md_of_def Let_def
    prod.case minus_div_mult_eq_mod
  by (rule refl)

lemma yoe_mono1:
  assumes "0 \<le> e" "e < 146096"
  shows "yoe_of e \<le> yoe_of (e + 1)"
proof (cases "e = 146095")
  case False
  have "(e + 1) div 1460 \<le> (e + 1460) div 1460" "e div 36524 \<le> (e + 1) div 36524"
    by (rule zdiv_mono1; simp)+
  moreover have "(e + 1460) div 1460 = e div 1460 + 1" by simp
  moreover have "(e + 1) div 146096 = 0" "e div 146096 = 0"
    using assms False by (simp_all add: div_pos_pos_trivial)
  ultimately have "e - e div 1460 + e div 36524 - e div 146096
      \<le> e + 1 - (e + 1) div 1460 + (e + 1) div 36524 - (e + 1) div 146096"
    by linarith
  then show ?thesis unfolding yoe_of_def by (rule zdiv_mono1) simp
qed (simp add: yoe_of_def)

lemma yoe_mono: "a \<le> b \<Longrightarrow> 0 \<le> a \<Longrightarrow> b \<le> 146096 \<Longrightarrow> yoe_of a \<le> yoe_of b"
proof (induction b rule: int_ge_induct)
  case (step b)
  then show ?case using yoe_mono1 [of b] by simp
qed simp

text \<open>The first and the last day of each of the 400 years.\<close>

definition year_ok :: "int \<Rightarrow> bool" where
  "year_ok y \<longleftrightarrow> yoe_of (year_start y) = y \<and>
     yoe_of (if y = 399 then 146096 else year_start (y + 1) - 1) = y"

lemma years_ok: "list_all year_ok [0..399]"
  by code_simp

lemma year_start_less: "year_start y < year_start (y + 1)"
proof -
  have "(y + 1) div 100 \<le> (y + 100) div 100" "y div 4 \<le> (y + 1) div 4"
    by (rule zdiv_mono1; simp)+
  then show ?thesis by (simp add: year_start_def)
qed

lemma year_start_mono: "a \<le> b \<Longrightarrow> year_start a \<le> year_start b"
proof (induction b rule: int_ge_induct)
  case (step b)
  then show ?case using year_start_less [of b] by simp
qed simp

text \<open>Every day of the era lies in a year, and that year is the one computed.\<close>

lemma year_exists:
  assumes "0 \<le> e" "e \<le> 146096"
  shows "\<exists>y. 0 \<le> y \<and> y \<le> 399 \<and> year_start y \<le> e \<and> (y = 399 \<or> e < year_start (y + 1))"
proof -
  have "0 \<le> y \<Longrightarrow> y \<le> 399 \<Longrightarrow> e < year_start (y + 1) \<or> y = 399 \<Longrightarrow> ?thesis" for y
  proof (induction "nat y" arbitrary: y)
    case 0
    then show ?case using assms by (intro exI [of _ 0]) (auto simp: year_start_def)
  next
    case (Suc n)
    show ?case
    proof (cases "year_start y \<le> e")
      case True
      with Suc.prems show ?thesis by blast
    next
      case False
      with Suc.hyps(1) [of "y - 1"] Suc.hyps(2) Suc.prems show ?thesis by simp
    qed
  qed
  from this [of 399] show ?thesis by simp
qed

lemma yoe_unique:
  assumes "0 \<le> y" "y \<le> 399" "year_start y \<le> e" "e \<le> 146096" "y = 399 \<or> e < year_start (y + 1)"
  shows "yoe_of e = y"
proof -
  have ok: "year_ok y" using years_ok assms(1,2) by (auto simp: list_all_iff)
  have pos: "0 \<le> year_start y" using year_start_mono [OF assms(1)] by (simp add: year_start_def)
  let ?last = "if y = 399 then 146096 else year_start (y + 1) - 1"
  have "?last \<le> 146096"
    using year_start_mono [of "y + 1" 399] assms(1,2) by (auto simp: year_start_def)
  then have "yoe_of (year_start y) \<le> yoe_of e" "yoe_of e \<le> yoe_of ?last"
    using assms pos by (auto intro!: yoe_mono)
  moreover from ok have "yoe_of (year_start y) = y" "yoe_of ?last = y"
    unfolding year_ok_def by blast+
  ultimately show ?thesis by linarith
qed

lemma yoe_range:
  assumes "0 \<le> e" "e \<le> 146096"
  shows "0 \<le> yoe_of e \<and> yoe_of e \<le> 399 \<and> year_start (yoe_of e) \<le> e
    \<and> (yoe_of e = 399 \<or> e < year_start (yoe_of e + 1))"
proof -
  obtain y where y: "0 \<le> y" "y \<le> 399" "year_start y \<le> e" "y = 399 \<or> e < year_start (y + 1)"
    using year_exists [OF assms] by blast
  with yoe_unique [OF y(1-3) assms(2) y(4)] show ?thesis by simp
qed

section \<open>Stepping through the days\<close>

definition next_md :: "int \<times> int \<Rightarrow> int \<times> int" where
  "next_md = (\<lambda>(m, d). if d < days_in_month 0 m then (m, d + 1)
     else if m < 12 then (m + 1, 1) else (1, 1))"

text \<open>Month and day run through the months in order; the year changes with the first of January.\<close>

definition doy_ok :: "int \<Rightarrow> bool" where
  "doy_ok k \<longleftrightarrow> (case md_of k of (m, d) \<Rightarrow>
     md_of (k + 1) = next_md (m, d) \<and> 1 \<le> m \<and> m \<le> 12 \<and> (m = 2 \<and> d = 28 \<longleftrightarrow> k = 364)
     \<and> (m = 2 \<longrightarrow> d \<le> 28))"

lemma doys_ok: "list_all doy_ok [0..364]"
  by code_simp

lemma md_values: "md_of 0 = (3, 1)" "md_of 364 = (2, 28)" "md_of 365 = (2, 29)"
  by code_simp+

lemma leap_shift: "leap (y + 400 * k) = leap y"
proof -
  have "(y + 400 * k) mod 400 = y mod 400" "(y + 400 * k) mod 100 = y mod 100" "(y + 400 * k) mod 4 = y mod 4"
    using mod_mult_self2 [of y 400 k] mod_mult_self2 [of y 100 "4 * k"] mod_mult_self2 [of y 4 "100 * k"]
    by simp_all
  then show ?thesis by (simp add: leap_def)
qed

definition year_len :: "int \<Rightarrow> int" where
  "year_len y = (if y = 399 then 146097 else year_start (y + 1)) - year_start y"

lemma year_len_leap: "0 \<le> y \<Longrightarrow> y \<le> 399 \<Longrightarrow> year_len y = (if leap (y + 1) then 366 else 365)"
proof -
  have "list_all (\<lambda>y. year_len y = (if leap (y + 1) then 366 else 365)) [0..399]" by code_simp
  then show "0 \<le> y \<Longrightarrow> y \<le> 399 \<Longrightarrow> ?thesis" by (auto simp: list_all_iff)
qed

lemma md_step:
  assumes "0 \<le> k" "k \<le> 364" "k = 364 \<longrightarrow> leap (y + 1)" "md_of k = (m, d)" "md_of (k + 1) = (m', d')"
  shows "next_day (if m \<le> 2 then y + 1 else y, m, d) = (if m' \<le> 2 then y + 1 else y, m', d')"
proof -
  have "doy_ok k" using doys_ok assms(1,2) by (auto simp: list_all_iff)
  then have "(m', d') = next_md (m, d)" "1 \<le> m" "m \<le> 12" "m = 2 \<and> d = 28 \<longleftrightarrow> k = 364"
    "m = 2 \<longrightarrow> d \<le> 28"
    using assms(4,5) by (auto simp: doy_ok_def)
  then show ?thesis
    using assms(2,3) by (auto simp: next_md_def next_day_def days_in_month_def leap_def split: if_splits)
qed

lemma date_of_era_step:
  assumes "0 \<le> e" "e < 146096"
  shows "date_of_era era (e + 1) = next_day (date_of_era era e)"
proof -
  define y where "y = yoe_of e"
  have y: "0 \<le> y" "y \<le> 399" "year_start y \<le> e" "y = 399 \<or> e < year_start (y + 1)"
    using yoe_range [of e] assms by (auto simp: y_def)
  have len: "year_len y = (if leap (y + era * 400 + 1) then 366 else 365)"
    using year_len_leap [OF y(1,2)] leap_shift [of "y + 1" era] by (simp add: ac_simps)
  obtain m d where md: "md_of (e - year_start y) = (m, d)" by (cases "md_of (e - year_start y)")
  have old: "date_of_era era e = (if m \<le> 2 then y + era * 400 + 1 else y + era * 400, m, d)"
    by (simp add: date_of_era_def md flip: y_def)
  show ?thesis
  proof (cases "y = 399 \<or> e + 1 < year_start (y + 1)")
    case True
    then have same: "yoe_of (e + 1) = y" using y assms by (intro yoe_unique) auto
    obtain m' d' where md': "md_of (e - year_start y + 1) = (m', d')"
      by (cases "md_of (e - year_start y + 1)")
    have "e - year_start y + 1 < year_len y" using True assms by (auto simp: year_len_def)
    then have "e - year_start y \<le> 364" "e - year_start y = 364 \<longrightarrow> leap (y + era * 400 + 1)"
      using len by (auto split: if_splits)
    note step = md_step [OF _ this md md']
    have "e + 1 - year_start y = e - year_start y + 1" by simp
    then have "date_of_era era (e + 1) = (if m' \<le> 2 then y + era * 400 + 1 else y + era * 400, m', d')"
      by (simp only: date_of_era_def same md' Let_def prod.case)
    with step y(3) show ?thesis by (simp add: old)
  next
    case False
    with y have e: "e + 1 = year_start (y + 1)" "y < 399" by auto
    then have "yoe_of (e + 1) = y + 1"
      using year_start_less [of "y + 1"] y(1) assms by (intro yoe_unique) simp_all
    then have new: "date_of_era era (e + 1) = (y + 1 + era * 400, 3, 1)"
      using e by (simp add: date_of_era_def md_values)
    have "e - year_start y = year_len y - 1" using e by (simp add: year_len_def)
    then have "(m, d) = (if leap (y + era * 400 + 1) then (2, 29) else (2, 28))"
      using md len by (simp add: md_values split: if_splits)
    then show ?thesis by (auto simp: new old next_day_def days_in_month_def split: if_splits)
  qed
qed

lemma date_of_era_last: "next_day (date_of_era era 146096) = date_of_era (era + 1) 0"
proof -
  have v: "yoe_of 146096 = 399" "yoe_of 0 = 0" "year_start 399 = 145731" "year_start 0 = 0"
    by code_simp+
  show ?thesis
    using leap_shift [of 400 era]
    by (simp add: date_of_era_def v md_values next_day_def days_in_month_def leap_def)
qed

lemma era_succ:
  fixes z :: int
  shows "z mod 146097 = 146096 \<Longrightarrow> (z + 1) mod 146097 = 0 \<and> (z + 1) div 146097 = z div 146097 + 1"
    "z mod 146097 \<noteq> 146096 \<Longrightarrow> (z + 1) mod 146097 = z mod 146097 + 1 \<and> (z + 1) div 146097 = z div 146097"
proof -
  define q r where "q = z div 146097" and "r = z mod 146097"
  then have z: "z = r + q * 146097" and r: "0 \<le> r" "r < 146097" by simp_all
  show "z mod 146097 = 146096 \<Longrightarrow> (z + 1) mod 146097 = 0 \<and> (z + 1) div 146097 = z div 146097 + 1"
    by (fold r_def q_def) (use z in simp)
  have "(r + 1 + q * 146097) div 146097 = q + (r + 1) div 146097"
    "(r + 1 + q * 146097) mod 146097 = (r + 1) mod 146097"
    by simp_all
  then show "z mod 146097 \<noteq> 146096 \<Longrightarrow> (z + 1) mod 146097 = z mod 146097 + 1 \<and> (z + 1) div 146097 = z div 146097"
    by (fold r_def q_def) (use z r in \<open>simp add: algebra_simps\<close>)
qed

text \<open>The dates are those of the Gregorian calendar: day 0 is 1 January 1970, and the date of
  the day after is always the next calendar day, with the leap years of the 400-year cycle.\<close>

theorem days_to_date_calendar:
  "days_to_date 0 = (1970, 1, 1) \<and> days_to_date (n + 1) = next_day (days_to_date n)"
proof
  show "days_to_date 0 = (1970, 1, 1)" by code_simp
  define z where "z = n + 719468"
  then have z: "n + 1 + 719468 = z + 1" by simp
  have now: "days_to_date n = date_of_era (z div 146097) (z mod 146097)"
    by (simp only: days_to_date_era z_def)
  have after: "days_to_date (n + 1) = date_of_era ((z + 1) div 146097) ((z + 1) mod 146097)"
    by (simp only: days_to_date_era z)
  show "days_to_date (n + 1) = next_day (days_to_date n)"
  proof (cases "z mod 146097 = 146096")
    case True
    with era_succ(1) [OF this] show ?thesis by (simp only: now after date_of_era_last)
  next
    case False
    have "0 \<le> z mod 146097" "z mod 146097 < 146097" by simp_all
    with False have "z mod 146097 < 146096" by linarith
    with era_succ(2) [OF False] show ?thesis
      by (simp only: now after date_of_era_step [OF \<open>0 \<le> z mod 146097\<close>])
  qed
qed

section \<open>The 32-bit copy\<close>

lemma word_of_int_div:
  assumes "0 \<le> x" "x < 2 ^ 32" "0 \<le> y" "y < 2 ^ 32"
  shows "(word_of_int x :: u32) div word_of_int y = word_of_int (x div y)"
proof -
  have "uint (word_of_int x :: u32) = x" "uint (word_of_int y :: u32) = y"
    using assms by (simp_all add: unsigned_of_int take_bit_int_eq_self)
  then show ?thesis by (simp add: word_div_def)
qed

lemma word_of_int_less:
  assumes "0 \<le> x" "x < 2 ^ 32" "0 \<le> y" "y < 2 ^ 32"
  shows "(word_of_int x :: u32) < word_of_int y \<longleftrightarrow> x < y"
    "(word_of_int x :: u32) \<le> word_of_int y \<longleftrightarrow> x \<le> y"
  using assms by (simp_all add: word_less_def word_le_def unsigned_of_int take_bit_int_eq_self)

text \<open>The day of the era in words: the year of the era, then month and day.\<close>

definition yoe_u32 :: "u32 \<Rightarrow> u32" where
  "yoe_u32 doe = (doe - doe div 1460 + doe div 36524 - doe div 146096) div 365"

definition md_u32 :: "u32 \<Rightarrow> u32 \<times> u32" where
  "md_u32 doy = (let mp = (5 * doy + 2) div 153 in
     (if mp < 10 then mp + 3 else mp - 9, doy - (153 * mp + 2) div 5 + 1))"

lemma days_to_date_u32_parts:
  "days_to_date_u32 n =
     (let z = n + 719468; doe = word_of_int (z mod 146097); yoe = yoe_u32 doe;
          (m, d) = md_u32 (doe - (365 * yoe + yoe div 4 - yoe div 100))
      in (if m \<le> 2 then uint yoe + z div 146097 * 400 + 1 else uint yoe + z div 146097 * 400, m, d))"
  unfolding days_to_date_u32_def era_floor yoe_u32_def md_u32_def Let_def prod.case minus_div_mult_eq_mod
  by (rule refl)

lemma yoe_u32:
  assumes "0 \<le> e" "e \<le> 146096"
  shows "yoe_u32 (word_of_int e) = word_of_int (yoe_of e)"
proof -
  have d: "(word_of_int e :: u32) div numeral k = word_of_int (e div numeral k)" if "(numeral k :: int) < 2 ^ 32" for k
    using word_of_int_div [of e "numeral k"] assms that by simp
  have "e div 1460 \<le> e" "0 \<le> e div 36524" "e div 36524 \<le> 4" "e div 146096 \<le> e div 36524"
    using assms by (auto intro: zdiv_mono2)
  then have "0 \<le> e - e div 1460 + e div 36524 - e div 146096"
    "e - e div 1460 + e div 36524 - e div 146096 < 2 ^ 32"
    using assms by (auto simp: pos_imp_zdiv_nonneg_iff intro: order_le_less_trans)
  then show ?thesis
    using word_of_int_div [of "e - e div 1460 + e div 36524 - e div 146096" 365]
    by (simp add: yoe_u32_def yoe_of_def d flip: wi_hom_sub wi_hom_add)
qed

lemma md_u32:
  assumes "0 \<le> k" "k \<le> 365" "md_of k = (m, d)"
  shows "md_u32 (word_of_int k) = (word_of_int m, word_of_int d)"
proof -
  define mp where "mp = (5 * k + 2) div 153"
  have mp: "0 \<le> mp" "mp \<le> 11" using assms by (auto simp: mp_def)
  have "(5 * word_of_int k + 2 :: u32) = word_of_int (5 * k + 2)"
    by (simp flip: wi_hom_mult wi_hom_add)
  then have w: "(5 * word_of_int k + 2 :: u32) div 153 = word_of_int mp"
    using assms word_of_int_div [of "5 * k + 2" 153] by (simp add: mp_def)
  have "(153 * word_of_int mp + 2 :: u32) = word_of_int (153 * mp + 2)"
    by (simp flip: wi_hom_mult wi_hom_add)
  then have q: "(153 * word_of_int mp + 2 :: u32) div 5 = word_of_int ((153 * mp + 2) div 5)"
    using mp word_of_int_div [of "153 * mp + 2" 5] by simp
  have "((word_of_int mp :: u32) < 10) = (mp < 10)" using word_of_int_less(1) [of mp 10] mp by simp
  then show ?thesis
    using assms(3) by (auto simp: md_u32_def md_of_def w q simp flip: mp_def wi_hom_sub wi_hom_add)
qed

lemma md_range: "0 \<le> k \<Longrightarrow> k \<le> 365 \<Longrightarrow> md_of k = (m, d) \<Longrightarrow> 1 \<le> m \<and> m \<le> 12 \<and> 1 \<le> d \<and> d \<le> 31"
proof -
  have "list_all (\<lambda>k. case md_of k of (m, d) \<Rightarrow> 1 \<le> m \<and> m \<le> 12 \<and> 1 \<le> d \<and> d \<le> 31) [0..365]"
    by code_simp
  then show "0 \<le> k \<Longrightarrow> k \<le> 365 \<Longrightarrow> md_of k = (m, d) \<Longrightarrow> ?thesis"
    by (fastforce simp: list_all_iff dest: bspec [of _ _ k])
qed

lemma days_to_date_u32_eq:
  "(case days_to_date_u32 n of (y, m, d) \<Rightarrow> (y, uint m, uint d)) = days_to_date n"
proof -
  define e where "e = (n + 719468) mod 146097"
  define y where "y = yoe_of e"
  have e: "0 \<le> e" "e \<le> 146096" by (simp_all add: e_def)
  have y: "0 \<le> y" "y \<le> 399" "year_start y \<le> e" "y = 399 \<or> e < year_start (y + 1)"
    using yoe_range [OF e] by (simp_all add: y_def)
  define k where "k = e - year_start y"
  have "k < year_len y" using y(4) e by (auto simp: k_def year_len_def)
  then have k: "0 \<le> k" "k \<le> 365" using y year_len_leap [OF y(1,2)] by (auto simp: k_def split: if_splits)
  obtain m d where md: "md_of k = (m, d)" by (cases "md_of k")
  note r = md_range [OF k md]
  have yw: "yoe_u32 (word_of_int e) = word_of_int y" using yoe_u32 [OF e] by (simp add: y_def)
  have "word_of_int e - (365 * word_of_int y + word_of_int y div 4 - word_of_int y div 100) = (word_of_int k :: u32)"
    using word_of_int_div [of y 4] word_of_int_div [of y 100] y(1,2)
    by (simp add: k_def year_start_def flip: wi_hom_mult wi_hom_add wi_hom_sub)
  note parts = this md_u32 [OF k md]
  have u: "uint (word_of_int x :: u32) = x" if "0 \<le> x" "x \<le> 399" for x
    using that by (simp add: unsigned_of_int take_bit_int_eq_self)
  have le: "((word_of_int m :: u32) \<le> 2) = (m \<le> 2)" using word_of_int_less(2) [of m 2] r by simp
  have "days_to_date n = (if m \<le> 2 then y + (n + 719468) div 146097 * 400 + 1
      else y + (n + 719468) div 146097 * 400, m, d)"
    by (simp add: days_to_date_era date_of_era_def md flip: e_def y_def k_def)
  then show ?thesis
    using r y(1,2) by (simp add: days_to_date_u32_parts Let_def yw parts u le flip: e_def)
qed

text \<open>The two copies agree: the 32-bit computation of the session list neither wraps nor
  underflows, and a time is printed the same in the session list as in a directory listing.\<close>

theorem format_unix_ts_eq: "format_unix_ts ts = chrono_format_unix ts"
proof -
  obtain y m d where "days_to_date_u32 (int (ts div 86400)) = (y, m, d)"
    by (cases "days_to_date_u32 (int (ts div 86400))")
  moreover from this have "days_to_date (int (ts div 86400)) = (y, uint m, uint d)"
    using days_to_date_u32_eq [of "int (ts div 86400)"] by simp
  ultimately show ?thesis by (simp only: format_unix_ts_def chrono_format_unix_def Let_def prod.case)
qed

end
