(* ===== verification/Session_Store.thy ===== *)
theory Session_Store
  imports Calendar
begin

text \<open>
  The persistent-session registry, \<open>mrsh-server/src/session.rs\<close>, and its use by the connection
  handler. The hash map is an association list in iteration order; times are seconds since the
  epoch, read under the lock. The random session id is an argument of \<open>create\<close>. The step relation
  describes connections that open, reattach and close, with kills and sweeps at any time.
\<close>

section \<open>The store\<close>

record session_info =
  si_id :: string
  si_command :: string
  si_user :: string
  si_state :: string
  si_clients :: nat
  si_created :: string
  si_idle_secs :: nat
  si_cols :: u16
  si_rows :: u16

record session_entry =
  se_id :: string
  se_command :: string
  se_cols :: u16
  se_rows :: u16
  created_at :: nat
  last_activity :: nat
  client_count :: nat
  exited :: bool

type_synonym session_map = "(string \<times> session_entry) list"

definition store_new :: session_map where
  "store_new = []"

text \<open>\<open>generate_id\<close>: sixteen random bytes in hexadecimal.\<close>

definition generate_id :: "bytes \<Rightarrow> string" where
  "generate_id rng = concat (map hex_byte rng)"

definition session_create ::
  "string \<Rightarrow> nat \<Rightarrow> string \<Rightarrow> u16 \<Rightarrow> u16 \<Rightarrow> session_map \<Rightarrow> string \<times> session_map" where
  "session_create sid now command cols rows sessions =
     (sid, AList.update sid \<lparr>se_id = sid, se_command = command, se_cols = cols, se_rows = rows,
            created_at = now, last_activity = now, client_count = 1, exited = False\<rparr> sessions)"

definition entry_info :: "nat \<Rightarrow> session_entry \<Rightarrow> session_info" where
  "entry_info now s =
     \<lparr>si_id = se_id s, si_command = se_command s, si_user = [],
      si_state = (if exited s then ''exited'' else if 0 < client_count s then ''attached'' else ''detached''),
      si_clients = client_count s, si_created = format_unix_ts (created_at s),
      si_idle_secs = now - last_activity s, si_cols = se_cols s, si_rows = se_rows s\<rparr>"

definition session_list :: "nat \<Rightarrow> session_map \<Rightarrow> session_info list" where
  "session_list now sessions = map (\<lambda>(_, s). entry_info now s) sessions"

definition session_kill :: "string \<Rightarrow> session_map \<Rightarrow> bool \<times> session_map" where
  "session_kill sid sessions = (map_of sessions sid \<noteq> None, AList.delete sid sessions)"

definition session_get :: "nat \<Rightarrow> string \<Rightarrow> session_map \<Rightarrow> session_info option" where
  "session_get now sid sessions = map_option (entry_info now) (map_of sessions sid)"

definition session_attach :: "nat \<Rightarrow> string \<Rightarrow> session_map \<Rightarrow> bool \<times> session_map" where
  "session_attach now sid sessions =
     (case map_of sessions sid of
        Some s \<Rightarrow> (True, AList.update sid
                    (s\<lparr>client_count := client_count s + 1, last_activity := now\<rparr>) sessions)
      | None \<Rightarrow> (False, sessions))"

definition session_detach :: "string \<Rightarrow> session_map \<Rightarrow> session_map" where
  "session_detach sid sessions =
     (case map_of sessions sid of
        Some s \<Rightarrow> AList.update sid (s\<lparr>client_count := client_count s - 1\<rparr>) sessions
      | None \<Rightarrow> sessions)"

definition expired_session :: "nat \<Rightarrow> nat \<Rightarrow> session_entry \<Rightarrow> bool" where
  "expired_session now max_idle_secs s \<longleftrightarrow> client_count s = 0 \<and> max_idle_secs < now - last_activity s"

definition session_cleanup :: "nat \<Rightarrow> nat \<Rightarrow> session_map \<Rightarrow> nat \<times> session_map" where
  "session_cleanup now max_idle_secs sessions =
     (let to_remove = map fst (filter (\<lambda>(_, s). expired_session now max_idle_secs s) sessions)
      in (length to_remove, fold AList.delete to_remove sessions))"

section \<open>Connections\<close>

text \<open>The beginning of a persistent shell: attach to the requested session, or create one.\<close>

definition open_persistent ::
  "string \<Rightarrow> nat \<Rightarrow> u16 \<Rightarrow> u16 \<Rightarrow> string option \<Rightarrow> session_map \<Rightarrow> string \<times> session_map" where
  "open_persistent fresh now cols rows session_id sessions =
     (case session_id of
        Some sid \<Rightarrow>
          (case session_attach now sid sessions of
             (True, sessions') \<Rightarrow> (sid, sessions')
           | (False, _) \<Rightarrow> session_create fresh now ''shell'' cols rows sessions)
      | None \<Rightarrow> session_create fresh now ''shell'' cols rows sessions)"

text \<open>The registry with the open connections, each with the id it will detach from, and the ids
  handed out so far.\<close>

record session_world =
  sessions :: session_map
  conns :: "string list"
  used :: "string list"

inductive session_step :: "session_world \<Rightarrow> session_world \<Rightarrow> bool" where
  opens: "fresh \<notin> set (used w) \<Longrightarrow> open_persistent fresh now cols rows want (sessions w) = (sid, m) \<Longrightarrow>
     session_step w \<lparr>sessions = m, conns = sid # conns w, used = fresh # used w\<rparr>"
| closes: "sid \<in> set (conns w) \<Longrightarrow>
     session_step w (w\<lparr>sessions := session_detach sid (sessions w), conns := remove1 sid (conns w)\<rparr>)"
| kills: "session_step w (w\<lparr>sessions := snd (session_kill sid (sessions w))\<rparr>)"
| sweeps: "session_step w (w\<lparr>sessions := snd (session_cleanup now max_idle (sessions w))\<rparr>)"

inductive session_reachable :: "session_world \<Rightarrow> bool" where
  init: "session_reachable \<lparr>sessions = store_new, conns = [], used = []\<rparr>"
| step: "session_reachable w \<Longrightarrow> session_step w w' \<Longrightarrow> session_reachable w'"

section \<open>Maps of sessions\<close>

lemma map_of_cleanup:
  assumes "distinct (map fst m)"
  shows "map_of (snd (session_cleanup now mx m)) sid =
    (case map_of m sid of Some s \<Rightarrow> if expired_session now mx s then None else Some s | None \<Rightarrow> None)"
proof (cases "map_of m sid")
  case None
  then show ?thesis by (simp add: session_cleanup_def Let_def map_of_fold_delete)
next
  case (Some s)
  then have "sid \<in> fst ` {x \<in> set m. expired_session now mx (snd x)} \<longleftrightarrow> expired_session now mx s"
    using assms by (auto simp: image_iff) (metis map_of_is_SomeI option.inject)
  with Some show ?thesis
    by (simp add: session_cleanup_def Let_def map_of_fold_delete split_beta)
qed

definition store_wf :: "session_map \<Rightarrow> bool" where
  "store_wf m \<longleftrightarrow> distinct (map fst m) \<and> list_all (\<lambda>(k, s). se_id s = k) m"

lemma store_wf_get: "store_wf m \<Longrightarrow> map_of m sid = Some s \<Longrightarrow> se_id s = sid"
  by (auto simp: store_wf_def list_all_iff dest: map_of_SomeD)

lemma store_wf_update: "store_wf m \<Longrightarrow> se_id s = k \<Longrightarrow> store_wf (AList.update k s m)"
  by (auto simp: store_wf_def distinct_update intro: list_all_update)

lemma store_wf_delete: "store_wf m \<Longrightarrow> store_wf (fold AList.delete ks m)"
  by (auto simp: store_wf_def intro: distinct_fold_delete list_all_fold_delete)

text \<open>What each operation does to the map, and that it keeps the map well-formed.\<close>

lemma session_kill_wf:
  "store_wf m \<Longrightarrow> store_wf (snd (session_kill sid m)) \<and> map_of (snd (session_kill sid m)) = (map_of m)(sid := None)"
  using store_wf_delete [of m "[sid]"] by (simp add: session_kill_def delete_conv')

lemma session_detach_wf:
  "store_wf m \<Longrightarrow> store_wf (session_detach sid m) \<and> map_of (session_detach sid m) =
     (map_of m)(sid := map_option (\<lambda>s. s\<lparr>client_count := client_count s - 1\<rparr>) (map_of m sid))"
  by (auto simp: session_detach_def update_conv' store_wf_get intro!: store_wf_update split: option.split)

lemma session_cleanup_wf: "store_wf m \<Longrightarrow> store_wf (snd (session_cleanup now mx m))"
  by (simp add: session_cleanup_def Let_def store_wf_delete)

lemma session_create_wf:
  assumes "session_create fresh now command cols rows m = (sid, m')" "store_wf m"
  obtains s where "sid = fresh" "store_wf m'" "client_count s = 1" "map_of m' = (map_of m)(fresh \<mapsto> s)"
proof -
  let ?s = "\<lparr>se_id = fresh, se_command = command, se_cols = cols, se_rows = rows,
    created_at = now, last_activity = now, client_count = 1, exited = False\<rparr>"
  have "sid = fresh" "m' = AList.update fresh ?s m" using assms(1) by (auto simp: session_create_def)
  then show thesis
    using assms(2) by (intro that [of ?s]) (simp_all add: store_wf_update update_conv')
qed

lemma open_persistent_cases:
  assumes "open_persistent fresh now cols rows want m = (sid, m')" "store_wf m"
  obtains (attached) s where "want = Some sid" "store_wf m'" "map_of m sid = Some s"
      "map_of m' = (map_of m)(sid \<mapsto> s\<lparr>client_count := client_count s + 1, last_activity := now\<rparr>)"
    | (created) s where "sid = fresh" "store_wf m'" "client_count s = 1" "map_of m' = (map_of m)(fresh \<mapsto> s)"
proof (cases "\<exists>k s. want = Some k \<and> map_of m k = Some s")
  case True
  then obtain k s where "want = Some k" "map_of m k = Some s" by blast
  with assms show thesis
    by (intro attached [of s])
      (auto simp: open_persistent_def session_attach_def update_conv' store_wf_get intro!: store_wf_update)
next
  case False
  then have "session_create fresh now ''shell'' cols rows m = (sid, m')"
    using assms(1) by (auto simp: open_persistent_def session_attach_def split: option.splits)
  then show thesis by (rule session_create_wf [OF _ assms(2)]) (rule created)
qed

definition session_inv :: "session_world \<Rightarrow> bool" where
  "session_inv w \<longleftrightarrow> store_wf (sessions w) \<and> dom (map_of (sessions w)) \<union> set (conns w) \<subseteq> set (used w) \<and>
     (\<forall>sid s. map_of (sessions w) sid = Some s \<longrightarrow> client_count s = count_list (conns w) sid)"

lemma count_list_remove1: "count_list (remove1 x xs) y = (if x = y then count_list xs y - 1 else count_list xs y)"
  by (induction xs) auto

lemma session_inv_step:
  assumes "session_step w w'" "session_inv w"
  shows "session_inv w'"
  using assms
proof (induction rule: session_step.induct)
  case (opens fresh w now cols rows want sid m)
  then have "store_wf (sessions w)" by (simp add: session_inv_def)
  have "count_list (conns w) fresh = 0" "map_of (sessions w) fresh = None"
    using opens by (auto simp: session_inv_def count_list_0_iff)
  from opens(2) \<open>store_wf (sessions w)\<close> show ?case
  proof (cases rule: open_persistent_cases)
    case (attached s)
    with opens(3) show ?thesis by (auto simp: session_inv_def split: if_splits)
  next
    case (created s)
    with opens(3) \<open>count_list (conns w) fresh = 0\<close> show ?thesis
      by (auto simp: session_inv_def split: if_splits)
  qed
next
  case (closes sid w)
  then show ?case
    using session_detach_wf [of "sessions w" sid]
    by (auto simp: session_inv_def count_list_remove1 dest: subsetD [OF set_remove1_subset])
next
  case (kills w sid)
  then show ?case using session_kill_wf [of "sessions w" sid] by (auto simp: session_inv_def)
next
  case (sweeps w now max_idle)
  then have "map_of (snd (session_cleanup now max_idle (sessions w))) k = Some s \<Longrightarrow> map_of (sessions w) k = Some s" for k s
    by (auto simp: session_inv_def store_wf_def map_of_cleanup split: option.splits if_splits)
  with sweeps show ?case by (fastforce simp: session_inv_def intro: session_cleanup_wf)
qed

lemma session_inv_reachable: "session_reachable w \<Longrightarrow> session_inv w"
  by (induction rule: session_reachable.induct)
    (auto simp: session_inv_step, simp add: session_inv_def store_new_def store_wf_def)

text \<open>The registry counts right: in every state that connections, kills and sweeps can reach, the
  client count of a session is the number of open connections that will detach from it, and a sweep
  removes the session exactly when no connection is open to it and it has been idle for longer than
  the limit.\<close>

theorem session_clients_exact:
  assumes "session_reachable w" "map_of (sessions w) sid = Some s"
  shows "client_count s = count_list (conns w) sid \<and>
    (map_of (snd (session_cleanup now mx (sessions w))) sid = None
       \<longleftrightarrow> sid \<notin> set (conns w) \<and> mx < now - last_activity s)"
proof -
  from session_inv_reachable [OF assms(1)] assms(2)
  have "client_count s = count_list (conns w) sid" "distinct (map fst (sessions w))"
    by (simp_all add: session_inv_def store_wf_def)
  with assms(2) show ?thesis
    by (simp add: map_of_cleanup expired_session_def count_list_0_iff)
qed

theorem session_clients_exact_witness:
  "\<exists>w s. session_reachable w \<and> map_of (sessions w) ''a'' = Some s \<and> client_count s = 2"
proof -
  define m1 where "m1 = snd (open_persistent ''a'' 5 80 24 None store_new)"
  define m2 where "m2 = snd (open_persistent ''b'' 6 80 24 (Some ''a'') m1)"
  let ?w1 = "\<lparr>sessions = m1, conns = [''a''], used = [''a'']\<rparr>"
  let ?w2 = "\<lparr>sessions = m2, conns = [''a'', ''a''], used = [''b'', ''a'']\<rparr>"
  have "session_step \<lparr>sessions = store_new, conns = [], used = []\<rparr> ?w1"
    using session_step.opens [of "''a''" "\<lparr>sessions = store_new, conns = [], used = []\<rparr>" 5 80 24 None "''a''" m1]
    by (simp add: m1_def open_persistent_def session_create_def)
  then have "session_reachable ?w1" by (rule session_reachable.step [OF session_reachable.init])
  moreover have m2: "open_persistent ''b'' 6 80 24 (Some ''a'') m1 = (''a'', m2)"
    unfolding m2_def m1_def by code_simp
  then have "session_step ?w1 ?w2"
    using session_step.opens [of "''b''" ?w1 6 80 24 "Some ''a''" "''a''" m2] by simp
  ultimately have r: "session_reachable ?w2" by (rule session_reachable.step)
  have "\<exists>s. map_of m2 ''a'' = Some s"
    unfolding m2_def m1_def by (rule exI) code_simp
  then show ?thesis using session_clients_exact [OF r, of "''a''"] r by auto
qed

end
