(* ===== verification/Auth_Keys.thy ===== *)
theory Auth_Keys
  imports Rust_Str
begin

text \<open>
  Keys and second factors of \<open>mrsh-core/src/auth.rs\<close>: per-key permissions parsed from the options
  of an \<open>authorized_keys\<close> line, the lines and files themselves, revocation by fingerprint, signature
  checks, TOTP secrets and one-time recovery codes. Base64, SHA-256, the Ed25519 verifier and the
  TOTP check are parameters; a file's content is the string that was read from it.
\<close>

section \<open>Permissions\<close>

record key_permissions =
  allow_exec :: bool
  allow_push :: bool
  allow_pull :: bool
  allow_shell :: bool
  allow_tunnel :: bool
  allow_gui :: bool
  allow_clipboard :: bool
  allow_reboot :: bool
  allow_screenshot :: bool
  allow_self_update :: bool
  forced_command :: "string option"
  require_totp :: bool

definition default_permissions :: key_permissions where
  "default_permissions = \<lparr>allow_exec = True, allow_push = True, allow_pull = True,
     allow_shell = True, allow_tunnel = True, allow_gui = True, allow_clipboard = True,
     allow_reboot = True, allow_screenshot = True, allow_self_update = True,
     forced_command = None, require_totp = False\<rparr>"

definition restricted :: key_permissions where
  "restricted = \<lparr>allow_exec = False, allow_push = False, allow_pull = False,
     allow_shell = False, allow_tunnel = False, allow_gui = False, allow_clipboard = False,
     allow_reboot = False, allow_screenshot = False, allow_self_update = False,
     forced_command = None, require_totp = False\<rparr>"

text \<open>The quote character, the comma and the start of a forced command, \<open>command="\<close>.\<close>

definition quote :: char where "quote = CHR 0x22"
definition command_prefix :: string where "command_prefix = ''command='' @ [quote]"

text \<open>
  One round of the loop in \<open>parse_key_options\<close>. The slice \<open>opt[9..opt.len() - 1]\<close> panics when the
  option is just \<open>command="\<close>, whose ten-character closing form it presumes.
\<close>

definition apply_option :: "string \<Rightarrow> key_permissions \<Rightarrow> key_permissions result" where
  "apply_option opt perms =
     (if opt = ''restrict'' then Inr restricted
      else if opt = ''permit-exec'' then Inr (perms\<lparr>allow_exec := True\<rparr>)
      else if opt = ''permit-push'' then Inr (perms\<lparr>allow_push := True\<rparr>)
      else if opt = ''permit-pull'' then Inr (perms\<lparr>allow_pull := True\<rparr>)
      else if opt = ''permit-shell'' then Inr (perms\<lparr>allow_shell := True\<rparr>)
      else if opt = ''permit-tunnel'' then Inr (perms\<lparr>allow_tunnel := True\<rparr>)
      else if opt = ''permit-gui'' then Inr (perms\<lparr>allow_gui := True\<rparr>)
      else if opt = ''permit-clipboard'' then Inr (perms\<lparr>allow_clipboard := True\<rparr>)
      else if opt = ''permit-reboot'' then Inr (perms\<lparr>allow_reboot := True\<rparr>)
      else if opt = ''permit-screenshot'' then Inr (perms\<lparr>allow_screenshot := True\<rparr>)
      else if opt = ''permit-self-update'' then Inr (perms\<lparr>allow_self_update := True\<rparr>)
      else if opt = ''totp'' then Inr (perms\<lparr>require_totp := True\<rparr>)
      else if opt = ''no-exec'' then Inr (perms\<lparr>allow_exec := False\<rparr>)
      else if opt = ''no-push'' then Inr (perms\<lparr>allow_push := False\<rparr>)
      else if opt = ''no-pull'' then Inr (perms\<lparr>allow_pull := False\<rparr>)
      else if opt = ''no-shell'' then Inr (perms\<lparr>allow_shell := False\<rparr>)
      else if opt = ''no-tunnel'' then Inr (perms\<lparr>allow_tunnel := False\<rparr>)
      else if opt = ''no-gui'' then Inr (perms\<lparr>allow_gui := False\<rparr>)
      else if opt = ''no-clipboard'' then Inr (perms\<lparr>allow_clipboard := False\<rparr>)
      else if opt = ''no-reboot'' then Inr (perms\<lparr>allow_reboot := False\<rparr>)
      else if opt = ''no-screenshot'' then Inr (perms\<lparr>allow_screenshot := False\<rparr>)
      else if opt = ''no-self-update'' then Inr (perms\<lparr>allow_self_update := False\<rparr>)
      else if starts_with opt command_prefix \<and> ends_with opt [quote]
      then if length opt - 1 < 9 then Inl Panicked
           else Inr (perms\<lparr>forced_command := Some (take (length opt - 1 - 9) (drop 9 opt))\<rparr>)
      else Inr perms)"

fun apply_options :: "string list \<Rightarrow> key_permissions \<Rightarrow> key_permissions result" where
  "apply_options [] perms = Inr perms"
| "apply_options (opt # opts) perms = and_then (apply_option (trim opt) perms) (apply_options opts)"

text \<open>\<open>split_options\<close>: commas outside quotes separate, parts are trimmed, empty parts dropped. The
  current part is accumulated in reverse.\<close>

definition flush_part :: "string \<Rightarrow> string list" where
  "flush_part cur = (let part = trim (rev cur) in if part = [] then [] else [part])"

fun split_opts :: "bool \<Rightarrow> string \<Rightarrow> string \<Rightarrow> string list" where
  "split_opts in_quotes cur [] = flush_part cur"
| "split_opts in_quotes cur (c # cs) =
     (if c = quote then split_opts (\<not> in_quotes) (c # cur) cs
      else if c = CHR '','' \<and> \<not> in_quotes then flush_part cur @ split_opts in_quotes [] cs
      else split_opts in_quotes (c # cur) cs)"

definition split_options :: "string \<Rightarrow> string list" where
  "split_options s = split_opts False [] s"

definition parse_key_options :: "string option \<Rightarrow> key_permissions result" where
  "parse_key_options options_str =
     (case options_str of
        None \<Rightarrow> Inr default_permissions
      | Some opts \<Rightarrow>
          if opts = [] then Inr default_permissions
          else apply_options (split_options opts) default_permissions)"

section \<open>Authorized keys\<close>

record authorized_key =
  key_type :: string
  key_data :: bytes
  key_comment :: "string option"
  key_perms :: key_permissions

text \<open>A line is skipped (\<open>Inr None\<close>) when it has no key type, no key or an undecodable key.\<close>

definition split_key_line :: "string \<Rightarrow> (string option \<times> string) option" where
  "split_key_line line =
     (if starts_with line ''ssh-'' \<or> starts_with line ''ecdsa-'' then Some (None, line)
      else case (case find_str ''ssh-'' line of
                   Some i \<Rightarrow> Some i | None \<Rightarrow> find_str ''ecdsa-'' line) of
             Some idx \<Rightarrow> Some (Some (trim (take idx line)), drop idx line)
           | None \<Rightarrow> None)"

definition parse_authorized_key_line ::
  "(string \<Rightarrow> bytes option) \<Rightarrow> string \<Rightarrow> authorized_key option result" where
  "parse_authorized_key_line b64 line =
     (case split_key_line line of
        None \<Rightarrow> Inr None
      | Some (options_str, rest) \<Rightarrow>
          let parts = splitn_ws 3 [] rest
          in if length parts < 2 then Inr None
             else
               let ktype = parts ! 0; key_b64 = parts ! 1;
                   cmt = (if 2 < length parts then Some (parts ! 2) else None)
               in and_then (parse_key_options options_str) (\<lambda>perms.
                    case b64 key_b64 of
                      None \<Rightarrow> Inr None
                    | Some d \<Rightarrow>
                        let raw = (if ktype = ''ssh-ed25519'' \<and> 32 \<le> length d
                                   then drop (length d - 32) d else d)
                        in Inr (Some \<lparr>key_type = ktype, key_data = raw, key_comment = cmt,
                                      key_perms = perms\<rparr>)))"

text \<open>The content lines that count: trimmed, not empty, not a comment.\<close>

definition content_lines :: "string \<Rightarrow> string list" where
  "content_lines content =
     filter (\<lambda>l. l \<noteq> [] \<and> \<not> starts_with l ''#'') (map trim (lines content))"

fun parse_key_lines ::
  "(string \<Rightarrow> bytes option) \<Rightarrow> string list \<Rightarrow> authorized_key list result" where
  "parse_key_lines b64 [] = Inr []"
| "parse_key_lines b64 (l # ls) =
     and_then (parse_authorized_key_line b64 l) (\<lambda>k.
       and_then (parse_key_lines b64 ls) (\<lambda>ks.
         Inr (case k of None \<Rightarrow> ks | Some x \<Rightarrow> x # ks)))"

text \<open>
  \<open>load_authorized_keys\<close>: \<open>mode\<close> are the Unix permission bits (\<open>None\<close> when the metadata is not
  available or the system is not Unix), \<open>content\<close> the file (\<open>None\<close> when it cannot be read).
\<close>

definition load_authorized_keys ::
  "(string \<Rightarrow> bytes option) \<Rightarrow> bool \<Rightarrow> u32 option \<Rightarrow> string option \<Rightarrow> authorized_key list result" where
  "load_authorized_keys b64 strict mode content =
     (if strict \<and> (case mode of None \<Rightarrow> False | Some m \<Rightarrow> m AND 0x3F \<noteq> 0)
      then Inl (Failed ''insecure permissions'')
      else and_then (ok_or (Failed ''read authorized_keys'') content) (\<lambda>c.
             parse_key_lines b64 (content_lines c)))"

section \<open>Fingerprints, revocation, signatures\<close>

definition key_fingerprint :: "(bytes \<Rightarrow> bytes) \<Rightarrow> (bytes \<Rightarrow> string) \<Rightarrow> bytes \<Rightarrow> string" where
  "key_fingerprint sha256 b64enc raw_key = ''SHA256:'' @ b64enc (sha256 raw_key)"

definition load_revoked_keys ::
  "(string \<Rightarrow> bytes option) \<Rightarrow> (bytes \<Rightarrow> bytes) \<Rightarrow> (bytes \<Rightarrow> string) \<Rightarrow> string option
     \<Rightarrow> string set result" where
  "load_revoked_keys b64 sha256 b64enc content =
     and_then (ok_or (Failed ''read revoked_keys'') content) (\<lambda>c.
       and_then (parse_key_lines b64 (content_lines c)) (\<lambda>ks.
         Inr (set (map (\<lambda>k. key_fingerprint sha256 b64enc (key_data k)) ks))))"

definition is_key_revoked ::
  "(bytes \<Rightarrow> bytes) \<Rightarrow> (bytes \<Rightarrow> string) \<Rightarrow> bytes \<Rightarrow> string set \<Rightarrow> bool" where
  "is_key_revoked sha256 b64enc raw_key revoked =
     (if revoked = {} then False else key_fingerprint sha256 b64enc raw_key \<in> revoked)"

text \<open>\<open>from_bytes\<close> of the verifying key may refuse the 32 bytes; \<open>verify_strict\<close> decides.\<close>

definition verify_ed25519_signature ::
  "(bytes \<Rightarrow> bool) \<Rightarrow> (bytes \<Rightarrow> bytes \<Rightarrow> bytes \<Rightarrow> bool) \<Rightarrow> bytes \<Rightarrow> bytes \<Rightarrow> bytes \<Rightarrow> bool result" where
  "verify_ed25519_signature valid_key verify_strict public_key challenge signature =
     (if length public_key \<noteq> 32 then Inl (Failed ''public key length'')
      else if length signature \<noteq> 64 then Inl (Failed ''signature length'')
      else if \<not> valid_key public_key then Inl (Failed ''invalid ed25519 public key'')
      else Inr (verify_strict public_key challenge signature))"

section \<open>TOTP\<close>

record totp_secret =
  ts_fingerprint :: string
  ts_secret :: string

definition load_totp_secrets :: "string option \<Rightarrow> totp_secret list result" where
  "load_totp_secrets content =
     and_then (ok_or (Failed ''read totp_secrets'') content) (\<lambda>c.
       Inr (concat (map (\<lambda>l. case splitn_ws 2 [] l of
                [f, s] \<Rightarrow> [\<lparr>ts_fingerprint = f, ts_secret = trim s\<rparr>]
              | _ \<Rightarrow> []) (content_lines c))))"

definition find_totp_secret :: "string \<Rightarrow> totp_secret list \<Rightarrow> totp_secret option" where
  "find_totp_secret fp secrets = find (\<lambda>s. ts_fingerprint s = fp) secrets"

text \<open>
  The recovery map: fingerprints with the hashes of their unused codes, as the association list in
  which the hash map happens to be iterated.
\<close>

type_synonym recovery_map = "(string \<times> string list) list"

definition recovery_line :: "string \<Rightarrow> (string \<times> string list) option" where
  "recovery_line l = (case split_whitespace l of f # h # hs \<Rightarrow> Some (f, h # hs) | _ \<Rightarrow> None)"

definition load_totp_recovery :: "string option \<Rightarrow> recovery_map result" where
  "load_totp_recovery content =
     and_then (ok_or (Failed ''read totp_recovery'') content) (\<lambda>c.
       Inr (fold (\<lambda>l m. case recovery_line l of None \<Rightarrow> m | Some (f, hs) \<Rightarrow> AList.update f hs m)
              (content_lines c) []))"

definition check_recovery_code ::
  "(string \<Rightarrow> string) \<Rightarrow> string \<Rightarrow> string \<Rightarrow> recovery_map \<Rightarrow> bool \<times> recovery_map" where
  "check_recovery_code sha256_hex code fp m =
     (case map_of m fp of
        None \<Rightarrow> (False, m)
      | Some hashes \<Rightarrow>
          if sha256_hex code \<in> set hashes
          then (True, AList.update fp (remove1 (sha256_hex code) hashes) m)
          else (False, m))"

definition recovery_header :: string where
  "recovery_header = ''# TOTP recovery codes (SHA256 hashes)'' @ [CHR 0x0A]"

definition save_totp_recovery :: "recovery_map \<Rightarrow> string" where
  "save_totp_recovery m =
     recovery_header
     @ concat (map (\<lambda>(fp, hashes). if hashes = [] then []
          else fp @ concat (map (\<lambda>h. CHR '' '' # h) hashes) @ [CHR 0x0A]) m)"

section \<open>What the options mean\<close>

datatype cap = CExec | CPush | CPull | CShell | CTunnel | CGui | CClipboard | CReboot | CScreenshot
  | CSelfUpdate

fun allows :: "key_permissions \<Rightarrow> cap \<Rightarrow> bool" where
  "allows p CExec = allow_exec p"
| "allows p CPush = allow_push p"
| "allows p CPull = allow_pull p"
| "allows p CShell = allow_shell p"
| "allows p CTunnel = allow_tunnel p"
| "allows p CGui = allow_gui p"
| "allows p CClipboard = allow_clipboard p"
| "allows p CReboot = allow_reboot p"
| "allows p CScreenshot = allow_screenshot p"
| "allows p CSelfUpdate = allow_self_update p"

fun cap_name :: "cap \<Rightarrow> string" where
  "cap_name CExec = ''exec''"
| "cap_name CPush = ''push''"
| "cap_name CPull = ''pull''"
| "cap_name CShell = ''shell''"
| "cap_name CTunnel = ''tunnel''"
| "cap_name CGui = ''gui''"
| "cap_name CClipboard = ''clipboard''"
| "cap_name CReboot = ''reboot''"
| "cap_name CScreenshot = ''screenshot''"
| "cap_name CSelfUpdate = ''self-update''"

definition permit_opt :: "cap \<Rightarrow> string" where
  "permit_opt c = ''permit-'' @ cap_name c"

definition deny_opt :: "cap \<Rightarrow> string" where
  "deny_opt c = ''no-'' @ cap_name c"

text \<open>The options that speak about a capability; the last of them decides.\<close>

definition mentions :: "cap \<Rightarrow> string \<Rightarrow> bool" where
  "mentions c opt \<longleftrightarrow> opt = ''restrict'' \<or> opt = permit_opt c \<or> opt = deny_opt c"

definition granted :: "string list \<Rightarrow> cap \<Rightarrow> bool" where
  "granted opts c = (case find (mentions c) (rev opts) of None \<Rightarrow> True | Some opt \<Rightarrow> opt = permit_opt c)"

definition is_command_opt :: "string \<Rightarrow> bool" where
  "is_command_opt opt \<longleftrightarrow> starts_with opt command_prefix \<and> ends_with opt [quote]"

fun set_cap :: "cap \<Rightarrow> bool \<Rightarrow> key_permissions \<Rightarrow> key_permissions" where
  "set_cap CExec b p = p\<lparr>allow_exec := b\<rparr>"
| "set_cap CPush b p = p\<lparr>allow_push := b\<rparr>"
| "set_cap CPull b p = p\<lparr>allow_pull := b\<rparr>"
| "set_cap CShell b p = p\<lparr>allow_shell := b\<rparr>"
| "set_cap CTunnel b p = p\<lparr>allow_tunnel := b\<rparr>"
| "set_cap CGui b p = p\<lparr>allow_gui := b\<rparr>"
| "set_cap CClipboard b p = p\<lparr>allow_clipboard := b\<rparr>"
| "set_cap CReboot b p = p\<lparr>allow_reboot := b\<rparr>"
| "set_cap CScreenshot b p = p\<lparr>allow_screenshot := b\<rparr>"
| "set_cap CSelfUpdate b p = p\<lparr>allow_self_update := b\<rparr>"

lemma allows_set_cap [simp]: "allows (set_cap c b p) d = (if c = d then b else allows p d)"
  by (cases c; cases d; simp)

lemma set_cap_other [simp]:
  "require_totp (set_cap c b p) = require_totp p" "forced_command (set_cap c b p) = forced_command p"
  by (cases c; simp)+

lemma allows_restricted [simp]: "\<not> allows restricted c" "allows default_permissions c"
  by (cases c; simp add: restricted_def default_permissions_def)+

lemma allows_update [simp]:
  "allows (p\<lparr>require_totp := b\<rparr>) c = allows p c" "allows (p\<lparr>forced_command := f\<rparr>) c = allows p c"
  by (cases c; simp)+

lemma cap_name_inj [simp]: "cap_name c = cap_name d \<longleftrightarrow> c = d"
  by (cases c; cases d; simp)

lemma opt_words [simp]:
  "permit_opt c = permit_opt d \<longleftrightarrow> c = d" "deny_opt c = deny_opt d \<longleftrightarrow> c = d"
  "permit_opt c \<noteq> deny_opt d" "deny_opt d \<noteq> permit_opt c"
  "permit_opt c \<noteq> ''restrict''" "deny_opt c \<noteq> ''restrict''"
  "permit_opt c \<noteq> ''totp''" "deny_opt c \<noteq> ''totp''"
  "''totp'' \<noteq> permit_opt c" "''totp'' \<noteq> deny_opt c"
  "permit_opt c \<noteq> command_prefix" "deny_opt c \<noteq> command_prefix"
  "''restrict'' \<noteq> permit_opt c" "''restrict'' \<noteq> deny_opt c"
  "''restrict'' \<noteq> command_prefix" "''totp'' \<noteq> command_prefix"
  by (simp_all add: permit_opt_def deny_opt_def command_prefix_def)

lemma command_opt_words [simp]:
  "\<not> is_command_opt ''restrict''" "\<not> is_command_opt ''totp''"
  "\<not> is_command_opt (permit_opt c)" "\<not> is_command_opt (deny_opt c)"
  by (simp_all add: is_command_opt_def starts_with_def command_prefix_def permit_opt_def deny_opt_def)

lemma apply_option_words:
  "apply_option ''restrict'' p = Inr restricted"
  "apply_option ''totp'' p = Inr (p\<lparr>require_totp := True\<rparr>)"
  "apply_option (permit_opt c) p = Inr (set_cap c True p)"
  "apply_option (deny_opt c) p = Inr (set_cap c False p)"
  by (simp add: apply_option_def, simp add: apply_option_def)
    (cases c; simp add: apply_option_def permit_opt_def deny_opt_def)+

lemma apply_option_rest:
  assumes "opt \<noteq> ''restrict''" "opt \<noteq> ''totp''" "\<And>c. opt \<noteq> permit_opt c" "\<And>c. opt \<noteq> deny_opt c"
  shows "apply_option opt p =
    (if is_command_opt opt
     then if opt = command_prefix then Inl Panicked
          else Inr (p\<lparr>forced_command := Some (take (length opt - 10) (drop 9 opt))\<rparr>)
     else Inr p)"
proof -
  have "length opt - 1 < 9 \<longleftrightarrow> opt = command_prefix" if "is_command_opt opt"
    using that by (auto simp: is_command_opt_def starts_with_def command_prefix_def prefix_def)
  then show ?thesis
    using assms(1,2) assms(3) [of CExec] assms(3) [of CPush] assms(3) [of CPull]
      assms(3) [of CShell] assms(3) [of CTunnel] assms(3) [of CGui] assms(3) [of CClipboard]
      assms(3) [of CReboot] assms(3) [of CScreenshot] assms(3) [of CSelfUpdate]
      assms(4) [of CExec] assms(4) [of CPush] assms(4) [of CPull]
      assms(4) [of CShell] assms(4) [of CTunnel] assms(4) [of CGui] assms(4) [of CClipboard]
      assms(4) [of CReboot] assms(4) [of CScreenshot] assms(4) [of CSelfUpdate]
    by (simp add: apply_option_def permit_opt_def deny_opt_def flip: is_command_opt_def)
qed

text \<open>The classes of options: every proof about one round of the loop is by these cases.\<close>

lemma option_cases:
  obtains (restrict) "opt = ''restrict''" | (totp) "opt = ''totp''"
    | (permit) c where "opt = permit_opt c" | (deny) c where "opt = deny_opt c"
    | (rest) "opt \<noteq> ''restrict''" "opt \<noteq> ''totp''" "\<And>c. opt \<noteq> permit_opt c" "\<And>c. opt \<noteq> deny_opt c"
  by blast

lemma apply_option_allows:
  "apply_option opt p = Inr p' \<Longrightarrow>
    allows p' c = (if mentions c opt then opt = permit_opt c else allows p c)"
  by (cases opt rule: option_cases)
    (auto simp: apply_option_words apply_option_rest mentions_def split: if_splits)

lemma apply_option_totp:
  "apply_option opt p = Inr p' \<Longrightarrow>
    require_totp p' = (opt = ''totp'' \<or> opt \<noteq> ''restrict'' \<and> require_totp p)"
  by (cases opt rule: option_cases)
    (auto simp: apply_option_words apply_option_rest restricted_def split: if_splits)

lemma apply_option_forced:
  "apply_option opt p = Inr p' \<Longrightarrow>
    forced_command p' = (if is_command_opt opt then Some (take (length opt - 10) (drop 9 opt))
      else if opt = ''restrict'' then None else forced_command p)"
  by (cases opt rule: option_cases)
    (auto simp: apply_option_words apply_option_rest restricted_def split: if_splits)

lemma command_prefix_opt [simp]: "is_command_opt command_prefix"
  by (simp add: is_command_opt_def command_prefix_def starts_with_def ends_with_def suffix_def)

lemma apply_option_fails: "apply_option opt p = Inl e \<longleftrightarrow> opt = command_prefix \<and> e = Panicked"
proof (cases opt rule: option_cases)
  case rest
  then show ?thesis by (auto simp: apply_option_rest)
qed (auto simp: apply_option_words)

lemma apply_options_append:
  "apply_options (xs @ ys) p = and_then (apply_options xs p) (apply_options ys)"
  by (induction xs arbitrary: p) (auto simp: and_then_def split: sum.splits)

lemma apply_options_allows:
  "apply_options opts p = Inr p' \<Longrightarrow>
    allows p' c = (case find (mentions c) (rev (map trim opts)) of
       None \<Rightarrow> allows p c | Some opt \<Rightarrow> opt = permit_opt c)"
proof (induction opts arbitrary: p' rule: rev_induct)
  case (snoc opt opts)
  then obtain q where "apply_options opts p = Inr q" "apply_option (trim opt) q = Inr p'"
    by (auto simp: apply_options_append and_then_Inr_iff)
  then show ?case using snoc.IH [of q] apply_option_allows [of "trim opt" q p' c] by simp
qed simp

lemma apply_options_fails:
  "apply_options opts p = Inl e \<longleftrightarrow> command_prefix \<in> set (map trim opts) \<and> e = Panicked"
proof (induction opts arbitrary: p)
  case (Cons opt opts)
  show ?case
  proof (cases "apply_option (trim opt) p")
    case (Inl e')
    then show ?thesis using apply_option_fails [of "trim opt" p e'] by auto
  next
    case (Inr q)
    then have "trim opt \<noteq> command_prefix" using apply_option_fails [of "trim opt" p Panicked] by auto
    then show ?thesis using Inr Cons.IH [of q] by auto
  qed
qed simp

lemma apply_options_totp:
  "apply_options opts p = Inr p' \<Longrightarrow>
    require_totp p' = (case find (\<lambda>opt. opt \<in> {''totp'', ''restrict''}) (rev (map trim opts)) of
       None \<Rightarrow> require_totp p | Some opt \<Rightarrow> opt = ''totp'')"
proof (induction opts arbitrary: p' rule: rev_induct)
  case (snoc opt opts)
  then obtain q where "apply_options opts p = Inr q" "apply_option (trim opt) q = Inr p'"
    by (auto simp: apply_options_append and_then_Inr_iff)
  then show ?case using snoc.IH [of q] apply_option_totp [of "trim opt" q p'] by auto
qed simp

definition command_text :: "string \<Rightarrow> string" where
  "command_text opt = take (length opt - 10) (drop 9 opt)"

lemma apply_options_forced:
  "apply_options opts p = Inr p' \<Longrightarrow>
    forced_command p' =
      (case find (\<lambda>opt. is_command_opt opt \<or> opt = ''restrict'') (rev (map trim opts)) of
         None \<Rightarrow> forced_command p
       | Some opt \<Rightarrow> if opt = ''restrict'' then None else Some (command_text opt))"
proof (induction opts arbitrary: p' rule: rev_induct)
  case (snoc opt opts)
  then obtain q where "apply_options opts p = Inr q" "apply_option (trim opt) q = Inr p'"
    by (auto simp: apply_options_append and_then_Inr_iff)
  then show ?case
    using snoc.IH [of q] apply_option_forced [of "trim opt" q p'] by (auto simp: command_text_def)
qed simp

lemma split_options_Nil [simp]: "split_options [] = []"
  by (simp add: split_options_def flush_part_def trim_def trim_start_def trim_end_def strip.simps)

lemma parse_key_options_Some:
  "parse_key_options (Some s) = apply_options (split_options s) default_permissions"
  by (simp add: parse_key_options_def)

section \<open>Properties of the key options\<close>

text \<open>The last option of an \<open>authorized_keys\<close> line that speaks about a capability decides it:
  \<open>permit-x\<close> grants x; \<open>no-x\<close> and \<open>restrict\<close> deny it; a line that never mentions x grants it.\<close>

theorem key_options_last_word:
  assumes "parse_key_options (Some s) = Inr p"
  shows "allows p c = granted (map trim (split_options s)) c"
  using assms by (simp add: parse_key_options_Some apply_options_allows granted_def split: option.split)

theorem key_options_last_word_witness:
  "allows (default_permissions\<lparr>allow_exec := False\<rparr>) CExec
     = granted (map trim (split_options ''permit-exec, no-exec'')) CExec"
proof -
  have "parse_key_options (Some ''permit-exec, no-exec'')
      = Inr (default_permissions\<lparr>allow_exec := False\<rparr>)"
    by code_simp
  from key_options_last_word [OF this] show ?thesis .
qed

text \<open>A second factor is demanded exactly when \<open>totp\<close> occurs after the last \<open>restrict\<close>, and the
  forced command is the last one after the last \<open>restrict\<close>: a \<open>restrict\<close> that follows them drops
  both.\<close>

theorem key_options_totp_forced:
  assumes "parse_key_options (Some s) = Inr p"
  shows "require_totp p =
      (find (\<lambda>opt. opt \<in> {''totp'', ''restrict''}) (rev (map trim (split_options s))) = Some ''totp'')
    \<and> forced_command p =
      (case find (\<lambda>opt. is_command_opt opt \<or> opt = ''restrict'') (rev (map trim (split_options s))) of
         None \<Rightarrow> None
       | Some opt \<Rightarrow> if opt = ''restrict'' then None else Some (command_text opt))"
  using assms
  by (auto simp: parse_key_options_Some apply_options_totp apply_options_forced default_permissions_def
      split: option.split dest: find_Some_iff [THEN iffD1])

theorem key_options_totp_forced_witness:
  "\<exists>p. parse_key_options (Some ''totp,restrict,permit-push'') = Inr p \<and> \<not> require_totp p"
proof -
  have *: "parse_key_options (Some ''totp,restrict,permit-push'') = Inr (restricted\<lparr>allow_push := True\<rparr>)"
    by code_simp
  have "find (\<lambda>opt. opt \<in> {''totp'', ''restrict''})
          (rev (map trim (split_options ''totp,restrict,permit-push''))) = Some ''restrict''"
    by code_simp
  with key_options_totp_forced [OF *] * show ?thesis by simp
qed

text \<open>Reading the options of a line panics exactly when one of them is an unfinished forced
  command, the text \<open>command="\<close> alone: the start of the slice then lies past its end.\<close>

theorem key_options_panic:
  "parse_key_options (Some s) = Inl e
     \<longleftrightarrow> command_prefix \<in> set (map trim (split_options s)) \<and> e = Panicked"
  by (simp add: parse_key_options_Some apply_options_fails)

section \<open>Recovery codes\<close>

text \<open>The maps the server keeps: one entry per fingerprint, fingerprints and hashes that are words,
  no fingerprint that reads as a comment, no hash twice for a key.\<close>

definition recovery_wf :: "recovery_map \<Rightarrow> bool" where
  "recovery_wf m \<longleftrightarrow> distinct (map fst m) \<and>
     list_all (\<lambda>(f, hs). token f \<and> hd f \<noteq> CHR ''#'' \<and> list_all token hs \<and> distinct hs) m"

lemma check_recovery_True:
  "check_recovery_code h code fp m = (True, m') \<longleftrightarrow>
    (\<exists>hs. map_of m fp = Some hs \<and> h code \<in> set hs
       \<and> m' = AList.update fp (remove1 (h code) hs) m)"
  by (auto simp: check_recovery_code_def split: option.splits if_splits)

lemma recovery_wf_update:
  assumes "recovery_wf m" "map_of m fp = Some hs"
  shows "recovery_wf (AList.update fp (remove1 x hs) m)"
proof -
  have "(fp, hs) \<in> set m" using assms(2) by (rule map_of_SomeD)
  with assms(1) have "list_all token (remove1 x hs)" and "distinct (remove1 x hs)" "token fp" "hd fp \<noteq> CHR ''#''"
    using set_remove1_subset [of x hs] by (auto simp: recovery_wf_def list_all_iff)
  then show ?thesis using assms(1) by (simp add: recovery_wf_def distinct_update list_all_update)
qed

text \<open>The rows of a saved file.\<close>

definition recovery_row :: "string \<times> string list \<Rightarrow> string" where
  "recovery_row e = join '' '' (fst e # snd e)"

lemma join_prefixed: "f @ concat (map (\<lambda>h. CHR '' '' # h) hs) = join '' '' (f # hs)"
  by (induction hs arbitrary: f) (simp_all, metis append_Cons append_assoc append_Nil)

lemma save_totp_recovery_unlines:
  "save_totp_recovery m = concat (map unline
     (butlast recovery_header # map recovery_row (filter (\<lambda>e. snd e \<noteq> []) m)))"
proof -
  have "concat (map (\<lambda>(fp, hashes). if hashes = [] then []
          else fp @ concat (map (\<lambda>h. CHR '' '' # h) hashes) @ [CHR 0x0A]) m)
      = concat (map unline (map recovery_row (filter (\<lambda>e. snd e \<noteq> []) m)))"
  proof (induction m)
    case (Cons e m)
    then show ?case
      by (cases e) (simp add: recovery_row_def unline_def flip: join_prefixed)
  qed simp
  then show ?thesis
    by (simp add: save_totp_recovery_def unline_def recovery_header_def)
qed

lemma tokens_chars: "list_all token ts \<Longrightarrow> c \<in> set (join '' '' ts) \<Longrightarrow> graphic c \<or> c = CHR '' ''"
  by (induction ts rule: induct_list012) (auto simp: token_def list_all_iff)

lemma tokens_ends:
  "list_all token ts \<Longrightarrow> ts \<noteq> [] \<Longrightarrow>
    join '' '' ts \<noteq> [] \<and> hd (join '' '' ts) = hd (hd ts) \<and> graphic (hd (hd ts)) \<and> graphic (last (join '' '' ts))"
  by (induction ts rule: induct_list012) (auto simp: token_def list_all_iff)

lemma tokens_row:
  assumes "list_all token ts" "ts \<noteq> []"
  shows "clean_line (join '' '' ts)" "trim (join '' '' ts) = join '' '' ts"
proof -
  note e = tokens_ends [OF assms]
  show "trim (join '' '' ts) = join '' '' ts" by (rule trim_graphic_ends) (use e in auto)
  show "clean_line (join '' '' ts)"
    using e tokens_chars [OF assms(1), of "CHR 0x0A"] graphic_no_ws(6,7)
    by (auto simp: clean_line_def)
qed

lemma content_lines_rows:
  assumes "recovery_wf m"
  shows "content_lines (save_totp_recovery m) = map recovery_row (filter (\<lambda>e. snd e \<noteq> []) m)"
proof -
  let ?m = "filter (\<lambda>e. snd e \<noteq> []) m"
  have row: "clean_line (recovery_row e) \<and> trim (recovery_row e) = recovery_row e
      \<and> recovery_row e \<noteq> [] \<and> \<not> starts_with (recovery_row e) ''#''" if "e \<in> set m" for e
  proof -
    from that assms have t: "list_all token (fst e # snd e)" "hd (fst e) \<noteq> CHR ''#''"
      by (auto simp: recovery_wf_def list_all_iff)
    note ends = tokens_ends [OF t(1)] and row = tokens_row [OF t(1)]
    show ?thesis
      using ends row t(2) by (cases "join '' '' (fst e # snd e)")
        (auto simp: recovery_row_def starts_with_def)
  qed
  have hdr: "clean_line (butlast recovery_header)"
    "trim (butlast recovery_header) = butlast recovery_header"
    "starts_with (butlast recovery_header) ''#''"
    by code_simp+
  have "list_all clean_line (butlast recovery_header # map recovery_row ?m)"
    using row hdr(1) by (auto simp: list_all_iff)
  note lines_unlines [OF this]
  moreover have "map (trim \<circ> recovery_row) ?m = map recovery_row ?m"
    by (rule map_cong [OF refl]) (use row in auto)
  moreover have "filter (\<lambda>l. l \<noteq> [] \<and> \<not> starts_with l ''#'') (map recovery_row ?m) = map recovery_row ?m"
    using row by (auto simp: filter_id_conv)
  ultimately show ?thesis
    using hdr unfolding content_lines_def save_totp_recovery_unlines by (simp only: list.map map_map filter.simps) simp
qed

lemma fold_update_fresh:
  "distinct (map fst (m @ xs)) \<Longrightarrow> fold (\<lambda>(k, v). AList.update k v) xs m = m @ xs"
proof (induction xs arbitrary: m)
  case (Cons x xs)
  have "AList.update k v m = m @ [(k, v)]" if "k \<notin> fst ` set m" for k v
    using that by (induction m) auto
  then have "AList.update (fst x) (snd x) m = m @ [x]" using Cons.prems by auto
  with Cons show ?case by (cases x) simp
qed simp

lemma recovery_line_row:
  "list_all token (fst e # snd e) \<Longrightarrow> snd e \<noteq> [] \<Longrightarrow> recovery_line (recovery_row e) = Some e"
  by (cases e; cases "snd e")
    (auto simp: recovery_line_def recovery_row_def split_whitespace_tokens simp del: join.simps)

lemma load_save_recovery:
  assumes "recovery_wf m"
  shows "load_totp_recovery (Some (save_totp_recovery m)) = Inr (filter (\<lambda>e. snd e \<noteq> []) m)"
proof -
  let ?m = "filter (\<lambda>e. snd e \<noteq> []) m"
  let ?f = "\<lambda>l m. case recovery_line l of None \<Rightarrow> m | Some (f, hs) \<Rightarrow> AList.update f hs m"
  have "fold ?f (map recovery_row ?m) a = fold (\<lambda>(k, v). AList.update k v) ?m a" for a
    unfolding fold_map
  proof (rule fold_cong [OF refl refl])
    fix e assume "e \<in> set ?m"
    with assms have "list_all token (fst e # snd e)" "snd e \<noteq> []"
      by (auto simp: recovery_wf_def list_all_iff)
    then show "(?f \<circ> recovery_row) e = (\<lambda>(k, v). AList.update k v) e"
      by (cases e) (simp add: recovery_line_row fun_eq_iff)
  qed
  moreover have "distinct (map fst ?m)"
    using assms by (simp add: recovery_wf_def distinct_map_filter)
  ultimately show ?thesis
    using fold_update_fresh [of "[]" ?m]
    by (simp add: load_totp_recovery_def ok_or_def content_lines_rows [OF assms])
qed

lemma recovery_used:
  assumes "recovery_wf m" "check_recovery_code h code fp m = (True, m')"
  shows "recovery_wf m' \<and> map_of m' = (map_of m)(fp \<mapsto> remove1 (h code) (the (map_of m fp)))"
proof -
  obtain hs where "map_of m fp = Some hs" "m' = AList.update fp (remove1 (h code) hs) m"
    using assms(2) by (auto simp: check_recovery_True)
  then show ?thesis using recovery_wf_update [OF assms(1)] by (simp add: update_conv')
qed

text \<open>C37. A recovery code is spent by its first use: once it has been accepted for a key, and the
  remaining codes have been saved and loaded again, the same code is refused for that key, and every
  other hash is accepted for every key exactly when it was before.\<close>

theorem recovery_code_single_use:
  assumes "recovery_wf m" "check_recovery_code h code fp m = (True, m')"
  shows "\<exists>m''. load_totp_recovery (Some (save_totp_recovery m')) = Inr m'' \<and>
    fst (check_recovery_code h code fp m'') = False \<and>
    (\<forall>code2 fp2. fst (check_recovery_code h code2 fp2 m'') =
       (fst (check_recovery_code h code2 fp2 m) \<and> (fp2, h code2) \<noteq> (fp, h code)))"
proof -
  have accept: "fst (check_recovery_code h c f n) = (\<exists>hs. map_of n f = Some hs \<and> h c \<in> set hs)" for c f n
    by (auto simp: check_recovery_code_def split: option.splits)
  from assms obtain hs where hs: "map_of m fp = Some hs" "h code \<in> set hs"
    by (auto simp: check_recovery_True)
  then have "distinct hs"
    using assms(1) map_of_SomeD [of m fp hs] by (auto simp: recovery_wf_def list_all_iff)
  from recovery_used [OF assms] have wf: "recovery_wf m'"
    and m': "map_of m' = (map_of m)(fp \<mapsto> remove1 (h code) hs)"
    by (simp_all add: hs)
  let ?m'' = "filter (\<lambda>e. snd e \<noteq> []) m'"
  have m'': "(\<exists>gs. map_of ?m'' g = Some gs \<and> x \<in> set gs) \<longleftrightarrow> (\<exists>gs. map_of m' g = Some gs \<and> x \<in> set gs)" for g x
    using wf map_of_filter_snd [of m' "\<lambda>v. v \<noteq> []" g]
    by (auto simp: recovery_wf_def split: option.splits if_splits simp del: map_of_eq_Some_iff)
  have "fst (check_recovery_code h c f ?m'') =
     (fst (check_recovery_code h c f m) \<and> (f, h c) \<noteq> (fp, h code))" for c f
    using \<open>distinct hs\<close> hs(1) by (auto simp: accept m'' m')
  then show ?thesis using load_save_recovery [OF wf] by auto
qed

theorem recovery_code_single_use_witness:
  "\<exists>m''. load_totp_recovery (Some (save_totp_recovery [(''SHA256:k'', [''b2''])])) = Inr m'' \<and>
    \<not> fst (check_recovery_code (map (\<lambda>c. c)) ''a1'' ''SHA256:k'' m'')"
proof -
  have "recovery_wf [(''SHA256:k'', [''a1'', ''b2''])]" by code_simp
  moreover have "check_recovery_code (map (\<lambda>c. c)) ''a1'' ''SHA256:k'' [(''SHA256:k'', [''a1'', ''b2''])]
    = (True, [(''SHA256:k'', [''b2''])])" by code_simp
  ultimately show ?thesis by (auto dest: recovery_code_single_use)
qed

end
