(* ===== verification/Dispatch.thy ===== *)
theory Dispatch
  imports Exec Session_Store Auth_Keys
begin

text \<open>
  Routing of requests, \<open>mrsh-server/src/dispatch.rs\<close>, and the permission check of
  \<open>mrsh-server/src/handler.rs\<close>. Dispatch returns its result, the session store, and the calls it
  made to other parts of the server, in order; the answers of parts with a theory of their own come
  from there, those of the others from a parameter. The compile-time features that disable request
  types are a record of flags.
\<close>

section \<open>Calls and results\<close>

datatype sync_stream_action = Pull_Delta | Batch_Patch_Bin | Push_Chunked

datatype call =
    Call_Exec string "string list"
  | Call_Exec_Stream string "string list"
  | Call_Exec_As_User string "string list"
  | Call_Ls string
  | Call_Read string
  | Call_Write string string
  | Call_Sync request
  | Call_Self_Update string
  | Call_Self_Update_From_Rdv string "string option" bool bool
  | Call_Tray_Start
  | Call_Input string string string
  | Call_Screenshot u32 byte byte
  | Call_Create_Dirs string
  | Call_Write_File string bytes
  | Call_Read_File string
  | Call_Log_Query bytes
  | Call_Sync_Stream sync_stream_action request

datatype hijack_action =
    Connect string
  | Shell string "string list"
  | Shell_Persistent string "string option" bool "string list"

datatype dispatch_result = Response response | Hijack hijack_action | Sync_Stream sync_stream_action

text \<open>The rest of the server: how it answers a call, how the session list is printed, the clock.\<close>

record server_env =
  exec_env :: exec_env
  answer :: "call \<Rightarrow> response"
  sessions_json :: "session_info list \<Rightarrow> string"
  now_secs :: nat

type_synonym handled = "response \<times> call list"

definition ask :: "server_env \<Rightarrow> call \<Rightarrow> handled" where
  "ask V c = (answer V c, [c])"

definition run_exec :: "server_env \<Rightarrow> string \<Rightarrow> string list \<Rightarrow> handled" where
  "run_exec V cmd env_vars =
     (fst (handle_exec_with_shell (exec_env V) cmd env_vars None), [Call_Exec cmd env_vars])"

definition uint_or :: "nat \<Rightarrow> nat \<Rightarrow> string option \<Rightarrow> nat" where
  "uint_or bound def s =
     (case s of None \<Rightarrow> def | Some t \<Rightarrow> (case parse_uint bound t of None \<Rightarrow> def | Some n \<Rightarrow> n))"

definition nth_opt :: "'a list \<Rightarrow> nat \<Rightarrow> 'a option" where
  "nth_opt xs i = (if i < length xs then Some (xs ! i) else None)"

definition or_empty :: "string option \<Rightarrow> string" where
  "or_empty s = (case s of Some t \<Rightarrow> t | None \<Rightarrow> [])"

text \<open>\<open>replace('\'', "''")\<close>.\<close>

definition escape_quotes :: "string \<Rightarrow> string" where
  "escape_quotes s = concat (map (\<lambda>c. if c = CHR 0x27 then [CHR 0x27, CHR 0x27] else [c]) s)"

definition quoted :: "string \<Rightarrow> string" where
  "quoted s = [CHR 0x27] @ escape_quotes s @ [CHR 0x27]"

section \<open>Sub-commands\<close>

definition handle_session_command ::
  "server_env \<Rightarrow> string \<Rightarrow> string option \<Rightarrow> session_map \<Rightarrow> response \<times> session_map" where
  "handle_session_command V cmd path store =
     (if cmd = ''list'' then (response_ok (Some (sessions_json V (session_list (now_secs V) store))), store)
      else if cmd = ''kill'' then
        (case path of
           None \<Rightarrow> (response_error ''missing session id'', store)
         | Some sid \<Rightarrow>
             (case session_kill sid store of
                (True, store') \<Rightarrow> (response_ok (Some ''session destroyed''), store')
              | (False, store') \<Rightarrow> (response_error (''session not found: '' @ sid), store')))
      else (response_error (''unknown session command: '' @ cmd), store))"

definition ps_command :: string where
  "ps_command = ''Get-Process | Select-Object Id,ProcessName,CPU,WorkingSet64 | ConvertTo-Json''"

definition info_command :: string where
  "info_command = ''[PSCustomObject]@'' @ ''{Hostname=$env:COMPUTERNAME; OS=[Environment]::OSVersion.VersionString; ''
     @ ''Arch=[Environment]::Is64BitOperatingSystem} | ConvertTo-Json''"

definition handle_native_command :: "server_env \<Rightarrow> string \<Rightarrow> string list \<Rightarrow> handled" where
  "handle_native_command V cmd argv =
     (if cmd = ''screenshot'' then
        ask V (Call_Screenshot (word_of_nat (uint_or (2 ^ 32) 0 (nth_opt argv 0)))
                 (word_of_nat (uint_or 256 80 (nth_opt argv 1))) (word_of_nat (uint_or 256 100 (nth_opt argv 2))))
      else if cmd = ''screenshot-diag'' then (response_ok (Some ''screenshot diagnostics: rust server''), [])
      else if cmd = ''ps'' then run_exec V ps_command []
      else if cmd = ''kill'' then
        (case parse_uint (2 ^ 32) (or_empty (nth_opt argv 0)) of
           Some pid \<Rightarrow> run_exec V (''Stop-Process -Id '' @ show_nat pid @ '' -Force'') []
         | None \<Rightarrow> (response_error ''invalid pid: must be a positive integer'', []))
      else if cmd = ''tail'' then
        run_exec V (''Get-Content '' @ quoted (or_empty (nth_opt argv 0)) @ '' -Tail ''
          @ show_nat (uint_or (2 ^ 64) 100 (nth_opt argv 1))) []
      else if cmd = ''info'' then run_exec V info_command []
      else if cmd = ''clip-get'' then run_exec V ''Get-Clipboard'' []
      else if cmd = ''clip-set'' then run_exec V (''Set-Clipboard -Value '' @ quoted (join '' '' argv)) []
      else (response_error (''unknown native command: '' @ cmd), []))"

section \<open>Dispatch\<close>

definition respond :: "session_map \<Rightarrow> handled \<Rightarrow> dispatch_result \<times> session_map \<times> call list" where
  "respond store h = (Response (fst h), store, snd h)"

definition reply :: "session_map \<Rightarrow> dispatch_result \<Rightarrow> dispatch_result \<times> session_map \<times> call list" where
  "reply store r = (r, store, [])"

definition env_list :: "request \<Rightarrow> string list" where
  "env_list req = (case rq_env_vars req of Some evs \<Rightarrow> evs | None \<Rightarrow> [])"

definition bool_or_false :: "bool option \<Rightarrow> bool" where
  "bool_or_false b = (b = Some True)"

definition dispatch ::
  "server_env \<Rightarrow> request \<Rightarrow> session_map \<Rightarrow> dispatch_result \<times> session_map \<times> call list" where
  "dispatch V req store =
     (let t = req_type req in
      if t = ''ping'' then reply store (Response (response_ok (Some ''pong'')))
      else if t = ''exec'' then respond store (run_exec V (or_empty (rq_command req)) (env_list req))
      else if t = ''exec-as-user'' then
        respond store (ask V (Call_Exec_As_User (or_empty (rq_command req)) (env_list req)))
      else if t = ''ls'' then
        respond store (ask V (Call_Ls (case rq_path req of Some p \<Rightarrow> p | None \<Rightarrow> ''.'')))
      else if t = ''read'' \<or> t = ''cat'' then
        (case rq_path req of
           None \<Rightarrow> reply store (Response (response_error ''missing path''))
         | Some p \<Rightarrow> respond store (ask V (Call_Read p)))
      else if t = ''write'' then
        (case rq_path req of
           None \<Rightarrow> reply store (Response (response_error ''missing path''))
         | Some p \<Rightarrow>
             (case rq_content req of
                None \<Rightarrow> reply store (Response (response_error ''missing content''))
              | Some c \<Rightarrow> respond store (ask V (Call_Write p c))))
      else if t = ''connect'' then
        (case rq_command req of
           None \<Rightarrow> reply store (Response (response_error ''missing target (command field)''))
         | Some target \<Rightarrow> reply store (Hijack (Connect target)))
      else if t = ''shell'' then
        reply store (Hijack (Shell (case rq_command req of Some z \<Rightarrow> z | None \<Rightarrow> ''80x24'') (env_list req)))
      else if t = ''shell-persistent'' then
        reply store (Hijack (Shell_Persistent
          (case rq_command req of Some z \<Rightarrow> z | None \<Rightarrow> ''80x24'')
          (case rq_path req of Some p \<Rightarrow> if p = [] then None else Some p | None \<Rightarrow> None)
          (bool_or_false (rq_binary req)) (env_list req)))
      else if t = ''session'' then
        (case handle_session_command V (or_empty (rq_command req)) (rq_path req) store of
           (resp, store') \<Rightarrow> reply store' (Response resp))
      else if t = ''sync'' then
        (let sync_type = or_empty (rq_sync_type req) in
         if sync_type = ''pull-delta'' then reply store (Sync_Stream Pull_Delta)
         else if sync_type = ''batch-patch-bin'' then reply store (Sync_Stream Batch_Patch_Bin)
         else if sync_type = ''push-chunked'' then reply store (Sync_Stream Push_Chunked)
         else respond store (ask V (Call_Sync req)))
      else if t = ''self-update'' then
        (case rq_path req of
           None \<Rightarrow> reply store (Response (response_error ''missing path for self-update''))
         | Some p \<Rightarrow> respond store (ask V (Call_Self_Update p)))
      else if t = ''self-update-from-rdv'' then
        respond store (ask V (Call_Self_Update_From_Rdv (or_empty (rq_track req)) (rq_version req)
          (bool_or_false (rq_allow_downgrade req)) (bool_or_false (rq_insecure_no_verify req))))
      else if t = ''tray-start'' then
        (case os (exec_env V) of
           Unix \<Rightarrow> reply store (Response (response_error ''tray-start is Windows-only''))
         | Windows _ _ \<Rightarrow> respond store (ask V Call_Tray_Start))
      else if t = ''input'' then
        (let parts = split_whitespace (or_empty (rq_command req)) in
         if length parts < 2
         then reply store (Response (response_error ''input requires: <type> <action> [args...]''))
         else respond store (ask V (Call_Input (parts ! 0) (parts ! 1) (join '' '' (drop 2 parts)))))
      else if t = ''native'' then
        (case split_whitespace (or_empty (rq_command req)) of
           [] \<Rightarrow> reply store (Response (response_error ''native requires: <command> [args...]''))
         | cmd # argv \<Rightarrow> respond store (handle_native_command V cmd argv))
      else if t = ''screenshot'' then
        respond store (ask V (Call_Screenshot (word_of_nat (uint_or (2 ^ 32) 0 (rq_command req)))
          (word_of_nat (uint_or 256 80 (rq_content req))) (word_of_nat (uint_or 256 100 (rq_path req)))))
      else reply store (Response (response_error (''unknown command: '' @ t))))"

definition handle_request :: "server_env \<Rightarrow> request \<Rightarrow> response" where
  "handle_request V req =
     (case dispatch V req store_new of
        (Response r, _) \<Rightarrow> r
      | (Hijack _, _) \<Rightarrow> response_error ''hijack not supported in this context''
      | (Sync_Stream _, _) \<Rightarrow> response_error ''sync stream not supported in this context'')"

section \<open>Permissions\<close>

record features =
  no_exec :: bool
  no_shell :: bool
  no_clipboard :: bool
  no_reboot :: bool
  no_screenshot :: bool
  no_self_update :: bool

text \<open>A check that the build may have switched off altogether.\<close>

definition gate :: "bool \<Rightarrow> string \<Rightarrow> bool \<Rightarrow> string \<Rightarrow> string option" where
  "gate disabled disabled_msg allowed denied_msg =
     (if disabled then Some disabled_msg else if \<not> allowed then Some denied_msg else None)"

definition or_else :: "'a option \<Rightarrow> 'a option \<Rightarrow> 'a option" where
  "or_else a b = (case a of Some x \<Rightarrow> Some x | None \<Rightarrow> b)"

definition check_permission :: "features \<Rightarrow> request \<Rightarrow> key_permissions \<Rightarrow> string option" where
  "check_permission F req perms =
     (let t = req_type req in
      if t = ''exec'' \<or> t = ''exec-as-user'' then
        gate (no_exec F) ''exec disabled in this build'' (allow_exec perms) ''exec not permitted for this key''
      else if t = ''write'' then
        gate False [] (allow_push perms) ''push/write not permitted for this key''
      else if t = ''ls'' \<or> t = ''read'' \<or> t = ''cat'' then
        gate False [] (allow_pull perms) ''pull/read not permitted for this key''
      else if t = ''shell'' \<or> t = ''shell-persistent'' then
        gate (no_shell F) ''shell disabled in this build'' (allow_shell perms) ''shell not permitted for this key''
      else if t = ''connect'' then
        gate False [] (allow_tunnel perms) ''tunnel not permitted for this key''
      else if t = ''sync'' then
        (let sync_type = or_empty (rq_sync_type req) in
         if sync_type = ''pull-delta'' then
           gate False [] (allow_pull perms) ''pull/read not permitted for this key''
         else if sync_type = ''batch-patch-bin'' then
           gate False [] (allow_push perms) ''push/write not permitted for this key''
         else gate False [] (allow_push perms \<and> allow_pull perms) ''sync not permitted for this key'')
      else if t = ''native'' then
        (let cmd = or_empty (rq_command req) in
         or_else (if starts_with cmd ''clip-''
                  then gate (no_clipboard F) ''clipboard disabled in this build'' (allow_clipboard perms)
                         ''clipboard not permitted for this key'' else None)
        (or_else (if cmd = ''reboot'' \<or> cmd = ''shutdown'' \<or> cmd = ''sleep'' \<or> cmd = ''lock''
                  then gate (no_reboot F) ''reboot/shutdown disabled in this build'' (allow_reboot perms)
                         ''reboot/shutdown not permitted for this key'' else None)
                 (if cmd = ''screenshot''
                  then gate (no_screenshot F) ''screenshot disabled in this build'' (allow_screenshot perms)
                         ''screenshot not permitted for this key'' else None)))
      else if t = ''input'' then
        gate False [] (allow_gui perms) ''GUI automation not permitted for this key''
      else if t = ''screenshot'' then
        gate (no_screenshot F) ''screenshot disabled in this build'' (allow_screenshot perms)
          ''screenshot not permitted for this key''
      else if t = ''self-update'' \<or> t = ''self-update-from-rdv'' then
        gate (no_self_update F) ''self-update disabled in this build'' (allow_self_update perms)
          ''self-update not permitted for this key''
      else if t = ''tray-start'' then
        gate False [] (allow_exec perms) ''tray-start not permitted for this key''
      else if t = ''ping'' \<or> t = ''session'' \<or> t = ''info'' then None
      else Some (''unknown request type '' @ [CHR 0x27] @ t @ [CHR 0x27] @ '' denied by default''))"

section \<open>Requests on the JSON path\<close>

text \<open>One JSON request of the connection loop: the permission check, the forced command, dispatch.\<close>

datatype request_outcome = Denied string | Handled dispatch_result

definition apply_forced :: "key_permissions \<Rightarrow> request \<Rightarrow> request" where
  "apply_forced perms req =
     (case forced_command perms of
        Some forced \<Rightarrow>
          if req_type req = ''exec'' \<or> req_type req = ''exec-as-user'' then req\<lparr>rq_command := Some forced\<rparr>
          else req
      | None \<Rightarrow> req)"

definition json_request ::
  "features \<Rightarrow> server_env \<Rightarrow> key_permissions \<Rightarrow> request \<Rightarrow> session_map
     \<Rightarrow> request_outcome \<times> session_map \<times> call list" where
  "json_request F V perms req store =
     (case check_permission F req perms of
        Some denial \<Rightarrow> (Denied denial, store, [])
      | None \<Rightarrow>
          (case dispatch V (apply_forced perms req) store of
             (r, store', cs) \<Rightarrow> (Handled r, store', cs)))"

section \<open>What a key may cause\<close>

text \<open>The capability each call and each hijacked or streamed action stands for.\<close>

fun call_needs :: "call \<Rightarrow> cap list" where
  "call_needs (Call_Exec _ _) = [CExec]"
| "call_needs (Call_Exec_Stream _ _) = [CExec]"
| "call_needs (Call_Exec_As_User _ _) = [CExec]"
| "call_needs (Call_Ls _) = [CPull]"
| "call_needs (Call_Read _) = [CPull]"
| "call_needs (Call_Write _ _) = [CPush]"
| "call_needs (Call_Sync _) = [CPush, CPull]"
| "call_needs (Call_Self_Update _) = [CSelfUpdate]"
| "call_needs (Call_Self_Update_From_Rdv _ _ _ _) = [CSelfUpdate]"
| "call_needs Call_Tray_Start = [CExec]"
| "call_needs (Call_Input _ _ _) = [CGui]"
| "call_needs (Call_Screenshot _ _ _) = [CScreenshot]"
| "call_needs (Call_Create_Dirs _) = [CPush]"
| "call_needs (Call_Write_File _ _) = [CPush]"
| "call_needs (Call_Read_File _) = [CPull]"
| "call_needs (Call_Log_Query _) = [CPull]"
| "call_needs (Call_Sync_Stream Pull_Delta _) = [CPull]"
| "call_needs (Call_Sync_Stream Batch_Patch_Bin _) = [CPush]"
| "call_needs (Call_Sync_Stream Push_Chunked _) = [CPush]"

fun result_needs :: "dispatch_result \<Rightarrow> cap list" where
  "result_needs (Hijack (Connect _)) = [CTunnel]"
| "result_needs (Hijack (Shell _ _)) = [CShell]"
| "result_needs (Hijack (Shell_Persistent _ _ _ _)) = [CShell]"
| "result_needs (Sync_Stream Pull_Delta) = [CPull]"
| "result_needs (Sync_Stream Batch_Patch_Bin) = [CPush]"
| "result_needs (Sync_Stream Push_Chunked) = [CPush]"
| "result_needs (Response _) = []"

definition permitted :: "key_permissions \<Rightarrow> dispatch_result \<times> session_map \<times> call list \<Rightarrow> bool" where
  "permitted perms d \<longleftrightarrow>
     list_all (allows perms) (result_needs (fst d)) \<and>
     list_all (\<lambda>c. list_all (allows perms) (call_needs c)) (snd (snd d))"

lemma gate_None [simp]: "gate d m a n = None \<longleftrightarrow> \<not> d \<and> a"
  by (simp add: gate_def)

lemma permitted_reply [simp]: "permitted p (reply store r) = list_all (allows p) (result_needs r)"
  by (simp add: permitted_def reply_def)

lemma permitted_respond [simp]:
  "permitted p (respond store h) = list_all (\<lambda>c. list_all (allows p) (call_needs c)) (snd h)"
  by (simp add: permitted_def respond_def)

lemma ask_calls [simp]: "snd (ask V c) = [c]" "snd (run_exec V cmd evs) = [Call_Exec cmd evs]"
  by (simp_all add: ask_def run_exec_def)

lemma apply_forced_type [simp]: "req_type (apply_forced p req) = req_type req"
  "rq_sync_type (apply_forced p req) = rq_sync_type req"
  by (auto simp: apply_forced_def split: option.split)

definition request_types :: "string list" where
  "request_types = [''exec'', ''exec-as-user'', ''write'', ''ls'', ''read'', ''cat'', ''shell'', ''shell-persistent'',
     ''connect'', ''sync'', ''native'', ''input'', ''screenshot'', ''self-update'', ''self-update-from-rdv'',
     ''tray-start'', ''ping'', ''session'', ''info'']"

lemma unknown_type_denied: "req_type req \<notin> set request_types \<Longrightarrow> check_permission F req p \<noteq> None"
  unfolding request_types_def check_permission_def Let_def by simp

text \<open>The clauses of the permission check and of dispatch, one per request type.\<close>

lemmas request_clauses = check_permission_def dispatch_def Let_def

lemma permitted_dispatch:
  assumes "check_permission F req p = None" "req_type req \<noteq> ''native''"
  shows "permitted p (dispatch V (apply_forced p req) store)"
proof -
  have "req_type req \<in> set request_types" using assms(1) unknown_type_denied by blast
  then consider
      "req_type req \<in> {''exec'', ''exec-as-user'', ''write''}" | "req_type req \<in> {''ls'', ''read'', ''cat''}"
    | "req_type req \<in> {''shell'', ''shell-persistent'', ''connect''}" | "req_type req = ''sync''"
    | "req_type req \<in> {''input'', ''screenshot'', ''tray-start''}"
    | "req_type req \<in> {''self-update'', ''self-update-from-rdv'', ''ping'', ''session'', ''info''}"
    using assms(2) unfolding request_types_def by auto
  then show ?thesis
  proof cases
    case 1
    with assms(1) show ?thesis
      by (elim insertE) (simp_all add: request_clauses split: option.split)
  next
    case 2
    with assms(1) show ?thesis
      by (elim insertE) (simp_all add: request_clauses split: option.split)
  next
    case 3
    with assms(1) show ?thesis
      by (elim insertE) (simp_all add: request_clauses split: option.split)
  next
    case 4
    with assms(1) show ?thesis
      by (simp add: request_clauses split: if_splits)
  next
    case 5
    with assms(1) show ?thesis
      by (elim insertE) (simp_all add: request_clauses split: platform.split)
  next
    case 6
    with assms(1) show ?thesis
      by (elim insertE) (simp_all add: request_clauses split: option.split prod.split)
  qed
qed

fun runs_only :: "string \<Rightarrow> call \<Rightarrow> bool" where
  "runs_only f (Call_Exec cmd _) = (cmd = f)"
| "runs_only f (Call_Exec_As_User cmd _) = (cmd = f)"
| "runs_only f (Call_Exec_Stream cmd _) = (cmd = f)"
| "runs_only f _ = True"

lemma forced_dispatch:
  assumes "forced_command p = Some f" "req_type req \<noteq> ''native''"
  shows "list_all (runs_only f) (snd (snd (dispatch V (apply_forced p req) store)))"
proof (cases "req_type req = ''exec'' \<or> req_type req = ''exec-as-user''")
  case True
  then show ?thesis
    using assms(1) by (elim disjE) (simp_all add: apply_forced_def dispatch_def respond_def or_empty_def)
next
  case False
  then have "apply_forced p req = req" by (auto simp: apply_forced_def split: option.split)
  with False assms(2) show ?thesis
    by (simp add: dispatch_def Let_def respond_def reply_def split: option.split prod.split platform.split)
qed

text \<open>On the JSON path a key does only what it is permitted: whatever a request other than
  \<open>native\<close> causes, every call into the server and every hijacked or streamed connection, needs
  only capabilities the key has; a key with a forced command runs that command and no other.\<close>

theorem json_request_authorized:
  assumes "json_request F V perms req store = (Handled r, store', cs)" "req_type req \<noteq> ''native''"
  shows "permitted perms (r, store', cs) \<and>
    (\<forall>f. forced_command perms = Some f \<longrightarrow> list_all (runs_only f) cs)"
proof -
  from assms(1) have c: "check_permission F req perms = None"
    "dispatch V (apply_forced perms req) store = (r, store', cs)"
    by (auto simp: json_request_def split: option.splits prod.splits)
  show ?thesis
    using permitted_dispatch [OF c(1) assms(2), of V store] forced_dispatch [of perms _ req V store] assms(2)
    by (simp add: c(2))
qed

definition sample_server :: server_env where
  "sample_server = \<lparr>exec_env = sample_env, answer = (\<lambda>_. response_ok None), sessions_json = (\<lambda>_. []), now_secs = 0\<rparr>"

definition open_build :: features where
  "open_build = \<lparr>no_exec = False, no_shell = False, no_clipboard = False, no_reboot = False,
     no_screenshot = False, no_self_update = False\<rparr>"

definition plain_request :: "string \<Rightarrow> string option \<Rightarrow> request" where
  "plain_request t c = \<lparr>req_type = t, rq_command = c, rq_path = None, rq_content = None, rq_binary = None,
     rq_gzip = None, rq_sync_type = None, rq_delta = None, rq_signatures = None, rq_paths = None,
     rq_batch_patches = None, rq_env_vars = None, rq_track = None, rq_version = None,
     rq_allow_downgrade = None, rq_insecure_no_verify = None\<rparr>"

theorem json_request_authorized_witness:
  "\<exists>r store' cs. json_request open_build sample_server (default_permissions\<lparr>forced_command := Some ''date''\<rparr>)
       (plain_request ''exec'' (Some ''ls'')) [] = (Handled r, store', cs)
     \<and> list_all (runs_only ''date'') cs"
proof -
  let ?p = "default_permissions\<lparr>forced_command := Some ''date''\<rparr>"
  let ?req = "plain_request ''exec'' (Some ''ls'')"
  have "check_permission open_build ?req ?p = None" by code_simp
  then obtain r store' cs where
    j: "json_request open_build sample_server ?p ?req [] = (Handled r, store', cs)"
    by (cases "dispatch sample_server (apply_forced ?p ?req) []") (auto simp: json_request_def)
  moreover have "req_type ?req \<noteq> ''native''" by code_simp
  ultimately show ?thesis using json_request_authorized [OF j] by auto
qed

lemma native_clauses:
  "snd (snd (json_request F V restricted (plain_request ''native'' (Some c)) store)) =
    (if check_permission F (plain_request ''native'' (Some c)) restricted \<noteq> None then []
     else case split_whitespace c of [] \<Rightarrow> [] | cmd # argv \<Rightarrow> snd (handle_native_command V cmd argv))"
  by (simp add: json_request_def apply_forced_def restricted_def plain_request_def dispatch_def reply_def
      respond_def or_empty_def split: option.split list.split)

text \<open>The check of \<open>native\<close> requests looks at another text than the one that is run: a key
  restricted to nothing still runs a process list, and where \<open>clip-get\<close> and \<open>screenshot\<close> are refused,
  the same words with a space before or an argument after them reach the clipboard and the screen.\<close>

theorem native_check_evaded:
  "snd (snd (json_request F V restricted (plain_request ''native'' (Some ''ps'')) store)) = [Call_Exec ps_command []] \<and>
   snd (snd (json_request F V restricted (plain_request ''native'' (Some ''clip-get'')) store)) = [] \<and>
   snd (snd (json_request F V restricted (plain_request ''native'' (Some '' clip-get'')) store))
     = [Call_Exec ''Get-Clipboard'' []] \<and>
   snd (snd (json_request F V restricted (plain_request ''native'' (Some ''screenshot'')) store)) = [] \<and>
   snd (snd (json_request F V restricted (plain_request ''native'' (Some ''screenshot 0'')) store))
     = [Call_Screenshot 0 80 100]"
proof -
  have sw: "split_whitespace ''ps'' = [''ps'']" "split_whitespace '' clip-get'' = [''clip-get'']"
    "split_whitespace ''screenshot 0'' = [''screenshot'', ''0'']" by code_simp+
  have n: "uint_or 4294967296 0 (Some ''0'') = 0" by (simp add: uint_or_def parse_uint_def)
  show ?thesis
    unfolding native_clauses sw
    by (simp add: check_permission_def plain_request_def or_empty_def starts_with_def or_else_def gate_def
        restricted_def handle_native_command_def nth_opt_def uint_or_def [where s = None] n)
qed

end
