(* ===== verification/Net_Addr.thy ===== *)
theory Net_Addr
  imports Rust_Str
begin

text \<open>
  IP addresses and their text, as Rust's \<open>str::parse::<IpAddr>\<close> reads them: four decimal octets
  without leading zeros, or up to eight hexadecimal groups with one \<open>::\<close> and an embedded IPv4
  address in the last two groups. A reader takes the input and returns the value with the rest.
\<close>

datatype ip_addr = V4 byte byte byte byte | V6 "u16 list"

section \<open>Reading numbers\<close>

definition digit_value :: "nat \<Rightarrow> char \<Rightarrow> nat option" where
  "digit_value radix c =
     (let n = (of_char c :: nat);
          d = (if 48 \<le> n \<and> n \<le> 57 then Some (n - 48)
               else if 97 \<le> n \<and> n \<le> 122 then Some (n - 87)
               else if 65 \<le> n \<and> n \<le> 90 then Some (n - 55) else None)
      in case d of Some v \<Rightarrow> if v < radix then Some v else None | None \<Rightarrow> None)"

text \<open>The digit loop of \<open>read_number\<close>: \<open>count\<close> digits read so far with value \<open>acc\<close>; more than
  \<open>max_digits\<close> digits or a value of \<open>bound\<close> or more is an error.\<close>

fun read_digits :: "nat \<Rightarrow> nat \<Rightarrow> nat \<Rightarrow> nat \<Rightarrow> nat \<Rightarrow> string \<Rightarrow> (nat \<times> nat \<times> string) option" where
  "read_digits radix max_digits bound count acc [] = Some (count, acc, [])"
| "read_digits radix max_digits bound count acc (c # cs) =
     (case digit_value radix c of
        None \<Rightarrow> Some (count, acc, c # cs)
      | Some v \<Rightarrow>
          if bound \<le> acc * radix + v \<or> max_digits < count + 1 then None
          else read_digits radix max_digits bound (count + 1) (acc * radix + v) cs)"

definition read_number ::
  "nat \<Rightarrow> nat \<Rightarrow> bool \<Rightarrow> nat \<Rightarrow> string \<Rightarrow> (nat \<times> string) option" where
  "read_number radix max_digits allow_zero_prefix bound s =
     (case read_digits radix max_digits bound 0 0 s of
        None \<Rightarrow> None
      | Some (count, v, rest) \<Rightarrow>
          if count = 0 then None
          else if \<not> allow_zero_prefix \<and> s \<noteq> [] \<and> hd s = CHR ''0'' \<and> 1 < count then None
          else Some (v, rest))"

definition read_given_char :: "char \<Rightarrow> string \<Rightarrow> string option" where
  "read_given_char c s = (case s of [] \<Rightarrow> None | d # ds \<Rightarrow> if d = c then Some ds else None)"

text \<open>\<open>read_separator\<close>: the separator first, unless this is the first item.\<close>

definition read_separator :: "char \<Rightarrow> nat \<Rightarrow> (string \<Rightarrow> 'a option) \<Rightarrow> string \<Rightarrow> 'a option" where
  "read_separator sep i inner s =
     (if 0 < i then (case read_given_char sep s of None \<Rightarrow> None | Some r \<Rightarrow> inner r) else inner s)"

section \<open>Addresses\<close>

definition read_octet :: "nat \<Rightarrow> string \<Rightarrow> (byte \<times> string) option" where
  "read_octet i s =
     (case read_separator (CHR ''.'') i (read_number 10 3 False 256) s of
        None \<Rightarrow> None | Some (v, r) \<Rightarrow> Some (word_of_nat v, r))"

definition read_ipv4_addr :: "string \<Rightarrow> ((byte \<times> byte \<times> byte \<times> byte) \<times> string) option" where
  "read_ipv4_addr s =
     (case read_octet 0 s of None \<Rightarrow> None | Some (a, s1) \<Rightarrow>
      case read_octet 1 s1 of None \<Rightarrow> None | Some (b, s2) \<Rightarrow>
      case read_octet 2 s2 of None \<Rightarrow> None | Some (c, s3) \<Rightarrow>
      case read_octet 3 s3 of None \<Rightarrow> None | Some (d, s4) \<Rightarrow> Some ((a, b, c, d), s4))"

definition pair_u16 :: "byte \<Rightarrow> byte \<Rightarrow> u16" where
  "pair_u16 a b = word_of_nat (unat a * 256 + unat b)"

text \<open>\<open>read_groups\<close>: at most \<open>left\<close> further groups, the next one being number \<open>i\<close>; the flag says that
  they ended in an IPv4 address.\<close>

fun read_groups :: "nat \<Rightarrow> nat \<Rightarrow> string \<Rightarrow> u16 list \<times> bool \<times> string" where
  "read_groups i 0 s = ([], False, s)"
| "read_groups i (Suc left) s =
     (case (if 0 < left then read_separator (CHR '':'') i read_ipv4_addr s else None) of
        Some ((a, b, c, d), r) \<Rightarrow> ([pair_u16 a b, pair_u16 c d], True, r)
      | None \<Rightarrow>
          (case read_separator (CHR '':'') i (read_number 16 4 True 65536) s of
             None \<Rightarrow> ([], False, s)
           | Some (g, r) \<Rightarrow>
               (case read_groups (i + 1) left r of
                  (gs, v4, r') \<Rightarrow> (word_of_nat g # gs, v4, r'))))"

definition read_ipv6_addr :: "string \<Rightarrow> (u16 list \<times> string) option" where
  "read_ipv6_addr s =
     (case read_groups 0 8 s of (head, head_ipv4, s1) \<Rightarrow>
        if length head = 8 then Some (head, s1)
        else if head_ipv4 then None
        else case read_given_char (CHR '':'') s1 of None \<Rightarrow> None | Some s2 \<Rightarrow>
             case read_given_char (CHR '':'') s2 of None \<Rightarrow> None | Some s3 \<Rightarrow>
             (case read_groups 0 (8 - (length head + 1)) s3 of (tail, _, s4) \<Rightarrow>
                Some (head @ replicate (8 - length head - length tail) 0 @ tail, s4)))"

definition parse_ip :: "string \<Rightarrow> ip_addr option" where
  "parse_ip s =
     (case (case read_ipv4_addr s of
              Some ((a, b, c, d), r) \<Rightarrow> Some (V4 a b c d, r)
            | None \<Rightarrow> (case read_ipv6_addr s of Some (gs, r) \<Rightarrow> Some (V6 gs, r) | None \<Rightarrow> None)) of
        Some (ip, []) \<Rightarrow> Some ip
      | _ \<Rightarrow> None)"

definition to_ipv4_mapped :: "u16 list \<Rightarrow> (byte \<times> byte \<times> byte \<times> byte) option" where
  "to_ipv4_mapped gs =
     (if length gs = 8 \<and> take 5 gs = [0, 0, 0, 0, 0] \<and> gs ! 5 = 0xFFFF
      then Some (word_of_nat (unat (gs ! 6) div 256), word_of_nat (unat (gs ! 6) mod 256),
                 word_of_nat (unat (gs ! 7) div 256), word_of_nat (unat (gs ! 7) mod 256))
      else None)"

section \<open>Printed addresses are read back\<close>

definition show_v4 :: "byte \<Rightarrow> byte \<Rightarrow> byte \<Rightarrow> byte \<Rightarrow> string" where
  "show_v4 a b c d = show_nat (unat a) @ ''.'' @ show_nat (unat b) @ ''.'' @ show_nat (unat c)
     @ ''.'' @ show_nat (unat d)"

definition no_digit :: "string \<Rightarrow> bool" where
  "no_digit s \<longleftrightarrow> s = [] \<or> digit_value 10 (hd s) = None"

lemma digit_value_digit: "n < 10 \<Longrightarrow> digit_value 10 (char_of (48 + n)) = Some n"
  by (simp add: digit_value_def Let_def)

lemma read_digits_show:
  "acc * 10 ^ length (show_nat n) + n < bound \<Longrightarrow> count + length (show_nat n) \<le> mx \<Longrightarrow>
    read_digits 10 mx bound count acc (show_nat n @ r)
      = read_digits 10 mx bound (count + length (show_nat n)) (acc * 10 ^ length (show_nat n) + n) r"
proof (induction n arbitrary: r rule: show_nat.induct)
  case (1 n)
  show ?case
  proof (cases "n < 10")
    case True
    then have "show_nat n = [char_of (48 + n)]" by (subst show_nat.simps) simp
    with 1(2,3) True show ?thesis by (simp add: digit_value_digit)
  next
    case False
    let ?l = "length (show_nat (n div 10))"
    have s: "show_nat n = show_nat (n div 10) @ [char_of (48 + n mod 10)]"
      using False by (subst show_nat.simps) simp
    have v: "(acc * 10 ^ ?l + n div 10) * 10 + n mod 10 = acc * 10 ^ Suc ?l + n" by simp
    have "acc * 10 ^ ?l + n div 10 \<le> (acc * 10 ^ ?l + n div 10) * 10 + n mod 10" by simp
    then have "acc * 10 ^ ?l + n div 10 \<le> acc * 10 ^ Suc ?l + n" by (simp only: v)
    then have "read_digits 10 mx bound count acc (show_nat (n div 10) @ char_of (48 + n mod 10) # r)
      = read_digits 10 mx bound (count + ?l) (acc * 10 ^ ?l + n div 10) (char_of (48 + n mod 10) # r)"
      using 1(2,3) False s by (intro 1(1)) simp_all
    with 1(2,3) s v show ?thesis by (simp add: digit_value_digit ac_simps)
  qed
qed

lemma read_number_octet:
  assumes "n < 256" "no_digit r"
  shows "read_number 10 3 False 256 (show_nat n @ r) = Some (n, r)"
proof -
  have l: "length (show_nat n) \<le> 3" using length_show_nat [of n 2] assms(1) by simp
  have "read_digits 10 3 256 c v r = Some (c, v, r)" for c v
    using assms(2) by (cases r) (auto simp: no_digit_def)
  then have "read_digits 10 3 256 0 0 (show_nat n @ r) = Some (length (show_nat n), n, r)"
    using read_digits_show [of 0 n 256 0 3 r] l assms(1) by simp
  moreover have "hd (show_nat n @ r) = CHR ''0'' \<Longrightarrow> length (show_nat n) = 1"
    using hd_show_nat [of n] by (simp add: show_nat.simps [of 0])
  ultimately show ?thesis by (auto simp: read_number_def)
qed

lemma read_octet_show:
  assumes "no_digit r"
  shows "read_octet 0 (show_nat (unat a) @ r) = Some (a, r)"
    "read_octet (Suc i) (CHR ''.'' # show_nat (unat a) @ r) = Some (a, r)"
proof -
  have "read_number 10 3 False 256 (show_nat (unat a) @ r) = Some (unat a, r)"
    using assms unsigned_less [of a] by (intro read_number_octet) simp_all
  then show "read_octet 0 (show_nat (unat a) @ r) = Some (a, r)"
    "read_octet (Suc i) (CHR ''.'' # show_nat (unat a) @ r) = Some (a, r)"
    by (simp_all add: read_octet_def read_separator_def read_given_char_def)
qed

lemma no_digit_dot [simp]: "no_digit (CHR ''.'' # s)"
  by (simp add: no_digit_def digit_value_def)

lemma read_show_v4: "no_digit r \<Longrightarrow> read_ipv4_addr (show_v4 a b c d @ r) = Some ((a, b, c, d), r)"
  using read_octet_show(2) [of _ 0] read_octet_show(2) [of _ 1] read_octet_show(2) [of _ 2]
  by (simp add: read_ipv4_addr_def show_v4_def read_octet_show(1) numeral_2_eq_2 numeral_3_eq_3)

lemma parse_show_v4 [simp]: "parse_ip (show_v4 a b c d) = Some (V4 a b c d)"
  using read_show_v4 [of "[]" a b c d] by (simp add: parse_ip_def no_digit_def)

text \<open>An IPv4 address inside an IPv6 one, \<open>::ffff:a.b.c.d\<close>.\<close>

lemma pair_u16_parts [simp]:
  "word_of_nat (unat (pair_u16 a b) div 256) = (a :: byte)"
  "word_of_nat (unat (pair_u16 a b) mod 256) = (b :: byte)"
proof -
  have "unat a < 256" "unat b < 256" using unsigned_less [of a] unsigned_less [of b] by simp_all
  then have "unat a * 256 + unat b < 65536" by linarith
  then have "unat (pair_u16 a b) = unat a * 256 + unat b"
    by (simp only: pair_u16_def unat_of_nat) (simp add: mod_less)
  with \<open>unat b < 256\<close> show "word_of_nat (unat (pair_u16 a b) div 256) = a" "word_of_nat (unat (pair_u16 a b) mod 256) = b"
    by simp_all
qed

lemma parse_mapped_v4:
  "parse_ip (''::ffff:'' @ show_v4 a b c d) = Some (V6 [0, 0, 0, 0, 0, 0xFFFF, pair_u16 a b, pair_u16 c d])"
proof -
  let ?t = "CHR '':'' # show_v4 a b c d"
  have eight: "Suc 7 = 8" and seven: "Suc 6 = 7" by simp_all
  have zeros: "replicate 5 (0 :: u16) = [0, 0, 0, 0, 0]" by (simp add: numeral_eq_Suc)
  have colon: "digit_value r (CHR '':'') = None" for r by (simp add: digit_value_def)
  have f: "digit_value 16 (CHR ''f'') = Some 15" "digit_value 10 (CHR ''f'') = None"
    by (simp_all add: digit_value_def)
  have head: "read_groups 0 (Suc 7) (''::ffff'' @ ?t) = ([], False, ''::ffff'' @ ?t)"
    by (subst read_groups.simps) (simp add: read_separator_def read_ipv4_addr_def read_octet_def read_number_def colon)
  have ff: "read_number 16 4 True 65536 (''ffff'' @ ?t) = Some (65535, ?t)"
    by (simp add: read_number_def colon f)
  have no4: "read_ipv4_addr (''ffff'' @ ?t) = None"
    by (simp add: read_ipv4_addr_def read_octet_def read_separator_def read_number_def f)
  have g1: "read_groups 1 (Suc 5) ?t = ([pair_u16 a b, pair_u16 c d], True, [])"
    using read_show_v4 [of "[]" a b c d]
    by (subst read_groups.simps) (simp add: read_separator_def read_given_char_def no_digit_def)
  have "read_groups 0 (Suc 6) (''ffff'' @ ?t) = (0xFFFF # [pair_u16 a b, pair_u16 c d], True, [])"
    using no4 ff g1 by (subst read_groups.simps) (simp add: read_separator_def)
  then have "read_groups 0 7 (''ffff'' @ ?t) = (0xFFFF # [pair_u16 a b, pair_u16 c d], True, [])"
    by (simp only: seven)
  then have "read_ipv6_addr (''::ffff'' @ ?t) = Some ([0, 0, 0, 0, 0, 0xFFFF, pair_u16 a b, pair_u16 c d], [])"
    using head [unfolded eight]
    by (simp add: read_ipv6_addr_def read_given_char_def zeros)
  moreover have "read_ipv4_addr (''::ffff'' @ ?t) = None"
    by (simp add: read_ipv4_addr_def read_octet_def read_separator_def read_number_def colon)
  ultimately show ?thesis by (simp add: parse_ip_def)
qed

end
