(* ===== verification/Tunnel.thy ===== *)
theory Tunnel
  imports Net_Addr Wire
begin

text \<open>
  TCP tunnels, \<open>mrsh-server/src/tunnel.rs\<close>: which targets are refused, the \<open>PermitOpen\<close> rules, and
  the relay loop between the framed client stream and the raw target. The loop is a step function
  over what the two sides do; the future that receives the client's next frame is part of the state,
  since it is dropped, with what it has read, whenever the target's branch of the \<open>select!\<close> wins.
\<close>

section \<open>Targets\<close>

definition to_ascii_lower_char :: "char \<Rightarrow> char" where
  "to_ascii_lower_char c =
     (let n = (of_char c :: nat) in if 65 \<le> n \<and> n \<le> 90 then char_of (n + 32) else c)"

definition to_ascii_lowercase :: "string \<Rightarrow> string" where
  "to_ascii_lowercase s = map to_ascii_lower_char s"

definition blocked_v4 :: "byte \<Rightarrow> byte \<Rightarrow> byte \<Rightarrow> byte \<Rightarrow> bool" where
  "blocked_v4 a b c d \<longleftrightarrow>
     (a, b, c, d) = (0, 0, 0, 0) \<or> (a, b, c, d) = (169, 254, 169, 254) \<or> (a, b, c, d) = (168, 63, 129, 16)
     \<or> (a = 169 \<and> b = 254) \<and> c = 169"

definition blocked_v6 :: "u16 list \<Rightarrow> bool" where
  "blocked_v6 gs \<longleftrightarrow> gs = replicate 8 0 \<or> to_ipv4_mapped gs = Some (169, 254, 169, 254)"

definition target_host :: "string \<Rightarrow> string" where
  "target_host target =
     (if starts_with target ''[''
      then dropWhile (\<lambda>c. c = CHR ''['') (takeWhile (\<lambda>c. c \<noteq> CHR '']'') target)
      else takeWhile (\<lambda>c. c \<noteq> CHR '':'') target)"

definition is_blocked_target :: "string \<Rightarrow> bool" where
  "is_blocked_target target =
     (let host = target_host target
      in case parse_ip host of
           Some (V4 a b c d) \<Rightarrow> blocked_v4 a b c d
         | Some (V6 gs) \<Rightarrow> blocked_v6 gs
         | None \<Rightarrow>
             let host_lower = to_ascii_lowercase host
             in host_lower = ''metadata.google.internal'' \<or> host_lower = ''metadata.google''
                \<or> ends_with host_lower ''.internal'' \<and> contains host_lower ''metadata'')"

text \<open>\<open>rsplit_once(':')\<close> and \<open>strip_suffix\<close>.\<close>

definition rsplit_once :: "char \<Rightarrow> string \<Rightarrow> (string \<times> string) option" where
  "rsplit_once c s =
     (if c \<in> set s
      then Some (rev (tl (dropWhile (\<lambda>x. x \<noteq> c) (rev s))), rev (takeWhile (\<lambda>x. x \<noteq> c) (rev s)))
      else None)"

definition strip_suffix :: "string \<Rightarrow> string \<Rightarrow> string option" where
  "strip_suffix s p = (if suffix p s then Some (take (length s - length p) s) else None)"

definition pattern_allows :: "string \<Rightarrow> string \<Rightarrow> bool" where
  "pattern_allows target pattern \<longleftrightarrow>
     pattern = target \<or>
     (case strip_suffix pattern '':*'' of
        None \<Rightarrow> False
      | Some host_prefix \<Rightarrow>
          (case rsplit_once (CHR '':'') target of
             None \<Rightarrow> False
           | Some (host, _) \<Rightarrow> host = host_prefix))"

definition is_tunnel_allowed :: "string \<Rightarrow> string list \<Rightarrow> bool" where
  "is_tunnel_allowed target allowed \<longleftrightarrow> allowed = [] \<or> list_ex (pattern_allows target) allowed"

text \<open>\<open>replacen("localhost", "127.0.0.1", 1)\<close> of a target that begins with it.\<close>

definition resolved_target :: "string \<Rightarrow> string" where
  "resolved_target target =
     (if starts_with target ''localhost:'' then ''127.0.0.1'' @ drop (length ''localhost'') target
      else target)"

section \<open>The relay\<close>

datatype relay_status = Running | Finished "unit result"

record relay =
  unread :: bytes             \<comment> \<open>arrived from the client, not yet read\<close>
  got :: bytes                \<comment> \<open>read by the current \<open>recv_message\<close>\<close>
  hung_up :: bool             \<comment> \<open>the client has closed its side\<close>
  to_target :: bytes          \<comment> \<open>written to the target\<close>
  target_shut :: bool
  to_client :: "bytes list"   \<comment> \<open>frames sent to the client\<close>
  status :: relay_status

text \<open>What can happen: the client sends or closes, its branch of the \<open>select!\<close> is polled, the target's
  branch wins with data, end of file or an error. The flags say whether a write succeeds.\<close>

datatype relay_event =
    Arrive bytes
  | Hangup
  | Poll_Client bool
  | Target_Data bytes bool
  | Target_Closed
  | Target_Failed

definition relay_start :: relay where
  "relay_start = \<lparr>unread = [], got = [], hung_up = False, to_target = [], target_shut = False,
     to_client = [], status = Running\<rparr>"

text \<open>One poll of \<open>recv_message\<close>: it takes what has arrived, as far as the frame needs it.\<close>

definition poll_client :: "bool \<Rightarrow> relay \<Rightarrow> relay" where
  "poll_client write_ok r =
     (case recv_message (got r @ unread r) of
        Inr (data, rest) \<Rightarrow>
          let r = r\<lparr>got := [], unread := rest\<rparr>
          in if data = [] then r\<lparr>target_shut := True, status := Finished (Inr ())\<rparr>
             else if \<not> write_ok then r\<lparr>status := Finished (Inl (Failed ''write to target''))\<rparr>
             else r\<lparr>to_target := to_target r @ data\<rparr>
      | Inl Eof \<Rightarrow>
          if hung_up r then r\<lparr>status := Finished (Inr ())\<rparr>
          else r\<lparr>got := got r @ unread r, unread := []\<rparr>
      | Inl _ \<Rightarrow> r\<lparr>status := Finished (Inr ())\<rparr>)"

fun relay_event_step :: "relay_event \<Rightarrow> relay \<Rightarrow> relay" where
  "relay_event_step (Arrive bs) r = r\<lparr>unread := unread r @ bs\<rparr>"
| "relay_event_step Hangup r = r\<lparr>hung_up := True\<rparr>"
| "relay_event_step (Poll_Client write_ok) r = poll_client write_ok r"
| "relay_event_step (Target_Data d send_ok) r =
     (let r = r\<lparr>got := []\<rparr>
      in if send_ok then r\<lparr>to_client := to_client r @ [d]\<rparr>
         else r\<lparr>status := Finished (Inl (Failed ''send to client''))\<rparr>)"
| "relay_event_step Target_Closed r =
     r\<lparr>got := [], to_client := to_client r @ [[]], status := Finished (Inr ())\<rparr>"
| "relay_event_step Target_Failed r =
     r\<lparr>got := [], to_client := to_client r @ [[]], status := Finished (Inr ())\<rparr>"

definition relay_step :: "relay_event \<Rightarrow> relay \<Rightarrow> relay" where
  "relay_step e r = (if status r = Running then relay_event_step e r else r)"

definition relay_bidirectional :: "relay_event list \<Rightarrow> relay" where
  "relay_bidirectional es = fold relay_step es relay_start"

text \<open>\<open>handle_connect\<close>: \<open>connect\<close> says whether the target accepts; the relay sees \<open>es\<close>.\<close>

definition handle_connect :: "(string \<Rightarrow> bool) \<Rightarrow> string \<Rightarrow> relay_event list \<Rightarrow> relay result" where
  "handle_connect connect target es =
     (if is_blocked_target target then Inl (Failed ''tunnel target blocked'')
      else if \<not> connect (resolved_target target) then Inl (Failed ''connect'')
      else Inr (relay_bidirectional es))"

section \<open>Which targets are let through\<close>

lemma rsplit_once_Some:
  "rsplit_once c s = Some (h, p) \<longleftrightarrow> s = h @ [c] @ p \<and> c \<notin> set p"
proof
  assume r: "rsplit_once c s = Some (h, p)"
  then have "c \<in> set (rev s)" by (auto simp: rsplit_once_def split: if_splits)
  then obtain x xs where x: "dropWhile (\<lambda>x. x \<noteq> c) (rev s) = x # xs" "x = c"
    by (metis (mono_tags, lifting) dropWhile_eq_Cons_conv dropWhile_eq_Nil_conv neq_Nil_conv)
  have "rev s = takeWhile (\<lambda>x. x \<noteq> c) (rev s) @ c # xs"
    using x takeWhile_dropWhile_id [of "\<lambda>x. x \<noteq> c" "rev s"] by simp
  then have "s = rev xs @ [c] @ rev (takeWhile (\<lambda>x. x \<noteq> c) (rev s))"
    by (metis append.assoc append_Cons append_Nil rev.simps(2) rev_append rev_rev_ident)
  with r x show "s = h @ [c] @ p \<and> c \<notin> set p"
    by (auto simp: rsplit_once_def split: if_splits dest: set_takeWhileD)
next
  assume "s = h @ [c] @ p \<and> c \<notin> set p"
  moreover from this have "takeWhile (\<lambda>x. x \<noteq> c) (rev s) = rev p" "dropWhile (\<lambda>x. x \<noteq> c) (rev s) = c # rev h"
    using takeWhile_append2 [of "rev p" "\<lambda>x. x \<noteq> c" "c # rev h"] by (auto simp: dropWhile_append)
  ultimately show "rsplit_once c s = Some (h, p)" by (simp add: rsplit_once_def)
qed

text \<open>The \<open>PermitOpen\<close> rules: with rules present, a target is let through exactly when it is one
  of them, or when it is some host, a colon and a rest without a colon, and the rule for any port of
  that host is among them.\<close>

theorem tunnel_allowed_iff:
  "is_tunnel_allowed target allowed \<longleftrightarrow>
     allowed = [] \<or> target \<in> set allowed \<or>
     (\<exists>host port. target = host @ '':'' @ port \<and> CHR '':'' \<notin> set port \<and> host @ '':*'' \<in> set allowed)"
proof -
  have "(case rsplit_once (CHR '':'') target of None \<Rightarrow> False | Some (host, _) \<Rightarrow> host = h) \<longleftrightarrow>
     (\<exists>port. target = h @ '':'' @ port \<and> CHR '':'' \<notin> set port)" for h
    using rsplit_once_Some [of "CHR '':''" target h]
    by (cases "rsplit_once (CHR '':'') target") auto
  then have "pattern_allows target pattern \<longleftrightarrow> pattern = target \<or>
     (\<exists>host port. target = host @ '':'' @ port \<and> CHR '':'' \<notin> set port \<and> pattern = host @ '':*'')" for pattern
    by (auto simp: pattern_allows_def strip_suffix_def suffix_def)
  then show ?thesis by (auto simp: is_tunnel_allowed_def list_ex_iff)
qed

lemma show_v4_chars:
  assumes "x \<in> set (show_v4 a b c d)"
  shows "46 \<le> (of_char x :: nat) \<and> (of_char x :: nat) < 58"
proof -
  have "46 \<le> (of_char y :: nat) \<and> (of_char y :: nat) < 58" if "y \<in> set (show_nat n)" for y n
    using show_nat_digits [OF that] by auto
  with assms show ?thesis unfolding show_v4_def by auto
qed

lemma show_v4_not:
  "CHR '':'' \<notin> set (show_v4 a b c d)" "CHR '']'' \<notin> set (show_v4 a b c d)" "CHR ''['' \<notin> set (show_v4 a b c d)"
  by (auto dest!: show_v4_chars)

lemma takeWhile_to: "x \<notin> set s \<Longrightarrow> takeWhile (\<lambda>c. c \<noteq> x) (s @ x # t) = s"
  by (induction s) auto

lemma target_host_v4: "target_host (show_v4 a b c d @ '':'' @ port) = show_v4 a b c d"
proof -
  have "\<not> starts_with (show_v4 a b c d @ '':'' @ port) ''[''"
    using show_v4_not(3) [of a b c d] by (cases "show_v4 a b c d") (auto simp: starts_with_def)
  then show ?thesis by (simp add: target_host_def takeWhile_to show_v4_not)
qed

lemma target_host_mapped: "target_host (''[::ffff:'' @ show_v4 a b c d @ '']:'' @ port) = ''::ffff:'' @ show_v4 a b c d"
  by (simp add: target_host_def starts_with_def takeWhile_to show_v4_not)

lemma to_ipv4_mapped_v4 [simp]:
  "to_ipv4_mapped [0, 0, 0, 0, 0, 0xFFFF, pair_u16 a b, pair_u16 c d] = Some (a, b, c, d)"
  by (simp add: to_ipv4_mapped_def)

text \<open>The metadata block by address: a target written as a dotted IPv4 address is refused
  exactly when the address is unspecified, 168.63.129.16 or of the form 169.254.169.x; written as an
  IPv4-mapped IPv6 address it is refused for 169.254.169.254 only, whatever the port.\<close>

theorem blocked_address:
  "is_blocked_target (show_v4 a b c d @ '':'' @ port) =
     ((a, b, c, d) = (0, 0, 0, 0) \<or> (a, b, c, d) = (168, 63, 129, 16) \<or> (a, b, c) = (169, 254, 169)) \<and>
   is_blocked_target (''[::ffff:'' @ show_v4 a b c d @ '']:'' @ port) = ((a, b, c, d) = (169, 254, 169, 254))"
proof
  show "is_blocked_target (show_v4 a b c d @ '':'' @ port) =
     ((a, b, c, d) = (0, 0, 0, 0) \<or> (a, b, c, d) = (168, 63, 129, 16) \<or> (a, b, c) = (169, 254, 169))"
    unfolding is_blocked_target_def Let_def target_host_v4 by (auto simp: blocked_v4_def)
  have zeros: "replicate 8 (0 :: u16) = [0, 0, 0, 0, 0, 0, 0, 0]" by (simp add: numeral_eq_Suc)
  show "is_blocked_target (''[::ffff:'' @ show_v4 a b c d @ '']:'' @ port) = ((a, b, c, d) = (169, 254, 169, 254))"
    unfolding is_blocked_target_def Let_def target_host_mapped parse_mapped_v4
    by (simp add: blocked_v6_def zeros)
qed

section \<open>What the relay delivers\<close>

definition target_data :: "relay_event \<Rightarrow> bytes list" where
  "target_data e = (case e of Target_Data d True \<Rightarrow> [d] | _ \<Rightarrow> [])"

lemma relay_snoc: "relay_bidirectional (es @ [e]) = relay_step e (relay_bidirectional es)"
  by (simp add: relay_bidirectional_def)

lemma poll_client_keeps: "to_client (poll_client w r) = to_client r"
  by (auto simp: poll_client_def Let_def split: sum.splits err.splits)

lemma relay_still_running:
  "status (relay_step e r) = Running \<Longrightarrow> status r = Running"
  by (auto simp: relay_step_def split: if_splits)

lemma relay_to_client:
  "status (relay_bidirectional es) = Running \<Longrightarrow>
    to_client (relay_bidirectional es) = concat (map target_data es)"
proof (induction es rule: rev_induct)
  case (snoc e es)
  then have r: "status (relay_bidirectional es) = Running"
    by (auto simp: relay_snoc dest: relay_still_running)
  with snoc show ?case
    by (cases e) (auto simp: relay_snoc relay_step_def poll_client_keeps target_data_def Let_def split: if_splits)
qed (simp add: relay_bidirectional_def relay_start_def)

text \<open>A schedule is undisturbed when the target's branch never wins while a frame is half read.\<close>

definition calm :: "relay_event \<Rightarrow> relay \<Rightarrow> bool" where
  "calm e r \<longleftrightarrow> (case e of Arrive _ \<Rightarrow> True | Hangup \<Rightarrow> True | Poll_Client w \<Rightarrow> w | _ \<Rightarrow> got r = [])"

fun undisturbed :: "relay_event list \<Rightarrow> relay \<Rightarrow> bool" where
  "undisturbed [] r = True"
| "undisturbed (e # es) r = (calm e r \<and> undisturbed es (relay_step e r))"

definition arrived :: "relay_event \<Rightarrow> bytes" where
  "arrived e = (case e of Arrive bs \<Rightarrow> bs | _ \<Rightarrow> [])"

definition frame_ok :: "bytes \<Rightarrow> bool" where
  "frame_ok f \<longleftrightarrow> f \<noteq> [] \<and> wire_sendable f"

lemma recv_message_Nil: "recv_message [] = Inl Eof"
  by (simp add: recv_message_def read_exact_def)

lemma poll_frames:
  assumes "got r @ unread r @ future = concat (map send_message gs)" "list_all frame_ok gs"
    "status r = Running" "status (poll_client True r) = Running"
  shows "\<exists>k\<le>length gs. to_target (poll_client True r) = to_target r @ concat (take k gs) \<and>
    got (poll_client True r) @ unread (poll_client True r) @ future = concat (map send_message (drop k gs)) \<and>
    (future = [] \<longrightarrow> gs \<noteq> [] \<longrightarrow> k = 1)"
proof (cases gs)
  case Nil
  with assms show ?thesis by (auto simp: poll_client_def recv_message_Nil split: if_splits)
next
  case (Cons g gs')
  let ?s = "got r @ unread r"
  have whole: "recv_message (?s @ future) = Inr (g, concat (map send_message gs'))"
    using assms(1,2) Cons recv_send_message [of g] by (simp add: frame_ok_def)
  show ?thesis
  proof (cases "recv_message ?s")
    case (Inr p)
    obtain d rest where p: "p = (d, rest)" by (cases p)
    with Inr recv_message_mono [of ?s d rest future] whole
    have "d = g" "rest @ future = concat (map send_message gs')" by auto
    with assms(2) Cons Inr p show ?thesis
      by (intro exI [of _ 1]) (auto simp: poll_client_def Let_def frame_ok_def)
  next
    case (Inl e)
    then have "e = Eof" "future \<noteq> []"
      using recv_message_Inl_mono [of ?s e future] whole by auto
    with Inl assms show ?thesis by (auto simp: poll_client_def intro!: exI [of _ 0] split: if_splits)
  qed
qed

lemma relay_run_Running: "status (fold relay_step es r) = Running \<Longrightarrow> status r = Running"
  by (induction es arbitrary: r) (auto dest: relay_still_running)

lemma calm_other:
  assumes "calm e r" "\<forall>w. e \<noteq> Poll_Client w" "status (relay_step e r) = Running" "status r = Running"
  shows "got (relay_step e r) @ unread (relay_step e r) @ x = got r @ unread r @ arrived e @ x \<and>
    to_target (relay_step e r) = to_target r"
  using assms by (cases e) (auto simp: relay_step_def calm_def arrived_def Let_def split: if_splits)

lemma relay_frames:
  "undisturbed es r \<Longrightarrow> status (fold relay_step es r) = Running \<Longrightarrow> list_all frame_ok gs \<Longrightarrow>
    got r @ unread r @ concat (map arrived es) = concat (map send_message gs) \<Longrightarrow>
    \<exists>k\<le>length gs. to_target (fold relay_step es r) = to_target r @ concat (take k gs) \<and>
      got (fold relay_step es r) @ unread (fold relay_step es r) = concat (map send_message (drop k gs))"
proof (induction es arbitrary: r gs)
  case Nil
  then show ?case by (intro exI [of _ 0]) simp
next
  case (Cons e es)
  let ?r = "relay_step e r" and ?later = "concat (map arrived es)"
  from Cons.prems have run: "status ?r = Running" "status r = Running"
    by (auto dest: relay_run_Running relay_still_running)
  have "\<exists>k\<le>length gs. to_target ?r = to_target r @ concat (take k gs) \<and>
      got ?r @ unread ?r @ ?later = concat (map send_message (drop k gs))"
  proof (cases "\<exists>w. e = Poll_Client w")
    case True
    with Cons.prems(1) have e: "e = Poll_Client True" by (auto simp: calm_def)
    with run have "?r = poll_client True r" by (simp add: relay_step_def)
    moreover have "arrived (Poll_Client True) = []" by (simp add: arrived_def)
    ultimately show ?thesis
      using poll_frames [of r ?later gs] Cons.prems(3,4) run e by auto
  next
    case False
    then have c: "got ?r @ unread ?r @ ?later = got r @ unread r @ arrived e @ ?later" "to_target ?r = to_target r"
      using calm_other [of e r ?later] Cons.prems(1) run by auto
    from c(1) Cons.prems(4) have "got ?r @ unread ?r @ ?later = concat (map send_message gs)"
      by (simp only: list.map concat.simps)
    with c(2) show ?thesis by (intro exI [of _ 0]) simp
  qed
  then obtain k where k: "k \<le> length gs" "to_target ?r = to_target r @ concat (take k gs)"
    "got ?r @ unread ?r @ ?later = concat (map send_message (drop k gs))" by blast
  have "list_all frame_ok (drop k gs)" using Cons.prems(3) by (simp add: list_all_length)
  from Cons.IH [OF _ _ this k(3)] Cons.prems obtain j where
    "j \<le> length (drop k gs)" "to_target (fold relay_step es ?r) = to_target ?r @ concat (take j (drop k gs))"
    "got (fold relay_step es ?r) @ unread (fold relay_step es ?r) = concat (map send_message (drop j (drop k gs)))"
    by auto
  with k(1,2) show ?case
    by (intro exI [of _ "k + j"]) (simp add: take_add add.commute [of j])
qed

lemma relay_poll_progress:
  assumes "got r @ unread r = concat (map send_message (g # gs))" "list_all frame_ok (g # gs)" "status r = Running"
  shows "to_target (relay_step (Poll_Client True) r) = to_target r @ g"
proof -
  have "recv_message (got r @ unread r) = Inr (g, concat (map send_message gs))"
    using assms recv_send_message [of g] by (simp add: frame_ok_def)
  with assms show ?thesis by (simp add: relay_step_def poll_client_def Let_def frame_ok_def)
qed

text \<open>C38. While the target's branch never wins over a half-read frame, the tunnel delivers what the
  client sends: after any such schedule the target has received exactly some number of the client's
  frames, in order, and the next poll delivers the next frame if one is missing.\<close>

theorem relay_client_to_target:
  assumes "undisturbed es relay_start" "status (relay_bidirectional es) = Running"
    "concat (map arrived es) = concat (map send_message fs)" "list_all frame_ok fs"
  shows "\<exists>k\<le>length fs. to_target (relay_bidirectional es) = concat (take k fs) \<and>
    (k < length fs \<longrightarrow> to_target (relay_bidirectional (es @ [Poll_Client True])) = concat (take (Suc k) fs))"
proof -
  from relay_frames [of es relay_start fs] assms obtain k where
    k: "k \<le> length fs" "to_target (relay_bidirectional es) = concat (take k fs)"
    "got (relay_bidirectional es) @ unread (relay_bidirectional es) = concat (map send_message (drop k fs))"
    by (auto simp: relay_bidirectional_def relay_start_def)
  have "to_target (relay_bidirectional (es @ [Poll_Client True])) = concat (take (Suc k) fs)" if "k < length fs"
  proof -
    have "drop k fs = fs ! k # drop (Suc k) fs" using that by (simp add: Cons_nth_drop_Suc)
    moreover have "list_all frame_ok (drop k fs)" using assms(4) by (simp add: list_all_length)
    ultimately show ?thesis
      using relay_poll_progress [of "relay_bidirectional es" "fs ! k" "drop (Suc k) fs"] k assms(2) that
      by (simp add: relay_snoc take_Suc_conv_app_nth)
  qed
  with k show ?thesis by blast
qed

theorem relay_client_to_target_witness:
  "\<exists>k\<le>1. to_target (relay_bidirectional [Arrive [0, 0, 0, 1, 7], Target_Data [9] True]) = concat (take k [[7]]) \<and>
    (k < 1 \<longrightarrow> to_target (relay_bidirectional
       ([Arrive [0, 0, 0, 1, 7], Target_Data [9] True] @ [Poll_Client True])) = concat (take (Suc k) [[7]]))"
proof -
  let ?es = "[Arrive [0, 0, 0, 1, 7], Target_Data [9] True]"
  have "undisturbed ?es relay_start" "status (relay_bidirectional ?es) = Running"
    by (simp_all add: calm_def relay_bidirectional_def relay_step_def relay_start_def)
  moreover have "concat (map arrived ?es) = concat (map send_message [[7]])"
    unfolding arrived_def by code_simp
  moreover have "list_all frame_ok [[7]]" by (simp add: frame_ok_def wire_sendable_def)
  ultimately show ?thesis using relay_client_to_target [of ?es "[[7]]"] by simp
qed

text \<open>A half-read frame is lost when the target speaks first: of the client's single frame
  0,0,0,1,7 only the length had been read when the target's data arrived; that length is forgotten,
  the payload is taken for a frame of its own, and the target receives the byte 7. In the other
  direction nothing is lost: while the relay runs, the client gets the target's data in order.\<close>

theorem relay_drops_half_frame:
  "(let es = [Arrive [0, 0, 0, 5], Poll_Client True, Target_Data [9] True,
              Arrive [0, 0, 0, 1, 7], Poll_Client True]
    in concat (map arrived es) = send_message [0, 0, 0, 1, 7]
       \<and> to_target (relay_bidirectional es) = [7] \<and> status (relay_bidirectional es) = Running)
   \<and> (status (relay_bidirectional es') = Running \<longrightarrow>
        to_client (relay_bidirectional es') = concat (map target_data es'))"
proof -
  have "(let es = [Arrive [0, 0, 0, 5], Poll_Client True, Target_Data [9] True,
              Arrive [0, 0, 0, 1, 7], Poll_Client True]
    in concat (map arrived es) = send_message [0, 0, 0, 1, 7]
       \<and> to_target (relay_bidirectional es) = [7] \<and> status (relay_bidirectional es) = Running)"
    by code_simp
  then show ?thesis using relay_to_client [of es'] by blast
qed

theorem relay_drops_half_frame_witness:
  "to_client (relay_bidirectional [Target_Data [9] True]) = [[9]]"
proof -
  have "status (relay_bidirectional [Target_Data [9] True]) = Running" by code_simp
  moreover have "concat (map target_data [Target_Data [9] True]) = [[9]]" by code_simp
  ultimately show ?thesis using relay_drops_half_frame [of "[Target_Data [9] True]"] by simp
qed

end
