(* ===== verification/Rate_Limit.thy ===== *)
theory Rate_Limit
  imports Prelude "HOL-Library.Sublist"
begin

text \<open>
  The limiter of failed authentications, \<open>mrsh-server/src/ratelimit.rs\<close>. An instant is a number of
  nanoseconds; each operation takes the value of \<open>Instant::now()\<close> it reads under the lock. The
  address type is a parameter. The second half runs the operations over a history of events and
  shows that an address is judged by its own failures alone.
\<close>

section \<open>The limiter\<close>

definition MAX_FAILURES :: nat where "MAX_FAILURES = 5"
definition WINDOW :: nat where "WINDOW = from_secs 60"
definition BAN_DURATION :: nat where "BAN_DURATION = from_secs 300"

record ip_record =
  failures :: "nat list"
  banned_until :: "nat option"

type_synonym 'ip limiter = "'ip \<rightharpoonup> ip_record"

definition limiter_new :: "'ip limiter" where
  "limiter_new = Map.empty"

definition is_banned :: "nat \<Rightarrow> 'ip \<Rightarrow> 'ip limiter \<Rightarrow> bool" where
  "is_banned now ip records =
     (case records ip of
        None \<Rightarrow> False
      | Some record \<Rightarrow> (case banned_until record of None \<Rightarrow> False | Some until \<Rightarrow> now < until))"

text \<open>\<open>now.duration_since(t) < WINDOW\<close>; the difference saturates at zero, as in the source.\<close>

definition recent :: "nat \<Rightarrow> nat \<Rightarrow> bool" where
  "recent now t \<longleftrightarrow> now - t < WINDOW"

definition count_failure :: "nat \<Rightarrow> ip_record \<Rightarrow> bool \<times> ip_record" where
  "count_failure now record =
     (let record = record\<lparr>failures := filter (recent now) (failures record) @ [now]\<rparr>
      in if MAX_FAILURES \<le> length (failures record)
         then (True, record\<lparr>banned_until := Some (now + BAN_DURATION)\<rparr>)
         else (False, record))"

definition record_failure :: "nat \<Rightarrow> 'ip \<Rightarrow> 'ip limiter \<Rightarrow> bool \<times> 'ip limiter" where
  "record_failure now ip records =
     (let record = (case records ip of
                      Some r \<Rightarrow> r | None \<Rightarrow> \<lparr>failures = [], banned_until = None\<rparr>);
          (res, record') =
            (case banned_until record of
               Some until \<Rightarrow>
                 if now < until then (True, record)
                 else count_failure now (record\<lparr>banned_until := None, failures := []\<rparr>)
             | None \<Rightarrow> count_failure now record)
      in (res, records(ip \<mapsto> record')))"

definition record_success :: "'ip \<Rightarrow> 'ip limiter \<Rightarrow> 'ip limiter" where
  "record_success ip records = records(ip := None)"

definition cleanup_record :: "nat \<Rightarrow> ip_record \<Rightarrow> ip_record option" where
  "cleanup_record now record =
     (if (case banned_until record of None \<Rightarrow> False | Some until \<Rightarrow> now < until) then Some record
      else
        let record' = record\<lparr>failures := filter (recent now) (failures record)\<rparr>
        in if failures record' = [] then None else Some record')"

definition limiter_cleanup :: "nat \<Rightarrow> 'ip limiter \<Rightarrow> 'ip limiter" where
  "limiter_cleanup now records =
     (\<lambda>ip. case records ip of None \<Rightarrow> None | Some record \<Rightarrow> cleanup_record now record)"

section \<open>Histories\<close>

datatype 'ip auth_event = Auth_Failed 'ip | Auth_Ok 'ip | Sweep

fun limiter_step :: "nat \<times> 'ip auth_event \<Rightarrow> 'ip limiter \<Rightarrow> 'ip limiter" where
  "limiter_step (now, Auth_Failed ip) m = snd (record_failure now ip m)"
| "limiter_step (now, Auth_Ok ip) m = record_success ip m"
| "limiter_step (now, Sweep) m = limiter_cleanup now m"

type_synonym 'ip history = "(nat \<times> 'ip auth_event) list"

definition limiter_run :: "'ip history \<Rightarrow> 'ip limiter" where
  "limiter_run tr = fold limiter_step tr limiter_new"

text \<open>The events of one address.\<close>

definition concerns :: "'ip \<Rightarrow> nat \<times> 'ip auth_event \<Rightarrow> bool" where
  "concerns ip e \<longleftrightarrow> snd e = Auth_Failed ip \<or> snd e = Auth_Ok ip"

lemma limiter_run_snoc [simp]: "limiter_run (tr @ [e]) = limiter_step e (limiter_run tr)"
  by (simp add: limiter_run_def)

section \<open>What a record still says\<close>

text \<open>The part of a record that later operations can see: a ban in force, or the failures of the
  last minute when there never was a ban.\<close>

definition live :: "nat \<Rightarrow> ip_record option \<Rightarrow> nat list \<times> nat option" where
  "live now r =
     (case r of
        None \<Rightarrow> ([], None)
      | Some rc \<Rightarrow>
          (case banned_until rc of
             Some until \<Rightarrow> if now < until then (failures rc, Some until) else ([], None)
           | None \<Rightarrow> (filter (recent now) (failures rc), None)))"

lemma recent_antimono: "recent b t \<Longrightarrow> a \<le> b \<Longrightarrow> recent a t"
  by (simp add: recent_def)

lemma live_later:
  assumes "a \<le> b" "live a r = live a r'"
  shows "live b r = live b r'"
proof -
  have pass: "live b r = (case live a r of
       (fs, Some u) \<Rightarrow> if b < u then (fs, Some u) else ([], None)
     | (fs, None) \<Rightarrow> (filter (recent b) fs, None))" for r
    using recent_antimono [OF _ assms(1)] assms(1)
    by (auto simp: live_def intro!: filter_cong split: option.splits)
  show ?thesis by (simp add: pass assms(2))
qed

lemma is_banned_live: "is_banned now ip m = (snd (live now (m ip)) \<noteq> None)"
  by (auto simp: is_banned_def live_def split: option.splits)

lemma record_failure_live:
  assumes "live now (m ip) = live now (m' ip)"
  shows "fst (record_failure now ip m) = fst (record_failure now ip m')"
    "snd (record_failure now ip m) ip = snd (record_failure now ip m') ip"
  using assms
  by (auto simp: record_failure_def count_failure_def live_def Let_def split: option.splits if_splits)

lemma live_cleanup: "live now (limiter_cleanup now m ip) = live now (m ip)"
  by (auto simp: limiter_cleanup_def cleanup_record_def live_def Let_def filter_empty_conv
      split: option.splits)

lemma record_failure_other: "ip \<noteq> ip' \<Longrightarrow> snd (record_failure now ip' m) ip = m ip"
  by (simp add: record_failure_def Let_def split_beta)

lemma step_unconcerned:
  "\<not> concerns ip (t, ev) \<Longrightarrow> live t (limiter_step (t, ev) m ip) = live t (m ip)"
  by (cases ev) (auto simp: concerns_def record_failure_other record_success_def live_cleanup)

lemma step_concerned:
  assumes "concerns ip (t, ev)" "live t (m ip) = live t (m' ip)"
  shows "limiter_step (t, ev) m ip = limiter_step (t, ev) m' ip"
  using assms record_failure_live(2) [of t m ip m']
  by (auto simp: concerns_def record_success_def)

lemma run_live:
  "sorted (map fst tr) \<Longrightarrow> list_all (\<lambda>e. fst e \<le> now) tr \<Longrightarrow>
    live now (limiter_run tr ip) = live now (limiter_run (filter (concerns ip) tr) ip)"
proof (induction tr arbitrary: now rule: rev_induct)
  case (snoc e tr)
  obtain t ev where e: "e = (t, ev)" by (cases e)
  let ?m = "limiter_run tr" and ?m' = "limiter_run (filter (concerns ip) tr)"
  from snoc.prems e have "t \<le> now" and "sorted (map fst tr)" "list_all (\<lambda>e. fst e \<le> t) tr"
    by (auto simp: sorted_append list_all_iff)
  with snoc.IH have IH: "live t (?m ip) = live t (?m' ip)" by blast
  show ?case
  proof (cases "concerns ip e")
    case True
    with e step_concerned [of ip t ev ?m ?m'] IH show ?thesis by simp
  next
    case False
    with e step_unconcerned [of ip t ev ?m] IH have "live t (limiter_step e ?m ip) = live t (?m' ip)"
      by simp
    with False live_later [OF \<open>t \<le> now\<close> this] show ?thesis by simp
  qed
qed simp

text \<open>An address is judged by its own history: at any time, whether it is banned, and whether a
  further failure bans it, are the same as if no other address had ever failed or succeeded and no
  periodic cleanup had ever run.\<close>

theorem limiter_own_history:
  assumes "sorted (map fst tr)" "list_all (\<lambda>e. fst e \<le> now) tr"
  shows "is_banned now ip (limiter_run tr) = is_banned now ip (limiter_run (filter (concerns ip) tr))
    \<and> fst (record_failure now ip (limiter_run tr))
        = fst (record_failure now ip (limiter_run (filter (concerns ip) tr)))"
  using run_live [OF assms, of ip]
    record_failure_live(1) [of now "limiter_run tr" ip "limiter_run (filter (concerns ip) tr)"]
  by (simp add: is_banned_live)

theorem limiter_own_history_witness:
  "is_banned 9 CHR ''a'' (limiter_run [(0, Auth_Failed (CHR ''a'')), (3, Sweep), (5, Auth_Failed (CHR ''b''))])
     = is_banned 9 (CHR ''a'') (limiter_run [(0, Auth_Failed (CHR ''a''))])"
  using limiter_own_history [of "[(0, Auth_Failed (CHR ''a'')), (3, Sweep), (5, Auth_Failed (CHR ''b''))]" 9 "CHR ''a''"]
  by (simp add: concerns_def)

section \<open>Bans are deserved\<close>

text \<open>The times of the failures of an address since it last succeeded.\<close>

fun note_event :: "'ip \<Rightarrow> nat \<times> 'ip auth_event \<Rightarrow> nat list \<Rightarrow> nat list" where
  "note_event ip (t, Auth_Failed ip') fs = (if ip' = ip then fs @ [t] else fs)"
| "note_event ip (t, Auth_Ok ip') fs = (if ip' = ip then [] else fs)"
| "note_event ip (t, Sweep) fs = fs"

definition failures_since_ok :: "'ip \<Rightarrow> 'ip history \<Rightarrow> nat list" where
  "failures_since_ok ip tr = fold (note_event ip) tr []"

text \<open>\<open>burst fs t\<close>: enough failures to ban, all in the minute before \<open>t\<close>.\<close>

definition burst :: "nat list \<Rightarrow> nat \<Rightarrow> bool" where
  "burst fs t \<longleftrightarrow> MAX_FAILURES \<le> length fs \<and> list_all (\<lambda>s. s \<le> t \<and> t - s < WINDOW) fs"

definition record_deserved :: "nat list \<Rightarrow> ip_record \<Rightarrow> bool" where
  "record_deserved hist r \<longleftrightarrow> subseq (failures r) hist \<and>
     (\<forall>u. banned_until r = Some u \<longrightarrow>
        (\<exists>fs t. u = t + BAN_DURATION \<and> t \<in> set hist \<and> subseq fs hist \<and> burst fs t))"

lemma failures_since_ok_snoc [simp]:
  "failures_since_ok ip (tr @ [e]) = note_event ip e (failures_since_ok ip tr)"
  by (simp add: failures_since_ok_def)

lemma failures_since_ok_le:
  "list_all (\<lambda>e. fst e \<le> now) tr \<Longrightarrow> list_all (\<lambda>t. t \<le> now) (failures_since_ok ip tr)"
proof (induction tr rule: rev_induct)
  case (snoc e tr)
  then show ?case by (cases e; cases "snd e") auto
qed (simp add: failures_since_ok_def)

lemma record_deserved_mono: "record_deserved hist r \<Longrightarrow> record_deserved (hist @ [t]) r"
  unfolding record_deserved_def by (metis Un_iff set_append subseq_rev_drop_many)

lemma record_deserved_prune:
  assumes "record_deserved hist r"
  shows "record_deserved hist (r\<lparr>failures := filter P (failures r)\<rparr>)"
proof -
  from assms have "subseq (failures r) hist" by (simp add: record_deserved_def)
  then have "subseq (filter P (failures r)) hist" by (rule subseq_order.trans [OF subseq_filter_left])
  with assms show ?thesis by (simp add: record_deserved_def)
qed

lemma record_deserved_count:
  assumes "record_deserved hist r" "list_all (\<lambda>s. s \<le> t) hist" "banned_until r = None"
  shows "record_deserved (hist @ [t]) (snd (count_failure t r))"
proof -
  let ?fs = "filter (recent t) (failures r) @ [t]"
  have sub: "subseq (filter (recent t) (failures r)) hist"
    using record_deserved_prune [OF assms(1)] by (simp add: record_deserved_def)
  then have sub': "subseq ?fs (hist @ [t])" by simp
  have "set (filter (recent t) (failures r)) \<subseteq> set hist"
    using sub by (auto dest: list_emb_set)
  then have "burst ?fs t" if "MAX_FAILURES \<le> length ?fs"
    using that assms(2) by (auto simp: burst_def list_all_iff recent_def WINDOW_def from_secs_def)
  then show ?thesis
    using sub sub' assms(3)
    by (auto simp: count_failure_def Let_def record_deserved_def intro!: exI [of _ ?fs])
qed

lemma record_deserved_fresh: "record_deserved hist \<lparr>failures = [], banned_until = None\<rparr>"
  by (simp add: record_deserved_def)

lemma record_failure_deserved:
  assumes "\<forall>r. m ip = Some r \<longrightarrow> record_deserved hist r" "list_all (\<lambda>s. s \<le> t) hist"
    "snd (record_failure t ip m) ip = Some r"
  shows "record_deserved (hist @ [t]) r"
proof -
  define r0 where "r0 = (case m ip of Some r \<Rightarrow> r | None \<Rightarrow> \<lparr>failures = [], banned_until = None\<rparr>)"
  have r0: "record_deserved hist r0"
    using assms(1) by (auto simp: r0_def record_deserved_fresh split: option.split)
  have clear: "record_deserved hist (r0\<lparr>banned_until := None, failures := []\<rparr>)"
    by (simp add: record_deserved_def)
  from assms(3) have "r = r0
    \<or> banned_until r0 = None \<and> r = snd (count_failure t r0)
    \<or> r = snd (count_failure t (r0\<lparr>banned_until := None, failures := []\<rparr>))"
    by (auto simp: record_failure_def Let_def split_beta split: option.splits if_splits simp flip: r0_def)
  with r0 clear assms(2) show ?thesis
    by (auto intro: record_deserved_mono record_deserved_count)
qed

lemma run_deserved:
  "sorted (map fst tr) \<Longrightarrow> limiter_run tr ip = Some r \<Longrightarrow> record_deserved (failures_since_ok ip tr) r"
proof (induction tr arbitrary: r rule: rev_induct)
  case (snoc e tr)
  obtain t ev where e: "e = (t, ev)" by (cases e)
  from snoc.prems e have tr: "sorted (map fst tr)" "list_all (\<lambda>e. fst e \<le> t) tr"
    by (auto simp: sorted_append list_all_iff)
  note IH = snoc.IH [OF tr(1)]
  show ?case
  proof (cases ev)
    case (Auth_Failed ip')
    show ?thesis
    proof (cases "ip' = ip")
      case True
      have "record_deserved (failures_since_ok ip tr @ [t]) r"
        by (rule record_failure_deserved [OF _ failures_since_ok_le [OF tr(2)]])
          (use IH snoc.prems e Auth_Failed True in auto)
      with Auth_Failed True e show ?thesis by simp
    qed (use IH snoc.prems e Auth_Failed in \<open>simp add: record_failure_other\<close>)
  next
    case (Auth_Ok ip')
    with IH snoc.prems e show ?thesis by (auto simp: record_success_def split: if_splits)
  next
    case Sweep
    with snoc.prems e obtain r0 where r0: "limiter_run tr ip = Some r0" "cleanup_record t r0 = Some r"
      by (auto simp: limiter_cleanup_def split: option.splits)
    then have "r = r0 \<or> r = r0\<lparr>failures := filter (recent t) (failures r0)\<rparr>"
      by (auto simp: cleanup_record_def Let_def split: if_splits option.splits)
    with IH [OF r0(1)] Sweep e show ?thesis by (auto intro: record_deserved_prune)
  qed
qed (simp add: limiter_run_def limiter_new_def)

text \<open>C24. No address is banned without cause: a ban in force was set less than five minutes ago, at
  the time of one of the address's failures, when at least five failures of that address, all after
  its last successful login, lay within the minute before.\<close>

theorem ban_deserved:
  assumes "sorted (map fst tr)" "is_banned now ip (limiter_run tr)"
  shows "\<exists>fs t. t \<in> set (failures_since_ok ip tr) \<and> now < t + BAN_DURATION \<and>
    subseq fs (failures_since_ok ip tr) \<and> burst fs t"
proof -
  from assms(2) obtain r u where r: "limiter_run tr ip = Some r" "banned_until r = Some u" "now < u"
    by (auto simp: is_banned_def split: option.splits)
  with run_deserved [OF assms(1) r(1)] show ?thesis by (auto simp: record_deserved_def)
qed

theorem ban_deserved_witness:
  "\<exists>fs t. t \<in> set (failures_since_ok ''ip'' [(0, Auth_Failed ''ip''), (1, Auth_Failed ''ip''),
       (2, Auth_Failed ''ip''), (3, Auth_Failed ''ip''), (4, Auth_Failed ''ip'')])
     \<and> 9 < t + BAN_DURATION \<and> burst fs t"
proof -
  let ?tr = "[(0, Auth_Failed ''ip''), (1, Auth_Failed ''ip''),
       (2, Auth_Failed ''ip''), (3, Auth_Failed ''ip''), (4, Auth_Failed ''ip'')]"
  have "is_banned 9 ''ip'' (limiter_run ?tr)"
    by (simp add: is_banned_def limiter_run_def limiter_new_def record_failure_def count_failure_def
        recent_def WINDOW_def BAN_DURATION_def MAX_FAILURES_def from_secs_def)
  from ban_deserved [OF _ this] show ?thesis by auto
qed

section \<open>Bursts are banned\<close>

text \<open>The state of one address after the failures \<open>ts\<close> of a minute that began at \<open>t0\<close> unbanned.\<close>

definition burst_state :: "nat \<Rightarrow> nat list \<Rightarrow> ip_record option \<Rightarrow> bool" where
  "burst_state t0 ts r \<longleftrightarrow>
     (case r of
        None \<Rightarrow> ts = []
      | Some rc \<Rightarrow>
          (case banned_until rc of
             None \<Rightarrow> subseq ts (failures rc) \<and> (ts = [] \<or> length (failures rc) < MAX_FAILURES)
           | Some u \<Rightarrow> if t0 < u then t0 + BAN_DURATION \<le> u else ts = []))"

lemma burst_state_step:
  assumes "burst_state t0 ts (m ip)" "list_all (\<lambda>t. t0 \<le> t \<and> t < t0 + WINDOW) (ts @ [t])"
  shows "burst_state t0 (ts @ [t]) (snd (record_failure t ip m) ip)"
proof -
  have keep: "filter (recent t) ts = ts"
    using assms(2) by (auto simp: filter_id_conv list_all_iff recent_def)
  have sub: "subseq ts (filter (recent t) fs)" if "subseq ts fs" for fs
    using subseq_filter [OF that, of "recent t"] by (simp add: keep)
  show ?thesis
    using assms sub
    by (auto simp: burst_state_def record_failure_def count_failure_def Let_def WINDOW_def
        BAN_DURATION_def from_secs_def split: option.splits if_splits)
qed

lemma burst_states:
  "burst_state t0 [] (m ip) \<Longrightarrow> list_all (\<lambda>t. t0 \<le> t \<and> t < t0 + WINDOW) ts \<Longrightarrow>
    burst_state t0 ts (fold limiter_step (map (\<lambda>t. (t, Auth_Failed ip)) ts) m ip)"
proof (induction ts rule: rev_induct)
  case (snoc t ts)
  then show ?case using burst_state_step [of t0 ts _ ip t] by simp
qed simp

lemma own_failures:
  "Auth_Ok ip \<notin> snd ` set tr \<Longrightarrow>
    filter (concerns ip) tr
      = map (\<lambda>t. (t, Auth_Failed ip)) (map fst (filter (\<lambda>e. snd e = Auth_Failed ip) tr))"
  by (induction tr) (auto simp: concerns_def)

lemma burst_state_start: "\<not> is_banned t0 ip m \<Longrightarrow> burst_state t0 [] (m ip)"
  by (auto simp: is_banned_def burst_state_def split: option.splits)

lemma burst_state_full:
  "burst_state t0 ts (m ip) \<Longrightarrow> MAX_FAILURES \<le> length ts \<Longrightarrow> now < t0 + BAN_DURATION \<Longrightarrow> is_banned now ip m"
  by (auto simp: burst_state_def is_banned_def MAX_FAILURES_def dest: list_emb_length
      split: option.splits if_splits)

text \<open>Guessing is stopped: when an address that is not banned at \<open>t0\<close> fails at least five times
  within the minute after \<open>t0\<close> and never succeeds, then it is banned from its last event until five
  minutes after \<open>t0\<close> at least, whatever other addresses do and however often cleanup runs.\<close>

theorem burst_banned:
  assumes "sorted (map fst (pre @ tr))" "list_all (\<lambda>e. fst e \<le> t0) pre"
    "\<not> is_banned t0 ip (limiter_run pre)"
    "list_all (\<lambda>e. t0 \<le> fst e \<and> fst e < t0 + WINDOW) tr"
    "Auth_Ok ip \<notin> snd ` set tr"
    "MAX_FAILURES \<le> length (filter (\<lambda>e. snd e = Auth_Failed ip) tr)"
    "list_all (\<lambda>e. fst e \<le> now) tr" "t0 \<le> now" "now < t0 + BAN_DURATION"
  shows "is_banned now ip (limiter_run (pre @ tr))"
proof -
  let ?ts = "map fst (filter (\<lambda>e. snd e = Auth_Failed ip) tr)"
  let ?pre = "filter (concerns ip) pre"
  have "\<not> is_banned t0 ip (limiter_run ?pre)"
    using run_live [of pre t0 ip] assms by (simp add: is_banned_live sorted_append)
  then have "burst_state t0 ?ts (fold limiter_step (map (\<lambda>t. (t, Auth_Failed ip)) ?ts) (limiter_run ?pre) ip)"
    by (intro burst_states burst_state_start) (use assms(4) in \<open>auto simp: list_all_iff\<close>)
  then have "is_banned now ip (fold limiter_step (map (\<lambda>t. (t, Auth_Failed ip)) ?ts) (limiter_run ?pre))"
    by (rule burst_state_full) (use assms in auto)
  then have "is_banned now ip (limiter_run (filter (concerns ip) (pre @ tr)))"
    by (simp add: own_failures [OF assms(5)] limiter_run_def)
  moreover have "list_all (\<lambda>e. fst e \<le> now) (pre @ tr)"
    using assms(2,7,8) by (auto simp: list_all_iff)
  ultimately show ?thesis using run_live [OF assms(1), of now ip] by (simp add: is_banned_live)
qed

theorem burst_banned_witness:
  "is_banned 9 ''ip'' (limiter_run ([(0, Auth_Failed ''x'')] @ [(1, Auth_Failed ''ip''), (1, Auth_Failed ''ip''),
     (2, Sweep), (2, Auth_Failed ''ip''), (3, Auth_Failed ''ip''), (4, Auth_Failed ''ip'')]))"
proof (rule burst_banned [of _ _ 1])
  show "\<not> is_banned 1 ''ip'' (limiter_run [(0, Auth_Failed ''x'')])"
    by (simp add: is_banned_def limiter_run_def limiter_new_def record_failure_def count_failure_def
        split_beta Let_def)
qed (auto simp: WINDOW_def BAN_DURATION_def from_secs_def MAX_FAILURES_def)

end
