(* ===== verification/Byte_Stream.thy ===== *)
theory Byte_Stream
  imports Wire
begin

text \<open>
  Asynchronous code over one byte stream: the input not yet read and the output written. An operation
  is a function on a state with a result; \<open>then_do\<close> sequences two of them and stops at the first
  error, as \<open>?\<close> does. The server's connection, the sync handlers and the client extend the state.
\<close>

record stream =
  inp :: bytes
  outp :: bytes

type_synonym ('s, 'a) act = "'s \<Rightarrow> 'a result \<times> 's"

definition give :: "'a \<Rightarrow> ('s, 'a) act" where
  "give x c = (Inr x, c)"

definition bail :: "err \<Rightarrow> ('s, 'a) act" where
  "bail e c = (Inl e, c)"

definition then_do :: "('s, 'a) act \<Rightarrow> ('a \<Rightarrow> ('s, 'b) act) \<Rightarrow> ('s, 'b) act" where
  "then_do m f c = (case m c of (Inl e, c') \<Rightarrow> (Inl e, c') | (Inr x, c') \<Rightarrow> f x c')"

definition lift_result :: "'a result \<Rightarrow> ('s, 'a) act" where
  "lift_result r c = (r, c)"

definition put_bytes :: "bytes \<Rightarrow> ('x stream_scheme, unit) act" where
  "put_bytes bs c = (Inr (), c\<lparr>outp := outp c @ bs\<rparr>)"

definition put_result :: "bytes result \<Rightarrow> ('x stream_scheme, unit) act" where
  "put_result r = then_do (lift_result r) put_bytes"

definition recv :: "('x stream_scheme, bytes) act" where
  "recv c =
     (case recv_message (inp c) of
      Inl e \<Rightarrow> (Inl e, c\<lparr>inp := []\<rparr>) | Inr (m, rest) \<Rightarrow> (Inr m, c\<lparr>inp := rest\<rparr>))"

lemma then_do_simps [simp]:
  "then_do (give x) f = f x" "then_do (bail e) f = bail e"
  "lift_result (Inl e) = bail e" "lift_result (Inr x) = give x"
  by (simp_all add: then_do_def give_def bail_def lift_result_def fun_eq_iff)

lemma then_do_Inr:
  "then_do m f c = (Inr y, c'') \<longleftrightarrow> (\<exists>x c'. m c = (Inr x, c') \<and> f x c' = (Inr y, c''))"
  by (auto simp: then_do_def split: prod.splits sum.splits)

section \<open>Input is only consumed\<close>

definition consumes :: "('x stream_scheme, 'a) act \<Rightarrow> bool" where
  "consumes m \<longleftrightarrow> (\<forall>c. length (inp (snd (m c))) \<le> length (inp c))"

lemma consumes_then_do [intro]:
  assumes "consumes m" "\<And>x. consumes (f x)"
  shows "consumes (then_do m f)"
  unfolding consumes_def
proof
  fix c
  obtain r c' where m: "m c = (r, c')" by (cases "m c")
  have "length (inp c') \<le> length (inp c)" using assms(1) m by (metis consumes_def snd_conv)
  moreover have "length (inp (snd (f x c'))) \<le> length (inp c')" for x
    using assms(2) by (simp add: consumes_def)
  ultimately show "length (inp (snd (then_do m f c))) \<le> length (inp c)"
    using m by (auto simp: then_do_def split: sum.split intro: le_trans)
qed

lemma consumes_basic [simp, intro]:
  "consumes (give x)" "consumes (bail e)" "consumes (lift_result r)" "consumes (put_bytes bs)"
  by (auto simp: consumes_def give_def bail_def lift_result_def put_bytes_def)

lemma consumes_put_result [simp, intro]: "consumes (put_result r)"
  unfolding put_result_def by auto

lemma recv_shrinks: "recv c = (Inr m, c') \<Longrightarrow> length (inp c') < length (inp c)"
  by (auto simp: recv_def split: sum.splits dest: recv_message_bounded)

lemma consumes_recv [simp, intro]: "consumes recv"
  by (auto simp: consumes_def recv_def split: sum.split dest: recv_message_bounded)

lemma consumes_if [intro]: "consumes a \<Longrightarrow> consumes b \<Longrightarrow> consumes (if t then a else b)"
  by simp

lemma consumes_update [intro]: "(\<And>c. inp (f c) = inp c) \<Longrightarrow> consumes (\<lambda>c. (r c, f c))"
  by (simp add: consumes_def)

end
