(* ===== verification/Connection.thy ===== *)
theory Connection
  imports Dispatch Tunnel Rate_Limit Byte_Stream
begin

text \<open>
  One connection of the server, \<open>mrsh-server/src/handler.rs\<close>: its byte stream, the session store,
  the calls made, the recovery-code file and the actions that took the connection over. The handshake
  and the request loop are in the theories built on this one.
\<close>

record conn = stream +
  store :: session_map
  calls :: "call list"
  recovery :: "string option"
  hijacked :: "hijack_action list"

type_synonym 'a io = "(conn, 'a) act"

definition note_calls :: "call list \<Rightarrow> unit io" where
  "note_calls cs c = (Inr (), c\<lparr>calls := calls c @ cs\<rparr>)"

lemma consumes_note_calls [simp, intro]: "consumes (note_calls cs)"
  by (simp add: consumes_def note_calls_def)

end
