(* ===== verification/Handshake.thy ===== *)
theory Handshake
  imports Connection
begin

text \<open>
  The authentication handshake, \<open>authenticate\<close> of \<open>mrsh-server/src/handler.rs\<close>, in both protocols:
  first message, revocation, key lookup with reload from disk, challenge and signature, second
  factor, capabilities, success message. Codecs, hashes, the signature and code verifiers and the
  random challenge are parameters.
\<close>

record server_context =
  authorized_keys :: "authorized_key list"
  revoked_keys :: "string set"
  server_version :: string
  banner :: "string option"
  server_caps :: "string list"
  allowed_tunnels :: "string list"
  totp_secrets :: "totp_secret list"
  device_id :: "string option"
  rendezvous_server :: "string option"
  key_files :: "string option list"    \<comment> \<open>the files of \<open>authorized_keys_paths\<close> that exist, if readable\<close>

record client_info =
  ci_key_comment :: "string option"
  client_version :: "string option"
  ci_caps :: "string list"
  permissions :: key_permissions
  ci_mux_enabled :: bool

record auth_params =
  b64_decode :: "string \<Rightarrow> bytes option"
  b64_encode :: "bytes \<Rightarrow> string"
  sha256 :: "bytes \<Rightarrow> bytes"
  sha256_hex :: "string \<Rightarrow> string"
  valid_key :: "bytes \<Rightarrow> bool"
  verify_strict :: "bytes \<Rightarrow> bytes \<Rightarrow> bytes \<Rightarrow> bool"
  verify_totp :: "string \<Rightarrow> string \<Rightarrow> bool"
  challenge_bytes :: bytes
  auth_request_json :: "bytes \<Rightarrow> auth_request option"
  auth_response_json :: "bytes \<Rightarrow> auth_response option"
  totp_response_json :: "bytes \<Rightarrow> totp_response option"
  auth_result_json :: "auth_result \<Rightarrow> bytes option"
  auth_challenge_json :: "auth_challenge \<Rightarrow> bytes option"
  totp_challenge_json :: "totp_challenge \<Rightarrow> bytes option"
  on_windows :: bool
  failed_save :: "string option option"   \<comment> \<open>what a failing write of the recovery file leaves, if it fails\<close>

section \<open>Keys and signatures on the wire\<close>

text \<open>A raw key, or the last 32 bytes of anything longer; the check of the SSH wire format in between
  does not change the result.\<close>

definition extract_ed25519_raw :: "bytes \<Rightarrow> bytes result" where
  "extract_ed25519_raw data =
     (if length data = 32 then Inr data
      else if 32 < length data then
        (if 51 \<le> length data \<and> from_be (take 4 data) = 11
            \<and> take 11 (drop 4 data) = as_bytes ''ssh-ed25519''
         then Inr (drop (length data - 32) data)
         else Inr (drop (length data - 32) data))
      else Inl (Failed ''invalid ed25519 public key''))"

definition extract_ed25519_sig :: "bytes \<Rightarrow> bytes result" where
  "extract_ed25519_sig data =
     (if length data = 64 then Inr data
      else if 64 < length data then Inr (drop (length data - 64) data)
      else Inl (Failed ''invalid ed25519 signature''))"

section \<open>The steps\<close>

definition failure_result :: "server_context \<Rightarrow> string \<Rightarrow> auth_result" where
  "failure_result ctx error = \<lparr>au_success = False, au_error = Some error, au_version = Some (server_version ctx),
     mux_enabled = None, au_caps = None, au_banner = None, au_device_id = None, au_rendezvous_server = None\<rparr>"

definition send_auth_fail :: "auth_params \<Rightarrow> server_context \<Rightarrow> string \<Rightarrow> bool \<Rightarrow> unit io" where
  "send_auth_fail A ctx error use_binary =
     (if use_binary then put_bytes (send_msg AUTH_FAIL (build_error error))
      else put_result (send_json (auth_result_json A) (failure_result ctx error)))"

record auth_hello =
  use_binary :: bool
  raw_key :: bytes
  hello_version :: "string option"
  hello_caps :: "string list"
  hello_want_mux :: bool

definition auth_hello_of ::
  "auth_params \<Rightarrow> server_context \<Rightarrow> bytes \<Rightarrow> auth_hello io" where
  "auth_hello_of A ctx raw_msg =
     (if raw_msg = [] then bail (Failed ''empty auth message'')
      else if hd raw_msg = AUTH_REQUEST then
        then_do (lift_result (parse_auth_request (tl raw_msg))) (\<lambda>(pubkey, version, caps).
        then_do (lift_result (extract_ed25519_raw pubkey)) (\<lambda>raw.
          give \<lparr>use_binary = True, raw_key = raw, hello_version = Some version, hello_caps = caps,
                hello_want_mux = False\<rparr>))
      else
        then_do (lift_result (ok_or Deserialize (auth_request_json A raw_msg))) (\<lambda>req.
          if auth_type req \<noteq> ''auth'' \<and> auth_type req \<noteq> ''pubkey'' then
            then_do (put_result (send_json (auth_result_json A)
                       (failure_result ctx (''unsupported auth type: '' @ auth_type req)))) (\<lambda>_.
              bail (Failed ''unsupported auth type''))
          else
            then_do (lift_result (ok_or (Failed ''missing public_key'') (aq_public_key req))) (\<lambda>key_b64.
            then_do (lift_result (ok_or (Failed ''decode public_key base64'') (b64_decode A key_b64))) (\<lambda>wire.
            then_do (lift_result (extract_ed25519_raw wire)) (\<lambda>raw.
              give \<lparr>use_binary = False, raw_key = raw, hello_version = aq_version req,
                    hello_caps = (case aq_caps req of Some cs \<Rightarrow> cs | None \<Rightarrow> []),
                    hello_want_mux = (want_mux req = Some True)\<rparr>)))))"

text \<open>The reload: every readable file, keys in order, the first entry of each key kept.\<close>

fun add_fresh :: "authorized_key list \<Rightarrow> authorized_key list \<Rightarrow> authorized_key list" where
  "add_fresh fresh [] = fresh"
| "add_fresh fresh (k # ks) =
     add_fresh (if key_data k \<in> set (map key_data fresh) then fresh else fresh @ [k]) ks"

fun hot_reload :: "(string \<Rightarrow> bytes option) \<Rightarrow> string option list \<Rightarrow> authorized_key list \<Rightarrow> authorized_key list result" where
  "hot_reload b64 [] fresh = Inr fresh"
| "hot_reload b64 (content # files) fresh =
     (case load_authorized_keys b64 False None content of
        Inr ks \<Rightarrow> hot_reload b64 files (add_fresh fresh ks)
      | Inl Panicked \<Rightarrow> Inl Panicked
      | Inl _ \<Rightarrow> hot_reload b64 files fresh)"

definition find_key :: "bytes \<Rightarrow> authorized_key list \<Rightarrow> authorized_key option" where
  "find_key raw ks = find (\<lambda>k. key_data k = raw) ks"

definition lookup_key :: "auth_params \<Rightarrow> server_context \<Rightarrow> bytes \<Rightarrow> authorized_key option result" where
  "lookup_key A ctx raw =
     (case find_key raw (authorized_keys ctx) of
        Some k \<Rightarrow> Inr (Some k)
      | None \<Rightarrow> and_then (hot_reload (b64_decode A) (key_files ctx) []) (\<lambda>fresh. Inr (find_key raw fresh)))"

definition fingerprint :: "auth_params \<Rightarrow> bytes \<Rightarrow> string" where
  "fingerprint A raw = key_fingerprint (sha256 A) (b64_encode A) raw"

definition send_challenge :: "auth_params \<Rightarrow> bool \<Rightarrow> unit io" where
  "send_challenge A binary =
     (if binary then put_bytes (send_msg AUTH_CHALLENGE (challenge_bytes A))
      else put_result (send_json (auth_challenge_json A) \<lparr>ac_challenge = b64_encode A (challenge_bytes A)\<rparr>))"

definition recv_json_io :: "(bytes \<Rightarrow> 'a option) \<Rightarrow> 'a io" where
  "recv_json_io de = then_do recv (\<lambda>m. lift_result (ok_or Deserialize (de m)))"

definition recv_signature :: "auth_params \<Rightarrow> bool \<Rightarrow> bytes io" where
  "recv_signature A binary =
     (if binary then
        then_do recv (\<lambda>m.
          if m = [] then bail EmptyMessage
          else if hd m \<noteq> AUTH_RESPONSE then bail (Failed ''expected AUTH_RESPONSE'')
          else lift_result (extract_ed25519_sig (tl m)))
      else
        then_do (recv_json_io (auth_response_json A)) (\<lambda>resp.
        then_do (lift_result (ok_or (Failed ''decode signature base64'') (b64_decode A (ar_signature resp)))) (\<lambda>sig.
          lift_result (extract_ed25519_sig sig))))"

text \<open>The recovery file is read, checked and, when a code was spent, written back; a failure of that write is only
  logged.\<close>

definition recovery_after :: "auth_params \<Rightarrow> recovery_map \<Rightarrow> string option" where
  "recovery_after A m = (case failed_save A of None \<Rightarrow> Some (save_totp_recovery m) | Some left \<Rightarrow> left)"

definition use_recovery :: "auth_params \<Rightarrow> string \<Rightarrow> string \<Rightarrow> bool io" where
  "use_recovery A code fp c =
     (case recovery c of
        None \<Rightarrow> (Inr False, c)
      | Some content \<Rightarrow>
          (case load_totp_recovery (Some content) of
             Inl _ \<Rightarrow> (Inr False, c)
           | Inr m \<Rightarrow>
               (case check_recovery_code (sha256_hex A) code fp m of
                  (True, m') \<Rightarrow> (Inr True, c\<lparr>recovery := recovery_after A m'\<rparr>)
                | (False, _) \<Rightarrow> (Inr False, c))))"

definition check_totp :: "auth_params \<Rightarrow> server_context \<Rightarrow> string \<Rightarrow> unit io" where
  "check_totp A ctx fp =
     (case find_totp_secret fp (totp_secrets ctx) of
        None \<Rightarrow>
          then_do (put_result (send_json (auth_result_json A)
                     (failure_result ctx ''TOTP required but not configured for this key''))) (\<lambda>_.
            bail (Failed ''TOTP required but no secret''))
      | Some secret \<Rightarrow>
          then_do (put_result (send_json (totp_challenge_json A) \<lparr>totp_required = True\<rparr>)) (\<lambda>_.
          then_do (recv_json_io (totp_response_json A)) (\<lambda>resp.
            if verify_totp A (ts_secret secret) (totp_code resp) then give ()
            else
              then_do (use_recovery A (totp_code resp) fp) (\<lambda>recovery_used.
                if recovery_used then give ()
                else
                  then_do (put_result (send_json (auth_result_json A) (failure_result ctx ''TOTP verification failed''))) (\<lambda>_.
                    bail (Failed ''TOTP verification failed''))))))"

section \<open>Capabilities\<close>

definition info_caps :: "string list" where
  "info_caps = [''tray'', ''system'', ''screenshot'', ''window'', ''mouse'', ''keyboard'', ''linux'', ''linux-musl'',
     ''linux-aarch64'', ''linux-x86_64'', ''windows-aarch64'', ''windows-x86_64'']"

fun add_info_caps :: "string list \<Rightarrow> string list \<Rightarrow> string list \<Rightarrow> string list" where
  "add_info_caps server [] final = final"
| "add_info_caps server (i # is) final =
     add_info_caps server is (if i \<in> set server \<and> i \<notin> set final then final @ [i] else final)"

definition negotiate_caps :: "string list \<Rightarrow> string list \<Rightarrow> string list" where
  "negotiate_caps server client =
     (let granted = filter (\<lambda>c. c \<in> set client) server;
          final = granted @ (if ''binary-proto'' \<in> set client then [''binary-proto''] else [])
      in add_info_caps server info_caps final)"

section \<open>The handshake\<close>

definition send_auth_ok :: "auth_params \<Rightarrow> server_context \<Rightarrow> bool \<Rightarrow> string list \<Rightarrow> bool option \<Rightarrow> unit io" where
  "send_auth_ok A ctx binary caps mux =
     (if binary then
        put_bytes (send_msg AUTH_OK
          (build_auth_ok_full (server_version ctx) caps (banner ctx) (device_id ctx) (rendezvous_server ctx)))
      else
        put_result (send_json (auth_result_json A)
          \<lparr>au_success = True, au_error = None, au_version = Some (server_version ctx), mux_enabled = mux,
           au_caps = Some caps, au_banner = banner ctx, au_device_id = device_id ctx,
           au_rendezvous_server = rendezvous_server ctx\<rparr>))"

text \<open>From the matched key on: challenge, signature, second factor, success.\<close>

definition prove_key ::
  "auth_params \<Rightarrow> server_context \<Rightarrow> auth_hello \<Rightarrow> authorized_key \<Rightarrow> client_info io" where
  "prove_key A ctx h key =
     then_do (send_challenge A (use_binary h)) (\<lambda>_.
     then_do (recv_signature A (use_binary h)) (\<lambda>raw_sig.
     then_do (lift_result (verify_ed25519_signature (valid_key A) (verify_strict A) (raw_key h)
                (challenge_bytes A) raw_sig)) (\<lambda>valid.
       if \<not> valid then
         then_do (send_auth_fail A ctx ''signature verification failed'' (use_binary h)) (\<lambda>_.
           bail (Failed ''signature verification failed''))
       else
         then_do (if require_totp (key_perms key) then check_totp A ctx (fingerprint A (raw_key h)) else give ()) (\<lambda>_.
           let caps = negotiate_caps (server_caps ctx) (hello_caps h);
               mux = (if on_windows A \<and> hello_want_mux h then Some True else None)
           in then_do (send_auth_ok A ctx (use_binary h) caps mux) (\<lambda>_.
                give \<lparr>ci_key_comment = key_comment key, client_version = hello_version h, ci_caps = caps,
                      permissions = key_perms key, ci_mux_enabled = (mux = Some True)\<rparr>)))))"

definition authenticate :: "auth_params \<Rightarrow> server_context \<Rightarrow> client_info io" where
  "authenticate A ctx =
     then_do recv (\<lambda>raw_msg.
     then_do (auth_hello_of A ctx raw_msg) (\<lambda>h.
       if is_key_revoked (sha256 A) (b64_encode A) (raw_key h) (revoked_keys ctx) then
         then_do (send_auth_fail A ctx ''public key has been revoked'' (use_binary h)) (\<lambda>_.
           bail (Failed ''public key revoked''))
       else
         then_do (lift_result (lookup_key A ctx (raw_key h))) (\<lambda>found.
           case found of
             None \<Rightarrow>
               then_do (send_auth_fail A ctx ''public key not authorized'' (use_binary h)) (\<lambda>_.
                 bail (Failed ''public key not authorized''))
           | Some key \<Rightarrow> prove_key A ctx h key)))"

section \<open>Who gets in\<close>

definition key_on_disk :: "auth_params \<Rightarrow> server_context \<Rightarrow> authorized_key \<Rightarrow> bool" where
  "key_on_disk A ctx key \<longleftrightarrow>
     (\<exists>content ks. content \<in> set (key_files ctx) \<and> load_authorized_keys (b64_decode A) False None content = Inr ks
        \<and> key \<in> set ks)"

lemma set_add_fresh: "set (add_fresh fresh ks) \<subseteq> set fresh \<union> set ks"
  by (induction fresh ks rule: add_fresh.induct) (auto split: if_splits)

lemma hot_reload_sound:
  "hot_reload b64 files fresh = Inr ks \<Longrightarrow> k \<in> set ks \<Longrightarrow>
    k \<in> set fresh \<or> (\<exists>content ks'. content \<in> set files \<and> load_authorized_keys b64 False None content = Inr ks' \<and> k \<in> set ks')"
proof (induction b64 files fresh rule: hot_reload.induct)
  case (2 b64 content files fresh)
  show ?case
  proof (cases "load_authorized_keys b64 False None content")
    case (Inl e)
    with 2 show ?thesis by (cases "e = Panicked") (auto split: err.splits)
  next
    case (Inr ks')
    with 2 set_add_fresh [of fresh ks'] show ?thesis by fastforce
  qed
qed simp

lemma find_key_Some: "find_key raw ks = Some k \<Longrightarrow> key_data k = raw \<and> k \<in> set ks"
  by (auto simp: find_key_def find_Some_iff)

lemma lookup_key_sound:
  assumes "lookup_key A ctx raw = Inr (Some key)"
  shows "key_data key = raw \<and> (key \<in> set (authorized_keys ctx) \<or> key_on_disk A ctx key)"
proof (cases "find_key raw (authorized_keys ctx)")
  case (Some k)
  with assms show ?thesis by (auto simp: lookup_key_def dest: find_key_Some)
next
  case None
  with assms obtain fresh where "hot_reload (b64_decode A) (key_files ctx) [] = Inr fresh" "find_key raw fresh = Some key"
    by (auto simp: lookup_key_def and_then_Inr_iff)
  with hot_reload_sound [of "b64_decode A" "key_files ctx" "[]" fresh key] show ?thesis
    by (auto simp: key_on_disk_def dest!: find_key_Some)
qed

text \<open>The second factor: a current code, or a recovery code of the key that is spent thereby.\<close>

definition second_factor :: "auth_params \<Rightarrow> server_context \<Rightarrow> bytes \<Rightarrow> conn \<Rightarrow> conn \<Rightarrow> bool" where
  "second_factor A ctx raw c c' \<longleftrightarrow>
     (\<exists>secret code. find_totp_secret (fingerprint A raw) (totp_secrets ctx) = Some secret \<and>
        (verify_totp A (ts_secret secret) code \<or>
         (\<exists>content m m'. recovery c = Some content \<and> load_totp_recovery (Some content) = Inr m \<and>
            check_recovery_code (sha256_hex A) code (fingerprint A raw) m = (True, m') \<and>
            recovery c' = recovery_after A m')))"

text \<open>Everything but the second factor leaves the recovery file alone.\<close>

definition keeps_recovery :: "'a io \<Rightarrow> bool" where
  "keeps_recovery m \<longleftrightarrow> (\<forall>c. recovery (snd (m c)) = recovery c)"

lemma keeps_recovery_basic [simp, intro]:
  "keeps_recovery (give x)" "keeps_recovery (bail e)" "keeps_recovery (lift_result r)" "keeps_recovery (put_bytes bs)"
  "keeps_recovery recv"
  by (auto simp: keeps_recovery_def give_def bail_def lift_result_def put_bytes_def recv_def split: sum.split)

lemma keeps_recovery_then_do [intro]:
  "keeps_recovery m \<Longrightarrow> (\<And>x. keeps_recovery (f x)) \<Longrightarrow> keeps_recovery (then_do m f)"
  by (simp add: keeps_recovery_def then_do_def split: prod.split sum.split) (metis snd_conv)

lemma keeps_recovery_if [intro]: "keeps_recovery a \<Longrightarrow> keeps_recovery b \<Longrightarrow> keeps_recovery (if t then a else b)"
  by simp

lemma keeps_recovery_put_result [simp, intro]: "keeps_recovery (put_result r)"
  unfolding put_result_def by auto

lemma keeps_recovery_json [simp, intro]: "keeps_recovery (recv_json_io de)"
  unfolding recv_json_io_def by auto

lemma keeps_recovery_D: "m c = (r, c') \<Longrightarrow> keeps_recovery m \<Longrightarrow> recovery c' = recovery c"
  by (metis keeps_recovery_def snd_conv)

lemma keeps_recovery_steps [simp, intro]:
  "keeps_recovery (send_challenge A b)" "keeps_recovery (recv_signature A b)"
  "keeps_recovery (send_auth_ok A ctx b caps mux)"
  unfolding send_challenge_def recv_signature_def send_auth_ok_def by auto

lemma keeps_recovery_hello [simp, intro]: "keeps_recovery (auth_hello_of A ctx m)"
  unfolding auth_hello_of_def split_beta by (intro keeps_recovery_if keeps_recovery_then_do keeps_recovery_basic keeps_recovery_put_result)

lemma use_recovery_True:
  "use_recovery A code fp c = (Inr True, c') \<Longrightarrow>
    \<exists>content m m'. recovery c = Some content \<and> load_totp_recovery (Some content) = Inr m \<and>
      check_recovery_code (sha256_hex A) code fp m = (True, m') \<and> recovery c' = recovery_after A m'"
  by (auto simp: use_recovery_def split: option.splits sum.splits prod.splits bool.splits)

lemma check_totp_sound:
  assumes "check_totp A ctx (fingerprint A raw) c = (Inr u, c')"
  shows "second_factor A ctx raw c c'"
proof -
  obtain secret where secret: "find_totp_secret (fingerprint A raw) (totp_secrets ctx) = Some secret"
    using assms by (cases "find_totp_secret (fingerprint A raw) (totp_secrets ctx)")
      (auto simp: check_totp_def then_do_Inr bail_def)
  then obtain r1 c1 r2 c2 where
    step: "put_result (send_json (totp_challenge_json A) \<lparr>totp_required = True\<rparr>) c = (Inr r1, c1)"
      "recv_json_io (totp_response_json A) c1 = (Inr r2, c2)"
    and rest: "verify_totp A (ts_secret secret) (totp_code r2) \<and> c' = c2 \<or>
      use_recovery A (totp_code r2) (fingerprint A raw) c2 = (Inr True, c')"
    using assms by (auto simp: check_totp_def then_do_Inr bail_def give_def split: if_splits)
  have "recovery c2 = recovery c"
    using step by (metis keeps_recovery_D keeps_recovery_put_result keeps_recovery_json)
  with rest secret show ?thesis
    unfolding second_factor_def using use_recovery_True [of A "totp_code r2" "fingerprint A raw" c2 c'] by metis
qed

lemma prove_key_sound:
  assumes "prove_key A ctx h key c = (Inr info, c')"
  shows "(\<exists>sig. length sig = 64 \<and> verify_strict A (raw_key h) (challenge_bytes A) sig) \<and>
    permissions info = key_perms key \<and> length (raw_key h) = 32 \<and>
    (require_totp (key_perms key) \<longrightarrow> second_factor A ctx (raw_key h) c c')"
proof -
  from assms obtain r1 c1 sig c2 v c3 r4 c4 r5 where
    steps: "send_challenge A (use_binary h) c = (Inr r1, c1)" "recv_signature A (use_binary h) c1 = (Inr sig, c2)"
    and ver: "verify_ed25519_signature (valid_key A) (verify_strict A) (raw_key h) (challenge_bytes A) sig = Inr True"
    and totp: "(if require_totp (key_perms key) then check_totp A ctx (fingerprint A (raw_key h)) else give ()) c2 = (Inr r4, c4)"
    and ok: "send_auth_ok A ctx (use_binary h) (negotiate_caps (server_caps ctx) (hello_caps h))
        (if on_windows A \<and> hello_want_mux h then Some True else None) c4 = (Inr r5, c')"
    and info: "permissions info = key_perms key"
    by (auto simp: prove_key_def then_do_Inr Let_def give_def bail_def lift_result_def split: if_splits)
  have r: "recovery c2 = recovery c" "recovery c' = recovery c4"
    using steps ok by (metis keeps_recovery_D keeps_recovery_steps)+
  have "second_factor A ctx (raw_key h) c c'" if "require_totp (key_perms key)"
    using check_totp_sound [of A ctx "raw_key h" c2 r4 c4] totp that r by (simp add: second_factor_def)
  with ver info show ?thesis by (auto simp: verify_ed25519_signature_def split: if_splits)
qed

text \<open>C2. Nobody gets in without a key: a handshake that succeeds did so for an authorized key, in
  memory or in a key file, that is not revoked, with a signature of this connection's challenge that
  the verifier accepts under that key; the client has that key's permissions; and if the key demands
  a second factor, a code was accepted: a current one, or a recovery code, which is then spent in the saved
  file unless writing that file fails.\<close>

theorem authenticate_sound:
  assumes "authenticate A ctx c = (Inr info, c')"
  shows "\<exists>key raw sig. key_data key = raw \<and> (key \<in> set (authorized_keys ctx) \<or> key_on_disk A ctx key) \<and>
    fingerprint A raw \<notin> revoked_keys ctx \<and>
    length raw = 32 \<and> length sig = 64 \<and> verify_strict A raw (challenge_bytes A) sig \<and>
    permissions info = key_perms key \<and>
    (require_totp (key_perms key) \<longrightarrow> second_factor A ctx raw c c')"
proof -
  from assms obtain m c1 h c2 key where
    steps: "recv c = (Inr m, c1)" "auth_hello_of A ctx m c1 = (Inr h, c2)"
    and rev: "\<not> is_key_revoked (sha256 A) (b64_encode A) (raw_key h) (revoked_keys ctx)"
    and key: "lookup_key A ctx (raw_key h) = Inr (Some key)" and prove: "prove_key A ctx h key c2 = (Inr info, c')"
    by (auto simp: authenticate_def then_do_Inr bail_def lift_result_def split: if_splits option.splits)
  have "recovery c2 = recovery c"
    using steps by (metis keeps_recovery_D keeps_recovery_basic(5) keeps_recovery_hello)
  then have "second_factor A ctx (raw_key h) c2 c' = second_factor A ctx (raw_key h) c c'"
    by (simp add: second_factor_def)
  moreover have "fingerprint A (raw_key h) \<notin> revoked_keys ctx"
    using rev by (auto simp: is_key_revoked_def fingerprint_def split: if_splits)
  ultimately show ?thesis
    using lookup_key_sound [OF key] prove_key_sound [OF prove] by blast
qed

text \<open>When the file cannot be written and stays as it was, the code is accepted and can be used again.\<close>

lemma recovery_code_kept:
  assumes "failed_save A = Some (recovery c)" "recovery c = Some content" "load_totp_recovery (Some content) = Inr m"
    and "check_recovery_code (sha256_hex A) code fp m = (True, m')"
  shows "use_recovery A code fp c = (Inr True, c)"
  using assms by (simp add: use_recovery_def recovery_after_def)

section \<open>Capabilities that are granted\<close>

lemma set_add_info_caps: "set (add_info_caps server is final) = set final \<union> (set is \<inter> set server)"
  by (induction server "is" final rule: add_info_caps.induct) auto

text \<open>Negotiation: the granted capabilities are those of the server that the client names, the
  binary protocol if the client names it, and the server's informational ones.\<close>

theorem negotiate_caps_iff:
  "x \<in> set (negotiate_caps server client) \<longleftrightarrow>
     x \<in> set server \<and> (x \<in> set client \<or> x \<in> set info_caps) \<or> x = ''binary-proto'' \<and> ''binary-proto'' \<in> set client"
  by (auto simp: negotiate_caps_def Let_def set_add_info_caps)

section \<open>An honest client gets in\<close>

lemma recv_frame: "wire_sendable m \<Longrightarrow> recv (c\<lparr>inp := send_message m @ rest\<rparr>) = (Inr m, c\<lparr>inp := rest\<rparr>)"
  by (simp add: recv_def recv_send_message)

lemma extract_exact [simp]:
  "length k = 32 \<Longrightarrow> extract_ed25519_raw k = Inr k" "length g = 64 \<Longrightarrow> extract_ed25519_sig g = Inr g"
  by (simp_all add: extract_ed25519_raw_def extract_ed25519_sig_def)

text \<open>What the server writes when it lets a client in with the binary protocol.\<close>

definition auth_ok_bytes :: "server_context \<Rightarrow> string list \<Rightarrow> bytes" where
  "auth_ok_bytes ctx caps = send_msg AUTH_OK
     (build_auth_ok_full (server_version ctx) caps (banner ctx) (device_id ctx) (rendezvous_server ctx))"

definition binary_hello :: "bytes \<Rightarrow> string \<Rightarrow> string list \<Rightarrow> auth_hello" where
  "binary_hello raw version caps =
     \<lparr>use_binary = True, raw_key = raw, hello_version = Some version, hello_caps = caps, hello_want_mux = False\<rparr>"

lemma authenticate_hello:
  assumes "find_key raw (authorized_keys ctx) = Some key" "length raw = 32" "fingerprint A raw \<notin> revoked_keys ctx"
    and "str_fits version" "list_all str_fits caps" "length caps < 256"
    and "length (build_auth_request raw version caps) < 52428800"
    and "inp c = send_msg AUTH_REQUEST (build_auth_request raw version caps) @ r"
  shows "authenticate A ctx c = prove_key A ctx (binary_hello raw version caps) key (c\<lparr>inp := r\<rparr>)"
proof -
  let ?m = "AUTH_REQUEST # build_auth_request raw version caps"
  have "blob_fits raw" using assms(2) by (simp add: blob_fits_def)
  then have p: "parse_auth_request (build_auth_request raw version caps) = Inr (raw, version, caps)"
    using assms(4-6) by (rule parse_build_auth_request)
  have c: "c = c\<lparr>inp := send_message ?m @ r\<rparr>" using assms(8) by (simp add: send_msg_def)
  have hello: "recv c = (Inr ?m, c\<lparr>inp := r\<rparr>)"
    "auth_hello_of A ctx ?m (c\<lparr>inp := r\<rparr>) = (Inr (binary_hello raw version caps), c\<lparr>inp := r\<rparr>)"
    using assms(2,7) recv_frame [of ?m r c] c p
    by (simp_all add: wire_sendable_def auth_hello_of_def give_def binary_hello_def)
  have free: "\<not> is_key_revoked (sha256 A) (b64_encode A) raw (revoked_keys ctx)"
    using assms(3) by (simp add: is_key_revoked_def fingerprint_def)
  have key: "lookup_key A ctx raw = Inr (Some key)" using assms(1) by (simp add: lookup_key_def)
  show ?thesis using hello free key by (simp add: authenticate_def then_do_def binary_hello_def)
qed

lemma recv_binary_signature:
  "length sig = 64 \<Longrightarrow> inp c = send_msg AUTH_RESPONSE sig @ rest \<Longrightarrow> recv_signature A True c = (Inr sig, c\<lparr>inp := rest\<rparr>)"
  using recv_send_message [of "AUTH_RESPONSE # sig" rest]
  by (simp add: recv_signature_def send_msg_def then_do_def wire_sendable_def give_def recv_def)

lemma authenticate_runs:
  assumes "find_key raw (authorized_keys ctx) = Some key" "\<not> require_totp (key_perms key)"
    and "length raw = 32" "length sig = 64" "fingerprint A raw \<notin> revoked_keys ctx"
    and "valid_key A raw" "verify_strict A raw (challenge_bytes A) sig"
    and "str_fits version" "list_all str_fits caps" "length caps < 256"
    and "length (build_auth_request raw version caps) < 52428800"
    and "inp c = send_msg AUTH_REQUEST (build_auth_request raw version caps) @ send_msg AUTH_RESPONSE sig @ rest"
  shows "authenticate A ctx c =
    (Inr \<lparr>ci_key_comment = key_comment key, client_version = Some version,
        ci_caps = negotiate_caps (server_caps ctx) caps, permissions = key_perms key, ci_mux_enabled = False\<rparr>,
     c\<lparr>inp := rest, outp := outp c @ send_msg AUTH_CHALLENGE (challenge_bytes A)
         @ auth_ok_bytes ctx (negotiate_caps (server_caps ctx) caps)\<rparr>)"
proof -
  let ?c1 = "c\<lparr>inp := send_msg AUTH_RESPONSE sig @ rest\<rparr>"
  have valid: "verify_ed25519_signature (valid_key A) (verify_strict A) raw (challenge_bytes A) sig = Inr True"
    using assms(3,4,6,7) by (simp add: verify_ed25519_signature_def)
  have "recv_signature A True (?c1\<lparr>outp := out\<rparr>) = (Inr sig, c\<lparr>inp := rest, outp := out\<rparr>)" for out
    using assms(4) recv_binary_signature [of sig "?c1\<lparr>outp := out\<rparr>" rest A] by simp
  then have "prove_key A ctx (binary_hello raw version caps) key ?c1 =
    (Inr \<lparr>ci_key_comment = key_comment key, client_version = Some version,
        ci_caps = negotiate_caps (server_caps ctx) caps, permissions = key_perms key, ci_mux_enabled = False\<rparr>,
     c\<lparr>inp := rest, outp := outp c @ send_msg AUTH_CHALLENGE (challenge_bytes A)
         @ auth_ok_bytes ctx (negotiate_caps (server_caps ctx) caps)\<rparr>)"
    using valid assms(2)
    by (simp add: prove_key_def send_challenge_def then_do_def put_bytes_def send_auth_ok_def give_def Let_def
        binary_hello_def auth_ok_bytes_def)
  with authenticate_hello [OF assms(1,3,5,8-12)] show ?thesis by simp
qed

text \<open>An honest client gets in: with the binary protocol, a client that sends the key of an entry of
  the server's list that is not revoked and needs no second factor, and then a signature of the
  challenge that the verifier accepts, is let in with that entry's permissions, and what it sends
  afterwards is still unread.\<close>

theorem authenticate_complete:
  assumes "find_key raw (authorized_keys ctx) = Some key" "\<not> require_totp (key_perms key)"
    and "length raw = 32" "length sig = 64" "fingerprint A raw \<notin> revoked_keys ctx"
    and "valid_key A raw" "verify_strict A raw (challenge_bytes A) sig"
    and "str_fits version" "list_all str_fits caps" "length caps < 256"
    and "length (build_auth_request raw version caps) < 52428800"
    and "inp c = send_msg AUTH_REQUEST (build_auth_request raw version caps) @ send_msg AUTH_RESPONSE sig @ rest"
  shows "\<exists>info c'. authenticate A ctx c = (Inr info, c') \<and> permissions info = key_perms key \<and>
    ci_caps info = negotiate_caps (server_caps ctx) caps \<and> inp c' = rest"
  using authenticate_runs [OF assms] by simp

section \<open>A concrete handshake\<close>

definition sample_auth :: auth_params where
  "sample_auth = \<lparr>b64_decode = (\<lambda>_. None), b64_encode = str_of_bytes, sha256 = (\<lambda>b. b), sha256_hex = (\<lambda>s. s),
     valid_key = (\<lambda>_. True), verify_strict = (\<lambda>k ch s. take 32 s = ch), verify_totp = (\<lambda>_ _. False),
     challenge_bytes = replicate 32 5, auth_request_json = (\<lambda>_. None), auth_response_json = (\<lambda>_. None),
     totp_response_json = (\<lambda>_. None), auth_result_json = (\<lambda>_. Some []), auth_challenge_json = (\<lambda>_. Some []),
     totp_challenge_json = (\<lambda>_. Some []), on_windows = False, failed_save = None\<rparr>"

definition sample_key :: authorized_key where
  "sample_key = \<lparr>key_type = ''ssh-ed25519'', key_data = replicate 32 7, key_comment = None,
     key_perms = restricted\<lparr>allow_pull := True\<rparr>\<rparr>"

definition sample_context :: server_context where
  "sample_context = \<lparr>authorized_keys = [sample_key], revoked_keys = {}, server_version = ''1'', banner = None,
     server_caps = [''zstd''], allowed_tunnels = [], totp_secrets = [], device_id = None,
     rendezvous_server = None, key_files = []\<rparr>"

definition sample_conn :: "bytes \<Rightarrow> conn" where
  "sample_conn rest = \<lparr>inp = send_msg AUTH_REQUEST (build_auth_request (replicate 32 7) ''1'' [''zstd''])
       @ send_msg AUTH_RESPONSE (replicate 64 5) @ rest,
     outp = [], store = [], calls = [], recovery = None, hijacked = []\<rparr>"

theorem authenticate_complete_witness:
  "\<exists>info c'. authenticate sample_auth sample_context (sample_conn [1]) = (Inr info, c') \<and>
     permissions info = restricted\<lparr>allow_pull := True\<rparr> \<and> inp c' = [1]"
proof -
  have "find_key (replicate 32 7) (authorized_keys sample_context) = Some sample_key"
    by (simp add: find_key_def sample_context_def sample_key_def)
  moreover have "\<not> require_totp (key_perms sample_key)" by (simp add: sample_key_def restricted_def)
  moreover have "length (replicate 32 (7 :: byte)) = 32" "length (replicate 64 (5 :: byte)) = 64" by simp_all
  moreover have "fingerprint sample_auth (replicate 32 7) \<notin> revoked_keys sample_context"
    "valid_key sample_auth (replicate 32 7)"
    "verify_strict sample_auth (replicate 32 7) (challenge_bytes sample_auth) (replicate 64 5)"
    by (simp_all add: sample_auth_def sample_context_def)
  moreover have "is_ascii ''1''" "is_ascii ''zstd''" by code_simp+
  then have "str_fits ''1''" "list_all str_fits [''zstd'']" by (simp_all add: str_fits_def)
  moreover have "length [''zstd''] < 256" by simp
  moreover have "length (build_auth_request (replicate 32 7) ''1'' [''zstd'']) < 52428800"
    by (simp add: build_auth_request_def)
  moreover have "inp (sample_conn [1]) = send_msg AUTH_REQUEST (build_auth_request (replicate 32 7) ''1'' [''zstd''])
      @ send_msg AUTH_RESPONSE (replicate 64 5) @ [1]"
    by (simp add: sample_conn_def)
  ultimately have "\<exists>info c'. authenticate sample_auth sample_context (sample_conn [1]) = (Inr info, c') \<and>
      permissions info = key_perms sample_key \<and>
      ci_caps info = negotiate_caps (server_caps sample_context) [''zstd''] \<and> inp c' = [1]"
    by (rule authenticate_complete)
  moreover have "key_perms sample_key = restricted\<lparr>allow_pull := True\<rparr>" by (simp add: sample_key_def)
  ultimately show ?thesis by auto
qed

theorem authenticate_sound_witness:
  "\<exists>info c' key. authenticate sample_auth sample_context (sample_conn []) = (Inr info, c') \<and>
     key \<in> set (authorized_keys sample_context) \<and> permissions info = key_perms key"
proof -
  have "isl (fst (authenticate sample_auth sample_context (sample_conn []))) = False" by code_simp
  then obtain info c' where ok: "authenticate sample_auth sample_context (sample_conn []) = (Inr info, c')"
    by (cases "authenticate sample_auth sample_context (sample_conn [])"; cases "fst (authenticate sample_auth sample_context (sample_conn []))") auto
  from authenticate_sound [OF ok] show ?thesis
    using ok by (auto simp: key_on_disk_def sample_context_def)
qed

end
