(* ===== verification/Request_Loop.thy ===== *)
theory Request_Loop
  imports Handshake
begin

text \<open>
  The request loop, \<open>handle_connection\<close> of \<open>mrsh-server/src/handler.rs\<close>: the rate limiter around the
  handshake, then messages until the input ends, each a binary message or a JSON request. The JSON
  codec, compression, the file system, spawned children, log queries and the streaming sync handlers
  are parameters; what they are asked to do is recorded in the connection's calls.
\<close>

record loop_params =
  lp_features :: features
  lp_env :: server_env
  request_json :: "bytes \<Rightarrow> request option"
  response_json :: "response \<Rightarrow> bytes option"
  zstd_encode :: "bytes \<Rightarrow> bytes option"
  fs_write :: "string \<Rightarrow> bytes \<Rightarrow> string option"
  fs_read :: "string \<Rightarrow> string + bytes"
  missing_parent :: "string \<Rightarrow> string option"
  exec_child :: "command \<Rightarrow> string + (stream_event list \<times> u32 option)"
  log_query_reply :: "bytes \<Rightarrow> bytes result"
  sync_io :: "sync_stream_action \<Rightarrow> request \<Rightarrow> bytes \<Rightarrow> nat \<times> bytes"
  lp_b64_decode :: "string \<Rightarrow> bytes option"
  fresh_session :: string

definition send_resp :: "loop_params \<Rightarrow> response \<Rightarrow> bool \<Rightarrow> unit io" where
  "send_resp P resp use_zstd =
     put_result (if use_zstd then send_json_compressed (response_json P) (zstd_encode P) resp
                 else send_json (response_json P) resp)"

definition run_call :: "(exec_env \<Rightarrow> 'a \<times> command option) \<Rightarrow> loop_params \<Rightarrow> call \<Rightarrow> 'a io" where
  "run_call f P k = then_do (note_calls [k]) (\<lambda>_. give (fst (f (exec_env (lp_env P)))))"

definition io_dispatch :: "loop_params \<Rightarrow> request \<Rightarrow> dispatch_result io" where
  "io_dispatch P req c =
     (case dispatch (lp_env P) req (store c) of
        (r, st, cs) \<Rightarrow> (Inr r, c\<lparr>store := st, calls := calls c @ cs\<rparr>))"

definition or_default :: "bytes option \<Rightarrow> bytes" where
  "or_default b = (case b of Some x \<Rightarrow> x | None \<Rightarrow> [])"

section \<open>Binary messages\<close>

definition effective_command :: "key_permissions \<Rightarrow> string \<Rightarrow> string" where
  "effective_command perms cmd = (case forced_command perms of Some forced \<Rightarrow> forced | None \<Rightarrow> cmd)"

definition exec_output :: "response \<Rightarrow> string" where
  "exec_output resp =
     (case (rs_output resp, rs_error resp) of
        (Some o', Some e) \<Rightarrow>
          if \<not> rs_success resp \<and> o' \<noteq> [] then o' @ [CHR 0x0A] @ ''[server-error] '' @ e else o'
      | (Some o', None) \<Rightarrow> o'
      | (None, Some e) \<Rightarrow> ''[server-error] '' @ e
      | (None, None) \<Rightarrow> [])"

definition binary_exec :: "loop_params \<Rightarrow> key_permissions \<Rightarrow> bytes \<Rightarrow> unit io" where
  "binary_exec P perms payload =
     then_do (lift_result (parse_exec payload)) (\<lambda>(cmd0, env_vars).
       let cmd = effective_command perms cmd0 in
       then_do (run_call (\<lambda>E. handle_exec E cmd env_vars) P (Call_Exec cmd env_vars)) (\<lambda>resp.
         put_bytes (send_msg EXEC_RESULT
           (build_exec_result (if rs_success resp then 0 else 1) (as_bytes (exec_output resp))))))"

text \<open>A streaming child that never closes its streams keeps the handler busy for ever; it is an error
  value here.\<close>

definition binary_exec_stream :: "loop_params \<Rightarrow> key_permissions \<Rightarrow> bytes \<Rightarrow> unit io" where
  "binary_exec_stream P perms payload =
     then_do (lift_result (parse_exec payload)) (\<lambda>(cmd0, env_vars).
       let cmd = effective_command perms cmd0 in
       then_do (run_call (\<lambda>E. handle_exec_stream E (exec_child P) cmd env_vars) P (Call_Exec_Stream cmd env_vars)) (\<lambda>msgs.
         case msgs of
           None \<Rightarrow> bail (Failed ''child still running'')
         | Some ms \<Rightarrow> put_bytes (concat (map (\<lambda>(t, p). send_msg t p) ms))))"

text \<open>The chunks of a push, until an end message, an empty message or an unexpected one, which is
  answered with an error and ends the loop like an end message.\<close>

function push_chunks :: "bytes \<Rightarrow> bytes io" where
  "push_chunks acc c =
     (case recv c of
        (Inl e, c') \<Rightarrow> (Inl e, c')
      | (Inr m, c') \<Rightarrow>
          if m = [] then (Inr acc, c')
          else if hd m = PUSH_DATA then push_chunks (acc @ tl m) c'
          else if hd m = PUSH_END then (Inr acc, c')
          else (Inr acc, c'\<lparr>outp := outp c' @ send_msg ERROR
                  (build_error (''unexpected msg 0x'' @ hex_byte (hd m) @ '' during push''))\<rparr>))"
  by pat_completeness auto
termination
  by (relation "measure (\<lambda>(acc, c). length (inp c))") (auto dest: recv_shrinks [OF sym])

declare push_chunks.simps [simp del]

definition binary_push :: "loop_params \<Rightarrow> bytes \<Rightarrow> unit io" where
  "binary_push P payload =
     then_do (lift_result (parse_push_start payload)) (\<lambda>(file_size, remote_path).
     then_do (case missing_parent P remote_path of
                Some parent \<Rightarrow> note_calls [Call_Create_Dirs parent] | None \<Rightarrow> give ()) (\<lambda>_.
     then_do (push_chunks []) (\<lambda>file_data.
     then_do (note_calls [Call_Write_File remote_path file_data]) (\<lambda>_.
       case fs_write P remote_path file_data of
         None \<Rightarrow> put_bytes (send_empty PUSH_OK)
       | Some e \<Rightarrow> put_bytes (send_msg ERROR (build_error (''write: '' @ e)))))))"

definition PULL_CHUNK :: nat where "PULL_CHUNK = 10 * 1024 * 1024"

definition binary_pull :: "loop_params \<Rightarrow> bytes \<Rightarrow> unit io" where
  "binary_pull P payload =
     then_do (lift_result (parse_pull_req payload)) (\<lambda>remote_path.
     then_do (note_calls [Call_Read_File remote_path]) (\<lambda>_.
       case fs_read P remote_path of
         Inr data \<Rightarrow>
           put_bytes (concat (map (send_msg PULL_DATA) (chunks PULL_CHUNK data)) @ send_empty PULL_END)
       | Inl e \<Rightarrow> put_bytes (send_msg ERROR (build_error (''read: '' @ e)))))"

definition response_of :: "dispatch_result \<Rightarrow> response option" where
  "response_of r = (case r of Response x \<Rightarrow> Some x | _ \<Rightarrow> None)"

definition binary_message :: "loop_params \<Rightarrow> key_permissions \<Rightarrow> byte \<Rightarrow> bytes \<Rightarrow> unit io" where
  "binary_message P perms type_id payload =
     (if type_id = EXEC then binary_exec P perms payload
      else if type_id = EXEC_STREAM then binary_exec_stream P perms payload
      else if type_id = LOG_QUERY then
        then_do (note_calls [Call_Log_Query payload]) (\<lambda>_. put_result (log_query_reply P payload))
      else if type_id = PING then put_bytes (send_empty PONG)
      else if type_id = PUSH_START then binary_push P payload
      else if type_id = PULL_REQ then binary_pull P payload
      else if type_id = INFO_REQ then
        then_do (io_dispatch P (plain_request ''info'' None)) (\<lambda>r.
          case response_of r of
            Some resp \<Rightarrow> put_bytes (send_msg INFO_RESP (or_default (response_json P resp)))
          | None \<Rightarrow> give ())
      else if type_id = SCREENSHOT_REQ then
        then_do (io_dispatch P (plain_request ''screenshot'' None)) (\<lambda>r.
          case response_of r of
            Some resp \<Rightarrow>
              (case rs_output resp of
                 None \<Rightarrow> give ()
               | Some b64data \<Rightarrow>
                   (case lp_b64_decode P b64data of
                      None \<Rightarrow> give () | Some raw \<Rightarrow> put_bytes (send_msg SCREENSHOT_DATA raw)))
          | None \<Rightarrow> give ())
      else if type_id = SELF_UPDATE then
        (let path = (case parse_pull_req payload of Inr p \<Rightarrow> p | Inl _ \<Rightarrow> []);
             resp = answer (lp_env P) (Call_Self_Update path)
         in then_do (note_calls [Call_Self_Update path]) (\<lambda>_.
              if rs_success resp then put_bytes (send_empty SELF_UPDATE_OK)
              else put_bytes (send_msg ERROR (build_error (or_empty (rs_error resp))))))
      else if type_id = REQUEST then
        then_do (lift_result (ok_or Deserialize (request_json P payload))) (\<lambda>req.
        then_do (io_dispatch P req) (\<lambda>r.
          case response_of r of
            Some resp \<Rightarrow> put_bytes (send_msg RESPONSE (or_default (response_json P resp)))
          | None \<Rightarrow> give ()))
      else put_bytes (send_msg ERROR (build_error (''unknown type: 0x'' @ hex_byte type_id))))"

section \<open>JSON requests\<close>

text \<open>\<open>parse_size\<close> of a terminal.\<close>

definition parse_size :: "string \<Rightarrow> u16 \<times> u16" where
  "parse_size size_str =
     (case split_char (CHR ''x'') [] size_str of
        [a, b] \<Rightarrow> (word_of_nat (uint_or 65536 80 (Some a)), word_of_nat (uint_or 65536 24 (Some b)))
      | _ \<Rightarrow> (80, 24))"

text \<open>A hijacked connection: the tunnel only when its target passes both checks, shells always; a
  persistent shell attaches before and detaches after.\<close>

definition run_hijack :: "loop_params \<Rightarrow> server_context \<Rightarrow> hijack_action \<Rightarrow> unit io" where
  "run_hijack P ctx action c =
     (case action of
        Connect target \<Rightarrow>
          if is_tunnel_allowed target (allowed_tunnels ctx) \<and> \<not> is_blocked_target target
          then (Inr (), c\<lparr>hijacked := hijacked c @ [action]\<rparr>) else (Inr (), c)
      | Shell dims env_vars \<Rightarrow> (Inr (), c\<lparr>hijacked := hijacked c @ [action]\<rparr>)
      | Shell_Persistent dims sid readonly env_vars \<Rightarrow>
          (case open_persistent (fresh_session P) (now_secs (lp_env P)) (fst (parse_size dims)) (snd (parse_size dims))
                  sid (store c) of
             (used_id, st) \<Rightarrow>
               (Inr (), c\<lparr>hijacked := hijacked c @ [action], store := session_detach used_id st\<rparr>)))"

definition run_sync_stream :: "loop_params \<Rightarrow> sync_stream_action \<Rightarrow> request \<Rightarrow> unit io" where
  "run_sync_stream P action req c =
     (case sync_io P action req (inp c) of
        (n, out) \<Rightarrow>
          (Inr (), c\<lparr>inp := drop n (inp c), outp := outp c @ out, calls := calls c @ [Call_Sync_Stream action req]\<rparr>))"

definition json_message :: "loop_params \<Rightarrow> server_context \<Rightarrow> client_info \<Rightarrow> bytes \<Rightarrow> bool io" where
  "json_message P ctx client msg =
     (let use_zstd = ''zstd'' \<in> set (ci_caps client); perms = permissions client in
      then_do (lift_result (ok_or Deserialize (request_json P msg))) (\<lambda>req.
        case check_permission (lp_features P) req perms of
          Some denial \<Rightarrow> then_do (send_resp P (response_error denial) use_zstd) (\<lambda>_. give True)
        | None \<Rightarrow>
            then_do (io_dispatch P (apply_forced perms req)) (\<lambda>r.
              case r of
                Response resp \<Rightarrow> then_do (send_resp P resp use_zstd) (\<lambda>_. give True)
              | Sync_Stream action \<Rightarrow>
                  then_do (run_sync_stream P action (apply_forced perms req)) (\<lambda>_. give True)
              | Hijack action \<Rightarrow>
                  then_do (put_result (send_json (response_json P) (response_ok None))) (\<lambda>_.
                  then_do (run_hijack P ctx action) (\<lambda>_. give False)))))"

section \<open>The loop\<close>

definition serve_message :: "loop_params \<Rightarrow> server_context \<Rightarrow> client_info \<Rightarrow> bytes \<Rightarrow> bool io" where
  "serve_message P ctx client msg =
     (if ''binary-proto'' \<in> set (ci_caps client) \<and> msg \<noteq> [] \<and> hd msg \<noteq> 0x7B
      then then_do (binary_message P (permissions client) (hd msg) (tl msg)) (\<lambda>_. give True)
      else json_message P ctx client msg)"

lemma consumes_case [intro]:
  "(\<And>x. consumes (f x)) \<Longrightarrow> consumes g \<Longrightarrow> consumes (case opt of Some x \<Rightarrow> f x | None \<Rightarrow> g)"
  "(\<And>e. consumes (h e)) \<Longrightarrow> (\<And>x. consumes (f x)) \<Longrightarrow> consumes (case r of Inl e \<Rightarrow> h e | Inr x \<Rightarrow> f x)"
  "(\<And>a b. consumes (k a b)) \<Longrightarrow> consumes (case p of (a, b) \<Rightarrow> k a b)"
  "(\<And>x. consumes (f1 x)) \<Longrightarrow> (\<And>x. consumes (f2 x)) \<Longrightarrow> (\<And>x. consumes (f3 x)) \<Longrightarrow>
     consumes (case d of Response x \<Rightarrow> f1 x | Hijack x \<Rightarrow> f2 x | Sync_Stream x \<Rightarrow> f3 x)"
  by (auto split: option.split sum.split prod.split dispatch_result.split)

lemma consumes_push_chunks [intro]: "consumes (push_chunks acc)"
proof -
  have "length (inp (snd (push_chunks acc c))) \<le> length (inp c)" for acc c
  proof (induction acc c rule: push_chunks.induct)
    case (1 acc c)
    obtain r c' where r: "recv c = (r, c')" by (cases "recv c")
    moreover have "length (inp c') \<le> length (inp c)"
      using consumes_recv r by (metis consumes_def snd_conv)
    ultimately show ?case
      using 1 by (subst push_chunks.simps) (fastforce split: sum.splits)
  qed
  then show ?thesis by (simp add: consumes_def)
qed

lemma consumes_io_dispatch [intro]: "consumes (io_dispatch P req)"
  by (simp add: consumes_def io_dispatch_def split: prod.split)

lemma consumes_binary_message [intro]: "consumes (binary_message P perms t payload)"
  unfolding binary_message_def binary_exec_def binary_exec_stream_def binary_push_def binary_pull_def
    run_call_def Let_def split_beta
  by (intro consumes_if consumes_then_do consumes_case consumes_basic consumes_note_calls consumes_put_result
      consumes_push_chunks consumes_io_dispatch)

lemma consumes_json_message [intro]: "consumes (json_message P ctx client msg)"
proof -
  have h: "consumes (run_hijack P ctx a)" for a
    by (auto simp: consumes_def run_hijack_def split: hijack_action.split prod.split)
  have st: "consumes (run_sync_stream P a req)" for a req
    by (auto simp: consumes_def run_sync_stream_def split: prod.split)
  have sr: "consumes (send_resp P r z)" for r z by (auto simp: send_resp_def)
  show ?thesis
    unfolding json_message_def Let_def
    by (intro consumes_then_do consumes_case consumes_basic consumes_put_result consumes_io_dispatch h st sr)
qed

lemma consumes_serve_message: "consumes (serve_message P ctx client msg)"
  unfolding serve_message_def by auto

function request_loop :: "loop_params \<Rightarrow> server_context \<Rightarrow> client_info \<Rightarrow> unit io" where
  "request_loop P ctx client c =
     (case recv c of
        (Inl e, c1) \<Rightarrow> (Inr (), c1)
      | (Inr msg, c1) \<Rightarrow>
          (case serve_message P ctx client msg c1 of
             (Inl e, c2) \<Rightarrow> (Inl e, c2)
           | (Inr go_on, c2) \<Rightarrow> if go_on then request_loop P ctx client c2 else (Inr (), c2)))"
  by pat_completeness auto
termination
proof (relation "measure (\<lambda>(P, ctx, client, c). length (inp c))")
  fix P ctx client and c :: conn and r c1 msg r2 c2 go_on
  assume "(r, c1) = recv c" "r = Inr msg" "(r2, c2) = serve_message P ctx client msg c1"
  then have "length (inp c1) < length (inp c)" "length (inp c2) \<le> length (inp c1)"
    using consumes_serve_message [of P ctx client msg] recv_shrinks [of c msg c1]
    by (auto simp: consumes_def) (metis snd_conv)
  then show "((P, ctx, client, c2), P, ctx, client, c) \<in> measure (\<lambda>(P, ctx, client, c). length (inp c))"
    by simp
qed simp

declare request_loop.simps [simp del]

text \<open>\<open>handle_connection\<close>: \<open>now\<close> is read by the limiter, \<open>timed_out\<close> says that the handshake did not
  end within thirty seconds.\<close>

datatype conn_end = Rejected | Auth_Timeout | Auth_Refused err | Entered_Mux client_info | Served "unit result"

definition handle_connection ::
  "loop_params \<Rightarrow> auth_params \<Rightarrow> server_context \<Rightarrow> nat \<Rightarrow> 'ip option \<Rightarrow> bool \<Rightarrow> 'ip limiter \<Rightarrow> conn
     \<Rightarrow> conn_end \<times> 'ip limiter \<times> conn" where
  "handle_connection P A ctx now peer timed_out lim c =
     (let on_failure = (case peer of Some ip \<Rightarrow> snd (record_failure now ip lim) | None \<Rightarrow> lim) in
      if (case peer of Some ip \<Rightarrow> is_banned now ip lim | None \<Rightarrow> False) then (Rejected, lim, c)
      else if timed_out then (Auth_Timeout, on_failure, c)
      else case authenticate A ctx c of
             (Inl e, c') \<Rightarrow> (Auth_Refused e, on_failure, c')
           | (Inr client, c') \<Rightarrow>
               let lim' = (case peer of Some ip \<Rightarrow> record_success ip lim | None \<Rightarrow> lim)
               in if on_windows A \<and> ci_mux_enabled client then (Entered_Mux client, lim', c')
                  else case request_loop P ctx client c' of (r, c'') \<Rightarrow> (Served r, lim', c''))"

section \<open>What an operation may do\<close>

text \<open>\<open>effects Q R m\<close>: the calls \<open>m\<close> adds satisfy \<open>Q\<close>, the hijacked connections it adds satisfy \<open>R\<close>.\<close>

definition effects :: "(call \<Rightarrow> bool) \<Rightarrow> (hijack_action \<Rightarrow> bool) \<Rightarrow> 'a io \<Rightarrow> bool" where
  "effects Q R m \<longleftrightarrow> (\<forall>c. (\<exists>ks. calls (snd (m c)) = calls c @ ks \<and> list_all Q ks) \<and>
     (\<exists>hs. hijacked (snd (m c)) = hijacked c @ hs \<and> list_all R hs))"

lemma effects_then_do [intro]:
  assumes "effects Q R m" "\<And>x. effects Q R (f x)"
  shows "effects Q R (then_do m f)"
  unfolding effects_def
proof
  fix c
  obtain r c' where m: "m c = (r, c')" by (cases "m c")
  obtain ks hs where 1: "calls c' = calls c @ ks" "list_all Q ks" "hijacked c' = hijacked c @ hs" "list_all R hs"
    using assms(1) m by (metis effects_def snd_conv)
  have "(\<exists>ks. calls (snd (f x c')) = calls c' @ ks \<and> list_all Q ks) \<and>
     (\<exists>hs. hijacked (snd (f x c')) = hijacked c' @ hs \<and> list_all R hs)" for x
    using assms(2) by (simp add: effects_def)
  with 1 m show "(\<exists>ks. calls (snd (then_do m f c)) = calls c @ ks \<and> list_all Q ks) \<and>
     (\<exists>hs. hijacked (snd (then_do m f c)) = hijacked c @ hs \<and> list_all R hs)"
    by (cases r) (fastforce simp: then_do_def)+
qed

lemma effects_basic [simp, intro]:
  "effects Q R (give x)" "effects Q R (bail e)" "effects Q R (lift_result r)" "effects Q R (put_bytes bs)"
  "effects Q R recv" "list_all Q ks \<Longrightarrow> effects Q R (note_calls ks)"
  by (auto simp: effects_def give_def bail_def lift_result_def put_bytes_def recv_def note_calls_def split: sum.split)

lemma effects_put_result [simp, intro]: "effects Q R (put_result r)"
  unfolding put_result_def by (intro effects_then_do effects_basic)

lemma effects_if [intro]: "effects Q R a \<Longrightarrow> effects Q R b \<Longrightarrow> effects Q R (if t then a else b)"
  by simp

lemma effects_option [intro]:
  "(\<And>x. effects Q R (f x)) \<Longrightarrow> effects Q R g \<Longrightarrow> effects Q R (case opt of Some x \<Rightarrow> f x | None \<Rightarrow> g)"
  by (auto split: option.split)

text \<open>The handshake does nothing but talk, and spend a recovery code.\<close>

lemma effects_handshake: "effects (\<lambda>_. False) (\<lambda>_. False) (authenticate A ctx)"
proof -
  have fail: "effects Q R (send_auth_fail A ctx e b)" for Q R e b
    unfolding send_auth_fail_def by (intro effects_if effects_basic effects_put_result)
  have sig: "effects Q R (recv_signature A b)" for Q R b
    unfolding recv_signature_def recv_json_io_def by (intro effects_if effects_then_do effects_basic)
  have ch: "effects Q R (send_challenge A b)" "effects Q R (send_auth_ok A ctx b caps mux)" for Q R b caps mux
    unfolding send_challenge_def send_auth_ok_def by (intro effects_if effects_basic effects_put_result)+
  have rec: "effects Q R (use_recovery A code fp)" for Q R code fp
    by (auto simp: effects_def use_recovery_def split: option.split sum.split prod.split bool.split)
  have totp: "effects Q R (check_totp A ctx fp)" for Q R fp
    unfolding check_totp_def recv_json_io_def
    by (intro effects_option effects_then_do effects_if effects_basic effects_put_result rec)
  have prove: "effects Q R (prove_key A ctx h key)" for Q R h key
    unfolding prove_key_def Let_def
    by (intro effects_then_do effects_if effects_basic effects_put_result fail sig ch totp)
  have hello: "effects Q R (auth_hello_of A ctx m)" for Q R m
    unfolding auth_hello_of_def split_beta by (intro effects_if effects_then_do effects_basic effects_put_result)
  show ?thesis
    unfolding authenticate_def
    by (intro effects_then_do effects_if effects_option effects_basic fail prove hello)
qed

text \<open>C3. Nothing happens before the handshake succeeds: if a connection made any call into the server
  or was hijacked, its peer was not banned and its handshake had succeeded.\<close>

theorem effect_needs_authentication:
  assumes "handle_connection P A ctx now peer timed_out lim c = (e, lim', c')"
    and "calls c' \<noteq> calls c \<or> hijacked c' \<noteq> hijacked c"
  shows "(\<exists>info c1. authenticate A ctx c = (Inr info, c1)) \<and>
    (\<forall>ip. peer = Some ip \<longrightarrow> \<not> is_banned now ip lim)"
proof -
  obtain r c1 where a: "authenticate A ctx c = (r, c1)" by (cases "authenticate A ctx c")
  have "calls c1 = calls c" "hijacked c1 = hijacked c"
    using effects_handshake [of A ctx, unfolded effects_def, rule_format, of c] by (simp_all add: a list_all_iff)
  then show ?thesis
    using assms a by (auto simp: handle_connection_def Let_def split: if_splits sum.splits option.splits)
qed

section \<open>A JSON client does only what its key permits\<close>

definition native_call :: "call \<Rightarrow> bool" where
  "native_call k \<longleftrightarrow> (\<exists>V cmd argv. k \<in> set (snd (handle_native_command V cmd argv)))"

definition justified :: "key_permissions \<Rightarrow> call \<Rightarrow> bool" where
  "justified perms k \<longleftrightarrow> list_all (allows perms) (call_needs k) \<or> native_call k"

fun hijack_justified :: "key_permissions \<Rightarrow> server_context \<Rightarrow> hijack_action \<Rightarrow> bool" where
  "hijack_justified perms ctx (Connect target) =
     (allow_tunnel perms \<and> is_tunnel_allowed target (allowed_tunnels ctx) \<and> \<not> is_blocked_target target)"
| "hijack_justified perms ctx (Shell _ _) = allow_shell perms"
| "hijack_justified perms ctx (Shell_Persistent _ _ _ _) = allow_shell perms"

lemma dispatch_justified:
  assumes "check_permission F req perms = None" "dispatch V (apply_forced perms req) st = (r, st', ks)"
  shows "list_all (justified perms) ks \<and> list_all (allows perms) (result_needs r)"
proof (cases "req_type req = ''native''")
  case False
  from permitted_dispatch [OF assms(1) False, of V st] assms(2) show ?thesis
    by (auto simp: permitted_def justified_def list_all_iff)
next
  case True
  then have "apply_forced perms req = req" by (auto simp: apply_forced_def split: option.split)
  with True assms(2) show ?thesis
    by (auto simp: dispatch_def reply_def respond_def justified_def native_call_def list_all_iff split: list.splits)
qed

lemma effects_run_hijack:
  "list_all (allows perms) (result_needs (Hijack a)) \<Longrightarrow> effects Q (hijack_justified perms ctx) (run_hijack P ctx a)"
  by (cases a) (auto simp: effects_def run_hijack_def split: prod.split)

lemma effects_json_message:
  "effects (justified (permissions client)) (hijack_justified (permissions client) ctx) (json_message P ctx client msg)"
  (is "effects ?Q ?R _")
proof -
  let ?p = "permissions client"
  have resp: "effects ?Q ?R (send_resp P r z)" for r z unfolding send_resp_def by (rule effects_put_result)
  have sync: "effects ?Q ?R (run_sync_stream P a req)" if "list_all (allows ?p) (result_needs (Sync_Stream a))" for a req
    using that by (cases a) (auto simp: effects_def run_sync_stream_def justified_def split: prod.split)
  have disp: "effects ?Q ?R (then_do (io_dispatch P (apply_forced ?p req)) k)"
    if "check_permission (lp_features P) req ?p = None"
      "\<And>r. list_all (allows ?p) (result_needs r) \<Longrightarrow> effects ?Q ?R (k r)" for req and k :: "dispatch_result \<Rightarrow> bool io"
    unfolding effects_def
  proof
    fix c :: conn
    obtain r st ks where d: "dispatch (lp_env P) (apply_forced ?p req) (store c) = (r, st, ks)"
      by (cases "dispatch (lp_env P) (apply_forced ?p req) (store c)")
    note j = dispatch_justified [OF that(1) d]
    let ?c = "c\<lparr>store := st, calls := calls c @ ks\<rparr>"
    have "then_do (io_dispatch P (apply_forced ?p req)) k c = k r ?c"
      by (simp add: then_do_def io_dispatch_def d)
    moreover have "(\<exists>ks'. calls (snd (k r ?c)) = calls ?c @ ks' \<and> list_all ?Q ks') \<and>
       (\<exists>hs. hijacked (snd (k r ?c)) = hijacked ?c @ hs \<and> list_all ?R hs)"
      using that(2) [of r] j unfolding effects_def by blast
    ultimately show "(\<exists>ks. calls (snd (then_do (io_dispatch P (apply_forced ?p req)) k c)) = calls c @ ks \<and> list_all ?Q ks) \<and>
        (\<exists>hs. hijacked (snd (then_do (io_dispatch P (apply_forced ?p req)) k c)) = hijacked c @ hs \<and> list_all ?R hs)"
      using j by auto
  qed
  have branch: "effects ?Q ?R (case r of
      Response resp \<Rightarrow> then_do (send_resp P resp z) (\<lambda>_. give True)
    | Sync_Stream action \<Rightarrow> then_do (run_sync_stream P action req) (\<lambda>_. give True)
    | Hijack action \<Rightarrow> then_do (put_result (send_json (response_json P) (response_ok None))) (\<lambda>_.
        then_do (run_hijack P ctx action) (\<lambda>_. give False)))"
    if "list_all (allows ?p) (result_needs r)" for r z req
    using that resp sync effects_run_hijack
    by (cases r) (auto intro!: effects_then_do effects_basic effects_put_result)
  show ?thesis
    unfolding json_message_def Let_def
    by (intro effects_then_do effects_basic) (auto split: option.split intro!: effects_then_do effects_basic resp disp branch)
qed

lemma effects_D:
  assumes "effects Q R m" "m c = (r, c')"
  obtains ks hs where "calls c' = calls c @ ks" "list_all Q ks" "hijacked c' = hijacked c @ hs" "list_all R hs"
  using assms by (metis effects_def snd_conv)

lemma effects_request_loop:
  assumes "''binary-proto'' \<notin> set (ci_caps client)"
  shows "effects (justified (permissions client)) (hijack_justified (permissions client) ctx) (request_loop P ctx client)"
  (is "effects ?Q ?R _")
  unfolding effects_def
proof
  fix c
  show "(\<exists>ks. calls (snd (request_loop P ctx client c)) = calls c @ ks \<and> list_all ?Q ks) \<and>
    (\<exists>hs. hijacked (snd (request_loop P ctx client c)) = hijacked c @ hs \<and> list_all ?R hs)"
    using assms
  proof (induction P ctx client c rule: request_loop.induct)
    case (1 P ctx client c)
    let ?Q = "justified (permissions client)" and ?R = "hijack_justified (permissions client) ctx"
    have m: "effects ?Q ?R (serve_message P ctx client msg)" for msg
      using 1(2) effects_json_message by (simp add: serve_message_def)
    obtain r c1 where r: "recv c = (r, c1)" by (cases "recv c")
    then have c1: "calls c1 = calls c" "hijacked c1 = hijacked c"
      by (auto simp: recv_def split: sum.splits prod.splits)
    show ?case
    proof (cases r)
      case (Inl e)
      with r c1 show ?thesis by (subst (1 2) request_loop.simps) simp
    next
      case (Inr msg)
      obtain g c2 where g: "serve_message P ctx client msg c1 = (g, c2)" by (cases "serve_message P ctx client msg c1")
      obtain ks hs where e: "calls c2 = calls c @ ks" "list_all ?Q ks" "hijacked c2 = hijacked c @ hs" "list_all ?R hs"
        using effects_D [OF m g] c1 by metis
      show ?thesis
      proof (cases "g = Inr True")
        case True
        from 1(1) [OF r [symmetric] Inr g [symmetric] True] 1(2) e have
          "(\<exists>ks. calls (snd (request_loop P ctx client c2)) = calls c @ ks \<and> list_all ?Q ks) \<and>
            (\<exists>hs. hijacked (snd (request_loop P ctx client c2)) = hijacked c @ hs \<and> list_all ?R hs)"
          by fastforce
        moreover have "request_loop P ctx client c = request_loop P ctx client c2"
          using r Inr g True by (subst request_loop.simps) simp
        ultimately show ?thesis by simp
      next
        case False
        then have "snd (request_loop P ctx client c) = c2"
          using r Inr g by (subst request_loop.simps) (auto split: sum.split)
        with e show ?thesis by auto
      qed
    qed
  qed
qed

text \<open>C4. In the request loop, which a connection reaches that is not multiplexed, a client that did not negotiate
  the binary protocol does only what its key permits: every call its messages cause, the streams of a delta pull, a chunked
  push and a binary batch among them, needs only capabilities of the key or is one of the fixed \<open>native\<close>
  commands, tunnels are opened only with the tunnel capability and to targets that pass the rules and the
  metadata block, shells only with the shell capability.\<close>

theorem json_client_confined:
  assumes "''binary-proto'' \<notin> set (ci_caps client)" "request_loop P ctx client c = (r, c')"
  shows "\<exists>ks hs. calls c' = calls c @ ks \<and> list_all (justified (permissions client)) ks \<and>
    hijacked c' = hijacked c @ hs \<and> list_all (hijack_justified (permissions client) ctx) hs"
  using effects_D [OF effects_request_loop [OF assms(1)] assms(2)] by metis

definition empty_conn :: "bytes \<Rightarrow> conn" where
  "empty_conn s = \<lparr>inp = s, outp = [], store = [], calls = [], recovery = None, hijacked = []\<rparr>"

definition sample_loop :: loop_params where
  "sample_loop = \<lparr>lp_features = open_build, lp_env = sample_server,
     request_json = (\<lambda>b. Some (plain_request (str_of_bytes b) None)), response_json = (\<lambda>_. Some []),
     zstd_encode = (\<lambda>b. Some b), fs_write = (\<lambda>_ _. None), fs_read = (\<lambda>_. Inr [1, 2]), missing_parent = (\<lambda>_. None),
     exec_child = (\<lambda>_. Inl []), log_query_reply = (\<lambda>_. Inr []), sync_io = (\<lambda>_ _ _. (0, [])),
     lp_b64_decode = (\<lambda>_. None), fresh_session = ''s''\<rparr>"

definition json_client :: "key_permissions \<Rightarrow> client_info" where
  "json_client p = \<lparr>ci_key_comment = None, client_version = None, ci_caps = [], permissions = p, ci_mux_enabled = False\<rparr>"

theorem json_client_confined_witness:
  "\<exists>c' ks. request_loop sample_loop sample_context (json_client restricted)
       (empty_conn (send_message (as_bytes ''shell''))) = (Inr (), c') \<and>
     calls c' = [] @ ks \<and> list_all (justified restricted) ks"
proof -
  obtain r c' where l: "request_loop sample_loop sample_context (json_client restricted)
       (empty_conn (send_message (as_bytes ''shell''))) = (r, c')"
    by (cases "request_loop sample_loop sample_context (json_client restricted)
       (empty_conn (send_message (as_bytes ''shell'')))")
  have "fst (request_loop sample_loop sample_context (json_client restricted)
       (empty_conn (send_message (as_bytes ''shell'')))) = Inr ()" by code_simp
  with l json_client_confined [OF _ l] show ?thesis
    by (auto simp: json_client_def empty_conn_def)
qed

section \<open>The binary protocol is not confined\<close>

text \<open>C39. The binary messages never ask for permission: a client with the binary protocol whose key is
  restricted to nothing has commands executed, files read and written, and the binary replaced.\<close>

theorem binary_unchecked:
  assumes "''binary-proto'' \<in> set (ci_caps client)" "permissions client = restricted" "str_fits cmd" "str_fits path"
    and "missing_parent P path = None" "inp c = send_msg PUSH_DATA data @ send_msg PUSH_END [] @ rest"
    and "length data < 52428800"
  shows "calls (snd (serve_message P ctx client (EXEC # build_exec cmd []) c)) = calls c @ [Call_Exec cmd []] \<and>
    calls (snd (serve_message P ctx client (PULL_REQ # build_pull_req path) c)) = calls c @ [Call_Read_File path] \<and>
    calls (snd (serve_message P ctx client (SELF_UPDATE # build_pull_req path) c)) = calls c @ [Call_Self_Update path] \<and>
    calls (snd (serve_message P ctx client (PUSH_START # build_push_start 0 path) c)) = calls c @ [Call_Write_File path data]"
proof -
  have exec: "parse_exec (build_exec cmd []) = Inr (cmd, [])" using parse_build_exec [of cmd "[]"] assms(3) by simp
  have pull: "parse_pull_req (build_pull_req path) = Inr path"
    using assms(4) by (simp add: parse_pull_req_def build_pull_req_def decode_encode_str_alone)
  have push: "parse_push_start (build_push_start 0 path) = Inr (0, path)"
    using assms(4) by (rule parse_build_push_start)
  have chunks: "push_chunks [] c = (Inr data, c\<lparr>inp := rest\<rparr>)"
    using assms(6,7) recv_send_message [of "PUSH_DATA # data" "send_msg PUSH_END [] @ rest"]
      recv_send_message [of "[PUSH_END]" rest]
    by (simp add: push_chunks.simps recv_def send_msg_def wire_sendable_def msg_ids)
  show ?thesis
    using assms(1,2,5) exec pull push chunks
    by (simp add: serve_message_def binary_message_def binary_exec_def binary_pull_def binary_push_def run_call_def
        effective_command_def restricted_def then_do_def note_calls_def give_def put_bytes_def Let_def msg_ids
        lift_result_def split: sum.split option.split)
qed

definition binary_client :: "key_permissions \<Rightarrow> client_info" where
  "binary_client p = (json_client p)\<lparr>ci_caps := [''binary-proto'']\<rparr>"

theorem binary_unchecked_witness:
  "calls (snd (serve_message sample_loop sample_context (binary_client restricted) (EXEC # build_exec ''id'' [])
     (empty_conn (send_msg PUSH_DATA [1] @ send_msg PUSH_END [] @ [])))) = [Call_Exec ''id'' []]"
proof -
  let ?c = "empty_conn (send_msg PUSH_DATA [1] @ send_msg PUSH_END [] @ [])"
  have "is_ascii ''id''" by code_simp
  then have "str_fits ''id''" by (simp add: str_fits_def)
  moreover have "''binary-proto'' \<in> set (ci_caps (binary_client restricted))"
    "permissions (binary_client restricted) = restricted"
    "missing_parent sample_loop ''id'' = None" "inp ?c = send_msg PUSH_DATA [1] @ send_msg PUSH_END [] @ []"
    by (simp_all add: binary_client_def json_client_def sample_loop_def empty_conn_def)
  ultimately show ?thesis
    using binary_unchecked [of "binary_client restricted" "''id''" "''id''" sample_loop ?c "[1]" "[]" sample_context]
    by (simp add: empty_conn_def)
qed

theorem effect_needs_authentication_witness:
  "\<exists>info c1. authenticate sample_auth sample_context (sample_conn (send_message (as_bytes ''ls''))) = (Inr info, c1)"
proof -
  let ?c = "sample_conn (send_message (as_bytes ''ls''))"
  let ?h = "handle_connection sample_loop sample_auth sample_context 0 (None :: unit option) False limiter_new ?c"
  have "calls (snd (snd ?h)) \<noteq> calls ?c" by code_simp
  moreover obtain e lim c' where h: "?h = (e, lim, c')" by (cases ?h)
  ultimately show ?thesis using effect_needs_authentication [OF h] by simp
qed

section \<open>Pushing and pulling files\<close>

lemma push_chunks_data:
  "list_all (\<lambda>d. length d < 52428800) ds \<Longrightarrow>
    push_chunks acc (c\<lparr>inp := concat (map (send_msg PUSH_DATA) ds) @ rest\<rparr>) = push_chunks (acc @ concat ds) (c\<lparr>inp := rest\<rparr>)"
proof (induction ds arbitrary: acc)
  case (Cons d ds)
  let ?r = "concat (map (send_msg PUSH_DATA) ds) @ rest"
  have "recv (c\<lparr>inp := send_message (PUSH_DATA # d) @ ?r\<rparr>) = (Inr (PUSH_DATA # d), c\<lparr>inp := ?r\<rparr>)"
    using Cons.prems by (intro recv_frame) (simp add: wire_sendable_def)
  then have "push_chunks acc (c\<lparr>inp := send_message (PUSH_DATA # d) @ ?r\<rparr>) = push_chunks (acc @ d) (c\<lparr>inp := ?r\<rparr>)"
    by (subst push_chunks.simps) simp
  moreover have "send_msg PUSH_DATA d = send_message (PUSH_DATA # d)" by (simp add: send_msg_def)
  ultimately show ?case using Cons by simp
qed simp

lemma push_chunks_end:
  "push_chunks acc (c\<lparr>inp := send_msg PUSH_END [] @ rest\<rparr>) = (Inr acc, c\<lparr>inp := rest\<rparr>)"
  using recv_frame [of "[PUSH_END]" rest c]
  by (subst push_chunks.simps) (simp add: send_msg_def wire_sendable_def msg_ids)

text \<open>A binary push stores what was sent: after data messages of any number and an end message, the
  file written is the concatenation of their payloads, the answer is the success message, and the
  messages that follow are untouched.\<close>

theorem binary_push_stores:
  assumes "parse_push_start payload = Inr (n, path)" "missing_parent P path = None" "fs_write P path (concat ds) = None"
    and "list_all (\<lambda>d. length d < 52428800) ds"
    and "inp c = concat (map (send_msg PUSH_DATA) ds) @ send_msg PUSH_END [] @ rest"
  shows "binary_push P payload c =
    (Inr (), c\<lparr>inp := rest, calls := calls c @ [Call_Write_File path (concat ds)], outp := outp c @ send_empty PUSH_OK\<rparr>)"
proof -
  have "c = c\<lparr>inp := concat (map (send_msg PUSH_DATA) ds) @ send_msg PUSH_END [] @ rest\<rparr>" using assms(5) by simp
  then have "push_chunks [] c = (Inr (concat ds), c\<lparr>inp := rest\<rparr>)"
    using push_chunks_data [OF assms(4), of "[]" "send_msg PUSH_END [] @ rest" c] push_chunks_end [of "concat ds" rest c] by simp
  with assms(1-3) show ?thesis
    by (simp add: binary_push_def then_do_def give_def note_calls_def put_bytes_def)
qed

theorem binary_push_stores_witness:
  "calls (snd (binary_push sample_loop (build_push_start 3 ''f'')
     (empty_conn (concat (map (send_msg PUSH_DATA) [[1, 2], [3]]) @ send_msg PUSH_END [] @ []))))
   = [Call_Write_File ''f'' [1, 2, 3]]"
proof -
  let ?c = "empty_conn (concat (map (send_msg PUSH_DATA) [[1, 2], [3]]) @ send_msg PUSH_END [] @ [])"
  have "is_ascii ''f''" by code_simp
  then have "parse_push_start (build_push_start 3 ''f'') = Inr (3, ''f'')"
    by (intro parse_build_push_start) (simp add: str_fits_def)
  moreover have "missing_parent sample_loop ''f'' = None" "fs_write sample_loop ''f'' (concat [[1, 2], [3]]) = None"
    "inp ?c = concat (map (send_msg PUSH_DATA) [[1, 2], [3]]) @ send_msg PUSH_END [] @ []"
    by (simp_all add: sample_loop_def empty_conn_def)
  ultimately show ?thesis
    using binary_push_stores [of "build_push_start 3 ''f''" 3 "''f''" sample_loop "[[1, 2], [3]]" ?c "[]"]
    by (simp add: empty_conn_def)
qed

text \<open>A push that goes wrong is reported and then confirmed all the same: at a message of another
  type the part received so far is written to the file, and the error message is followed by the
  success message.\<close>

theorem binary_push_confirms_error:
  assumes "parse_push_start payload = Inr (n, path)" "missing_parent P path = None" "fs_write P path (concat ds) = None"
    and "list_all (\<lambda>d. length d < 52428800) ds" "t \<noteq> PUSH_DATA" "t \<noteq> PUSH_END"
    and "inp c = concat (map (send_msg PUSH_DATA) ds) @ send_msg t [] @ rest"
  shows "\<exists>err. binary_push P payload c =
    (Inr (), c\<lparr>inp := rest, calls := calls c @ [Call_Write_File path (concat ds)],
       outp := outp c @ send_msg ERROR err @ send_empty PUSH_OK\<rparr>)"
proof -
  have "c = c\<lparr>inp := concat (map (send_msg PUSH_DATA) ds) @ send_msg t [] @ rest\<rparr>" using assms(7) by simp
  then have "push_chunks [] c = push_chunks (concat ds) (c\<lparr>inp := send_msg t [] @ rest\<rparr>)"
    using push_chunks_data [OF assms(4), of "[]" "send_msg t [] @ rest" c] by simp
  also have "\<dots> = (Inr (concat ds), c\<lparr>inp := rest, outp := outp c @ send_msg ERROR
      (build_error (''unexpected msg 0x'' @ hex_byte t @ '' during push''))\<rparr>)"
    using recv_frame [of "[t]" rest c] assms(5,6)
    by (subst push_chunks.simps) (simp add: send_msg_def wire_sendable_def)
  finally show ?thesis
    using assms(1-3)
    by (intro exI [of _ "build_error (''unexpected msg 0x'' @ hex_byte t @ '' during push'')"])
      (simp add: binary_push_def then_do_def give_def note_calls_def put_bytes_def)
qed

text \<open>A binary pull delivers the file: the client reads data messages whose payloads together are
  the file's content, and then the end message, with nothing left over.\<close>

theorem binary_pull_delivers:
  assumes "parse_pull_req payload = Inr path" "fs_read P path = Inr data"
  shows "\<exists>out ds. outp (snd (binary_pull P payload c)) = outp c @ out \<and>
    recv_n recv_msg (length ds + 1) out = Inr (map (Pair PULL_DATA) ds @ [(PULL_END, [])], []) \<and> concat ds = data"
proof -
  let ?ds = "chunks PULL_CHUNK data"
  let ?ms = "map (Pair PULL_DATA) ?ds @ [(PULL_END, [])]"
  have "list_all msg_sendable ?ms"
    using chunks_length [of PULL_CHUNK data] by (auto simp: list_all_iff msg_sendable_def PULL_CHUNK_def)
  note msgs.recv_n_stream [OF this, of "[]"]
  moreover have "concat (map (\<lambda>m. send_msg (fst m) (snd m)) ?ms) = concat (map (send_msg PULL_DATA) ?ds) @ send_empty PULL_END"
    by (simp add: comp_def send_msg_def [of PULL_END] send_empty_def)
  moreover have "concat ?ds = data" by (rule concat_chunks) (simp add: PULL_CHUNK_def)
  ultimately show ?thesis
    using assms by (intro exI [of _ "concat (map (send_msg PULL_DATA) ?ds) @ send_empty PULL_END"] exI [of _ ?ds])
      (simp add: binary_pull_def then_do_def note_calls_def put_bytes_def give_def)
qed

theorem binary_push_confirms_error_witness:
  "\<exists>err. outp (snd (binary_push sample_loop (build_push_start 3 ''f'')
     (empty_conn (concat (map (send_msg PUSH_DATA) [[1]]) @ send_msg PING [] @ [])))) = send_msg ERROR err @ send_empty PUSH_OK"
proof -
  let ?c = "empty_conn (concat (map (send_msg PUSH_DATA) [[1]]) @ send_msg PING [] @ [])"
  have "is_ascii ''f''" by code_simp
  then have "parse_push_start (build_push_start 3 ''f'') = Inr (3, ''f'')"
    by (intro parse_build_push_start) (simp add: str_fits_def)
  moreover have "missing_parent sample_loop ''f'' = None" "fs_write sample_loop ''f'' (concat [[1]]) = None"
    "inp ?c = concat (map (send_msg PUSH_DATA) [[1]]) @ send_msg PING [] @ []" "PING \<noteq> PUSH_DATA" "PING \<noteq> PUSH_END"
    by (simp_all add: sample_loop_def empty_conn_def msg_ids)
  ultimately show ?thesis
    using binary_push_confirms_error [of "build_push_start 3 ''f''" 3 "''f''" sample_loop "[[1]]" PING ?c "[]"]
    by (auto simp: empty_conn_def)
qed

theorem binary_pull_delivers_witness:
  "\<exists>out ds. outp (snd (binary_pull sample_loop (build_pull_req ''f'') (empty_conn []))) = out \<and> concat ds = [1, 2]
     \<and> recv_n recv_msg (length ds + 1) out = Inr (map (Pair PULL_DATA) ds @ [(PULL_END, [])], [])"
proof -
  have "is_ascii ''f''" by code_simp
  then have "parse_pull_req (build_pull_req ''f'') = Inr ''f''"
    by (simp add: parse_pull_req_def build_pull_req_def decode_encode_str_alone str_fits_def)
  moreover have "fs_read sample_loop ''f'' = Inr [1, 2]" by (simp add: sample_loop_def)
  ultimately show ?thesis
    using binary_pull_delivers [of "build_pull_req ''f''" "''f''" sample_loop "[1, 2]" "empty_conn []"]
    by (auto simp: empty_conn_def)
qed

end
