(* ===== verification/Client_Session.thy ===== *)
theory Client_Session
  imports Request_Loop
begin

text \<open>
  The client's end of a connection, \<open>mrsh-client/src/client.rs\<close>: where a target leads, the handshake in
  the binary protocol and with a password, commands, streamed commands and files as binary messages.
  It is put together with the server's side, \<open>Handshake\<close> and \<open>Request_Loop\<close>: each is run on what the
  other one writes. Signing, JSON and the reads of a local file are parameters.
\<close>

record rsh_client = stream +
  cl_version :: "string option"
  cl_caps :: "string list"
  cl_mux :: bool
  cl_device :: "string option"
  cl_rendezvous :: "string option"

type_synonym 'a sess = "(rsh_client, 'a) act"

definition CLIENT_CAPS :: "string list" where
  "CLIENT_CAPS = [''bin-patch'', ''shell'', ''self-update'', ''zstd'', ''binary-proto'']"

section \<open>Targets\<close>

datatype target = Tcp string | Fs string

text \<open>The Unix build: the path after \<open>fs://\<close>, with or without its leading slash.\<close>

definition parse_target :: "string \<Rightarrow> target" where
  "parse_target host =
     (if starts_with host ''fs://'' then
        let rest = drop 5 host
        in Fs (if starts_with rest ''/'' then ''/'' @ drop 1 rest else rest)
      else Tcp host)"

definition rsplit_once :: "char \<Rightarrow> string \<Rightarrow> (string \<times> string) option" where
  "rsplit_once c s =
     (if c \<in> set s then Some (rev (tl (dropWhile (\<lambda>x. x \<noteq> c) (rev s))), rev (takeWhile (\<lambda>x. x \<noteq> c) (rev s))) else None)"

definition strip_brackets :: "string \<Rightarrow> string" where
  "strip_brackets s = rev (dropWhile ((=) (CHR '']'')) (rev (dropWhile ((=) (CHR ''['')) s)))"

definition tls_host_name :: "string \<Rightarrow> string" where
  "tls_host_name host =
     strip_brackets (case rsplit_once (CHR ''%'') host of Some (h, _) \<Rightarrow> h | None \<Rightarrow> host)"

definition parse_ipv6 :: "string \<Rightarrow> u16 list option" where
  "parse_ipv6 s = (case read_ipv6_addr s of Some (gs, []) \<Rightarrow> Some gs | _ \<Rightarrow> None)"

text \<open>Address, port and scope; \<open>if_index\<close> is \<open>if_nametoindex\<close>, 0 for a name that is no interface.\<close>

definition parse_ipv6_host :: "(string \<Rightarrow> nat) \<Rightarrow> string \<Rightarrow> u16 \<Rightarrow> (u16 list \<times> u16 \<times> nat) option" where
  "parse_ipv6_host if_index host port =
     (if CHR ''%'' \<in> set host then
        (case rsplit_once (CHR ''%'') host of
           None \<Rightarrow> None
         | Some (ip_part, scope_part) \<Rightarrow>
             map_option (\<lambda>ip. (ip, port, case parse_uint (2 ^ 32) scope_part of Some n \<Rightarrow> n | None \<Rightarrow> if_index scope_part))
               (parse_ipv6 (strip_brackets ip_part)))
      else if starts_with host ''['' then map_option (\<lambda>ip. (ip, port, 0)) (parse_ipv6 (strip_brackets host))
      else map_option (\<lambda>ip. (ip, port, 0)) (parse_ipv6 host))"

section \<open>Authentication\<close>

definition recv_typed :: "(byte \<times> bytes) sess" where
  "recv_typed = then_do recv (\<lambda>m. if m = [] then bail EmptyMessage else give (hd m, tl m))"

definition error_text :: "bytes \<Rightarrow> string" where
  "error_text data = (case parse_error data of Inr e \<Rightarrow> e | Inl _ \<Rightarrow> [])"

definition unexpected :: "byte \<Rightarrow> string \<Rightarrow> err" where
  "unexpected t what = Failed (''unexpected message type 0x'' @ hex_byte t @ what)"

definition note_auth_ok :: "auth_ok_fields \<Rightarrow> unit sess" where
  "note_auth_ok f c = (Inr (), c\<lparr>cl_version := Some (aok_version f), cl_caps := aok_caps f,
     cl_device := aok_device_id f, cl_rendezvous := aok_rendezvous_server f\<rparr>)"

definition authenticate_binary :: "string \<Rightarrow> bytes \<Rightarrow> (bytes \<Rightarrow> bytes) \<Rightarrow> unit sess" where
  "authenticate_binary version pub_key sign =
     then_do (put_bytes (send_msg AUTH_REQUEST (build_auth_request pub_key version CLIENT_CAPS))) (\<lambda>_.
     then_do recv_typed (\<lambda>(t, challenge).
       if t = AUTH_CHALLENGE then
         if length challenge \<noteq> 32 then bail (Failed (''invalid challenge size: '' @ show_nat (length challenge)))
         else
           then_do (put_bytes (send_msg AUTH_RESPONSE (sign challenge))) (\<lambda>_.
           then_do recv_typed (\<lambda>(t, result_data).
             if t = AUTH_OK then then_do (lift_result (parse_auth_ok_full result_data)) note_auth_ok
             else if t = AUTH_FAIL then bail (Failed (''authentication failed: '' @ error_text result_data))
             else if t = TOTP_CHALLENGE then bail (Failed ''TOTP over binary protocol not yet supported'')
             else bail (unexpected t '' after signature'')))
       else if t = AUTH_FAIL then bail (Failed (''auth rejected: '' @ error_text challenge))
       else bail (unexpected t '' during auth'')))"

definition password_request :: "string \<Rightarrow> string \<Rightarrow> string \<Rightarrow> auth_request" where
  "password_request version username password =
     \<lparr>auth_type = ''password'', aq_public_key = None, aq_key_type = None, aq_username = Some username,
      aq_password = Some password, aq_version = Some version, want_mux = None, aq_caps = Some CLIENT_CAPS\<rparr>"

definition note_result :: "auth_result \<Rightarrow> unit sess" where
  "note_result r c = (Inr (), c\<lparr>cl_version := au_version r,
     cl_caps := (case au_caps r of Some cs \<Rightarrow> cs | None \<Rightarrow> []), cl_mux := (mux_enabled r = Some True),
     cl_device := au_device_id r, cl_rendezvous := au_rendezvous_server r\<rparr>)"

definition auth_password ::
  "(auth_request \<Rightarrow> bytes option) \<Rightarrow> (bytes \<Rightarrow> auth_result option) \<Rightarrow> string \<Rightarrow> string \<Rightarrow> string \<Rightarrow> unit sess" where
  "auth_password ser de version username password =
     then_do (put_result (send_json ser (password_request version username password))) (\<lambda>_.
     then_do recv (\<lambda>m.
     then_do (lift_result (ok_or Deserialize (de m))) (\<lambda>result.
       if \<not> au_success result
       then bail (Failed (''password authentication failed: '' @ or_empty (au_error result)))
       else note_result result)))"

text \<open>The choice \<open>connect\<close> makes on the TLS stream: the password when a user is named and a password could
  be read, the key otherwise. \<open>keys\<close> is the key pair found, its public bytes and its signer.\<close>

definition connect_auth ::
  "(auth_request \<Rightarrow> bytes option) \<Rightarrow> (bytes \<Rightarrow> auth_result option) \<Rightarrow> string \<Rightarrow> string option \<Rightarrow> string option
     \<Rightarrow> (bytes \<times> (bytes \<Rightarrow> bytes)) result \<Rightarrow> unit sess" where
  "connect_auth ser de version user password keys =
     (case (user, password) of
        (Some u, Some pw) \<Rightarrow> auth_password ser de version u pw
      | _ \<Rightarrow> then_do (lift_result keys) (\<lambda>(pub_key, sign). authenticate_binary version pub_key sign))"

definition supports :: "string \<Rightarrow> rsh_client \<Rightarrow> bool" where
  "supports cap c \<longleftrightarrow> cap \<in> set (cl_caps c)"

definition is_linux :: "rsh_client \<Rightarrow> bool" where
  "is_linux c \<longleftrightarrow> supports ''linux'' c \<or> \<not> supports ''window'' c \<and> \<not> supports ''tray'' c \<and> \<not> supports ''system'' c"

section \<open>Commands and files\<close>

definition exec_binary :: "string \<Rightarrow> string list \<Rightarrow> (u32 \<times> bytes) sess" where
  "exec_binary command env_vars =
     then_do (put_bytes (send_msg EXEC (build_exec command env_vars))) (\<lambda>_.
     then_do recv_typed (\<lambda>(t, data).
       if t = EXEC_RESULT then lift_result (parse_exec_result data)
       else if t = ERROR then bail (Failed (''exec error: '' @ error_text data))
       else bail (unexpected t '' for EXEC'')))"

text \<open>The streamed command: what is printed to the two outputs, and the exit code as an \<open>i32\<close>.\<close>

record streamed =
  st_stdout :: bytes
  st_stderr :: bytes
  st_code :: int

definition exit_code_of :: "bytes \<Rightarrow> int" where
  "exit_code_of data = (if 4 \<le> length data then sint (word_of_nat (from_le (take 4 data)) :: u32) else 1)"

function exec_stream_loop :: "bytes \<Rightarrow> bytes \<Rightarrow> streamed sess" where
  "exec_stream_loop out err c =
     (case recv_typed c of
        (Inl e, c') \<Rightarrow> (Inl e, c')
      | (Inr (t, data), c') \<Rightarrow>
          if t = EXEC_STDOUT then exec_stream_loop (out @ data) err c'
          else if t = EXEC_STDERR then exec_stream_loop out (err @ data) c'
          else if t = EXEC_EXIT then (Inr \<lparr>st_stdout = out, st_stderr = err, st_code = exit_code_of data\<rparr>, c')
          else if t = ERROR then (Inl (Failed (''exec error: '' @ error_text data)), c')
          else exec_stream_loop out err c')"
  by pat_completeness auto

lemma recv_typed_shrinks: "recv_typed c = (Inr x, c') \<Longrightarrow> length (inp c') < length (inp c)"
  by (auto simp: recv_typed_def then_do_Inr bail_def give_def split: if_splits dest: recv_shrinks)

termination exec_stream_loop
  by (relation "measure (\<lambda>(a, b, c). length (inp c))") (auto dest: recv_typed_shrinks [OF sym])

declare exec_stream_loop.simps [simp del]

definition exec_stream :: "string \<Rightarrow> string list \<Rightarrow> streamed sess" where
  "exec_stream command env_vars =
     then_do (put_bytes (send_msg EXEC_STREAM (build_exec command env_vars))) (\<lambda>_. exec_stream_loop [] [])"

text \<open>\<open>reads\<close> is what each \<open>read\<close> of the file into the buffer of 10 MB gives, or why the file cannot be
  opened.\<close>

fun push_data :: "(string + bytes) list \<Rightarrow> nat \<Rightarrow> nat sess" where
  "push_data [] sent = give sent"
| "push_data (Inl e # reads) sent = bail (Failed (''read chunk: '' @ e))"
| "push_data (Inr d # reads) sent =
     (if d = [] then give sent
      else then_do (put_bytes (send_msg PUSH_DATA d)) (\<lambda>_. push_data reads (sent + length d)))"

definition push_binary :: "nat option \<Rightarrow> string + (string + bytes) list \<Rightarrow> string \<Rightarrow> nat sess" where
  "push_binary file_size file remote_path =
     then_do (lift_result (ok_or (Failed ''stat local file'') file_size)) (\<lambda>n.
     then_do (put_bytes (send_msg PUSH_START (build_push_start (word_of_nat n) remote_path))) (\<lambda>_.
     then_do (case file of Inl e \<Rightarrow> bail (Failed (''open file: '' @ e)) | Inr reads \<Rightarrow> push_data reads 0) (\<lambda>total.
     then_do (put_bytes (send_empty PUSH_END)) (\<lambda>_.
     then_do recv_typed (\<lambda>(t, data).
       if t = PUSH_OK then give total
       else if t = ERROR then bail (Failed (''push error: '' @ error_text data))
       else bail (unexpected t '' for PUSH''))))))"

function pull_data_loop :: "bytes \<Rightarrow> bytes sess" where
  "pull_data_loop acc c =
     (case recv_typed c of
        (Inl e, c') \<Rightarrow> (Inl e, c')
      | (Inr (t, chunk), c') \<Rightarrow>
          if t = PULL_DATA then pull_data_loop (acc @ chunk) c'
          else if t = PULL_END then (Inr acc, c')
          else if t = ERROR then (Inl (Failed (''pull error: '' @ error_text chunk)), c')
          else (Inl (unexpected t '' for PULL''), c'))"
  by pat_completeness auto
termination
  by (relation "measure (\<lambda>(a, c). length (inp c))") (auto dest: recv_typed_shrinks [OF sym])

declare pull_data_loop.simps [simp del]

definition pull_binary :: "string \<Rightarrow> bytes sess" where
  "pull_binary remote_path =
     then_do (put_bytes (send_msg PULL_REQ (build_pull_req remote_path))) (\<lambda>_. pull_data_loop [])"

definition ping_binary :: "unit sess" where
  "ping_binary =
     then_do (put_bytes (send_empty PING)) (\<lambda>_.
     then_do recv_typed (\<lambda>(t, _).
       if t \<noteq> PONG then bail (Failed (''expected PONG, got 0x'' @ hex_byte t)) else give ()))"

section \<open>Reading what was written\<close>

lemma recv_typed_msg:
  "inp c = send_msg t p @ rest \<Longrightarrow> length p < 52428800 \<Longrightarrow> recv_typed c = (Inr (t, p), c\<lparr>inp := rest\<rparr>)"
  by (simp add: recv_typed_def then_do_def recv_def send_msg_def recv_send_message wire_sendable_def give_def)

lemma recv_typed_empty:
  "inp c = send_empty t @ rest \<Longrightarrow> recv_typed c = (Inr (t, []), c\<lparr>inp := rest\<rparr>)"
  using recv_typed_msg [of c t "[]" rest] by (simp add: send_msg_def send_empty_def)

section \<open>Login\<close>

lemma auth_ok_read:
  assumes "str_fits (server_version ctx)" "list_all str_fits caps" "length caps < 256"
    and "opt_fits (banner ctx)" "opt_fits (device_id ctx)" "opt_fits (rendezvous_server ctx)"
  shows "parse_auth_ok_full (build_auth_ok_full (server_version ctx) caps (banner ctx) (device_id ctx) (rendezvous_server ctx))
    = Inr \<lparr>aok_version = server_version ctx, aok_caps = caps, aok_banner = banner ctx, aok_device_id = device_id ctx,
        aok_rendezvous_server = rendezvous_server ctx\<rparr>"
  using assms by (rule parse_build_auth_ok_full)

lemma client_caps_fit: "list_all str_fits CLIENT_CAPS" "length CLIENT_CAPS < 256"
proof -
  have "list_all is_ascii CLIENT_CAPS" by code_simp
  moreover have "list_all (\<lambda>s. length s < 65536) CLIENT_CAPS" by (simp add: CLIENT_CAPS_def)
  ultimately show "list_all str_fits CLIENT_CAPS" by (auto simp: list_all_iff str_fits_def)
qed (simp add: CLIENT_CAPS_def)

text \<open>What the client sends, up to its signature.\<close>

definition login_bytes :: "string \<Rightarrow> bytes \<Rightarrow> (bytes \<Rightarrow> bytes) \<Rightarrow> bytes \<Rightarrow> bytes" where
  "login_bytes version raw sign challenge =
     send_msg AUTH_REQUEST (build_auth_request raw version CLIENT_CAPS) @ send_msg AUTH_RESPONSE (sign challenge)"

lemma client_to_signature:
  assumes "inp c = send_msg AUTH_CHALLENGE challenge @ rest" "length challenge = 32"
  shows "authenticate_binary version raw sign c =
    then_do recv_typed (\<lambda>(t, result_data).
      if t = AUTH_OK then then_do (lift_result (parse_auth_ok_full result_data)) note_auth_ok
      else if t = AUTH_FAIL then bail (Failed (''authentication failed: '' @ error_text result_data))
      else if t = TOTP_CHALLENGE then bail (Failed ''TOTP over binary protocol not yet supported'')
      else bail (unexpected t '' after signature''))
    (c\<lparr>inp := rest, outp := outp c @ login_bytes version raw sign challenge\<rparr>)"
  using assms recv_typed_msg [of "c\<lparr>outp := outp c @ send_msg AUTH_REQUEST (build_auth_request raw version CLIENT_CAPS)\<rparr>"]
  by (simp add: authenticate_binary_def then_do_def put_bytes_def login_bytes_def)

text \<open>C5. A client whose key is in the server's list, is not revoked and demands no second factor logs in, when what
  either side announces fits in its fields and messages: its handshake, fed what the server writes, and the
  server's, fed what the client writes, both succeed; they agree on the granted capabilities, the client
  knows the server's version, device and rendezvous server, the server has the permissions of the key,
  and each leaves unread what comes after the handshake.\<close>

theorem binary_login:
  assumes "find_key raw (authorized_keys ctx) = Some key" "\<not> require_totp (key_perms key)"
    and "length raw = 32" "length (sign (challenge_bytes A)) = 64" "length (challenge_bytes A) = 32"
    and "fingerprint A raw \<notin> revoked_keys ctx"
    and "valid_key A raw" "verify_strict A raw (challenge_bytes A) (sign (challenge_bytes A))"
    and "str_fits version" "length (build_auth_request raw version CLIENT_CAPS) < 52428800"
    and "caps = negotiate_caps (server_caps ctx) CLIENT_CAPS" "list_all str_fits caps" "length caps < 256"
    and "str_fits (server_version ctx)" "opt_fits (banner ctx)" "opt_fits (device_id ctx)" "opt_fits (rendezvous_server ctx)"
    and "length (build_auth_ok_full (server_version ctx) caps (banner ctx) (device_id ctx) (rendezvous_server ctx)) < 52428800"
  shows "\<exists>up down. authenticate_binary version raw sign (c\<lparr>inp := down @ rest\<rparr>)
      = (Inr (), c\<lparr>inp := rest, outp := outp c @ up, cl_version := Some (server_version ctx), cl_caps := caps,
           cl_device := device_id ctx, cl_rendezvous := rendezvous_server ctx\<rparr>) \<and>
    authenticate A ctx (s\<lparr>inp := up @ later\<rparr>)
      = (Inr \<lparr>ci_key_comment = key_comment key, client_version = Some version, ci_caps = caps,
           permissions = key_perms key, ci_mux_enabled = False\<rparr>, s\<lparr>inp := later, outp := outp s @ down\<rparr>)"
proof -
  let ?up = "login_bytes version raw sign (challenge_bytes A)"
  let ?down = "send_msg AUTH_CHALLENGE (challenge_bytes A) @ auth_ok_bytes ctx caps"
  have "recv_typed (c\<lparr>inp := auth_ok_bytes ctx caps @ rest, outp := outp c @ ?up\<rparr>)
      = (Inr (AUTH_OK, build_auth_ok_full (server_version ctx) caps (banner ctx) (device_id ctx) (rendezvous_server ctx)),
         c\<lparr>inp := rest, outp := outp c @ ?up\<rparr>)"
    using recv_typed_msg [of "c\<lparr>inp := auth_ok_bytes ctx caps @ rest, outp := outp c @ ?up\<rparr>" AUTH_OK _ rest] assms(18)
    by (simp add: auth_ok_bytes_def)
  then have "authenticate_binary version raw sign (c\<lparr>inp := ?down @ rest\<rparr>)
      = (Inr (), c\<lparr>inp := rest, outp := outp c @ ?up, cl_version := Some (server_version ctx), cl_caps := caps,
           cl_device := device_id ctx, cl_rendezvous := rendezvous_server ctx\<rparr>)"
    using client_to_signature [of "c\<lparr>inp := ?down @ rest\<rparr>" "challenge_bytes A" "auth_ok_bytes ctx caps @ rest" version raw sign]
      assms(5) auth_ok_read [OF assms(14,12,13,15-17)]
    by (simp add: then_do_def note_auth_ok_def give_def)
  moreover have "authenticate A ctx (s\<lparr>inp := ?up @ later\<rparr>)
      = (Inr \<lparr>ci_key_comment = key_comment key, client_version = Some version, ci_caps = caps,
           permissions = key_perms key, ci_mux_enabled = False\<rparr>, s\<lparr>inp := later, outp := outp s @ ?down\<rparr>)"
    using authenticate_runs [OF assms(1-4,6-9) client_caps_fit assms(10), where c = "s\<lparr>inp := ?up @ later\<rparr>" and rest = later]
    by (simp add: login_bytes_def assms(11))
  ultimately show ?thesis by blast
qed

text \<open>C6. A key that needs a second factor keeps its owner out: the server asks for the code in JSON, also
  in a binary handshake, and the client takes the text for a message of an unknown type and gives up,
  whatever follows, so that no such login can succeed.\<close>

theorem totp_locks_out:
  assumes "find_key raw (authorized_keys ctx) = Some key" "require_totp (key_perms key)"
    and "find_totp_secret (fingerprint A raw) (totp_secrets ctx) = Some secret"
    and "length raw = 32" "length (sign (challenge_bytes A)) = 64" "length (challenge_bytes A) = 32"
    and "fingerprint A raw \<notin> revoked_keys ctx"
    and "valid_key A raw" "verify_strict A raw (challenge_bytes A) (sign (challenge_bytes A))"
    and "str_fits version" "length (build_auth_request raw version CLIENT_CAPS) < 52428800"
    and "totp_challenge_json A \<lparr>totp_required = True\<rparr> = Some (0x7B # js)" "length js < 52428800"
  shows "\<exists>up down. outp (snd (authenticate A ctx (s\<lparr>inp := up\<rparr>))) = outp s @ down \<and>
    (\<forall>more. outp (snd (authenticate_binary version raw sign (c\<lparr>inp := down @ more\<rparr>))) = outp c @ up \<and>
       fst (authenticate_binary version raw sign (c\<lparr>inp := down @ more\<rparr>)) = Inl (unexpected 0x7B '' after signature''))"
proof -
  let ?up = "login_bytes version raw sign (challenge_bytes A)"
  let ?down = "send_msg AUTH_CHALLENGE (challenge_bytes A) @ send_msg 0x7B js"
  let ?s1 = "s\<lparr>inp := send_msg AUTH_RESPONSE (sign (challenge_bytes A))\<rparr>"
  have valid: "verify_ed25519_signature (valid_key A) (verify_strict A) raw (challenge_bytes A) (sign (challenge_bytes A)) = Inr True"
    using assms(4,5,8,9) by (simp add: verify_ed25519_signature_def)
  have "recv_signature A True (?s1\<lparr>outp := out\<rparr>) = (Inr (sign (challenge_bytes A)), s\<lparr>inp := [], outp := out\<rparr>)" for out
    using assms(5) recv_binary_signature [of "sign (challenge_bytes A)" "?s1\<lparr>outp := out\<rparr>" "[]" A] by simp
  moreover have "recv_message [] = Inl Eof" by (simp add: recv_message_def read_exact_def)
  ultimately have "outp (snd (prove_key A ctx (binary_hello raw version CLIENT_CAPS) key ?s1)) = outp s @ ?down"
    using valid assms(2,3,12)
    by (simp add: prove_key_def send_challenge_def then_do_def put_bytes_def check_totp_def put_result_def send_json_def
        binary_hello_def send_msg_def recv_json_io_def recv_def give_def)
  then have server: "outp (snd (authenticate A ctx (s\<lparr>inp := ?up\<rparr>))) = outp s @ ?down"
    using authenticate_hello [OF assms(1,4,7,10) client_caps_fit assms(11), where c = "s\<lparr>inp := ?up\<rparr>"]
    by (simp add: login_bytes_def)
  have "recv_typed (c\<lparr>inp := send_msg 0x7B js @ more, outp := out\<rparr>) = (Inr (0x7B, js), c\<lparr>inp := more, outp := out\<rparr>)" for more out
    using assms(13) recv_typed_msg [of "c\<lparr>inp := send_msg 0x7B js @ more, outp := out\<rparr>" "0x7B" js more] by simp
  then have "outp (snd (authenticate_binary version raw sign (c\<lparr>inp := ?down @ more\<rparr>))) = outp c @ ?up \<and>
      fst (authenticate_binary version raw sign (c\<lparr>inp := ?down @ more\<rparr>)) = Inl (unexpected 0x7B '' after signature'')" for more
    using client_to_signature [where c = "c\<lparr>inp := ?down @ more\<rparr>" and challenge = "challenge_bytes A" and rest = "send_msg 0x7B js @ more"] assms(6)
    by (simp add: then_do_def msg_ids bail_def)
  with server show ?thesis by blast
qed

text \<open>A password is refused in the same way: the server knows no such type of authentication.\<close>

lemma password_refused:
  assumes "auth_request_json A m = Some (password_request version username pw)" "m \<noteq> []" "hd m \<noteq> AUTH_REQUEST"
    and "wire_sendable m" "inp s = send_message m @ later"
  shows "\<exists>e s'. authenticate A ctx s = (Inl e, s')"
proof -
  have "recv s = (Inr m, s\<lparr>inp := later\<rparr>)" using assms(4,5) by (simp add: recv_def recv_send_message)
  with assms(1-3) have "\<exists>e. fst (authenticate A ctx s) = Inl e"
    by (simp add: authenticate_def then_do_def auth_hello_of_def password_request_def bail_def
        split: sum.split prod.split)
  then show ?thesis by (cases "authenticate A ctx s") auto
qed

section \<open>Files\<close>

definition fits_frame :: "bytes \<Rightarrow> bool" where
  "fits_frame d \<longleftrightarrow> length d < 52428800"

lemma pull_data_loop_stream:
  "list_all fits_frame ds \<Longrightarrow> inp c = concat (map (send_msg PULL_DATA) ds) @ send_empty PULL_END @ rest \<Longrightarrow>
     pull_data_loop acc c = (Inr (acc @ concat ds), c\<lparr>inp := rest\<rparr>)"
proof (induction ds arbitrary: acc c)
  case Nil
  then have "recv_typed c = (Inr (PULL_END, []), c\<lparr>inp := rest\<rparr>)" by (intro recv_typed_empty) simp
  then show ?case by (simp add: pull_data_loop.simps msg_ids)
next
  case (Cons d ds)
  let ?r = "concat (map (send_msg PULL_DATA) ds) @ send_empty PULL_END @ rest"
  have "recv_typed c = (Inr (PULL_DATA, d), c\<lparr>inp := ?r\<rparr>)"
    using Cons.prems by (intro recv_typed_msg) (simp_all add: fits_frame_def)
  with Cons.IH [of "c\<lparr>inp := ?r\<rparr>" "acc @ d"] Cons.prems show ?case
    by (simp add: pull_data_loop.simps [of acc c])
qed

lemma push_data_sends:
  "list_all (\<lambda>d. d \<noteq> []) ds \<Longrightarrow> push_data (map Inr ds) n c =
     (Inr (n + length (concat ds)), c\<lparr>outp := outp c @ concat (map (send_msg PUSH_DATA) ds)\<rparr>)"
  by (induction ds arbitrary: n c) (simp_all add: give_def then_do_def put_bytes_def)

text \<open>C8. Files go both ways over binary messages. A pull gives the client the content the server reads,
  and a push of a file, in whatever pieces it is read, has the server write the concatenation of the
  pieces and confirm it; each side is run on what the other one writes, and leaves the rest unread.\<close>

theorem binary_files_transfer:
  assumes "''binary-proto'' \<in> set (ci_caps client)" "str_fits path"
    and "fs_read P path = Inr data" "missing_parent P path = None"
    and "list_all (\<lambda>d. d \<noteq> [] \<and> fits_frame d) ds" "fs_write P path (concat ds) = None"
  shows "(\<exists>down. pull_binary path (c\<lparr>inp := down @ rest\<rparr>)
        = (Inr data, c\<lparr>inp := rest, outp := outp c @ send_msg PULL_REQ (build_pull_req path)\<rparr>) \<and>
      serve_message P ctx client (PULL_REQ # build_pull_req path) s
        = (Inr True, s\<lparr>calls := calls s @ [Call_Read_File path], outp := outp s @ down\<rparr>)) \<and>
    (\<exists>up. push_binary (Some n) (Inr (map Inr ds)) path (c\<lparr>inp := send_empty PUSH_OK @ rest\<rparr>)
        = (Inr (length (concat ds)),
           c\<lparr>inp := rest, outp := outp c @ send_msg PUSH_START (build_push_start (word_of_nat n) path) @ up\<rparr>) \<and>
      serve_message P ctx client (PUSH_START # build_push_start (word_of_nat n) path) (s\<lparr>inp := up @ later\<rparr>)
        = (Inr True, s\<lparr>inp := later, calls := calls s @ [Call_Write_File path (concat ds)],
             outp := outp s @ send_empty PUSH_OK\<rparr>))" (is "?pull \<and> ?push")
proof
  let ?ds = "chunks PULL_CHUNK data"
  let ?down = "concat (map (send_msg PULL_DATA) ?ds) @ send_empty PULL_END"
  have "list_all fits_frame ?ds"
    using chunks_length [of PULL_CHUNK data] by (auto simp: list_all_iff fits_frame_def PULL_CHUNK_def)
  moreover have "concat ?ds = data" by (rule concat_chunks) (simp add: PULL_CHUNK_def)
  ultimately have "pull_binary path (c\<lparr>inp := ?down @ rest\<rparr>)
      = (Inr data, c\<lparr>inp := rest, outp := outp c @ send_msg PULL_REQ (build_pull_req path)\<rparr>)"
    using pull_data_loop_stream [of ?ds "c\<lparr>inp := ?down @ rest, outp := outp c @ send_msg PULL_REQ (build_pull_req path)\<rparr>" rest "[]"]
    by (simp add: pull_binary_def then_do_def put_bytes_def)
  moreover have "parse_pull_req (build_pull_req path) = Inr path"
    using assms(2) by (simp add: parse_pull_req_def build_pull_req_def decode_encode_str_alone)
  then have "serve_message P ctx client (PULL_REQ # build_pull_req path) s
      = (Inr True, s\<lparr>calls := calls s @ [Call_Read_File path], outp := outp s @ ?down\<rparr>)"
    using assms(1,3)
    by (simp add: serve_message_def binary_message_def binary_pull_def then_do_def note_calls_def put_bytes_def
        give_def msg_ids)
  ultimately show ?pull by blast
next
  let ?start = "build_push_start (word_of_nat n) path"
  let ?up = "concat (map (send_msg PUSH_DATA) ds) @ send_msg PUSH_END []"
  let ?c = "c\<lparr>inp := send_empty PUSH_OK @ rest, outp := outp c @ send_msg PUSH_START ?start @ ?up\<rparr>"
  have e: "send_empty PUSH_END = send_msg PUSH_END []" by (simp add: send_empty_def send_msg_def)
  have ne: "list_all (\<lambda>d. d \<noteq> []) ds" using assms(5) by (simp add: list_all_iff)
  have r: "recv_typed ?c = (Inr (PUSH_OK, []), c\<lparr>inp := rest, outp := outp c @ send_msg PUSH_START ?start @ ?up\<rparr>)"
    using recv_typed_empty [of ?c PUSH_OK rest] by simp
  have "push_binary (Some n) (Inr (map Inr ds)) path (c\<lparr>inp := send_empty PUSH_OK @ rest\<rparr>)
      = (Inr (length (concat ds)), c\<lparr>inp := rest, outp := outp c @ send_msg PUSH_START ?start @ ?up\<rparr>)"
    using r by (simp add: push_binary_def then_do_def put_bytes_def give_def push_data_sends [OF ne] e)
  moreover have "parse_push_start ?start = Inr (word_of_nat n, path)" using assms(2) by (rule parse_build_push_start)
  then have "binary_push P ?start (s\<lparr>inp := ?up @ later\<rparr>)
      = (Inr (), s\<lparr>inp := later, calls := calls s @ [Call_Write_File path (concat ds)], outp := outp s @ send_empty PUSH_OK\<rparr>)"
    using binary_push_stores [of ?start "word_of_nat n" path P ds "s\<lparr>inp := ?up @ later\<rparr>" later] assms(4-6)
    by (simp add: list_all_iff fits_frame_def)
  then have "serve_message P ctx client (PUSH_START # ?start) (s\<lparr>inp := ?up @ later\<rparr>)
      = (Inr True, s\<lparr>inp := later, calls := calls s @ [Call_Write_File path (concat ds)], outp := outp s @ send_empty PUSH_OK\<rparr>)"
    using assms(1) by (simp add: serve_message_def binary_message_def then_do_def give_def msg_ids)
  ultimately show ?push by blast
qed

section \<open>Streamed commands\<close>

lemma carried_Cons: "carried t ((u, d) # ms) = (if u = t then d else []) @ carried t ms"
  by (simp add: carried_def)

lemma exec_stream_loop_stream:
  "list_all (\<lambda>(t, d). t \<in> {EXEC_STDOUT, EXEC_STDERR} \<and> fits_frame d) ms \<Longrightarrow> fits_frame code \<Longrightarrow>
   inp c = concat (map (\<lambda>(t, d). send_msg t d) ms) @ send_msg EXEC_EXIT code @ rest \<Longrightarrow>
     exec_stream_loop out err c =
       (Inr \<lparr>st_stdout = out @ carried EXEC_STDOUT ms, st_stderr = err @ carried EXEC_STDERR ms, st_code = exit_code_of code\<rparr>,
        c\<lparr>inp := rest\<rparr>)"
proof (induction ms arbitrary: out err c)
  case Nil
  then have "recv_typed c = (Inr (EXEC_EXIT, code), c\<lparr>inp := rest\<rparr>)"
    by (intro recv_typed_msg) (simp_all add: fits_frame_def)
  then show ?case by (simp add: exec_stream_loop.simps [of out err c])
next
  case (Cons m ms)
  obtain t d where m: "m = (t, d)" by (cases m)
  let ?c = "c\<lparr>inp := concat (map (\<lambda>(t, d). send_msg t d) ms) @ send_msg EXEC_EXIT code @ rest\<rparr>"
  have "recv_typed c = (Inr (t, d), ?c)"
    using Cons.prems m by (intro recv_typed_msg) (simp_all add: fits_frame_def)
  moreover have "t = EXEC_STDOUT \<or> t = EXEC_STDERR" using Cons.prems(1) m by simp
  moreover have "list_all (\<lambda>(t, d). t \<in> {EXEC_STDOUT, EXEC_STDERR} \<and> fits_frame d) ms" using Cons.prems(1) by simp
  note ih = Cons.IH [OF this Cons.prems(2), of ?c]
  moreover have "exec_stream_loop out err c =
      (if t = EXEC_STDOUT then exec_stream_loop (out @ d) err ?c else exec_stream_loop out (err @ d) ?c)"
    using calculation(1,2) by (subst exec_stream_loop.simps) (auto simp: msg_ids)
  ultimately show ?case using m by (auto simp: carried_Cons)
qed

text \<open>C7. A streamed command reaches the user whole: once the child has closed both of its streams, the
  client that asked for the command, fed what the server writes, ends, having printed to each output
  exactly the bytes the child wrote to it, and has the child's exit code as a signed number (1 when the
  child was killed); the server runs the command of the key when one is forced.\<close>

theorem exec_streamed:
  assumes "''binary-proto'' \<in> set (ci_caps client)" "str_fits cmd" "list_all str_fits env_vars" "length env_vars \<le> 255"
    and "effective_command (permissions client) cmd = run" "run \<noteq> []" "E = exec_env (lp_env P)"
    and "check_exec (to_lowercase E) run = Allow"
    and "exec_child P (add_env (to_uppercase E) env_vars (build_command (os E) run)) = Inr (es, code)"
    and "list_ex ends_out es" "list_ex ends_err es"
    and "\<And>d. Out d \<in> set es \<or> Err d \<in> set es \<Longrightarrow> fits_frame d"
  shows "\<exists>down. exec_stream cmd env_vars (c\<lparr>inp := down @ rest\<rparr>)
      = (Inr \<lparr>st_stdout = out_bytes es, st_stderr = err_bytes es,
           st_code = (case code of Some x \<Rightarrow> sint x | None \<Rightarrow> 1)\<rparr>,
         c\<lparr>inp := rest, outp := outp c @ send_msg EXEC_STREAM (build_exec cmd env_vars)\<rparr>) \<and>
    serve_message P ctx client (EXEC_STREAM # build_exec cmd env_vars) s
      = (Inr True, s\<lparr>calls := calls s @ [Call_Exec_Stream run env_vars], outp := outp s @ down\<rparr>)"
proof -
  define x where "x = (case code of Some x \<Rightarrow> x | None \<Rightarrow> 1)"
  obtain sent k where h: "handle_exec_stream E (exec_child P) run env_vars = (Some (sent @ [(EXEC_EXIT, le_bytes 4 (unat x))]), k)"
    and car: "carried EXEC_STDOUT sent = out_bytes es" "carried EXEC_STDERR sent = err_bytes es"
    and fr: "list_all (\<lambda>(t, d). t \<in> {EXEC_STDOUT, EXEC_STDERR} \<and> (Out d \<in> set es \<or> Err d \<in> set es)) sent"
    using exec_stream_complete [of run E "exec_child P" env_vars es code] assms(6,8-11) unfolding x_def by blast
  let ?down = "concat (map (\<lambda>(t, d). send_msg t d) sent) @ send_msg EXEC_EXIT (le_bytes 4 (unat x))"
  have "list_all (\<lambda>(t, d). t \<in> {EXEC_STDOUT, EXEC_STDERR} \<and> fits_frame d) sent"
    using fr assms(12) by (fastforce simp: list_all_iff)
  moreover have "fits_frame (le_bytes 4 (unat x))" by (simp add: fits_frame_def)
  moreover have "exit_code_of (le_bytes 4 (unat x)) = (case code of Some x \<Rightarrow> sint x | None \<Rightarrow> 1)"
    by (simp add: exit_code_of_def x_def split: option.split)
  ultimately have "exec_stream cmd env_vars (c\<lparr>inp := ?down @ rest\<rparr>)
      = (Inr \<lparr>st_stdout = out_bytes es, st_stderr = err_bytes es, st_code = (case code of Some x \<Rightarrow> sint x | None \<Rightarrow> 1)\<rparr>,
         c\<lparr>inp := rest, outp := outp c @ send_msg EXEC_STREAM (build_exec cmd env_vars)\<rparr>)"
    using exec_stream_loop_stream [of sent "le_bytes 4 (unat x)"
        "c\<lparr>inp := ?down @ rest, outp := outp c @ send_msg EXEC_STREAM (build_exec cmd env_vars)\<rparr>" rest "[]" "[]"] car
    by (simp add: exec_stream_def then_do_def put_bytes_def)
  moreover have "parse_exec (build_exec cmd env_vars) = Inr (cmd, env_vars)"
    using parse_build_exec [of cmd env_vars] assms(2-4) by simp
  then have "serve_message P ctx client (EXEC_STREAM # build_exec cmd env_vars) s
      = (Inr True, s\<lparr>calls := calls s @ [Call_Exec_Stream run env_vars], outp := outp s @ ?down\<rparr>)"
    using assms(1,5) h
    by (simp add: serve_message_def binary_message_def binary_exec_stream_def run_call_def then_do_def note_calls_def
        put_bytes_def give_def msg_ids assms(7) split_beta)
  ultimately show ?thesis by blast
qed

section \<open>Sample conversations\<close>

definition sample_rsh :: "bytes \<Rightarrow> rsh_client" where
  "sample_rsh s = \<lparr>inp = s, outp = [], cl_version = None, cl_caps = [], cl_mux = False, cl_device = None, cl_rendezvous = None\<rparr>"

abbreviation sample_sign :: "bytes \<Rightarrow> bytes" where
  "sample_sign ch \<equiv> ch @ ch"

lemma sample_login:
  "find_key (replicate 32 7) (authorized_keys sample_context) = Some sample_key" "\<not> require_totp (key_perms sample_key)"
  "length (replicate 32 7 :: bytes) = 32" "length (sample_sign (challenge_bytes sample_auth)) = 64"
  "length (challenge_bytes sample_auth) = 32"
  "fingerprint sample_auth (replicate 32 7) \<notin> revoked_keys sample_context" "valid_key sample_auth (replicate 32 7)"
  "verify_strict sample_auth (replicate 32 7) (challenge_bytes sample_auth) (sample_sign (challenge_bytes sample_auth))"
  "length (build_auth_request (replicate 32 7) ''1'' CLIENT_CAPS) < 52428800"
  by (simp_all add: find_key_def sample_context_def sample_key_def restricted_def sample_auth_def build_auth_request_def
      CLIENT_CAPS_def)

lemma sample_strings: "str_fits ''1''" "list_all str_fits [''zstd'', ''binary-proto'']"
proof -
  have "is_ascii ''1''" "is_ascii ''zstd''" "is_ascii ''binary-proto''" by code_simp+
  then show "str_fits ''1''" "list_all str_fits [''zstd'', ''binary-proto'']" by (simp_all add: str_fits_def)
qed

theorem binary_login_witness:
  "\<exists>up down. fst (authenticate_binary ''1'' (replicate 32 7) sample_sign (sample_rsh down)) = Inr () \<and>
    permissions (projr (fst (authenticate sample_auth sample_context (empty_conn up)))) = restricted\<lparr>allow_pull := True\<rparr>"
proof -
  let ?caps = "[''zstd'', ''binary-proto'']"
  have caps: "?caps = negotiate_caps (server_caps sample_context) CLIENT_CAPS" by code_simp
  have n: "length ?caps < 256" by simp
  have fits: "str_fits (server_version sample_context)" "opt_fits (banner sample_context)" "opt_fits (device_id sample_context)"
    "opt_fits (rendezvous_server sample_context)"
    using sample_strings(1) by (simp_all add: sample_context_def)
  have len: "length (build_auth_ok_full (server_version sample_context) ?caps (banner sample_context)
      (device_id sample_context) (rendezvous_server sample_context)) < 52428800"
    by (simp add: sample_context_def build_auth_ok_full_def encode_opt_def)
  obtain up down where
    "authenticate_binary ''1'' (replicate 32 7) sample_sign (sample_rsh []\<lparr>inp := down @ []\<rparr>)
      = (Inr (), sample_rsh []\<lparr>inp := [], outp := outp (sample_rsh []) @ up, cl_version := Some (server_version sample_context),
           cl_caps := ?caps, cl_device := device_id sample_context, cl_rendezvous := rendezvous_server sample_context\<rparr>)"
    "authenticate sample_auth sample_context (empty_conn []\<lparr>inp := up @ []\<rparr>)
      = (Inr \<lparr>ci_key_comment = key_comment sample_key, client_version = Some ''1'', ci_caps = ?caps,
           permissions = key_perms sample_key, ci_mux_enabled = False\<rparr>,
         empty_conn []\<lparr>inp := [], outp := outp (empty_conn []) @ down\<rparr>)"
    using binary_login [where sign = sample_sign and caps = ?caps and c = "sample_rsh []" and rest = "[]" and s = "empty_conn []"
        and later = "[]", OF sample_login(1-8) sample_strings(1) sample_login(9) caps sample_strings(2) n fits len]
    by (elim exE conjE)
  then show ?thesis
    by (intro exI [of _ up] exI [of _ down]) (simp add: sample_rsh_def empty_conn_def sample_key_def)
qed

definition totp_context :: server_context where
  "totp_context = sample_context\<lparr>authorized_keys := [sample_key\<lparr>key_perms := restricted\<lparr>require_totp := True\<rparr>\<rparr>],
     totp_secrets := [\<lparr>ts_fingerprint = fingerprint sample_auth (replicate 32 7), ts_secret = ''s''\<rparr>]\<rparr>"

theorem totp_locks_out_witness:
  "\<exists>down. fst (authenticate_binary ''1'' (replicate 32 7) sample_sign (sample_rsh down)) = Inl (unexpected 0x7B '' after signature'')"
proof -
  let ?A = "sample_auth\<lparr>totp_challenge_json := (\<lambda>_. Some [0x7B, 0x7D])\<rparr>"
  let ?key = "sample_key\<lparr>key_perms := restricted\<lparr>require_totp := True\<rparr>\<rparr>"
  have fp: "fingerprint ?A = fingerprint sample_auth" by (simp add: fingerprint_def fun_eq_iff)
  have k: "find_key (replicate 32 7) (authorized_keys totp_context) = Some ?key" "require_totp (key_perms ?key)"
    by (simp_all add: totp_context_def find_key_def sample_key_def)
  have t: "find_totp_secret (fingerprint ?A (replicate 32 7)) (totp_secrets totp_context)
      = Some \<lparr>ts_fingerprint = fingerprint sample_auth (replicate 32 7), ts_secret = ''s''\<rparr>"
    by (simp add: totp_context_def find_totp_secret_def fp)
  have r: "fingerprint ?A (replicate 32 7) \<notin> revoked_keys totp_context" by (simp add: totp_context_def sample_context_def)
  have "\<exists>up down. outp (snd (authenticate ?A totp_context (empty_conn []\<lparr>inp := up\<rparr>))) = outp (empty_conn []) @ down \<and>
    (\<forall>more. outp (snd (authenticate_binary ''1'' (replicate 32 7) sample_sign (sample_rsh []\<lparr>inp := down @ more\<rparr>))) = outp (sample_rsh []) @ up \<and>
       fst (authenticate_binary ''1'' (replicate 32 7) sample_sign (sample_rsh []\<lparr>inp := down @ more\<rparr>)) = Inl (unexpected 0x7B '' after signature''))"
    using sample_login by (intro totp_locks_out [where js = "[0x7D]", OF k t _ _ _ r _ _ sample_strings(1)]) simp_all
  then obtain down where "fst (authenticate_binary ''1'' (replicate 32 7) sample_sign (sample_rsh []\<lparr>inp := down @ []\<rparr>))
      = Inl (unexpected 0x7B '' after signature'')" by blast
  then show ?thesis by (intro exI [of _ down]) (simp add: sample_rsh_def)
qed

theorem binary_files_transfer_witness:
  "\<exists>down up. fst (pull_binary ''f'' (sample_rsh down)) = Inr [1, 2] \<and>
    calls (snd (serve_message sample_loop sample_context (binary_client restricted) (PUSH_START # build_push_start 3 ''f'')
      (empty_conn up))) = [Call_Write_File ''f'' [7, 8, 9]]"
proof -
  have "is_ascii ''f''" by code_simp
  then have "str_fits ''f''" by (simp add: str_fits_def)
  moreover have "''binary-proto'' \<in> set (ci_caps (binary_client restricted))" by (simp add: binary_client_def)
  moreover have "fs_read sample_loop ''f'' = Inr [1, 2]" "missing_parent sample_loop ''f'' = None"
    "fs_write sample_loop ''f'' (concat [[7, 8], [9]]) = None" by (simp_all add: sample_loop_def)
  moreover have "list_all (\<lambda>d. d \<noteq> [] \<and> fits_frame d) [[7, 8], [9]]" by (simp add: fits_frame_def)
  ultimately have
    "(\<exists>down. pull_binary ''f'' (sample_rsh []\<lparr>inp := down @ []\<rparr>)
        = (Inr [1, 2], sample_rsh []\<lparr>inp := [], outp := outp (sample_rsh []) @ send_msg PULL_REQ (build_pull_req ''f'')\<rparr>) \<and>
      serve_message sample_loop sample_context (binary_client restricted) (PULL_REQ # build_pull_req ''f'') (empty_conn [])
        = (Inr True, empty_conn []\<lparr>calls := calls (empty_conn []) @ [Call_Read_File ''f''], outp := outp (empty_conn []) @ down\<rparr>)) \<and>
    (\<exists>up. push_binary (Some 3) (Inr (map Inr [[7, 8], [9]])) ''f'' (sample_rsh []\<lparr>inp := send_empty PUSH_OK @ []\<rparr>)
        = (Inr (length (concat [[7, 8], [9 :: byte]])),
           sample_rsh []\<lparr>inp := [], outp := outp (sample_rsh []) @ send_msg PUSH_START (build_push_start (word_of_nat 3) ''f'') @ up\<rparr>) \<and>
      serve_message sample_loop sample_context (binary_client restricted) (PUSH_START # build_push_start (word_of_nat 3) ''f'')
        (empty_conn []\<lparr>inp := up @ []\<rparr>)
        = (Inr True, empty_conn []\<lparr>inp := [], calls := calls (empty_conn []) @ [Call_Write_File ''f'' (concat [[7, 8], [9]])],
             outp := outp (empty_conn []) @ send_empty PUSH_OK\<rparr>))"
    by (intro binary_files_transfer) simp_all
  then show ?thesis
    by (elim exE conjE, rule_tac x = down in exI, rule_tac x = up in exI) (simp add: sample_rsh_def empty_conn_def)
qed

theorem exec_streamed_witness:
  "\<exists>down. fst (exec_stream ''ls'' [] (sample_rsh down)) = Inr \<lparr>st_stdout = [104], st_stderr = [33], st_code = -1\<rparr>"
proof -
  let ?P = "sample_loop\<lparr>exec_child := (\<lambda>_. Inr ([Out [104], Err [33], Out_End, Err_End], Some 0xFFFFFFFF))\<rparr>"
  have "is_ascii ''ls''" by code_simp
  then have "str_fits ''ls''" by (simp add: str_fits_def)
  moreover have "check_exec (to_lowercase (exec_env (lp_env ?P))) ''ls'' = Allow" by code_simp
  moreover have "effective_command (permissions (binary_client restricted)) ''ls'' = ''ls''"
    by (simp add: effective_command_def binary_client_def json_client_def restricted_def)
  moreover have "''binary-proto'' \<in> set (ci_caps (binary_client restricted))" by (simp add: binary_client_def)
  moreover have "fits_frame d" if "Out d \<in> set [Out [104], Err [33], Out_End, Err_End] \<or> Err d \<in> set [Out [104], Err [33], Out_End, Err_End]" for d
    using that by (auto simp: fits_frame_def)
  ultimately obtain down where
    "exec_stream ''ls'' [] (sample_rsh []\<lparr>inp := down @ []\<rparr>)
      = (Inr \<lparr>st_stdout = [104], st_stderr = [33], st_code = (case Some (0xFFFFFFFF :: u32) of Some x \<Rightarrow> sint x | None \<Rightarrow> 1)\<rparr>,
         sample_rsh []\<lparr>inp := [], outp := outp (sample_rsh []) @ send_msg EXEC_STREAM (build_exec ''ls'' [])\<rparr>)"
    using exec_streamed [where client = "binary_client restricted" and cmd = "''ls''" and env_vars = "[]" and run = "''ls''"
        and E = "exec_env (lp_env ?P)" and P = ?P and es = "[Out [104], Err [33], Out_End, Err_End]"
        and code = "Some 0xFFFFFFFF" and c = "sample_rsh []" and rest = "[]" and ctx = sample_context and s = "empty_conn []", OF _ _ _ _ _ _ refl]
    by (simp add: ends_out_def ends_err_def) blast
  moreover have "sint (0xFFFFFFFF :: u32) = -1" by simp
  ultimately show ?thesis by (intro exI [of _ down]) (simp add: sample_rsh_def)
qed

end
