(* ===== verification/File_System.thy ===== *)
theory File_System
  imports Rust_Str
begin

text \<open>
  What the sources use of \<open>std::fs\<close> and \<open>std::path\<close>, for the Unix build: files and directories named by
  the text of their path, and the errors of the operating system. A path that the system refuses to
  access (permissions, I/O errors) has a \<open>fault\<close>, the text of its error. Two texts that name the same
  file are two paths here. The server's own checks of a path (\<open>sync/mod.rs\<close>, \<open>lib.rs\<close>) are here too.
\<close>

section \<open>Paths\<close>

definition trivial_part :: "string \<Rightarrow> bool" where
  "trivial_part s \<longleftrightarrow> s = [] \<or> s = ''.''"

text \<open>\<open>Path::parent\<close>: the path without its last component; empty and \<open>.\<close> components are skipped, a
  leading \<open>.\<close> of a relative path excepted.\<close>

definition path_parent :: "string \<Rightarrow> string option" where
  "path_parent p =
     (if starts_with p ''/''
      then (case dropWhile trivial_part (rev (split_char (CHR ''/'') [] (tl p))) of
              [] \<Rightarrow> None
            | _ # r \<Rightarrow> Some (''/'' @ join ''/'' (rev (dropWhile trivial_part r))))
      else case split_char (CHR ''/'') [] p of
             [] \<Rightarrow> None
           | f # rest \<Rightarrow>
               (case dropWhile trivial_part (rev rest) of
                  [] \<Rightarrow> if f = [] then None else Some []
                | _ # r \<Rightarrow> Some (join ''/'' (f # rev (dropWhile trivial_part r)))))"

text \<open>\<open>Path::file_name\<close>: the last component, unless it is the root or \<open>..\<close>.\<close>

definition path_file_name :: "string \<Rightarrow> string option" where
  "path_file_name p =
     (case filter (\<lambda>c. \<not> trivial_part c) (split_char (CHR ''/'') [] p) of
        [] \<Rightarrow> None
      | cs \<Rightarrow> if last cs = ''..'' then None else Some (last cs))"

definition name_or_empty :: "string \<Rightarrow> string" where
  "name_or_empty p = (case path_file_name p of Some n \<Rightarrow> n | None \<Rightarrow> [])"

definition under :: "string \<Rightarrow> string \<Rightarrow> bool" where
  "under dir p \<longleftrightarrow> p = dir \<or> starts_with p (dir @ ''/'')"

text \<open>\<open>Path::join\<close>.\<close>

definition path_join :: "string \<Rightarrow> string \<Rightarrow> string" where
  "path_join dir p =
     (if starts_with p ''/'' then p else if dir = [] \<or> ends_with dir ''/'' then dir @ p else dir @ ''/'' @ p)"

section \<open>Files and directories\<close>

record disk =
  files :: "string \<rightharpoonup> bytes"
  folders :: "string set"
  fault :: "string \<Rightarrow> string option"
  other_device :: "string \<Rightarrow> string \<Rightarrow> bool"

datatype io_error = Not_Found | Io_Error string

definition show_io :: "io_error \<Rightarrow> string" where
  "show_io e = (case e of Not_Found \<Rightarrow> ''No such file or directory (os error 2)'' | Io_Error m \<Rightarrow> m)"

type_synonym 'a fs_result = "io_error + 'a"

definition path_exists :: "disk \<Rightarrow> string \<Rightarrow> bool" where
  "path_exists d p \<longleftrightarrow> p \<in> folders d \<or> files d p \<noteq> None"

definition parent_there :: "disk \<Rightarrow> string \<Rightarrow> bool" where
  "parent_there d p \<longleftrightarrow> (case path_parent p of None \<Rightarrow> False | Some q \<Rightarrow> q = [] \<or> q \<in> folders d)"

definition fs_read :: "disk \<Rightarrow> string \<Rightarrow> bytes fs_result" where
  "fs_read d p =
     (case fault d p of
        Some m \<Rightarrow> Inl (Io_Error m)
      | None \<Rightarrow>
          if p \<in> folders d then Inl (Io_Error ''Is a directory (os error 21)'')
          else case files d p of Some b \<Rightarrow> Inr b | None \<Rightarrow> Inl Not_Found)"

text \<open>Why a file cannot be created or overwritten.\<close>

definition write_error :: "disk \<Rightarrow> string \<Rightarrow> io_error option" where
  "write_error d p =
     (case fault d p of
        Some m \<Rightarrow> Some (Io_Error m)
      | None \<Rightarrow>
          if p \<in> folders d \<or> ends_with p ''/'' then Some (Io_Error ''Is a directory (os error 21)'')
          else if parent_there d p then None else Some Not_Found)"

definition fs_write :: "string \<Rightarrow> bytes \<Rightarrow> disk \<Rightarrow> io_error option \<times> disk" where
  "fs_write p b d =
     (case write_error d p of
        Some e \<Rightarrow> (Some e, d)
      | None \<Rightarrow> (None, d\<lparr>files := (files d)(p \<mapsto> b)\<rparr>))"

definition mkdir :: "string \<Rightarrow> disk \<Rightarrow> io_error option \<times> disk" where
  "mkdir p d =
     (case fault d p of
        Some m \<Rightarrow> (Some (Io_Error m), d)
      | None \<Rightarrow>
          if path_exists d p then (Some (Io_Error ''File exists (os error 17)''), d)
          else if parent_there d p then (None, d\<lparr>folders := insert p (folders d)\<rparr>)
          else (Some Not_Found, d))"

definition mkdir_or_there :: "string \<Rightarrow> disk \<Rightarrow> io_error option \<times> disk" where
  "mkdir_or_there p d =
     (case mkdir p d of
        (Some e, d') \<Rightarrow> if p \<in> folders d then (None, d) else (Some e, d')
      | (None, d') \<Rightarrow> (None, d'))"

text \<open>\<open>fs::remove_file\<close> and \<open>fs::copy\<close>.\<close>

definition fs_remove :: "string \<Rightarrow> disk \<Rightarrow> io_error option \<times> disk" where
  "fs_remove p d =
     (case fs_read d p of Inl e \<Rightarrow> (Some e, d) | Inr _ \<Rightarrow> (None, d\<lparr>files := (files d)(p := None)\<rparr>))"

definition fs_copy :: "string \<Rightarrow> string \<Rightarrow> disk \<Rightarrow> io_error option \<times> disk" where
  "fs_copy src dst d = (case fs_read d src of Inl e \<Rightarrow> (Some e, d) | Inr b \<Rightarrow> fs_write dst b d)"

text \<open>\<open>fs::metadata\<close>: the length of a file, or what the system gives for a directory. Permission bits are
  not part of the disk, so \<open>fs::set_permissions\<close> only has its errors.\<close>

definition metadata_len :: "(string \<Rightarrow> nat) \<Rightarrow> disk \<Rightarrow> string \<Rightarrow> io_error + nat" where
  "metadata_len dir_len d p =
     (case fault d p of
        Some m \<Rightarrow> Inl (Io_Error m)
      | None \<Rightarrow>
          (case files d p of
             Some b \<Rightarrow> Inr (length b)
           | None \<Rightarrow> if p \<in> folders d then Inr (dir_len p) else Inl Not_Found))"

definition fs_set_permissions :: "string \<Rightarrow> disk \<Rightarrow> io_error option \<times> disk" where
  "fs_set_permissions p d =
     (case fault d p of
        Some m \<Rightarrow> (Some (Io_Error m), d)
      | None \<Rightarrow> (if path_exists d p then None else Some Not_Found, d))"

definition read_to_string :: "disk \<Rightarrow> string \<Rightarrow> io_error + string" where
  "read_to_string d p =
     (case fs_read d p of
        Inl e \<Rightarrow> Inl e
      | Inr b \<Rightarrow> (case from_utf8 b of Inr s \<Rightarrow> Inr s | Inl _ \<Rightarrow> Inl (Io_Error ''stream did not contain valid UTF-8'')))"

section \<open>Creating directories\<close>

lemma join_Cons: "join sep (x # xs) = x @ (if xs = [] then [] else sep @ join sep xs)"
  by (cases xs) auto

lemma length_join_append:
  "length (join sep (xs @ ys)) = length (join sep xs) + length (join sep ys)
     + (if xs = [] \<or> ys = [] then 0 else length sep)"
  by (induction xs) (auto simp: join_Cons)

lemma split_char_not_Nil [simp]: "split_char d cur s \<noteq> []"
  by (induction d cur s rule: split_char.induct) auto

lemma join_split_char: "join [d] (split_char d cur s) = rev cur @ s"
  by (induction d cur s rule: split_char.induct) (auto simp: join_Cons)

lemma dropWhile_rev_split:
  "dropWhile P (rev xs) = x # r \<Longrightarrow> \<exists>ys zs. xs = rev (dropWhile P r) @ ys @ [x] @ zs \<and> \<not> P x"
proof -
  assume d: "dropWhile P (rev xs) = x # r"
  obtain u where u: "rev xs = u @ x # r" using takeWhile_dropWhile_id [of P "rev xs"] d by metis
  obtain v where v: "r = v @ dropWhile P r" using takeWhile_dropWhile_id [of P r] by metis
  have "xs = rev (u @ x # r)" using u by (metis rev_rev_ident)
  also have "\<dots> = rev r @ [x] @ rev u" by simp
  also have "rev r = rev (dropWhile P r) @ rev v" using v by (metis rev_append)
  finally have "xs = rev (dropWhile P r) @ rev v @ [x] @ rev u" by simp
  moreover have "\<not> P x" using d by (metis hd_dropWhile list.discI list.sel(1))
  ultimately show ?thesis by blast
qed

lemma join_front_shorter:
  assumes "dropWhile trivial_part (rev xs) = x # r"
  shows "length (join ''/'' (rev (dropWhile trivial_part r))) < length (join ''/'' xs)"
proof -
  obtain ys zs where xs: "xs = rev (dropWhile trivial_part r) @ ys @ [x] @ zs" and "\<not> trivial_part x"
    using dropWhile_rev_split [OF assms] by auto
  then have "0 < length x" by (auto simp: trivial_part_def)
  then show ?thesis by (simp only: xs length_join_append) (simp add: join_Cons)
qed

lemma path_parent_shorter: "path_parent p = Some q \<Longrightarrow> length q < length p"
proof (cases "starts_with p ''/''")
  case True
  then obtain s where p: "p = CHR ''/'' # s" by (cases p) (auto simp: starts_with_def)
  assume "path_parent p = Some q"
  then obtain x r where "dropWhile trivial_part (rev (split_char (CHR ''/'') [] s)) = x # r"
    "q = ''/'' @ join ''/'' (rev (dropWhile trivial_part r))"
    using True by (auto simp: path_parent_def p split: list.splits)
  with join_front_shorter [of "split_char (CHR ''/'') [] s" x r] show ?thesis
    by (simp add: p join_split_char)
next
  case False
  assume a: "path_parent p = Some q"
  obtain f rest where s: "split_char (CHR ''/'') [] p = f # rest" by (cases "split_char (CHR ''/'') [] p") auto
  have len: "length p = length (join ''/'' (f # rest))" using join_split_char [of "CHR ''/''" "[]" p] s by simp
  show ?thesis
  proof (cases "dropWhile trivial_part (rev rest)")
    case Nil
    with a False s have "q = []" "f \<noteq> []" by (auto simp: path_parent_def split: if_splits)
    with len show ?thesis by (simp add: join_Cons)
  next
    case (Cons x r)
    with a False s have q: "q = join ''/'' (f # rev (dropWhile trivial_part r))" by (simp add: path_parent_def)
    have "rest \<noteq> []" using Cons by auto
    moreover have "length (join ''/'' (rev (dropWhile trivial_part r))) < length (join ''/'' rest)"
      using join_front_shorter [OF Cons] .
    ultimately show ?thesis by (simp add: len q join_Cons)
  qed
qed

text \<open>\<open>fs::create_dir_all\<close>: make the directory, or first the parents when that is what is missing.\<close>

function create_dir_all :: "string \<Rightarrow> disk \<Rightarrow> io_error option \<times> disk" where
  "create_dir_all p d =
     (if p = [] then (None, d)
      else case mkdir_or_there p d of
        (Some Not_Found, _) \<Rightarrow>
          (case path_parent p of
             None \<Rightarrow> (Some (Io_Error ''failed to create whole tree''), d)
           | Some q \<Rightarrow>
               (case create_dir_all q d of
                  (Some e, d') \<Rightarrow> (Some e, d')
                | (None, d') \<Rightarrow> mkdir_or_there p d'))
      | r \<Rightarrow> r)"
  by pat_completeness auto
termination
  by (relation "measure (length \<circ> fst)") (auto dest: path_parent_shorter)

declare create_dir_all.simps [simp del]

section \<open>Renaming\<close>

text \<open>\<open>fs::rename\<close> of a file or of a directory with all it holds.\<close>

definition moved :: "string \<Rightarrow> string \<Rightarrow> string \<Rightarrow> string option" where
  "moved a b p = (if under b p then Some (a @ drop (length b) p) else if under a p then None else Some p)"

definition occupied :: "disk \<Rightarrow> string \<Rightarrow> bool" where
  "occupied d b \<longleftrightarrow>
     (\<exists>p \<in> folders d. p \<noteq> b \<and> under b p) \<or> (\<exists>p \<in> dom (files d). p \<noteq> b \<and> under b p)"

definition fs_rename :: "string \<Rightarrow> string \<Rightarrow> disk \<Rightarrow> io_error option \<times> disk" where
  "fs_rename a b d =
     (case (fault d a, fault d b) of
        (Some m, _) \<Rightarrow> (Some (Io_Error m), d)
      | (None, Some m) \<Rightarrow> (Some (Io_Error m), d)
      | (None, None) \<Rightarrow>
          if \<not> path_exists d a \<or> \<not> parent_there d b then (Some Not_Found, d)
          else if other_device d a b then (Some (Io_Error ''Invalid cross-device link (os error 18)''), d)
          else if a = b then (None, d)
          else if b \<in> folders d \<and> files d a \<noteq> None \<or> a \<in> folders d \<and> files d b \<noteq> None \<or> occupied d b \<or> under a b
          then (Some (Io_Error ''cannot be replaced''), d)
          else (None, d\<lparr>files := (\<lambda>p. case moved a b p of Some q \<Rightarrow> files d q | None \<Rightarrow> None),
                  folders := {p. case moved a b p of Some q \<Rightarrow> q \<in> folders d | None \<Rightarrow> False}\<rparr>))"

section \<open>Checks of a path\<close>

definition sanitize_path :: "string \<Rightarrow> string + string" where
  "sanitize_path path =
     (if CHR 0x00 \<in> set path then Inl ''path contains null byte''
      else if CHR 0x0A \<in> set path \<or> CHR 0x0D \<in> set path then Inl ''path contains newline''
      else Inr path)"

definition path_under_systemprofile :: "(string \<Rightarrow> string) \<Rightarrow> string \<Rightarrow> bool" where
  "path_under_systemprofile to_lowercase path =
     (let normalized = map (\<lambda>c. if c = CHR 0x5C then CHR ''/'' else c) (to_lowercase path)
      in contains normalized ''/config/systemprofile/'' \<or> ends_with normalized ''/config/systemprofile'')"

definition session_zero_hint :: "string \<Rightarrow> string" where
  "session_zero_hint feature =
     feature @ '' failed: this is the SYSTEM service (session 0, port 8822) which has no desktop.'' @ [CHR 0x0A, CHR 0x0A]
     @ ''Connect to the TRAY instance instead (port 9822, user session):'' @ [CHR 0x0A, CHR 0x0A]
     @ ''  mrsh -h <host> -p 9822 '' @ feature @ [CHR 0x0A, CHR 0x0A]
     @ ''If the tray is not running:'' @ [CHR 0x0A, CHR 0x0A]
     @ ''  mrsh -h <host> exec '' @ [CHR 0x27] @ ''schtasks /run /tn mrsh-tray'' @ [CHR 0x27, CHR 0x0A]
     @ ''  # wait 3-5 seconds, then use -p 9822''"

section \<open>Laws\<close>

lemma fs_write_frame [simp]:
  "folders (snd (fs_write p b d)) = folders d" "fault (snd (fs_write p b d)) = fault d"
  "other_device (snd (fs_write p b d)) = other_device d"
  by (auto simp: fs_write_def split: option.split)

lemma fs_write_files: "files (snd (fs_write p b d)) = (if write_error d p = None then (files d)(p \<mapsto> b) else files d)"
  by (auto simp: fs_write_def split: option.split)

lemma write_error_cong:
  "folders d' = folders d \<Longrightarrow> fault d' = fault d \<Longrightarrow> write_error d' p = write_error d p"
  by (simp add: write_error_def parent_there_def split: option.split)

lemma fs_read_write: "write_error d p = None \<Longrightarrow> fs_read (snd (fs_write p b d)) p = Inr b"
  by (auto simp: fs_read_def fs_write_files write_error_def split: option.splits if_splits)

lemma fs_read_write_other: "q \<noteq> p \<Longrightarrow> fs_read (snd (fs_write p b d)) q = fs_read d q"
  by (simp add: fs_read_def fs_write_files split: option.split)

lemma mkdir_frame:
  "mkdir p d = (r, d') \<Longrightarrow> files d' = files d \<and> fault d' = fault d \<and> other_device d' = other_device d \<and>
     folders d \<subseteq> folders d' \<and> (r = None \<longrightarrow> p \<in> folders d')"
  by (auto simp: mkdir_def split: option.splits if_splits)

lemma mkdir_or_there_frame:
  "mkdir_or_there p d = (r, d') \<Longrightarrow> files d' = files d \<and> fault d' = fault d \<and> other_device d' = other_device d \<and>
     folders d \<subseteq> folders d' \<and> (r = None \<longrightarrow> p \<in> folders d')"
  using mkdir_frame [of p d] by (auto simp: mkdir_or_there_def split: prod.splits option.splits if_splits)

lemma create_dir_all_frame:
  "create_dir_all p d = (r, d') \<Longrightarrow> files d' = files d \<and> fault d' = fault d \<and> other_device d' = other_device d \<and>
     folders d \<subseteq> folders d' \<and> (r = None \<longrightarrow> p = [] \<or> p \<in> folders d')"
proof (induction p d arbitrary: r d' rule: create_dir_all.induct)
  case (1 p d)
  note frame = mkdir_or_there_frame
  show ?case
  proof (cases "p = []")
    case True
    with 1 show ?thesis by (simp add: create_dir_all.simps)
  next
    case False
    obtain r1 d1 where m: "mkdir_or_there p d = (r1, d1)" by (cases "mkdir_or_there p d")
    show ?thesis
    proof (cases "r1 = Some Not_Found \<and> path_parent p \<noteq> None")
      case False
      with \<open>p \<noteq> []\<close> "1.prems" m frame [OF m] show ?thesis
        by (subst (asm) create_dir_all.simps) (auto split: option.splits io_error.splits)
    next
      case True
      then obtain q where q: "path_parent p = Some q" by auto
      obtain r2 d2 where c: "create_dir_all q d = (r2, d2)" by (cases "create_dir_all q d")
      have ih: "files d2 = files d \<and> fault d2 = fault d \<and> other_device d2 = other_device d \<and> folders d \<subseteq> folders d2"
        using "1.IH" [OF False m [symmetric] _ _ q c] True by auto
      have "create_dir_all p d = (case r2 of Some e \<Rightarrow> (Some e, d2) | None \<Rightarrow> mkdir_or_there p d2)"
        using True False m q c by (subst create_dir_all.simps) simp
      with ih "1.prems" frame [of p d2] show ?thesis by (auto split: option.splits)
    qed
  qed
qed

text \<open>What removing, copying and renaming leave elsewhere and at their target.\<close>

lemma create_dir_all_read:
  "create_dir_all q d = (r, d') \<Longrightarrow> fs_read d' p = fs_read d p \<or> (\<exists>m. fs_read d' p = Inl (Io_Error m))"
  using create_dir_all_frame [of q d r d'] by (auto simp: fs_read_def split: option.split)

lemma fs_remove_frame:
  "fs_remove p d = (r, d') \<Longrightarrow> folders d' = folders d \<and> fault d' = fault d \<and> other_device d' = other_device d \<and>
     (\<forall>q. q \<noteq> p \<longrightarrow> files d' q = files d q)"
  by (auto simp: fs_remove_def split: sum.splits)

lemma fs_remove_read: "q \<noteq> p \<Longrightarrow> fs_read (snd (fs_remove p d)) q = fs_read d q"
  by (cases "fs_remove p d") (auto simp: fs_read_def dest: fs_remove_frame split: option.split)

lemma fs_rename_target:
  assumes "fs_rename a b d = (None, d')" "a \<noteq> b" "a \<notin> folders d"
  shows "files d' b = files d a \<and> b \<notin> folders d' \<and> fault d' = fault d \<and> fault d b = None"
  using assms by (auto simp: fs_rename_def moved_def under_def split: option.splits if_splits)

lemma fs_rename_error: "fs_rename a b d = (Some e, d') \<Longrightarrow> d' = d"
  by (auto simp: fs_rename_def split: option.splits if_splits)

lemma short_not_under: "length q < length p \<Longrightarrow> \<not> under p q"
  by (auto simp: under_def starts_with_def dest: prefix_length_le)

lemma join_append:
  "join sep (xs @ ys) = join sep xs @ (if xs = [] \<or> ys = [] then [] else sep) @ join sep ys"
  by (induction xs) (auto simp: join_Cons)

lemma join_front_prefix:
  "dropWhile trivial_part (rev xs) = x # r \<Longrightarrow> prefix (join ''/'' (rev (dropWhile trivial_part r))) (join ''/'' xs)"
  using dropWhile_rev_split [of trivial_part xs x r] by (auto simp: join_append)

lemma path_parent_prefix: "path_parent p = Some q \<Longrightarrow> prefix q p"
proof (cases "starts_with p ''/''")
  case True
  then obtain s where p: "p = CHR ''/'' # s" by (cases p) (auto simp: starts_with_def)
  assume "path_parent p = Some q"
  with p True join_front_prefix [of "split_char (CHR ''/'') [] s"] show ?thesis
    by (auto simp: path_parent_def join_split_char split: list.splits)
next
  case False
  assume a: "path_parent p = Some q"
  obtain f rest where s: "split_char (CHR ''/'') [] p = f # rest" by (cases "split_char (CHR ''/'') [] p") auto
  have p: "p = join ''/'' (f # rest)" using join_split_char [of "CHR ''/''" "[]" p] s by simp
  show ?thesis
  proof (cases "dropWhile trivial_part (rev rest)")
    case Nil
    with a False s show ?thesis by (auto simp: path_parent_def split: if_splits)
  next
    case (Cons x r)
    with a False s have q: "q = join ''/'' (f # rev (dropWhile trivial_part r))" by (simp add: path_parent_def)
    have "rest \<noteq> []" using Cons by auto
    with join_front_prefix [OF Cons] show ?thesis by (auto simp: p q join_Cons)
  qed
qed

lemma fs_rename_folders:
  assumes "fs_rename a b d = (None, d')" "\<not> under a q" "\<not> under b q"
  shows "q \<in> folders d' \<longleftrightarrow> q \<in> folders d"
  using assms by (auto simp: fs_rename_def moved_def split: option.splits if_splits)

lemma fs_rename_source:
  assumes "fs_rename a b d = (None, d')" "a \<noteq> b" "\<not> under b a"
  shows "a \<notin> folders d' \<and> files d' a = None"
  using assms by (auto simp: fs_rename_def moved_def under_def split: option.splits if_splits)

lemma not_under_ext: "c \<noteq> CHR ''/'' \<Longrightarrow> prefix q (p @ c # s) \<Longrightarrow> q \<noteq> p \<Longrightarrow> \<not> under p q"
  by (auto simp: under_def starts_with_def prefix_def)

lemma fs_copy_other: "q \<noteq> dst \<Longrightarrow> files (snd (fs_copy src dst d)) q = files d q"
  by (auto simp: fs_copy_def fs_write_files split: sum.splits)

lemma fs_copy_target: "fst (fs_copy src dst d) = None \<Longrightarrow> files (snd (fs_copy src dst d)) dst = files d src"
  by (auto simp: fs_copy_def fs_read_def fs_write_def split: sum.splits option.splits if_splits)

lemma fs_remove_other: "q \<noteq> p \<Longrightarrow> files (snd (fs_remove p d)) q = files d q"
  by (cases "fs_remove p d") (auto dest: fs_remove_frame)

lemma fs_rename_other: "\<not> under a q \<Longrightarrow> \<not> under b q \<Longrightarrow> files (snd (fs_rename a b d)) q = files d q"
  by (auto simp: fs_rename_def moved_def split: option.splits)

lemma fs_rename_done:
  "fst (fs_rename a b d) = None \<Longrightarrow> a \<noteq> b \<Longrightarrow> files d a \<noteq> None \<Longrightarrow> files (snd (fs_rename a b d)) b = files d a"
  by (auto simp: fs_rename_def moved_def under_def split: option.splits if_splits)

lemma fs_rename_failed: "fst (fs_rename a b d) \<noteq> None \<Longrightarrow> snd (fs_rename a b d) = d"
  using fs_rename_error [of a b d] by (cases "fs_rename a b d") auto

lemma fs_copy_frame: "folders (snd (fs_copy a b d)) = folders d" "fault (snd (fs_copy a b d)) = fault d"
    "other_device (snd (fs_copy a b d)) = other_device d"
  by (auto simp: fs_copy_def split: sum.split)

lemma fs_copy_ok:
  "files d a \<noteq> None \<Longrightarrow> a \<notin> folders d \<Longrightarrow> fault d a = None \<Longrightarrow> write_error d b = None \<Longrightarrow>
     fst (fs_copy a b d) = None \<and> files (snd (fs_copy a b d)) b = files d a"
  by (auto simp: fs_copy_def fs_read_def fs_write_def)

lemma create_dir_all_there: "dir \<in> folders d \<Longrightarrow> fault d dir = None \<Longrightarrow> create_dir_all dir d = (None, d)"
  by (subst create_dir_all.simps) (auto simp: mkdir_or_there_def mkdir_def path_exists_def)

lemma suffixed_not_under: "c \<noteq> CHR ''/'' \<Longrightarrow> \<not> under p (p @ c # s)"
  by (auto simp: under_def starts_with_def)

lemma fs_rename_read:
  assumes "\<not> under a p" "\<not> under b p"
  shows "fs_read (snd (fs_rename a b d)) p = fs_read d p"
proof (cases "fs_rename a b d")
  case (Pair r d')
  show ?thesis
  proof (cases r)
    case None
    with Pair have "fault d' = fault d" by (auto simp: fs_rename_def split: option.splits if_splits)
    with Pair None assms fs_rename_other [of a p b d] fs_rename_folders [of a b d d' p] show ?thesis
      by (simp add: fs_read_def split: option.split)
  next
    case (Some e)
    with Pair fs_rename_error show ?thesis by fastforce
  qed
qed

section \<open>Entries of a directory\<close>

text \<open>A directory whose entries have it as their parent.\<close>

definition entry_name :: "string \<Rightarrow> bool" where
  "entry_name n \<longleftrightarrow> n \<noteq> [] \<and> n \<noteq> ''.'' \<and> CHR ''/'' \<notin> set n"

definition proper_dir :: "string \<Rightarrow> bool" where
  "proper_dir dir \<longleftrightarrow> dir = ''.'' \<or> \<not> trivial_part (last (split_char (CHR ''/'') [] dir))"

lemma split_char_append: "split_char d cur (s @ d # t) = split_char d cur s @ split_char d [] t"
  by (induction d cur s rule: split_char.induct) auto

lemma last_split_char_ends: "last (split_char d cur (s @ [d])) = []"
  by (simp add: split_char_append)

lemma proper_dir_join:
  assumes "proper_dir dir" "entry_name n"
  shows "path_join dir n = dir @ CHR ''/'' # n"
proof -
  have "dir \<noteq> []" using assms(1) by (auto simp: proper_dir_def trivial_part_def)
  moreover have "\<not> ends_with dir ''/''"
    using assms(1) by (auto simp: proper_dir_def trivial_part_def ends_with_def suffix_def last_split_char_ends)
  moreover have "\<not> starts_with n ''/''" using assms(2) by (auto simp: entry_name_def starts_with_def prefix_def)
  ultimately show ?thesis by (simp add: path_join_def)
qed

lemma proper_dir_join_proper: "proper_dir dir \<Longrightarrow> entry_name n \<Longrightarrow> proper_dir (path_join dir n)"
  by (simp add: proper_dir_join) (simp add: proper_dir_def split_char_append split_char_last entry_name_def trivial_part_def)

lemma parent_of_entry:
  assumes "proper_dir dir" "entry_name n"
  shows "path_parent (path_join dir n) = Some dir"
proof -
  have n: "split_char (CHR ''/'') [] n = [n]" "\<not> trivial_part n"
    using assms(2) by (simp_all add: entry_name_def split_char_last trivial_part_def)
  have drop: "dropWhile trivial_part (rev xs) = rev xs" if "xs \<noteq> [] \<Longrightarrow> \<not> trivial_part (last xs)" for xs
    using that by (cases xs rule: rev_cases) auto
  show ?thesis
  proof (cases "starts_with dir ''/''")
    case True
    then obtain t where t: "dir = CHR ''/'' # t" by (cases dir) (auto simp: starts_with_def)
    then have l: "\<not> trivial_part (last (split_char (CHR ''/'') [] t))" using assms(1) by (simp add: proper_dir_def)
    have "path_join dir n = CHR ''/'' # t @ CHR ''/'' # n" using proper_dir_join [OF assms] t by simp
    then show ?thesis
      using drop [of "split_char (CHR ''/'') [] t"] l
      by (simp add: path_parent_def starts_with_def split_char_append n join_split_char t)
  next
    case False
    obtain f rest where s: "split_char (CHR ''/'') [] dir = f # rest" by (cases "split_char (CHR ''/'') [] dir") auto
    have "rest \<noteq> [] \<Longrightarrow> \<not> trivial_part (last rest)" using assms(1) s by (auto simp: proper_dir_def)
    moreover have "\<not> starts_with (path_join dir n) ''/''"
      using False assms(1) proper_dir_join [OF assms]
      by (cases dir) (auto simp: starts_with_def proper_dir_def trivial_part_def)
    moreover have "join ''/'' (f # rest) = dir" using join_split_char [of "CHR ''/''" "[]" dir] s by simp
    ultimately show ?thesis
      using drop [of rest] by (simp add: path_parent_def proper_dir_join [OF assms] split_char_append s n)
  qed
qed

lemma child_under:
  assumes "proper_dir dir" "entry_name n" "under (path_join dir n) p"
  shows "p \<noteq> dir" "takeWhile (\<lambda>c. c \<noteq> CHR ''/'') (drop (Suc (length dir)) p) = n"
proof -
  obtain q where p: "p = dir @ CHR ''/'' # n @ q" and q: "q = [] \<or> hd q = CHR ''/''"
    using assms(3) by (auto simp: under_def proper_dir_join [OF assms(1,2)] starts_with_def prefix_def)
  then show "p \<noteq> dir" by simp
  have "takeWhile (\<lambda>c. c \<noteq> CHR ''/'') (n @ q) = n"
    using q assms(2) by (cases q) (auto simp: entry_name_def takeWhile_append2 takeWhile_tail)
  then show "takeWhile (\<lambda>c. c \<noteq> CHR ''/'') (drop (Suc (length dir)) p) = n" by (simp add: p)
qed

lemma under_trans: "under a b \<Longrightarrow> under b c \<Longrightarrow> under a c"
  by (auto simp: under_def starts_with_def prefix_def)

lemma under_entry: "proper_dir dir \<Longrightarrow> entry_name n \<Longrightarrow> under dir (path_join dir n)"
  by (simp add: proper_dir_join under_def starts_with_def)

section \<open>Writing many files\<close>

text \<open>A store of values under keys in which some keys can be written; what a batch of writes leaves.\<close>

locale keyed_store =
  fixes get :: "'s \<Rightarrow> 'k \<Rightarrow> 'v option"
    and put :: "'k \<Rightarrow> 'v \<Rightarrow> 's \<Rightarrow> 's"
    and writable :: "'s \<Rightarrow> 'k \<Rightarrow> bool"
  assumes put_get: "writable s k \<Longrightarrow> get (put k v s) k = Some v"
    and put_other: "k' \<noteq> k \<Longrightarrow> get (put k v s) k' = get s k'"
    and writable_put: "writable (put k v s) k' = writable s k'"
begin

lemma puts_other: "k \<notin> fst ` set kvs \<Longrightarrow> get (fold (\<lambda>(k, v). put k v) kvs s) k = get s k"
  by (induction kvs arbitrary: s) (auto simp: put_other split: prod.splits)

lemma puts_get:
  assumes "distinct (map fst kvs)" "(k, v) \<in> set kvs" "writable s k"
  shows "get (fold (\<lambda>(k, v). put k v) kvs s) k = Some v"
  using assms
proof (induction kvs arbitrary: s)
  case (Cons e kvs)
  obtain k' v' where e: "e = (k', v')" by (cases e)
  show ?case
  proof (cases "k = k'")
    case True
    with Cons.prems e have "k \<notin> fst ` set kvs" "v = v'" by (auto simp: rev_image_eqI)
    with True Cons.prems show ?thesis by (simp add: e puts_other put_get)
  next
    case False
    with Cons e show ?thesis by (simp add: writable_put)
  qed
qed simp

end

definition disk_get :: "disk \<Rightarrow> string \<Rightarrow> bytes option" where
  "disk_get d p = (case fs_read d p of Inr b \<Rightarrow> Some b | Inl _ \<Rightarrow> None)"

interpretation disk_store: keyed_store disk_get "\<lambda>p b d. snd (fs_write p b d)" "\<lambda>d p. write_error d p = None"
proof unfold_locales
  fix d p q and b :: bytes
  show "write_error d p = None \<Longrightarrow> disk_get (snd (fs_write p b d)) p = Some b"
    by (simp add: disk_get_def fs_read_write)
  show "q \<noteq> p \<Longrightarrow> disk_get (snd (fs_write p b d)) q = disk_get d q"
    by (simp add: disk_get_def fs_read_write_other)
  show "(write_error (snd (fs_write p b d)) q = None) = (write_error d q = None)"
    by (simp add: write_error_cong [of "snd (fs_write p b d)" d])
qed

end
