(* ===== verification/Fs_Transport.thy ===== *)
theory Fs_Transport
  imports File_System
begin

text \<open>
  \<open>mrsh-core/fs_transport.rs\<close> and \<open>mrsh-server/fs_listener.rs\<close>: a byte stream between two peers that share
  only a directory. One direction is a sequence of numbered chunk files, each written under a temporary name
  and renamed, and at the end a file with the number of the last one. The futures a stream keeps are stages
  between operations on the disk: an operation may be finished by the pool while nobody polls
  (\<open>write_op\<close>, \<open>read_op\<close>, \<open>shutdown_op\<close>), and a poll goes on for as long as operations finish at once, at most
  \<open>k\<close> of them.
\<close>

section \<open>Names\<close>

datatype role = Client_Role | Server_Role

definition role_send_dir :: "role \<Rightarrow> string" where
  "role_send_dir r = (case r of Client_Role \<Rightarrow> ''c2s'' | Server_Role \<Rightarrow> ''s2c'')"

definition role_recv_dir :: "role \<Rightarrow> string" where
  "role_recv_dir r = (case r of Client_Role \<Rightarrow> ''s2c'' | Server_Role \<Rightarrow> ''c2s'')"

definition send_sentinel :: "role \<Rightarrow> string" where
  "send_sentinel r = (case r of Client_Role \<Rightarrow> ''closed.c2s'' | Server_Role \<Rightarrow> ''closed.s2c'')"

definition recv_sentinel :: "role \<Rightarrow> string" where
  "recv_sentinel r = (case r of Client_Role \<Rightarrow> ''closed.s2c'' | Server_Role \<Rightarrow> ''closed.c2s'')"

text \<open>\<open>{:08}\<close>.\<close>

definition pad_8 :: "nat \<Rightarrow> string" where
  "pad_8 n = replicate (8 - length (show_nat n)) (CHR ''0'') @ show_nat n"

definition chunk_file :: "string \<Rightarrow> string \<Rightarrow> nat \<Rightarrow> string" where
  "chunk_file session_dir dir seq = path_join (path_join session_dir dir) (pad_8 seq @ ''.bin'')"

definition chunk_tmp :: "string \<Rightarrow> string \<Rightarrow> nat \<Rightarrow> string" where
  "chunk_tmp session_dir dir seq = path_join (path_join session_dir dir) (pad_8 seq @ ''.bin.tmp'')"

definition ensure_session_dirs :: "string \<Rightarrow> string \<Rightarrow> disk \<Rightarrow> (io_error + string) \<times> disk" where
  "ensure_session_dirs spool session_id d =
     (let session = path_join spool session_id in
      case create_dir_all (path_join session ''c2s'') d of
        (Some e, d1) \<Rightarrow> (Inl e, d1)
      | (None, d1) \<Rightarrow>
          (case create_dir_all (path_join session ''s2c'') d1 of
             (Some e, d2) \<Rightarrow> (Inl e, d2)
           | (None, d2) \<Rightarrow> (Inr session, d2)))"

text \<open>From eight random bytes.\<close>

definition generate_session_id :: "bytes \<Rightarrow> string" where
  "generate_session_id random = concat (map hex_byte random)"

section \<open>The futures\<close>

text \<open>A stage \<open>..._Queued\<close> waits for an operation, the others hold its result. An error that is not one of the
  system is \<open>Io_Error\<close> too.\<close>

datatype ('r, 's) poll = Ready 'r | Pending 's

datatype write_stage =
    Tmp_Queued nat bytes
  | Tmp_Written nat "io_error option"
  | Rename_Queued nat
  | Renamed "io_error option"

datatype read_stage =
    Read_Queued
  | Read_Got "bytes fs_result"
  | Exists_Queued
  | Exists_Got bool
  | Sentinel_Queued
  | Sentinel_Got "nat option"
  | Again_Queued "nat option"
  | Again_Got "nat option" "bytes fs_result"
  | Remove_Queued bytes
  | Removed bytes
  | Asleep
  | Awake

datatype shutdown_stage =
    Sentinel_Create nat
  | Sentinel_Created nat "io_error option"
  | Sentinel_Fill nat
  | Sentinel_Filled "io_error option"

record fs_stream =
  session_dir :: string
  role :: role
  read_seq :: nat
  read_eof :: bool
  read_buffer :: bytes
  read_cursor :: nat
  read_fut :: "read_stage option"
  write_seq :: nat
  write_fut :: "write_stage option"
  shutdown_fut :: "shutdown_stage option"
  shutdown_done :: bool

definition fresh_stream :: "string \<Rightarrow> role \<Rightarrow> fs_stream" where
  "fresh_stream dir r =
     \<lparr>session_dir = dir, role = r, read_seq = 1, read_eof = False, read_buffer = [], read_cursor = 0, read_fut = None,
      write_seq = 1, write_fut = None, shutdown_fut = None, shutdown_done = False\<rparr>"

definition open_stream :: "string \<Rightarrow> string \<Rightarrow> role \<Rightarrow> disk \<Rightarrow> (io_error + fs_stream) \<times> disk" where
  "open_stream spool session_id r d =
     (case ensure_session_dirs spool session_id d of
        (Inl e, d') \<Rightarrow> (Inl e, d')
      | (Inr dir, d') \<Rightarrow> (Inr (fresh_stream dir r), d'))"

section \<open>Writing a chunk\<close>

definition out_file :: "fs_stream \<Rightarrow> nat \<Rightarrow> string" where
  "out_file s seq = chunk_file (session_dir s) (role_send_dir (role s)) seq"

definition out_tmp :: "fs_stream \<Rightarrow> nat \<Rightarrow> string" where
  "out_tmp s seq = chunk_tmp (session_dir s) (role_send_dir (role s)) seq"

definition write_op :: "fs_stream \<Rightarrow> write_stage \<Rightarrow> disk \<Rightarrow> write_stage \<times> disk" where
  "write_op s f d =
     (case f of
        Tmp_Queued seq data \<Rightarrow> (case fs_write (out_tmp s seq) data d of (r, d') \<Rightarrow> (Tmp_Written seq r, d'))
      | Rename_Queued seq \<Rightarrow> (case fs_rename (out_tmp s seq) (out_file s seq) d of (r, d') \<Rightarrow> (Renamed r, d'))
      | _ \<Rightarrow> (f, d))"

definition write_next :: "write_stage \<Rightarrow> (io_error + unit, write_stage) poll" where
  "write_next f =
     (case f of
        Tmp_Written seq (Some e) \<Rightarrow> Ready (Inl e)
      | Tmp_Written seq None \<Rightarrow> Pending (Rename_Queued seq)
      | Renamed (Some e) \<Rightarrow> Ready (Inl e)
      | Renamed None \<Rightarrow> Ready (Inr ())
      | _ \<Rightarrow> Pending f)"

text \<open>Polling a future: go on, and when it waits let the operation finish, up to \<open>k\<close> times.\<close>

fun run_poll :: "('s \<Rightarrow> ('r, 's) poll) \<Rightarrow> ('s \<Rightarrow> disk \<Rightarrow> 's \<times> disk) \<Rightarrow> nat \<Rightarrow> 's \<Rightarrow> disk \<Rightarrow> ('r, 's) poll \<times> disk" where
  "run_poll next step k f d =
     (case next f of
        Ready r \<Rightarrow> (Ready r, d)
      | Pending f1 \<Rightarrow>
          (case k of
             0 \<Rightarrow> (Pending f1, d)
           | Suc j \<Rightarrow> (case step f1 d of (f2, d1) \<Rightarrow> run_poll next step j f2 d1)))"

declare run_poll.simps [simp del]

text \<open>Finish the pending write, if any; \<open>None\<close> when there is nothing more to wait for.\<close>

definition poll_pending_write :: "nat \<Rightarrow> fs_stream \<Rightarrow> disk \<Rightarrow> (io_error + unit, unit) poll \<times> fs_stream \<times> disk" where
  "poll_pending_write k s d =
     (case write_fut s of
        None \<Rightarrow> (Ready (Inr ()), s, d)
      | Some f \<Rightarrow>
          (case run_poll write_next (write_op s) k f d of
             (Pending f', d') \<Rightarrow> (Pending (), s\<lparr>write_fut := Some f'\<rparr>, d')
           | (Ready r, d') \<Rightarrow> (Ready r, s\<lparr>write_fut := None\<rparr>, d')))"

text \<open>\<open>poll_write\<close>: \<open>k\<close> for the pending write, \<open>j\<close> for the new one.\<close>

definition poll_write :: "nat \<Rightarrow> nat \<Rightarrow> bytes \<Rightarrow> fs_stream \<Rightarrow> disk \<Rightarrow> (io_error + nat, unit) poll \<times> fs_stream \<times> disk" where
  "poll_write k j data s d =
     (case poll_pending_write k s d of
        (Pending _, s1, d1) \<Rightarrow> (Pending (), s1, d1)
      | (Ready (Inl e), s1, d1) \<Rightarrow> (Ready (Inl e), s1, d1)
      | (Ready (Inr _), s1, d1) \<Rightarrow>
          if data = [] then (Ready (Inr 0), s1, d1)
          else let s2 = s1\<lparr>write_seq := write_seq s1 + 1\<rparr> in
               case run_poll write_next (write_op s2) j (Tmp_Queued (write_seq s1) data) d1 of
                 (Ready (Inr _), d2) \<Rightarrow> (Ready (Inr (length data)), s2, d2)
               | (Ready (Inl e), d2) \<Rightarrow> (Ready (Inl e), s2, d2)
               | (Pending f, d2) \<Rightarrow> (Ready (Inr (length data)), s2\<lparr>write_fut := Some f\<rparr>, d2))"

definition poll_flush :: "nat \<Rightarrow> fs_stream \<Rightarrow> disk \<Rightarrow> (io_error + unit, unit) poll \<times> fs_stream \<times> disk" where
  "poll_flush k s d = poll_pending_write k s d"

section \<open>The end of a direction\<close>

text \<open>\<open>fs::write\<close> of the sentinel creates the file before it fills it.\<close>

definition out_sentinel :: "fs_stream \<Rightarrow> string" where
  "out_sentinel s = path_join (session_dir s) (send_sentinel (role s))"

definition shutdown_op :: "fs_stream \<Rightarrow> shutdown_stage \<Rightarrow> disk \<Rightarrow> shutdown_stage \<times> disk" where
  "shutdown_op s f d =
     (case f of
        Sentinel_Create n \<Rightarrow> (case fs_write (out_sentinel s) [] d of (r, d') \<Rightarrow> (Sentinel_Created n r, d'))
      | Sentinel_Fill n \<Rightarrow> (case fs_write (out_sentinel s) (as_bytes (show_nat n)) d of (r, d') \<Rightarrow> (Sentinel_Filled r, d'))
      | _ \<Rightarrow> (f, d))"

definition shutdown_next :: "shutdown_stage \<Rightarrow> (io_error + unit, shutdown_stage) poll" where
  "shutdown_next f =
     (case f of
        Sentinel_Created n (Some e) \<Rightarrow> Ready (Inl e)
      | Sentinel_Created n None \<Rightarrow> Pending (Sentinel_Fill n)
      | Sentinel_Filled (Some e) \<Rightarrow> Ready (Inl e)
      | Sentinel_Filled None \<Rightarrow> Ready (Inr ())
      | _ \<Rightarrow> Pending f)"

definition poll_shutdown :: "nat \<Rightarrow> nat \<Rightarrow> fs_stream \<Rightarrow> disk \<Rightarrow> (io_error + unit, unit) poll \<times> fs_stream \<times> disk" where
  "poll_shutdown k j s d =
     (if shutdown_done s then (Ready (Inr ()), s, d)
      else case poll_pending_write k s d of
        (Pending _, s1, d1) \<Rightarrow> (Pending (), s1, d1)
      | (Ready (Inl e), s1, d1) \<Rightarrow> (Ready (Inl e), s1, d1)
      | (Ready (Inr _), s1, d1) \<Rightarrow>
          (let f = (case shutdown_fut s1 of Some f \<Rightarrow> f | None \<Rightarrow> Sentinel_Create (write_seq s1 - 1)) in
           case run_poll shutdown_next (shutdown_op s1) j f d1 of
             (Pending f', d2) \<Rightarrow> (Pending (), s1\<lparr>shutdown_fut := Some f'\<rparr>, d2)
           | (Ready r, d2) \<Rightarrow> (Ready r, s1\<lparr>shutdown_fut := None, shutdown_done := True\<rparr>, d2)))"

section \<open>Reading\<close>

definition in_file :: "fs_stream \<Rightarrow> string" where
  "in_file s = chunk_file (session_dir s) (role_recv_dir (role s)) (read_seq s)"

definition in_sentinel :: "fs_stream \<Rightarrow> string" where
  "in_sentinel s = path_join (session_dir s) (recv_sentinel (role s))"

definition read_sentinel_final_seq :: "disk \<Rightarrow> string \<Rightarrow> nat option" where
  "read_sentinel_final_seq d p =
     (case fs_read d p of
        Inl _ \<Rightarrow> None
      | Inr b \<Rightarrow>
          (case from_utf8 b of
             Inl _ \<Rightarrow> None
           | Inr t \<Rightarrow> if trim t = [] then None else parse_uint (2 ^ 64) (trim t)))"

definition read_op :: "fs_stream \<Rightarrow> read_stage \<Rightarrow> disk \<Rightarrow> read_stage \<times> disk" where
  "read_op s f d =
     (case f of
        Read_Queued \<Rightarrow> (Read_Got (fs_read d (in_file s)), d)
      | Exists_Queued \<Rightarrow> (Exists_Got (fault d (in_sentinel s) = None \<and> path_exists d (in_sentinel s)), d)
      | Sentinel_Queued \<Rightarrow> (Sentinel_Got (read_sentinel_final_seq d (in_sentinel s)), d)
      | Again_Queued m \<Rightarrow> (Again_Got m (fs_read d (in_file s)), d)
      | Remove_Queued b \<Rightarrow> (Removed b, snd (fs_remove (in_file s) d))
      | Asleep \<Rightarrow> (Awake, d)
      | _ \<Rightarrow> (f, d))"

definition read_next :: "nat \<Rightarrow> read_stage \<Rightarrow> (io_error + bytes option, read_stage) poll" where
  "read_next seq f =
     (case f of
        Read_Got (Inr b) \<Rightarrow> Pending (Remove_Queued b)
      | Read_Got (Inl Not_Found) \<Rightarrow> Pending Exists_Queued
      | Read_Got (Inl e) \<Rightarrow> Ready (Inl e)
      | Exists_Got x \<Rightarrow> Pending (if x then Sentinel_Queued else Asleep)
      | Sentinel_Got m \<Rightarrow> Pending (Again_Queued m)
      | Again_Got m (Inr b) \<Rightarrow> Pending (Remove_Queued b)
      | Again_Got (Some last_seq) (Inl _) \<Rightarrow> if last_seq < seq then Ready (Inr None) else Pending Asleep
      | Again_Got None (Inl _) \<Rightarrow> Pending Asleep
      | Removed b \<Rightarrow> Ready (Inr (Some b))
      | Awake \<Rightarrow> Pending Read_Queued
      | _ \<Rightarrow> Pending f)"

text \<open>\<open>poll_read\<close> with room for \<open>n\<close> bytes: the bytes put into the caller's buffer.\<close>

definition poll_read :: "nat \<Rightarrow> nat \<Rightarrow> fs_stream \<Rightarrow> disk \<Rightarrow> (bytes fs_result, unit) poll \<times> fs_stream \<times> disk" where
  "poll_read k n s d =
     (if read_cursor s < length (read_buffer s)
      then let remaining = drop (read_cursor s) (read_buffer s); m = min (length remaining) n; c = read_cursor s + m
           in (Ready (Inr (take m remaining)),
               if c = length (read_buffer s) then s\<lparr>read_buffer := [], read_cursor := 0\<rparr> else s\<lparr>read_cursor := c\<rparr>, d)
      else if read_eof s then (Ready (Inr []), s, d)
      else case run_poll (read_next (read_seq s)) (read_op s) k (case read_fut s of Some f \<Rightarrow> f | None \<Rightarrow> Read_Queued) d of
        (Pending f, d') \<Rightarrow> (Pending (), s\<lparr>read_fut := Some f\<rparr>, d')
      | (Ready (Inr (Some chunk)), d') \<Rightarrow>
          (let m = min (length chunk) n; s1 = s\<lparr>read_fut := None, read_seq := read_seq s + 1\<rparr>
           in (Ready (Inr (take m chunk)),
               if m < length chunk then s1\<lparr>read_buffer := chunk, read_cursor := m\<rparr> else s1, d'))
      | (Ready (Inr None), d') \<Rightarrow> (Ready (Inr []), s\<lparr>read_fut := None, read_eof := True\<rparr>, d')
      | (Ready (Inl e), d') \<Rightarrow> (Ready (Inl e), s\<lparr>read_fut := None, read_eof := True\<rparr>, d'))"

section \<open>The names of a session do not clash\<close>

lemma path_join_rest: "\<exists>q. \<forall>x. \<not> starts_with x ''/'' \<longrightarrow> path_join p x = q @ x"
proof (cases "p = [] \<or> ends_with p ''/''")
  case True
  then show ?thesis by (auto simp: path_join_def)
next
  case False
  then have "path_join p x = (p @ ''/'') @ x" if "\<not> starts_with x ''/''" for x using that by (simp add: path_join_def)
  then show ?thesis by blast
qed

lemma path_join_same: "\<not> starts_with a ''/'' \<Longrightarrow> \<not> starts_with b ''/'' \<Longrightarrow> path_join p a = path_join p b \<longleftrightarrow> a = b"
  by (simp add: path_join_def)

lemma under_same_dir:
  assumes "CHR ''/'' \<notin> set a" "CHR ''/'' \<notin> set b" "under (path_join p a) (path_join p b)"
  shows "a = b"
proof -
  have n: "\<not> starts_with a ''/''" "\<not> starts_with b ''/''" using assms(1,2) by (auto simp: starts_with_def prefix_def)
  then obtain q where "path_join p a = q @ a" "path_join p b = q @ b" using path_join_rest [of p] by blast
  with assms show ?thesis by (auto simp: under_def starts_with_def prefix_def)
qed

lemma parse_zeros: "0 < bound \<Longrightarrow> parse_digits bound 0 (replicate k (CHR ''0'') @ ds) = parse_digits bound 0 ds"
  by (induction k) auto

lemma pad_8_value: "n < bound \<Longrightarrow> parse_digits bound 0 (pad_8 n) = Some n"
  using parse_digits_show [of n bound "[]"] by (simp add: pad_8_def parse_zeros)

lemma pad_8_inj: "pad_8 m = pad_8 n \<Longrightarrow> m = n"
proof -
  assume e: "pad_8 m = pad_8 n"
  obtain bound where "m < bound" "n < bound" using lessI less_Suc_eq_le max.cobounded1 max.cobounded2 by metis
  then have "Some m = Some n" using pad_8_value e by metis
  then show "m = n" by simp
qed

lemma pad_8_no_slash: "CHR ''/'' \<notin> set (pad_8 n)"
proof
  assume "CHR ''/'' \<in> set (pad_8 n)"
  then have "CHR ''/'' \<in> set (show_nat n)" by (auto simp: pad_8_def)
  then obtain k :: nat where "k < 10" "CHR ''/'' = char_of (48 + k)" using show_nat_digits by blast
  then have "of_char (CHR ''/'') = 48 + k" by (simp add: take_bit_nat_eq_self)
  then show False by simp
qed

lemma no_slash_rel: "CHR ''/'' \<notin> set x \<Longrightarrow> \<not> starts_with x ''/''"
  by (auto simp: starts_with_def prefix_def)

lemma chunk_names:
  "chunk_file s dir m = chunk_file s dir n \<longleftrightarrow> m = n"
  "chunk_tmp s dir m = chunk_tmp s dir n \<longleftrightarrow> m = n"
  "chunk_file s dir m \<noteq> chunk_tmp s dir n"
  "under (chunk_file s dir m) (chunk_file s dir n) \<longleftrightarrow> m = n"
  "\<not> under (chunk_tmp s dir m) (chunk_file s dir n)"
  "\<not> under (chunk_file s dir m) (chunk_tmp s dir n)"
proof -
  have no: "CHR ''/'' \<notin> set (pad_8 m @ ''.bin'')" "CHR ''/'' \<notin> set (pad_8 m @ ''.bin.tmp'')" for m
    by (simp_all add: pad_8_no_slash)
  have st: "\<not> starts_with (pad_8 m @ ''.bin'') ''/''" "\<not> starts_with (pad_8 m @ ''.bin.tmp'') ''/''" for m
    by (rule no_slash_rel [OF no(1)], rule no_slash_rel [OF no(2)])
  have ne: "pad_8 m @ ''.bin'' \<noteq> pad_8 n @ ''.bin.tmp''" for m n
  proof
    assume "pad_8 m @ ''.bin'' = pad_8 n @ ''.bin.tmp''"
    then have "last (pad_8 m @ ''.bin'') = last (pad_8 n @ ''.bin.tmp'')" by (rule arg_cong)
    then show False by simp
  qed
  show "chunk_file s dir m = chunk_file s dir n \<longleftrightarrow> m = n" "chunk_tmp s dir m = chunk_tmp s dir n \<longleftrightarrow> m = n"
    using st by (auto simp: chunk_file_def chunk_tmp_def path_join_same dest: pad_8_inj)
  show "chunk_file s dir m \<noteq> chunk_tmp s dir n"
    using st ne by (simp add: chunk_file_def chunk_tmp_def path_join_same)
  show "under (chunk_file s dir m) (chunk_file s dir n) \<longleftrightarrow> m = n"
    using under_same_dir [OF no(1) no(1)] by (fastforce simp: chunk_file_def under_def dest: pad_8_inj)
  show "\<not> under (chunk_tmp s dir m) (chunk_file s dir n)" "\<not> under (chunk_file s dir m) (chunk_tmp s dir n)"
    using under_same_dir [OF no(2) no(1)] under_same_dir [OF no(1) no(2)] ne
    unfolding chunk_file_def chunk_tmp_def by metis+
qed

lemma sentinel_names:
  assumes "sub = ''c2s'' \<or> sub = ''s2c''" "sen = ''closed.c2s'' \<or> sen = ''closed.s2c''"
  shows "\<not> under (path_join s sen) (chunk_file s sub n)" "\<not> under (chunk_file s sub n) (path_join s sen)"
    "\<not> under (path_join s sen) (chunk_tmp s sub n)" "\<not> under (chunk_tmp s sub n) (path_join s sen)"
proof -
  have "\<not> starts_with sub ''/''" "\<not> starts_with sen ''/''" using assms by (auto simp: starts_with_def)
  then obtain q where q: "path_join s sub = q @ sub" "path_join s sen = q @ sen" using path_join_rest [of s] by blast
  have "\<not> ends_with (q @ sub) ''/''"
  proof
    assume "ends_with (q @ sub) ''/''"
    then have "last (q @ sub) = CHR ''/''" by (auto simp: ends_with_def suffix_def)
    with assms(1) show False by auto
  qed
  moreover have "q @ sub \<noteq> []" using assms(1) by auto
  ultimately have "path_join (q @ sub) x = q @ sub @ CHR ''/'' # x" if "\<not> starts_with x ''/''" for x
    using that by (simp add: path_join_def)
  moreover have "\<not> starts_with (pad_8 n @ ''.bin'') ''/''" "\<not> starts_with (pad_8 n @ ''.bin.tmp'') ''/''"
    by (intro no_slash_rel; simp add: pad_8_no_slash)+
  ultimately have names: "chunk_file s sub n = q @ sub @ CHR ''/'' # pad_8 n @ ''.bin''"
    "chunk_tmp s sub n = q @ sub @ CHR ''/'' # pad_8 n @ ''.bin.tmp''"
    by (simp_all add: chunk_file_def chunk_tmp_def q)
  show "\<not> under (path_join s sen) (chunk_file s sub n)" "\<not> under (chunk_file s sub n) (path_join s sen)"
    "\<not> under (path_join s sen) (chunk_tmp s sub n)" "\<not> under (chunk_tmp s sub n) (path_join s sen)"
    using assms by (auto simp: names q(2) under_def starts_with_def prefix_def)
qed

section \<open>One direction between two peers\<close>

text \<open>The disk, the stream of the sender and that of the receiver; the chunks that were given a number, the bytes
  the receiver has handed out, and whether one of its reads failed.\<close>

record fs_link =
  link_disk :: disk
  sender :: fs_stream
  receiver :: fs_stream
  numbered :: "bytes list"
  delivered :: bytes
  broken :: bool

definition other_role :: "role \<Rightarrow> role" where
  "other_role r = (case r of Client_Role \<Rightarrow> Server_Role | Server_Role \<Rightarrow> Client_Role)"

definition closing :: "fs_stream \<Rightarrow> bool" where
  "closing s \<longleftrightarrow> shutdown_fut s \<noteq> None \<or> shutdown_done s"

text \<open>The steps of the two peers, in any order, on an empty session directory. A sender that has asked for
  shutdown writes no more and its sequence number is 64 bits. All the rest of the disk changes at will:
  faults come and go, other files and the other direction.\<close>

definition same_direction :: "fs_stream \<Rightarrow> disk \<Rightarrow> disk \<Rightarrow> bool" where
  "same_direction s d d' \<longleftrightarrow>
     files d' (out_sentinel s) = files d (out_sentinel s) \<and>
     (\<forall>i. files d' (out_file s i) = files d (out_file s i) \<and> files d' (out_tmp s i) = files d (out_tmp s i))"

inductive link_reachable :: "fs_link \<Rightarrow> bool" where
  start: "files d (out_sentinel (fresh_stream dir r)) = None \<Longrightarrow> (\<And>i. files d (out_file (fresh_stream dir r) i) = None) \<Longrightarrow>
    link_reachable \<lparr>link_disk = d, sender = fresh_stream dir r, receiver = fresh_stream dir (other_role r), numbered = [],
      delivered = [], broken = False\<rparr>"
| write_chunk: "link_reachable L \<Longrightarrow> \<not> closing (sender L) \<Longrightarrow> write_seq (sender L) < 2 ^ 64 \<Longrightarrow>
    poll_write k j data (sender L) (link_disk L) = (p, s, d) \<Longrightarrow>
    link_reachable (L\<lparr>link_disk := d, sender := s,
      numbered := numbered L @ (if write_seq s = write_seq (sender L) then [] else [data])\<rparr>)"
| flush: "link_reachable L \<Longrightarrow> poll_flush k (sender L) (link_disk L) = (p, s, d) \<Longrightarrow>
    link_reachable (L\<lparr>link_disk := d, sender := s\<rparr>)"
| shut: "link_reachable L \<Longrightarrow> poll_shutdown k j (sender L) (link_disk L) = (p, s, d) \<Longrightarrow>
    link_reachable (L\<lparr>link_disk := d, sender := s\<rparr>)"
| write_runs: "link_reachable L \<Longrightarrow> write_fut (sender L) = Some f \<Longrightarrow> write_op (sender L) f (link_disk L) = (f', d) \<Longrightarrow>
    link_reachable (L\<lparr>link_disk := d, sender := (sender L)\<lparr>write_fut := Some f'\<rparr>\<rparr>)"
| shutdown_runs: "link_reachable L \<Longrightarrow> shutdown_fut (sender L) = Some f \<Longrightarrow>
    shutdown_op (sender L) f (link_disk L) = (f', d) \<Longrightarrow>
    link_reachable (L\<lparr>link_disk := d, sender := (sender L)\<lparr>shutdown_fut := Some f'\<rparr>\<rparr>)"
| read: "link_reachable L \<Longrightarrow> poll_read k n (receiver L) (link_disk L) = (p, s, d) \<Longrightarrow>
    link_reachable (L\<lparr>link_disk := d, receiver := s,
      delivered := delivered L @ (case p of Ready (Inr b) \<Rightarrow> b | _ \<Rightarrow> []),
      broken := broken L \<or> (case p of Ready (Inl _) \<Rightarrow> True | _ \<Rightarrow> False)\<rparr>)"
| read_runs: "link_reachable L \<Longrightarrow> read_fut (receiver L) = Some f \<Longrightarrow> read_op (receiver L) f (link_disk L) = (f', d) \<Longrightarrow>
    link_reachable (L\<lparr>link_disk := d, receiver := (receiver L)\<lparr>read_fut := Some f'\<rparr>\<rparr>)"
| elsewhere: "link_reachable L \<Longrightarrow> same_direction (sender L) (link_disk L) d \<Longrightarrow> link_reachable (L\<lparr>link_disk := d\<rparr>)"

section \<open>What the disk holds\<close>

definition chunk_at :: "bytes list \<Rightarrow> nat \<Rightarrow> bytes \<Rightarrow> bool" where
  "chunk_at cs i b \<longleftrightarrow> 0 < i \<and> i \<le> length cs \<and> b = cs ! (i - 1)"

definition chunks_ok :: "fs_stream \<Rightarrow> bytes list \<Rightarrow> disk \<Rightarrow> bool" where
  "chunks_ok s cs d \<longleftrightarrow> (\<forall>i b. files d (out_file s i) = Some b \<longrightarrow> chunk_at cs i b)"

definition sentinel_ok :: "fs_stream \<Rightarrow> bytes list \<Rightarrow> bool \<Rightarrow> disk \<Rightarrow> bool" where
  "sentinel_ok s cs closed d \<longleftrightarrow>
     (\<forall>b. files d (out_sentinel s) = Some b \<longrightarrow> closed \<and> (b = [] \<or> b = as_bytes (show_nat (length cs))))"

definition write_ok :: "fs_stream \<Rightarrow> bytes list \<Rightarrow> write_stage \<Rightarrow> disk \<Rightarrow> bool" where
  "write_ok s cs f d \<longleftrightarrow>
     (case f of
        Tmp_Queued seq data \<Rightarrow> chunk_at cs seq data
      | Tmp_Written seq r \<Rightarrow> r = None \<longrightarrow> (\<exists>b. files d (out_tmp s seq) = Some b \<and> chunk_at cs seq b)
      | Rename_Queued seq \<Rightarrow> (\<exists>b. files d (out_tmp s seq) = Some b \<and> chunk_at cs seq b)
      | Renamed r \<Rightarrow> True)"

definition shutdown_ok :: "bytes list \<Rightarrow> shutdown_stage \<Rightarrow> bool" where
  "shutdown_ok cs f \<longleftrightarrow>
     (case f of Sentinel_Create n \<Rightarrow> n = length cs | Sentinel_Created n r \<Rightarrow> n = length cs | Sentinel_Fill n \<Rightarrow> n = length cs
      | Sentinel_Filled r \<Rightarrow> True)"

definition read_ok :: "bytes list \<Rightarrow> bool \<Rightarrow> nat \<Rightarrow> read_stage \<Rightarrow> bool" where
  "read_ok cs closed seq f \<longleftrightarrow>
     (let here = chunk_at cs seq; final = (\<lambda>m. closed \<and> m = length cs) in
      case f of
        Read_Got (Inr b) \<Rightarrow> here b
      | Sentinel_Got (Some m) \<Rightarrow> final m
      | Again_Queued (Some m) \<Rightarrow> final m
      | Again_Got (Some m) r \<Rightarrow> final m \<and> (\<forall>b. r = Inr b \<longrightarrow> here b)
      | Again_Got None r \<Rightarrow> (\<forall>b. r = Inr b \<longrightarrow> here b)
      | Remove_Queued b \<Rightarrow> here b
      | Removed b \<Rightarrow> here b
      | _ \<Rightarrow> True)"

lemma out_names [simp]:
  "out_file (s\<lparr>write_seq := a\<rparr>) = out_file s" "out_file (s\<lparr>write_fut := b\<rparr>) = out_file s"
  "out_file (s\<lparr>shutdown_fut := c\<rparr>) = out_file s" "out_file (s\<lparr>shutdown_done := e\<rparr>) = out_file s"
  "out_tmp (s\<lparr>write_seq := a\<rparr>) = out_tmp s" "out_tmp (s\<lparr>write_fut := b\<rparr>) = out_tmp s"
  "out_tmp (s\<lparr>shutdown_fut := c\<rparr>) = out_tmp s" "out_tmp (s\<lparr>shutdown_done := e\<rparr>) = out_tmp s"
  "out_sentinel (s\<lparr>write_seq := a\<rparr>) = out_sentinel s" "out_sentinel (s\<lparr>write_fut := b\<rparr>) = out_sentinel s"
  "out_sentinel (s\<lparr>shutdown_fut := c\<rparr>) = out_sentinel s" "out_sentinel (s\<lparr>shutdown_done := e\<rparr>) = out_sentinel s"
  by (simp_all add: out_file_def out_tmp_def out_sentinel_def fun_eq_iff)

lemma out_distinct:
  "out_file s m = out_file s n \<longleftrightarrow> m = n" "out_tmp s m = out_tmp s n \<longleftrightarrow> m = n" "out_file s m \<noteq> out_tmp s n"
  "under (out_file s m) (out_file s n) \<longleftrightarrow> m = n" "\<not> under (out_tmp s m) (out_file s n)"
  "\<not> under (out_file s m) (out_tmp s n)"
  "\<not> under (out_sentinel s) (out_file s n)" "\<not> under (out_file s n) (out_sentinel s)"
  "\<not> under (out_sentinel s) (out_tmp s n)" "\<not> under (out_tmp s n) (out_sentinel s)"
  unfolding out_file_def out_tmp_def out_sentinel_def
  by (auto simp: chunk_names sentinel_names role_send_dir_def send_sentinel_def split: role.split)

lemma out_apart: "out_file s n \<noteq> out_sentinel s" "out_tmp s n \<noteq> out_sentinel s" "out_sentinel s \<noteq> out_file s n"
    "out_sentinel s \<noteq> out_tmp s n" "out_file s m \<noteq> out_tmp s n" "out_tmp s n \<noteq> out_file s m"
  using out_distinct(3) [of s m n] out_distinct(7,9) [of s n] by (auto simp: under_def)

lemma run_poll_inv:
  assumes "P f d" and nx: "\<And>f d f'. P f d \<Longrightarrow> nx f = Pending f' \<Longrightarrow> P f' d"
    and op: "\<And>f d f' d'. P f d \<Longrightarrow> op f d = (f', d') \<Longrightarrow> P f' d'"
    and ready: "\<And>f d r. P f d \<Longrightarrow> nx f = Ready r \<Longrightarrow> Q r d"
  shows "case run_poll nx op k f d of (Ready r, d') \<Rightarrow> Q r d' | (Pending f', d') \<Rightarrow> P f' d'"
  using assms(1)
proof (induction k arbitrary: f d)
  case 0
  then show ?case by (subst run_poll.simps) (auto split: poll.split intro: nx ready)
next
  case (Suc k)
  show ?case
  proof (cases "nx f")
    case (Ready r)
    with Suc ready show ?thesis by (subst run_poll.simps) simp
  next
    case (Pending f1)
    obtain f2 d2 where s: "op f1 d = (f2, d2)" by (cases "op f1 d")
    have "P f2 d2" using op [OF nx [OF Suc.prems Pending] s] .
    from Suc.IH [OF this] show ?thesis by (subst run_poll.simps) (simp add: Pending s)
  qed
qed

definition disk_ok :: "fs_stream \<Rightarrow> bytes list \<Rightarrow> bool \<Rightarrow> disk \<Rightarrow> bool" where
  "disk_ok s cs closed d \<longleftrightarrow> chunks_ok s cs d \<and> sentinel_ok s cs closed d"

lemma disk_ok_write_tmp: "disk_ok s cs closed d \<Longrightarrow> disk_ok s cs closed (snd (fs_write (out_tmp s i) b d))"
  by (auto simp: out_apart disk_ok_def chunks_ok_def sentinel_ok_def fs_write_files split: if_splits)

lemma disk_ok_rename:
  assumes "disk_ok s cs closed d" "files d (out_tmp s i) = Some b" "chunk_at cs i b"
  shows "disk_ok s cs closed (snd (fs_rename (out_tmp s i) (out_file s i) d))"
proof (cases "fst (fs_rename (out_tmp s i) (out_file s i) d)")
  case None
  have "files (snd (fs_rename (out_tmp s i) (out_file s i) d)) (out_file s i) = Some b"
    using fs_rename_done [OF None out_apart(6)] assms(2) by simp
  moreover have "files (snd (fs_rename (out_tmp s i) (out_file s i) d)) p = files d p"
    if "p = out_sentinel s \<or> (\<exists>j. j \<noteq> i \<and> p = out_file s j)" for p
    using that out_distinct [of s] by (intro fs_rename_other) auto
  ultimately show ?thesis
    using assms(1,3) unfolding disk_ok_def chunks_ok_def sentinel_ok_def by (metis option.inject)
next
  case (Some e)
  with fs_rename_failed assms(1) show ?thesis by simp
qed

lemma write_op_ok:
  assumes "disk_ok s cs closed d" "write_ok s cs f d" "write_op s f d = (f', d')"
  shows "disk_ok s cs closed d' \<and> write_ok s cs f' d'"
proof (cases f)
  case (Tmp_Queued i data)
  obtain r where w: "fs_write (out_tmp s i) data d = (r, d')" "f' = Tmp_Written i r"
    using assms(3) Tmp_Queued by (cases "fs_write (out_tmp s i) data d") (auto simp: write_op_def)
  have "r = None \<Longrightarrow> files d' (out_tmp s i) = Some data"
    using w(1) by (auto simp: fs_write_def split: option.splits)
  with w assms Tmp_Queued disk_ok_write_tmp [OF assms(1), of i data] show ?thesis by (auto simp: write_ok_def)
next
  case (Rename_Queued i)
  with assms disk_ok_rename [OF assms(1), of i] show ?thesis
    by (cases "fs_rename (out_tmp s i) (out_file s i) d") (auto simp: write_op_def write_ok_def)
qed (use assms in \<open>auto simp: write_op_def\<close>)

lemma write_next_ok: "write_ok s cs f d \<Longrightarrow> write_next f = Pending f' \<Longrightarrow> write_ok s cs f' d"
  by (auto simp: write_next_def write_ok_def split: write_stage.splits option.splits)

lemma run_write_ok:
  assumes "disk_ok s cs closed d" "write_ok s cs f d"
  shows "case run_poll write_next (write_op s) k f d of
      (Ready r, d') \<Rightarrow> disk_ok s cs closed d' | (Pending f', d') \<Rightarrow> disk_ok s cs closed d' \<and> write_ok s cs f' d'"
  by (rule run_poll_inv [of "\<lambda>f d. disk_ok s cs closed d \<and> write_ok s cs f d"])
    (use assms write_op_ok write_next_ok in blast)+

lemma shutdown_op_ok:
  assumes "disk_ok s cs closed d" "shutdown_ok cs f" "closed" "shutdown_op s f d = (f', d')"
  shows "disk_ok s cs closed d' \<and> shutdown_ok cs f'"
  using assms
  by (cases f) (auto simp: out_apart shutdown_op_def shutdown_ok_def disk_ok_def chunks_ok_def sentinel_ok_def fs_write_def
      split: option.splits if_splits)

lemma shutdown_next_ok: "shutdown_ok cs f \<Longrightarrow> shutdown_next f = Pending f' \<Longrightarrow> shutdown_ok cs f'"
  by (auto simp: shutdown_next_def shutdown_ok_def split: shutdown_stage.splits option.splits)

lemma run_shutdown_ok:
  assumes "disk_ok s cs True d" "shutdown_ok cs f"
  shows "case run_poll shutdown_next (shutdown_op s) k f d of
      (Ready r, d') \<Rightarrow> disk_ok s cs True d' | (Pending f', d') \<Rightarrow> disk_ok s cs True d' \<and> shutdown_ok cs f'"
  by (rule run_poll_inv [of "\<lambda>f d. disk_ok s cs True d \<and> shutdown_ok cs f"])
    (use assms shutdown_op_ok [OF _ _ TrueI] shutdown_next_ok in blast)+

lemma show_nat_text: "trim (show_nat n) = show_nat n" "is_str (show_nat n)"
proof -
  show "trim (show_nat n) = show_nat n"
  proof (rule trim_graphic_ends)
    show "graphic (hd (show_nat n))" "graphic (last (show_nat n))"
      using show_nat_token [of n] by (auto simp: token_def list_all_iff)
  qed simp
  show "is_str (show_nat n)"
    using show_nat_token [of n] by (intro is_ascii_is_str) (auto simp: is_ascii_def token_def graphic_def list_all_iff)
qed

lemma sentinel_read:
  assumes "disk_ok s cs closed d" "length cs < 2 ^ 64" "read_sentinel_final_seq d (out_sentinel s) = Some m"
  shows "closed \<and> m = length cs"
proof -
  have "from_utf8 [] = Inr []" by (simp add: from_utf8_def str_of_bytes_def)
  then show ?thesis
    using assms by (auto simp: show_nat_text read_sentinel_final_seq_def fs_read_def disk_ok_def sentinel_ok_def parse_uint_show
        split: sum.splits option.splits if_splits)
qed

lemma read_op_ok:
  assumes "disk_ok s cs closed d" "read_ok cs closed (read_seq t) f" "length cs < 2 ^ 64"
    and names: "in_file t = out_file s (read_seq t)" "in_sentinel t = out_sentinel s"
    and "read_op t f d = (f', d')"
  shows "disk_ok s cs closed d' \<and> read_ok cs closed (read_seq t) f' \<and> (\<forall>i. files d' (out_tmp s i) = files d (out_tmp s i))"
proof -
  have here: "chunk_at cs (read_seq t) b" if "fs_read d (in_file t) = Inr b" for b
    using that assms(1) by (auto simp: names fs_read_def disk_ok_def chunks_ok_def split: option.splits if_splits)
  have last: "closed \<and> m = length cs" if "read_sentinel_final_seq d (in_sentinel t) = Some m" for m
    using sentinel_read [OF assms(1,3)] that by (simp add: names)
  have rm: "files (snd (fs_remove (in_file t) d)) p = (if p = in_file t \<and> fst (fs_remove (in_file t) d) = None then None else files d p)" for p
    by (auto simp: fs_remove_def split: sum.split)
  show ?thesis
  proof (cases f)
    case (Remove_Queued b)
    with assms rm show ?thesis
      by (auto simp: read_op_def read_ok_def disk_ok_def chunks_ok_def sentinel_ok_def names out_apart Let_def split: if_splits)
  next
    case (Again_Queued m)
    with assms here show ?thesis by (cases m) (auto simp: read_op_def read_ok_def Let_def)
  qed (use assms here last in \<open>auto simp: read_op_def read_ok_def Let_def split: sum.split option.split\<close>)
qed

lemma read_next_ok: "read_ok cs closed seq f \<Longrightarrow> read_next seq f = Pending f' \<Longrightarrow> read_ok cs closed seq f'"
  by (cases f) (auto simp: read_next_def read_ok_def Let_def split: sum.splits option.splits io_error.splits if_splits)

definition answer_ok :: "bytes list \<Rightarrow> bool \<Rightarrow> nat \<Rightarrow> (io_error + bytes option) \<Rightarrow> bool" where
  "answer_ok cs closed seq r \<longleftrightarrow>
     (case r of
        Inr (Some b) \<Rightarrow> chunk_at cs seq b
      | Inr None \<Rightarrow> closed \<and> length cs < seq
      | Inl _ \<Rightarrow> True)"

lemma read_next_ready: "read_ok cs closed seq f \<Longrightarrow> read_next seq f = Ready r \<Longrightarrow> answer_ok cs closed seq r"
  by (cases f) (auto simp: read_next_def read_ok_def answer_ok_def Let_def split: sum.splits option.splits io_error.splits if_splits)

lemma run_read_ok:
  assumes "disk_ok s cs closed d" "read_ok cs closed (read_seq t) f" "length cs < 2 ^ 64"
    and "in_file t = out_file s (read_seq t)" "in_sentinel t = out_sentinel s"
  shows "case run_poll (read_next (read_seq t)) (read_op t) k f d of
      (Ready r, d') \<Rightarrow> (disk_ok s cs closed d' \<and> (\<forall>i. files d' (out_tmp s i) = files d (out_tmp s i))) \<and>
        answer_ok cs closed (read_seq t) r
    | (Pending f', d') \<Rightarrow> (disk_ok s cs closed d' \<and> (\<forall>i. files d' (out_tmp s i) = files d (out_tmp s i))) \<and>
        read_ok cs closed (read_seq t) f'"
proof (rule run_poll_inv [of "\<lambda>f d'. (disk_ok s cs closed d' \<and> (\<forall>i. files d' (out_tmp s i) = files d (out_tmp s i))) \<and>
        read_ok cs closed (read_seq t) f"], goal_cases)
    case (3 f d1 f' d2)
    then show ?case using read_op_ok [OF _ _ assms(3-5), of closed d1 f f' d2] by auto
qed (use assms(1,2) read_next_ok read_next_ready in blast)+

section \<open>The invariant of a link\<close>

definition writer_ok :: "fs_stream \<Rightarrow> bytes list \<Rightarrow> disk \<Rightarrow> bool" where
  "writer_ok s cs d \<longleftrightarrow>
     disk_ok s cs (closing s) d \<and> (\<forall>f. write_fut s = Some f \<longrightarrow> write_ok s cs f d) \<and>
     (\<forall>f. shutdown_fut s = Some f \<longrightarrow> shutdown_ok cs f) \<and> write_seq s = Suc (length cs) \<and> length cs < 2 ^ 64"

definition paired :: "fs_stream \<Rightarrow> fs_stream \<Rightarrow> bool" where
  "paired s t \<longleftrightarrow> session_dir t = session_dir s \<and> role t = other_role (role s)"

definition reader_ok :: "bytes list \<Rightarrow> bool \<Rightarrow> fs_stream \<Rightarrow> bytes \<Rightarrow> bool \<Rightarrow> bool" where
  "reader_ok cs closed t got failed \<longleftrightarrow>
     0 < read_seq t \<and> read_seq t \<le> Suc (length cs) \<and> read_cursor t \<le> length (read_buffer t) \<and>
     got @ drop (read_cursor t) (read_buffer t) = concat (take (read_seq t - 1) cs) \<and>
     (\<forall>f. read_fut t = Some f \<longrightarrow> read_ok cs closed (read_seq t) f) \<and>
     (read_eof t \<longrightarrow> \<not> failed \<longrightarrow> closed \<and> read_seq t = Suc (length cs) \<and> drop (read_cursor t) (read_buffer t) = [])"

definition link_ok :: "fs_link \<Rightarrow> bool" where
  "link_ok L \<longleftrightarrow>
     writer_ok (sender L) (numbered L) (link_disk L) \<and> paired (sender L) (receiver L) \<and>
     reader_ok (numbered L) (closing (sender L)) (receiver L) (delivered L) (broken L)"

lemma paired_names:
  assumes "paired s t"
  shows "in_file t = out_file s (read_seq t)" "in_sentinel t = out_sentinel s"
  using assms
  by (auto simp: paired_def in_file_def out_file_def in_sentinel_def out_sentinel_def other_role_def role_send_dir_def role_recv_dir_def
      send_sentinel_def recv_sentinel_def split: role.splits)

lemma paired_update [simp]:
  "paired (s\<lparr>write_fut := a\<rparr>) t = paired s t" "paired (s\<lparr>write_seq := b\<rparr>) t = paired s t"
  "paired (s\<lparr>shutdown_fut := c\<rparr>) t = paired s t" "paired (s\<lparr>shutdown_done := e\<rparr>) t = paired s t"
  by (simp_all add: paired_def)

lemma disk_ok_cong: "same_direction s d d' \<Longrightarrow> disk_ok s cs c d \<Longrightarrow> disk_ok s cs c d'"
  by (auto simp: same_direction_def disk_ok_def chunks_ok_def sentinel_ok_def)

lemma write_ok_cong: "(\<forall>i. files d' (out_tmp s i) = files d (out_tmp s i)) \<Longrightarrow> write_ok s cs f d' = write_ok s cs f d"
  by (auto simp: write_ok_def split: write_stage.split)

lemma chunk_at_more: "chunk_at cs i b \<Longrightarrow> chunk_at (cs @ [x]) i b"
  by (auto simp: chunk_at_def nth_append)

lemma write_ok_more: "write_ok s cs f d \<Longrightarrow> write_ok s (cs @ [x]) f d"
  by (auto simp: write_ok_def intro: chunk_at_more split: write_stage.splits)

lemma disk_ok_more: "disk_ok s cs False d \<Longrightarrow> disk_ok s (cs @ [x]) False d"
  by (auto simp: disk_ok_def chunks_ok_def sentinel_ok_def intro: chunk_at_more)

lemma disk_ok_close: "disk_ok s cs c d \<Longrightarrow> disk_ok s cs True d"
  by (auto simp: disk_ok_def sentinel_ok_def)

lemma read_ok_more: "read_ok cs False seq f \<Longrightarrow> read_ok (cs @ [x]) False seq f"
  by (cases f) (auto simp: read_ok_def Let_def intro: chunk_at_more split: sum.splits option.splits)

lemma read_ok_close: "read_ok cs c seq f \<Longrightarrow> read_ok cs True seq f"
  by (cases f) (auto simp: read_ok_def Let_def split: sum.splits option.splits)

lemma reader_ok_more: "reader_ok cs False t got b \<Longrightarrow> reader_ok (cs @ [x]) False t got b"
  by (auto simp: reader_ok_def intro: read_ok_more)

lemma reader_ok_close: "reader_ok cs c t got b \<Longrightarrow> reader_ok cs True t got b"
  by (auto simp: reader_ok_def intro: read_ok_close)

lemma disk_ok_stream [simp]:
  "disk_ok (s\<lparr>write_fut := a\<rparr>) = disk_ok s" "disk_ok (s\<lparr>write_seq := b\<rparr>) = disk_ok s"
  "disk_ok (s\<lparr>shutdown_fut := c\<rparr>) = disk_ok s" "disk_ok (s\<lparr>shutdown_done := e\<rparr>) = disk_ok s"
  "write_ok (s\<lparr>write_fut := a\<rparr>) = write_ok s" "write_ok (s\<lparr>write_seq := b\<rparr>) = write_ok s"
  "write_ok (s\<lparr>shutdown_fut := c\<rparr>) = write_ok s" "write_ok (s\<lparr>shutdown_done := e\<rparr>) = write_ok s"
  by (simp_all add: disk_ok_def chunks_ok_def sentinel_ok_def write_ok_def fun_eq_iff cong: write_stage.case_cong)

lemma closing_update [simp]:
  "closing (s\<lparr>write_fut := a\<rparr>) = closing s" "closing (s\<lparr>write_seq := b\<rparr>) = closing s"
  by (simp_all add: closing_def)

lemma pending_write_ok:
  assumes "writer_ok s cs d" "poll_pending_write k s d = (p, s', d')"
  shows "writer_ok s' cs d' \<and> (\<exists>w. s' = s\<lparr>write_fut := w\<rparr>) \<and> (\<forall>r. p = Ready r \<longrightarrow> write_fut s' = None)"
proof (cases "write_fut s")
  case None
  then have "s\<lparr>write_fut := None\<rparr> = s" by (cases s) simp
  with None assms show ?thesis by (auto simp: poll_pending_write_def intro: exI [of _ None])
next
  case (Some f)
  then have "disk_ok s cs (closing s) d" "write_ok s cs f d" using assms(1) by (auto simp: writer_ok_def)
  from run_write_ok [OF this, of k] assms Some show ?thesis
    by (auto simp: poll_pending_write_def writer_ok_def split: prod.splits poll.splits)
qed

lemma poll_write_ok:
  assumes w: "writer_ok s cs d" and "\<not> closing s" "write_seq s < 2 ^ 64" and p: "poll_write k j data s d = (p, s', d')"
  shows "writer_ok s' (cs @ (if write_seq s' = write_seq s then [] else [data])) d' \<and> \<not> closing s' \<and>
    (\<forall>t. paired s t \<longrightarrow> paired s' t)"
proof -
  obtain q s1 d1 where q: "poll_pending_write k s d = (q, s1, d1)" by (cases "poll_pending_write k s d")
  have s1: "writer_ok s1 cs d1" "\<exists>v. s1 = s\<lparr>write_fut := v\<rparr>" "\<forall>r. q = Ready r \<longrightarrow> write_fut s1 = None"
    using pending_write_ok [OF w q] by auto
  then have same: "write_seq s1 = write_seq s" "closing s1 = closing s" "\<And>t. paired s1 t = paired s t" by auto
  show ?thesis
  proof (cases "(\<exists>u. q = Ready (Inr u)) \<and> data \<noteq> []")
    case False
    with p q have "s' = s1 \<and> d' = d1" by (auto simp: poll_write_def split: poll.splits sum.splits)
    with s1 same assms(2) show ?thesis by simp
  next
    case True
    let ?s2 = "s1\<lparr>write_seq := write_seq s1 + 1\<rparr>"
    have "disk_ok s1 (cs @ [data]) False d1"
      using s1(1) same assms(2) by (intro disk_ok_more) (simp add: writer_ok_def)
    moreover have "write_ok s1 (cs @ [data]) (Tmp_Queued (write_seq s1) data) d1"
      using s1(1) by (simp add: write_ok_def writer_ok_def chunk_at_def)
    ultimately have r: "case run_poll write_next (write_op ?s2) j (Tmp_Queued (write_seq s1) data) d1 of
        (Ready r, d2) \<Rightarrow> disk_ok ?s2 (cs @ [data]) False d2
      | (Pending f, d2) \<Rightarrow> disk_ok ?s2 (cs @ [data]) False d2 \<and> write_ok ?s2 (cs @ [data]) f d2"
      by (intro run_write_ok) simp_all
    have "write_fut s1 = None" "shutdown_fut s1 = None" "write_seq s1 = Suc (length cs)"
      using True s1 same assms(2) by (auto simp: closing_def writer_ok_def)
    moreover have "length (cs @ [data]) < 2 ^ 64" using assms(1,3) by (simp add: writer_ok_def)
    ultimately show ?thesis
      using p q True r same assms(2)
      by (auto simp: poll_write_def writer_ok_def Let_def split: prod.splits poll.splits sum.splits)
  qed
qed

lemma shutdown_op_writer:
  assumes "writer_ok s cs d" "shutdown_fut s = Some f" "shutdown_op s f d = (f', d')"
  shows "writer_ok (s\<lparr>shutdown_fut := Some f'\<rparr>) cs d'"
proof -
  have c: "closing s" using assms(2) by (simp add: closing_def)
  have "disk_ok s cs True d" "shutdown_ok cs f" using assms c by (simp_all add: writer_ok_def)
  from shutdown_op_ok [OF this TrueI assms(3)] have "disk_ok s cs True d' \<and> shutdown_ok cs f'" .
  moreover have "files d' (out_tmp s i) = files d (out_tmp s i)" for i
    using assms(3) by (cases f) (auto simp: shutdown_op_def fs_write_def out_apart split: option.splits)
  then have "write_ok s cs g d' = write_ok s cs g d" for g by (intro write_ok_cong) simp
  ultimately show ?thesis using assms(1) c by (simp add: writer_ok_def closing_def)
qed

lemma poll_shutdown_ok:
  assumes w: "writer_ok s cs d" and p: "poll_shutdown k j s d = (p, s', d')"
  shows "writer_ok s' cs d' \<and> (closing s \<longrightarrow> closing s') \<and> (\<forall>t. paired s t \<longrightarrow> paired s' t)"
proof (cases "shutdown_done s")
  case True
  with assms show ?thesis by (simp add: poll_shutdown_def)
next
  case False
  obtain q s1 d1 where q: "poll_pending_write k s d = (q, s1, d1)" by (cases "poll_pending_write k s d")
  have s1: "writer_ok s1 cs d1" "\<exists>v. s1 = s\<lparr>write_fut := v\<rparr>" "\<forall>r. q = Ready r \<longrightarrow> write_fut s1 = None"
    using pending_write_ok [OF w q] by auto
  then have same: "closing s1 = closing s" "shutdown_done s1 = shutdown_done s" "\<And>t. paired s1 t = paired s t" by auto
  show ?thesis
  proof (cases "\<exists>u. q = Ready (Inr u)")
    case no: False
    with p q False have "s' = s1 \<and> d' = d1" by (auto simp: poll_shutdown_def split: poll.splits sum.splits)
    with s1 same show ?thesis by simp
  next
    case yes: True
    let ?f = "case shutdown_fut s1 of Some f \<Rightarrow> f | None \<Rightarrow> Sentinel_Create (write_seq s1 - 1)"
    have "disk_ok s1 cs True d1" using s1(1) by (auto simp: writer_ok_def intro: disk_ok_close)
    moreover have "shutdown_ok cs ?f" using s1(1) by (auto simp: writer_ok_def shutdown_ok_def split: option.split)
    ultimately have r: "case run_poll shutdown_next (shutdown_op s1) j ?f d1 of
        (Ready r, d2) \<Rightarrow> disk_ok s1 cs True d2 | (Pending f, d2) \<Rightarrow> disk_ok s1 cs True d2 \<and> shutdown_ok cs f"
      by (rule run_shutdown_ok)
    have "write_fut s1 = None" using yes s1(3) by blast
    with r yes p q False s1(1) same show ?thesis
      by (auto simp: poll_shutdown_def writer_ok_def Let_def closing_def split: prod.splits poll.splits)
  qed
qed

lemma write_op_writer:
  assumes "writer_ok s cs d" "write_fut s = Some f" "write_op s f d = (f', d')"
  shows "writer_ok (s\<lparr>write_fut := Some f'\<rparr>) cs d'"
  using assms write_op_ok [of s cs "closing s" d f f' d'] by (simp add: writer_ok_def)

lemma poll_read_ok:
  assumes w: "writer_ok s cs d" and pr: "paired s t" and r: "reader_ok cs (closing s) t got failed"
    and p: "poll_read k n t d = (p, t', d')"
  shows "writer_ok s cs d' \<and> paired s t' \<and>
    reader_ok cs (closing s) t' (got @ (case p of Ready (Inr b) \<Rightarrow> b | _ \<Rightarrow> []))
      (failed \<or> (case p of Ready (Inl _) \<Rightarrow> True | _ \<Rightarrow> False))"
proof (cases "read_cursor t < length (read_buffer t)")
  case True
  let ?rest = "drop (read_cursor t) (read_buffer t)"
  define m where "m = min (length ?rest) n"
  have "drop (read_cursor t + m) (read_buffer t) = drop m ?rest" by (simp add: add.commute)
  then have "take m ?rest @ drop (read_cursor t + m) (read_buffer t) = ?rest" by (metis append_take_drop_id)
  moreover have "(p, t', d') = (Ready (Inr (take m ?rest)),
      if read_cursor t + m = length (read_buffer t) then t\<lparr>read_buffer := [], read_cursor := 0\<rparr> else t\<lparr>read_cursor := read_cursor t + m\<rparr>, d)"
    using p True by (simp only: poll_read_def Let_def if_True m_def)
  then have "p = Ready (Inr (take m ?rest))" "d' = d"
    "t' = (if read_cursor t + m = length (read_buffer t) then t\<lparr>read_buffer := [], read_cursor := 0\<rparr> else t\<lparr>read_cursor := read_cursor t + m\<rparr>)"
    by simp_all
  moreover have "m \<le> length ?rest" by (simp add: m_def)
  ultimately show ?thesis using w pr r True by (auto simp: reader_ok_def paired_def)
next
  case False
  then have empty: "drop (read_cursor t) (read_buffer t) = []" by simp
  show ?thesis
  proof (cases "read_eof t")
    case True
    with False p w pr r show ?thesis by (auto simp: poll_read_def)
  next
    case no: False
    let ?f = "case read_fut t of Some f \<Rightarrow> f | None \<Rightarrow> Read_Queued"
    have "read_ok cs (closing s) (read_seq t) ?f"
      using r by (auto simp: reader_ok_def read_ok_def split: option.split)
    then have run: "case run_poll (read_next (read_seq t)) (read_op t) k ?f d of
        (Ready r, d') \<Rightarrow> (disk_ok s cs (closing s) d' \<and> (\<forall>i. files d' (out_tmp s i) = files d (out_tmp s i))) \<and>
          answer_ok cs (closing s) (read_seq t) r
      | (Pending f', d') \<Rightarrow> (disk_ok s cs (closing s) d' \<and> (\<forall>i. files d' (out_tmp s i) = files d (out_tmp s i))) \<and>
          read_ok cs (closing s) (read_seq t) f'"
      using w paired_names [OF pr] by (intro run_read_ok) (simp_all add: writer_ok_def)
    obtain q d1 where q: "run_poll (read_next (read_seq t)) (read_op t) k ?f d = (q, d1)"
      by (cases "run_poll (read_next (read_seq t)) (read_op t) k ?f d")
    have d': "d' = d1" using p q False no by (auto simp: poll_read_def Let_def split: poll.splits sum.splits option.splits)
    have "disk_ok s cs (closing s) d1" "\<forall>i. files d1 (out_tmp s i) = files d (out_tmp s i)"
      using run q by (auto split: poll.splits)
    then have wr: "writer_ok s cs d'" using w write_ok_cong [of d1 s d cs] by (simp add: writer_ok_def d')
    have got: "got = concat (take (read_seq t - 1) cs)" "0 < read_seq t" "read_seq t \<le> Suc (length cs)"
      using r empty by (auto simp: reader_ok_def)
    show ?thesis
    proof (cases q)
      case (Pending f')
      with p q False no have "p = Pending ()" "t' = t\<lparr>read_fut := Some f'\<rparr>" by (simp_all add: poll_read_def)
      with wr pr r run q Pending show ?thesis by (simp add: reader_ok_def paired_def)
    next
      case (Ready a)
      then have a: "answer_ok cs (closing s) (read_seq t) a" using run q by simp
      show ?thesis
      proof (cases a)
        case (Inl e)
        with p q False no Ready have "p = Ready (Inl e)" "t' = t\<lparr>read_fut := None, read_eof := True\<rparr>"
          by (simp_all add: poll_read_def)
        with wr pr r show ?thesis by (simp add: reader_ok_def paired_def)
      next
        case (Inr o')
        show ?thesis
        proof (cases o')
          case None
          with p q False no Ready Inr have "p = Ready (Inr [])" "t' = t\<lparr>read_fut := None, read_eof := True\<rparr>"
            by (simp_all add: poll_read_def)
          moreover have "closing s" "read_seq t = Suc (length cs)" using a Inr None got by (simp_all add: answer_ok_def)
          ultimately show ?thesis using wr pr r empty by (simp add: reader_ok_def paired_def)
        next
          case (Some chunk)
          define m where "m = min (length chunk) n"
          have c: "chunk_at cs (read_seq t) chunk" using a Inr Some by (simp add: answer_ok_def)
          have more: "got @ chunk = concat (take (read_seq t) cs)"
          proof -
            have "take (read_seq t) cs = take (read_seq t - 1) cs @ [chunk]"
              using c take_Suc_conv_app_nth [of "read_seq t - 1" cs] by (cases "read_seq t") (auto simp: chunk_at_def)
            then show ?thesis by (simp add: got)
          qed
          have "p = Ready (Inr (take m chunk))"
            "t' = (let s1 = t\<lparr>read_fut := None, read_seq := read_seq t + 1\<rparr>
                   in if m < length chunk then s1\<lparr>read_buffer := chunk, read_cursor := m\<rparr> else s1)"
            using p q False no Ready Inr Some by (auto simp: poll_read_def Let_def m_def)
          moreover have "m \<le> length chunk" by (simp add: m_def)
          ultimately show ?thesis
            using wr pr r c more no empty by (auto simp: reader_ok_def paired_def Let_def chunk_at_def)
        qed
      qed
    qed
  qed
qed

lemma read_op_link:
  assumes "writer_ok s cs d" "paired s t" "reader_ok cs (closing s) t got failed" "read_fut t = Some f" "read_op t f d = (f', d')"
  shows "writer_ok s cs d' \<and> reader_ok cs (closing s) (t\<lparr>read_fut := Some f'\<rparr>) got failed"
proof -
  have "disk_ok s cs (closing s) d" "read_ok cs (closing s) (read_seq t) f" "length cs < 2 ^ 64"
    using assms by (simp_all add: writer_ok_def reader_ok_def)
  from read_op_ok [OF this paired_names [OF assms(2)] assms(5)] assms write_ok_cong [of d' s d cs] show ?thesis
    by (simp add: writer_ok_def reader_ok_def)
qed

lemma link_ok_reachable: "link_reachable L \<Longrightarrow> link_ok L"
proof (induction rule: link_reachable.induct)
  case (start d dir r)
  then show ?case
    by (simp add: link_ok_def writer_ok_def disk_ok_def chunks_ok_def sentinel_ok_def paired_def reader_ok_def closing_def)
      (simp add: fresh_stream_def)
next
  case (write_chunk L k j data p s d)
  then have ok: "writer_ok (sender L) (numbered L) (link_disk L)" "paired (sender L) (receiver L)"
    "reader_ok (numbered L) False (receiver L) (delivered L) (broken L)" by (simp_all add: link_ok_def)
  from poll_write_ok [OF ok(1) write_chunk(2-4)] ok(2) have
    "writer_ok s (numbered L @ (if write_seq s = write_seq (sender L) then [] else [data])) d" "\<not> closing s"
    "paired s (receiver L)" by blast+
  with ok(3) reader_ok_more [OF ok(3), of data] show ?case by (simp add: link_ok_def)
next
  case (flush L k p s d)
  then have ok: "link_ok L" "poll_pending_write k (sender L) (link_disk L) = (p, s, d)" by (simp_all add: poll_flush_def)
  with pending_write_ok [of "sender L" "numbered L" "link_disk L" k p s d] show ?case
    by (auto simp: link_ok_def)
next
  case (shut L k j p s d)
  then have "writer_ok (sender L) (numbered L) (link_disk L)" by (simp add: link_ok_def)
  from poll_shutdown_ok [OF this shut(2)] shut reader_ok_close show ?case
    by (cases "closing (sender L)"; cases "closing s") (auto simp: link_ok_def)
next
  case (write_runs L f f' d)
  with write_op_writer [of "sender L" "numbered L" "link_disk L" f f' d] show ?case by (simp add: link_ok_def)
next
  case (shutdown_runs L f f' d)
  moreover have "closing (sender L)" "closing ((sender L)\<lparr>shutdown_fut := Some f'\<rparr>)"
    using shutdown_runs(2) by (simp_all add: closing_def)
  ultimately show ?case
    using shutdown_op_writer [of "sender L" "numbered L" "link_disk L" f f' d] by (simp add: link_ok_def)
next
  case (read L k n p s d)
  then have "writer_ok (sender L) (numbered L) (link_disk L)" "paired (sender L) (receiver L)"
    "reader_ok (numbered L) (closing (sender L)) (receiver L) (delivered L) (broken L)" by (simp_all add: link_ok_def)
  from poll_read_ok [OF this read(2)] show ?case by (simp add: link_ok_def)
next
  case (read_runs L f f' d)
  then have "writer_ok (sender L) (numbered L) (link_disk L)" "paired (sender L) (receiver L)"
    "reader_ok (numbered L) (closing (sender L)) (receiver L) (delivered L) (broken L)" by (simp_all add: link_ok_def)
  from read_op_link [OF this read_runs(2,3)] \<open>paired (sender L) (receiver L)\<close> show ?case
    by (simp add: link_ok_def paired_def)
next
  case (elsewhere L d)
  have "write_ok (sender L) (numbered L) f d = write_ok (sender L) (numbered L) f (link_disk L)" for f
    using elsewhere(2) by (intro write_ok_cong) (simp add: same_direction_def)
  with elsewhere disk_ok_cong [OF elsewhere(2)] show ?case by (auto simp: link_ok_def writer_ok_def)
qed

text \<open>C16. The shared directory is a faithful pipe in every interleaving of the two peers: while reads, writes and
  the operations of the file system they have started run in any order, faults come and go and the rest of
  the disk changes, what the receiver hands out is a prefix of the chunks the sender numbered, in their order;
  and when it reports the end of the stream (and no read of it failed), the sender has asked for shutdown
  and every byte has been handed out.\<close>

theorem fs_stream_is_pipe:
  assumes "link_reachable L"
  shows "prefix (delivered L) (concat (numbered L)) \<and>
    (read_eof (receiver L) \<longrightarrow> \<not> broken L \<longrightarrow> closing (sender L) \<and> delivered L = concat (numbered L))"
proof -
  have r: "reader_ok (numbered L) (closing (sender L)) (receiver L) (delivered L) (broken L)"
    using link_ok_reachable [OF assms] by (simp add: link_ok_def)
  then have "prefix (delivered L) (concat (take (read_seq (receiver L) - 1) (numbered L)))"
    unfolding reader_ok_def by (metis prefixI)
  moreover have "concat (numbered L) = concat (take (read_seq (receiver L) - 1) (numbered L)) @
      concat (drop (read_seq (receiver L) - 1) (numbered L))"
    by (metis append_take_drop_id concat_append)
  ultimately have "prefix (delivered L) (concat (numbered L))" by (metis prefix_prefix)
  with r show ?thesis by (auto simp: reader_ok_def)
qed

section \<open>What is written arrives\<close>

text \<open>A session directory as \<open>ensure_session_dirs\<close> leaves it, with nothing in it and no faults; what of it matters to a
  sender.\<close>

definition quiet :: "string \<Rightarrow> disk \<Rightarrow> bool" where
  "quiet dir d \<longleftrightarrow>
     fault d = (\<lambda>_. None) \<and> other_device d = (\<lambda>_ _. False) \<and>
     dir \<in> folders d \<and> path_join dir ''c2s'' \<in> folders d \<and> path_join dir ''s2c'' \<in> folders d \<and>
     (\<forall>p \<in> folders d. under dir p \<longrightarrow> p = dir \<or> p = path_join dir ''c2s'' \<or> p = path_join dir ''s2c'') \<and>
     (\<forall>p. under dir p \<longrightarrow> files d p = None)"

definition room :: "fs_stream \<Rightarrow> disk \<Rightarrow> bool" where
  "room s d \<longleftrightarrow>
     fault d = (\<lambda>_. None) \<and> other_device d = (\<lambda>_ _. False) \<and>
     (\<forall>i. parent_there d (out_file s i) \<and> parent_there d (out_tmp s i)) \<and> parent_there d (out_sentinel s) \<and>
     (\<forall>i. \<forall>p \<in> folders d. \<not> under (out_file s i) p \<and> \<not> under (out_tmp s i) p \<and> \<not> under (out_sentinel s) p) \<and>
     (\<forall>i p. under (out_file s i) p \<longrightarrow> p \<noteq> out_file s i \<longrightarrow> files d p = None) \<and>
     (\<forall>i p. under (out_tmp s i) p \<longrightarrow> files d p = None)"

lemma entry_names: "entry_name (pad_8 i @ ''.bin'')" "entry_name (pad_8 i @ ''.bin.tmp'')"
    "entry_name ''c2s''" "entry_name ''s2c''" "entry_name ''closed.c2s''" "entry_name ''closed.s2c''"
proof -
  have "pad_8 i @ t \<noteq> ''.''" if "1 < length t" for t :: string
    using that by (auto dest: arg_cong [where f = length])
  then show "entry_name (pad_8 i @ ''.bin'')" "entry_name (pad_8 i @ ''.bin.tmp'')"
    "entry_name ''c2s''" "entry_name ''s2c''" "entry_name ''closed.c2s''" "entry_name ''closed.s2c''"
    by (simp_all add: entry_name_def pad_8_no_slash)
qed

lemma send_names: "entry_name (role_send_dir r)" "entry_name (send_sentinel r)"
  by (cases r; simp add: role_send_dir_def send_sentinel_def entry_names)+

lemma quiet_room:
  assumes "proper_dir dir" "quiet dir d"
  shows "room (fresh_stream dir r) d"
proof -
  let ?s = "fresh_stream dir r" and ?sub = "path_join dir (role_send_dir r)"
  have sub: "proper_dir ?sub" using assms(1) send_names(1) by (rule proper_dir_join_proper)
  have out: "out_file ?s i = path_join ?sub (pad_8 i @ ''.bin'')" "out_tmp ?s i = path_join ?sub (pad_8 i @ ''.bin.tmp'')"
    "out_sentinel ?s = path_join dir (send_sentinel r)" for i
    by (simp_all add: out_file_def out_tmp_def out_sentinel_def chunk_file_def chunk_tmp_def fresh_stream_def)
  have "?sub \<in> folders d" "dir \<in> folders d" using assms(2) by (cases r; simp add: quiet_def role_send_dir_def)+
  then have "parent_there d (out_file ?s i)" "parent_there d (out_tmp ?s i)" "parent_there d (out_sentinel ?s)" for i
    by (simp_all add: out parent_there_def parent_of_entry [OF sub] parent_of_entry [OF assms(1)] entry_names send_names)
  moreover have below: "under dir (out_file ?s i)" "under dir (out_tmp ?s i)" "under dir (out_sentinel ?s)" for i
    using under_entry [OF sub] under_entry [OF assms(1)] under_trans entry_names send_names unfolding out by blast+
  have longer: "length (path_join dir x) < length (out_file ?s i)" "length (path_join dir x) < length (out_tmp ?s i)"
    "length (path_join dir x) < length (out_sentinel ?s)" "length dir < length (path_join dir x)"
    if "x \<in> {''c2s'', ''s2c''}" for x i
  proof -
    have x: "entry_name x" "length x = 3" using that by (auto simp: entry_names)
    have "length (path_join dir x) = length dir + 4" using proper_dir_join [OF assms(1) x(1)] x(2) by simp
    moreover have names: "length (send_sentinel r) = 10" "length (role_send_dir r) = 3"
      by (cases r; simp add: send_sentinel_def role_send_dir_def)+
    then have "length (out_sentinel ?s) = length dir + 11"
      using proper_dir_join [OF assms(1) send_names(2), of r] by (simp add: out)
    moreover have "length ?sub = length dir + 4" using names proper_dir_join [OF assms(1) send_names(1), of r] by simp
    then have "length dir + 4 < length (out_file ?s i)" "length dir + 4 < length (out_tmp ?s i)"
      using proper_dir_join [OF sub entry_names(1), of i] proper_dir_join [OF sub entry_names(2), of i] by (simp_all add: out)
    ultimately show "length (path_join dir x) < length (out_file ?s i)" "length (path_join dir x) < length (out_tmp ?s i)"
      "length (path_join dir x) < length (out_sentinel ?s)" "length dir < length (path_join dir x)" by simp_all
  qed
  have "\<not> under q p" if "p \<in> folders d" "under dir q"
    "length (path_join dir ''c2s'') < length q" "length (path_join dir ''s2c'') < length q" for p q
  proof
    assume u: "under q p"
    then have "under dir p" using that(2) under_trans by blast
    then have "p = dir \<or> p = path_join dir ''c2s'' \<or> p = path_join dir ''s2c''" using that(1) assms(2) by (auto simp: quiet_def)
    then have "length p < length q" using that(3,4) longer(4) [of "''c2s''"] by auto
    with u show False using short_not_under by blast
  qed
  then have "\<forall>i. \<forall>p \<in> folders d. \<not> under (out_file ?s i) p \<and> \<not> under (out_tmp ?s i) p \<and> \<not> under (out_sentinel ?s) p"
    using below longer(1-3) by blast
  moreover have "files d p = None" if "under (out_file ?s i) p \<or> under (out_tmp ?s i) p" for p i
    using that below under_trans assms(2) unfolding quiet_def by blast
  ultimately show ?thesis using assms(2) unfolding room_def quiet_def by blast
qed

text \<open>Operations that finish within the poll.\<close>

lemma out_file_ends: "\<not> ends_with (out_file s i) ''/''" "\<not> ends_with (out_tmp s i) ''/''"
    "\<not> ends_with (out_sentinel s) ''/''"
proof -
  have e: "\<not> ends_with (path_join p x) ''/''" if x: "x \<noteq> []" "CHR ''/'' \<notin> set x" for p x
  proof
    assume "ends_with (path_join p x) ''/''"
    then have "last (path_join p x) = CHR ''/''" by (auto simp: ends_with_def suffix_def)
    moreover obtain q where "path_join p x = q @ x" using path_join_rest [of p] no_slash_rel [OF x(2)] by blast
    ultimately have "last x = CHR ''/''" using x(1) by simp
    with x show False using last_in_set [of x] by simp
  qed
  show "\<not> ends_with (out_file s i) ''/''" "\<not> ends_with (out_tmp s i) ''/''"
    unfolding out_file_def out_tmp_def chunk_file_def chunk_tmp_def by (rule e; simp add: pad_8_no_slash)+
  show "\<not> ends_with (out_sentinel s) ''/''"
    using send_names(2) [of "role s"] unfolding out_sentinel_def entry_name_def by (intro e) simp_all
qed

lemma parent_there_files [simp]: "parent_there (d\<lparr>files := f\<rparr>) p = parent_there d p"
  by (simp add: parent_there_def split: option.split)

lemma room_write_tmp:
  assumes "room s d"
  shows "fs_write (out_tmp s i) b d = (None, d\<lparr>files := (files d)(out_tmp s i \<mapsto> b)\<rparr>)"
proof -
  have "out_tmp s i \<notin> folders d" using assms by (auto simp: room_def under_def)
  with assms show ?thesis by (simp add: fs_write_def write_error_def room_def out_file_ends)
qed

lemma room_write_sentinel:
  assumes "room s d"
  shows "fs_write (out_sentinel s) b d = (None, d\<lparr>files := (files d)(out_sentinel s \<mapsto> b)\<rparr>)"
proof -
  have "out_sentinel s \<notin> folders d" using assms by (auto simp: room_def under_def)
  with assms show ?thesis by (simp add: fs_write_def write_error_def room_def out_file_ends)
qed

lemma room_rename:
  assumes "room s d"
  shows "fs_rename (out_tmp s i) (out_file s i) (d\<lparr>files := (files d)(out_tmp s i \<mapsto> b)\<rparr>) =
    (None, d\<lparr>files := (files d)(out_file s i \<mapsto> b)\<rparr>)"
proof -
  let ?t = "out_tmp s i" and ?o = "out_file s i"
  let ?d = "d\<lparr>files := (files d)(?t \<mapsto> b)\<rparr>"
  have fo: "\<And>p. p \<in> folders d \<Longrightarrow> \<not> under ?o p \<and> \<not> under ?t p" using assms by (auto simp: room_def)
  have fi: "\<And>p. under ?o p \<Longrightarrow> p \<noteq> ?o \<Longrightarrow> files d p = None" "\<And>p. under ?t p \<Longrightarrow> files d p = None"
    using assms by (auto simp: room_def)
  have nu: "\<not> under ?o ?t" "\<not> under ?t ?o" using out_distinct(5,6) by blast+
  have self: "under ?t ?t" "under ?o ?o" by (simp_all add: under_def)
  have "\<not> occupied ?d ?o"
    using fo fi(1) nu(1) by (auto simp: occupied_def split: if_splits)
  moreover have "?t \<notin> folders d" "?o \<notin> folders d" using fo self by blast+
  moreover have "parent_there ?d ?o" "fault d = (\<lambda>_. None)" "other_device d = (\<lambda>_ _. False)"
    using assms by (simp_all add: room_def)
  moreover have "(\<lambda>p. case moved ?t ?o p of Some q \<Rightarrow> files ?d q | None \<Rightarrow> None) = (files d)(?o \<mapsto> b)"
  proof
    fix p
    show "(case moved ?t ?o p of Some q \<Rightarrow> files ?d q | None \<Rightarrow> None) = ((files d)(?o \<mapsto> b)) p"
    proof (cases "under ?o p")
      case True
      then obtain x where x: "p = ?o @ x" "x = [] \<or> (\<exists>y. x = CHR ''/'' # y)"
        by (auto simp: under_def starts_with_def prefix_def)
      have "x \<noteq> [] \<Longrightarrow> under ?t (?t @ x)" using x(2) by (auto simp: under_def starts_with_def)
      then have "x \<noteq> [] \<Longrightarrow> files d (?t @ x) = None" using fi(2) by blast
      moreover have "x \<noteq> [] \<Longrightarrow> files d p = None" using fi(1) [OF True] x(1) by simp
      ultimately show ?thesis using True x(1) by (simp add: moved_def)
    next
      case False
      moreover have "p \<noteq> ?o" using False self by blast
      ultimately show ?thesis using fi(2) [of p] self(1) by (auto simp: moved_def)
    qed
  qed
  moreover have "{p. case moved ?t ?o p of Some q \<Rightarrow> q \<in> folders ?d | None \<Rightarrow> False} = folders d"
  proof (rule set_eqI)
    fix p
    have "?t @ drop (length ?o) p \<notin> folders d" if "under ?o p"
    proof -
      have "under ?t (?t @ drop (length ?o) p)" using that by (auto simp: under_def starts_with_def prefix_def)
      with fo show ?thesis by blast
    qed
    with fo show "p \<in> {p. case moved ?t ?o p of Some q \<Rightarrow> q \<in> folders ?d | None \<Rightarrow> False} \<longleftrightarrow> p \<in> folders d"
      by (auto simp: moved_def)
  qed
  ultimately show ?thesis
    using nu(2) by (simp add: fs_rename_def path_exists_def out_apart)
qed

lemma write_chunk_now:
  assumes "room s d" "write_fut s = None" "data \<noteq> []"
  shows "poll_write 0 2 data s d = (Ready (Inr (length data)), s\<lparr>write_seq := write_seq s + 1\<rparr>,
    d\<lparr>files := (files d)(out_file s (write_seq s) \<mapsto> data)\<rparr>)"
  using assms room_write_tmp [OF assms(1)] room_rename [OF assms(1)]
  by (simp add: poll_write_def poll_pending_write_def run_poll.simps write_next_def write_op_def numeral_2_eq_2)

lemma shutdown_now:
  assumes "room s d" "write_fut s = None" "shutdown_fut s = None" "\<not> shutdown_done s"
  shows "poll_shutdown 0 2 s d = (Ready (Inr ()), s\<lparr>shutdown_done := True\<rparr>,
    d\<lparr>files := (files d)(out_sentinel s \<mapsto> as_bytes (show_nat (write_seq s - 1)))\<rparr>)"
proof -
  have "room s (d\<lparr>files := (files d)(out_sentinel s \<mapsto> [])\<rparr>)"
    using assms(1) out_distinct(8,10) [of s] by (auto simp: room_def)
  from room_write_sentinel [OF this] room_write_sentinel [OF assms(1)] assms show ?thesis
    by (cases s) (simp add: poll_shutdown_def poll_pending_write_def run_poll.simps shutdown_next_def shutdown_op_def numeral_2_eq_2)
qed

lemma read_chunk_now:
  assumes "files d (in_file t) = Some b" "fault d = (\<lambda>_. None)" "in_file t \<notin> folders d" "length b \<le> n"
    and "read_buffer t = []" "read_cursor t = 0" "\<not> read_eof t" "read_fut t = None"
  shows "poll_read 4 n t d = (Ready (Inr b), t\<lparr>read_seq := read_seq t + 1\<rparr>, d\<lparr>files := (files d)(in_file t := None)\<rparr>)"
  using assms
  by (cases t) (simp add: poll_read_def run_poll.simps read_next_def read_op_def eval_nat_numeral fs_read_def fs_remove_def Let_def)

lemma read_end_now:
  assumes "files d (in_file t) = None" "fault d = (\<lambda>_. None)" "in_file t \<notin> folders d"
    and "path_exists d (in_sentinel t)" "read_sentinel_final_seq d (in_sentinel t) = Some m" "m < read_seq t"
    and "read_buffer t = []" "\<not> read_eof t"  "read_fut t = None"
  shows "poll_read 4 n t d = (Ready (Inr []), t\<lparr>read_eof := True\<rparr>, d)"
  using assms
  by (cases t) (simp add: poll_read_def run_poll.simps read_next_def read_op_def eval_nat_numeral fs_read_def Let_def)

text \<open>Writing chunk by chunk, and reading some times.\<close>

fun write_all_chunks :: "bytes list \<Rightarrow> fs_stream \<Rightarrow> disk \<Rightarrow> fs_stream \<times> disk" where
  "write_all_chunks [] s d = (s, d)"
| "write_all_chunks (c # cs) s d = (case poll_write 0 2 c s d of (_, s1, d1) \<Rightarrow> write_all_chunks cs s1 d1)"

fun read_times :: "nat \<Rightarrow> nat \<Rightarrow> fs_stream \<Rightarrow> disk \<Rightarrow> (bytes fs_result, unit) poll list" where
  "read_times 0 n t d = []"
| "read_times (Suc k) n t d = (case poll_read 4 n t d of (p, t1, d1) \<Rightarrow> p # read_times k n t1 d1)"

lemma room_more: "room s d \<Longrightarrow> room (s\<lparr>write_seq := a\<rparr>) (d\<lparr>files := (files d)(out_file s i \<mapsto> b)\<rparr>)"
  using out_distinct(4,5) [of s] by (auto simp: room_def)

lemma write_all_chunks_disk:
  assumes "room s d" "write_fut s = None" "[] \<notin> set cs"
  shows "\<exists>d'. write_all_chunks cs s d = (s\<lparr>write_seq := write_seq s + length cs\<rparr>, d') \<and> room s d' \<and> folders d' = folders d \<and>
    (\<forall>i. files d' (out_file s i) =
      (if write_seq s \<le> i \<and> i < write_seq s + length cs then Some (cs ! (i - write_seq s)) else files d (out_file s i)))"
  using assms
proof (induction cs arbitrary: s d)
  case Nil
  then show ?case by auto
next
  case (Cons c cs)
  let ?s = "s\<lparr>write_seq := write_seq s + 1\<rparr>" and ?d = "d\<lparr>files := (files d)(out_file s (write_seq s) \<mapsto> c)\<rparr>"
  have c: "c \<noteq> []" using Cons.prems(3) by auto
  have "room ?s ?d" using Cons.prems(1) by (rule room_more)
  then obtain d' where d': "write_all_chunks cs ?s ?d = (?s\<lparr>write_seq := write_seq ?s + length cs\<rparr>, d')" "room ?s d'"
    "folders d' = folders ?d"
    "\<And>i. files d' (out_file s i) =
      (if write_seq ?s \<le> i \<and> i < write_seq ?s + length cs then Some (cs ! (i - write_seq ?s)) else files ?d (out_file s i))"
    using Cons.IH [of ?s ?d] Cons.prems by auto
  moreover have "write_all_chunks (c # cs) s d = write_all_chunks cs ?s ?d"
    using write_chunk_now [OF Cons.prems(1,2) c] by simp
  moreover have "room s d'" using d'(2) by (simp add: room_def)
  moreover have "files d' (out_file s i) = (if write_seq s \<le> i \<and> i < write_seq s + length (c # cs)
      then Some ((c # cs) ! (i - write_seq s)) else files d (out_file s i))" for i
    using d'(4) [of i] out_distinct(1) [of s i "write_seq s"] by (auto simp: nth_Cons' Suc_le_eq)
  ultimately show ?case by simp
qed

lemma read_times_all:
  assumes "read_buffer t = []" "read_cursor t = 0" "\<not> read_eof t" "read_fut t = None" "fault d = (\<lambda>_. None)"
    and "\<And>i. in_file (t\<lparr>read_seq := i\<rparr>) \<notin> folders d"
    and "\<And>i. in_file (t\<lparr>read_seq := i\<rparr>) \<noteq> in_sentinel t" "inj (\<lambda>i. in_file (t\<lparr>read_seq := i\<rparr>))"
    and "\<And>i. read_seq t \<le> i \<Longrightarrow> files d (in_file (t\<lparr>read_seq := i\<rparr>)) =
      (if i < read_seq t + length cs then Some (cs ! (i - read_seq t)) else None)"
    and "path_exists d (in_sentinel t)" "read_sentinel_final_seq d (in_sentinel t) = Some m" "m < read_seq t + length cs"
    and "list_all (\<lambda>c. length c \<le> n) cs"
  shows "read_times (length cs + 1) n t d = map (\<lambda>c. Ready (Inr c)) cs @ [Ready (Inr [])]"
  using assms
proof (induction cs arbitrary: t d)
  case Nil
  have "in_file (t\<lparr>read_seq := read_seq t\<rparr>) = in_file t" by simp
  with Nil(6,9) [of "read_seq t"] have "files d (in_file t) = None" "in_file t \<notin> folders d" by simp_all
  with Nil have "poll_read 4 n t d = (Ready (Inr []), t\<lparr>read_eof := True\<rparr>, d)"
    by (intro read_end_now [of d t m n]) simp_all
  then show ?case by simp
next
  case (Cons c cs)
  let ?t = "t\<lparr>read_seq := read_seq t + 1\<rparr>" and ?d = "d\<lparr>files := (files d)(in_file t := None)\<rparr>"
  have here: "in_file (t\<lparr>read_seq := read_seq t\<rparr>) = in_file t" by simp
  have "files d (in_file t) = Some c" "in_file t \<notin> folders d"
    using Cons.prems(9) [of "read_seq t"] Cons.prems(6) [of "read_seq t"] here by simp_all
  with Cons.prems here have "poll_read 4 n t d = (Ready (Inr c), ?t, ?d)"
    by (intro read_chunk_now) simp_all
  moreover have "read_times (length cs + 1) n ?t ?d = map (\<lambda>c. Ready (Inr c)) cs @ [Ready (Inr [])]"
  proof (rule Cons.IH)
    fix i
    assume i: "read_seq ?t \<le> i"
    then have "in_file (t\<lparr>read_seq := i\<rparr>) \<noteq> in_file t" using injD [OF Cons.prems(8), of i "read_seq t"] here by auto
    with i Cons.prems(9) [of i] show "files ?d (in_file (?t\<lparr>read_seq := i\<rparr>)) =
        (if i < read_seq ?t + length cs then Some (cs ! (i - read_seq ?t)) else None)"
      by (auto simp: nth_Cons')
  next
    have ne: "in_sentinel t \<noteq> in_file t" using Cons.prems(7) [of "read_seq t"] by simp
    then have "fs_read ?d (in_sentinel t) = fs_read d (in_sentinel t)" by (simp add: fs_read_def split: option.split)
    moreover have "in_sentinel ?t = in_sentinel t" by (simp add: in_sentinel_def)
    ultimately show "path_exists ?d (in_sentinel ?t)" "read_sentinel_final_seq ?d (in_sentinel ?t) = Some m"
      using Cons.prems(10,11) ne by (simp_all add: path_exists_def read_sentinel_final_seq_def)
  qed (use Cons.prems in \<open>simp_all add: in_sentinel_def\<close>)
  ultimately show ?case by simp
qed

text \<open>C17. What one peer writes the other reads: after any sequence of non-empty chunks written into an empty session
  directory, and the shutdown, the peer's reads return exactly these chunks, one each, and then the end of
  the stream. (The operations finish within their polls, no fault occurs and the reader's buffer has room for
  a chunk.)\<close>

theorem fs_stream_delivers:
  assumes "proper_dir dir" "quiet dir d" "[] \<notin> set cs" "list_all (\<lambda>c. length c \<le> n) cs" "length cs < 2 ^ 64"
  shows "\<exists>s1 d1 s2 d2. write_all_chunks cs (fresh_stream dir r) d = (s1, d1) \<and> poll_shutdown 0 2 s1 d1 = (Ready (Inr ()), s2, d2) \<and>
    read_times (length cs + 1) n (fresh_stream dir (other_role r)) d2 = map (\<lambda>c. Ready (Inr c)) cs @ [Ready (Inr [])]"
proof -
  let ?s = "fresh_stream dir r" and ?t = "fresh_stream dir (other_role r)"
  have rm: "room ?s d" using assms(1,2) by (rule quiet_room)
  have s: "write_fut ?s = None" "shutdown_fut ?s = None" "\<not> shutdown_done ?s" "write_seq ?s = 1" "session_dir ?s = dir" "role ?s = r"
    by (simp_all add: fresh_stream_def)
  obtain d1 where d1: "write_all_chunks cs ?s d = (?s\<lparr>write_seq := write_seq ?s + length cs\<rparr>, d1)" "room ?s d1" "folders d1 = folders d"
    "\<And>i. files d1 (out_file ?s i) =
      (if write_seq ?s \<le> i \<and> i < write_seq ?s + length cs then Some (cs ! (i - write_seq ?s)) else files d (out_file ?s i))"
    using write_all_chunks_disk [OF rm s(1) assms(3)] by auto
  let ?s1 = "?s\<lparr>write_seq := write_seq ?s + length cs\<rparr>"
  let ?d2 = "d1\<lparr>files := (files d1)(out_sentinel ?s \<mapsto> as_bytes (show_nat (length cs)))\<rparr>"
  have "room ?s1 d1" using d1(2) by (simp add: room_def)
  from shutdown_now [OF this] s have shut: "poll_shutdown 0 2 ?s1 d1 = (Ready (Inr ()), ?s1\<lparr>shutdown_done := True\<rparr>, ?d2)" by simp
  have "paired ?s (?t\<lparr>read_seq := i\<rparr>)" for i by (simp add: paired_def fresh_stream_def)
  from paired_names [OF this] have names: "in_file (?t\<lparr>read_seq := i\<rparr>) = out_file ?s i" "in_sentinel ?t = out_sentinel ?s" for i
    by (simp_all add: in_sentinel_def)
  have "under dir (out_file ?s i)" for i
    using under_entry [OF assms(1) send_names(1)] under_entry [OF proper_dir_join_proper [OF assms(1) send_names(1)] entry_names(1)]
    under_trans unfolding out_file_def chunk_file_def s by blast
  then have none: "files d (out_file ?s i) = None" for i using assms(2) by (simp add: quiet_def)
  have "read_times (length cs + 1) n ?t ?d2 = map (\<lambda>c. Ready (Inr c)) cs @ [Ready (Inr [])]"
  proof (rule read_times_all)
    show "inj (\<lambda>i. in_file (?t\<lparr>read_seq := i\<rparr>))" by (simp add: names inj_def out_distinct)
    show "in_file (?t\<lparr>read_seq := i\<rparr>) \<notin> folders ?d2" for i using d1(2) by (auto simp: names room_def under_def)
    show "in_file (?t\<lparr>read_seq := i\<rparr>) \<noteq> in_sentinel ?t" for i by (simp add: names out_apart)
    have seq: "read_seq ?t = 1" by (simp add: fresh_stream_def)
    show "files ?d2 (in_file (?t\<lparr>read_seq := i\<rparr>)) = (if i < read_seq ?t + length cs then Some (cs ! (i - read_seq ?t)) else None)"
      if "read_seq ?t \<le> i" for i
      using that d1(4) [of i] none [of i] by (simp add: names out_apart seq s)
    show "path_exists ?d2 (in_sentinel ?t)" by (simp add: names path_exists_def)
    have "out_sentinel ?s \<notin> folders d1" "fault d1 = (\<lambda>_. None)" using d1(2) by (auto simp: room_def under_def)
    then show "read_sentinel_final_seq ?d2 (in_sentinel ?t) = Some (length cs)"
      using assms(5) by (simp add: names read_sentinel_final_seq_def fs_read_def show_nat_text parse_uint_show)
    show "length cs < read_seq ?t + length cs" by (simp add: seq)
  qed (use assms(4) d1(2) in \<open>simp_all add: fresh_stream_def room_def\<close>)
  with d1(1) shut show ?thesis by blast
qed

text \<open>Opening a stream in a directory that is there makes such a session, for either peer.\<close>

lemma open_stream_quiet:
  assumes "proper_dir spool" "entry_name sid" "spool \<in> folders d" "fault d = (\<lambda>_. None)" "other_device d = (\<lambda>_ _. False)"
    and "\<And>p. under (path_join spool sid) p \<Longrightarrow> p \<notin> folders d \<and> files d p = None"
  shows "\<exists>d'. open_stream spool sid r d = (Inr (fresh_stream (path_join spool sid) r), d') \<and> quiet (path_join spool sid) d'"
proof -
  let ?s = "path_join spool sid"
  let ?c = "path_join ?s ''c2s''" and ?t = "path_join ?s ''s2c''"
  have s: "proper_dir ?s" using assms(1,2) by (rule proper_dir_join_proper)
  have par: "path_parent ?s = Some spool" "path_parent ?c = Some ?s" "path_parent ?t = Some ?s"
    using parent_of_entry [OF assms(1,2)] parent_of_entry [OF s] entry_names by simp_all
  have under: "under ?s ?s" "under ?s ?c" "under ?s ?t"
    using under_entry [OF s] entry_names by (simp_all add: under_def)
  then have new: "?s \<notin> folders d" "files d ?s = None" "?c \<notin> folders d" "files d ?c = None" "?t \<notin> folders d" "files d ?t = None"
    using assms(6) by blast+
  have ne: "?s \<noteq> []" "?c \<noteq> []" "?t \<noteq> []" "?s \<noteq> ?c" "?s \<noteq> ?t" "?c \<noteq> ?t"
    using proper_dir_join [OF assms(1,2)] proper_dir_join [OF s entry_names(3)] proper_dir_join [OF s entry_names(4)] by simp_all
  let ?d1 = "d\<lparr>folders := insert ?s (folders d)\<rparr>" and ?d2 = "d\<lparr>folders := insert ?c (insert ?s (folders d))\<rparr>"
    and ?d3 = "d\<lparr>folders := insert ?t (insert ?c (insert ?s (folders d)))\<rparr>"
  have "create_dir_all ?s d = (None, ?d1)"
    using new par ne assms(3,4) by (subst create_dir_all.simps) (simp add: mkdir_or_there_def mkdir_def path_exists_def parent_there_def)
  moreover have "mkdir_or_there ?c d = (Some Not_Found, d)" "mkdir_or_there ?c ?d1 = (None, ?d2)"
    using new par ne assms(4) by (simp_all add: mkdir_or_there_def mkdir_def path_exists_def parent_there_def)
  ultimately have "create_dir_all ?c d = (None, ?d2)"
    using par ne by (subst create_dir_all.simps) simp
  moreover have "create_dir_all ?t ?d2 = (None, ?d3)"
    using new par ne assms(4) by (subst create_dir_all.simps) (simp add: mkdir_or_there_def mkdir_def path_exists_def parent_there_def)
  ultimately have "open_stream spool sid r d = (Inr (fresh_stream ?s r), ?d3)"
    by (simp add: open_stream_def ensure_session_dirs_def Let_def)
  moreover have "quiet ?s ?d3" using assms(4-6) by (auto simp: quiet_def)
  ultimately show ?thesis by blast
qed

definition sample_session :: disk where
  "sample_session =
     \<lparr>files = (\<lambda>_. None), folders = {''/s/x'', ''/s/x/c2s'', ''/s/x/s2c''}, fault = (\<lambda>_. None), other_device = (\<lambda>_ _. False)\<rparr>"

lemma sample_session_quiet: "quiet ''/s/x'' sample_session" "proper_dir ''/s/x''"
proof -
  have "path_join ''/s/x'' ''c2s'' = ''/s/x/c2s''" "path_join ''/s/x'' ''s2c'' = ''/s/x/s2c''" by code_simp+
  then show "quiet ''/s/x'' sample_session" by (simp add: quiet_def sample_session_def)
  show "proper_dir ''/s/x''" by code_simp
qed

theorem fs_stream_delivers_witness:
  "\<exists>s1 d1 s2 d2. write_all_chunks [[1, 2], [3]] (fresh_stream ''/s/x'' Client_Role) sample_session = (s1, d1) \<and>
    poll_shutdown 0 2 s1 d1 = (Ready (Inr ()), s2, d2) \<and>
    read_times (length [[1, 2 :: byte], [3]] + 1) 4 (fresh_stream ''/s/x'' (other_role Client_Role)) d2 =
      map (\<lambda>c. Ready (Inr c)) [[1, 2], [3]] @ [Ready (Inr [])]"
  by (rule fs_stream_delivers) (simp_all add: sample_session_quiet)

theorem fs_stream_is_pipe_witness:
  "\<exists>L :: fs_link. numbered L = [[1, 2]] \<and> delivered L = [1, 2] \<and> \<not> read_eof (receiver L) \<and> prefix (delivered L) (concat (numbered L))"
proof -
  let ?s = "fresh_stream ''/s/x'' Client_Role" and ?t = "fresh_stream ''/s/x'' (other_role Client_Role)"
  let ?L = "\<lparr>link_disk = sample_session, sender = ?s, receiver = ?t, numbered = [], delivered = [], broken = False\<rparr>"
  let ?d = "sample_session\<lparr>files := (files sample_session)(out_file ?s 1 \<mapsto> [1, 2])\<rparr>"
  let ?L1 = "?L\<lparr>link_disk := ?d, sender := ?s\<lparr>write_seq := 2\<rparr>, numbered := [[1, 2]]\<rparr>"
  let ?L2 = "?L1\<lparr>link_disk := ?d\<lparr>files := (files ?d)(out_file ?s 1 := None)\<rparr>, receiver := ?t\<lparr>read_seq := 2\<rparr>, delivered := [1, 2]\<rparr>"
  have start: "link_reachable ?L" by (rule link_reachable.start) (simp_all add: sample_session_def)
  have rm: "room ?s sample_session" using sample_session_quiet(2,1) by (rule quiet_room)
  from write_chunk_now [OF rm, of "[1, 2]"]
  have w: "poll_write 0 2 [1, 2] (sender ?L) (link_disk ?L) = (Ready (Inr 2), ?s\<lparr>write_seq := 2\<rparr>, ?d)"
    by (simp add: fresh_stream_def)
  have "write_seq ?s = 1" "\<not> closing ?s" by (simp_all add: fresh_stream_def closing_def)
  with link_reachable.write_chunk [OF start _ _ w] have L1: "link_reachable ?L1" by simp
  have "paired ?s ?t" by (simp add: paired_def fresh_stream_def)
  then have n: "in_file ?t = out_file ?s 1" using paired_names(1) [of ?s ?t] by (simp add: fresh_stream_def)
  have "out_file ?s 1 \<notin> folders ?d" "fault ?d = (\<lambda>_. None)" using rm by (auto simp: room_def under_def)
  with read_chunk_now [of ?d ?t "[1, 2]" 4]
  have "poll_read 4 4 (receiver ?L1) (link_disk ?L1) = (Ready (Inr [1, 2]), ?t\<lparr>read_seq := 2\<rparr>, ?d\<lparr>files := (files ?d)(out_file ?s 1 := None)\<rparr>)"
    by (simp add: n) (simp add: fresh_stream_def)
  from link_reachable.read [OF L1 this] have "link_reachable ?L2" by simp
  from fs_stream_is_pipe [OF this] have p: "prefix (delivered ?L2) (concat (numbered ?L2))" by (rule conjunct1)
  show ?thesis
  proof (rule exI [of _ ?L2], intro conjI)
    show "prefix (delivered ?L2) (concat (numbered ?L2))" by (rule p)
  qed (simp_all add: fresh_stream_def)
qed

section \<open>A lost chunk\<close>

definition stuck_at :: "nat \<Rightarrow> read_stage \<Rightarrow> bool" where
  "stuck_at m f \<longleftrightarrow>
     f \<in> {Read_Queued, Read_Got (Inl Not_Found), Exists_Queued, Exists_Got True, Sentinel_Queued, Sentinel_Got (Some m),
       Again_Queued (Some m), Again_Got (Some m) (Inl Not_Found), Asleep, Awake}"

lemma stuck_read:
  assumes "files d (in_file t) = None" "fault d = (\<lambda>_. None)" "in_file t \<notin> folders d"
    and "path_exists d (in_sentinel t)" "read_sentinel_final_seq d (in_sentinel t) = Some m" "read_seq t \<le> m"
    and "stuck_at m f"
  shows "\<exists>f'. run_poll (read_next (read_seq t)) (read_op t) k f d = (Pending f', d) \<and> stuck_at m f'"
proof -
  have "case run_poll (read_next (read_seq t)) (read_op t) k f d of
      (Ready r, d') \<Rightarrow> False | (Pending f', d') \<Rightarrow> d' = d \<and> stuck_at m f'"
  proof (rule run_poll_inv [of "\<lambda>f d'. d' = d \<and> stuck_at m f"], goal_cases)
    case (2 f d' f')
    with assms(6) show ?case by (auto simp: stuck_at_def read_next_def)
  next
    case (3 f d1 f' d2)
    with assms show ?case by (auto simp: stuck_at_def read_op_def fs_read_def)
  next
    case (4 f d' r)
    with assms(6) show ?case by (auto simp: stuck_at_def read_next_def)
  qed (use assms in simp)
  then show ?thesis by (auto split: prod.splits poll.splits)
qed

text \<open>A chunk whose write fails is lost for good, and the receiver is never told: the failed poll of a write has
  used up the chunk's number, the sentinel of the later, successful shutdown counts it, and the receiver polls
  for the missing file without end, however many operations complete.\<close>

theorem lost_chunk_hangs_reader:
  assumes "proper_dir dir" "quiet dir d" "data \<noteq> []"
  shows "poll_write 0 1 data (fresh_stream dir r) (d\<lparr>fault := (fault d)(out_tmp (fresh_stream dir r) 1 := Some m)\<rparr>) =
      (Ready (Inl (Io_Error m)), (fresh_stream dir r)\<lparr>write_seq := 2\<rparr>,
       d\<lparr>fault := (fault d)(out_tmp (fresh_stream dir r) 1 := Some m)\<rparr>) \<and>
    (\<exists>s2 d2. poll_shutdown 0 2 ((fresh_stream dir r)\<lparr>write_seq := 2\<rparr>) d = (Ready (Inr ()), s2, d2) \<and>
      (\<forall>k n. \<exists>f. poll_read k n (fresh_stream dir (other_role r)) d2 =
        (Pending (), (fresh_stream dir (other_role r))\<lparr>read_fut := Some f\<rparr>, d2)))"
proof -
  let ?s = "fresh_stream dir r" and ?t = "fresh_stream dir (other_role r)"
  let ?d2 = "d\<lparr>files := (files d)(out_sentinel ?s \<mapsto> as_bytes (show_nat 1))\<rparr>"
  have fresh: "write_fut ?s = None" "write_seq ?s = 1" "shutdown_fut ?s = None" "\<not> shutdown_done ?s" "read_seq ?t = 1"
    "read_buffer ?t = []" "\<not> read_eof ?t" "read_fut ?t = None" "session_dir ?s = dir" "role ?s = r"
    by (simp_all add: fresh_stream_def)
  have rm: "room ?s d" using assms(1,2) by (rule quiet_room)
  have "poll_write 0 1 data ?s (d\<lparr>fault := (fault d)(out_tmp ?s 1 := Some m)\<rparr>) =
      (Ready (Inl (Io_Error m)), ?s\<lparr>write_seq := 2\<rparr>, d\<lparr>fault := (fault d)(out_tmp ?s 1 := Some m)\<rparr>)"
    using assms(3) fresh
    by (simp add: poll_write_def poll_pending_write_def run_poll.simps write_next_def write_op_def fs_write_def write_error_def
        numeral_2_eq_2)
  moreover have "room (?s\<lparr>write_seq := 2\<rparr>) d" using rm by (simp add: room_def)
  from shutdown_now [OF this] fresh
  have "poll_shutdown 0 2 (?s\<lparr>write_seq := 2\<rparr>) d = (Ready (Inr ()), ?s\<lparr>write_seq := 2, shutdown_done := True\<rparr>, ?d2)" by simp
  moreover have "\<exists>f. poll_read k n ?t ?d2 = (Pending (), ?t\<lparr>read_fut := Some f\<rparr>, ?d2)" for k n
  proof -
    have "paired ?s ?t" by (simp add: paired_def fresh_stream_def)
    note names = paired_names [OF this]
    have "under dir (out_file ?s 1)"
      using under_entry [OF assms(1) send_names(1)] under_entry [OF proper_dir_join_proper [OF assms(1) send_names(1)] entry_names(1)]
      under_trans unfolding out_file_def chunk_file_def fresh by blast
    then have "files ?d2 (in_file ?t) = None" using assms(2) by (simp add: names fresh out_apart quiet_def)
    moreover have "in_file ?t \<notin> folders ?d2" "out_sentinel ?s \<notin> folders ?d2" "fault ?d2 = (\<lambda>_. None)"
      using rm by (auto simp: names fresh room_def under_def)
    moreover have "path_exists ?d2 (in_sentinel ?t)" by (simp add: names path_exists_def)
    moreover have "read_sentinel_final_seq ?d2 (in_sentinel ?t) = Some 1"
      using calculation(3,4) by (simp add: names read_sentinel_final_seq_def fs_read_def show_nat_text parse_uint_show)
    ultimately obtain f where "run_poll (read_next (read_seq ?t)) (read_op ?t) k Read_Queued ?d2 = (Pending f, ?d2)"
      using stuck_read [of ?d2 ?t 1 Read_Queued k] fresh(5) by (auto simp: stuck_at_def)
    then show ?thesis using fresh by (intro exI [of _ f]) (simp add: poll_read_def)
  qed
  ultimately show ?thesis by blast
qed

theorem lost_chunk_hangs_reader_witness:
  "poll_write 0 1 [7] (fresh_stream ''/s/x'' Client_Role)
      (sample_session\<lparr>fault := (fault sample_session)(out_tmp (fresh_stream ''/s/x'' Client_Role) 1 := Some ''disk full'')\<rparr>) =
      (Ready (Inl (Io_Error ''disk full'')), (fresh_stream ''/s/x'' Client_Role)\<lparr>write_seq := 2\<rparr>,
       sample_session\<lparr>fault := (fault sample_session)(out_tmp (fresh_stream ''/s/x'' Client_Role) 1 := Some ''disk full'')\<rparr>) \<and>
    (\<exists>s2 d2. poll_shutdown 0 2 ((fresh_stream ''/s/x'' Client_Role)\<lparr>write_seq := 2\<rparr>) sample_session = (Ready (Inr ()), s2, d2) \<and>
      (\<forall>k n. \<exists>f. poll_read k n (fresh_stream ''/s/x'' (other_role Client_Role)) d2 =
        (Pending (), (fresh_stream ''/s/x'' (other_role Client_Role))\<lparr>read_fut := Some f\<rparr>, d2)))"
  by (rule lost_chunk_hangs_reader) (simp_all add: sample_session_quiet)

section \<open>The listener\<close>

definition READY_MARKER :: string where
  "READY_MARKER = ''ready.server''"

definition CLAIMED_MARKER :: string where
  "CLAIMED_MARKER = ''claimed.server''"

definition exists_or_false :: "disk \<Rightarrow> string \<Rightarrow> bool" where
  "exists_or_false d p \<longleftrightarrow> fault d p = None \<and> path_exists d p"

text \<open>\<open>entries\<close> are the names in the spool directory, in the order of \<open>read_dir\<close>.\<close>

definition scan_ready_sessions :: "string list \<Rightarrow> string \<Rightarrow> disk \<Rightarrow> string list" where
  "scan_ready_sessions entries spool_dir d =
     filter (\<lambda>name. let path = path_join spool_dir name in
       fault d path = None \<and> path \<in> folders d \<and> exists_or_false d (path_join path READY_MARKER)
       \<and> \<not> exists_or_false d (path_join path CLAIMED_MARKER)) entries"

datatype created = Created | Already_Exists | Create_Failed io_error

text \<open>\<open>create_new\<close>: one operation makes sure that the file was not there and creates it.\<close>

definition create_new :: "string \<Rightarrow> disk \<Rightarrow> created \<times> disk" where
  "create_new p d =
     (case fault d p of
        Some m \<Rightarrow> (Create_Failed (Io_Error m), d)
      | None \<Rightarrow>
          if path_exists d p then (Already_Exists, d)
          else if parent_there d p then (Created, d\<lparr>files := (files d)(p \<mapsto> [])\<rparr>)
          else (Create_Failed Not_Found, d))"

text \<open>\<open>write_all\<close> of a tokio file only hands its bytes over: an error of the write is the result of the next
  operation, here the flush, which is ignored. The text of the marker is never read.\<close>

definition claim_session :: "string \<Rightarrow> disk \<Rightarrow> (io_error + bool) \<times> disk" where
  "claim_session session d =
     (let claim = path_join session CLAIMED_MARKER in
      case create_new claim d of
        (Created, d1) \<Rightarrow> (Inr True, d1\<lparr>files := (files d1)(claim \<mapsto> as_bytes ''claimed'')\<rparr>)
      | (Already_Exists, d1) \<Rightarrow> (Inr False, d1)
      | (Create_Failed e, d1) \<Rightarrow> (Inl e, d1))"

record fs_listener =
  seen :: "string set"
  to_serve :: "string list"

text \<open>The body of the loop over the sessions found; the flag says that a task is started for the session.\<close>

definition serve_session :: "string \<Rightarrow> string \<Rightarrow> string set \<Rightarrow> disk \<Rightarrow> bool \<times> string set \<times> disk" where
  "serve_session spool_dir session seen_set d =
     (if session \<in> seen_set then (False, seen_set, d)
      else case claim_session (path_join spool_dir session) d of
        (Inr True, d1) \<Rightarrow> (True, insert session seen_set, d1)
      | (_, d1) \<Rightarrow> (False, insert session seen_set, d1))"

text \<open>Several listeners on one spool directory: each scans when it has served what it found, and serves one session
  after the other; the steps of all of them and of the clients interleave. Nobody removes a marker.\<close>

record spool_state =
  spool_disk :: disk
  fs_listeners :: "nat \<Rightarrow> fs_listener"
  started :: "(nat \<times> string) list"

inductive spool_reachable :: "string \<Rightarrow> spool_state \<Rightarrow> bool" for spool_dir where
  begin_: "spool_reachable spool_dir \<lparr>spool_disk = d, fs_listeners = (\<lambda>_. \<lparr>seen = {}, to_serve = []\<rparr>), started = []\<rparr>"
| scan: "spool_reachable spool_dir w \<Longrightarrow> to_serve (fs_listeners w i) = [] \<Longrightarrow>
    spool_reachable spool_dir (w\<lparr>fs_listeners := (fs_listeners w)(i := (fs_listeners w i)
      \<lparr>to_serve := scan_ready_sessions entries spool_dir (spool_disk w)\<rparr>)\<rparr>)"
| serve: "spool_reachable spool_dir w \<Longrightarrow> to_serve (fs_listeners w i) = session # rest \<Longrightarrow>
    serve_session spool_dir session (seen (fs_listeners w i)) (spool_disk w) = (ok, seen', d) \<Longrightarrow>
    spool_reachable spool_dir (w\<lparr>spool_disk := d, fs_listeners := (fs_listeners w)(i := \<lparr>seen = seen', to_serve = rest\<rparr>),
      started := started w @ (if ok then [(i, session)] else [])\<rparr>)"
| others: "spool_reachable spool_dir w \<Longrightarrow>
    (\<And>x. path_exists (spool_disk w) (path_join (path_join spool_dir x) CLAIMED_MARKER) \<Longrightarrow>
      path_exists d (path_join (path_join spool_dir x) CLAIMED_MARKER)) \<Longrightarrow>
    spool_reachable spool_dir (w\<lparr>spool_disk := d\<rparr>)"

lemma claim_session_effect:
  "claim_session s d = (r, d') \<Longrightarrow>
    (path_exists d p \<longrightarrow> path_exists d' p) \<and>
    (r = Inr True \<longrightarrow> \<not> path_exists d (path_join s CLAIMED_MARKER) \<and> path_exists d' (path_join s CLAIMED_MARKER))"
  by (auto simp: claim_session_def create_new_def path_exists_def Let_def split: option.splits if_splits)

lemma serve_session_effect:
  "serve_session spool x S d = (ok, S', d') \<Longrightarrow>
    (path_exists d p \<longrightarrow> path_exists d' p) \<and>
    (ok \<longrightarrow> \<not> path_exists d (path_join (path_join spool x) CLAIMED_MARKER) \<and>
      path_exists d' (path_join (path_join spool x) CLAIMED_MARKER))"
  by (auto simp: serve_session_def split: if_splits prod.splits sum.splits bool.splits dest: claim_session_effect)

lemma started_claimed:
  "spool_reachable spool_dir w \<Longrightarrow>
    distinct (map snd (started w)) \<and>
    (\<forall>x \<in> snd ` set (started w). path_exists (spool_disk w) (path_join (path_join spool_dir x) CLAIMED_MARKER))"
proof (induction rule: spool_reachable.induct)
  case (serve w i session rest ok seen' d)
  let ?mark = "\<lambda>x. path_join (path_join spool_dir x) CLAIMED_MARKER"
  note effect = serve_session_effect [OF serve(3)]
  have "ok \<Longrightarrow> session \<notin> snd ` set (started w)" using serve(4) effect by blast
  moreover have "ok \<Longrightarrow> path_exists d (?mark session)" using effect by blast
  moreover have "path_exists d (?mark x)" if "x \<in> snd ` set (started w)" for x using serve(4) effect that by blast
  ultimately show ?case using serve(4) by auto
qed auto

text \<open>C18. A session of the shared directory is served once: however many listeners poll the same spool directory, and
  however their scans and claims interleave, no session is started twice, by two listeners or by one.\<close>

theorem session_served_once:
  assumes "spool_reachable spool_dir w"
  shows "distinct (map snd (started w))"
  using started_claimed [OF assms] by simp

definition sample_spool :: disk where
  "sample_spool =
     \<lparr>files = [''/s/x/ready.server'' \<mapsto> []], folders = {''/s'', ''/s/x''}, fault = (\<lambda>_. None), other_device = (\<lambda>_ _. False)\<rparr>"

theorem session_served_once_witness:
  "\<exists>w :: spool_state. started w = [(0, ''x'')] \<and> seen (fs_listeners w 1) = {''x''} \<and> distinct (map snd (started w))"
proof -
  have names: "path_join ''/s'' ''x'' = ''/s/x''" "path_join ''/s/x'' ''ready.server'' = ''/s/x/ready.server''"
    "path_join ''/s/x'' ''claimed.server'' = ''/s/x/claimed.server''" "path_parent ''/s/x/claimed.server'' = Some ''/s/x''" by code_simp+
  let ?w = "\<lparr>spool_disk = sample_spool, fs_listeners = (\<lambda>_. \<lparr>seen = {}, to_serve = []\<rparr>), started = []\<rparr>"
  let ?d = "sample_spool\<lparr>files := (files sample_spool)(''/s/x/claimed.server'' \<mapsto> as_bytes ''claimed'')\<rparr>"
  have scan: "scan_ready_sessions [''x''] ''/s'' sample_spool = [''x'']"
    by (simp add: scan_ready_sessions_def names READY_MARKER_def CLAIMED_MARKER_def exists_or_false_def path_exists_def sample_spool_def)
  have first: "serve_session ''/s'' ''x'' {} sample_spool = (True, {''x''}, ?d)"
    by (simp add: serve_session_def claim_session_def create_new_def names CLAIMED_MARKER_def path_exists_def parent_there_def
        sample_spool_def)
  have second: "serve_session ''/s'' ''x'' {} ?d = (False, {''x''}, ?d)"
    by (simp add: serve_session_def claim_session_def create_new_def names CLAIMED_MARKER_def path_exists_def sample_spool_def)
  have "spool_reachable ''/s'' ?w" by (rule spool_reachable.begin_)
  from spool_reachable.scan [OF this, of 0 "[''x'']"]
  have "spool_reachable ''/s'' (?w\<lparr>fs_listeners := (fs_listeners ?w)(0 := \<lparr>seen = {}, to_serve = [''x'']\<rparr>)\<rparr>)"
    (is "spool_reachable _ ?w1") by (simp add: scan)
  from spool_reachable.scan [OF this, of 1 "[''x'']"]
  have "spool_reachable ''/s'' (?w1\<lparr>fs_listeners := (fs_listeners ?w1)(1 := \<lparr>seen = {}, to_serve = [''x'']\<rparr>)\<rparr>)"
    (is "spool_reachable _ ?w2") by (simp add: scan)
  from spool_reachable.serve [OF this, of 0 "''x''" "[]" True "{''x''}" ?d]
  have "spool_reachable ''/s'' (?w2\<lparr>spool_disk := ?d, fs_listeners := (fs_listeners ?w2)(0 := \<lparr>seen = {''x''}, to_serve = []\<rparr>),
      started := [(0, ''x'')]\<rparr>)" (is "spool_reachable _ ?w3") by (simp add: first)
  from spool_reachable.serve [OF this, of 1 "''x''" "[]" False "{''x''}" ?d]
  have "spool_reachable ''/s'' (?w3\<lparr>spool_disk := ?d, fs_listeners := (fs_listeners ?w3)(1 := \<lparr>seen = {''x''}, to_serve = []\<rparr>)\<rparr>)"
    (is "spool_reachable _ ?w4") by (simp add: second)
  from session_served_once [OF this] have p: "distinct (map snd (started ?w4))" .
  show ?thesis
  proof (rule exI [of _ ?w4], intro conjI)
    show "distinct (map snd (started ?w4))" by (rule p)
  qed simp_all
qed

end
