(* ===== verification/Mux.thy ===== *)
theory Mux
  imports Framing Rust_Str "HOL-Library.Sublist"
begin

text \<open>
  Connection multiplexing, \<open>mrsh-server/src/mux.rs\<close>: the frame format and, for the Windows build, the
  server side with its channel table, the channel handlers as tasks that share the writer, and the
  messages of the client, in any interleaving.
\<close>

section \<open>Messages\<close>

definition MAX_PAYLOAD_SIZE :: nat where "MAX_PAYLOAD_SIZE = 10 * 1024 * 1024"
definition CHANNEL_BUFFER :: nat where "CHANNEL_BUFFER = 16"

datatype mux_type = Channel_Open | Channel_Confirm | Channel_Reject | Channel_Data | Channel_Close | Channel_EOF

fun type_byte :: "mux_type \<Rightarrow> byte" where
  "type_byte Channel_Open = 0"
| "type_byte Channel_Confirm = 1"
| "type_byte Channel_Reject = 2"
| "type_byte Channel_Data = 3"
| "type_byte Channel_Close = 4"
| "type_byte Channel_EOF = 5"

definition from_byte :: "byte \<Rightarrow> mux_type result" where
  "from_byte b =
     (if b = 0 then Inr Channel_Open else if b = 1 then Inr Channel_Confirm else if b = 2 then Inr Channel_Reject
      else if b = 3 then Inr Channel_Data else if b = 4 then Inr Channel_Close else if b = 5 then Inr Channel_EOF
      else Inl (UnknownMsgType b))"

record mux_message =
  channel_id :: u32
  mux_type :: mux_type
  payload :: bytes

definition read_message :: "bytes \<Rightarrow> (mux_message \<times> bytes) result" where
  "read_message s =
     and_then (read_exact 9 s) (\<lambda>(header, s1).
     and_then (from_byte (header ! 8)) (\<lambda>t.
       let payload_len = from_be (take 4 header) - 5
       in if MAX_PAYLOAD_SIZE < payload_len then Inl (MessageTooLarge payload_len)
          else and_then (read_exact payload_len s1) (\<lambda>(p, s2).
            Inr (\<lparr>channel_id = word_of_nat (from_be (take 4 (drop 4 header))), mux_type = t, payload = p\<rparr>, s2))))"

text \<open>The length is computed in \<open>u32\<close>; a payload whose length does not fit makes the copy into the
  buffer panic.\<close>

definition write_message :: "mux_message \<Rightarrow> bytes result" where
  "write_message m =
     (let total_len = 5 + (word_of_nat (length (payload m)) :: u32)
      in if unat total_len = 5 + length (payload m)
         then Inr (be_bytes 4 (unat total_len) @ be_bytes 4 (unat (channel_id m)) @ [type_byte (mux_type m)] @ payload m)
         else Inl Panicked)"

definition parse_open_payload :: "(bytes \<Rightarrow> string) \<Rightarrow> bytes \<Rightarrow> string \<times> string" where
  "parse_open_payload lossy p =
     (case dropWhile (\<lambda>b. b \<noteq> 0) p of
        [] \<Rightarrow> (lossy p, [])
      | _ # rest \<Rightarrow> (lossy (takeWhile (\<lambda>b. b \<noteq> 0) p), lossy rest))"

section \<open>The frames are a framing\<close>

definition mux_sendable :: "mux_message \<Rightarrow> bool" where
  "mux_sendable m \<longleftrightarrow> length (payload m) \<le> MAX_PAYLOAD_SIZE"

definition mux_bytes :: "mux_message \<Rightarrow> bytes" where
  "mux_bytes m = (case write_message m of Inr b \<Rightarrow> b | Inl _ \<Rightarrow> [])"

lemma from_byte_type_byte [simp]: "from_byte (type_byte t) = Inr t"
  by (cases t) (simp_all add: from_byte_def)

lemma write_sendable:
  assumes "mux_sendable m"
  shows "write_message m = Inr (mux_bytes m)"
    "mux_bytes m = be_bytes 4 (5 + length (payload m)) @ be_bytes 4 (unat (channel_id m)) @ [type_byte (mux_type m)] @ payload m"
proof -
  have "length (payload m) \<le> 10485760" using assms by (simp add: mux_sendable_def MAX_PAYLOAD_SIZE_def)
  then have "unat (5 + (word_of_nat (length (payload m)) :: u32)) = 5 + length (payload m)"
    by (simp add: unat_word_ariths unat_of_nat)
  then show "write_message m = Inr (mux_bytes m)"
    "mux_bytes m = be_bytes 4 (5 + length (payload m)) @ be_bytes 4 (unat (channel_id m)) @ [type_byte (mux_type m)] @ payload m"
    by (simp_all add: write_message_def mux_bytes_def)
qed

lemma read_write_message: "mux_sendable m \<Longrightarrow> read_message (mux_bytes m @ rest) = Inr (m, rest)"
proof -
  assume m: "mux_sendable m"
  let ?h = "be_bytes 4 (5 + length (payload m)) @ be_bytes 4 (unat (channel_id m)) @ [type_byte (mux_type m)]"
  have l: "length (payload m) \<le> 10485760" using m by (simp add: mux_sendable_def MAX_PAYLOAD_SIZE_def)
  have "read_exact 9 (mux_bytes m @ rest) = Inr (?h, payload m @ rest)"
    by (simp add: write_sendable(2) [OF m] read_exact_def)
  moreover have "?h ! 8 = type_byte (mux_type m)" by (simp add: nth_append)
  moreover have "from_be (take 4 ?h) - 5 = length (payload m)" using l by (simp add: bytes_simps)
  moreover have "(word_of_nat (from_be (take 4 (drop 4 ?h))) :: u32) = channel_id m" by (simp add: bytes_simps)
  ultimately show ?thesis
    using l by (simp add: read_message_def Let_def read_exact_def MAX_PAYLOAD_SIZE_def)
qed

lemma read_message_mono: "read_message s = Inr (m, r) \<Longrightarrow> read_message (s @ t) = Inr (m, r @ t)"
  by (auto simp: read_message_def Let_def result_simps read_exact_mono split: if_splits prod.splits)

interpretation mux: framing mux_bytes read_message mux_sendable
  by unfold_locales (simp_all add: read_write_message read_message_mono)

section \<open>The server side\<close>

datatype chan_kind = Tunnel_Channel string | Udp_Channel string | Exec_Channel | Shell_Channel

text \<open>A handler waits to confirm, runs, is about to close its channel, or is about to leave the table.\<close>

datatype chan_phase = Opening | Running | Ending | Leaving

record channel_task =
  ct_id :: u32
  ct_kind :: chan_kind
  ct_queue :: "bytes list"
  ct_closed :: bool
  ct_eof_recv :: bool
  ct_eof_sent :: bool
  ct_phase :: chan_phase
  ct_taken :: "bytes list"

text \<open>The table maps a channel id to the task that was opened under it last. \<open>sent\<close> lists the messages
  written, each with the task that wrote it, \<open>data_log\<close> the data messages received.\<close>

record mux_conn =
  chans :: "u32 \<rightharpoonup> nat"
  ctasks :: "nat \<rightharpoonup> channel_task"
  fresh :: nat
  sent :: "(nat \<times> mux_message) list"
  data_log :: "(u32 \<times> bytes) list"

definition mux_init :: mux_conn where
  "mux_init = \<lparr>chans = Map.empty, ctasks = Map.empty, fresh = 0, sent = [], data_log = []\<rparr>"

definition chan_kind_of :: "string \<Rightarrow> string \<Rightarrow> chan_kind option" where
  "chan_kind_of chan_type target =
     (if chan_type = ''tunnel'' then Some (Tunnel_Channel target)
      else if chan_type = ''udp-tunnel'' then Some (Udp_Channel target)
      else if chan_type = ''exec'' then Some Exec_Channel
      else if chan_type = ''shell'' then Some Shell_Channel else None)"

definition send_as :: "nat \<Rightarrow> u32 \<Rightarrow> mux_type \<Rightarrow> bytes \<Rightarrow> mux_conn \<Rightarrow> mux_conn" where
  "send_as t i ty p s = s\<lparr>sent := sent s @ [(t, \<lparr>channel_id = i, mux_type = ty, payload = p\<rparr>)]\<rparr>"

definition set_task :: "nat \<Rightarrow> channel_task \<Rightarrow> mux_conn \<Rightarrow> mux_conn" where
  "set_task t k s = s\<lparr>ctasks := (ctasks s)(t \<mapsto> k)\<rparr>"

definition new_task :: "u32 \<Rightarrow> chan_kind \<Rightarrow> channel_task" where
  "new_task i k = \<lparr>ct_id = i, ct_kind = k, ct_queue = [], ct_closed = False, ct_eof_recv = False, ct_eof_sent = False,
     ct_phase = Opening, ct_taken = []\<rparr>"

definition handle_channel_open :: "(bytes \<Rightarrow> string) \<Rightarrow> mux_message \<Rightarrow> mux_conn \<Rightarrow> mux_conn" where
  "handle_channel_open lossy msg s =
     (let (chan_type, target) = parse_open_payload lossy (payload msg); i = channel_id msg; t = fresh s
      in case chan_kind_of chan_type target of
           Some k \<Rightarrow> set_task t (new_task i k) (s\<lparr>chans := (chans s)(i \<mapsto> t), fresh := Suc t\<rparr>)
         | None \<Rightarrow> send_as t i Channel_Reject (as_bytes (''unknown channel type: '' @ chan_type))
                     (s\<lparr>chans := (chans s)(i := None), fresh := Suc t\<rparr>))"

text \<open>Data waits for room in the queue of its channel: the read loop is blocked while there is none.\<close>

definition has_room :: "mux_message \<Rightarrow> mux_conn \<Rightarrow> bool" where
  "has_room msg s \<longleftrightarrow>
     (case chans s (channel_id msg) of
        Some t \<Rightarrow> (case ctasks s t of
                     Some k \<Rightarrow> ct_closed k \<or> ct_phase k = Leaving \<or> length (ct_queue k) < CHANNEL_BUFFER
                   | None \<Rightarrow> True)
      | None \<Rightarrow> True)"

definition on_task :: "u32 \<Rightarrow> (channel_task \<Rightarrow> channel_task) \<Rightarrow> mux_conn \<Rightarrow> mux_conn" where
  "on_task i f s =
     (case chans s i of
        Some t \<Rightarrow> (case ctasks s t of Some k \<Rightarrow> set_task t (f k) s | None \<Rightarrow> s)
      | None \<Rightarrow> s)"

definition handle_mux_message :: "(bytes \<Rightarrow> string) \<Rightarrow> mux_message \<Rightarrow> mux_conn \<Rightarrow> mux_conn" where
  "handle_mux_message lossy msg s =
     (case mux_type msg of
        Channel_Open \<Rightarrow> handle_channel_open lossy msg s
      | Channel_Data \<Rightarrow>
          on_task (channel_id msg)
            (\<lambda>k. if ct_closed k \<or> ct_phase k = Leaving then k else k\<lparr>ct_queue := ct_queue k @ [payload msg]\<rparr>)
            (s\<lparr>data_log := data_log s @ [(channel_id msg, payload msg)]\<rparr>)
      | Channel_EOF \<Rightarrow> on_task (channel_id msg) (\<lambda>k. k\<lparr>ct_eof_recv := True\<rparr>) s
      | Channel_Close \<Rightarrow>
          (on_task (channel_id msg) (\<lambda>k. k\<lparr>ct_closed := True\<rparr>) s)\<lparr>chans := (chans s)(channel_id msg := None)\<rparr>
      | _ \<Rightarrow> s)"

text \<open>\<open>close\<close>: the connection ended; every channel in the table is closed.\<close>

definition mux_close :: "mux_conn \<Rightarrow> mux_conn" where
  "mux_close s = s\<lparr>chans := Map.empty,
     ctasks := (\<lambda>t. map_option (\<lambda>k. if t \<in> ran (chans s) then k\<lparr>ct_closed := True\<rparr> else k) (ctasks s t))\<rparr>"

section \<open>The channel handlers\<close>

definition confirm :: "nat \<Rightarrow> channel_task \<Rightarrow> mux_conn \<Rightarrow> mux_conn" where
  "confirm t k s = send_as t (ct_id k) Channel_Confirm [] (set_task t (k\<lparr>ct_phase := Running\<rparr>) s)"

definition refuse :: "nat \<Rightarrow> channel_task \<Rightarrow> string \<Rightarrow> mux_conn \<Rightarrow> mux_conn" where
  "refuse t k reason s = send_as t (ct_id k) Channel_Reject (as_bytes reason) (set_task t (k\<lparr>ct_phase := Leaving\<rparr>) s)"

text \<open>\<open>write_data\<close>: on a closed channel a tunnel stops, the others ignore the error.\<close>

definition relays :: "chan_kind \<Rightarrow> bool" where
  "relays k = (case k of Tunnel_Channel _ \<Rightarrow> True | Udp_Channel _ \<Rightarrow> True | _ \<Rightarrow> False)"

definition write_data :: "nat \<Rightarrow> channel_task \<Rightarrow> bytes \<Rightarrow> mux_conn \<Rightarrow> mux_conn" where
  "write_data t k d s =
     (if ct_closed k then set_task t (if relays (ct_kind k) then k\<lparr>ct_phase := Ending\<rparr> else k) s
      else send_as t (ct_id k) Channel_Data d s)"

definition send_eof :: "nat \<Rightarrow> channel_task \<Rightarrow> mux_conn \<Rightarrow> mux_conn" where
  "send_eof t k s =
     (let s' = set_task t (k\<lparr>ct_eof_sent := True, ct_phase := Ending\<rparr>) s
      in if ct_eof_sent k then s' else send_as t (ct_id k) Channel_EOF [] s')"

definition take_data :: "nat \<Rightarrow> channel_task \<Rightarrow> bytes \<Rightarrow> bytes list \<Rightarrow> mux_conn \<Rightarrow> mux_conn" where
  "take_data t k d q s =
     set_task t (if ct_closed k then k\<lparr>ct_queue := q, ct_phase := Ending\<rparr>
                 else k\<lparr>ct_queue := q, ct_taken := ct_taken k @ [d]\<rparr>) s"

definition close_channel :: "nat \<Rightarrow> channel_task \<Rightarrow> mux_conn \<Rightarrow> mux_conn" where
  "close_channel t k s =
     (let s' = set_task t (k\<lparr>ct_closed := True, ct_phase := Leaving\<rparr>) s
      in if ct_closed k then s' else send_as t (ct_id k) Channel_Close [] s')"

definition leave :: "nat \<Rightarrow> channel_task \<Rightarrow> mux_conn \<Rightarrow> mux_conn" where
  "leave t k s = s\<lparr>chans := (chans s)(ct_id k := None), ctasks := (ctasks s)(t := None)\<rparr>"

inductive mux_reachable :: "(bytes \<Rightarrow> string) \<Rightarrow> mux_conn \<Rightarrow> bool" for lossy where
  init: "mux_reachable lossy mux_init"
| message: "mux_reachable lossy s \<Longrightarrow> mux_type msg = Channel_Data \<longrightarrow> has_room msg s \<Longrightarrow>
    mux_reachable lossy (handle_mux_message lossy msg s)"
| close: "mux_reachable lossy s \<Longrightarrow> mux_reachable lossy (mux_close s)"
| connected: "mux_reachable lossy s \<Longrightarrow> ctasks s t = Some k \<Longrightarrow> ct_phase k = Opening \<Longrightarrow> ct_kind k \<noteq> Exec_Channel \<Longrightarrow>
    mux_reachable lossy (confirm t k s)"
| refused: "mux_reachable lossy s \<Longrightarrow> ctasks s t = Some k \<Longrightarrow> ct_phase k = Opening \<Longrightarrow> relays (ct_kind k) \<Longrightarrow>
    mux_reachable lossy (refuse t k reason s)"
| command: "mux_reachable lossy s \<Longrightarrow> ctasks s t = Some k \<Longrightarrow> ct_phase k = Opening \<Longrightarrow> ct_kind k = Exec_Channel \<Longrightarrow>
    ct_queue k = d # q \<Longrightarrow> mux_reachable lossy (confirm t (k\<lparr>ct_queue := q, ct_taken := [d]\<rparr>) s)"
| no_command: "mux_reachable lossy s \<Longrightarrow> ctasks s t = Some k \<Longrightarrow> ct_phase k = Opening \<Longrightarrow> ct_kind k = Exec_Channel \<Longrightarrow>
    ct_queue k = [] \<Longrightarrow> chans s (ct_id k) \<noteq> Some t \<Longrightarrow>
    mux_reachable lossy (set_task t (k\<lparr>ct_phase := Leaving\<rparr>) s)"
| writes: "mux_reachable lossy s \<Longrightarrow> ctasks s t = Some k \<Longrightarrow> ct_phase k = Running \<Longrightarrow>
    mux_reachable lossy (write_data t k d s)"
| eof: "mux_reachable lossy s \<Longrightarrow> ctasks s t = Some k \<Longrightarrow> ct_phase k = Running \<Longrightarrow> mux_reachable lossy (send_eof t k s)"
| takes: "mux_reachable lossy s \<Longrightarrow> ctasks s t = Some k \<Longrightarrow> ct_phase k = Running \<Longrightarrow> relays (ct_kind k) \<Longrightarrow>
    ct_queue k = d # q \<Longrightarrow> mux_reachable lossy (take_data t k d q s)"
| stopped: "mux_reachable lossy s \<Longrightarrow> ctasks s t = Some k \<Longrightarrow> ct_phase k = Running \<Longrightarrow>
    mux_reachable lossy (set_task t (k\<lparr>ct_phase := Ending\<rparr>) s)"
| closing: "mux_reachable lossy s \<Longrightarrow> ctasks s t = Some k \<Longrightarrow> ct_phase k = Ending \<Longrightarrow>
    mux_reachable lossy (close_channel t k s)"
| left: "mux_reachable lossy s \<Longrightarrow> ctasks s t = Some k \<Longrightarrow> ct_phase k = Leaving \<Longrightarrow> mux_reachable lossy (leave t k s)"

section \<open>The discipline of a channel\<close>

definition types_of :: "nat \<Rightarrow> mux_conn \<Rightarrow> mux_type list" where
  "types_of t s = map (mux_type \<circ> snd) (filter (\<lambda>e. fst e = t) (sent s))"

definition data_of :: "u32 \<Rightarrow> mux_conn \<Rightarrow> bytes list" where
  "data_of i s = map snd (filter (\<lambda>e. fst e = i) (data_log s))"

text \<open>What a handler may have written: a confirmation, data, perhaps an end-of-file.\<close>

definition opened :: "mux_type list \<Rightarrow> bool" where
  "opened ms \<longleftrightarrow> (\<exists>n. ms = Channel_Confirm # replicate n Channel_Data)"

definition ended :: "mux_type list \<Rightarrow> bool" where
  "ended ms \<longleftrightarrow> opened ms \<or> (\<exists>ms'. opened ms' \<and> ms = ms' @ [Channel_EOF])"

definition finished :: "mux_type list \<Rightarrow> bool" where
  "finished ms \<longleftrightarrow> ms = [] \<or> ms = [Channel_Reject] \<or> ended ms \<or> (\<exists>ms'. ended ms' \<and> ms = ms' @ [Channel_Close])"

definition phase_ok :: "channel_task \<Rightarrow> mux_type list \<Rightarrow> bool" where
  "phase_ok k ms =
     (case ct_phase k of
        Opening \<Rightarrow> ms = [] \<and> \<not> ct_eof_sent k \<and> ct_taken k = []
      | Running \<Rightarrow> opened ms \<and> \<not> ct_eof_sent k
      | Ending \<Rightarrow> ended ms
      | Leaving \<Rightarrow> finished ms)"

definition task_ok :: "nat \<Rightarrow> channel_task \<Rightarrow> mux_conn \<Rightarrow> bool" where
  "task_ok t k s \<longleftrightarrow>
     phase_ok k (types_of t s) \<and> length (ct_queue k) \<le> CHANNEL_BUFFER \<and>
     subseq (ct_taken k @ ct_queue k) (data_of (ct_id k) s) \<and>
     (\<forall>m. (t, m) \<in> set (sent s) \<longrightarrow> channel_id m = ct_id k)"

definition mux_inv :: "mux_conn \<Rightarrow> bool" where
  "mux_inv s \<longleftrightarrow>
     (\<forall>i t. chans s i = Some t \<longrightarrow> (\<exists>k. ctasks s t = Some k \<and> ct_id k = i)) \<and>
     (\<forall>t k. ctasks s t = Some k \<longrightarrow> t < fresh s \<and> task_ok t k s) \<and>
     (\<forall>t. finished (types_of t s)) \<and> (\<forall>t m. (t, m) \<in> set (sent s) \<longrightarrow> t < fresh s)"

lemma lang_simps [simp]:
  "opened [Channel_Confirm]" "finished []" "finished [Channel_Reject]" "opened ms \<Longrightarrow> ended ms" "ended ms \<Longrightarrow> finished ms"
  "opened ms \<Longrightarrow> opened (ms @ [Channel_Data])" "opened ms \<Longrightarrow> ended (ms @ [Channel_EOF])" "ended ms \<Longrightarrow> finished (ms @ [Channel_Close])"
  by (auto simp: opened_def ended_def finished_def replicate_append_same intro: exI [of _ 0] exI [of _ "Suc _"])

lemma phase_finished: "phase_ok k ms \<Longrightarrow> finished ms"
  by (auto simp: phase_ok_def split: chan_phase.splits)

lemma mux_invD:
  assumes "mux_inv s"
  shows "chans s i = Some t \<Longrightarrow> \<exists>k. ctasks s t = Some k \<and> ct_id k = i"
    and "ctasks s t = Some k \<Longrightarrow> t < fresh s" and "ctasks s t = Some k \<Longrightarrow> task_ok t k s"
    and "finished (types_of t s)" and "(t, m) \<in> set (sent s) \<Longrightarrow> t < fresh s"
  using assms unfolding mux_inv_def by blast+

lemma mux_invI:
  assumes "\<And>i t. chans s i = Some t \<Longrightarrow> \<exists>k. ctasks s t = Some k \<and> ct_id k = i"
    and "\<And>t k. ctasks s t = Some k \<Longrightarrow> t < fresh s \<and> task_ok t k s"
    and "\<And>t. finished (types_of t s)" and "\<And>t m. (t, m) \<in> set (sent s) \<Longrightarrow> t < fresh s"
  shows "mux_inv s"
  using assms unfolding mux_inv_def by blast

text \<open>A step of one task: it changes its own record, writes its own messages, and may take itself out
  of the table.\<close>

lemma mux_inv_step:
  assumes inv: "mux_inv s" and k: "ctasks s t = Some k" and same: "ct_id k' = ct_id k"
    and s': "chans s' = chans s" "ctasks s' = (ctasks s)(t \<mapsto> k')" "fresh s' = fresh s" "data_log s' = data_log s"
      "sent s' = sent s @ map (\<lambda>m. (t, m)) ms"
    and ms: "\<forall>m \<in> set ms. channel_id m = ct_id k" and phase: "phase_ok k' (types_of t s @ map mux_type ms)"
    and data: "subseq (ct_taken k' @ ct_queue k') (ct_taken k @ ct_queue k)" "length (ct_queue k') \<le> length (ct_queue k)"
  shows "mux_inv s'"
proof -
  note D = mux_invD [OF inv]
  have types: "types_of t' s' = (if t' = t then types_of t s @ map mux_type ms else types_of t' s)" for t'
    by (simp add: types_of_def s' filter_empty_conv filter_map comp_def)
  have "task_ok t k' s'"
    using D(3) [OF k] data ms phase same
    by (auto simp: task_ok_def types data_of_def s' intro: subseq_order.trans)
  moreover have "task_ok t' k2 s'" if "ctasks s t' = Some k2" "t' \<noteq> t" for t' k2
    using D(3) [OF that(1)] that(2) by (auto simp: task_ok_def types data_of_def s')
  moreover have "\<forall>i. chans s i = Some t \<longrightarrow> ct_id k = i" using D(1) k by fastforce
  ultimately show ?thesis
    unfolding mux_inv_def
    using D k same phase_finished [OF phase] by (auto simp: s' types)
qed

text \<open>Steps that only raise flags of tasks or take entries out of the table.\<close>

definition flagged :: "channel_task \<Rightarrow> channel_task \<Rightarrow> bool" where
  "flagged k k' \<longleftrightarrow> ct_id k' = ct_id k \<and> ct_queue k' = ct_queue k \<and> ct_taken k' = ct_taken k \<and>
     ct_phase k' = ct_phase k \<and> ct_eof_sent k' = ct_eof_sent k"

lemma flagged_id [simp]: "flagged k k" "flagged k (k\<lparr>ct_closed := c\<rparr>)" "flagged k (k\<lparr>ct_eof_recv := e\<rparr>)"
  by (simp_all add: flagged_def)

lemma mux_inv_quiet:
  assumes inv: "mux_inv s" and s': "fresh s' = fresh s" "sent s' = sent s" "data_log s' = data_log s"
    and chans: "\<And>i t. chans s' i = Some t \<Longrightarrow> chans s i = Some t"
    and tasks: "\<And>t. ctasks s t = None \<Longrightarrow> ctasks s' t = None"
      "\<And>t k. ctasks s t = Some k \<Longrightarrow> \<exists>k'. ctasks s' t = Some k' \<and> flagged k k'"
  shows "mux_inv s'"
proof -
  note D = mux_invD [OF inv]
  have types: "types_of t s' = types_of t s" "data_of i s' = data_of i s" for t i
    by (simp_all add: types_of_def data_of_def s')
  have ok: "task_ok t k' s' \<and> ct_id k' = ct_id k" if "task_ok t k s" "flagged k k'" for t k k'
    using that by (cases "ct_phase k") (auto simp: task_ok_def types s' flagged_def phase_ok_def)
  have "t < fresh s \<and> task_ok t k' s'" if "ctasks s' t = Some k'" for t k'
  proof (cases "ctasks s t")
    case None
    with tasks(1) that show ?thesis by simp
  next
    case (Some k)
    with tasks(2) [OF Some] that have "flagged k k'" by auto
    with D(2,3) [OF Some] ok [of t k k'] show ?thesis by simp
  qed
  moreover have "\<exists>k. ctasks s' t = Some k \<and> ct_id k = i" if a: "chans s' i = Some t" for i t
  proof -
    obtain k where k: "ctasks s t = Some k" "ct_id k = i" using D(1) [OF chans [OF a]] by blast
    obtain k' where "ctasks s' t = Some k'" "flagged k k'" using tasks(2) [OF k(1)] by blast
    with k show ?thesis by (auto simp: flagged_def)
  qed
  ultimately show ?thesis unfolding mux_inv_def using D(4,5) by (simp add: s' types)
qed

lemma flagged_on_task:
  assumes "\<And>k. flagged k (f k)"
  shows "ctasks s t = None \<Longrightarrow> ctasks (on_task i f s) t = None"
    "ctasks s t = Some k \<Longrightarrow> \<exists>k'. ctasks (on_task i f s) t = Some k' \<and> flagged k k'"
  using assms by (auto simp: on_task_def set_task_def split: option.splits)

lemma on_task_frame [simp]:
  "fresh (on_task i f s) = fresh s" "sent (on_task i f s) = sent s" "data_log (on_task i f s) = data_log s"
  "chans (on_task i f s) = chans s"
  by (auto simp: on_task_def set_task_def split: option.split)

lemma mux_inv_open: "mux_inv s \<Longrightarrow> mux_inv (handle_channel_open lossy msg s)"
proof -
  assume inv: "mux_inv s"
  note D = mux_invD [OF inv]
  have new: "types_of (fresh s) s = []" using D(5) by (fastforce simp: types_of_def filter_empty_conv)
  obtain ct target where p: "parse_open_payload lossy (payload msg) = (ct, target)" by (cases "parse_open_payload lossy (payload msg)")
  show ?thesis
  proof (cases "chan_kind_of ct target")
    case (Some k)
    let ?s = "handle_channel_open lossy msg s"
    have s: "?s = set_task (fresh s) (new_task (channel_id msg) k)
        (s\<lparr>chans := (chans s)(channel_id msg \<mapsto> fresh s), fresh := Suc (fresh s)\<rparr>)"
      by (simp add: handle_channel_open_def p Some Let_def)
    have types: "types_of t ?s = types_of t s" "data_of i ?s = data_of i s" for t i
      by (simp_all add: s types_of_def data_of_def set_task_def)
    have sent: "sent ?s = sent s" by (simp add: s set_task_def)
    have "task_ok (fresh s) (new_task (channel_id msg) k) ?s"
      unfolding task_ok_def types sent using D(5) new by (auto simp: new_task_def phase_ok_def)
    moreover have "task_ok t k' ?s" if "task_ok t k' s" for t k'
      using that by (simp add: task_ok_def types) (simp add: s set_task_def)
    ultimately have tasks: "t < fresh ?s \<and> task_ok t k' ?s" if "ctasks ?s t = Some k'" for t k'
      using that D(2,3) [of t k'] by (cases "t = fresh s") (auto simp: s set_task_def)
    have "\<exists>k. ctasks ?s t = Some k \<and> ct_id k = i" if "chans ?s i = Some t" for i t
    proof (cases "i = channel_id msg")
      case True
      with that show ?thesis by (simp add: s set_task_def new_task_def)
    next
      case False
      with that D(1) [of i t] obtain k where "ctasks s t = Some k" "ct_id k = i" by (auto simp: s set_task_def)
      with D(2) [of t k] show ?thesis by (auto simp: s set_task_def)
    qed
    moreover note tasks
    moreover have "finished (types_of t ?s)" for t using D(4) by (simp only: types)
    moreover have "t < fresh ?s" if "(t, m) \<in> set (sent ?s)" for t m
      using D(5) [of t m] that by (simp add: s set_task_def)
    ultimately show ?thesis by (rule mux_invI)
  next
    case None
    let ?s = "handle_channel_open lossy msg s"
    have s: "?s = send_as (fresh s) (channel_id msg) Channel_Reject (as_bytes (''unknown channel type: '' @ ct))
        (s\<lparr>chans := (chans s)(channel_id msg := None), fresh := Suc (fresh s)\<rparr>)"
      by (simp add: handle_channel_open_def p None Let_def)
    have types: "types_of t ?s = (if t = fresh s then [Channel_Reject] else types_of t s)" for t
      using new by (simp add: s types_of_def send_as_def)
    have "task_ok t k ?s" if "ctasks s t = Some k" for t k
      using D(2,3) [OF that] by (auto simp: task_ok_def types data_of_def) (auto simp: s send_as_def)
    moreover have "fresh ?s = Suc (fresh s)" "ctasks ?s = ctasks s" "chans ?s = (chans s)(channel_id msg := None)"
      "sent ?s = sent s @ [(fresh s, \<lparr>channel_id = channel_id msg, mux_type = Channel_Reject,
         payload = as_bytes (''unknown channel type: '' @ ct)\<rparr>)]"
      by (simp_all add: s send_as_def)
    ultimately show ?thesis
      using D by (intro mux_invI) (auto simp: types less_Suc_eq split: if_splits)
  qed
qed

lemma mux_inv_data:
  assumes "mux_inv s" "has_room msg s"
  shows "mux_inv (on_task (channel_id msg)
    (\<lambda>k. if ct_closed k \<or> ct_phase k = Leaving then k else k\<lparr>ct_queue := ct_queue k @ [payload msg]\<rparr>)
    (s\<lparr>data_log := data_log s @ [(channel_id msg, payload msg)]\<rparr>))" (is "mux_inv ?s")
proof -
  note D = mux_invD [OF assms(1)]
  let ?f = "\<lambda>k. if ct_closed k \<or> ct_phase k = Leaving then k else k\<lparr>ct_queue := ct_queue k @ [payload msg]\<rparr>"
  have frame: "fresh ?s = fresh s" "sent ?s = sent s" "chans ?s = chans s" by simp_all
  have tasks: "ctasks ?s t = map_option (\<lambda>k. if chans s (channel_id msg) = Some t then ?f k else k) (ctasks s t)" for t
    by (cases "ctasks s t") (auto simp: on_task_def set_task_def split: option.split)
  have types: "types_of t ?s = types_of t s"
    "data_of i ?s = data_of i s @ (if i = channel_id msg then [payload msg] else [])" for t i
    by (simp_all add: types_of_def data_of_def)
  have grow: "subseq xs ys \<Longrightarrow> subseq xs (ys @ zs)" for xs ys zs :: "bytes list" by (erule subseq_order.trans) (rule prefix_imp_subseq, simp)
  have same: "task_ok t k ?s" if "task_ok t k s" for t k
    using that by (auto simp: task_ok_def types frame intro: grow)
  show ?thesis
  proof (rule mux_invI)
    show "\<exists>k. ctasks ?s t = Some k \<and> ct_id k = i" if a: "chans ?s i = Some t" for i t
    proof -
      obtain k where "ctasks s t = Some k" "ct_id k = i" using D(1) [of i t] a frame by auto
      then show ?thesis by (simp only: tasks option.map option.inject) simp
    qed
    show "finished (types_of t ?s)" for t using D(4) by (simp only: types)
    show "t < fresh ?s" if "(t, m) \<in> set (sent ?s)" for t m using D(5) that frame by auto
    show "t < fresh ?s \<and> task_ok t k' ?s" if k': "ctasks ?s t = Some k'" for t k'
    proof -
      obtain k where k: "ctasks s t = Some k" using k' tasks by (cases "ctasks s t") auto
      note ok = D(3) [OF k]
      show ?thesis
      proof (cases "chans s (channel_id msg) = Some t \<and> \<not> ct_closed k \<and> ct_phase k \<noteq> Leaving")
        case True
        then have k'': "k' = k\<lparr>ct_queue := ct_queue k @ [payload msg]\<rparr>" using k' k tasks [of t] by auto
        have "ct_id k = channel_id msg" using D(1) True k by fastforce
        moreover have "length (ct_queue k) < CHANNEL_BUFFER" using assms(2) True k by (simp add: has_room_def)
        moreover have "subseq ((ct_taken k @ ct_queue k) @ [payload msg]) (data_of (ct_id k) s @ [payload msg])"
          using ok by (intro list_emb_append_mono) (auto simp: task_ok_def)
        ultimately show ?thesis using D(2) [OF k] ok frame
          by (auto simp: k'' task_ok_def types phase_ok_def split: chan_phase.splits)
      next
        case False
        then have "k' = k" using k' k tasks [of t] by auto
        with same [OF ok] D(2) [OF k] frame show ?thesis by simp
      qed
    qed
  qed
qed

lemma mux_inv_message: "mux_inv s \<Longrightarrow> mux_type msg = Channel_Data \<longrightarrow> has_room msg s \<Longrightarrow> mux_inv (handle_mux_message lossy msg s)"
proof (cases "mux_type msg")
  case Channel_EOF
  assume "mux_inv s"
  then have "mux_inv (on_task (channel_id msg) (\<lambda>k. k\<lparr>ct_eof_recv := True\<rparr>) s)"
    by (rule mux_inv_quiet) (simp_all add: flagged_on_task)
  with Channel_EOF show ?thesis by (simp add: handle_mux_message_def)
next
  case Channel_Close
  assume "mux_inv s"
  then have "mux_inv ((on_task (channel_id msg) (\<lambda>k. k\<lparr>ct_closed := True\<rparr>) s)\<lparr>chans := (chans s)(channel_id msg := None)\<rparr>)"
    by (rule mux_inv_quiet) (simp_all add: flagged_on_task split: if_splits)
  with Channel_Close show ?thesis by (simp add: handle_mux_message_def)
qed (simp_all add: handle_mux_message_def mux_inv_open mux_inv_data)

lemma mux_inv_leave:
  assumes "mux_inv s" "ctasks s t = Some k"
  shows "mux_inv (leave t k s)"
proof -
  note D = mux_invD [OF assms(1)]
  have "task_ok t' k' (leave t k s)" if "task_ok t' k' s" for t' k'
    using that by (simp add: task_ok_def types_of_def data_of_def leave_def)
  moreover have "types_of t' (leave t k s) = types_of t' s" for t' by (simp add: types_of_def leave_def)
  moreover have "i \<noteq> ct_id k \<Longrightarrow> chans s i = Some t' \<Longrightarrow> t' \<noteq> t" for i t' using D(1) [of i t'] assms(2) by auto
  ultimately show ?thesis
    using D by (intro mux_invI) (auto simp: leave_def split: if_splits)
qed

lemmas task_steps = confirm_def refuse_def write_data_def send_eof_def take_data_def close_channel_def set_task_def send_as_def Let_def

text \<open>\<open>own k k' ms\<close>: a task may go from \<open>k\<close> to \<open>k'\<close> writing \<open>ms\<close>.\<close>

definition own :: "channel_task \<Rightarrow> channel_task \<Rightarrow> mux_message list \<Rightarrow> bool" where
  "own k k' ms \<longleftrightarrow> ct_id k' = ct_id k \<and> (\<forall>m \<in> set ms. channel_id m = ct_id k) \<and>
     subseq (ct_taken k' @ ct_queue k') (ct_taken k @ ct_queue k) \<and> length (ct_queue k') \<le> length (ct_queue k) \<and>
     (\<forall>us. phase_ok k us \<longrightarrow> phase_ok k' (us @ map mux_type ms))"

lemma mux_inv_own:
  assumes inv: "mux_inv s" and k: "ctasks s t = Some k" and "own k k' ms"
  shows "mux_inv (s\<lparr>ctasks := (ctasks s)(t \<mapsto> k'), sent := sent s @ map (\<lambda>m. (t, m)) ms\<rparr>)"
proof -
  have "phase_ok k (types_of t s)" using mux_invD(3) [OF inv k] by (simp add: task_ok_def)
  with assms(3) show ?thesis by (intro mux_inv_step [OF inv k]) (auto simp: own_def)
qed

lemma mux_inv_task:
  assumes "mux_inv s" "ctasks s t = Some k"
  shows "ct_phase k = Opening \<Longrightarrow> mux_inv (confirm t k s)"
    and "ct_phase k = Opening \<Longrightarrow> ct_queue k = d # q \<Longrightarrow> mux_inv (confirm t (k\<lparr>ct_queue := q, ct_taken := [d]\<rparr>) s)"
    and "ct_phase k = Opening \<Longrightarrow> mux_inv (refuse t k reason s)"
    and "ct_phase k = Opening \<Longrightarrow> mux_inv (set_task t (k\<lparr>ct_phase := Leaving\<rparr>) s)"
    and "ct_phase k = Running \<Longrightarrow> mux_inv (write_data t k d s)"
    and "ct_phase k = Running \<Longrightarrow> mux_inv (send_eof t k s)"
    and "ct_phase k = Running \<Longrightarrow> ct_queue k = d # q \<Longrightarrow> mux_inv (take_data t k d q s)"
    and "ct_phase k = Running \<Longrightarrow> mux_inv (set_task t (k\<lparr>ct_phase := Ending\<rparr>) s)"
    and "ct_phase k = Ending \<Longrightarrow> mux_inv (close_channel t k s)"
proof -
  let ?m = "\<lambda>ty p. \<lparr>channel_id = ct_id k, mux_type = ty, payload = p\<rparr>"
  note step = mux_inv_own [OF assms]
  have drop: "subseq (xs @ q) (xs @ d # q)" for xs q and d :: bytes by (intro list_emb_append_mono) auto
  note os = own_def phase_ok_def drop
  show "ct_phase k = Opening \<Longrightarrow> mux_inv (confirm t k s)"
    using step [of "k\<lparr>ct_phase := Running\<rparr>" "[?m Channel_Confirm []]"] by (simp add: task_steps os)
  show "ct_phase k = Opening \<Longrightarrow> ct_queue k = d # q \<Longrightarrow> mux_inv (confirm t (k\<lparr>ct_queue := q, ct_taken := [d]\<rparr>) s)"
  proof -
    assume p: "ct_phase k = Opening" "ct_queue k = d # q"
    have "ct_taken k = []" using mux_invD(3) [OF assms] p by (simp add: task_ok_def phase_ok_def)
    with p show ?thesis
      using step [of "k\<lparr>ct_queue := q, ct_taken := [d], ct_phase := Running\<rparr>" "[?m Channel_Confirm []]"]
      by (simp add: task_steps os)
  qed
  show "ct_phase k = Opening \<Longrightarrow> mux_inv (refuse t k reason s)"
    using step [of "k\<lparr>ct_phase := Leaving\<rparr>" "[?m Channel_Reject (as_bytes reason)]"] by (simp add: task_steps os)
  show "ct_phase k = Opening \<Longrightarrow> mux_inv (set_task t (k\<lparr>ct_phase := Leaving\<rparr>) s)"
    using step [of "k\<lparr>ct_phase := Leaving\<rparr>" "[]"] by (simp add: task_steps os)
  show "ct_phase k = Running \<Longrightarrow> mux_inv (write_data t k d s)"
    using step [of k "[?m Channel_Data d]"] step [of k "[]"] step [of "k\<lparr>ct_phase := Ending\<rparr>" "[]"] assms(2)
    by (simp add: task_steps os fun_upd_idem)
  show "ct_phase k = Running \<Longrightarrow> mux_inv (send_eof t k s)"
    using step [of "k\<lparr>ct_eof_sent := True, ct_phase := Ending\<rparr>" "[?m Channel_EOF []]"]
      step [of "k\<lparr>ct_eof_sent := True, ct_phase := Ending\<rparr>" "[]"] by (simp add: task_steps os)
  show "ct_phase k = Running \<Longrightarrow> ct_queue k = d # q \<Longrightarrow> mux_inv (take_data t k d q s)"
    using step [of "k\<lparr>ct_queue := q, ct_phase := Ending\<rparr>" "[]"] step [of "k\<lparr>ct_queue := q, ct_taken := ct_taken k @ [d]\<rparr>" "[]"]
    by (simp add: task_steps os)
  show "ct_phase k = Running \<Longrightarrow> mux_inv (set_task t (k\<lparr>ct_phase := Ending\<rparr>) s)"
    using step [of "k\<lparr>ct_phase := Ending\<rparr>" "[]"] by (simp add: task_steps os)
  show "ct_phase k = Ending \<Longrightarrow> mux_inv (close_channel t k s)"
    using step [of "k\<lparr>ct_closed := True, ct_phase := Leaving\<rparr>" "[?m Channel_Close []]"]
      step [of "k\<lparr>ct_closed := True, ct_phase := Leaving\<rparr>" "[]"] by (simp add: task_steps os)
qed

lemma mux_inv_init: "mux_inv mux_init"
  by (intro mux_invI) (simp_all add: mux_init_def types_of_def)

lemma mux_inv_reachable: "mux_reachable lossy s \<Longrightarrow> mux_inv s"
proof (induction rule: mux_reachable.induct)
  case (close s)
  then show ?case by (elim mux_inv_quiet) (simp_all add: mux_close_def flagged_def)
qed (simp_all add: mux_inv_init mux_inv_message mux_inv_task mux_inv_leave)

text \<open>C32. Under every interleaving of the client's messages and the channel handlers, what the server
  writes for a channel is a rejection, or a confirmation followed by data, then at most one end-of-file
  and at most one close, all under the channel's id; and what a handler has taken and still has queued is
  a subsequence of the data the client sent to that id, with never more than the buffer's size waiting.\<close>

theorem mux_channel_discipline:
  assumes "mux_reachable lossy s"
  shows "finished (types_of t s) \<and>
    (ctasks s t = Some k \<longrightarrow> length (ct_queue k) \<le> CHANNEL_BUFFER \<and>
       subseq (ct_taken k @ ct_queue k) (data_of (ct_id k) s) \<and>
       (\<forall>m. (t, m) \<in> set (sent s) \<longrightarrow> channel_id m = ct_id k))"
  using mux_invD(3,4) [OF mux_inv_reachable [OF assms]] by (auto simp: task_ok_def)

section \<open>Concrete runs\<close>

definition open_msg :: "u32 \<Rightarrow> string \<Rightarrow> mux_message" where
  "open_msg i t = \<lparr>channel_id = i, mux_type = Channel_Open, payload = as_bytes t\<rparr>"

definition data_msg :: "u32 \<Rightarrow> bytes \<Rightarrow> mux_message" where
  "data_msg i d = \<lparr>channel_id = i, mux_type = Channel_Data, payload = d\<rparr>"

definition close_msg :: "u32 \<Rightarrow> mux_message" where
  "close_msg i = \<lparr>channel_id = i, mux_type = Channel_Close, payload = []\<rparr>"

lemma open_exec: "parse_open_payload str_of_bytes (as_bytes ''exec'') = (''exec'', [])"
  and open_shell: "parse_open_payload str_of_bytes (as_bytes ''shell'') = (''shell'', [])"
  by code_simp+

definition exec_task :: "bytes list \<Rightarrow> channel_task" where
  "exec_task q = (new_task 7 Exec_Channel)\<lparr>ct_queue := q\<rparr>"

definition exec_waiting :: mux_conn where
  "exec_waiting = \<lparr>chans = [7 \<mapsto> 0], ctasks = [0 \<mapsto> exec_task [[1]]], fresh = 1, sent = [], data_log = [(7, [1])]\<rparr>"

lemma exec_waiting_reachable: "mux_reachable str_of_bytes exec_waiting"
proof -
  have "mux_reachable str_of_bytes (handle_mux_message str_of_bytes (open_msg 7 ''exec'') mux_init)"
    by (rule mux_reachable.message [OF mux_reachable.init]) (simp add: open_msg_def)
  then have "mux_reachable str_of_bytes
      (handle_mux_message str_of_bytes (data_msg 7 [1]) (handle_mux_message str_of_bytes (open_msg 7 ''exec'') mux_init))"
    by (rule mux_reachable.message)
      (simp add: data_msg_def open_msg_def handle_mux_message_def handle_channel_open_def open_exec chan_kind_of_def
        set_task_def has_room_def new_task_def CHANNEL_BUFFER_def Let_def mux_init_def)
  then show ?thesis
    by (simp add: data_msg_def open_msg_def handle_mux_message_def handle_channel_open_def open_exec chan_kind_of_def
        set_task_def new_task_def mux_init_def on_task_def exec_waiting_def exec_task_def Let_def)
qed

theorem mux_channel_discipline_witness:
  "\<exists>s k. mux_reachable str_of_bytes s \<and> ctasks s 0 = Some k \<and> types_of 0 s = [Channel_Confirm] \<and> finished (types_of 0 s) \<and>
     ct_taken k = [[1]] \<and> subseq (ct_taken k @ ct_queue k) [[1]]"
proof -
  let ?k = "(exec_task [[1]])\<lparr>ct_queue := [], ct_taken := [[1]]\<rparr>"
  let ?s = "confirm 0 ?k exec_waiting"
  have r: "mux_reachable str_of_bytes ?s"
    by (rule mux_reachable.command [OF exec_waiting_reachable, where k = "exec_task [[1]]" and d = "[1]"])
      (simp_all add: exec_waiting_def exec_task_def new_task_def)
  have k: "ctasks ?s 0 = Some (?k\<lparr>ct_phase := Running\<rparr>)" "types_of 0 ?s = [Channel_Confirm]" "data_of 7 ?s = [[1]]"
    by (simp_all add: task_steps exec_waiting_def types_of_def data_of_def)
  from mux_channel_discipline [OF r, of 0 "?k\<lparr>ct_phase := Running\<rparr>"] r k show ?thesis
    by (intro exI [of _ ?s] exI [of _ "?k\<lparr>ct_phase := Running\<rparr>"]) (simp add: exec_task_def new_task_def)
qed

text \<open>A handler that ends removes whatever entry is under its id: when the client closes a channel and
  opens another under the same id before the first handler is gone, the second one loses its entry and
  gets no more data, although it runs and nobody closed it.\<close>

lemma mux_stale_leave:
  "\<exists>s k. mux_reachable str_of_bytes s \<and> ctasks s 1 = Some k \<and> ct_phase k = Running \<and> \<not> ct_closed k \<and> chans s (ct_id k) = None"
proof -
  let ?L = str_of_bytes and ?o = "open_msg 7 ''shell''"
  let ?s0 = "handle_mux_message ?L ?o mux_init"
  let ?s1 = "handle_mux_message ?L (close_msg 7) ?s0"
  let ?s2 = "handle_mux_message ?L ?o ?s1"
  note ops = open_msg_def close_msg_def handle_mux_message_def handle_channel_open_def open_shell chan_kind_of_def
    set_task_def new_task_def mux_init_def on_task_def Let_def
  have r: "mux_reachable ?L ?s2"
    by (intro mux_reachable.message mux_reachable.init) (simp_all add: open_msg_def close_msg_def)
  let ?k0 = "(new_task 7 Shell_Channel)\<lparr>ct_closed := True\<rparr>" and ?k1 = "new_task 7 Shell_Channel"
  have s2: "?s2 = \<lparr>chans = [7 \<mapsto> 1], ctasks = [0 \<mapsto> ?k0, 1 \<mapsto> ?k1], fresh = 2, sent = [], data_log = []\<rparr>"
    by (simp add: ops fun_upd_def fun_eq_iff)
  note steps = s2 task_steps new_task_def
  have "mux_reachable ?L (confirm 1 ?k1 ?s2)"
    by (rule mux_reachable.connected [OF r]) (simp_all add: steps)
  then have "mux_reachable ?L (confirm 0 ?k0 (confirm 1 ?k1 ?s2))" (is "mux_reachable _ ?s3")
    by (rule mux_reachable.connected) (simp_all add: steps)
  then have "mux_reachable ?L (set_task 0 (?k0\<lparr>ct_phase := Running, ct_phase := Ending\<rparr>) ?s3)" (is "mux_reachable _ ?s4")
    by (rule mux_reachable.stopped) (simp_all add: steps)
  then have "mux_reachable ?L (close_channel 0 (?k0\<lparr>ct_phase := Ending\<rparr>) ?s4)" (is "mux_reachable _ ?s5")
    by (rule mux_reachable.closing) (simp_all add: steps)
  then have "mux_reachable ?L (leave 0 (?k0\<lparr>ct_closed := True, ct_phase := Leaving\<rparr>) ?s5)" (is "mux_reachable _ ?s6")
    by (rule mux_reachable.left) (simp_all add: steps)
  moreover have "ctasks ?s6 1 = Some (?k1\<lparr>ct_phase := Running\<rparr>)" "chans ?s6 7 = None"
    by (simp_all add: steps leave_def)
  ultimately show ?thesis by (intro exI [of _ ?s6] exI [of _ "?k1\<lparr>ct_phase := Running\<rparr>"]) (simp add: new_task_def)
qed

end
