(* ===== verification/Net_Info.thy ===== *)
theory Net_Info
  imports Net_Addr
begin

text \<open>
  \<open>mrsh-relay/net_crypto.rs\<close> (Linux build): the network addresses of a server, sealed so that only members of its
  groups can read them; the interfaces read from the output of \<open>ip\<close>; and the test whether two addresses are on
  one subnet. SHA-256, X25519, AES-256-GCM and the protobuf codecs are parameters, random values are arguments.
\<close>

section \<open>Messages and primitives\<close>

record net_interface =
  ifc_name :: string
  ifc_ip :: string
  ifc_netmask :: string
  ifc_gateway :: string

record network_info =
  ni_interfaces :: "net_interface list"
  ni_hostname :: string
  ni_service_port :: u32
  ni_tray_port :: u32

record group_key_entry =
  gk_group_hash :: string
  gk_ephemeral_pubkey :: bytes
  gk_encrypted_key :: bytes
  gk_key_nonce :: bytes

record encrypted_network_info =
  en_encrypted_data :: bytes
  en_nonce :: bytes
  en_keys :: "group_key_entry list"

record primitives =
  nc_sha256 :: "bytes \<Rightarrow> bytes"
  x25519_public :: "bytes \<Rightarrow> bytes"
  diffie_hellman :: "bytes \<Rightarrow> bytes \<Rightarrow> bytes"
  aes_encrypt :: "bytes \<Rightarrow> bytes \<Rightarrow> bytes \<Rightarrow> bytes result"
  aes_decrypt :: "bytes \<Rightarrow> bytes \<Rightarrow> bytes \<Rightarrow> bytes result"
  encode_info :: "network_info \<Rightarrow> bytes"
  decode_info :: "bytes \<Rightarrow> network_info result"
  encode_envelope :: "encrypted_network_info \<Rightarrow> bytes"
  decode_envelope :: "bytes \<Rightarrow> encrypted_network_info result"

section \<open>Sealing\<close>

definition hex_string :: "bytes \<Rightarrow> string" where
  "hex_string bs = concat (map hex_byte bs)"

definition group_secret :: "primitives \<Rightarrow> string \<Rightarrow> bytes" where
  "group_secret P enrollment_token = nc_sha256 P (as_bytes enrollment_token @ as_bytes ''mrsh-group-x25519'')"

definition derive_group_keypair :: "primitives \<Rightarrow> string \<Rightarrow> bytes \<times> bytes" where
  "derive_group_keypair P enrollment_token =
     (let secret = group_secret P enrollment_token in (secret, x25519_public P secret))"

definition group_hash :: "primitives \<Rightarrow> string \<Rightarrow> string" where
  "group_hash P enrollment_token = hex_string (nc_sha256 P (as_bytes enrollment_token))"

definition wrap_key :: "primitives \<Rightarrow> bytes \<Rightarrow> bytes" where
  "wrap_key P shared = nc_sha256 P (shared @ as_bytes ''mrsh-ecies-key-wrap'')"

text \<open>\<open>Nonce::from_slice\<close> panics when the slice does not have 12 bytes.\<close>

definition nonce_from_slice :: "bytes \<Rightarrow> bytes result" where
  "nonce_from_slice b = (if length b = 12 then Inr b else Inl Panicked)"

definition ecies_encrypt_key :: "primitives \<Rightarrow> bytes \<times> bytes \<Rightarrow> bytes \<Rightarrow> bytes \<Rightarrow> string \<Rightarrow> group_key_entry result" where
  "ecies_encrypt_key P random sym_key recipient_pub gh =
     (case random of (ephemeral_secret, key_nonce) \<Rightarrow>
        and_then (aes_encrypt P (wrap_key P (diffie_hellman P ephemeral_secret recipient_pub)) key_nonce sym_key) (\<lambda>encrypted_key.
          Inr \<lparr>gk_group_hash = gh, gk_ephemeral_pubkey = x25519_public P ephemeral_secret, gk_encrypted_key = encrypted_key,
               gk_key_nonce = key_nonce\<rparr>))"

definition ecies_decrypt_key :: "primitives \<Rightarrow> group_key_entry \<Rightarrow> bytes \<Rightarrow> bytes result" where
  "ecies_decrypt_key P entry our_secret =
     (if length (gk_ephemeral_pubkey entry) \<noteq> 32 then Inl (Failed ''ephemeral pubkey must be 32 bytes'')
      else and_then (nonce_from_slice (gk_key_nonce entry)) (\<lambda>key_nonce.
           and_then (aes_decrypt P (wrap_key P (diffie_hellman P our_secret (gk_ephemeral_pubkey entry))) key_nonce (gk_encrypted_key entry)) (\<lambda>sym_key.
             if length sym_key = 32 then Inr sym_key else Inl (Failed ''decrypted key not 32 bytes''))))"

text \<open>The loop over the groups, with the random values of each.\<close>

fun encrypt_keys :: "primitives \<Rightarrow> (bytes \<times> bytes) list \<Rightarrow> bytes \<Rightarrow> (string \<times> bytes) list \<Rightarrow> group_key_entry list result" where
  "encrypt_keys P randoms sym_key [] = Inr []"
| "encrypt_keys P randoms sym_key ((gh, pub) # groups) =
     and_then (ecies_encrypt_key P (hd randoms) sym_key pub gh) (\<lambda>entry.
     and_then (encrypt_keys P (tl randoms) sym_key groups) (\<lambda>keys. Inr (entry # keys)))"

definition encrypt_network_info ::
  "primitives \<Rightarrow> bytes \<Rightarrow> bytes \<Rightarrow> (bytes \<times> bytes) list \<Rightarrow> network_info \<Rightarrow> (string \<times> bytes) list \<Rightarrow> bytes result" where
  "encrypt_network_info P sym_key nonce randoms info groups =
     (if groups = [] then Inr []
      else and_then (aes_encrypt P sym_key nonce (encode_info P info)) (\<lambda>encrypted_data.
           and_then (encrypt_keys P randoms sym_key groups) (\<lambda>keys.
             Inr (encode_envelope P \<lparr>en_encrypted_data = encrypted_data, en_nonce = nonce, en_keys = keys\<rparr>))))"

definition decrypt_network_info :: "primitives \<Rightarrow> bytes \<Rightarrow> string \<Rightarrow> network_info option result" where
  "decrypt_network_info P blob enrollment_token =
     (if blob = [] then Inr None
      else and_then (decode_envelope P blob) (\<lambda>envelope.
           case find (\<lambda>k. gk_group_hash k = group_hash P enrollment_token) (en_keys envelope) of
             None \<Rightarrow> Inr None
           | Some entry \<Rightarrow>
               and_then (ecies_decrypt_key P entry (fst (derive_group_keypair P enrollment_token))) (\<lambda>sym_key.
               and_then (nonce_from_slice (en_nonce envelope)) (\<lambda>nonce.
               and_then (aes_decrypt P sym_key nonce (en_encrypted_data envelope)) (\<lambda>plaintext.
               and_then (decode_info P plaintext) (\<lambda>info. Inr (Some info)))))))"

section \<open>Interfaces\<close>

definition prefix_mask :: "u32 \<Rightarrow> u32" where
  "prefix_mask plen = (if plen = 0 then 0 else push_bit (32 - unat plen) (NOT 0))"

definition dotted_mask :: "u32 \<Rightarrow> string" where
  "dotted_mask m =
     show_nat (unat (drop_bit 24 m AND 0xFF)) @ ''.'' @ show_nat (unat (drop_bit 16 m AND 0xFF)) @ ''.''
     @ show_nat (unat (drop_bit 8 m AND 0xFF)) @ ''.'' @ show_nat (unat (m AND 0xFF))"

definition prefix_to_netmask :: "u32 \<Rightarrow> string" where
  "prefix_to_netmask plen = (if 32 < plen then ''255.255.255.255'' else dotted_mask (prefix_mask plen))"

text \<open>\<open>str::split\<close> with a string.\<close>

function split_on :: "string \<Rightarrow> string \<Rightarrow> string list" where
  "split_on pat s =
     (case find_str pat s of
        None \<Rightarrow> [s]
      | Some i \<Rightarrow> if pat = [] \<or> s = [] then [s] else take i s # split_on pat (drop (i + length pat) s))"
  by pat_completeness auto
termination
  by (relation "measure (length \<circ> snd)") auto

declare split_on.simps [simp del]

definition extract_str :: "string \<Rightarrow> string \<Rightarrow> string option" where
  "extract_str block key =
     (let needle = [CHR 0x22] @ key @ [CHR 0x22, CHR '':'', CHR 0x22] in
      case find_str needle block of
        None \<Rightarrow> None
      | Some i \<Rightarrow>
          (let rest = drop (i + length needle) block
           in case find_str [CHR 0x22] rest of None \<Rightarrow> None | Some n \<Rightarrow> Some (take n rest)))"

definition ascii_digit_char :: "char \<Rightarrow> bool" where
  "ascii_digit_char c \<longleftrightarrow> 48 \<le> (of_char c :: nat) \<and> (of_char c :: nat) \<le> 57"

definition extract_num :: "string \<Rightarrow> string \<Rightarrow> nat option" where
  "extract_num block key =
     (let needle = [CHR 0x22] @ key @ [CHR 0x22, CHR '':''] in
      case find_str needle block of
        None \<Rightarrow> None
      | Some i \<Rightarrow> parse_uint (2 ^ 32) (takeWhile ascii_digit_char (drop (i + length needle) block)))"

definition parse_iface_block :: "string \<Rightarrow> net_interface list" where
  "parse_iface_block block =
     (if \<not> starts_with block [CHR '':'', CHR 0x22] then []
      else case find_str [CHR 0x22] (drop 2 block) of
        None \<Rightarrow> []
      | Some rel_end \<Rightarrow>
          (let ifname = take rel_end (drop 2 block)
           in if ifname = ''lo'' then []
              else case extract_str block ''local'' of
                None \<Rightarrow> []
              | Some ip \<Rightarrow>
                  [\<lparr>ifc_name = ifname, ifc_ip = ip,
                    ifc_netmask = prefix_to_netmask (case extract_num block ''prefixlen'' of Some n \<Rightarrow> word_of_nat n | None \<Rightarrow> 24),
                    ifc_gateway = []\<rparr>]))"

definition parse_linux_interfaces :: "string \<Rightarrow> net_interface list \<Rightarrow> net_interface list" where
  "parse_linux_interfaces json result =
     (if trim json = [] then result
      else result @ concat (map parse_iface_block (split_on ([CHR 0x22] @ ''ifname'' @ [CHR 0x22]) (trim json))))"

text \<open>The commands are tried until one gives an interface; \<open>run\<close> is the success and the standard output of a
  command that can be started.\<close>

definition IP_COMMANDS :: "string list" where
  "IP_COMMANDS = [''ip'', ''/usr/sbin/ip'', ''/sbin/ip'', ''/bin/ip'']"

fun try_commands :: "(string \<Rightarrow> (bool \<times> bytes) option) \<Rightarrow> string list \<Rightarrow> net_interface list \<Rightarrow> net_interface list" where
  "try_commands run [] result = result"
| "try_commands run (cmd # cmds) result =
     (case run cmd of
        Some (True, stdout) \<Rightarrow>
          if stdout = [] then try_commands run cmds result
          else let result1 = (case from_utf8 stdout of Inr t \<Rightarrow> parse_linux_interfaces t result | Inl _ \<Rightarrow> result)
               in if result1 \<noteq> [] then result1 else try_commands run cmds result1
      | _ \<Rightarrow> try_commands run cmds result)"

definition collect_network_info :: "(string \<Rightarrow> (bool \<times> bytes) option) \<Rightarrow> string \<Rightarrow> u16 \<Rightarrow> u16 \<Rightarrow> network_info" where
  "collect_network_info run hostname service_port tray_port =
     \<lparr>ni_interfaces = try_commands run IP_COMMANDS [], ni_hostname = hostname, ni_service_port = ucast service_port,
      ni_tray_port = ucast tray_port\<rparr>"

section \<open>Subnets\<close>

definition parse_octets :: "string \<Rightarrow> u32 option" where
  "parse_octets s =
     (let parts = List.map_filter (parse_uint 256) (split_char (CHR ''.'') [] s)
      in if length parts = 4 then Some (word_of_nat (from_be (map word_of_nat parts))) else None)"

definition same_subnet :: "string \<Rightarrow> string \<Rightarrow> string \<Rightarrow> string \<Rightarrow> bool" where
  "same_subnet ip1 mask1 ip2 mask2 =
     (case (parse_octets ip1, parse_octets ip2, parse_octets mask1, parse_octets mask2) of
        (Some a, Some b, Some m1, Some m2) \<Rightarrow> (let m = m1 AND m2 in a AND m = b AND m)
      | _ \<Rightarrow> False)"

section \<open>Members read, others do not\<close>

text \<open>What is relied on: X25519 agreement, AES-GCM opens what it sealed, and lengths.\<close>

definition sound_primitives :: "primitives \<Rightarrow> bool" where
  "sound_primitives P \<longleftrightarrow>
     (\<forall>a b. diffie_hellman P a (x25519_public P b) = diffie_hellman P b (x25519_public P a)) \<and>
     (\<forall>a. length (x25519_public P a) = 32) \<and>
     (\<forall>k n p. length n = 12 \<longrightarrow> (\<exists>c. aes_encrypt P k n p = Inr c \<and> aes_decrypt P k n c = Inr p))"

text \<open>The codecs invert on the messages at hand.\<close>

definition codecs_invert :: "primitives \<Rightarrow> network_info \<Rightarrow> encrypted_network_info \<Rightarrow> bool" where
  "codecs_invert P info e \<longleftrightarrow>
     decode_info P (encode_info P info) = Inr info \<and>
     decode_envelope P (encode_envelope P e) = Inr e \<and> encode_envelope P e \<noteq> []"

definition group_of :: "primitives \<Rightarrow> string \<Rightarrow> string \<times> bytes" where
  "group_of P tok = (group_hash P tok, snd (derive_group_keypair P tok))"

lemma aes_opens: "sound_primitives P \<Longrightarrow> length n = 12 \<Longrightarrow> \<exists>c. aes_encrypt P k n p = Inr c \<and> aes_decrypt P k n c = Inr p"
  by (simp add: sound_primitives_def)

lemma ecies_roundtrip:
  assumes "sound_primitives P" "length nonce = 12" "length sym_key = 32"
  shows "\<exists>entry. ecies_encrypt_key P (secret, nonce) sym_key (x25519_public P our) gh = Inr entry \<and>
    gk_group_hash entry = gh \<and> ecies_decrypt_key P entry our = Inr sym_key"
proof -
  let ?k = "wrap_key P (diffie_hellman P secret (x25519_public P our))"
  obtain c where c: "aes_encrypt P ?k nonce sym_key = Inr c" "aes_decrypt P ?k nonce c = Inr sym_key"
    using aes_opens [OF assms(1,2)] by blast
  have "diffie_hellman P our (x25519_public P secret) = diffie_hellman P secret (x25519_public P our)"
    "length (x25519_public P secret) = 32"
    using assms(1) by (auto simp: sound_primitives_def)
  with c assms(2,3) show ?thesis
    by (simp add: ecies_encrypt_key_def ecies_decrypt_key_def nonce_from_slice_def)
qed

lemma encrypt_keys_find:
  assumes "sound_primitives P" "length sym_key = 32" "length randoms = length tokens" "list_all (\<lambda>(_, n). length n = 12) randoms"
    and "\<And>t. t \<in> set tokens \<Longrightarrow> group_hash P t = group_hash P tok \<Longrightarrow> t = tok"
  shows "\<exists>keys. encrypt_keys P randoms sym_key (map (group_of P) tokens) = Inr keys \<and> length keys = length tokens \<and>
    (case find (\<lambda>k. gk_group_hash k = group_hash P tok) keys of
       Some entry \<Rightarrow> tok \<in> set tokens \<and> ecies_decrypt_key P entry (group_secret P tok) = Inr sym_key
     | None \<Rightarrow> tok \<notin> set tokens)"
  using assms(3-5)
proof (induction tokens arbitrary: randoms)
  case Nil
  then show ?case by simp
next
  case (Cons t tokens)
  then obtain r randoms' where r: "randoms = r # randoms'" by (cases randoms) auto
  obtain secret nonce where n: "r = (secret, nonce)" "length nonce = 12" using Cons.prems(2) r by (cases r) auto
  obtain entry where e: "ecies_encrypt_key P r sym_key (x25519_public P (group_secret P t)) (group_hash P t) = Inr entry"
    "gk_group_hash entry = group_hash P t" "ecies_decrypt_key P entry (group_secret P t) = Inr sym_key"
    using ecies_roundtrip [OF assms(1) n(2) assms(2)] n(1) by blast
  obtain keys where k: "encrypt_keys P randoms' sym_key (map (group_of P) tokens) = Inr keys" "length keys = length tokens"
    "case find (\<lambda>k. gk_group_hash k = group_hash P tok) keys of
       Some entry \<Rightarrow> tok \<in> set tokens \<and> ecies_decrypt_key P entry (group_secret P tok) = Inr sym_key
     | None \<Rightarrow> tok \<notin> set tokens"
    using Cons.IH [of randoms'] Cons.prems r by auto
  have "encrypt_keys P randoms sym_key (map (group_of P) (t # tokens)) = Inr (entry # keys)"
    using e(1) k(1) by (simp add: r group_of_def derive_group_keypair_def Let_def)
  moreover have "group_hash P t = group_hash P tok \<longleftrightarrow> t = tok" using Cons.prems(3) [of t] by auto
  ultimately show ?case using e(2,3) k(2,3) by (auto split: option.splits)
qed

text \<open>C21. The network information of a server, sealed for the groups of some enrollment tokens, is read by exactly
  their members: with one of these tokens the receiver gets the information as it was, with another it gets
  nothing. The primitives behave as documented, and the hash of the reader's token is no other token's.\<close>

theorem net_info_for_members:
  assumes "sound_primitives P" "length sym_key = 32" "length nonce = 12" "length randoms = length tokens"
    and "list_all (\<lambda>(_, n). length n = 12) randoms" "tokens \<noteq> []"
    and "\<And>t. t \<in> set tokens \<Longrightarrow> group_hash P t = group_hash P tok \<Longrightarrow> t = tok"
    and "\<And>c keys. aes_encrypt P sym_key nonce (encode_info P info) = Inr c \<Longrightarrow>
      encrypt_keys P randoms sym_key (map (group_of P) tokens) = Inr keys \<Longrightarrow>
      codecs_invert P info \<lparr>en_encrypted_data = c, en_nonce = nonce, en_keys = keys\<rparr>"
  shows "\<exists>blob. encrypt_network_info P sym_key nonce randoms info (map (group_of P) tokens) = Inr blob \<and>
    decrypt_network_info P blob tok = Inr (if tok \<in> set tokens then Some info else None)"
proof -
  obtain keys where k: "encrypt_keys P randoms sym_key (map (group_of P) tokens) = Inr keys" "length keys = length tokens"
    "case find (\<lambda>k. gk_group_hash k = group_hash P tok) keys of
       Some entry \<Rightarrow> tok \<in> set tokens \<and> ecies_decrypt_key P entry (group_secret P tok) = Inr sym_key
     | None \<Rightarrow> tok \<notin> set tokens"
    using encrypt_keys_find [OF assms(1,2,4,5,7)] by auto
  obtain c where c: "aes_encrypt P sym_key nonce (encode_info P info) = Inr c" "aes_decrypt P sym_key nonce c = Inr (encode_info P info)"
    using aes_opens [OF assms(1,3)] by blast
  let ?e = "\<lparr>en_encrypted_data = c, en_nonce = nonce, en_keys = keys\<rparr>"
  have e: "encode_envelope P ?e \<noteq> []" "decode_envelope P (encode_envelope P ?e) = Inr ?e" "decode_info P (encode_info P info) = Inr info"
    using assms(8) [OF c(1) k(1)] by (simp_all add: codecs_invert_def)
  have "encrypt_network_info P sym_key nonce randoms info (map (group_of P) tokens) = Inr (encode_envelope P ?e)"
    using assms(6) c(1) k(1) by (simp add: encrypt_network_info_def)
  moreover have "decrypt_network_info P (encode_envelope P ?e) tok = Inr (if tok \<in> set tokens then Some info else None)"
    using e k(3) c(2) assms(3)
    by (auto simp: decrypt_network_info_def derive_group_keypair_def Let_def nonce_from_slice_def split: option.splits)
  ultimately show ?thesis by blast
qed

definition toy_info :: network_info where
  "toy_info = \<lparr>ni_interfaces = [], ni_hostname = ''h'', ni_service_port = 8822, ni_tray_port = 9822\<rparr>"

text \<open>Primitives for which the hypotheses hold: no secrecy, the agreement is a constant.\<close>

definition toy_envelope :: encrypted_network_info where
  "toy_envelope =
     \<lparr>en_encrypted_data = [1], en_nonce = replicate 12 5,
      en_keys = [\<lparr>gk_group_hash = hex_string [116], gk_ephemeral_pubkey = replicate 32 0, gk_encrypted_key = replicate 32 9,
        gk_key_nonce = replicate 12 6\<rparr>]\<rparr>"

definition toy_primitives :: primitives where
  "toy_primitives =
     \<lparr>nc_sha256 = id, x25519_public = (\<lambda>_. replicate 32 0), diffie_hellman = (\<lambda>_ _. []), aes_encrypt = (\<lambda>_ _ p. Inr p),
      aes_decrypt = (\<lambda>_ _ c. Inr c), encode_info = (\<lambda>_. [1]), decode_info = (\<lambda>_. Inr toy_info), encode_envelope = (\<lambda>_. [2]),
      decode_envelope = (\<lambda>_. Inr toy_envelope)\<rparr>"

lemma toy_hash: "group_hash toy_primitives ''t'' = hex_string [116]" "group_hash toy_primitives ''u'' = hex_string [117]"
    "hex_string [116] \<noteq> hex_string [117]"
  by (simp_all add: group_hash_def toy_primitives_def as_bytes_def) code_simp

theorem net_info_for_members_witness:
  "(\<exists>blob. encrypt_network_info toy_primitives (replicate 32 9) (replicate 12 5) [([1], replicate 12 6)] toy_info
      (map (group_of toy_primitives) [''t'']) = Inr blob \<and>
    decrypt_network_info toy_primitives blob ''u'' = Inr (if ''u'' \<in> set [''t''] then Some toy_info else None))"
proof (rule net_info_for_members)
  show "sound_primitives toy_primitives" by (simp add: sound_primitives_def toy_primitives_def)
  show "t = ''u''" if "t \<in> set [''t'']" "group_hash toy_primitives t = group_hash toy_primitives ''u''" for t
    using that by (simp add: toy_hash)
  show "codecs_invert toy_primitives toy_info \<lparr>en_encrypted_data = c, en_nonce = replicate 12 5, en_keys = keys\<rparr>"
    if "aes_encrypt toy_primitives (replicate 32 9) (replicate 12 5) (encode_info toy_primitives toy_info) = Inr c"
      "encrypt_keys toy_primitives [([1], replicate 12 6)] (replicate 32 9) (map (group_of toy_primitives) [''t'']) = Inr keys" for c keys
    using that by (auto simp: codecs_invert_def group_of_def derive_group_keypair_def Let_def ecies_encrypt_key_def toy_hash)
      (auto simp: toy_primitives_def toy_envelope_def)
qed simp_all

text \<open>A blob whose nonce has another length makes the reader panic.\<close>

lemma decrypt_bad_nonce_panics:
  assumes "blob \<noteq> []" "decode_envelope P blob = Inr e" "length (en_nonce e) \<noteq> 12"
    and "find (\<lambda>k. gk_group_hash k = group_hash P tok) (en_keys e) = Some entry"
    and "ecies_decrypt_key P entry (group_secret P tok) = Inr sym_key"
  shows "decrypt_network_info P blob tok = Inl Panicked"
  using assms by (simp add: decrypt_network_info_def derive_group_keypair_def Let_def nonce_from_slice_def)

lemma ecies_bad_nonce_panics:
  "length (gk_ephemeral_pubkey entry) = 32 \<Longrightarrow> length (gk_key_nonce entry) \<noteq> 12 \<Longrightarrow> ecies_decrypt_key P entry secret = Inl Panicked"
  by (simp add: ecies_decrypt_key_def nonce_from_slice_def)

section \<open>What the subnet test computes\<close>

lemma dotted_octets:
  "parse_octets (show_nat (unat a) @ ''.'' @ show_nat (unat b) @ ''.'' @ show_nat (unat c) @ ''.'' @ show_nat (unat (d :: byte))) =
    Some (word_of_nat (from_be [a :: byte, b, c, d]))"
proof -
  have no: "CHR ''.'' \<notin> set (show_nat n)" for n
  proof
    assume "CHR ''.'' \<in> set (show_nat n)"
    then obtain k :: nat where "k < 10" "CHR ''.'' = char_of (48 + k)" using show_nat_digits by blast
    then have "of_char (CHR ''.'') = 48 + k" by (simp add: take_bit_nat_eq_self)
    then show False by simp
  qed
  have "split_char (CHR ''.'') [] (show_nat (unat a) @ ''.'' @ show_nat (unat b) @ ''.'' @ show_nat (unat c) @ ''.'' @ show_nat (unat d)) =
      map (show_nat \<circ> unat) [a, b, c, d]"
    by (simp add: split_char_line split_char_last no)
  moreover have "List.map_filter (parse_uint 256) (map (show_nat \<circ> unat) bs) = map unat bs" for bs :: bytes
    by (induction bs) (simp_all add: List.map_filter_simps parse_uint_show)
  ultimately have parts: "List.map_filter (parse_uint 256) (split_char (CHR ''.'') []
      (show_nat (unat a) @ ''.'' @ show_nat (unat b) @ ''.'' @ show_nat (unat c) @ ''.'' @ show_nat (unat d))) = map unat [a, b, c, d]"
    by (simp only:)
  show ?thesis unfolding parse_octets_def Let_def parts by simp
qed

lemma u32_octets: "word_of_nat (from_be [ucast (drop_bit 24 m), ucast (drop_bit 16 m), ucast (drop_bit 8 m), ucast m]) = (m :: u32)"
proof -
  have four: "(4 :: nat) = Suc (Suc (Suc (Suc 0)))" by simp
  have b: "be_bytes 4 n = [word_of_nat (n div 16777216), word_of_nat (n div 65536), word_of_nat (n div 256), word_of_nat n]" for n
    unfolding four be_bytes.simps by (simp add: div_mult2_eq [symmetric])
  have u: "(ucast x :: byte) = word_of_nat (unat x)" for x :: u32 by (metis of_nat_unat)
  have d: "unat (drop_bit k m) = unat m div 2 ^ k" for k
  proof -
    have "drop_bit k x = x div 2 ^ k" for x :: nat by (rule drop_bit_eq_div)
    moreover have "take_bit LENGTH(32) (unat m) = unat m" by (simp add: take_bit_nat_eq_self)
    ultimately show ?thesis using unsigned_drop_bit_eq [of k m] by metis
  qed
  have "[ucast (drop_bit 24 m), ucast (drop_bit 16 m), ucast (drop_bit 8 m), ucast m] = be_bytes 4 (unat m)"
    unfolding b u d by simp
  then show ?thesis by simp
qed

definition dotted :: "u32 \<Rightarrow> string" where
  "dotted a = show_nat (unat (ucast (drop_bit 24 a) :: byte)) @ ''.'' @ show_nat (unat (ucast (drop_bit 16 a) :: byte)) @ ''.''
     @ show_nat (unat (ucast (drop_bit 8 a) :: byte)) @ ''.'' @ show_nat (unat (ucast a :: byte))"

lemma parse_dotted: "parse_octets (dotted a) = Some a"
  by (simp only: dotted_def dotted_octets u32_octets)

lemma low_byte: "unat (x AND 0xFF :: u32) = unat (ucast x :: byte)"
proof -
  have "x AND 0xFF = take_bit 8 x" by (simp add: take_bit_eq_mask mask_eq_exp_minus_1)
  then have "unat (x AND 0xFF) = take_bit 8 (unat x)" by (simp only: unsigned_take_bit_eq)
  then show ?thesis by (simp add: unsigned_ucast_eq)
qed

lemma dotted_mask_dotted: "dotted_mask m = dotted m"
  by (simp add: dotted_mask_def dotted_def low_byte)

lemma prefix_mask_bits: "unat n \<le> 32 \<Longrightarrow> prefix_mask n = push_bit (32 - unat n) (NOT 0)"
  by (cases "n = 0") (auto simp: prefix_mask_def intro!: bit_word_eqI simp: bit_push_bit_iff bit_not_iff bit_mask_iff)

lemma prefix_mask_and:
  assumes "unat m \<le> 32" "unat n \<le> 32"
  shows "a AND (prefix_mask m AND prefix_mask n) = b AND (prefix_mask m AND prefix_mask n) \<longleftrightarrow>
    drop_bit (32 - min (unat m) (unat n)) a = drop_bit (32 - min (unat m) (unat n)) b"
proof -
  define k where "k = 32 - min (unat m) (unat n)"
  have mask: "prefix_mask m AND prefix_mask n = push_bit k (NOT 0)"
    using assms by (intro bit_word_eqI) (auto simp: prefix_mask_bits bit_and_iff bit_push_bit_iff bit_not_iff bit_mask_iff k_def min_def)
  have "x AND push_bit k (NOT 0) = push_bit k (drop_bit k x)" for x :: u32
    by (intro bit_word_eqI) (auto simp: bit_and_iff bit_push_bit_iff bit_drop_bit_eq bit_not_iff bit_mask_iff)
  moreover have "drop_bit k (push_bit k (drop_bit k x)) = drop_bit k x" for x :: u32
    by (intro bit_word_eqI) (auto simp: bit_push_bit_iff bit_drop_bit_eq dest: bit_imp_le_length)
  ultimately show ?thesis unfolding mask k_def [symmetric] by metis
qed

text \<open>Two addresses are on one subnet exactly when they agree in as many leading bits as the shorter of the two
  prefixes has: the conjunction of the masks is the less restrictive one.\<close>

theorem same_subnet_shorter_prefix:
  assumes "unat m \<le> 32" "unat n \<le> 32"
  shows "same_subnet (dotted a) (prefix_to_netmask m) (dotted b) (prefix_to_netmask n) \<longleftrightarrow>
    drop_bit (32 - min (unat m) (unat n)) a = drop_bit (32 - min (unat m) (unat n)) b"
proof -
  have "\<not> 32 < m" "\<not> 32 < n" using assms by (simp_all add: word_less_nat_alt)
  then have "prefix_to_netmask m = dotted (prefix_mask m)" "prefix_to_netmask n = dotted (prefix_mask n)"
    by (simp_all add: prefix_to_netmask_def dotted_mask_dotted)
  then show ?thesis using prefix_mask_and [OF assms] by (simp add: same_subnet_def parse_dotted Let_def)
qed

theorem same_subnet_shorter_prefix_witness:
  "same_subnet (dotted 0xC0A80105) (prefix_to_netmask 16) (dotted 0xC0A80205) (prefix_to_netmask 24) \<longleftrightarrow>
    drop_bit (32 - min (unat (16 :: u32)) (unat (24 :: u32))) (0xC0A80105 :: u32) =
    drop_bit (32 - min (unat (16 :: u32)) (unat (24 :: u32))) (0xC0A80205 :: u32)"
  by (rule same_subnet_shorter_prefix) simp_all

text \<open>A block of the output of \<open>ip -j -4 addr show\<close>: the loopback interface is left out, of another one the first
  address is taken.\<close>

lemma find_quote: "c \<notin> set name \<Longrightarrow> find_str [c] (name @ c # rest) = Some (length name)"
  by (induction name) auto

lemma parse_iface_named:
  assumes "CHR 0x22 \<notin> set name"
  shows "parse_iface_block (CHR '':'' # CHR 0x22 # name @ CHR 0x22 # rest) =
    (if name = ''lo'' then []
     else case extract_str (CHR '':'' # CHR 0x22 # name @ CHR 0x22 # rest) ''local'' of
       None \<Rightarrow> []
     | Some ip \<Rightarrow> [\<lparr>ifc_name = name, ifc_ip = ip, ifc_netmask = prefix_to_netmask
         (case extract_num (CHR '':'' # CHR 0x22 # name @ CHR 0x22 # rest) ''prefixlen'' of Some n \<Rightarrow> word_of_nat n | None \<Rightarrow> 24),
         ifc_gateway = []\<rparr>])"
  using find_quote [OF assms, of rest] by (simp add: parse_iface_block_def starts_with_def Let_def)

end
