(* ===== verification/Config_File.thy ===== *)
theory Config_File
  imports File_System
begin

text \<open>
  \<open>mrsh-core/config.rs\<close>: the configuration file \<open>~/.mrsh/config\<close> with its \<open>Host\<close> blocks, its reader and writer,
  the merge with the file of the installer, and what a client stores after a login. The Unicode case mapping and the
  regular expressions of the \<open>regex\<close> crate are parameters. Host blocks are looked up for the Linux build.
\<close>

section \<open>Records\<close>

datatype lan_first = Lan_Auto | Lan_Yes | Lan_No

definition lan_first_from_str :: "string \<Rightarrow> lan_first" where
  "lan_first_from_str s =
     (let v = ascii_lower s in
      if v \<in> {''yes'', ''true'', ''1''} then Lan_Yes else if v \<in> {''no'', ''false'', ''0''} then Lan_No else Lan_Auto)"

record host_config =
  hc_pattern :: string
  hc_hostname :: "string option"
  hc_port :: u16
  hc_identity_file :: "string option"
  hc_user :: "string option"
  hc_mac :: "string option"
  hc_device_id :: "string option"
  hc_description :: "string option"
  hc_tailscale_ip :: "string option"
  hc_rendezvous_server :: "string option"
  hc_rendezvous_servers :: "string list"
  hc_rendezvous_key :: "string option"
  hc_session_log :: "bool option"
  hc_quic_port :: "u16 option"
  hc_platform :: "string option"
  hc_track :: "string option"
  hc_auto_upgrade :: "bool option"
  hc_lan_first :: lan_first

record config =
  cfg_hosts :: "host_config list"
  cfg_device_id :: "string option"
  cfg_rendezvous_server :: "string option"
  cfg_rendezvous_servers :: "string list"
  cfg_rendezvous_key :: "string option"
  cfg_enrollment_token :: "string option"
  cfg_session_log :: bool
  cfg_session_log_dir :: "string option"
  cfg_session_log_retain :: u32
  cfg_fs_spool :: "string option"

text \<open>\<open>HostConfig::new\<close> and the derived \<open>Default\<close>, which has port 0.\<close>

definition new_host :: "string \<Rightarrow> host_config" where
  "new_host pattern =
     \<lparr>hc_pattern = pattern, hc_hostname = None, hc_port = 8822, hc_identity_file = None, hc_user = None, hc_mac = None,
      hc_device_id = None, hc_description = None, hc_tailscale_ip = None, hc_rendezvous_server = None,
      hc_rendezvous_servers = [], hc_rendezvous_key = None, hc_session_log = None, hc_quic_port = None,
      hc_platform = None, hc_track = None, hc_auto_upgrade = None, hc_lan_first = Lan_Auto\<rparr>"

definition default_host :: host_config where
  "default_host = (new_host [])\<lparr>hc_port := 0\<rparr>"

definition default_config :: config where
  "default_config =
     \<lparr>cfg_hosts = [], cfg_device_id = None, cfg_rendezvous_server = None, cfg_rendezvous_servers = [],
      cfg_rendezvous_key = None, cfg_enrollment_token = None, cfg_session_log = True, cfg_session_log_dir = None,
      cfg_session_log_retain = 90, cfg_fs_spool = None\<rparr>"

definition merged_servers :: "string option \<Rightarrow> string list \<Rightarrow> string list" where
  "merged_servers server servers = (case server of Some s \<Rightarrow> [s] | None \<Rightarrow> []) @ servers"

definition host_rendezvous_servers :: "host_config \<Rightarrow> string list" where
  "host_rendezvous_servers h = merged_servers (hc_rendezvous_server h) (hc_rendezvous_servers h)"

definition get_rendezvous_servers :: "config \<Rightarrow> string list" where
  "get_rendezvous_servers c = merged_servers (cfg_rendezvous_server c) (cfg_rendezvous_servers c)"

section \<open>Reading\<close>

record config_env =
  ce_lowercase :: "string \<Rightarrow> string"
  ce_home :: "string option"
  ce_regex :: "string \<Rightarrow> string \<Rightarrow> bool option"

type_synonym parse_state = "config \<times> host_config option"

text \<open>\<open>split_once(char::is_whitespace)\<close>.\<close>

fun split_once_ws :: "string \<Rightarrow> string \<Rightarrow> (string \<times> string) option" where
  "split_once_ws cur [] = None"
| "split_once_ws cur (c # cs) =
     (if ws_len (c # cs) = 0 then split_once_ws (c # cur) cs else Some (rev cur, drop (ws_len (c # cs)) (c # cs)))"

definition is_quote :: "char \<Rightarrow> bool" where
  "is_quote c \<longleftrightarrow> c = CHR 0x22 \<or> c = CHR 0x27"

definition trim_quotes :: "string \<Rightarrow> string" where
  "trim_quotes s = rev (dropWhile is_quote (rev (dropWhile is_quote s)))"

definition key_value :: "string \<Rightarrow> (string \<times> string) option" where
  "key_value line =
     (case split_once_ws [] line of
        Some (k, v) \<Rightarrow> Some (trim k, trim v)
      | None \<Rightarrow> map_option (\<lambda>(k, v). (trim k, trim v)) (split_once (CHR ''='') line))"

definition expand_home :: "string option \<Rightarrow> string \<Rightarrow> string" where
  "expand_home home value =
     (if starts_with value ''~/'' then (case home of Some h \<Rightarrow> path_join h (drop 2 value) | None \<Rightarrow> value) else value)"

definition parse_server_list :: "string \<Rightarrow> string list" where
  "parse_server_list value =
     filter (\<lambda>s. s \<noteq> []) (split_whitespace (map (\<lambda>c. if c = CHR '','' then CHR '' '' else c) value))"

definition push_host :: "parse_state \<Rightarrow> config" where
  "push_host st = (case st of (cfg, Some h) \<Rightarrow> cfg\<lparr>cfg_hosts := cfg_hosts cfg @ [h]\<rparr> | (cfg, None) \<Rightarrow> cfg)"

definition in_host :: "(host_config \<Rightarrow> host_config) \<Rightarrow> parse_state \<Rightarrow> parse_state" where
  "in_host f st = (case st of (cfg, Some h) \<Rightarrow> (cfg, Some (f h)) | (cfg, None) \<Rightarrow> (cfg, None))"

definition globally :: "(config \<Rightarrow> config) \<Rightarrow> parse_state \<Rightarrow> parse_state" where
  "globally g st = (case st of (cfg, Some h) \<Rightarrow> (cfg, Some h) | (cfg, None) \<Rightarrow> (g cfg, None))"

definition in_host_or_globally :: "(host_config \<Rightarrow> host_config) \<Rightarrow> (config \<Rightarrow> config) \<Rightarrow> parse_state \<Rightarrow> parse_state" where
  "in_host_or_globally f g st = (case st of (cfg, Some h) \<Rightarrow> (cfg, Some (f h)) | (cfg, None) \<Rightarrow> (g cfg, None))"

text \<open>The branches of \<open>parse\<close>: a number that does not parse leaves the setting, an unknown key is ignored.\<close>

definition set_key :: "config_env \<Rightarrow> string \<Rightarrow> string \<Rightarrow> parse_state \<Rightarrow> parse_state" where
  "set_key E key value st =
     (if key = ''host'' then (push_host st, Some (new_host value))
      else if key = ''hostname'' then in_host (\<lambda>h. h\<lparr>hc_hostname := Some value\<rparr>) st
      else if key = ''port'' then
        (case parse_uint 65536 value of Some p \<Rightarrow> in_host (\<lambda>h. h\<lparr>hc_port := word_of_nat p\<rparr>) st | None \<Rightarrow> st)
      else if key = ''identityfile'' then in_host (\<lambda>h. h\<lparr>hc_identity_file := Some (expand_home (ce_home E) value)\<rparr>) st
      else if key = ''user'' then in_host (\<lambda>h. h\<lparr>hc_user := Some value\<rparr>) st
      else if key = ''mac'' \<or> key = ''macaddress'' then in_host (\<lambda>h. h\<lparr>hc_mac := Some value\<rparr>) st
      else if key = ''description'' then in_host (\<lambda>h. h\<lparr>hc_description := Some value\<rparr>) st
      else if key = ''tailscaleip'' then in_host (\<lambda>h. h\<lparr>hc_tailscale_ip := Some value\<rparr>) st
      else if key = ''deviceid'' then
        in_host_or_globally (\<lambda>h. h\<lparr>hc_device_id := Some value\<rparr>) (\<lambda>c. c\<lparr>cfg_device_id := Some value\<rparr>) st
      else if key = ''rendezvousserver'' \<or> key = ''rendezvous'' then
        in_host_or_globally (\<lambda>h. h\<lparr>hc_rendezvous_server := Some value\<rparr>) (\<lambda>c. c\<lparr>cfg_rendezvous_server := Some value\<rparr>) st
      else if key = ''rendezvousservers'' then
        in_host_or_globally (\<lambda>h. h\<lparr>hc_rendezvous_servers := parse_server_list value\<rparr>)
          (\<lambda>c. c\<lparr>cfg_rendezvous_servers := parse_server_list value\<rparr>) st
      else if key = ''rendezvouskey'' then
        in_host_or_globally (\<lambda>h. h\<lparr>hc_rendezvous_key := Some value\<rparr>) (\<lambda>c. c\<lparr>cfg_rendezvous_key := Some value\<rparr>) st
      else if key = ''quicport'' then
        (case parse_uint 65536 value of Some p \<Rightarrow> in_host (\<lambda>h. h\<lparr>hc_quic_port := Some (word_of_nat p)\<rparr>) st | None \<Rightarrow> st)
      else if key = ''platform'' then in_host (\<lambda>h. h\<lparr>hc_platform := Some (ce_lowercase E value)\<rparr>) st
      else if key = ''lanfirst'' then in_host (\<lambda>h. h\<lparr>hc_lan_first := lan_first_from_str value\<rparr>) st
      else if key = ''enrollmenttoken'' then globally (\<lambda>c. c\<lparr>cfg_enrollment_token := Some value\<rparr>) st
      else if key = ''sessionlog'' then
        (let enabled = ce_lowercase E value \<in> {''true'', ''yes'', ''1''}
         in in_host_or_globally (\<lambda>h. h\<lparr>hc_session_log := Some enabled\<rparr>) (\<lambda>c. c\<lparr>cfg_session_log := enabled\<rparr>) st)
      else if key = ''sessionlogdir'' then globally (\<lambda>c. c\<lparr>cfg_session_log_dir := Some (expand_home (ce_home E) value)\<rparr>) st
      else if key = ''sessionlogretain'' then
        (case parse_uint (2 ^ 32) value of Some days \<Rightarrow> globally (\<lambda>c. c\<lparr>cfg_session_log_retain := word_of_nat days\<rparr>) st | None \<Rightarrow> st)
      else if key = ''fsspool'' then globally (\<lambda>c. c\<lparr>cfg_fs_spool := Some (expand_home (ce_home E) value)\<rparr>) st
      else st)"

definition parse_line :: "config_env \<Rightarrow> string \<Rightarrow> parse_state \<Rightarrow> parse_state" where
  "parse_line E raw st =
     (let line = trim raw in
      if line = [] \<or> starts_with line ''#'' then st
      else case key_value line of
        None \<Rightarrow> st
      | Some (key, value) \<Rightarrow> set_key E (ce_lowercase E key) (trim_quotes value) st)"

definition config_parse :: "config_env \<Rightarrow> string \<Rightarrow> config" where
  "config_parse E content = push_host (fold (parse_line E) (lines content) (default_config, None))"

section \<open>Looking up\<close>

definition regex_special :: string where
  "regex_special = ''.+()[]{}^$|'' @ [CHR 0x5C]"

definition glob_regex :: "string \<Rightarrow> string" where
  "glob_regex pattern =
     ''^'' @ concat (map (\<lambda>c. if c = CHR ''*'' then ''.*'' else if c = CHR ''?'' then ''.''
       else if c \<in> set regex_special then [CHR 0x5C, c] else [c]) pattern) @ ''$''"

definition match_pattern :: "config_env \<Rightarrow> string \<Rightarrow> string \<Rightarrow> bool" where
  "match_pattern E pattern name = (case ce_regex E (glob_regex pattern) name of Some b \<Rightarrow> b | None \<Rightarrow> pattern = name)"

definition find_host :: "config_env \<Rightarrow> config \<Rightarrow> string \<Rightarrow> host_config option" where
  "find_host E c name = find (\<lambda>h. match_pattern E (hc_pattern h) name) (cfg_hosts c)"

definition resolve_identity_file :: "config_env \<Rightarrow> config \<Rightarrow> string \<Rightarrow> string option \<Rightarrow> string option" where
  "resolve_identity_file E c name cli_key =
     (case cli_key of Some k \<Rightarrow> Some k | None \<Rightarrow> Option.bind (find_host E c name) hc_identity_file)"

definition is_session_log_enabled :: "config_env \<Rightarrow> config \<Rightarrow> string \<Rightarrow> bool" where
  "is_session_log_enabled E c host =
     (case Option.bind (find_host E c host) hc_session_log of Some enabled \<Rightarrow> enabled | None \<Rightarrow> cfg_session_log c)"

definition session_log_dir :: "config_env \<Rightarrow> config \<Rightarrow> string" where
  "session_log_dir E c =
     (case cfg_session_log_dir c of
        Some dir \<Rightarrow> dir
      | None \<Rightarrow> path_join (path_join (case ce_home E of Some h \<Rightarrow> h | None \<Rightarrow> ''.'') ''.mrsh'') ''logs'')"

definition track_for :: "config \<Rightarrow> string \<Rightarrow> string option" where
  "track_for c hostname = Option.bind (find (\<lambda>h. hc_pattern h = hostname) (cfg_hosts c)) hc_track"

definition auto_upgrade_for :: "config \<Rightarrow> string \<Rightarrow> bool option" where
  "auto_upgrade_for c hostname = Option.bind (find (\<lambda>h. hc_pattern h = hostname) (cfg_hosts c)) hc_auto_upgrade"

section \<open>Writing\<close>

definition opt_line :: "string \<Rightarrow> string option \<Rightarrow> string list" where
  "opt_line key v = (case v of Some s \<Rightarrow> [key @ '' '' @ s] | None \<Rightarrow> [])"

definition servers_line :: "string \<Rightarrow> string list \<Rightarrow> string list" where
  "servers_line key servers = (if servers = [] then [] else [key @ '' '' @ join '', '' servers])"

definition show_flag :: "bool \<Rightarrow> string" where
  "show_flag b = (if b then ''true'' else ''false'')"

definition global_lines :: "config \<Rightarrow> string list" where
  "global_lines c =
     opt_line ''DeviceID'' (cfg_device_id c) @ opt_line ''RendezvousServer'' (cfg_rendezvous_server c)
     @ servers_line ''RendezvousServers'' (cfg_rendezvous_servers c) @ opt_line ''RendezvousKey'' (cfg_rendezvous_key c)
     @ opt_line ''EnrollmentToken'' (cfg_enrollment_token c) @ (if cfg_session_log c then [] else [''SessionLog false''])
     @ opt_line ''SessionLogDir'' (cfg_session_log_dir c)
     @ (if cfg_session_log_retain c \<noteq> 90 then [''SessionLogRetain '' @ show_nat (unat (cfg_session_log_retain c))] else [])
     @ opt_line ''FsSpool'' (cfg_fs_spool c)"

definition has_global :: "config \<Rightarrow> bool" where
  "has_global c \<longleftrightarrow> cfg_device_id c \<noteq> None \<or> cfg_rendezvous_server c \<noteq> None \<or> cfg_rendezvous_servers c \<noteq> []
     \<or> cfg_rendezvous_key c \<noteq> None \<or> cfg_enrollment_token c \<noteq> None \<or> \<not> cfg_session_log c \<or> cfg_fs_spool c \<noteq> None"

definition host_lines :: "host_config \<Rightarrow> string list" where
  "host_lines h =
     [''Host '' @ hc_pattern h] @ opt_line ''    Hostname'' (hc_hostname h)
     @ (if 0 < hc_port h then [''    Port '' @ show_nat (unat (hc_port h))] else [])
     @ opt_line ''    IdentityFile'' (hc_identity_file h) @ opt_line ''    User'' (hc_user h)
     @ opt_line ''    MAC'' (hc_mac h) @ opt_line ''    DeviceID'' (hc_device_id h)
     @ opt_line ''    Description'' (hc_description h) @ opt_line ''    TailscaleIP'' (hc_tailscale_ip h)
     @ opt_line ''    RendezvousServer'' (hc_rendezvous_server h)
     @ servers_line ''    RendezvousServers'' (hc_rendezvous_servers h)
     @ opt_line ''    RendezvousKey'' (hc_rendezvous_key h)
     @ opt_line ''    SessionLog'' (map_option show_flag (hc_session_log h))
     @ (case hc_lan_first h of Lan_Yes \<Rightarrow> [''    LanFirst yes''] | Lan_No \<Rightarrow> [''    LanFirst no''] | Lan_Auto \<Rightarrow> [])"

text \<open>An empty line before every host but the first, and before the first when settings precede it.\<close>

definition hosts_lines :: "bool \<Rightarrow> host_config list \<Rightarrow> string list" where
  "hosts_lines gap hs =
     (case hs of [] \<Rightarrow> [] | h # rest \<Rightarrow> (if gap then [[]] else []) @ host_lines h @ concat (map (\<lambda>h. [] # host_lines h) rest))"

definition config_to_string :: "config \<Rightarrow> string" where
  "config_to_string c = concat (map unline (global_lines c @ hosts_lines (has_global c) (cfg_hosts c)))"

section \<open>Loading, saving and updating\<close>

definition default_path :: "config_env \<Rightarrow> string option" where
  "default_path E = map_option (\<lambda>h. path_join (path_join h ''.mrsh'') ''config'') (ce_home E)"

text \<open>\<open>read_to_string(p).ok()\<close>.\<close>

definition read_text_ok :: "disk \<Rightarrow> string \<Rightarrow> string option" where
  "read_text_ok d p = (case read_to_string d p of Inr s \<Rightarrow> Some s | Inl _ \<Rightarrow> None)"

definition load_enrollment :: "config_env \<Rightarrow> disk \<Rightarrow> config option" where
  "load_enrollment E d =
     map_option (config_parse E)
       (case read_text_ok d ''/etc/mrsh/config.enrollment'' of
          Some s \<Rightarrow> Some s
        | None \<Rightarrow> read_text_ok d ''/etc/rsh/config.enrollment'')"

definition option_or :: "'a option \<Rightarrow> 'a option \<Rightarrow> 'a option" where
  "option_or x y = (case x of Some _ \<Rightarrow> x | None \<Rightarrow> y)"

definition merge_enrollment :: "config \<Rightarrow> config \<Rightarrow> config" where
  "merge_enrollment u e =
     u\<lparr>cfg_rendezvous_server := option_or (cfg_rendezvous_server u) (cfg_rendezvous_server e),
       cfg_rendezvous_key := option_or (cfg_rendezvous_key u) (cfg_rendezvous_key e),
       cfg_enrollment_token := option_or (cfg_enrollment_token u) (cfg_enrollment_token e)\<rparr>"

definition config_load :: "config_env \<Rightarrow> disk \<Rightarrow> config" where
  "config_load E d =
     (case (map_option (config_parse E) (Option.bind (default_path E) (read_text_ok d)), load_enrollment E d) of
        (Some u, Some e) \<Rightarrow> merge_enrollment u e
      | (Some u, None) \<Rightarrow> u
      | (None, Some e) \<Rightarrow> e
      | (None, None) \<Rightarrow>
          (case Option.bind (map_option (\<lambda>h. path_join (path_join h ''.rsh'') ''config'') (ce_home E)) (read_text_ok d) of
             Some s \<Rightarrow> config_parse E s
           | None \<Rightarrow> default_config))"

definition config_save :: "config_env \<Rightarrow> config \<Rightarrow> disk \<Rightarrow> io_error option \<times> disk" where
  "config_save E c d =
     (case default_path E of
        None \<Rightarrow> (Some (Io_Error ''cannot determine config path''), d)
      | Some path \<Rightarrow>
          (case (case path_parent path of Some dir \<Rightarrow> create_dir_all dir d | None \<Rightarrow> (None, d)) of
             (Some e, d1) \<Rightarrow> (Some e, d1)
           | (None, d1) \<Rightarrow> fs_write path (as_bytes (config_to_string c)) d1))"

definition named :: "string \<Rightarrow> host_config \<Rightarrow> bool" where
  "named hostname h \<longleftrightarrow> ascii_lower (hc_pattern h) = ascii_lower hostname \<or>
     (case hc_hostname h of Some n \<Rightarrow> ascii_lower n = ascii_lower hostname | None \<Rightarrow> False)"

text \<open>The first host that satisfies the predicate, changed in place.\<close>

fun update_first :: "('a \<Rightarrow> bool) \<Rightarrow> ('a \<Rightarrow> 'a) \<Rightarrow> 'a list \<Rightarrow> 'a list" where
  "update_first p f [] = []"
| "update_first p f (x # xs) = (if p x then f x # xs else x # update_first p f xs)"

definition set_relay_info :: "string option \<Rightarrow> string option \<Rightarrow> host_config \<Rightarrow> host_config" where
  "set_relay_info device_id rdv h =
     h\<lparr>hc_device_id := option_or device_id (hc_device_id h), hc_rendezvous_server := option_or rdv (hc_rendezvous_server h)\<rparr>"

definition update_host_relay_info :: "string \<Rightarrow> string option \<Rightarrow> string option \<Rightarrow> config \<Rightarrow> bool \<times> config" where
  "update_host_relay_info hostname device_id rdv c =
     (if device_id = None \<and> rdv = None then (False, c)
      else case find (named hostname) (cfg_hosts c) of
        Some h \<Rightarrow>
          ((device_id \<noteq> None \<and> hc_device_id h \<noteq> device_id) \<or> (rdv \<noteq> None \<and> hc_rendezvous_server h \<noteq> rdv),
           c\<lparr>cfg_hosts := update_first (named hostname) (set_relay_info device_id rdv) (cfg_hosts c)\<rparr>)
      | None \<Rightarrow> (True, c\<lparr>cfg_hosts := cfg_hosts c @ [set_relay_info device_id rdv (default_host\<lparr>hc_pattern := hostname\<rparr>)]\<rparr>))"

text \<open>\<open>src/dispatch.rs\<close>: what the client does with the identifiers the server reported at login.\<close>

definition save_relay_info :: "config_env \<Rightarrow> string \<Rightarrow> string option \<Rightarrow> string option \<Rightarrow> disk \<Rightarrow> disk" where
  "save_relay_info E host device_id rdv d =
     (let localhost = (case rdv of Some s \<Rightarrow> starts_with s ''localhost:'' \<or> starts_with s ''127.0.0.1:'' | None \<Rightarrow> False)
      in if (device_id \<noteq> None \<or> rdv \<noteq> None) \<and> \<not> localhost
         then (case update_host_relay_info host device_id rdv (config_load E d) of
                 (True, c) \<Rightarrow> snd (config_save E c d)
               | (False, c) \<Rightarrow> d)
         else d)"

section \<open>A saved file is read back\<close>

text \<open>Text that survives on a line: no line feed, and printable ASCII that is no quote at both ends.\<close>

definition config_value :: "string \<Rightarrow> bool" where
  "config_value v \<longleftrightarrow> v \<noteq> [] \<and> graphic (hd v) \<and> graphic (last v) \<and> \<not> is_quote (hd v) \<and> \<not> is_quote (last v) \<and> CHR 0x0A \<notin> set v"

definition server_name_ok :: "string \<Rightarrow> bool" where
  "server_name_ok s \<longleftrightarrow> token s \<and> CHR '','' \<notin> set s \<and> list_all (\<lambda>c. \<not> is_quote c) s"

definition ascii_case :: "config_env \<Rightarrow> bool" where
  "ascii_case E \<longleftrightarrow> (\<forall>s. is_ascii s \<longrightarrow> ce_lowercase E s = ascii_lower s)"

text \<open>A key as it is written, with its indentation, and as it is compared.\<close>

definition key_word :: "string \<Rightarrow> string \<Rightarrow> bool" where
  "key_word written key \<longleftrightarrow>
     (let k = dropWhile ((=) (CHR '' '')) written in token k \<and> hd k \<noteq> CHR ''#'' \<and> is_ascii k \<and> ascii_lower k = key)"

definition path_value :: "string \<Rightarrow> bool" where
  "path_value v \<longleftrightarrow> config_value v \<and> \<not> starts_with v ''~/''"

lemma trim_quotes_fixed: "config_value v \<Longrightarrow> trim_quotes v = v"
proof -
  assume v: "config_value v"
  then have "dropWhile is_quote v = v" by (cases v) (simp_all add: config_value_def)
  moreover have "dropWhile is_quote (rev v) = rev v" using v by (cases v rule: rev_cases) (simp_all add: config_value_def)
  ultimately show ?thesis by (simp add: trim_quotes_def)
qed

lemma split_once_ws_key: "list_all graphic k \<Longrightarrow> split_once_ws cur (k @ CHR '' '' # v) = Some (rev cur @ k, v)"
  by (induction k arbitrary: cur) simp_all

lemma trim_spaces: "trim (takeWhile ((=) (CHR '' '')) s @ t) = trim t"
  by (induction s) (auto simp: trim_space)

lemma parse_key_line:
  assumes "key_word written key" "ascii_case E" "config_value v"
  shows "parse_line E (written @ CHR '' '' # v) st = set_key E key v st"
proof -
  define k where "k = dropWhile ((=) (CHR '' '')) written"
  have k: "token k" "hd k \<noteq> CHR ''#''" "is_ascii k" "ascii_lower k = key"
    using assms(1) by (simp_all add: key_word_def Let_def k_def)
  have v: "v \<noteq> []" "graphic (hd v)" "graphic (last v)" using assms(3) by (simp_all add: config_value_def)
  have g: "k \<noteq> []" "list_all graphic k" using k(1) by (simp_all add: token_def)
  then have gk: "graphic (hd k)" "graphic (last k)" by (auto simp: list_all_iff)
  have "written = takeWhile ((=) (CHR '' '')) written @ k" by (simp add: k_def)
  then have "trim (written @ CHR '' '' # v) = trim (k @ CHR '' '' # v)" by (metis append.assoc trim_spaces)
  also have "\<dots> = k @ CHR '' '' # v" using g v gk by (intro trim_graphic_ends) auto
  finally have t: "trim (written @ CHR '' '' # v) = k @ CHR '' '' # v" .
  have "key_value (k @ CHR '' '' # v) = Some (k, v)"
    using split_once_ws_key [OF g(2), of "[]" v] trim_graphic_ends [OF v] trim_graphic_ends [OF g(1) gk] by (simp add: key_value_def)
  moreover have "\<not> starts_with (k @ CHR '' '' # v) ''#''" using g(1) k(2) by (cases k) (auto simp: starts_with_def)
  moreover have "ce_lowercase E k = key" using assms(2) k(3,4) by (auto simp: ascii_case_def)
  ultimately show ?thesis using g(1) by (simp add: parse_line_def t trim_quotes_fixed [OF assms(3)])
qed

lemma fold_opt_line:
  assumes "key_word written key" "ascii_case E" "pred_option config_value v"
  shows "fold (parse_line E) (opt_line written v) st = (case v of None \<Rightarrow> st | Some s \<Rightarrow> set_key E key s st)"
  using assms(3) parse_key_line [OF assms(1,2)] by (cases v) (simp_all add: opt_line_def)

lemma spaces_of_commas: "CHR '','' \<notin> set s \<Longrightarrow> map (\<lambda>c. if c = CHR '','' then CHR '' '' else c) s = s"
  by (induction s) auto

lemma join_commas:
  "list_all server_name_ok ss \<Longrightarrow> map (\<lambda>c. if c = CHR '','' then CHR '' '' else c) (join '', '' ss) = join ''  '' ss"
  by (induction ss rule: induct_list012) (auto simp: server_name_ok_def spaces_of_commas)

lemma split_whitespace_two:
  "list_all token ts \<Longrightarrow> split_whitespace (join ''  '' ts) = ts"
proof (induction ts)
  case (Cons t ts)
  from Cons.prems have t: "list_all graphic t" "t \<noteq> []" by (simp_all add: token_def)
  show ?case
  proof (cases ts)
    case Nil
    with t split_ws_graphic [of t "[]" "[]"] show ?thesis by (simp add: split_whitespace_def)
  next
    case (Cons u us)
    with t split_ws_graphic [of t "[]" "CHR '' '' # CHR '' '' # join ''  '' ts"] Cons.IH Cons.prems
    show ?thesis by (simp add: split_whitespace_def)
  qed
qed (simp add: split_whitespace_def)

lemma parse_server_list_join: "list_all server_name_ok ss \<Longrightarrow> parse_server_list (join '', '' ss) = ss"
proof -
  assume ss: "list_all server_name_ok ss"
  then have "list_all token ss" by (auto simp: list_all_iff server_name_ok_def)
  moreover from this have "filter (\<lambda>s. s \<noteq> []) ss = ss" by (auto simp: list_all_iff token_def filter_id_conv)
  ultimately show ?thesis by (simp add: parse_server_list_def join_commas [OF ss] split_whitespace_two)
qed

lemma join_value: "list_all server_name_ok ss \<Longrightarrow> ss \<noteq> [] \<Longrightarrow> config_value (join '', '' ss)"
proof (induction ss rule: induct_list012)
  case (2 s)
  then show ?case
    by (auto simp: server_name_ok_def config_value_def token_def list_all_iff graphic_def)
next
  case (3 s t ss)
  then have "config_value (join '', '' (t # ss))" by simp
  with 3(3) show ?case
    by (auto simp: server_name_ok_def config_value_def token_def list_all_iff graphic_def hd_append)
qed simp

lemma fold_servers_line:
  assumes "key_word written key" "ascii_case E" "list_all server_name_ok ss"
  shows "fold (parse_line E) (servers_line written ss) st = (if ss = [] then st else set_key E key (join '', '' ss) st)"
  using assms parse_key_line [OF assms(1,2)] join_value by (simp add: servers_line_def)

text \<open>The effect of each line that the writer produces.\<close>

lemma key_words:
  "key_word ''    Hostname'' ''hostname''"
  "key_word ''    IdentityFile'' ''identityfile''"
  "key_word ''    User'' ''user''"
  "key_word ''    MAC'' ''mac''"
  "key_word ''    DeviceID'' ''deviceid''"
  "key_word ''    Description'' ''description''"
  "key_word ''    TailscaleIP'' ''tailscaleip''"
  "key_word ''    RendezvousServer'' ''rendezvousserver''"
  "key_word ''    RendezvousKey'' ''rendezvouskey''"
  "key_word ''    RendezvousServers'' ''rendezvousservers''"
  "key_word ''    Port'' ''port''"
  "key_word ''    SessionLog'' ''sessionlog''"
  "key_word ''    LanFirst'' ''lanfirst''"
  "key_word ''Host'' ''host''"
  "key_word ''DeviceID'' ''deviceid''"
  "key_word ''RendezvousServer'' ''rendezvousserver''"
  "key_word ''RendezvousKey'' ''rendezvouskey''"
  "key_word ''EnrollmentToken'' ''enrollmenttoken''"
  "key_word ''SessionLogDir'' ''sessionlogdir''"
  "key_word ''FsSpool'' ''fsspool''"
  "key_word ''RendezvousServers'' ''rendezvousservers''"
  "key_word ''SessionLog'' ''sessionlog''"
  "key_word ''SessionLogRetain'' ''sessionlogretain''"
  by code_simp+

lemmas state_simps = set_key_def in_host_def globally_def in_host_or_globally_def push_host_def

lemma host_opt_lines:
  assumes "ascii_case E"
  shows
    "hc_hostname h = None \<Longrightarrow> pred_option config_value v \<Longrightarrow>
      fold (parse_line E) (opt_line ''    Hostname'' v) (c, Some h) = (c, Some (h\<lparr>hc_hostname := v\<rparr>))"
    "hc_identity_file h = None \<Longrightarrow> pred_option path_value v \<Longrightarrow>
      fold (parse_line E) (opt_line ''    IdentityFile'' v) (c, Some h) = (c, Some (h\<lparr>hc_identity_file := v\<rparr>))"
    "hc_user h = None \<Longrightarrow> pred_option config_value v \<Longrightarrow>
      fold (parse_line E) (opt_line ''    User'' v) (c, Some h) = (c, Some (h\<lparr>hc_user := v\<rparr>))"
    "hc_mac h = None \<Longrightarrow> pred_option config_value v \<Longrightarrow>
      fold (parse_line E) (opt_line ''    MAC'' v) (c, Some h) = (c, Some (h\<lparr>hc_mac := v\<rparr>))"
    "hc_device_id h = None \<Longrightarrow> pred_option config_value v \<Longrightarrow>
      fold (parse_line E) (opt_line ''    DeviceID'' v) (c, Some h) = (c, Some (h\<lparr>hc_device_id := v\<rparr>))"
    "hc_description h = None \<Longrightarrow> pred_option config_value v \<Longrightarrow>
      fold (parse_line E) (opt_line ''    Description'' v) (c, Some h) = (c, Some (h\<lparr>hc_description := v\<rparr>))"
    "hc_tailscale_ip h = None \<Longrightarrow> pred_option config_value v \<Longrightarrow>
      fold (parse_line E) (opt_line ''    TailscaleIP'' v) (c, Some h) = (c, Some (h\<lparr>hc_tailscale_ip := v\<rparr>))"
    "hc_rendezvous_server h = None \<Longrightarrow> pred_option config_value v \<Longrightarrow>
      fold (parse_line E) (opt_line ''    RendezvousServer'' v) (c, Some h) = (c, Some (h\<lparr>hc_rendezvous_server := v\<rparr>))"
    "hc_rendezvous_key h = None \<Longrightarrow> pred_option config_value v \<Longrightarrow>
      fold (parse_line E) (opt_line ''    RendezvousKey'' v) (c, Some h) = (c, Some (h\<lparr>hc_rendezvous_key := v\<rparr>))"
  by ((subst fold_opt_line [OF key_words(1) assms] fold_opt_line [OF key_words(2) assms] fold_opt_line [OF key_words(3) assms] fold_opt_line [OF key_words(4) assms] fold_opt_line [OF key_words(5) assms] fold_opt_line [OF key_words(6) assms] fold_opt_line [OF key_words(7) assms] fold_opt_line [OF key_words(8) assms] fold_opt_line [OF key_words(9) assms];
      cases v; simp add: state_simps path_value_def expand_home_def option.pred_set)+)

lemma global_opt_lines:
  assumes "ascii_case E"
  shows
    "cfg_device_id c = None \<Longrightarrow> pred_option config_value v \<Longrightarrow>
      fold (parse_line E) (opt_line ''DeviceID'' v) (c, None) = (c\<lparr>cfg_device_id := v\<rparr>, None)"
    "cfg_rendezvous_server c = None \<Longrightarrow> pred_option config_value v \<Longrightarrow>
      fold (parse_line E) (opt_line ''RendezvousServer'' v) (c, None) = (c\<lparr>cfg_rendezvous_server := v\<rparr>, None)"
    "cfg_rendezvous_key c = None \<Longrightarrow> pred_option config_value v \<Longrightarrow>
      fold (parse_line E) (opt_line ''RendezvousKey'' v) (c, None) = (c\<lparr>cfg_rendezvous_key := v\<rparr>, None)"
    "cfg_enrollment_token c = None \<Longrightarrow> pred_option config_value v \<Longrightarrow>
      fold (parse_line E) (opt_line ''EnrollmentToken'' v) (c, None) = (c\<lparr>cfg_enrollment_token := v\<rparr>, None)"
    "cfg_session_log_dir c = None \<Longrightarrow> pred_option path_value v \<Longrightarrow>
      fold (parse_line E) (opt_line ''SessionLogDir'' v) (c, None) = (c\<lparr>cfg_session_log_dir := v\<rparr>, None)"
    "cfg_fs_spool c = None \<Longrightarrow> pred_option path_value v \<Longrightarrow>
      fold (parse_line E) (opt_line ''FsSpool'' v) (c, None) = (c\<lparr>cfg_fs_spool := v\<rparr>, None)"
  by ((subst fold_opt_line [OF key_words(15) assms] fold_opt_line [OF key_words(16) assms] fold_opt_line [OF key_words(17) assms] fold_opt_line [OF key_words(18) assms] fold_opt_line [OF key_words(19) assms] fold_opt_line [OF key_words(20) assms];
      cases v; simp add: state_simps path_value_def expand_home_def option.pred_set)+)

lemma servers_lines:
  assumes "ascii_case E" "list_all server_name_ok ss"
  shows "hc_rendezvous_servers h = [] \<Longrightarrow>
      fold (parse_line E) (servers_line ''    RendezvousServers'' ss) (c, Some h) = (c, Some (h\<lparr>hc_rendezvous_servers := ss\<rparr>))"
    and "cfg_rendezvous_servers c = [] \<Longrightarrow>
      fold (parse_line E) (servers_line ''RendezvousServers'' ss) (c, None) = (c\<lparr>cfg_rendezvous_servers := ss\<rparr>, None)"
  using fold_servers_line [OF key_words(10) assms, of "(c, Some h)"] fold_servers_line [OF key_words(21) assms, of "(c, None)"]
  by (simp_all add: state_simps parse_server_list_join [OF assms(2)])

lemma show_nat_codes: "c \<in> set (show_nat n) \<Longrightarrow> 48 \<le> (of_char c :: nat) \<and> (of_char c :: nat) \<le> 57"
  by (drule show_nat_digits) (auto simp: take_bit_nat_eq_self)

lemma number_value: "config_value (show_nat n)"
proof -
  have "graphic c \<and> \<not> is_quote c \<and> c \<noteq> CHR 0x0A" if "c \<in> set (show_nat n)" for c
    using show_nat_codes [OF that] by (auto simp: graphic_def is_quote_def)
  from this [of "CHR 0x0A"] this [OF hd_in_set] this [OF last_in_set] show ?thesis by (auto simp: config_value_def)
qed

lemma fold_line: "fold f [x] st = f x st" by simp

lemma port_line:
  assumes "ascii_case E"
  shows "fold (parse_line E) (if 0 < p then [''    Port '' @ show_nat (unat p)] else []) (c, Some h) =
    (c, Some (h\<lparr>hc_port := if p = 0 then hc_port h else p\<rparr>))"
proof (cases "p = 0")
  case False
  have "unat p < 65536" using unat_word_bounds(1) [of p] by simp
  then have "parse_uint 65536 (show_nat (unat p)) = Some (unat p)" by (rule parse_uint_show)
  with False parse_key_line [OF key_words(11) assms number_value, of "unat p" "(c, Some h)"]
  show ?thesis by (simp add: state_simps word_gt_0)
qed simp

lemma session_log_line:
  assumes "ascii_case E" "hc_session_log h = None"
  shows "fold (parse_line E) (opt_line ''    SessionLog'' (map_option show_flag b)) (c, Some h) = (c, Some (h\<lparr>hc_session_log := b\<rparr>))"
proof (cases b)
  case None
  with assms show ?thesis by (simp add: opt_line_def)
next
  case (Some x)
  have v: "config_value (show_flag x)" by (simp add: show_flag_def config_value_def graphic_def is_quote_def)
  have "ce_lowercase E (show_flag x) = show_flag x"
    using assms(1) by (cases x) (simp_all add: ascii_case_def show_flag_def is_ascii_def ascii_lower_def)
  with Some v fold_opt_line [OF key_words(12) assms(1), of "Some (show_flag x)" "(c, Some h)"] show ?thesis
    by (simp add: state_simps) (simp add: show_flag_def)
qed

lemma lan_first_line:
  assumes "ascii_case E" "hc_lan_first h = Lan_Auto"
  shows "fold (parse_line E) (case l of Lan_Yes \<Rightarrow> [''    LanFirst yes''] | Lan_No \<Rightarrow> [''    LanFirst no''] | Lan_Auto \<Rightarrow> []) (c, Some h) =
    (c, Some (h\<lparr>hc_lan_first := l\<rparr>))"
proof -
  have v: "config_value ''yes''" "config_value ''no''" by (simp_all add: config_value_def graphic_def is_quote_def)
  from parse_key_line [OF key_words(13) assms(1) v(1), of "(c, Some h)"] parse_key_line [OF key_words(13) assms(1) v(2), of "(c, Some h)"]
  show ?thesis using assms(2)
    by (cases l) (simp_all add: state_simps lan_first_from_str_def ascii_lower_def)
qed

definition host_ok :: "host_config \<Rightarrow> bool" where
  "host_ok h \<longleftrightarrow> config_value (hc_pattern h) \<and> pred_option config_value (hc_hostname h) \<and> pred_option path_value (hc_identity_file h)
     \<and> pred_option config_value (hc_user h) \<and> pred_option config_value (hc_mac h) \<and> pred_option config_value (hc_device_id h)
     \<and> pred_option config_value (hc_description h) \<and> pred_option config_value (hc_tailscale_ip h)
     \<and> pred_option config_value (hc_rendezvous_server h) \<and> list_all server_name_ok (hc_rendezvous_servers h)
     \<and> pred_option config_value (hc_rendezvous_key h)"

definition config_ok :: "config \<Rightarrow> bool" where
  "config_ok c \<longleftrightarrow> list_all host_ok (cfg_hosts c) \<and> pred_option config_value (cfg_device_id c)
     \<and> pred_option config_value (cfg_rendezvous_server c) \<and> list_all server_name_ok (cfg_rendezvous_servers c)
     \<and> pred_option config_value (cfg_rendezvous_key c) \<and> pred_option config_value (cfg_enrollment_token c)
     \<and> pred_option path_value (cfg_session_log_dir c) \<and> pred_option path_value (cfg_fs_spool c)"

text \<open>What the writer leaves out is lost, and a host without a port gets the default one.\<close>

definition saved_host :: "host_config \<Rightarrow> host_config" where
  "saved_host h = h\<lparr>hc_port := if hc_port h = 0 then 8822 else hc_port h, hc_quic_port := None, hc_platform := None,
     hc_track := None, hc_auto_upgrade := None\<rparr>"

definition saved_config :: "config \<Rightarrow> config" where
  "saved_config c = c\<lparr>cfg_hosts := map saved_host (cfg_hosts c)\<rparr>"

lemma fold_host_lines:
  assumes "ascii_case E" "host_ok h"
  shows "fold (parse_line E) (host_lines h) st = (push_host st, Some (saved_host h))"
proof -
  have ok: "config_value (hc_pattern h)" "pred_option config_value (hc_hostname h)" "pred_option path_value (hc_identity_file h)"
    "pred_option config_value (hc_user h)" "pred_option config_value (hc_mac h)" "pred_option config_value (hc_device_id h)"
    "pred_option config_value (hc_description h)" "pred_option config_value (hc_tailscale_ip h)"
    "pred_option config_value (hc_rendezvous_server h)" "list_all server_name_ok (hc_rendezvous_servers h)"
    "pred_option config_value (hc_rendezvous_key h)" using assms(2) by (simp_all add: host_ok_def)
  have head: "parse_line E (''Host '' @ hc_pattern h) st = (push_host st, Some (new_host (hc_pattern h)))"
    using parse_key_line [OF key_words(14) assms(1) ok(1), of st] by (simp add: set_key_def)
  note steps = host_opt_lines [OF assms(1)] servers_lines(1) [OF assms(1)] port_line [OF assms(1)] session_log_line [OF assms(1)]
    lan_first_line [OF assms(1)]
  show ?thesis
    unfolding host_lines_def fold_append comp_apply fold_line head new_host_def
    by (simp only: steps ok host_config.simps) (cases h; simp add: saved_host_def)
qed

lemma blank_line [simp]: "parse_line E [] st = st"
  by (simp add: parse_line_def)

lemma fold_more_hosts:
  assumes "ascii_case E" "list_all host_ok hs"
  shows "push_host (fold (parse_line E) (concat (map (\<lambda>h. [] # host_lines h) hs)) st) =
    (push_host st)\<lparr>cfg_hosts := cfg_hosts (push_host st) @ map saved_host hs\<rparr>"
  using assms(2)
proof (induction hs arbitrary: st)
  case (Cons h hs)
  then have "fold (parse_line E) (host_lines h) st = (push_host st, Some (saved_host h))"
    using fold_host_lines [OF assms(1)] by simp
  with Cons show ?case by (simp add: push_host_def)
qed simp

lemma fold_hosts_lines:
  assumes "ascii_case E" "list_all host_ok hs"
  shows "push_host (fold (parse_line E) (hosts_lines gap hs) (c, None)) = c\<lparr>cfg_hosts := cfg_hosts c @ map saved_host hs\<rparr>"
proof (cases hs)
  case (Cons h rest)
  with assms fold_host_lines [OF assms(1), of h "(c, None)"] fold_more_hosts [OF assms(1), of rest] show ?thesis
    by (simp add: hosts_lines_def push_host_def)
qed (simp add: hosts_lines_def push_host_def)

lemma session_log_off:
  assumes "ascii_case E"
  shows "fold (parse_line E) (if b then [] else [''SessionLog false'']) (c, None) = (c\<lparr>cfg_session_log := b \<and> cfg_session_log c\<rparr>, None)"
proof -
  have "config_value ''false''" by (simp add: config_value_def graphic_def is_quote_def)
  moreover have "ce_lowercase E ''false'' = ''false''"
    using assms by (simp add: ascii_case_def is_ascii_def ascii_lower_def)
  ultimately show ?thesis using parse_key_line [OF key_words(22) assms, of "''false''" "(c, None)"] by (simp add: state_simps)
qed

lemma retain_line:
  assumes "ascii_case E" "cfg_session_log_retain c = 90"
  shows "fold (parse_line E) (if n \<noteq> 90 then [''SessionLogRetain '' @ show_nat (unat n)] else []) (c, None) =
    (c\<lparr>cfg_session_log_retain := n\<rparr>, None)"
proof -
  have "parse_uint (2 ^ 32) (show_nat (unat n)) = Some (unat n)" by (rule parse_uint_show) simp
  with assms(2) parse_key_line [OF key_words(23) assms(1) number_value, of "unat n" "(c, None)"]
  show ?thesis by (simp add: state_simps)
qed

lemma fold_global_lines:
  assumes "ascii_case E" "config_ok c"
  shows "fold (parse_line E) (global_lines c) (default_config, None) = (c\<lparr>cfg_hosts := []\<rparr>, None)"
proof -
  have ok: "pred_option config_value (cfg_device_id c)" "pred_option config_value (cfg_rendezvous_server c)"
    "list_all server_name_ok (cfg_rendezvous_servers c)" "pred_option config_value (cfg_rendezvous_key c)"
    "pred_option config_value (cfg_enrollment_token c)" "pred_option path_value (cfg_session_log_dir c)"
    "pred_option path_value (cfg_fs_spool c)" using assms(2) by (simp_all add: config_ok_def)
  note steps = global_opt_lines [OF assms(1)] servers_lines(2) [OF assms(1)] session_log_off [OF assms(1)] retain_line [OF assms(1)]
  show ?thesis
    unfolding global_lines_def fold_append comp_apply default_config_def
    by (simp only: steps ok config.simps) (cases c; simp)
qed

lemma clean_key_line: "CHR 0x0A \<notin> set key \<Longrightarrow> config_value v \<Longrightarrow> clean_line (key @ v)"
  by (auto simp: clean_line_def config_value_def graphic_def)

lemma clean_opt_line: "CHR 0x0A \<notin> set key \<Longrightarrow> pred_option config_value v \<Longrightarrow> list_all clean_line (opt_line key v)"
  using clean_key_line [of "key @ '' ''"] by (cases v) (simp_all add: opt_line_def)

lemma clean_servers_line: "CHR 0x0A \<notin> set key \<Longrightarrow> list_all server_name_ok ss \<Longrightarrow> list_all clean_line (servers_line key ss)"
  using clean_key_line [of "key @ '' ''" "join '', '' ss"] join_value [of ss] by (simp add: servers_line_def)

lemma path_config_value: "pred_option path_value v \<Longrightarrow> pred_option config_value v"
  by (cases v) (simp_all add: path_value_def)

lemma clean_host_lines: "host_ok h \<Longrightarrow> list_all clean_line (host_lines h)"
  using clean_key_line [OF _ number_value, of "''    Port ''" "unat (hc_port h)"] clean_key_line [of "''Host ''" "hc_pattern h"]
    path_config_value [of "hc_identity_file h"]
  by (auto simp: host_lines_def host_ok_def clean_opt_line clean_servers_line split: lan_first.split)
     (auto simp: opt_line_def show_flag_def clean_line_def split: option.split)

lemma clean_global_lines: "config_ok c \<Longrightarrow> list_all clean_line (global_lines c)"
  using clean_key_line [OF _ number_value, of "''SessionLogRetain ''" "unat (cfg_session_log_retain c)"]
    path_config_value [of "cfg_session_log_dir c"] path_config_value [of "cfg_fs_spool c"]
  by (auto simp: global_lines_def config_ok_def clean_opt_line clean_servers_line) (auto simp: clean_line_def)

lemma clean_hosts_lines: "list_all host_ok hs \<Longrightarrow> list_all clean_line (hosts_lines gap hs)"
  using clean_host_lines by (cases hs) (auto simp: hosts_lines_def list_all_iff clean_line_def)

lemma config_read_back:
  assumes "ascii_case E" "config_ok c"
  shows "config_parse E (config_to_string c) = saved_config c"
proof -
  have hosts: "list_all host_ok (cfg_hosts c)" using assms(2) by (simp add: config_ok_def)
  have "lines (config_to_string c) = global_lines c @ hosts_lines (has_global c) (cfg_hosts c)"
    unfolding config_to_string_def using clean_global_lines [OF assms(2)] clean_hosts_lines [OF hosts] by (intro lines_unlines) simp
  then show ?thesis
    using fold_global_lines [OF assms] fold_hosts_lines [OF assms(1) hosts] by (simp add: config_parse_def saved_config_def)
qed

text \<open>C19. A saved configuration whose values survive on their lines is loaded as it was, merged with that of the
  installer if there is one, except for the settings of a host the writer leaves out (QUIC port, platform,
  track, automatic upgrade) and a port 0, which becomes the default port. A value survives when it is not
  empty, has no line feed, and begins and ends with printable ASCII other than blanks and quotes; a path
  moreover when it does not begin with \<open>~/\<close>, and the name of a further rendezvous server when it is one
  word without commas and quotes. Lower case is that of ASCII on ASCII text.\<close>

theorem config_saved_and_loaded:
  assumes "config_save E c d = (None, d')" "config_ok c" "ascii_case E" "is_str (config_to_string c)"
  shows "config_load E d' = (case load_enrollment E d' of None \<Rightarrow> saved_config c | Some e \<Rightarrow> merge_enrollment (saved_config c) e)"
proof -
  obtain path where p: "default_path E = Some path" using assms(1) by (auto simp: config_save_def split: option.splits)
  obtain d1 where w: "fs_write path (as_bytes (config_to_string c)) d1 = (None, d')"
    using assms(1) p by (auto simp: config_save_def split: prod.splits option.splits)
  then have "write_error d1 path = None" by (auto simp: fs_write_def split: option.splits)
  then have "fs_read d' path = Inr (as_bytes (config_to_string c))" using fs_read_write w by (metis snd_conv)
  then have "read_text_ok d' path = Some (config_to_string c)"
    using assms(4) by (simp add: read_text_ok_def read_to_string_def)
  then show ?thesis
    using p config_read_back [OF assms(3,2)] by (simp add: config_load_def split: option.split)
qed

lemma ascii_number: "list_all (\<lambda>c. (of_char c :: nat) < 128) (show_nat n)"
  using show_nat_codes by (fastforce simp: list_all_iff)

definition sample_config_env :: config_env where
  "sample_config_env = \<lparr>ce_lowercase = ascii_lower, ce_home = Some ''/h'', ce_regex = (\<lambda>r s. None)\<rparr>"

definition home_disk :: disk where
  "home_disk = \<lparr>files = Map.empty, folders = {''/h/.mrsh''}, fault = (\<lambda>p. None), other_device = (\<lambda>p q. False)\<rparr>"

definition sample_config :: config where
  "sample_config = default_config\<lparr>cfg_device_id := Some ''118855822'', cfg_hosts := [(new_host ''box'')\<lparr>hc_hostname := Some ''10.0.0.5'', hc_quic_port := Some 9\<rparr>]\<rparr>"

definition sample_saved :: disk where
  "sample_saved = snd (config_save sample_config_env sample_config home_disk)"

theorem config_saved_and_loaded_witness:
  "config_load sample_config_env sample_saved =
    (case load_enrollment sample_config_env sample_saved of None \<Rightarrow> saved_config sample_config
     | Some e \<Rightarrow> merge_enrollment (saved_config sample_config) e)"
proof (rule config_saved_and_loaded)
  have "default_path sample_config_env = Some ''/h/.mrsh/config''" "path_parent ''/h/.mrsh/config'' = Some ''/h/.mrsh''"
    "write_error home_disk ''/h/.mrsh/config'' = None" by code_simp+
  moreover have "create_dir_all ''/h/.mrsh'' home_disk = (None, home_disk)"
    by (rule create_dir_all_there) (simp_all add: home_disk_def)
  ultimately have "fst (config_save sample_config_env sample_config home_disk) = None"
    by (simp add: config_save_def fs_write_def)
  then show "config_save sample_config_env sample_config home_disk = (None, sample_saved)"
    by (simp add: sample_saved_def prod_eq_iff)
  show "config_ok sample_config"
    by (simp add: config_ok_def host_ok_def sample_config_def default_config_def new_host_def config_value_def graphic_def is_quote_def)
  show "ascii_case sample_config_env" by (simp add: ascii_case_def sample_config_env_def)
  have "is_ascii (config_to_string sample_config)"
    by (simp add: config_to_string_def global_lines_def hosts_lines_def host_lines_def opt_line_def servers_line_def
        sample_config_def default_config_def new_host_def unline_def is_ascii_def ascii_number)
  then show "is_str (config_to_string sample_config)" by simp
qed

section \<open>What a login stores\<close>

lemma named_relay_info [simp]: "named n (set_relay_info device_id rdv h) = named n h"
  by (simp add: named_def set_relay_info_def)

lemma find_update_first:
  "(\<And>x. p x \<Longrightarrow> p (f x)) \<Longrightarrow> find p xs = Some x \<Longrightarrow> find p (update_first p f xs) = Some (f x)"
  by (induction xs) (auto split: if_splits)

lemma update_first_same: "find p xs = Some x \<Longrightarrow> update_first p f xs = xs \<longleftrightarrow> f x = x"
  by (induction xs) (auto split: if_splits)

lemma relay_info_same:
  "set_relay_info device_id rdv h = h \<longleftrightarrow>
    \<not> ((device_id \<noteq> None \<and> hc_device_id h \<noteq> device_id) \<or> (rdv \<noteq> None \<and> hc_rendezvous_server h \<noteq> rdv))"
  by (cases h; cases device_id; cases rdv) (auto simp: set_relay_info_def option_or_def)

lemma find_append: "find p xs = None \<Longrightarrow> find p (xs @ ys) = find p ys"
  by (induction xs) (auto split: if_splits)

text \<open>Storing what the server reported says whether it changed the configuration, and afterwards the host the user
  named has the reported values, where there are any.\<close>

theorem relay_info_stored:
  assumes "update_host_relay_info hostname device_id rdv c = (changed, c')"
  shows "(changed \<longleftrightarrow> c' \<noteq> c) \<and> (device_id = None \<and> rdv = None \<or>
    (\<exists>h. find (named hostname) (cfg_hosts c') = Some h \<and> (device_id = None \<or> hc_device_id h = device_id) \<and>
      (rdv = None \<or> hc_rendezvous_server h = rdv)))"
proof (cases "device_id = None \<and> rdv = None")
  case True
  with assms show ?thesis by (simp add: update_host_relay_info_def)
next
  case False
  let ?f = "set_relay_info device_id rdv"
  have vals: "(device_id = None \<or> hc_device_id (?f h) = device_id) \<and> (rdv = None \<or> hc_rendezvous_server (?f h) = rdv)" for h
    by (auto simp: set_relay_info_def option_or_def split: option.split)
  show ?thesis
  proof (cases "find (named hostname) (cfg_hosts c)")
    case None
    let ?h = "?f (default_host\<lparr>hc_pattern := hostname\<rparr>)"
    have c': "changed" "c' = c\<lparr>cfg_hosts := cfg_hosts c @ [?h]\<rparr>"
      using False None assms by (auto simp: update_host_relay_info_def)
    have "c' \<noteq> c" unfolding c'(2) by (cases c) simp
    moreover have "find (named hostname) (cfg_hosts c') = Some ?h"
      unfolding c'(2) by (simp add: find_append [OF None]) (simp add: named_def)
    ultimately show ?thesis using c'(1) vals by blast
  next
    case (Some h)
    have c': "changed \<longleftrightarrow> ?f h \<noteq> h" "c' = c\<lparr>cfg_hosts := update_first (named hostname) ?f (cfg_hosts c)\<rparr>"
      using False Some assms relay_info_same [of device_id rdv h] by (auto simp: update_host_relay_info_def)
    have "c' = c \<longleftrightarrow> ?f h = h" unfolding c'(2) using update_first_same [OF Some, of ?f] by (cases c) simp
    moreover have "find (named hostname) (cfg_hosts c') = Some (?f h)"
      unfolding c'(2) using find_update_first [of "named hostname" ?f, OF _ Some] by simp
    ultimately show ?thesis using c'(1) vals by blast
  qed
qed

theorem relay_info_stored_witness:
  "(True \<longleftrightarrow> snd (update_host_relay_info ''BOX'' (Some ''7'') None sample_config) \<noteq> sample_config) \<and>
   (Some ''7'' = None \<and> (None :: string option) = None \<or>
    (\<exists>h. find (named ''BOX'') (cfg_hosts (snd (update_host_relay_info ''BOX'' (Some ''7'') None sample_config))) = Some h \<and>
      (Some ''7'' = None \<or> hc_device_id h = Some ''7'') \<and> ((None :: string option) = None \<or> hc_rendezvous_server h = None)))"
proof (rule relay_info_stored)
  have "fst (update_host_relay_info ''BOX'' (Some ''7'') None sample_config) = True" by code_simp
  then show "update_host_relay_info ''BOX'' (Some ''7'') None sample_config =
      (True, snd (update_host_relay_info ''BOX'' (Some ''7'') None sample_config))" by (simp add: prod_eq_iff)
qed

text \<open>The identifier is not checked before it is written. The lines that follow its first one are lines of the file.\<close>

definition hostile_id :: "string \<Rightarrow> string \<Rightarrow> string \<Rightarrow> string" where
  "hostile_id dev pattern hostname = dev @ [CHR 0x0A] @ ''Host '' @ pattern @ [CHR 0x0A] @ ''    Hostname '' @ hostname"

lemma hosts_lines_snoc: "\<exists>pre. \<forall>x. hosts_lines gap (hs @ [x]) = pre @ host_lines x"
  by (cases hs) (auto simp: hosts_lines_def)

lemma unline_hostile:
  "unline (''    DeviceID '' @ hostile_id dev p n) =
    concat (map unline [''    DeviceID '' @ dev, ''Host '' @ p, ''    Hostname '' @ n])"
  by (simp add: unline_def hostile_id_def)

text \<open>C20. A server that the user logs in to can add any host to the configuration of the client, such as one for every other name:
  a line feed in the device identifier it reports ends the line, and what follows is read as settings.\<close>

theorem server_writes_configuration:
  assumes "ascii_case E" "config_ok c" "find (named hostname) (cfg_hosts c) = None" "config_value hostname" "config_value dev"
    and "config_value pattern" "config_value target"
    and "update_host_relay_info hostname (Some (hostile_id dev pattern target)) None c = (changed, c')"
  shows "cfg_hosts (config_parse E (config_to_string c')) =
    map saved_host (cfg_hosts c) @ [(new_host hostname)\<lparr>hc_device_id := Some dev\<rparr>, (new_host pattern)\<lparr>hc_hostname := Some target\<rparr>]"
proof -
  define x where "x = default_host\<lparr>hc_pattern := hostname, hc_device_id := Some dev\<rparr>"
  define y where "y = default_host\<lparr>hc_pattern := hostname, hc_device_id := Some (hostile_id dev pattern target)\<rparr>"
  obtain pre where pre: "\<And>x. hosts_lines (has_global c) (cfg_hosts c @ [x]) = pre @ host_lines x" using hosts_lines_snoc by blast
  have c': "c' = c\<lparr>cfg_hosts := cfg_hosts c @ [y]\<rparr>"
    using assms(3,8) by (auto simp: update_host_relay_info_def set_relay_info_def option_or_def y_def default_host_def new_host_def)
  have x: "host_ok x" "saved_host x = (new_host hostname)\<lparr>hc_device_id := Some dev\<rparr>"
    using assms(4,5) by (simp_all add: x_def host_ok_def saved_host_def default_host_def new_host_def)
  have lx: "host_lines x = [''Host '' @ hostname, ''    DeviceID '' @ dev]"
    and ly: "host_lines y = [''Host '' @ hostname, ''    DeviceID '' @ hostile_id dev pattern target]"
    by (simp_all add: x_def y_def host_lines_def opt_line_def servers_line_def default_host_def new_host_def)
  let ?rest = "[''Host '' @ pattern, ''    Hostname '' @ target]"
  let ?ls = "global_lines c @ hosts_lines (has_global c) (cfg_hosts c @ [x]) @ ?rest"
  have "config_to_string c' = concat (map unline (global_lines c @ pre @ host_lines y))"
    using pre by (simp add: config_to_string_def c' global_lines_def has_global_def)
  also have "\<dots> = concat (map unline ?ls)" unfolding pre ly lx using unline_hostile [of dev pattern target] by simp
  finally have txt_eq: "config_to_string c' = concat (map unline ?ls)" .
  have hosts: "list_all host_ok (cfg_hosts c @ [x])" using assms(2) x(1) by (simp add: config_ok_def)
  have rest: "list_all clean_line ?rest"
    using clean_key_line [of "''Host ''" pattern] clean_key_line [of "''    Hostname ''" target] assms(6,7) by simp
  have ls: "lines (config_to_string c') = ?ls"
    unfolding txt_eq using clean_global_lines [OF assms(2)] clean_hosts_lines [OF hosts] rest by (intro lines_unlines) simp
  let ?st = "fold (parse_line E) (hosts_lines (has_global c) (cfg_hosts c @ [x])) (c\<lparr>cfg_hosts := []\<rparr>, None)"
  have st: "push_host ?st = c\<lparr>cfg_hosts := map saved_host (cfg_hosts c @ [x])\<rparr>" using fold_hosts_lines [OF assms(1) hosts] by simp
  have "parse_line E (''Host '' @ pattern) ?st = (push_host ?st, Some (new_host pattern))"
    using parse_key_line [OF key_words(14) assms(1,6)] by (simp add: set_key_def)
  moreover have "parse_line E (''    Hostname '' @ target) (push_host ?st, Some (new_host pattern)) =
      (push_host ?st, Some ((new_host pattern)\<lparr>hc_hostname := Some target\<rparr>))"
    using parse_key_line [OF key_words(1) assms(1,7)] by (simp add: state_simps)
  ultimately have "fold (parse_line E) ?rest ?st = (push_host ?st, Some ((new_host pattern)\<lparr>hc_hostname := Some target\<rparr>))" by simp
  then have "config_parse E (config_to_string c') = push_host (push_host ?st, Some ((new_host pattern)\<lparr>hc_hostname := Some target\<rparr>))"
    using fold_global_lines [OF assms(1,2)] by (simp only: config_parse_def ls fold_append comp_apply)
  then show ?thesis by (simp add: push_host_def st [unfolded push_host_def] x(2))
qed

theorem server_writes_configuration_witness:
  "cfg_hosts (config_parse sample_config_env (config_to_string
      (snd (update_host_relay_info ''srv'' (Some (hostile_id ''1'' ''*'' ''evil'')) None default_config)))) =
    map saved_host (cfg_hosts default_config) @
      [(new_host ''srv'')\<lparr>hc_device_id := Some ''1''\<rparr>, (new_host ''*'')\<lparr>hc_hostname := Some ''evil''\<rparr>]"
proof (rule server_writes_configuration)
  show "ascii_case sample_config_env" by (simp add: ascii_case_def sample_config_env_def)
  show "config_ok default_config" by (simp add: config_ok_def default_config_def)
  show "update_host_relay_info ''srv'' (Some (hostile_id ''1'' ''*'' ''evil'')) None default_config =
      (fst (update_host_relay_info ''srv'' (Some (hostile_id ''1'' ''*'' ''evil'')) None default_config),
       snd (update_host_relay_info ''srv'' (Some (hostile_id ''1'' ''*'' ''evil'')) None default_config))" by simp
qed (simp_all add: default_config_def config_value_def graphic_def is_quote_def)

section \<open>Settings that are never set\<close>

text \<open>The parser has no key for the track and the automatic upgrade of a host, so no file sets them.\<close>

definition untracked :: "host_config \<Rightarrow> bool" where
  "untracked h \<longleftrightarrow> hc_track h = None \<and> hc_auto_upgrade h = None"

definition untracked_state :: "parse_state \<Rightarrow> bool" where
  "untracked_state st \<longleftrightarrow> list_all untracked (cfg_hosts (fst st)) \<and> pred_option untracked (snd st)"

lemma set_key_untracked: "untracked_state st \<Longrightarrow> untracked_state (set_key E key v st)"
  by (cases st; cases "snd st") (auto simp: state_simps untracked_state_def untracked_def new_host_def Let_def split: option.split)

lemma parse_untracked: "list_all untracked (cfg_hosts (config_parse E s))"
proof -
  have step: "untracked_state (parse_line E l st)" if "untracked_state st" for l st
    using that by (auto simp: parse_line_def Let_def set_key_untracked split: option.split)
  have "untracked_state (fold (parse_line E) ls st)" if "untracked_state st" for ls st
    using that step by (induction ls arbitrary: st) simp_all
  then have "untracked_state (fold (parse_line E) (lines s) (default_config, None))"
    by (simp add: untracked_state_def default_config_def)
  then show ?thesis
    by (auto simp: config_parse_def push_host_def untracked_state_def split: prod.split option.split)
qed

theorem track_never_set: "track_for (config_load E d) name = None \<and> auto_upgrade_for (config_load E d) name = None"
proof -
  have "list_all untracked (cfg_hosts (config_load E d))"
    using parse_untracked by (auto simp: config_load_def load_enrollment_def merge_enrollment_def default_config_def split: option.split)
  moreover have "list_all untracked hs \<Longrightarrow> find p hs = Some h \<Longrightarrow> untracked h" for p hs h
    by (induction hs) (auto split: if_splits)
  ultimately show ?thesis by (auto simp: track_for_def auto_upgrade_for_def untracked_def split: bind_splits)
qed

text \<open>With spaces around the equals sign the value begins with it, so the port is not a number and the default stays.\<close>

lemma equals_with_spaces:
  "key_value ''Port = 22'' = Some (''Port'', ''= 22'') \<and> key_value ''Port=22'' = Some (''Port'', ''22'') \<and>
   parse_uint 65536 ''= 22'' = None"
proof (intro conjI)
  show "key_value ''Port = 22'' = Some (''Port'', ''= 22'')" "key_value ''Port=22'' = Some (''Port'', ''22'')" by code_simp+
qed (simp add: parse_uint_def)

text \<open>A setting of the whole program after a host block belongs to that host, or is ignored.\<close>

lemma late_global_ignored:
  "set_key E ''enrollmenttoken'' v (c, Some h) = (c, Some h)" "set_key E ''fsspool'' v (c, Some h) = (c, Some h)"
  by (simp_all add: state_simps)

end
