(* ===== verification/Relay_Connect.thy ===== *)
theory Relay_Connect
  imports Net_Info Config_File "HOL-Library.Product_Lexorder"
begin

text \<open>
  \<open>mrsh-client/relay_connect.rs\<close>: how the client reaches a device by its identifier. The attempts it makes are
  recorded; the outcome of one (a connection, an error, a timeout) may depend on the attempts before it. The
  resolution by the rendezvous server, the probes of open ports with their durations, the interfaces of this
  machine and the tokens it knows are parameters.
\<close>

section \<open>Options and environment\<close>

record relay_options =
  device_id :: string
  rendezvous_server :: string
  rendezvous_key :: string
  server_name :: string
  opt_port :: u16
  target_port :: u16
  force_relay :: bool
  opt_enrollment_token :: string
  own_device_id :: "string option"

text \<open>The address is the text of the IP address.\<close>

record resolve_result =
  rs_addr :: "string option"
  rs_relay_server :: string
  rs_uuid :: string
  rs_encrypted_net_info :: bytes

datatype connect_attempt =
    Direct string u16
  | Relay_To string string string string

record 'c surroundings =
  sr_outcome :: "connect_attempt list \<Rightarrow> connect_attempt \<Rightarrow> 'c result"
  sr_probe :: "string \<Rightarrow> u16 \<Rightarrow> (bool \<times> nat) option"
  sr_resolve :: "string \<Rightarrow> u16 \<Rightarrow> resolve_result result"
  sr_interfaces :: "net_interface list"
  sr_known_tokens :: "string list result"
  sr_primitives :: primitives

definition P2P_TIMEOUT_SECS :: nat where "P2P_TIMEOUT_SECS = 5"

definition load_known_group_tokens :: "(string \<Rightarrow> (string \<times> string) list result) \<Rightarrow> string option \<Rightarrow> disk \<Rightarrow> string list result" where
  "load_known_group_tokens parse_json home d =
     (case home of
        None \<Rightarrow> Inl (Failed ''home dir unknown'')
      | Some h \<Rightarrow>
          (let mrsh_path = path_join (path_join h ''.mrsh'') ''groups.json'';
               rsh_path = path_join (path_join h ''.rsh'') ''groups.json'';
               path = (if fault d mrsh_path = None \<and> path_exists d mrsh_path then mrsh_path else rsh_path)
           in if \<not> (fault d path = None \<and> path_exists d path) then Inr []
              else case read_to_string d path of
                Inl e \<Rightarrow> Inl (Failed (''read '' @ path @ '': '' @ show_io e))
              | Inr text \<Rightarrow> and_then (parse_json text) (\<lambda>m. Inr (map snd m))))"

section \<open>The addresses on the local network\<close>

text \<open>The tokens to try: the explicit one first, then the known ones without repetition.\<close>

fun add_new :: "string list \<Rightarrow> string list \<Rightarrow> string list" where
  "add_new tokens [] = tokens"
| "add_new tokens (t # ts) = add_new (if t \<in> set tokens then tokens else tokens @ [t]) ts"

definition candidate_tokens :: "relay_options \<Rightarrow> string list result \<Rightarrow> string list" where
  "candidate_tokens opts known =
     (let tokens = (if opt_enrollment_token opts = [] then [] else [opt_enrollment_token opts])
      in case known of Inr ts \<Rightarrow> add_new tokens ts | Inl _ \<Rightarrow> tokens)"

text \<open>The first token that reads the blob; an error moves on, a panic does not.\<close>

fun first_readable :: "primitives \<Rightarrow> bytes \<Rightarrow> string list \<Rightarrow> network_info option result" where
  "first_readable P blob [] = Inr None"
| "first_readable P blob (t # ts) =
     (case decrypt_network_info P blob t of
        Inr (Some info) \<Rightarrow> Inr (Some info)
      | Inl Panicked \<Rightarrow> Inl Panicked
      | _ \<Rightarrow> first_readable P blob ts)"

definition lan_port :: "relay_options \<Rightarrow> network_info \<Rightarrow> u16" where
  "lan_port opts info =
     (if target_port opts \<noteq> 0 then target_port opts
      else if ni_service_port info \<noteq> 0 then ucast (ni_service_port info) else opt_port opts)"

definition candidates :: "net_interface list \<Rightarrow> net_interface list \<Rightarrow> (string \<times> string \<times> bool) list" where
  "candidates ours theirs =
     sort_key (\<lambda>(ip, name, same). \<not> same)
       (map (\<lambda>i. (ifc_ip i, ifc_name i, list_ex (\<lambda>our. same_subnet (ifc_ip our) (ifc_netmask our) (ifc_ip i) (ifc_netmask i)) ours))
         (filter (\<lambda>i. ifc_ip i \<noteq> ''127.0.0.1'' \<and> ifc_ip i \<noteq> []) theirs))"

definition reachable :: "(string \<Rightarrow> u16 \<Rightarrow> (bool \<times> nat) option) \<Rightarrow> u16 \<Rightarrow> (string \<times> string \<times> bool) list \<Rightarrow> (string \<times> bool \<times> nat) list" where
  "reachable probe port cs =
     sort_key (\<lambda>(ip, same, rtt). (\<not> same, rtt))
       (concat (map (\<lambda>(ip, name, same). case probe ip port of Some (True, rtt) \<Rightarrow> [(ip, same, rtt)] | _ \<Rightarrow> []) cs))"

section \<open>Attempts\<close>

type_synonym 'c attempted = "'c option \<times> connect_attempt list"

text \<open>One attempt after those of the log.\<close>

definition make :: "'c surroundings \<Rightarrow> connect_attempt \<Rightarrow> connect_attempt list \<Rightarrow> 'c result \<times> connect_attempt list" where
  "make S a log = (sr_outcome S log a, log @ [a])"

fun try_direct :: "'c surroundings \<Rightarrow> u16 \<Rightarrow> (string \<times> bool \<times> nat) list \<Rightarrow> connect_attempt list \<Rightarrow> 'c attempted" where
  "try_direct S port [] log = (None, log)"
| "try_direct S port ((ip, same, rtt) # more_ips) log =
     (case make S (Direct ip port) log of
        (Inr c, log1) \<Rightarrow> (Some c, log1)
      | (Inl _, log1) \<Rightarrow> try_direct S port more_ips log1)"

definition lan_phase :: "'c surroundings \<Rightarrow> relay_options \<Rightarrow> bytes \<Rightarrow> connect_attempt list \<Rightarrow> 'c attempted result" where
  "lan_phase S opts blob log =
     (if blob = [] \<or> force_relay opts then Inr (None, log)
      else and_then (first_readable (sr_primitives S) blob (candidate_tokens opts (sr_known_tokens S))) (\<lambda>decrypted.
           case decrypted of
             None \<Rightarrow> Inr (None, log)
           | Some info \<Rightarrow>
               (let port = lan_port opts info; cs = candidates (sr_interfaces S) (ni_interfaces info)
                in Inr (try_direct S port (reachable (sr_probe S) port cs) log))))"

definition relay_address :: "string \<Rightarrow> string" where
  "relay_address s = (if contains s '':'' then s else s @ '':21117'')"

definition relay_phase :: "'c surroundings \<Rightarrow> relay_options \<Rightarrow> resolve_result \<Rightarrow> connect_attempt list \<Rightarrow> 'c result \<times> connect_attempt list" where
  "relay_phase S opts res log =
     make S (Relay_To (relay_address (rs_relay_server res)) (rs_uuid res) (rendezvous_key opts) (server_name opts)) log"

definition is_self :: "relay_options \<Rightarrow> bool" where
  "is_self opts = (case own_device_id opts of Some own \<Rightarrow> own \<noteq> [] \<and> own = device_id opts | None \<Rightarrow> False)"

definition connect_resolved :: "'c surroundings \<Rightarrow> relay_options \<Rightarrow> resolve_result \<Rightarrow> 'c result \<times> connect_attempt list" where
  "connect_resolved S opts res =
          (case lan_phase S opts (rs_encrypted_net_info res) [] of
             Inl e \<Rightarrow> (Inl e, [])
           | Inr (Some c, log) \<Rightarrow> (Inr c, log)
           | Inr (None, log) \<Rightarrow>
               (case (rs_addr res, force_relay opts) of
                  (Some ip, False) \<Rightarrow>
                    (case make S (Direct ip (opt_port opts)) log of
                       (Inr c, log1) \<Rightarrow> (Inr c, log1)
                     | (Inl _, log1) \<Rightarrow>
                         if rs_relay_server res = [] then (Inl (Failed ''P2P failed and no relay server available''), log1)
                         else relay_phase S opts res log1)
                | _ \<Rightarrow>
                    if rs_relay_server res = []
                    then (Inl (Failed (''device '' @ device_id opts @ '' resolved but no address or relay available'')), log)
                    else relay_phase S opts res log))"

definition connect_via_relay :: "'c surroundings \<Rightarrow> relay_options \<Rightarrow> 'c result \<times> connect_attempt list" where
  "connect_via_relay S opts =
     (if is_self opts then make S (Direct ''127.0.0.1'' (opt_port opts)) []
      else case sr_resolve S (device_id opts) (target_port opts) of
        Inl e \<Rightarrow> (Inl e, [])
      | Inr res \<Rightarrow> connect_resolved S opts res)"

section \<open>Where the client connects to\<close>

lemma reachable_candidates: "(ip, same, rtt) \<in> set (reachable probe port cs) \<Longrightarrow> \<exists>name. (ip, name, same) \<in> set cs"
  by (auto simp: reachable_def split: option.splits bool.splits)

lemma candidates_ip: "(ip, name, same) \<in> set (candidates ours theirs) \<Longrightarrow> ip \<in> ifc_ip ` set theirs"
  by (auto simp: candidates_def)

lemma try_direct_log:
  "try_direct S port ips log = (r, log') \<Longrightarrow> \<exists>made. log' = log @ made \<and> set made \<subseteq> (\<lambda>(ip, _). Direct ip port) ` set ips"
proof (induction ips arbitrary: log)
  case (Cons i ips)
  obtain ip same rtt where i: "i = (ip, same, rtt)" by (cases i)
  show ?case
  proof (cases "sr_outcome S log (Direct ip port)")
    case (Inl e)
    with Cons.prems have "try_direct S port ips (log @ [Direct ip port]) = (r, log')" by (simp add: i make_def)
    from Cons.IH [OF this] obtain made where "log' = (log @ [Direct ip port]) @ made"
      "set made \<subseteq> (\<lambda>(ip, _). Direct ip port) ` set ips" by blast
    then show ?thesis by (intro exI [of _ "Direct ip port # made"]) (auto simp: i)
  next
    case (Inr c)
    with Cons.prems show ?thesis by (auto simp: i make_def)
  qed
qed simp

lemma try_direct_fails:
  "list_all (\<lambda>(ip, _). \<forall>log. \<exists>e. sr_outcome S log (Direct ip port) = Inl e) ips \<Longrightarrow> \<exists>log'. try_direct S port ips log = (None, log')"
proof (induction ips arbitrary: log)
  case (Cons i ips)
  obtain ip same rtt where i: "i = (ip, same, rtt)" by (cases i)
  with Cons.prems obtain e where "sr_outcome S log (Direct ip port) = Inl e" by auto
  with Cons show ?case by (simp add: i make_def)
qed simp

definition readable_info :: "'c surroundings \<Rightarrow> relay_options \<Rightarrow> bytes \<Rightarrow> network_info \<Rightarrow> bool" where
  "readable_info S opts blob info \<longleftrightarrow>
     (\<exists>t \<in> set (candidate_tokens opts (sr_known_tokens S)). decrypt_network_info (sr_primitives S) blob t = Inr (Some info))"

lemma first_readable_token:
  "first_readable P blob ts = Inr (Some info) \<Longrightarrow> \<exists>t \<in> set ts. decrypt_network_info P blob t = Inr (Some info)"
  by (induction ts) (auto split: sum.splits option.splits err.splits)

lemma lan_phase_log:
  assumes "lan_phase S opts blob [] = Inr (r, log)"
  shows "log = [] \<or> \<not> force_relay opts \<and> (\<exists>info. readable_info S opts blob info \<and>
    set log \<subseteq> (\<lambda>ip. Direct ip (lan_port opts info)) ` ifc_ip ` set (ni_interfaces info))"
proof (cases "blob = [] \<or> force_relay opts")
  case True
  with assms show ?thesis by (simp add: lan_phase_def)
next
  case False
  show ?thesis
  proof (cases "first_readable (sr_primitives S) blob (candidate_tokens opts (sr_known_tokens S))")
    case (Inl e)
    with False assms show ?thesis by (simp add: lan_phase_def)
  next
    case (Inr d)
    show ?thesis
    proof (cases d)
      case None
      with False Inr assms show ?thesis by (simp add: lan_phase_def)
    next
      case (Some info)
      let ?port = "lan_port opts info" and ?cs = "candidates (sr_interfaces S) (ni_interfaces info)"
      have "try_direct S ?port (reachable (sr_probe S) ?port ?cs) [] = (r, log)"
        using False Inr Some assms by (simp add: lan_phase_def Let_def)
      from try_direct_log [OF this] have
        "set log \<subseteq> (\<lambda>(ip, _). Direct ip ?port) ` set (reachable (sr_probe S) ?port ?cs)" by auto
      also have "\<dots> \<subseteq> (\<lambda>ip. Direct ip ?port) ` ifc_ip ` set (ni_interfaces info)"
        by (force dest!: reachable_candidates candidates_ip)
      finally have "set log \<subseteq> (\<lambda>ip. Direct ip ?port) ` ifc_ip ` set (ni_interfaces info)" .
      moreover have "readable_info S opts blob info"
        unfolding readable_info_def using first_readable_token [OF Inr [unfolded Some]] .
      ultimately show ?thesis using False by blast
    qed
  qed
qed

lemma relay_phase_log:
  "relay_phase S opts res log = (r, log') \<Longrightarrow>
   log' = log @ [Relay_To (relay_address (rs_relay_server res)) (rs_uuid res) (rendezvous_key opts) (server_name opts)]"
  by (auto simp: relay_phase_def make_def)

lemma later_attempts:
  assumes "connect_resolved S opts res = (r, log)" "lan_phase S opts (rs_encrypted_net_info res) [] = Inr (c, lan)"
  shows "\<exists>p2p relay. log = lan @ p2p @ relay \<and>
    (p2p = [] \<or> \<not> force_relay opts \<and> (\<exists>ip. rs_addr res = Some ip \<and> p2p = [Direct ip (opt_port opts)])) \<and>
    (relay = [] \<or> relay = [Relay_To (relay_address (rs_relay_server res)) (rs_uuid res) (rendezvous_key opts) (server_name opts)])"
    (is "\<exists>p2p relay. ?P p2p relay")
proof -
  let ?relay = "Relay_To (relay_address (rs_relay_server res)) (rs_uuid res) (rendezvous_key opts) (server_name opts)"
  consider (lan) x where "c = Some x" | (p2p) ip where "c = None" "rs_addr res = Some ip" "\<not> force_relay opts"
    | (rest) "c = None" "rs_addr res = None \<or> force_relay opts" by (cases c; cases "rs_addr res") auto
  then show ?thesis
  proof cases
    case lan
    with assms show ?thesis by (intro exI [of _ "[]"]) (simp add: connect_resolved_def)
  next
    case p2p
    let ?d = "Direct ip (opt_port opts)"
    consider "log = lan @ [?d]" | "log = lan @ [?d, ?relay]"
      using assms p2p by (auto simp: connect_resolved_def make_def split: sum.splits if_splits dest: relay_phase_log)
    then show ?thesis
      using p2p by cases (intro exI [of _ "[?d]"] exI [of _ "[]"], simp, intro exI [of _ "[?d]"] exI [of _ "[?relay]"], simp)
  next
    case rest
    then consider "log = lan" | "log = lan @ [?relay]"
      using assms by (cases "rs_addr res"; cases "force_relay opts")
        (auto simp: connect_resolved_def split: if_splits dest: relay_phase_log)
    then show ?thesis
      by cases (intro exI [of _ "[]"], simp, intro exI [of _ "[]"] exI [of _ "[?relay]"], simp)
  qed
qed

lemma resolved_attempts:
  assumes log: "connect_resolved S opts res = (r, log)"
  shows "\<exists>lan p2p relay. log = lan @ p2p @ relay \<and>
    (lan = [] \<or> \<not> force_relay opts \<and> (\<exists>info. readable_info S opts (rs_encrypted_net_info res) info \<and>
      set lan \<subseteq> (\<lambda>ip. Direct ip (lan_port opts info)) ` ifc_ip ` set (ni_interfaces info))) \<and>
    (p2p = [] \<or> \<not> force_relay opts \<and> (\<exists>ip. rs_addr res = Some ip \<and> p2p = [Direct ip (opt_port opts)])) \<and>
    (relay = [] \<or> relay = [Relay_To (relay_address (rs_relay_server res)) (rs_uuid res) (rendezvous_key opts) (server_name opts)])"
proof (cases "lan_phase S opts (rs_encrypted_net_info res) []")
  case (Inl e)
  with log have "log = []" by (simp add: connect_resolved_def)
  then show ?thesis by simp
next
  case (Inr q)
  obtain c lan where q: "q = (c, lan)" by (cases q)
  from later_attempts [OF log Inr [unfolded q]] lan_phase_log [OF Inr [unfolded q]] show ?thesis by blast
qed

text \<open>C23. Where the client connects to: when the device it asks for is its own, to itself and nowhere else; when the
  rendezvous server does not resolve the device, nowhere; otherwise, in this order, to interface addresses of
  network information that one of its group tokens opens, the address the rendezvous server gave, and last
  the relay it gave; with \<open>force_relay\<close> only the relay.\<close>

theorem connect_attempts:
  assumes "connect_via_relay S opts = (r, log)"
  shows "if device_id opts \<noteq> [] \<and> own_device_id opts = Some (device_id opts)
    then log = [Direct ''127.0.0.1'' (opt_port opts)]
    else case sr_resolve S (device_id opts) (target_port opts) of
      Inl e \<Rightarrow> r = Inl e \<and> log = []
    | Inr res \<Rightarrow> \<exists>lan p2p relay. log = lan @ p2p @ relay \<and>
        (lan = [] \<or> \<not> force_relay opts \<and> (\<exists>info. readable_info S opts (rs_encrypted_net_info res) info \<and>
          set lan \<subseteq> (\<lambda>ip. Direct ip (lan_port opts info)) ` ifc_ip ` set (ni_interfaces info))) \<and>
        (p2p = [] \<or> \<not> force_relay opts \<and> (\<exists>ip. rs_addr res = Some ip \<and> p2p = [Direct ip (opt_port opts)])) \<and>
        (relay = [] \<or> relay = [Relay_To (relay_address (rs_relay_server res)) (rs_uuid res) (rendezvous_key opts) (server_name opts)])"
proof -
  have self_iff: "is_self opts \<longleftrightarrow> device_id opts \<noteq> [] \<and> own_device_id opts = Some (device_id opts)"
    by (auto simp: is_self_def split: option.splits)
  consider (self) "is_self opts"
    | (unresolved) e where "\<not> is_self opts" "sr_resolve S (device_id opts) (target_port opts) = Inl e"
    | (resolved) res where "\<not> is_self opts" "sr_resolve S (device_id opts) (target_port opts) = Inr res"
    by (cases "sr_resolve S (device_id opts) (target_port opts)") auto
  then show ?thesis
  proof cases
    case self
    with assms self_iff show ?thesis by (auto simp: connect_via_relay_def make_def)
  next
    case unresolved
    with assms self_iff show ?thesis by (auto simp: connect_via_relay_def)
  next
    case resolved
    with assms have "connect_resolved S opts res = (r, log)" by (simp add: connect_via_relay_def)
    from resolved_attempts [OF this] resolved self_iff show ?thesis by auto
  qed
qed

definition sample_options :: relay_options where
  "sample_options = \<lparr>device_id = ''118855822'', rendezvous_server = ''rdv:21116'', rendezvous_key = ''k'', server_name = ''host'',
     opt_port = 8822, target_port = 8822, force_relay = False, opt_enrollment_token = [], own_device_id = None\<rparr>"

definition sample_resolved :: resolve_result where
  "sample_resolved = \<lparr>rs_addr = Some ''203.0.113.9'', rs_relay_server = ''relay'', rs_uuid = ''u'', rs_encrypted_net_info = []\<rparr>"

text \<open>Only the relay answers.\<close>

definition sample_surroundings :: "unit surroundings" where
  "sample_surroundings = \<lparr>sr_outcome = (\<lambda>log a. case a of Direct _ _ \<Rightarrow> Inl (Failed ''refused'') | Relay_To _ _ _ _ \<Rightarrow> Inr ()),
     sr_probe = (\<lambda>ip port. None), sr_resolve = (\<lambda>dev port. Inr sample_resolved), sr_interfaces = [], sr_known_tokens = Inr [],
     sr_primitives = toy_primitives\<rparr>"

lemmas sample_defs = sample_options_def sample_resolved_def sample_surroundings_def

theorem connect_attempts_witness:
  "\<exists>lan p2p relay. [Direct ''203.0.113.9'' 8822, Relay_To ''relay:21117'' ''u'' ''k'' ''host''] = lan @ p2p @ relay \<and>
    (lan = [] \<or> \<not> force_relay sample_options \<and> (\<exists>info. readable_info sample_surroundings sample_options (rs_encrypted_net_info sample_resolved) info \<and>
      set lan \<subseteq> (\<lambda>ip. Direct ip (lan_port sample_options info)) ` ifc_ip ` set (ni_interfaces info))) \<and>
    (p2p = [] \<or> \<not> force_relay sample_options \<and> (\<exists>ip. rs_addr sample_resolved = Some ip \<and> p2p = [Direct ip (opt_port sample_options)])) \<and>
    (relay = [] \<or> relay = [Relay_To (relay_address (rs_relay_server sample_resolved)) (rs_uuid sample_resolved)
      (rendezvous_key sample_options) (server_name sample_options)])"
proof -
  have "connect_via_relay sample_surroundings sample_options =
    (Inr (), [Direct ''203.0.113.9'' 8822, Relay_To ''relay:21117'' ''u'' ''k'' ''host''])" by code_simp
  from connect_attempts [OF this]
  have "case sr_resolve sample_surroundings (device_id sample_options) (target_port sample_options) of
      Inl e \<Rightarrow> Inr () = (Inl e :: unit result) \<and> [Direct ''203.0.113.9'' 8822, Relay_To ''relay:21117'' ''u'' ''k'' ''host''] = []
    | Inr res \<Rightarrow> \<exists>lan p2p relay. [Direct ''203.0.113.9'' 8822, Relay_To ''relay:21117'' ''u'' ''k'' ''host''] = lan @ p2p @ relay \<and>
        (lan = [] \<or> \<not> force_relay sample_options \<and> (\<exists>info. readable_info sample_surroundings sample_options (rs_encrypted_net_info res) info \<and>
          set lan \<subseteq> (\<lambda>ip. Direct ip (lan_port sample_options info)) ` ifc_ip ` set (ni_interfaces info))) \<and>
        (p2p = [] \<or> \<not> force_relay sample_options \<and> (\<exists>ip. rs_addr res = Some ip \<and> p2p = [Direct ip (opt_port sample_options)])) \<and>
        (relay = [] \<or> relay = [Relay_To (relay_address (rs_relay_server res)) (rs_uuid res) (rendezvous_key sample_options) (server_name sample_options)])"
    by (simp only: sample_options_def relay_options.simps option.simps simp_thms if_False)
  moreover have "sr_resolve sample_surroundings (device_id sample_options) (target_port sample_options) = Inr sample_resolved"
    by (simp add: sample_surroundings_def)
  ultimately show ?thesis by (simp only: sum.case)
qed

text \<open>The relay is a fallback that always remains: when every direct connection fails (and no blob makes the
  decryption panic), a resolved device with a relay server is reached through the relay if the relay is.\<close>

theorem relay_is_fallback:
  assumes "\<not> is_self opts" "sr_resolve S (device_id opts) (target_port opts) = Inr res"
    and "rs_relay_server res \<noteq> []" "\<And>log ip port. \<exists>e. sr_outcome S log (Direct ip port) = Inl e"
    and "\<And>log uuid key name. sr_outcome S log (Relay_To (relay_address (rs_relay_server res)) uuid key name) = Inr c"
    and "\<And>t. decrypt_network_info (sr_primitives S) (rs_encrypted_net_info res) t \<noteq> Inl Panicked"
  shows "fst (connect_via_relay S opts) = Inr c"
proof -
  have cr: "connect_via_relay S opts = connect_resolved S opts res" using assms(1,2) by (simp add: connect_via_relay_def)
  have "\<exists>d. first_readable (sr_primitives S) (rs_encrypted_net_info res) ts = Inr d" for ts
    using assms(6) by (induction ts) (auto split: sum.splits option.splits err.splits)
  then obtain d where d: "first_readable (sr_primitives S) (rs_encrypted_net_info res) (candidate_tokens opts (sr_known_tokens S)) = Inr d" by blast
  have "list_all (\<lambda>(ip, _). \<forall>log. \<exists>e. sr_outcome S log (Direct ip port) = Inl e) ips" for ips port
    using assms(4) by (auto simp: list_all_iff)
  note fails = try_direct_fails [OF this]
  have "\<exists>log. lan_phase S opts (rs_encrypted_net_info res) [] = Inr (None, log)"
    using fails by (auto simp: lan_phase_def d Let_def split: option.split)
  then obtain log where l: "lan_phase S opts (rs_encrypted_net_info res) [] = Inr (None, log)" by blast
  show ?thesis
  proof (cases "\<exists>ip. rs_addr res = Some ip \<and> \<not> force_relay opts")
    case True
    then obtain ip where ip: "rs_addr res = Some ip" "\<not> force_relay opts" by blast
    obtain e where "sr_outcome S log (Direct ip (opt_port opts)) = Inl e" using assms(4) by blast
    with ip l assms(3,5) show ?thesis unfolding cr by (simp add: connect_resolved_def relay_phase_def make_def)
  next
    case False
    with l assms(3,5) show ?thesis
      unfolding cr by (cases "rs_addr res"; cases "force_relay opts") (simp_all add: connect_resolved_def relay_phase_def make_def)
  qed
qed

theorem relay_is_fallback_witness: "fst (connect_via_relay sample_surroundings sample_options) = Inr ()"
proof (rule relay_is_fallback)
  show "\<not> is_self sample_options" by (simp add: is_self_def sample_defs)
  show "sr_resolve sample_surroundings (device_id sample_options) (target_port sample_options) = Inr sample_resolved"
    by (simp add: sample_surroundings_def)
  show "decrypt_network_info (sr_primitives sample_surroundings) (rs_encrypted_net_info sample_resolved) t \<noteq> Inl Panicked" for t
    by (simp add: sample_defs decrypt_network_info_def toy_primitives_def)
qed (simp_all add: sample_defs)

section \<open>Options from the configuration\<close>

definition relay_options_from_config :: "host_config \<Rightarrow> config \<Rightarrow> relay_options option" where
  "relay_options_from_config h c =
     map_option (\<lambda>dev.
       \<lparr>device_id = dev,
        rendezvous_server = (case cfg_rendezvous_server c of Some s \<Rightarrow> s | None \<Rightarrow> ''rdv.example.com:21116''),
        rendezvous_key = (case cfg_rendezvous_key c of Some k \<Rightarrow> k | None \<Rightarrow> []),
        server_name = (case hc_hostname h of Some n \<Rightarrow> n | None \<Rightarrow> hc_pattern h),
        opt_port = hc_port h, target_port = hc_port h, force_relay = False, opt_enrollment_token = [],
        own_device_id = cfg_device_id c\<rparr>) (hc_device_id h)"

text \<open>A host entry with the identifier of this machine never leaves it.\<close>

lemma own_host_stays_local:
  assumes "hc_device_id h = Some dev" "cfg_device_id c = Some dev" "dev \<noteq> []" "relay_options_from_config h c = Some opts"
  shows "snd (connect_via_relay S opts) = [Direct ''127.0.0.1'' (hc_port h)]"
  using assms by (auto simp: relay_options_from_config_def connect_via_relay_def is_self_def make_def)

text \<open>The rendezvous server that a login stores for a host is not the one that is asked.\<close>

lemma stored_rendezvous_unused:
  "relay_options_from_config (set_relay_info None rdv h) c = relay_options_from_config h c"
proof -
  have "hc_device_id (set_relay_info None rdv h) = hc_device_id h" "hc_hostname (set_relay_info None rdv h) = hc_hostname h"
    "hc_pattern (set_relay_info None rdv h) = hc_pattern h" "hc_port (set_relay_info None rdv h) = hc_port h"
    by (simp_all add: set_relay_info_def option_or_def)
  then show ?thesis by (simp only: relay_options_from_config_def)
qed

end
