(* ===== verification/Relay_Codec.thy ===== *)
theory Relay_Codec
  imports Framing
begin

text \<open>
  The variable-length framing of \<open>mrsh-relay/src/codec.rs\<close>: a header of one to four little-endian
  bytes whose low two bits give the header's length and whose other bits give the payload's length.
\<close>

definition MAX_PAYLOAD :: nat where
  "MAX_PAYLOAD = 50 * 1024 * 1024"

text \<open>
  \<open>encode_frame\<close>: the casts \<open>as u8\<close>, \<open>as u16\<close> and \<open>as u32\<close> keep the low bytes, which is what
  \<open>le_bytes\<close> writes; a length of \<open>2 ^ 30\<close> or more therefore loses its high bits.
\<close>

definition encode_frame :: "bytes \<Rightarrow> bytes" where
  "encode_frame payload =
     (let len = length payload; shifted = push_bit 2 len
      in if len \<le> 0x3F then le_bytes 1 shifted @ payload
         else if len \<le> 0x3FFF then le_bytes 2 (shifted OR 1) @ payload
         else if len \<le> 0x3FFFFF then le_bytes 3 (shifted OR 2) @ payload
         else le_bytes 4 (shifted OR 3) @ payload)"

text \<open>The header value of \<open>decode_frame\<close>, read byte by byte as the match on \<open>hdr_size\<close> does.\<close>

definition read_header :: "bytes \<Rightarrow> (nat \<times> bytes) result" where
  "read_header s =
     and_then (read_exact 1 s) (\<lambda>(b, s1).
       let b0 = hd b; hdr_size = unat (b0 AND 3) + 1
       in if hdr_size = 1 then Inr (unat b0, s1)
          else if hdr_size = 2
          then and_then (read_exact 1 s1) (\<lambda>(b1, s2). Inr (from_le [b0, hd b1], s2))
          else if hdr_size = 3
          then and_then (read_exact 2 s1) (\<lambda>(rest, s2).
                 Inr (unat b0 OR push_bit 8 (unat (rest ! 0)) OR push_bit 16 (unat (rest ! 1)), s2))
          else and_then (read_exact 3 s1) (\<lambda>(rest, s2).
                 Inr (from_le [b0, rest ! 0, rest ! 1, rest ! 2], s2)))"

definition decode_frame :: "bytes \<Rightarrow> (bytes \<times> bytes) result" where
  "decode_frame s =
     and_then (read_header s) (\<lambda>(header_val, s1).
       let payload_len = drop_bit 2 header_val
       in if payload_len = 0 then Inr ([], s1)
          else if MAX_PAYLOAD < payload_len then Inl (MessageTooLarge payload_len)
          else read_exact payload_len s1)"

definition codec_sendable :: "bytes \<Rightarrow> bool" where
  "codec_sendable payload \<longleftrightarrow> length payload \<le> MAX_PAYLOAD"

section \<open>Headers\<close>

definition header_value :: "nat \<Rightarrow> nat \<Rightarrow> nat" where
  "header_value k len = 4 * len + (k - 1)"

lemma push_bit_or: "c < 4 \<Longrightarrow> push_bit 2 len OR c = 4 * len + (c :: nat)"
  using or_push_bit_add [of c 2 len] by (simp add: or.commute)

text \<open>The writer chooses the shortest header that holds the length.\<close>

definition header_size :: "nat \<Rightarrow> nat" where
  "header_size len = (if len \<le> 0x3F then 1 else if len \<le> 0x3FFF then 2
     else if len \<le> 0x3FFFFF then 3 else 4)"

lemma encode_frame_header:
  "encode_frame payload =
     le_bytes (header_size (length payload))
       (header_value (header_size (length payload)) (length payload)) @ payload"
  unfolding encode_frame_def header_size_def header_value_def Let_def
  by (simp only: push_bit_or split: if_split) (simp add: push_bit_eq_mult mult.commute)

text \<open>The reader takes the little-endian value of as many bytes as the low two bits ask for.\<close>

lemma from_le_3:
  "unat (a :: byte) OR push_bit 8 (unat (b :: byte)) OR push_bit 16 (unat (c :: byte))
     = from_le [a, b, c]"
proof -
  have ab: "unat a OR push_bit 8 (unat b) = unat a + 256 * unat b"
    using or_push_bit_add [of "unat a" 8] by simp
  have "unat a + 256 * unat b < 65536"
    using unat_byte_less [of a] unat_byte_less [of b] by linarith
  then have "(unat a + 256 * unat b) OR push_bit 16 (unat c) = unat a + 256 * unat b + 65536 * unat c"
    using or_push_bit_add [of "unat a + 256 * unat b" 16] by simp
  then show ?thesis by (simp add: or.assoc [symmetric] ab from_le_def from_be_def)
qed

lemma read_header_step:
  "read_header (b0 # s1) =
     (case unat b0 mod 4 of
        0 \<Rightarrow> Inr (from_le [b0], s1)
      | Suc k \<Rightarrow> and_then (read_exact (Suc k) s1) (\<lambda>(r, s2). Inr (from_le (b0 # r), s2)))"
proof -
  have lt: "unat b0 mod 4 < 4" by simp
  then consider "unat b0 mod 4 = 0" | "unat b0 mod 4 = 1" | "unat b0 mod 4 = 2" | "unat b0 mod 4 = 3"
    by linarith
  then show ?thesis
  proof cases
    case 1
    then show ?thesis
      by (simp add: read_header_def read_exact_def unat_and_3 from_le_def from_be_def)
  next
    case 2
    then show ?thesis
      by (cases s1) (simp_all add: read_header_def read_exact_def unat_and_3)
  next
    case 3
    then show ?thesis
      by (cases s1; cases "tl s1")
        (simp_all add: read_header_def read_exact_def unat_and_3 from_le_3 numeral_2_eq_2)
  next
    case 4
    then show ?thesis
      by (cases s1; cases "tl s1"; cases "tl (tl s1)")
        (simp_all add: read_header_def read_exact_def unat_and_3 numeral_3_eq_3)
  qed
qed

lemma read_header_le_bytes:
  assumes "v mod 4 = k" "v < 256 ^ Suc k"
  shows "read_header (le_bytes (Suc k) v @ rest) = Inr (v, rest)"
proof -
  have "unat (word_of_nat v :: byte) mod 4 = k"
    using assms(1) by (simp add: mod_mod_cancel)
  moreover have "from_le (word_of_nat v # le_bytes k (v div 256)) = v"
    using assms(2) from_le_le_bytes [of "Suc k" v] by (simp add: le_bytes_Suc)
  ultimately have "read_header (word_of_nat v # le_bytes k (v div 256) @ rest) = Inr (v, rest)"
    unfolding read_header_step by (cases k) (simp_all del: unat_byte_of_nat)
  then show ?thesis by (simp only: le_bytes_Suc append_Cons)
qed

lemma read_header_mono:
  "read_header s = Inr (v, r) \<Longrightarrow> read_header (s @ t) = Inr (v, r @ t)"
proof (cases s)
  case Nil
  then show "read_header s = Inr (v, r) \<Longrightarrow> read_header (s @ t) = Inr (v, r @ t)"
    by (simp add: read_header_def read_exact_def)
next
  case (Cons b0 s1)
  then show "read_header s = Inr (v, r) \<Longrightarrow> read_header (s @ t) = Inr (v, r @ t)"
    by (auto simp: read_header_step result_simps read_exact_mono split: nat.splits)
qed

lemma header_value_bounds:
  assumes "len \<le> MAX_PAYLOAD"
  shows "\<exists>k. header_size len = Suc k \<and> header_value (Suc k) len mod 4 = k
           \<and> header_value (Suc k) len < 256 ^ Suc k \<and> drop_bit 2 (header_value (Suc k) len) = len"
proof -
  have "header_value k len div 4 = len \<and> header_value k len mod 4 = k - 1" if "k \<le> 4" for k
    using that by (auto simp: header_value_def)
  then show ?thesis
    using assms
    by (auto simp: header_size_def header_value_def MAX_PAYLOAD_def drop_bit_eq_div)
qed

section \<open>The relay codec is a framing\<close>

lemma decode_encode_frame:
  assumes "codec_sendable payload"
  shows "decode_frame (encode_frame payload @ rest) = Inr (payload, rest)"
proof -
  from assms obtain k where k: "header_size (length payload) = Suc k"
    "header_value (Suc k) (length payload) mod 4 = k"
    "header_value (Suc k) (length payload) < 256 ^ Suc k"
    "drop_bit 2 (header_value (Suc k) (length payload)) = length payload"
    using header_value_bounds [of "length payload"] by (auto simp: codec_sendable_def)
  have "read_header (encode_frame payload @ rest)
          = Inr (header_value (Suc k) (length payload), payload @ rest)"
    using read_header_le_bytes [OF k(2,3), of "payload @ rest"] by (simp add: encode_frame_header k(1))
  then show ?thesis
    using assms by (simp add: decode_frame_def k(4) codec_sendable_def Let_def)
qed

lemma decode_frame_mono:
  assumes "decode_frame s = Inr (m, r)"
  shows "decode_frame (s @ t) = Inr (m, r @ t)"
proof -
  from assms obtain v s1 where h: "read_header s = Inr (v, s1)"
    by (auto simp: decode_frame_def result_simps)
  from read_header_mono [OF this] h assms show ?thesis
    by (auto simp: decode_frame_def Let_def read_exact_mono split: if_splits)
qed

interpretation codec: framing encode_frame decode_frame codec_sendable
  by unfold_locales (rule decode_encode_frame, assumption, rule decode_frame_mono)

end
