(* ===== verification/Rdv_Proto.thy ===== *)
theory Rdv_Proto
  imports Rust_Str Net_Addr
begin

text \<open>
  The messages of the rendezvous and relay protocol, \<open>proto/rdv.proto\<close>, as the Rust code sees them
  after decoding, and the packing of socket addresses of \<open>mrsh-relay/src/rendezvous/protocol.rs\<close>.
  Fields that the program neither reads nor sets are left out. The protobuf encoding itself is
  generated code, a parameter where it is used.
\<close>

section \<open>Messages\<close>

type_synonym sock_addr = "ip_addr \<times> u16"

record port_info =
  pi_port :: u32
  pi_instance_type :: string
  pi_caps :: "string list"

record register_peer =
  rp_id :: string
  rp_group_hash :: string
  rp_hostname :: string
  rp_platform :: string
  rp_service_port :: u32
  rp_encrypted_net_info :: bytes
  rp_ports :: "port_info list"
  rp_current_version :: string
  rp_last_update_status :: string
  rp_last_update_at_unix :: int
  rp_track :: string
  rp_auto_upgrade :: bool

record punch_hole_request =
  phr_id :: string
  phr_licence_key :: string

datatype punch_failure = Id_Not_Exist | License_Mismatch

text \<open>An answer without failure has the default value of the enumeration, \<open>Id_Not_Exist\<close>.\<close>

record punch_hole_response =
  phs_socket_addr :: bytes
  phs_failure :: punch_failure
  phs_relay_server :: string
  phs_encrypted_net_info :: bytes
  phs_ports :: "port_info list"

record fetch_local_addr =
  fla_socket_addr :: bytes
  fla_relay_server :: string
  fla_encrypted_net_info :: bytes

record relay_request =
  rr_id :: string
  rr_uuid :: string
  rr_relay_server :: string
  rr_licence_key :: string
  rr_target_port :: u32

record relay_response =
  rl_uuid :: string
  rl_relay_server :: string
  rl_socket_addr :: bytes
  rl_target_port :: u32

record health_response =
  hr_timestamp :: u64
  hr_peers_online :: u32
  hr_relays_active :: u32
  hr_version :: string

record group_query =
  gq_group_hash :: string
  gq_hmac_proof :: bytes
  gq_nonce :: u64

record group_peer =
  gp_device_id :: string
  gp_hostname :: string
  gp_platform :: string
  gp_socket_addr :: bytes
  gp_last_seen_secs :: u64
  gp_service_port :: u32
  gp_ports :: "port_info list"
  gp_encrypted_net_info :: bytes
  gp_current_version :: string
  gp_last_update_status :: string
  gp_last_update_at_unix :: int
  gp_track :: string
  gp_auto_upgrade :: bool

record version_advert =
  va_platform :: string
  va_track :: string
  va_latest_version :: string
  va_download_url :: string
  va_signature :: bytes
  va_published_at_unix :: int

record publish_version_request =
  pv_advert :: "version_advert option"
  pv_binary_blob :: bytes
  pv_operator_signature :: bytes

record query_version_request =
  qv_platform :: string
  qv_track :: string
  qv_current_version :: string

record fetch_binary_request =
  fb_platform :: string
  fb_track :: string
  fb_version :: string

record fetch_binary_response =
  fr_found :: bool
  fr_binary_blob :: bytes
  fr_signature :: bytes
  fr_error_message :: string

datatype rendezvous_union =
    Register_Peer register_peer
  | Register_Peer_Response bool
  | Register_Pk
  | Register_Pk_Response int
  | Punch_Hole_Request punch_hole_request
  | Punch_Hole_Response punch_hole_response
  | Fetch_Local_Addr fetch_local_addr
  | Request_Relay relay_request
  | Relay_Response relay_response
  | Health_Check
  | Health_Response health_response
  | Group_Query group_query
  | Group_Query_Response "group_peer list"
  | List_Peers string
  | List_Peers_Response "group_peer list"
  | Publish_Version_Request publish_version_request
  | Publish_Version_Response bool string
  | Query_Version_Request query_version_request
  | Query_Version_Response bool "version_advert option"
  | Fetch_Binary_Request fetch_binary_request
  | Fetch_Binary_Response fetch_binary_response
  | Other_Union

section \<open>Device identifiers\<close>

definition is_ascii_alphabetic :: "char \<Rightarrow> bool" where
  "is_ascii_alphabetic c = (let n = (of_char c :: nat) in 65 \<le> n \<and> n \<le> 90 \<or> 97 \<le> n \<and> n \<le> 122)"

definition is_ascii_digit :: "char \<Rightarrow> bool" where
  "is_ascii_digit c = (let n = (of_char c :: nat) in 48 \<le> n \<and> n \<le> 57)"

fun device_id_scan :: "bool \<Rightarrow> bool \<Rightarrow> string \<Rightarrow> bool" where
  "device_id_scan has_digit past_letters [] = has_digit"
| "device_id_scan has_digit past_letters (ch # cs) =
     (if is_ascii_alphabetic ch then if past_letters then False else device_id_scan has_digit past_letters cs
      else if is_ascii_digit ch then device_id_scan True True cs
      else False)"

definition is_device_id :: "string \<Rightarrow> bool" where
  "is_device_id s \<longleftrightarrow>
     \<not> (s = [] \<or> CHR ''.'' \<in> set s \<or> CHR '':'' \<in> set s) \<and> device_id_scan False False s"

section \<open>Packed socket addresses\<close>

text \<open>\<open>tm\<close> is the current time in seconds, cut to 32 bits.\<close>

definition pack_addr :: "u32 \<Rightarrow> u16 \<Rightarrow> u32 \<Rightarrow> 128 word" where
  "pack_addr ip_enc port_enc tm =
     ucast port_enc OR push_bit 17 (ucast tm) OR push_bit 49 (ucast ip_enc)"

text \<open>The bytes up to the last one that is not zero, at least four.\<close>

definition significant :: "bytes \<Rightarrow> nat" where
  "significant bs = max 4 (case filter (\<lambda>i. bs ! i \<noteq> 0) [0..<length bs] of [] \<Rightarrow> 4 | is \<Rightarrow> last is + 1)"

definition encode_socket_addr :: "u32 \<Rightarrow> sock_addr \<Rightarrow> bytes" where
  "encode_socket_addr tm addr =
     (case addr of
        (V4 a b c d, port) \<Rightarrow>
          let ip32 = (word_of_nat (from_le [a, b, c, d]) :: u32);
              ip_enc = ip32 + tm;
              port_enc = port + ucast (tm AND 0xFFFF);
              bs = le_bytes 16 (unat (pack_addr ip_enc port_enc tm))
          in take (significant bs) bs
      | (V6 _, _) \<Rightarrow> [0, 0, 0, 0])"

definition decode_socket_addr :: "bytes \<Rightarrow> sock_addr result" where
  "decode_socket_addr data =
     (if length data < 4 \<or> 16 < length data then Inl (Failed ''invalid AddrMangle length'')
      else
        let padded = data @ replicate (16 - length data) 0;
            lo = (word_of_nat (from_le (take 8 padded)) :: u64);
            hi = (word_of_nat (from_le (drop 8 padded)) :: u64);
            tm = (ucast (drop_bit 17 lo OR push_bit 47 hi) :: u32);
            ip_raw = (ucast (drop_bit 49 lo OR push_bit 15 hi) :: u32);
            ip32 = ip_raw - tm;
            port = (ucast (lo AND 0xFFFFFF) :: u16) - ucast (tm AND 0xFFFF)
        in case le_bytes 4 (unat ip32) of
             [a, b, c, d] \<Rightarrow> Inr (V4 a b c d, port)
           | _ \<Rightarrow> Inl Panicked)"

section \<open>Packing round trip\<close>

lemma le_bytes_add: "le_bytes (j + k) n = le_bytes j n @ le_bytes k (n div 256 ^ j)"
proof (induction j arbitrary: n)
  case (Suc j)
  show ?case by (simp add: le_bytes_Suc Suc div_mult2_eq)
qed simp

lemma sorted_last: "x \<in> set xs \<Longrightarrow> sorted xs \<Longrightarrow> x \<le> last xs"
  by (induction xs rule: rev_induct) (auto simp: sorted_append)

lemma significant_pad:
  assumes "length bs = 16"
  shows "take (significant bs) bs @ replicate (16 - length (take (significant bs) bs)) 0 = bs"
    and "4 \<le> length (take (significant bs) bs)" and "length (take (significant bs) bs) \<le> 16"
proof -
  have zero: "bs ! i = 0" if "significant bs \<le> i" "i < 16" for i
  proof (rule ccontr)
    assume "bs ! i \<noteq> 0"
    let ?is = "filter (\<lambda>i. bs ! i \<noteq> 0) [0..<16]"
    have i: "i \<in> set ?is" using \<open>bs ! i \<noteq> 0\<close> that by simp
    moreover have sorted: "sorted ?is" by (rule sorted_wrt_filter) simp
    ultimately have "i \<le> last ?is" by (rule sorted_last)
    moreover have "?is \<noteq> []" using i by (metis empty_iff list.set(1))
    ultimately have "i < significant bs"
      using assms by (auto simp: significant_def split: list.split)
    with that show False by simp
  qed
  show "take (significant bs) bs @ replicate (16 - length (take (significant bs) bs)) 0 = bs"
    by (rule nth_equalityI) (use assms zero in \<open>auto simp: nth_append min_def\<close>)
  have "4 \<le> significant bs" by (simp add: significant_def)
  with assms show "4 \<le> length (take (significant bs) bs)" and "length (take (significant bs) bs) \<le> 16" by simp_all
qed

lemma unpack_addr:
  "(ucast (drop_bit 17 (ucast (pack_addr ip_enc port_enc tm) :: u64)
      OR push_bit 47 (ucast (drop_bit 64 (pack_addr ip_enc port_enc tm)))) :: u32) = tm"
  "(ucast (drop_bit 49 (ucast (pack_addr ip_enc port_enc tm) :: u64)
      OR push_bit 15 (ucast (drop_bit 64 (pack_addr ip_enc port_enc tm)))) :: u32) = ip_enc"
  "(ucast ((ucast (pack_addr ip_enc port_enc tm) :: u64) AND 0xFFFFFF) :: u16) = port_enc"
proof -
  have mask: "(0xFFFFFF :: u64) = mask 24" by (simp add: mask_eq_exp_minus_1)
  show "(ucast (drop_bit 17 (ucast (pack_addr ip_enc port_enc tm) :: u64)
      OR push_bit 47 (ucast (drop_bit 64 (pack_addr ip_enc port_enc tm)))) :: u32) = tm"
    by (rule bit_word_eqI) (auto simp: pack_addr_def bit_simps dest: bit_imp_le_length)
  show "(ucast (drop_bit 49 (ucast (pack_addr ip_enc port_enc tm) :: u64)
      OR push_bit 15 (ucast (drop_bit 64 (pack_addr ip_enc port_enc tm)))) :: u32) = ip_enc"
    by (rule bit_word_eqI) (auto simp: pack_addr_def bit_simps dest: bit_imp_le_length)
  show "(ucast ((ucast (pack_addr ip_enc port_enc tm) :: u64) AND 0xFFFFFF) :: u16) = port_enc"
    unfolding mask by (rule bit_word_eqI) (auto simp: pack_addr_def bit_simps dest: bit_imp_le_length)
qed

lemma word_halves:
  "(word_of_nat (unat (v :: 128 word) mod 256 ^ 8) :: u64) = ucast v"
  "(word_of_nat (unat v div 256 ^ 8 mod 256 ^ 8) :: u64) = ucast (drop_bit 64 v)"
proof -
  show "(word_of_nat (unat v mod 256 ^ 8) :: u64) = ucast v"
    by (simp add: word_unat_eq_iff unat_of_nat unsigned_ucast_eq take_bit_eq_mod)
  have "unat (drop_bit 64 v) = unat v div 2 ^ 64" by (subst unat_drop_bit_eq) (rule drop_bit_eq_div)
  then show "(word_of_nat (unat v div 256 ^ 8 mod 256 ^ 8) :: u64) = ucast (drop_bit 64 v)"
    by (simp only: word_unat_eq_iff unat_of_nat unsigned_ucast_eq) (simp add: take_bit_eq_mod)
qed

lemma le_bytes_4: "le_bytes 4 (unat (word_of_nat (from_le [a, b, c, d]) :: u32)) = [a, b, c, d]"
proof -
  have "from_le [a, b, c, d] < 4294967296" using from_le_less [of "[a, b, c, d]"] by simp
  then show ?thesis using le_bytes_from_le [of "[a, b, c, d]" 4] by (simp add: unat_of_nat)
qed

text \<open>A packed address is read back whatever the time of packing: for every IPv4 address, port and
  obfuscation value, decoding the trimmed bytes gives the address and the port again, with the
  additions wrapping around.\<close>

theorem socket_addr_roundtrip:
  "decode_socket_addr (encode_socket_addr tm (V4 a b c d, port)) = Inr (V4 a b c d, port)"
proof -
  define ip32 where "ip32 = (word_of_nat (from_le [a, b, c, d]) :: u32)"
  define v where "v = pack_addr (ip32 + tm) (port + ucast (tm AND 0xFFFF)) tm"
  define bs where "bs = le_bytes 16 (unat v)"
  define data where "data = take (significant bs) bs"
  have len: "length bs = 16" by (simp add: bs_def)
  note pad = significant_pad [OF len, folded data_def]
  have halves: "take 8 bs = le_bytes 8 (unat v)" "drop 8 bs = le_bytes 8 (unat v div 256 ^ 8)"
    using le_bytes_add [of 8 8 "unat v"] by (simp_all add: bs_def)
  have lo: "(word_of_nat (from_le (take 8 bs)) :: u64) = ucast v"
    unfolding halves from_le_le_bytes by (rule word_halves(1))
  have hi: "(word_of_nat (from_le (drop 8 bs)) :: u64) = ucast (drop_bit 64 v)"
    unfolding halves from_le_le_bytes by (rule word_halves(2))
  have e: "encode_socket_addr tm (V4 a b c d, port) = data"
    by (simp add: encode_socket_addr_def Let_def data_def bs_def v_def ip32_def)
  have "\<not> (length data < 4 \<or> 16 < length data)" using pad(2,3) by simp
  then show ?thesis
    unfolding e decode_socket_addr_def Let_def pad(1) lo hi
    by (simp add: v_def unpack_addr ip32_def le_bytes_4)
qed

text \<open>IPv6 addresses have no packed form: they arrive as the unspecified address.\<close>

lemma from_le_zero [simp]: "from_le (replicate n 0) = 0"
  by (induction n) (simp_all add: from_le_def flip: replicate_append_same)

lemma socket_addr_v6: "decode_socket_addr (encode_socket_addr tm (V6 gs, port)) = Inr (V4 0 0 0 0, 0)"
proof -
  have e: "encode_socket_addr tm (V6 gs, port) = replicate 4 0"
    by (simp add: encode_socket_addr_def eval_nat_numeral)
  have p: "replicate 4 (0::byte) @ replicate (16 - length (replicate 4 (0::byte))) 0 = replicate 16 0"
    unfolding replicate_add [symmetric] by simp
  have z: "le_bytes 4 0 = [0, 0, 0, 0]" using le_bytes_4 [of 0 0 0 0] by (simp add: from_le_def from_be_def)
  show ?thesis unfolding e decode_socket_addr_def Let_def p by (simp add: take_replicate drop_replicate z)
qed

end
