(* ===== verification/Relay_Server.thy ===== *)
theory Relay_Server
  imports Relay_Codec Rdv_Proto
begin

text \<open>
  The relay server, \<open>mrsh-relay/src/relay.rs\<close>: connections that present the same UUID are paired and
  bridged, under limits on connections per address, waiting connections and bridges. Each connection
  is a task; between two suspension points it runs one of the operations below, and tasks interleave
  there in any order. The protobuf decoder is a parameter.
\<close>

section \<open>Limits and the counter per address\<close>

record relay_limits =
  max_sessions :: nat
  max_per_ip :: nat
  max_waiting :: nat
  session_timeout :: nat   \<comment> \<open>seconds\<close>

definition default_limits :: relay_limits where
  "default_limits = \<lparr>max_sessions = 200, max_per_ip = 10, max_waiting = 100, session_timeout = 3600\<rparr>"

type_synonym 'ip counts = "'ip \<rightharpoonup> nat"

definition count_of :: "'ip \<Rightarrow> 'ip counts \<Rightarrow> nat" where
  "count_of ip m = (case m ip of Some n \<Rightarrow> n | None \<Rightarrow> 0)"

definition try_acquire :: "nat \<Rightarrow> 'ip \<Rightarrow> 'ip counts \<Rightarrow> bool \<times> 'ip counts" where
  "try_acquire limit ip m =
     (let count = count_of ip m
      in if limit \<le> count then (False, m(ip \<mapsto> count)) else (True, m(ip \<mapsto> count + 1)))"

definition release :: "'ip \<Rightarrow> 'ip counts \<Rightarrow> 'ip counts" where
  "release ip m =
     (case m ip of
        None \<Rightarrow> m
      | Some count \<Rightarrow> if count - 1 = 0 then m(ip := None) else m(ip \<mapsto> count - 1))"

section \<open>The request\<close>

text \<open>The decoded message has a union that may be absent.\<close>

datatype relay_error =
    Handshake_Failed err | Undecodable | Not_A_Request | Empty_Uuid | Relay_Auth_Failed

definition read_request ::
  "(bytes \<Rightarrow> rendezvous_union option option) \<Rightarrow> string \<Rightarrow> bytes \<Rightarrow> relay_error + string" where
  "read_request decode key stream =
     (case decode_frame stream of
        Inl e \<Rightarrow> Inl (Handshake_Failed e)
      | Inr (payload, _) \<Rightarrow>
          (case decode payload of
             None \<Rightarrow> Inl Undecodable
           | Some (Some (Request_Relay rr)) \<Rightarrow>
               if rr_uuid rr = [] then Inl Empty_Uuid
               else if key \<noteq> [] \<and> rr_licence_key rr \<noteq> key then Inl Relay_Auth_Failed
               else Inr (rr_uuid rr)
           | Some _ \<Rightarrow> Inl Not_A_Request))"

text \<open>What \<open>connect_relay\<close> writes, given the encoder of the message.\<close>

definition connect_relay :: "(rendezvous_union \<Rightarrow> bytes) \<Rightarrow> string \<Rightarrow> string \<Rightarrow> bytes" where
  "connect_relay encode uuid licence_key =
     encode_frame (encode (Request_Relay
       \<lparr>rr_id = [], rr_uuid = uuid, rr_relay_server = [], rr_licence_key = licence_key, rr_target_port = 0\<rparr>))"

section \<open>Tasks\<close>

text \<open>A waiting task holds the receiver of its entry in the waiting room; \<open>Delivered\<close> has received the
  partner's stream; \<open>Cleaning\<close> has given up and is about to remove its UUID from the room.\<close>

datatype phase =
    Handshaking
  | Waiting string
  | Delivered string nat
  | Cleaning string
  | Bridging string nat

type_synonym 'ip task = "nat \<times> 'ip \<times> phase"

record 'ip relay_state =
  waiting :: "(string \<times> nat) list"
  counts :: "'ip counts"
  active :: u64
  total :: u64
  permits :: nat
  tasks :: "'ip task list"
  next_id :: nat
  presented :: "(nat \<times> string) list"   \<comment> \<open>history: which connection presented which UUID\<close>
  lost :: "('ip \<times> string \<times> bool) list"   \<comment> \<open>history: the tasks that panicked, and whether they counted as a relay\<close>

definition relay_init :: "relay_limits \<Rightarrow> 'ip relay_state" where
  "relay_init L = \<lparr>waiting = [], counts = Map.empty, active = 0, total = 0, permits = max_sessions L,
     tasks = [], next_id = 0, presented = [], lost = []\<rparr>"

definition set_phase :: "nat \<Rightarrow> phase \<Rightarrow> 'ip task list \<Rightarrow> 'ip task list" where
  "set_phase c p ts = map (\<lambda>(d, ip, q). (d, ip, if d = c then p else q)) ts"

definition drop_task :: "nat \<Rightarrow> 'ip task list \<Rightarrow> 'ip task list" where
  "drop_task c ts = filter (\<lambda>(d, _). d \<noteq> c) ts"

definition go :: "nat \<Rightarrow> phase \<Rightarrow> 'ip relay_state \<Rightarrow> 'ip relay_state" where
  "go c p s = s\<lparr>tasks := set_phase c p (tasks s)\<rparr>"

text \<open>\<open>serve_one\<close> returns: the spawned task gives back its slot and ends.\<close>

definition finish :: "nat \<Rightarrow> 'ip \<Rightarrow> 'ip relay_state \<Rightarrow> 'ip relay_state" where
  "finish c ip s = s\<lparr>tasks := drop_task c (tasks s), counts := release ip (counts s)\<rparr>"

text \<open>Messages show \<open>&uuid[..uuid.len().min(8)]\<close>, which panics when the eighth byte is inside a character. The
  text of an error is always made, that of a log event only when its level is enabled. In a build that unwinds, as
  here, a panic ends the task before its slot is given back; the release profile has \<open>panic = "abort"\<close>, where the
  same panic ends the server and its run stops at the state before.\<close>

datatype verbosity = Quiet | Info_Events | Debug_Events

definition cut_panics :: "string \<Rightarrow> bool" where
  "cut_panics uuid \<longleftrightarrow> 8 < length uuid \<and> is_cont (uuid ! 8)"

definition crash :: "nat \<Rightarrow> 'ip \<Rightarrow> string \<Rightarrow> bool \<Rightarrow> 'ip relay_state \<Rightarrow> 'ip relay_state" where
  "crash c ip uuid relayed s = s\<lparr>tasks := drop_task c (tasks s), lost := (ip, uuid, relayed) # lost s\<rparr>"

definition bail_out :: "nat \<Rightarrow> 'ip \<Rightarrow> string \<Rightarrow> 'ip relay_state \<Rightarrow> 'ip relay_state" where
  "bail_out c ip uuid s = (if cut_panics uuid then crash c ip uuid False s else finish c ip s)"

text \<open>The accept loop: count the connection, or drop it.\<close>

definition accept :: "relay_limits \<Rightarrow> 'ip \<Rightarrow> 'ip relay_state \<Rightarrow> 'ip relay_state" where
  "accept L ip s =
     (case try_acquire (max_per_ip L) ip (counts s) of
        (True, m) \<Rightarrow> s\<lparr>counts := m, tasks := (next_id s, ip, Handshaking) # tasks s, next_id := next_id s + 1\<rparr>
      | (False, m) \<Rightarrow> s\<lparr>counts := m, next_id := next_id s + 1\<rparr>)"

text \<open>Under the lock of the waiting room: pair, refuse, or register.\<close>

datatype room_result = Paired nat | Room_Full | Registered

definition enter_room :: "nat \<Rightarrow> nat \<Rightarrow> string \<Rightarrow> (string \<times> nat) list \<Rightarrow> room_result \<times> (string \<times> nat) list" where
  "enter_room limit c uuid room =
     (case map_of room uuid of
        Some d \<Rightarrow> (Paired d, AList.delete uuid room)
      | None \<Rightarrow> if limit \<le> length room then (Room_Full, room) else (Registered, AList.update uuid c room))"

text \<open>\<open>sender.send\<close>: the stream reaches a task that still waits, and is dropped otherwise.\<close>

definition deliver :: "nat \<Rightarrow> string \<Rightarrow> nat \<Rightarrow> 'ip relay_state \<Rightarrow> 'ip relay_state" where
  "deliver d uuid c s =
     (if list_ex (\<lambda>(e, _, p). e = d \<and> p = Waiting uuid) (tasks s) then go d (Delivered uuid c) s else s)"

text \<open>A panic after pairing drops the sender, which ends the wait of the other task; a panic after registering leaves
  the entry in the room.\<close>

definition on_request :: "verbosity \<Rightarrow> relay_limits \<Rightarrow> nat \<Rightarrow> 'ip \<Rightarrow> string \<Rightarrow> 'ip relay_state \<Rightarrow> 'ip relay_state" where
  "on_request v L c ip uuid s0 =
     (let s = s0\<lparr>presented := (c, uuid) # presented s0\<rparr> in
      case enter_room (max_waiting L) c uuid (waiting s) of
        (Paired d, room) \<Rightarrow>
          if v \<noteq> Quiet \<and> cut_panics uuid then crash c ip uuid False (s\<lparr>waiting := room\<rparr>)
          else finish c ip (deliver d uuid c (s\<lparr>waiting := room\<rparr>))
      | (Room_Full, room) \<Rightarrow> bail_out c ip uuid s
      | (Registered, room) \<Rightarrow>
          if v = Debug_Events \<and> cut_panics uuid then crash c ip uuid False (s\<lparr>waiting := room\<rparr>)
          else go c (Waiting uuid) (s\<lparr>waiting := room\<rparr>))"

text \<open>The pairing timeout, or a receiver whose sender is gone; then the removal from the room.\<close>

definition on_give_up :: "nat \<Rightarrow> string \<Rightarrow> 'ip relay_state \<Rightarrow> 'ip relay_state" where
  "on_give_up c uuid s = go c (Cleaning uuid) s"

definition on_clean :: "nat \<Rightarrow> 'ip \<Rightarrow> string \<Rightarrow> 'ip relay_state \<Rightarrow> 'ip relay_state" where
  "on_clean c ip uuid s = bail_out c ip uuid (s\<lparr>waiting := AList.delete uuid (waiting s)\<rparr>)"

text \<open>With the partner's stream: a session permit and the bridge, or the end.\<close>

definition on_partner :: "verbosity \<Rightarrow> nat \<Rightarrow> 'ip \<Rightarrow> string \<Rightarrow> nat \<Rightarrow> 'ip relay_state \<Rightarrow> 'ip relay_state" where
  "on_partner v c ip uuid d s =
     (if permits s = 0 then bail_out c ip uuid s
      else if v \<noteq> Quiet \<and> cut_panics uuid
      then crash c ip uuid True (s\<lparr>active := active s + 1, total := total s + 1\<rparr>)
      else go c (Bridging uuid d) (s\<lparr>permits := permits s - 1, active := active s + 1, total := total s + 1\<rparr>))"

definition on_bridge_end :: "nat \<Rightarrow> 'ip \<Rightarrow> 'ip relay_state \<Rightarrow> 'ip relay_state" where
  "on_bridge_end c ip s = finish c ip (s\<lparr>active := active s - 1, permits := permits s + 1\<rparr>)"

section \<open>Interleaving\<close>

text \<open>Any connection may fail its handshake at any time: a timeout, a read error, a refused request.\<close>

inductive relay_reachable ::
  "verbosity \<Rightarrow> relay_limits \<Rightarrow> (bytes \<Rightarrow> rendezvous_union option option) \<Rightarrow> string \<Rightarrow> 'ip relay_state \<Rightarrow> bool"
  for v L decode key where
  init: "relay_reachable v L decode key (relay_init L)"
| accepts: "relay_reachable v L decode key s \<Longrightarrow> relay_reachable v L decode key (accept L ip s)"
| refuses: "relay_reachable v L decode key s \<Longrightarrow> (c, ip, Handshaking) \<in> set (tasks s) \<Longrightarrow>
     relay_reachable v L decode key (finish c ip s)"
| requests: "relay_reachable v L decode key s \<Longrightarrow> (c, ip, Handshaking) \<in> set (tasks s) \<Longrightarrow>
     read_request decode key stream = Inr uuid \<Longrightarrow> relay_reachable v L decode key (on_request v L c ip uuid s)"
| gives_up: "relay_reachable v L decode key s \<Longrightarrow> (c, ip, Waiting uuid) \<in> set (tasks s) \<Longrightarrow>
     relay_reachable v L decode key (on_give_up c uuid s)"
| cleans: "relay_reachable v L decode key s \<Longrightarrow> (c, ip, Cleaning uuid) \<in> set (tasks s) \<Longrightarrow>
     relay_reachable v L decode key (on_clean c ip uuid s)"
| partners: "relay_reachable v L decode key s \<Longrightarrow> (c, ip, Delivered uuid d) \<in> set (tasks s) \<Longrightarrow>
     relay_reachable v L decode key (on_partner v c ip uuid d s)"
| bridge_ends: "relay_reachable v L decode key s \<Longrightarrow> (c, ip, Bridging uuid d) \<in> set (tasks s) \<Longrightarrow>
     relay_reachable v L decode key (on_bridge_end c ip s)"

section \<open>Counting tasks\<close>

definition ip_tasks :: "'ip \<Rightarrow> 'ip task list \<Rightarrow> nat" where
  "ip_tasks ip ts = length (filter (\<lambda>(_, i, _). i = ip) ts)"

definition in_bridge :: "phase \<Rightarrow> bool" where
  "in_bridge p \<longleftrightarrow> (case p of Bridging _ _ \<Rightarrow> True | _ \<Rightarrow> False)"

definition bridges :: "'ip task list \<Rightarrow> nat" where
  "bridges ts = length (filter (\<lambda>(_, _, p). in_bridge p) ts)"

lemma in_bridge_simps [simp]:
  "\<not> in_bridge Handshaking" "\<not> in_bridge (Waiting u)" "\<not> in_bridge (Delivered u d)" "\<not> in_bridge (Cleaning u)"
  "in_bridge (Bridging u d)"
  by (simp_all add: in_bridge_def)

lemma task_ids [simp]:
  "map fst (set_phase c p ts) = map fst ts"
  "map fst (drop_task c ts) = filter (\<lambda>d. d \<noteq> c) (map fst ts)"
  by (induction ts) (auto simp: set_phase_def drop_task_def)

lemma ip_tasks_set_phase [simp]: "ip_tasks ip (set_phase c p ts) = ip_tasks ip ts"
  by (induction ts) (auto simp: ip_tasks_def set_phase_def)

lemma task_absent:
  assumes "c \<notin> set (map fst ts)"
  shows "drop_task c ts = ts" and "set_phase c p ts = ts"
  using assms by (induction ts) (auto simp: drop_task_def set_phase_def)

lemma ip_tasks_drop:
  assumes "distinct (map fst ts)" and "(c, ip, p) \<in> set ts"
  shows "ip_tasks i ts = ip_tasks i (drop_task c ts) + (if i = ip then 1 else 0)"
  using assms
proof (induction ts)
  case (Cons t ts)
  show ?case
  proof (cases "fst t = c")
    case True
    with Cons.prems have "t = (c, ip, p)" by (force simp: image_iff)
    with Cons.prems task_absent(1) [of c ts] show ?thesis
      by (auto simp: ip_tasks_def drop_task_def)
  next
    case False
    with Cons show ?thesis by (auto simp: ip_tasks_def drop_task_def)
  qed
qed simp

lemma bridges_drop:
  assumes "distinct (map fst ts)" and "(c, ip, p) \<in> set ts"
  shows "bridges ts = bridges (drop_task c ts) + (if in_bridge p then 1 else 0)"
  using assms
proof (induction ts)
  case (Cons t ts)
  show ?case
  proof (cases "fst t = c")
    case True
    with Cons.prems have "t = (c, ip, p)" by (force simp: image_iff)
    with Cons.prems task_absent(1) [of c ts] show ?thesis
      by (auto simp: bridges_def drop_task_def)
  next
    case False
    with Cons show ?thesis by (auto simp: bridges_def drop_task_def)
  qed
qed simp

lemma bridges_set_phase:
  assumes "distinct (map fst ts)" and "(c, ip, p) \<in> set ts"
  shows "bridges (set_phase c q ts) + (if in_bridge p then 1 else 0) = bridges ts + (if in_bridge q then 1 else 0)"
  using assms
proof (induction ts)
  case (Cons t ts)
  show ?case
  proof (cases "fst t = c")
    case True
    with Cons.prems have "t = (c, ip, p)" by (force simp: image_iff)
    with Cons.prems task_absent(2) [of c ts q] show ?thesis
      by (auto simp: bridges_def set_phase_def)
  next
    case False
    with Cons show ?thesis by (auto simp: bridges_def set_phase_def split: if_splits)
  qed
qed simp

lemma count_of_release: "count_of i (release ip m) = (if i = ip then count_of i m - 1 else count_of i m)"
  by (auto simp: count_of_def release_def split: option.split)

lemma try_acquire_count:
  "try_acquire limit ip m = (r, m') \<Longrightarrow>
     r = (count_of ip m < limit) \<and> count_of i m' = count_of i m + (if r \<and> i = ip then 1 else 0)"
  by (auto simp: try_acquire_def count_of_def Let_def split: if_splits)

lemma room_length:
  "length (AList.delete u room) \<le> length room"
  "map_of room u = None \<Longrightarrow> length (AList.update u c room) = length room + 1"
proof -
  show "length (AList.delete u room) \<le> length room" by (simp add: AList.delete_eq)
  show "map_of room u = None \<Longrightarrow> length (AList.update u c room) = length room + 1"
    by (induction room) (auto split: if_splits)
qed

section \<open>The limits hold\<close>

definition lost_slots :: "'ip \<Rightarrow> ('ip \<times> string \<times> bool) list \<Rightarrow> nat" where
  "lost_slots ip ls = length (filter (\<lambda>(i, _, _). i = ip) ls)"

definition lost_relays :: "('ip \<times> string \<times> bool) list \<Rightarrow> nat" where
  "lost_relays ls = length (filter (\<lambda>(_, _, relayed). relayed) ls)"

lemma lost_simps [simp]:
  "lost_slots ip [] = 0" "lost_slots ip ((i, u, b) # ls) = lost_slots ip ls + of_bool (i = ip)"
  "lost_relays [] = 0" "lost_relays ((i, u, b) # ls) = lost_relays ls + of_bool b"
  by (simp_all add: lost_slots_def lost_relays_def)

definition relay_inv :: "relay_limits \<Rightarrow> 'ip relay_state \<Rightarrow> bool" where
  "relay_inv L s \<longleftrightarrow> distinct (map fst (tasks s)) \<and> (\<forall>c \<in> set (map fst (tasks s)). c < next_id s) \<and>
     (\<forall>ip. count_of ip (counts s) = ip_tasks ip (tasks s) + lost_slots ip (lost s) \<and>
       ip_tasks ip (tasks s) + lost_slots ip (lost s) \<le> max_per_ip L) \<and>
     active s = of_nat (bridges (tasks s) + lost_relays (lost s)) \<and> permits s + bridges (tasks s) = max_sessions L \<and>
     length (waiting s) \<le> max_waiting L \<and> list_all (\<lambda>(_, u, _). cut_panics u) (lost s)"

lemma relay_inv_go:
  assumes "relay_inv L s" and "(c, ip, p) \<in> set (tasks s)" and "in_bridge p = in_bridge q"
  shows "relay_inv L (go c q s)"
  using assms bridges_set_phase [of "tasks s" c ip p q] by (auto simp: relay_inv_def go_def split: if_splits)

lemma relay_inv_end:
  assumes "relay_inv L s" and t: "(c, ip, p) \<in> set (tasks s)"
  shows "relay_inv L (finish c ip (s\<lparr>active := active s - of_bool (in_bridge p),
    permits := permits s + of_bool (in_bridge p)\<rparr>))"
proof -
  have d: "distinct (map fst (tasks s))" using assms(1) by (simp add: relay_inv_def)
  have "count_of i (release ip (counts s)) = ip_tasks i (drop_task c (tasks s)) + lost_slots i (lost s) \<and>
      ip_tasks i (drop_task c (tasks s)) + lost_slots i (lost s) \<le> max_per_ip L" for i
  proof -
    have "count_of i (counts s) = ip_tasks i (tasks s) + lost_slots i (lost s)"
      "ip_tasks i (tasks s) + lost_slots i (lost s) \<le> max_per_ip L"
      using assms(1) by (simp_all add: relay_inv_def)
    with ip_tasks_drop [OF d t, of i] show ?thesis by (auto simp: count_of_release split: if_splits)
  qed
  with assms bridges_drop [OF d t] show ?thesis
    by (auto simp: relay_inv_def finish_def split: if_splits)
qed

lemma relay_inv_finish:
  "relay_inv L s \<Longrightarrow> (c, ip, p) \<in> set (tasks s) \<Longrightarrow> \<not> in_bridge p \<Longrightarrow> relay_inv L (finish c ip s)"
  using relay_inv_end [of L s c ip p] by (simp add: finish_def)

lemma relay_inv_crash:
  assumes "relay_inv L s" and t: "(c, ip, p) \<in> set (tasks s)" "\<not> in_bridge p" and "cut_panics u"
  shows "relay_inv L (crash c ip u b (s\<lparr>active := active s + of_bool b, total := n\<rparr>))"
proof -
  have d: "distinct (map fst (tasks s))" using assms(1) by (simp add: relay_inv_def)
  have "ip_tasks i (tasks s) + lost_slots i (lost s) = ip_tasks i (drop_task c (tasks s)) + lost_slots i ((ip, u, b) # lost s)" for i
    using ip_tasks_drop [OF d t(1), of i] by auto
  with assms bridges_drop [OF d t(1)] show ?thesis by (auto simp: relay_inv_def crash_def)
qed

lemma relay_inv_bail_out:
  "relay_inv L s \<Longrightarrow> (c, ip, p) \<in> set (tasks s) \<Longrightarrow> \<not> in_bridge p \<Longrightarrow> relay_inv L (bail_out c ip u s)"
  using relay_inv_crash [of L s c ip p u False "total s"] relay_inv_finish [of L s c ip p] by (simp add: bail_out_def)

lemma relay_inv_bridge_end:
  "relay_inv L s \<Longrightarrow> (c, ip, Bridging uuid d) \<in> set (tasks s) \<Longrightarrow> relay_inv L (on_bridge_end c ip s)"
  using relay_inv_end [of L s c ip "Bridging uuid d"] by (simp add: on_bridge_end_def)

lemma relay_inv_room:
  "relay_inv L s \<Longrightarrow> length room \<le> max_waiting L \<Longrightarrow> relay_inv L (s\<lparr>waiting := room\<rparr>)"
  "relay_inv L s \<Longrightarrow> relay_inv L (s\<lparr>presented := h\<rparr>)"
  by (simp_all add: relay_inv_def)

lemma task_mem [simp]:
  "(e, ip, q) \<in> set (set_phase c p ts) \<longleftrightarrow> (\<exists>r. (e, ip, r) \<in> set ts \<and> q = (if e = c then p else r))"
  "t \<in> set (drop_task c ts) \<longleftrightarrow> t \<in> set ts \<and> fst t \<noteq> c"
  by (force simp: set_phase_def drop_task_def split: prod.splits)+

lemma deliver_waits:
  "deliver d uuid c s = s \<or> (\<exists>ip. (d, ip, Waiting uuid) \<in> set (tasks s) \<and> deliver d uuid c s = go d (Delivered uuid c) s)"
  by (auto simp: deliver_def list_ex_iff)

lemma relay_inv_deliver: "relay_inv L s \<Longrightarrow> relay_inv L (deliver d uuid c s)"
  using deliver_waits [of d uuid c s] relay_inv_go [of L s d _ "Waiting uuid" "Delivered uuid c"] by auto

lemma task_in_deliver:
  "(c, ip, p) \<in> set (tasks s) \<Longrightarrow> \<not> in_bridge p \<Longrightarrow>
     \<exists>q. (c, ip, q) \<in> set (tasks (deliver d uuid e s)) \<and> \<not> in_bridge q"
  using deliver_waits [of d uuid e s] by (cases "c = d") (auto simp: go_def)

lemma relay_inv_accept:
  assumes "relay_inv L s"
  shows "relay_inv L (accept L ip s)"
proof -
  obtain r m where a: "try_acquire (max_per_ip L) ip (counts s) = (r, m)" by fastforce
  note c = try_acquire_count [OF a]
  have i: "ip_tasks i ((n, ip, Handshaking) # ts) = ip_tasks i ts + (if i = ip then 1 else 0)"
    "bridges ((n, ip, Handshaking) # ts) = bridges ts" for i n and ts :: "'a task list"
    by (auto simp: ip_tasks_def bridges_def)
  have "count_of ip (counts s) = ip_tasks ip (tasks s) + lost_slots ip (lost s)" using assms by (simp add: relay_inv_def)
  with c [of ip] have "r \<Longrightarrow> Suc (ip_tasks ip (tasks s) + lost_slots ip (lost s)) \<le> max_per_ip L" by auto
  with a c assms show ?thesis
    by (cases r) (auto simp: relay_inv_def accept_def i less_Suc_eq)
qed

lemma relay_inv_request:
  assumes "relay_inv L s" and t: "(c, ip, Handshaking) \<in> set (tasks s)"
  shows "relay_inv L (on_request v L c ip uuid s)"
proof -
  let ?s = "s\<lparr>presented := (c, uuid) # presented s\<rparr>"
  have s: "relay_inv L ?s" using assms(1) by (simp add: relay_inv_def)
  then have w: "length (waiting s) \<le> max_waiting L" by (simp add: relay_inv_def)
  show ?thesis
  proof (cases "map_of (waiting s) uuid")
    case (Some d)
    let ?t = "?s\<lparr>waiting := AList.delete uuid (waiting s)\<rparr>"
    have t': "relay_inv L ?t"
      using relay_inv_room(1) [OF s] room_length(1) [of uuid "waiting s"] w by (metis le_trans)
    obtain q where "(c, ip, q) \<in> set (tasks (deliver d uuid c ?t))" "\<not> in_bridge q"
      using task_in_deliver [of c ip Handshaking ?t d uuid c] t by auto
    then have "relay_inv L (finish c ip (deliver d uuid c ?t))" by (rule relay_inv_finish [OF relay_inv_deliver [OF t']])
    then show ?thesis
      using Some t t' relay_inv_crash [of L ?t c ip Handshaking uuid False "total s"]
      by (simp add: on_request_def enter_room_def Let_def)
  next
    case None
    show ?thesis
    proof (cases "max_waiting L \<le> length (waiting s)")
      case True
      with None s t show ?thesis
        using relay_inv_bail_out [of L ?s c ip Handshaking] by (simp add: on_request_def enter_room_def Let_def)
    next
      case False
      with None room_length(2) [of "waiting s" uuid c]
      have "relay_inv L (?s\<lparr>waiting := AList.update uuid c (waiting s)\<rparr>)"
        by (intro relay_inv_room(1) [OF s]) simp
      with None False t show ?thesis
        using relay_inv_crash [of L "?s\<lparr>waiting := AList.update uuid c (waiting s)\<rparr>" c ip Handshaking uuid False "total s"]
          relay_inv_go [of L "?s\<lparr>waiting := AList.update uuid c (waiting s)\<rparr>" c ip Handshaking "Waiting uuid"]
        by (simp add: on_request_def enter_room_def Let_def)
    qed
  qed
qed

lemma relay_inv_clean:
  assumes "relay_inv L s" and "(c, ip, Cleaning uuid) \<in> set (tasks s)"
  shows "relay_inv L (on_clean c ip uuid s)"
proof -
  have "length (AList.delete uuid (waiting s)) \<le> max_waiting L"
    using assms(1) room_length(1) [of uuid "waiting s"] by (simp add: relay_inv_def)
  then show ?thesis
    unfolding on_clean_def using assms
    by (intro relay_inv_bail_out [where p = "Cleaning uuid"] relay_inv_room(1)) simp_all
qed

lemma relay_inv_partner:
  assumes "relay_inv L s" and t: "(c, ip, Delivered uuid d) \<in> set (tasks s)"
  shows "relay_inv L (on_partner v c ip uuid d s)"
proof (cases "permits s = 0")
  case True
  with assms show ?thesis using relay_inv_bail_out [OF assms] by (simp add: on_partner_def)
next
  case False
  show ?thesis
  proof (cases "v \<noteq> Quiet \<and> cut_panics uuid")
    case True
    with False relay_inv_crash [OF assms, of uuid True "total s + 1"] show ?thesis by (simp add: on_partner_def)
  next
    case calm: False
    then have "on_partner v c ip uuid d s =
        go c (Bridging uuid d) (s\<lparr>permits := permits s - 1, active := active s + 1, total := total s + 1\<rparr>)"
      using False by (auto simp: on_partner_def)
    with False assms bridges_set_phase [of "tasks s" c ip "Delivered uuid d" "Bridging uuid d"] show ?thesis
      by (auto simp: relay_inv_def go_def)
  qed
qed

lemma relay_inv_reachable: "relay_reachable v L decode key s \<Longrightarrow> relay_inv L s"
proof (induction rule: relay_reachable.induct)
  case init
  show ?case by (simp add: relay_inv_def relay_init_def count_of_def ip_tasks_def bridges_def)
next
  case (gives_up s c ip uuid)
  then show ?case unfolding on_give_up_def by (intro relay_inv_go) auto
qed (auto intro: relay_inv_accept relay_inv_finish relay_inv_request relay_inv_clean relay_inv_partner relay_inv_bridge_end)

section \<open>Who is bridged with whom\<close>

definition partner_of :: "phase \<Rightarrow> (string \<times> nat) option" where
  "partner_of p = (case p of Delivered u d \<Rightarrow> Some (u, d) | Bridging u d \<Rightarrow> Some (u, d) | _ \<Rightarrow> None)"

definition uuid_of :: "phase \<Rightarrow> string option" where
  "uuid_of p = (case p of Handshaking \<Rightarrow> None | Waiting u \<Rightarrow> Some u | Delivered u _ \<Rightarrow> Some u
     | Cleaning u \<Rightarrow> Some u | Bridging u _ \<Rightarrow> Some u)"

lemmas phase_views = partner_of_def uuid_of_def

definition pair_inv :: "(string \<Rightarrow> bool) \<Rightarrow> 'ip relay_state \<Rightarrow> bool" where
  "pair_inv good s \<longleftrightarrow> distinct (map fst (presented s)) \<and>
     (\<forall>c u. (c, u) \<in> set (presented s) \<longrightarrow> c < next_id s \<and> good u) \<and>
     (\<forall>c ip p. (c, ip, p) \<in> set (tasks s) \<longrightarrow>
        (uuid_of p = None \<longrightarrow> c \<notin> fst ` set (presented s)) \<and>
        (\<forall>u. uuid_of p = Some u \<longrightarrow> (c, u) \<in> set (presented s))) \<and>
     (\<forall>c ip p u d. (c, ip, p) \<in> set (tasks s) \<longrightarrow> partner_of p = Some (u, d) \<longrightarrow>
        (d, u) \<in> set (presented s) \<and> d \<notin> fst ` set (tasks s) \<and>
        (\<forall>c' ip' p'. (c', ip', p') \<in> set (tasks s) \<longrightarrow> partner_of p' = Some (u, d) \<longrightarrow> c' = c))"

lemma pair_invI:
  assumes "distinct (map fst (presented s))" "\<And>c u. (c, u) \<in> set (presented s) \<Longrightarrow> c < next_id s \<and> good u"
    "\<And>c ip p. (c, ip, p) \<in> set (tasks s) \<Longrightarrow> uuid_of p = None \<Longrightarrow> c \<notin> fst ` set (presented s)"
    "\<And>c ip p u. (c, ip, p) \<in> set (tasks s) \<Longrightarrow> uuid_of p = Some u \<Longrightarrow> (c, u) \<in> set (presented s)"
    "\<And>c ip p u d. (c, ip, p) \<in> set (tasks s) \<Longrightarrow> partner_of p = Some (u, d) \<Longrightarrow>
       (d, u) \<in> set (presented s) \<and> d \<notin> fst ` set (tasks s)"
    "\<And>c ip p u d c' ip' p'. (c, ip, p) \<in> set (tasks s) \<Longrightarrow> partner_of p = Some (u, d) \<Longrightarrow>
       (c', ip', p') \<in> set (tasks s) \<Longrightarrow> partner_of p' = Some (u, d) \<Longrightarrow> c' = c"
  shows "pair_inv good s"
  unfolding pair_inv_def
proof (intro conjI allI impI)
  show "distinct (map fst (presented s))" by (rule assms(1))
qed (use assms(2) in blast, use assms(2) in blast, use assms(3) in blast, use assms(4) in blast, use assms(5) in blast,
     use assms(5) in blast, use assms(6) in blast)

lemma pair_invD:
  assumes "pair_inv good s"
  shows "distinct (map fst (presented s))"
    and "(c, u) \<in> set (presented s) \<Longrightarrow> c < next_id s \<and> good u"
    and "(c, ip, p) \<in> set (tasks s) \<Longrightarrow> uuid_of p = None \<Longrightarrow> c \<notin> fst ` set (presented s)"
    and "(c, ip, p) \<in> set (tasks s) \<Longrightarrow> uuid_of p = Some u \<Longrightarrow> (c, u) \<in> set (presented s)"
    and "(c, ip, p) \<in> set (tasks s) \<Longrightarrow> partner_of p = Some (u, d) \<Longrightarrow> (d, u) \<in> set (presented s) \<and> d \<notin> fst ` set (tasks s)"
    and "(c, ip, p) \<in> set (tasks s) \<Longrightarrow> partner_of p = Some (u, d) \<Longrightarrow>
       (c', ip', p') \<in> set (tasks s) \<Longrightarrow> partner_of p' = Some (u, d) \<Longrightarrow> c' = c"
proof -
  note inv = assms [unfolded pair_inv_def]
  show "distinct (map fst (presented s))" by (rule conjunct1 [OF inv])
  note inv2 = conjunct2 [OF inv]
  show "(c, u) \<in> set (presented s) \<Longrightarrow> c < next_id s \<and> good u" using conjunct1 [OF inv2] by blast
  note inv3 = conjunct2 [OF inv2]
  show "(c, ip, p) \<in> set (tasks s) \<Longrightarrow> uuid_of p = None \<Longrightarrow> c \<notin> fst ` set (presented s)"
    "(c, ip, p) \<in> set (tasks s) \<Longrightarrow> uuid_of p = Some u \<Longrightarrow> (c, u) \<in> set (presented s)"
    using conjunct1 [OF inv3] by blast+
  note inv4 = conjunct2 [OF inv3]
  show "(c, ip, p) \<in> set (tasks s) \<Longrightarrow> partner_of p = Some (u, d) \<Longrightarrow> (d, u) \<in> set (presented s) \<and> d \<notin> fst ` set (tasks s)"
    using inv4 by blast
  show "(c, ip, p) \<in> set (tasks s) \<Longrightarrow> partner_of p = Some (u, d) \<Longrightarrow>
       (c', ip', p') \<in> set (tasks s) \<Longrightarrow> partner_of p' = Some (u, d) \<Longrightarrow> c' = c"
    using inv4 by blast
qed

text \<open>Steps that change no history: every task afterwards was there before, with a phase of the same
  UUID and no new partner.\<close>

lemma pair_inv_mono:
  assumes "pair_inv good s" and "presented s' = presented s" and "next_id s \<le> next_id s'"
    and "\<And>c ip p. (c, ip, p) \<in> set (tasks s') \<Longrightarrow>
      \<exists>q. (c, ip, q) \<in> set (tasks s) \<and> uuid_of p = uuid_of q \<and> (partner_of p = None \<or> partner_of p = partner_of q)"
  shows "pair_inv good s'"
proof -
  note inv = pair_invD [OF assms(1)]
  have sub: "fst ` set (tasks s') \<subseteq> fst ` set (tasks s)" using assms(4) by force
  have old: "\<exists>q. (c, ip, q) \<in> set (tasks s) \<and> partner_of q = Some x" if "(c, ip, p) \<in> set (tasks s')" "partner_of p = Some x"
    for c ip p x using assms(4) [OF that(1)] that(2) by auto
  show ?thesis
  proof (rule pair_invI, unfold assms(2), goal_cases)
    case 1 show ?case by (rule inv(1))
  next
    case (2 c u) then show ?case using inv(2) [of c u] assms(3) by simp
  next
    case (3 c ip p) then show ?case using assms(4) [of c ip p] inv(3) [of c ip] by metis
  next
    case (4 c ip p u) then show ?case using assms(4) [of c ip p] inv(4) [of c ip _ u] by auto
  next
    case (5 c ip p u d) then show ?case using old [of c ip p] inv(5) [of c ip _ u d] sub by blast
  next
    case (6 c ip p u d c' ip' p')
    then show ?case using old [of c ip p] old [of c' ip' p'] inv(6) [of c ip _ u d c' ip'] by blast
  qed
qed

lemma pair_inv_finish: "pair_inv good s \<Longrightarrow> pair_inv good (finish c ip s)"
  by (rule pair_inv_mono) (auto simp: finish_def)

lemma pair_inv_crash: "pair_inv good s \<Longrightarrow> pair_inv good (crash c ip u b s)"
  by (rule pair_inv_mono) (auto simp: crash_def)

lemma pair_inv_bail_out: "pair_inv good s \<Longrightarrow> pair_inv good (bail_out c ip u s)"
  by (simp add: bail_out_def pair_inv_crash pair_inv_finish)

lemma pair_inv_go:
  assumes "pair_inv good s" and "(c, ip, q) \<in> set (tasks s)" and "distinct (map fst (tasks s))"
    and "uuid_of p = uuid_of q" and "partner_of p = None \<or> partner_of p = partner_of q"
  shows "pair_inv good (go c p s)"
proof (rule pair_inv_mono [OF assms(1)])
  fix e i r
  assume "(e, i, r) \<in> set (tasks (go c p s))"
  then obtain r' where r': "(e, i, r') \<in> set (tasks s)" "r = (if e = c then p else r')" by (auto simp: go_def)
  moreover have "e = c \<Longrightarrow> r' = q" using r' assms(2,3) by (metis eq_key_imp_eq_value prod.inject)
  ultimately show "\<exists>q. (e, i, q) \<in> set (tasks s) \<and> uuid_of r = uuid_of q \<and> (partner_of r = None \<or> partner_of r = partner_of q)"
    using assms(4,5) by auto
qed (simp_all add: go_def)

lemma pair_inv_other:
  "pair_inv good (s\<lparr>waiting := w\<rparr>) = pair_inv good s"
  "pair_inv good (s\<lparr>permits := n, active := a, total := t\<rparr>) = pair_inv good s"
  "pair_inv good (s\<lparr>active := a, permits := n\<rparr>) = pair_inv good s"
  "pair_inv good (s\<lparr>active := a, total := t\<rparr>) = pair_inv good s"
  "pair_inv good (s\<lparr>permits := n\<rparr>) = pair_inv good s"
  "pair_inv good (s\<lparr>active := a\<rparr>) = pair_inv good s"
  by (simp_all add: pair_inv_def)

lemma pair_inv_accept:
  assumes "pair_inv good s" and "relay_inv L s"
  shows "pair_inv good (accept L ip s)"
proof -
  have n: "next_id s \<notin> fst ` set (presented s)" "next_id s \<notin> fst ` set (tasks s)"
    using pair_invD(2) [OF assms(1)] assms(2) by (force simp: relay_inv_def)+
  have new: "uuid_of Handshaking = None" "partner_of Handshaking = None" by (simp_all add: phase_views)
  have p: "d \<noteq> next_id s" if "(c, i, p) \<in> set (tasks s)" "partner_of p = Some (u, d)" for c i p u d
    using pair_invD(5) [OF assms(1) that] n(1) by force
  have "pair_inv good (s\<lparr>counts := m, tasks := (next_id s, ip, Handshaking) # tasks s, next_id := next_id s + 1\<rparr>)" for m
  proof (rule pair_invI, goal_cases)
    case 1 show ?case using pair_invD(1) [OF assms(1)] by simp
  next
    case (2 c u) then show ?case using pair_invD(2) [OF assms(1), of c u] by simp
  next
    case (3 c i q)
    then have "(c, i, q) \<in> set (tasks s) \<or> c = next_id s" by auto
    with 3 show ?case using pair_invD(3) [OF assms(1), of c i q] n(1) by (elim disjE) simp_all
  next
    case (4 c i q u) then show ?case using pair_invD(4) [OF assms(1), of c i q u] new by auto
  next
    case (5 c i q u d) then show ?case using pair_invD(5) [OF assms(1), of c i q u d] new p [of c i q u d] by auto
  next
    case (6 c i q u d c' i' q')
    then show ?case using pair_invD(6) [OF assms(1), of c i q u d c' i' q'] new by auto
  qed
  moreover have "pair_inv good (s\<lparr>counts := m, next_id := next_id s + 1\<rparr>)" for m
    by (rule pair_inv_mono [OF assms(1)]) auto
  ultimately show ?thesis by (auto simp: accept_def split: prod.split bool.split)
qed

lemma pair_inv_present:
  assumes "pair_inv good s" and "relay_inv L s" and t: "(c, ip, Handshaking) \<in> set (tasks s)" and "good u"
    and s': "presented s' = (c, u) # presented s" "next_id s' = next_id s"
    and mem: "\<And>e i p. (e, i, p) \<in> set (tasks s') \<Longrightarrow>
      (e \<noteq> c \<and> ((e, i, p) \<in> set (tasks s) \<or> (e, i, Waiting u) \<in> set (tasks s) \<and> p = Delivered u c \<and> e = w)) \<or>
      (e = c \<and> p = Waiting u)"
    and gone: "c \<in> fst ` set (tasks s') \<Longrightarrow> \<forall>e i. (e, i, Delivered u c) \<notin> set (tasks s')"
  shows "pair_inv good s'"
proof -
  note inv = pair_invD [OF assms(1)]
  have c: "c \<notin> fst ` set (presented s)" "c < next_id s" "c \<in> fst ` set (tasks s)"
    using inv(3) [OF t] assms(2) t by (force simp: phase_views relay_inv_def)+
  have views: "uuid_of (Waiting u) = Some u" "partner_of (Waiting u) = None" "uuid_of (Delivered u c) = Some u"
    "partner_of (Delivered u c) = Some (u, c)" by (simp_all add: phase_views)
  have sub: "fst ` set (tasks s') \<subseteq> fst ` set (tasks s)" using mem c(3) by force
  have old: "(e, i, p) \<in> set (tasks s) \<and> d \<noteq> c \<or> e = w \<and> v = u \<and> d = c \<and> p = Delivered u c"
    if "(e, i, p) \<in> set (tasks s')" "partner_of p = Some (v, d)" for e i p v d
    using mem [OF that(1)] that(2) inv(5) [of e i p v d] c(3) views by auto
  show ?thesis
  proof (rule pair_invI, unfold s', goal_cases)
    case 1 show ?case using inv(1) c(1) by simp
  next
    case (2 e v) then show ?case using inv(2) [of e v] c(2) \<open>good u\<close> by auto
  next
    case (3 e i p) then show ?case using mem [OF 3(1)] inv(3) [of e i p] views by auto
  next
    case (4 e i p v) then show ?case using mem [OF 4(1)] inv(4) [of e i p v] inv(4) [of e i "Waiting u" u] views by auto
  next
    case (5 e i p v d)
    from old [OF this] show ?case
    proof (elim disjE conjE)
      assume "(e, i, p) \<in> set (tasks s)" "d \<noteq> c"
      with inv(5) [of e i p v d] 5 sub show ?thesis by auto
    next
      assume "v = u" "d = c" "p = Delivered u c"
      with gone 5 show ?thesis by auto
    qed
  next
    case (6 e i p v d e' i' p')
    from old [OF 6(1,2)] old [OF 6(3,4)] inv(6) [of e i p v d e' i' p'] 6 show ?case by auto
  qed
qed

lemma pair_inv_request:
  assumes "pair_inv good s" and "relay_inv L s" and t: "(c, ip, Handshaking) \<in> set (tasks s)" and "good u"
  shows "pair_inv good (on_request v L c ip u s)"
proof -
  let ?s = "s\<lparr>presented := (c, u) # presented s\<rparr>"
  have dist: "distinct (map fst (tasks s))" using assms(2) by (simp add: relay_inv_def)
  note present = pair_inv_present [OF assms]
  show ?thesis
  proof (cases "map_of (waiting s) u")
    case (Some d)
    let ?t = "?s\<lparr>waiting := AList.delete u (waiting s)\<rparr>"
    have "pair_inv good (finish c ip (deliver d u c ?t))"
    proof (cases "deliver d u c ?t = ?t")
      case True
      show ?thesis unfolding True by (rule present [where w = d]) (auto simp: finish_def)
    next
      case False
      with deliver_waits [of d u c ?t] obtain i where d: "(d, i, Waiting u) \<in> set (tasks s)"
        and eq: "deliver d u c ?t = go d (Delivered u c) ?t" by auto
      have w: "r = Waiting u" if "(d, i', r) \<in> set (tasks s)" for i' r
        using that d dist by (metis eq_key_imp_eq_value prod.inject)
      show ?thesis unfolding eq
        by (rule present [where w = d]) (use w in \<open>auto simp: finish_def go_def split: if_splits\<close>)
    qed
    moreover have "pair_inv good (crash c ip u False ?t)" by (rule present [where w = d]) (auto simp: crash_def)
    ultimately show ?thesis using Some by (simp add: on_request_def enter_room_def Let_def)
  next
    case None
    have "pair_inv good (bail_out c ip u ?s)" by (rule present) (auto simp: bail_out_def crash_def finish_def split: if_splits)
    moreover have "pair_inv good (crash c ip u False (?s\<lparr>waiting := room\<rparr>))" for room
      by (rule present) (auto simp: crash_def)
    moreover have "pair_inv good (go c (Waiting u) (?s\<lparr>waiting := room\<rparr>))" for room
    proof (rule present [where w = c])
      show "\<forall>e i. (e, i, Delivered u c) \<notin> set (tasks (go c (Waiting u) (?s\<lparr>waiting := room\<rparr>)))"
        using pair_invD(5) [OF assms(1), of _ _ "Delivered u c" u c] t
        by (force simp: go_def phase_views)
    qed (auto simp: go_def split: if_splits)
    ultimately show ?thesis using None by (simp add: on_request_def enter_room_def Let_def)
  qed
qed

lemma pair_inv_reachable:
  assumes "relay_reachable v L decode key s"
  shows "pair_inv (\<lambda>u. \<exists>stream. read_request decode key stream = Inr u) s"
  using assms
proof (induction rule: relay_reachable.induct)
  case init
  show ?case by (simp add: pair_inv_def relay_init_def)
next
  case (gives_up s c ip uuid)
  then have "distinct (map fst (tasks s))" using relay_inv_reachable relay_inv_def by blast
  with gives_up show ?case
    unfolding on_give_up_def by (intro pair_inv_go [where q = "Waiting uuid"]) (auto simp: phase_views)
next
  case (partners s c ip uuid d)
  then have "distinct (map fst (tasks s))" using relay_inv_reachable relay_inv_def by blast
  with partners show ?case
    unfolding on_partner_def
    by (auto intro!: pair_inv_bail_out pair_inv_crash pair_inv_go [where q = "Delivered uuid d"] simp: pair_inv_other phase_views)
qed (auto intro!: pair_inv_finish pair_inv_bail_out pair_inv_accept pair_inv_request relay_inv_reachable
    simp: on_clean_def on_bridge_end_def pair_inv_other)

section \<open>The promises of the relay\<close>

text \<open>C35. The limits hold under every interleaving of tasks: the counter of an address is the number of its running
  tasks and of those that ended by a panic, and never exceeds the limit per address, the waiting room never
  exceeds its limit, the number of active relays is the number of tasks that drive a bridge and of those that panicked when they
  began to, and bridges and free permits make up the session limit. Only tasks whose UUID has a character
  across its eighth byte panic; where a panic aborts, the server ends with the first of them. (A connection handed
  over to its partner is bridged by the partner's task and no longer counts for its own address.)\<close>

theorem relay_limits_hold:
  assumes "relay_reachable v L decode key s"
  shows "count_of ip (counts s) = ip_tasks ip (tasks s) + lost_slots ip (lost s) \<and> count_of ip (counts s) \<le> max_per_ip L \<and>
    length (waiting s) \<le> max_waiting L \<and> active s = of_nat (bridges (tasks s) + lost_relays (lost s)) \<and>
    permits s + bridges (tasks s) = max_sessions L \<and> list_all (\<lambda>(_, u, _). cut_panics u) (lost s)"
  using relay_inv_reachable [OF assms] by (simp add: relay_inv_def)

text \<open>C34. A bridge joins two different connections that presented the same UUID in a request the server
  accepted, the licence key included, and neither of them is in another bridge.\<close>

theorem relay_bridge_matches:
  assumes "relay_reachable v L decode key s" and "(c, ip, Bridging u d) \<in> set (tasks s)"
  shows "c \<noteq> d \<and> (c, u) \<in> set (presented s) \<and> (d, u) \<in> set (presented s) \<and>
    (\<exists>stream payload rest rr. decode_frame stream = Inr (payload, rest) \<and>
       decode payload = Some (Some (Request_Relay rr)) \<and> rr_uuid rr = u \<and> u \<noteq> [] \<and>
       (key = [] \<or> rr_licence_key rr = key)) \<and>
    (\<forall>c' ip' u' d'. (c', ip', Bridging u' d') \<in> set (tasks s) \<longrightarrow> {c, d} \<inter> {c', d'} \<noteq> {} \<longrightarrow> c' = c \<and> d' = d)"
proof -
  have views: "uuid_of (Bridging u d) = Some u" "partner_of (Bridging u d) = Some (u, d)" for u d
    by (simp_all add: phase_views)
  note inv = pair_invD [OF pair_inv_reachable [OF assms(1)]]
  have dist: "distinct (map fst (tasks s))" using relay_inv_reachable [OF assms(1)] by (simp add: relay_inv_def)
  note cu = inv(4) [OF assms(2) views(1)] and du = inv(5) [OF assms(2) views(2)]
  have ne: "c \<noteq> d" using du assms(2) by force
  have "\<exists>stream. read_request decode key stream = Inr u" using inv(2) [OF cu] by simp
  then have acc: "\<exists>stream payload rest rr. decode_frame stream = Inr (payload, rest) \<and>
       decode payload = Some (Some (Request_Relay rr)) \<and> rr_uuid rr = u \<and> u \<noteq> [] \<and>
       (key = [] \<or> rr_licence_key rr = key)"
    by (fastforce simp: read_request_def split: sum.splits option.splits rendezvous_union.splits if_splits prod.splits)
  have "c' = c \<and> d' = d" if b: "(c', ip', Bridging u' d') \<in> set (tasks s)" and meet: "{c, d} \<inter> {c', d'} \<noteq> {}"
    for c' ip' u' d'
  proof -
    note du' = inv(5) [OF b views(2)]
    have "d \<noteq> c'" "c \<noteq> d'" using du du' assms(2) b by force+
    with meet have "c = c' \<or> d = d'" by auto
    then show ?thesis
    proof
      assume "c = c'"
      with dist assms(2) b show ?thesis by (metis eq_key_imp_eq_value prod.inject phase.inject(4))
    next
      assume d: "d = d'"
      then have "u' = u" using du du' inv(1) by (metis eq_key_imp_eq_value)
      with d inv(6) [OF assms(2) views(2), of c' ip' "Bridging u' d'"] b views show ?thesis by simp
    qed
  qed
  with cu du ne acc show ?thesis by blast
qed

text \<open>Sample requests with the UUID \<open>u\<close>.\<close>

definition sample_decode :: "bytes \<Rightarrow> rendezvous_union option option" where
  "sample_decode payload = Some (Some (Request_Relay
     \<lparr>rr_id = [], rr_uuid = str_of_bytes payload, rr_relay_server = [], rr_licence_key = [], rr_target_port = 0\<rparr>))"

lemma sample_request_read: "read_request sample_decode [] (encode_frame (as_bytes ''u'')) = Inr ''u''"
proof -
  have "decode_frame (encode_frame (as_bytes ''u'') @ []) = Inr (as_bytes ''u'', [])"
    by (rule decode_encode_frame) (simp add: codec_sendable_def MAX_PAYLOAD_def)
  then show ?thesis by (simp add: read_request_def sample_decode_def)
qed

text \<open>The first connection with \<open>u\<close> waits, the second is paired with it.\<close>

definition one_waits :: "unit relay_state" where
  "one_waits = on_request Quiet default_limits 0 () ''u'' (accept default_limits () (relay_init default_limits))"

definition two_bridged :: "unit relay_state" where
  "two_bridged = on_partner Quiet 0 () ''u'' 1 (on_request Quiet default_limits 1 () ''u'' (accept default_limits () one_waits))"

lemmas relay_ops = on_request_def on_partner_def on_give_up_def on_clean_def accept_def try_acquire_def enter_room_def
  deliver_def go_def crash_def bail_out_def cut_panics_def finish_def release_def set_phase_def drop_task_def relay_init_def default_limits_def count_of_def Let_def

lemma one_waits_eq: "one_waits = \<lparr>waiting = [(''u'', 0)], counts = [() \<mapsto> 1], active = 0, total = 0, permits = 200,
    tasks = [(0, (), Waiting ''u'')], next_id = 1, presented = [(0, ''u'')], lost = []\<rparr>"
  by (simp add: one_waits_def relay_ops)

lemma one_waits_reachable: "relay_reachable Quiet default_limits sample_decode [] one_waits"
  unfolding one_waits_def
  by (rule relay_reachable.requests [OF relay_reachable.accepts [OF relay_reachable.init] _ sample_request_read])
    (simp add: relay_ops)

lemma two_bridged_tasks: "tasks two_bridged = [(0, (), Bridging ''u'' 1)]" "lost two_bridged = []"
  by (simp_all add: two_bridged_def one_waits_eq relay_ops)

lemma two_bridged_reachable: "relay_reachable Quiet default_limits sample_decode [] two_bridged"
proof -
  let ?s = "accept default_limits () one_waits"
  have "relay_reachable Quiet default_limits sample_decode [] (on_request Quiet default_limits 1 () ''u'' ?s)"
    by (rule relay_reachable.requests [OF relay_reachable.accepts [OF one_waits_reachable] _ sample_request_read])
      (simp add: one_waits_eq relay_ops)
  then show ?thesis
    unfolding two_bridged_def by (rule relay_reachable.partners) (simp add: one_waits_eq relay_ops)
qed

theorem relay_limits_hold_witness:
  "relay_reachable Quiet default_limits sample_decode [] two_bridged \<and> active two_bridged = 1 \<and> permits two_bridged = 199 \<and>
    count_of () (counts two_bridged) = 1"
  using relay_limits_hold [OF two_bridged_reachable, of "()"] two_bridged_reachable
  by (simp add: two_bridged_tasks bridges_def ip_tasks_def default_limits_def)

theorem relay_bridge_matches_witness:
  "(0::nat, ''u'') \<in> set (presented two_bridged) \<and> (1, ''u'') \<in> set (presented two_bridged)"
  using relay_bridge_matches [OF two_bridged_reachable, of 0 "()" "''u''" 1] by (simp add: two_bridged_tasks)

text \<open>A lost slot: a connection whose UUID has a character across the eighth byte waits in vain, and the message
  about it panics. No task is left and the slot is taken for ever; ten such connections lock their address out. (The release profile aborts the server instead.)\<close>

definition cut_uuid :: string where "cut_uuid = ''abcdefg'' @ [CHR 0xC3, CHR 0xA9]"

theorem relay_slot_lost:
  "\<exists>s :: unit relay_state. relay_reachable Quiet default_limits sample_decode [] s \<and> tasks s = [] \<and> count_of () (counts s) = 1"
proof -
  let ?L = default_limits
  have "decode_frame (encode_frame (as_bytes cut_uuid) @ []) = Inr (as_bytes cut_uuid, [])"
    by (rule decode_encode_frame) (simp add: codec_sendable_def MAX_PAYLOAD_def cut_uuid_def)
  then have read: "read_request sample_decode [] (encode_frame (as_bytes cut_uuid)) = Inr cut_uuid"
    by (simp add: read_request_def sample_decode_def) (simp add: cut_uuid_def)
  have cut: "cut_panics cut_uuid" by code_simp
  let ?s1 = "on_request Quiet ?L 0 () cut_uuid (accept ?L () (relay_init ?L))"
  have s1: "?s1 = \<lparr>waiting = [(cut_uuid, 0)], counts = [() \<mapsto> 1], active = 0, total = 0, permits = 200,
    tasks = [(0, (), Waiting cut_uuid)], next_id = 1, presented = [(0, cut_uuid)], lost = []\<rparr>"
    by (simp add: on_request_def accept_def try_acquire_def enter_room_def go_def set_phase_def relay_init_def
        default_limits_def count_of_def)
  have "relay_reachable Quiet ?L sample_decode [] ?s1"
    by (rule relay_reachable.requests [OF relay_reachable.accepts [OF relay_reachable.init] _ read]) (simp add: relay_ops)
  then have "relay_reachable Quiet ?L sample_decode [] (on_give_up 0 cut_uuid ?s1)"
    by (rule relay_reachable.gives_up) (simp add: s1)
  then have "relay_reachable Quiet ?L sample_decode [] (on_clean 0 () cut_uuid (on_give_up 0 cut_uuid ?s1))"
    by (rule relay_reachable.cleans) (simp add: s1 on_give_up_def go_def)
  then show ?thesis
    by (intro exI [of _ "on_clean 0 () cut_uuid (on_give_up 0 cut_uuid ?s1)"] conjI)
      (simp_all add: s1 cut on_give_up_def on_clean_def bail_out_def crash_def go_def drop_task_def set_phase_def count_of_def)
qed

text \<open>A late cleanup removes another connection's entry: the first connection gives up, the second
  finds its entry and is dropped with it, the third registers, and then the first removes the entry
  of the third, which waits on without being in the room.\<close>

lemma relay_stale_cleanup:
  "\<exists>s :: unit relay_state. relay_reachable Quiet default_limits sample_decode [] s \<and>
     (2, (), Waiting ''u'') \<in> set (tasks s) \<and> waiting s = []"
proof -
  let ?L = default_limits
  let ?s1 = "on_give_up 0 ''u'' one_waits"
  let ?s2 = "on_request Quiet ?L 1 () ''u'' (accept ?L () ?s1)"
  let ?s3 = "on_request Quiet ?L 2 () ''u'' (accept ?L () ?s2)"
  have "relay_reachable Quiet ?L sample_decode [] ?s1"
    by (rule relay_reachable.gives_up [OF one_waits_reachable]) (simp add: one_waits_eq)
  then have "relay_reachable Quiet ?L sample_decode [] ?s2"
    by (rule relay_reachable.requests [OF relay_reachable.accepts _ sample_request_read])
      (simp add: one_waits_eq relay_ops)
  then have "relay_reachable Quiet ?L sample_decode [] ?s3"
    by (rule relay_reachable.requests [OF relay_reachable.accepts _ sample_request_read])
      (simp add: one_waits_eq relay_ops)
  then have "relay_reachable Quiet ?L sample_decode [] (on_clean 0 () ''u'' ?s3)"
    by (rule relay_reachable.cleans) (simp add: one_waits_eq relay_ops)
  moreover have "(2, (), Waiting ''u'') \<in> set (tasks (on_clean 0 () ''u'' ?s3)) \<and> waiting (on_clean 0 () ''u'' ?s3) = []"
    by (simp add: one_waits_eq relay_ops)
  ultimately show ?thesis by blast
qed

end
