(* ===== verification/Scp.thy ===== *)
theory Scp
  imports File_System Byte_Stream "HOL-Library.Char_ord" "HOL-Library.List_Lexorder"
begin

text \<open>
  \<open>mrsh-server/src/scp.rs\<close>: the scp protocol over an SSH channel. The source walks a directory and sends
  headers and contents, each acknowledged by a zero byte; the sink rebuilds the directory from them. A
  state is the two directions of the channel with the disk. What the source finds on its disk is a tree of
  named nodes; writes to the channel succeed.
\<close>

section \<open>Text\<close>

text \<open>\<open>String::from_utf8_lossy\<close>: every maximal part of an ill-formed sequence becomes U+FFFD.\<close>

definition sequence_len :: "byte \<Rightarrow> nat" where
  "sequence_len b =
     (if b \<le> 0x7F then 1 else if 0xC2 \<le> b \<and> b \<le> 0xDF then 2 else if 0xE0 \<le> b \<and> b \<le> 0xEF then 3
      else if 0xF0 \<le> b \<and> b \<le> 0xF4 then 4 else 0)"

definition second_byte :: "byte \<Rightarrow> byte \<Rightarrow> bool" where
  "second_byte b c \<longleftrightarrow>
     (if b = 0xE0 then 0xA0 \<le> c \<and> c \<le> 0xBF else if b = 0xED then 0x80 \<le> c \<and> c \<le> 0x9F
      else if b = 0xF0 then 0x90 \<le> c \<and> c \<le> 0xBF else if b = 0xF4 then 0x80 \<le> c \<and> c \<le> 0x8F else cont c)"

definition good_rest :: "byte \<Rightarrow> bytes \<Rightarrow> nat" where
  "good_rest b cs = (case cs of [] \<Rightarrow> 0 | c # ds \<Rightarrow> if second_byte b c then Suc (length (takeWhile cont ds)) else 0)"

function lossy_utf8 :: "bytes \<Rightarrow> string" where
  "lossy_utf8 [] = []"
| "lossy_utf8 (b # r) =
     (let k = good_rest b (take (sequence_len b - 1) r)
      in (if sequence_len b = Suc k then str_of_bytes (b # take k r) else [CHR 0xEF, CHR 0xBF, CHR 0xBD])
         @ lossy_utf8 (drop k r))"
  by pat_completeness auto
termination
  by (relation "measure length") auto

lemma utf8_sequence:
  assumes "utf8_valid (b # bs)"
  shows "\<exists>k r. bs = k @ r \<and> utf8_valid r \<and> sequence_len b = Suc (length k) \<and> good_rest b k = length k"
proof -
  have no: "\<not> b \<le> 0x7F" if "0xC2 \<le> b" using that by (auto simp: word_le_nat_alt)
  consider (1) "b \<le> 0x7F" | (2) "0xC2 \<le> b" "b \<le> 0xDF" | (3) "0xE0 \<le> b" "b \<le> 0xEF" | (4) "0xF0 \<le> b" "b \<le> 0xF4"
    using assms by (auto split: if_splits)
  then show ?thesis
  proof cases
    case 1
    then have "sequence_len b = Suc (length []) \<and> good_rest b [] = length []"
      by (simp add: sequence_len_def good_rest_def)
    with assms 1 show ?thesis by (intro exI [of _ "[]"] exI [of _ bs]) simp
  next
    case 2
    with assms no obtain c r where bs: "bs = c # r" "cont c" "utf8_valid r" by (auto split: list.splits)
    have "b \<noteq> 0xE0 \<and> b \<noteq> 0xED \<and> b \<noteq> 0xF0 \<and> b \<noteq> 0xF4" using 2 by auto
    with 2 no bs have "sequence_len b = Suc (length [c]) \<and> good_rest b [c] = length [c]"
      by (simp add: sequence_len_def good_rest_def second_byte_def)
    with bs show ?thesis by (intro exI [of _ "[c]"] exI [of _ r]) simp
  next
    case 3
    then have n: "0xC2 \<le> b" "\<not> b \<le> 0xDF" by (auto simp: word_le_nat_alt)
    with assms no 3 obtain c d r where bs: "bs = c # d # r" "utf8_valid r" "cont d"
      and c: "if b = 0xE0 then 0xA0 \<le> c \<and> c \<le> 0xBF else if b = 0xED then 0x80 \<le> c \<and> c \<le> 0x9F else cont c"
      by (auto split: list.splits)
    have "b \<noteq> 0xF0 \<and> b \<noteq> 0xF4" using 3 by auto
    with 3 n no c bs have "sequence_len b = Suc (length [c, d]) \<and> good_rest b [c, d] = length [c, d]"
      by (simp add: sequence_len_def good_rest_def second_byte_def)
    with bs show ?thesis by (intro exI [of _ "[c, d]"] exI [of _ r]) simp
  next
    case 4
    then have n: "0xC2 \<le> b" "\<not> b \<le> 0xDF" "\<not> b \<le> 0xEF" by (auto simp: word_le_nat_alt)
    with assms no 4 obtain c d e r where bs: "bs = c # d # e # r" "utf8_valid r" "cont d" "cont e"
      and c: "if b = 0xF0 then 0x90 \<le> c \<and> c \<le> 0xBF else if b = 0xF4 then 0x80 \<le> c \<and> c \<le> 0x8F else cont c"
      by (auto split: list.splits)
    have "b \<noteq> 0xE0 \<and> b \<noteq> 0xED" using 4 by auto
    with c have "second_byte b c" by (simp add: second_byte_def)
    then have g: "good_rest b [c, d, e] = length [c, d, e]" using bs(3,4) by (simp add: good_rest_def)
    have "\<not> b \<le> 0x7F" using n no by simp
    with 4 n have "sequence_len b = 4" by (simp only: sequence_len_def simp_thms if_True if_False)
    then have "sequence_len b = Suc (length [c, d, e])" by simp
    moreover have "bs = [c, d, e] @ r" by (simp only: bs(1) append_Cons append_Nil)
    ultimately show ?thesis using bs(2) g by blast
  qed
qed

lemma lossy_valid: "utf8_valid bs \<Longrightarrow> lossy_utf8 bs = str_of_bytes bs"
proof (induction bs rule: lossy_utf8.induct)
  case 1
  then show ?case by (simp add: str_of_bytes_def)
next
  case (2 b bs)
  obtain k r where k: "bs = k @ r" "utf8_valid r" "sequence_len b = Suc (length k)" "good_rest b k = length k"
    using utf8_sequence [OF "2.prems"] by auto
  then have "lossy_utf8 r = str_of_bytes r" using "2.IH" by simp
  with k show ?case by (simp add: Let_def str_of_bytes_def)
qed

lemma lossy_as_bytes [simp]: "is_str s \<Longrightarrow> lossy_utf8 (as_bytes s) = s"
  by (simp add: lossy_valid is_str_def)

text \<open>\<open>{:?}\<close> of a byte as a character.\<close>

definition unprintable :: "byte \<Rightarrow> bool" where
  "unprintable b \<longleftrightarrow> b < 0x20 \<or> 0x7F \<le> b \<and> b \<le> 0xA0 \<or> b = 0xAD"

definition debug_char :: "byte \<Rightarrow> string" where
  "debug_char b =
     [CHR 0x27]
     @ (if b = 0 then [CHR 0x5C, CHR ''0''] else if b = 9 then [CHR 0x5C, CHR ''t''] else if b = 10 then [CHR 0x5C, CHR ''n'']
        else if b = 13 then [CHR 0x5C, CHR ''r''] else if b = 0x27 \<or> b = 0x5C then [CHR 0x5C, char_of (unat b)]
        else if unprintable b then CHR 0x5C # ''u{'' @ dropWhile ((=) (CHR ''0'')) (hex_byte b) @ ''}''
        else if b < 0x80 then [char_of (unat b)]
        else [char_of (0xC0 + unat b div 64), char_of (0x80 + unat b mod 64)])
     @ [CHR 0x27]"

section \<open>The state\<close>

record scp = stream +
  sc_disk :: disk

text \<open>A node as the system presents it: a file with its length and contents, or the errors of asking for them;
  a directory that can be listed (entries that cannot be read are left out) or not.\<close>

datatype fs_node =
    File_Node (node_name: string) "string + nat" "string + bytes"
  | Dir_Node (node_name: string) "fs_node list"
  | Dir_Locked (node_name: string) string

type_synonym finder = "string \<Rightarrow> string + fs_node"

definition sc_fs :: "(disk \<Rightarrow> 'a \<times> disk) \<Rightarrow> (scp, 'a) act" where
  "sc_fs f s = (case f (sc_disk s) of (r, d) \<Rightarrow> (Inr r, s\<lparr>sc_disk := d\<rparr>))"

definition exit_code :: "'a result \<Rightarrow> nat" where
  "exit_code r = (case r of Inr _ \<Rightarrow> 0 | Inl _ \<Rightarrow> 1)"

definition scp_error :: "string \<Rightarrow> (scp, unit) act" where
  "scp_error msg = then_do (put_bytes [1]) (\<lambda>_. then_do (put_bytes (as_bytes msg)) (\<lambda>_. put_bytes [10]))"

text \<open>Report an error and give up; \<open>ack\<close> and waiting for one.\<close>

definition stop :: "string \<Rightarrow> (scp, 'a) act" where
  "stop msg = then_do (scp_error msg) (\<lambda>_. bail (Failed msg))"

definition ack :: "(scp, unit) act" where
  "ack = put_bytes [0]"

definition expect_ack :: "(scp, unit) act" where
  "expect_ack s =
     (case inp s of
        [] \<Rightarrow> (Inl Eof, s)
      | b # r \<Rightarrow> (if b = 0 then Inr () else Inl (Failed ''not acknowledged''), s\<lparr>inp := r\<rparr>))"

section \<open>The source\<close>

definition send_file :: "string \<Rightarrow> string \<Rightarrow> nat \<Rightarrow> string + bytes \<Rightarrow> (scp, unit) act" where
  "send_file path name len contents =
     then_do (put_bytes (as_bytes (''C0644 '' @ show_nat len @ '' '' @ lossy_utf8 (as_bytes name) @ [CHR 0x0A]))) (\<lambda>_.
     then_do expect_ack (\<lambda>_.
       case contents of
         Inl e \<Rightarrow> stop (''scp: open '' @ path @ '': '' @ e)
       | Inr data \<Rightarrow>
           then_do (put_bytes data) (\<lambda>_. then_do (put_bytes [0]) (\<lambda>_. expect_ack))))"

definition open_dir :: "string \<Rightarrow> (scp, unit) act" where
  "open_dir name =
     then_do (put_bytes (as_bytes (''D0755 0 '' @ lossy_utf8 (as_bytes name) @ [CHR 0x0A]))) (\<lambda>_. expect_ack)"

definition close_dir :: "(scp, unit) act" where
  "close_dir = then_do (put_bytes (as_bytes (''E'' @ [CHR 0x0A]))) (\<lambda>_. expect_ack)"

text \<open>\<open>read_dir\<close> in the order of \<open>sort_by_key\<close>, at every level.\<close>

fun in_order :: "fs_node \<Rightarrow> fs_node" where
  "in_order (Dir_Node n kids) = Dir_Node n (sort_key node_name (map in_order kids))"
| "in_order nd = nd"

fun send_entries :: "string \<Rightarrow> fs_node list \<Rightarrow> (scp, unit) act" where
  "send_entries dir [] = give ()"
| "send_entries dir (File_Node name meta contents # nodes) =
     then_do (case meta of Inl _ \<Rightarrow> give () | Inr len \<Rightarrow> send_file (path_join dir name) name len contents) (\<lambda>_.
       send_entries dir nodes)"
| "send_entries dir (Dir_Locked name e # nodes) =
     then_do (open_dir name) (\<lambda>_. stop (''scp: readdir '' @ path_join dir name @ '': '' @ e))"
| "send_entries dir (Dir_Node name kids # nodes) =
     then_do (open_dir name) (\<lambda>_.
     then_do (send_entries (path_join dir name) kids) (\<lambda>_.
     then_do close_dir (\<lambda>_. send_entries dir nodes)))"

definition send_dir :: "string \<Rightarrow> string + fs_node list \<Rightarrow> (scp, unit) act" where
  "send_dir dir listing =
     then_do (open_dir (name_or_empty dir)) (\<lambda>_.
       case listing of
         Inl e \<Rightarrow> stop (''scp: readdir '' @ dir @ '': '' @ e)
       | Inr kids \<Rightarrow> then_do (send_entries dir (sort_key node_name (map in_order kids))) (\<lambda>_. close_dir))"

definition scp_source :: "finder \<Rightarrow> string \<Rightarrow> bool \<Rightarrow> (scp, unit) act" where
  "scp_source look_up path recursive s =
     (case inp s of
        [] \<Rightarrow> (Inl Eof, s)
      | _ # r \<Rightarrow>
          (case look_up path of
             Inl e \<Rightarrow> stop (''scp: '' @ e)
           | Inr (File_Node _ (Inl e) _) \<Rightarrow> stop (''scp: '' @ e)
           | Inr (File_Node _ (Inr len) contents) \<Rightarrow> send_file path (name_or_empty path) len contents
           | Inr (Dir_Node _ kids) \<Rightarrow>
               if \<not> recursive then stop (''scp: '' @ path @ '': is a directory (use -r)'') else send_dir path (Inr kids)
           | Inr (Dir_Locked _ e) \<Rightarrow>
               if \<not> recursive then stop (''scp: '' @ path @ '': is a directory (use -r)'') else send_dir path (Inl e))
            (s\<lparr>inp := r\<rparr>))"

section \<open>The sink\<close>

definition read_line :: "(scp, bytes) act" where
  "read_line s =
     (case dropWhile (\<lambda>b. b \<noteq> 10) (inp s) of
        [] \<Rightarrow> (Inl Eof, s\<lparr>inp := []\<rparr>)
      | _ # r \<Rightarrow> (Inr (takeWhile (\<lambda>b. b \<noteq> 10) (inp s)), s\<lparr>inp := r\<rparr>))"

text \<open>\<open>splitn(3, ' ')\<close>.\<close>

definition splitn_3 :: "string \<Rightarrow> string list" where
  "splitn_3 s =
     (case split_char (CHR '' '') [] s of
        a # b # rest \<Rightarrow> if rest = [] then [a, b] else [a, b, join '' '' rest]
      | ps \<Rightarrow> ps)"

definition is_dir :: "disk \<Rightarrow> string \<Rightarrow> bool" where
  "is_dir d p \<longleftrightarrow> fault d p = None \<and> p \<in> folders d"

text \<open>The loop that copies \<open>len\<close> bytes from the channel to the file; then the byte after them, if any.\<close>

definition receive_data :: "string \<Rightarrow> nat \<Rightarrow> (scp, unit) act" where
  "receive_data path len s =
     (let got = take len (inp s);
          s1 = s\<lparr>inp := drop len (inp s), sc_disk := snd (fs_write path got (sc_disk s))\<rparr>
      in if length got < len
         then (Inl (Failed (''unexpected EOF at '' @ show_nat (length got) @ ''/'' @ show_nat len @ '' bytes'')), s1)
         else (Inr (), s1\<lparr>inp := drop 1 (inp s1)\<rparr>))"

definition receive_file :: "bytes \<Rightarrow> string \<Rightarrow> (scp, unit) act" where
  "receive_file header target_dir s =
     (let text = lossy_utf8 (tl header); parts = splitn_3 text
      in if length parts < 3 then bail (Failed ''invalid file header'') s
         else case parse_uint (2 ^ 64) (parts ! 1) of
           None \<Rightarrow> bail (Failed (''invalid size: '' @ parts ! 1)) s
         | Some len \<Rightarrow>
             let name = trim (parts ! 2);
                 file_path = (if is_dir (sc_disk s) target_dir then path_join target_dir name else target_dir)
             in then_do (sc_fs (\<lambda>d. case path_parent file_path of Some p \<Rightarrow> create_dir_all p d | None \<Rightarrow> (None, d))) (\<lambda>_.
                then_do ack (\<lambda>_.
                then_do (sc_fs (fs_write file_path [])) (\<lambda>created.
                  case created of
                    Some e \<Rightarrow> bail (Failed (''create '' @ file_path @ '': '' @ show_io e))
                  | None \<Rightarrow> then_do (receive_data file_path len) (\<lambda>_. ack)))) s)"

text \<open>The text of an error of \<open>receive_file\<close>.\<close>

definition fail_text :: "err \<Rightarrow> string" where
  "fail_text e = (case e of Failed m \<Rightarrow> m | _ \<Rightarrow> [])"

lemma read_line_shrinks: "read_line s = (Inr l, s') \<Longrightarrow> length (inp s') < length (inp s)"
  using length_dropWhile_le [of "\<lambda>b. b \<noteq> 10" "inp s"] by (auto simp: read_line_def split: list.splits)

lemma read_line_step: "(Inr l, s') = read_line s \<Longrightarrow> length (inp s') < length (inp s)"
  using read_line_shrinks [of s l s'] by simp

lemma receive_file_consumes: "length (inp (snd (receive_file h dir s))) \<le> length (inp s)"
  by (auto simp: receive_file_def receive_data_def then_do_def sc_fs_def ack_def put_bytes_def bail_def Let_def
      split: option.split prod.split sum.split)

lemma receive_file_step: "(r, s') = receive_file h dir s \<Longrightarrow> length (inp s') \<le> length (inp s)"
  using receive_file_consumes [of h dir s] by (metis snd_conv)

function scp_sink_loop :: "string \<Rightarrow> scp \<Rightarrow> nat \<times> scp" where
  "scp_sink_loop current_dir s =
     (case read_line s of
        (Inl _, s1) \<Rightarrow> (0, s1)
      | (Inr line, s1) \<Rightarrow>
          if line = [] then scp_sink_loop current_dir s1
          else if hd line = of_char (CHR ''C'') then
            (case receive_file line current_dir s1 of
               (Inl e, s2) \<Rightarrow> (1, snd (scp_error (''scp: '' @ fail_text e) s2))
             | (Inr _, s2) \<Rightarrow> scp_sink_loop current_dir s2)
          else if hd line = of_char (CHR ''D'') then
            (let parts = splitn_3 (lossy_utf8 (tl line))
             in if length parts < 3 then (1, snd (scp_error ''scp: invalid directory header'' s1))
                else
                  let dir = path_join current_dir (trim (parts ! 2))
                  in case create_dir_all dir (sc_disk s1) of
                       (Some e, d) \<Rightarrow> (1, snd (scp_error (''scp: mkdir '' @ dir @ '': '' @ show_io e) (s1\<lparr>sc_disk := d\<rparr>)))
                     | (None, d) \<Rightarrow> scp_sink_loop dir (snd (ack (s1\<lparr>sc_disk := d\<rparr>))))
          else if hd line = of_char (CHR ''E'') then
            scp_sink_loop (case path_parent current_dir of Some p \<Rightarrow> p | None \<Rightarrow> current_dir) (snd (ack s1))
          else if hd line = of_char (CHR ''T'') then scp_sink_loop current_dir (snd (ack s1))
          else (1, snd (scp_error (''scp: unknown command '' @ debug_char (hd line)) s1)))"
  by pat_completeness auto
termination
  by (relation "measure (\<lambda>(dir, s). length (inp s))", rule wf_measure, goal_cases)
    (simp_all add: ack_def put_bytes_def, (fastforce dest: read_line_step receive_file_step)+)

declare scp_sink_loop.simps [simp del]

definition scp_sink :: "string \<Rightarrow> scp \<Rightarrow> nat \<times> scp" where
  "scp_sink target_path s = scp_sink_loop target_path (snd (ack s))"

section \<open>The command\<close>

definition is_scp_command :: "string \<Rightarrow> bool" where
  "is_scp_command cmd \<longleftrightarrow> starts_with cmd ''scp '' \<or> cmd = ''scp''"

record scp_args =
  is_sink :: bool
  is_source :: bool
  recursive :: bool
  target_path :: string

definition scp_arg :: "string \<Rightarrow> scp_args \<Rightarrow> scp_args" where
  "scp_arg arg a =
     (if arg = ''-t'' then a\<lparr>is_sink := True\<rparr> else if arg = ''-f'' then a\<lparr>is_source := True\<rparr>
      else if arg = ''-r'' then a\<lparr>recursive := True\<rparr>
      else if arg = ''-d'' \<or> arg = ''-v'' \<or> arg = ''-p'' then a
      else a\<lparr>target_path := arg\<rparr>)"

definition handle_scp :: "finder \<Rightarrow> string \<Rightarrow> scp \<Rightarrow> nat \<times> scp" where
  "handle_scp look_up command s =
     (let args = split_whitespace command;
          a = fold scp_arg (tl args) \<lparr>is_sink = False, is_source = False, recursive = False, target_path = []\<rparr>
      in if length args < 2 then (1, snd (scp_error ''scp: missing arguments'' s))
         else if target_path a = [] then (1, snd (scp_error ''scp: missing path'' s))
         else if is_sink a then scp_sink (target_path a) s
         else if is_source a
         then (case scp_source look_up (target_path a) (recursive a) s of (r, s') \<Rightarrow> (exit_code r, s'))
         else (1, snd (scp_error ''scp: must specify -t or -f'' s)))"

section \<open>A tree and its place\<close>

text \<open>The names that reach the other side as they are; a tree of readable files under such names.\<close>

definition good_name :: "string \<Rightarrow> bool" where
  "good_name n \<longleftrightarrow>
     n \<noteq> [] \<and> n \<noteq> ''.'' \<and> n \<noteq> ''..'' \<and> CHR ''/'' \<notin> set n \<and> CHR 0x0A \<notin> set n \<and> trim n = n \<and> is_str n"

fun sendable :: "fs_node \<Rightarrow> bool" where
  "sendable (File_Node n (Inr len) (Inr data)) \<longleftrightarrow> good_name n \<and> len = length data \<and> len < 2 ^ 64"
| "sendable (Dir_Node n kids) \<longleftrightarrow> good_name n \<and> distinct (map node_name kids) \<and> list_all sendable kids"
| "sendable _ \<longleftrightarrow> False"

text \<open>The files and directories of the nodes below a directory.\<close>

fun planted :: "string \<Rightarrow> fs_node list \<Rightarrow> (string \<times> bytes) list" where
  "planted dir [] = []"
| "planted dir (File_Node n meta contents # ns) =
     (case contents of Inr data \<Rightarrow> [(path_join dir n, data)] | Inl _ \<Rightarrow> []) @ planted dir ns"
| "planted dir (Dir_Locked n e # ns) = planted dir ns"
| "planted dir (Dir_Node n kids # ns) = planted (path_join dir n) kids @ planted dir ns"

fun made :: "string \<Rightarrow> fs_node list \<Rightarrow> string list" where
  "made dir [] = []"
| "made dir (File_Node n meta contents # ns) = made dir ns"
| "made dir (Dir_Locked n e # ns) = made dir ns"
| "made dir (Dir_Node n kids # ns) = path_join dir n # made (path_join dir n) kids @ made dir ns"

lemma good_name_entry [simp]: "good_name n \<Longrightarrow> entry_name n"
  by (simp add: good_name_def entry_name_def)

text \<open>What lies under which node.\<close>

lemma places_under:
  assumes "list_all sendable ns" "proper_dir dir" "p \<in> fst ` set (planted dir ns) \<union> set (made dir ns)"
  shows "\<exists>x \<in> set ns. under (path_join dir (node_name x)) p"
  using assms
proof (induction dir ns rule: made.induct)
  case (2 dir n meta contents ns)
  then show ?case by (cases contents; cases meta) (auto simp: under_def)
next
  case (4 dir n kids ns)
  have pr: "proper_dir (path_join dir n)" using 4 by (simp add: proper_dir_join_proper)
  show ?case
  proof (cases "p \<in> fst ` set (planted (path_join dir n) kids) \<union> set (made (path_join dir n) kids)")
    case True
    with 4 pr obtain x where x: "x \<in> set kids" "under (path_join (path_join dir n) (node_name x)) p" by auto
    with 4 have "good_name (node_name x)" by (cases x rule: sendable.cases) (auto simp: list_all_iff)
    then have "entry_name (node_name x)" by simp
    then have "under (path_join dir n) (path_join (path_join dir n) (node_name x))" using pr by (rule under_entry [rotated])
    with x show ?thesis by (auto intro: under_trans)
  next
    case False
    with 4 show ?thesis by (auto simp: under_def)
  qed
qed auto

lemma plain_name: "sendable x \<Longrightarrow> good_name (node_name x)"
  by (cases x rule: sendable.cases) auto

lemma places_strict:
  assumes "list_all sendable ns" "proper_dir dir" "p \<in> fst ` set (planted dir ns) \<union> set (made dir ns)"
  shows "p \<noteq> dir"
proof -
  obtain x where "x \<in> set ns" "under (path_join dir (node_name x)) p" using places_under [OF assms] by blast
  with assms child_under(1) [of dir "node_name x" p] plain_name [of x] show ?thesis by (auto simp: list_all_iff)
qed

lemma places_below:
  assumes "list_all sendable ns" "proper_dir dir" "p \<in> fst ` set (planted dir ns) \<union> set (made dir ns)"
  shows "under dir p"
proof -
  obtain x where x: "x \<in> set ns" "under (path_join dir (node_name x)) p" using places_under [OF assms] by blast
  with assms(1) have "under dir (path_join dir (node_name x))"
    by (intro under_entry assms(2) good_name_entry plain_name) (auto simp: list_all_iff)
  with x(2) show ?thesis by (blast intro: under_trans)
qed

lemma places_apart:
  assumes "list_all sendable (x # ns)" "node_name x \<notin> node_name ` set ns" "proper_dir dir"
    and p: "p \<in> fst ` set (planted dir ns) \<union> set (made dir ns)"
  shows "\<not> under (path_join dir (node_name x)) p"
proof
  assume u: "under (path_join dir (node_name x)) p"
  obtain y where y: "y \<in> set ns" "under (path_join dir (node_name y)) p"
    using places_under [OF _ assms(3) p] assms(1) by auto
  then have "node_name x = node_name y"
    using child_under(2) [OF assms(3) _ u] child_under(2) [OF assms(3) _ y(2)] plain_name assms(1)
    by (auto simp: list_all_iff)
  with y assms(2) show False by auto
qed

lemma planted_distinct:
  assumes "list_all sendable ns" "distinct (map node_name ns)" "proper_dir dir"
  shows "distinct (map fst (planted dir ns))"
  using assms
proof (induction dir ns rule: made.induct)
  case (2 dir n meta contents ns)
  then show ?case
    using places_apart [of "File_Node n meta contents" ns dir "path_join dir n"]
    by (cases contents) (auto simp: under_def image_iff)
next
  case (4 dir n kids ns)
  have pr: "proper_dir (path_join dir n)" using 4 by (simp add: proper_dir_join_proper)
  have "fst ` set (planted (path_join dir n) kids) \<inter> fst ` set (planted dir ns) = {}"
  proof (rule ccontr)
    assume "\<not> ?thesis"
    then obtain p where p: "p \<in> fst ` set (planted (path_join dir n) kids)" "p \<in> fst ` set (planted dir ns)" by blast
    have "under (path_join dir n) p" using places_below [of kids "path_join dir n" p] p pr 4 by auto
    then show False using places_apart [of "Dir_Node n kids" ns dir p] 4 p by auto
  qed
  with 4 pr show ?case by simp
qed auto

section \<open>A tree on the wire\<close>

fun wire :: "fs_node list \<Rightarrow> bytes" where
  "wire [] = []"
| "wire (File_Node n meta contents # ns) =
     (case (meta, contents) of
        (Inr len, Inr data) \<Rightarrow> as_bytes (''C0644 '' @ show_nat len @ '' '' @ n) @ 10 # data @ 0 # wire ns
      | _ \<Rightarrow> wire ns)"
| "wire (Dir_Locked n e # ns) = wire ns"
| "wire (Dir_Node n kids # ns) = as_bytes (''D0755 0 '' @ n) @ 10 # wire kids @ of_char (CHR ''E'') # 10 # wire ns"

fun acks :: "fs_node list \<Rightarrow> nat" where
  "acks [] = 0"
| "acks (File_Node n meta contents # ns) = 2 + acks ns"
| "acks (Dir_Locked n e # ns) = acks ns"
| "acks (Dir_Node n kids # ns) = 2 + acks kids + acks ns"

lemma as_bytes_Cons: "as_bytes (c # s) = of_char c # as_bytes s" "as_bytes [] = []"
  by (simp_all add: as_bytes_def)

lemma of_char_newline: "(of_char c = (10 :: byte)) = (c = CHR 0x0A)"
proof
  assume "of_char c = (10 :: byte)"
  then have "(of_char c :: nat) = 10" using unat_of_char [of c] by simp
  then have "c = char_of (10 :: nat)" by (metis char_of_char)
  moreover have "char_of (10 :: nat) = CHR 0x0A" by code_simp
  ultimately show "c = CHR 0x0A" by simp
qed simp

lemma newline_as_bytes: "10 \<in> set (as_bytes s) \<longleftrightarrow> CHR 0x0A \<in> set s"
  by (induction s) (auto simp: as_bytes_def of_char_newline)

lemma send_entries_plain:
  "list_all sendable ns \<Longrightarrow>
    send_entries dir ns \<lparr>inp = replicate (acks ns) 0 @ r, outp = out, sc_disk = d\<rparr> =
      (Inr (), \<lparr>inp = r, outp = out @ wire ns, sc_disk = d\<rparr>)"
proof (induction dir ns arbitrary: r out rule: made.induct)
  case (1 dir)
  then show ?case by (simp add: give_def)
next
  case (2 dir n meta contents ns)
  then show ?case
    by (cases meta; cases contents)
      (auto simp: then_do_def send_file_def put_bytes_def expect_ack_def good_name_def as_bytes_Cons)
next
  case (4 dir n kids ns)
  have "send_entries (path_join dir n) kids \<lparr>inp = replicate (acks kids) 0 @ 0 # replicate (acks ns) 0 @ r,
      outp = out @ as_bytes (''D0755 0 '' @ n) @ [10], sc_disk = d\<rparr> =
    (Inr (), \<lparr>inp = 0 # replicate (acks ns) 0 @ r, outp = out @ as_bytes (''D0755 0 '' @ n) @ 10 # wire kids, sc_disk = d\<rparr>)"
    using 4 by simp
  moreover have "replicate (acks (Dir_Node n kids # ns)) (0 :: byte) = 0 # replicate (acks kids) 0 @ 0 # replicate (acks ns) 0"
    by (simp add: replicate_add replicate_app_Cons_same)
  ultimately show ?case
    using 4 by (simp add: then_do_def open_dir_def close_dir_def put_bytes_def expect_ack_def good_name_def as_bytes_Cons)
qed simp

lemma splitn_3_parts:
  "CHR '' '' \<notin> set a \<Longrightarrow> CHR '' '' \<notin> set b \<Longrightarrow> splitn_3 (a @ CHR '' '' # b @ CHR '' '' # n) = [a, b, n]"
  using join_split_char [of "CHR '' ''" "[]" n]
  by (simp add: splitn_3_def split_char_line)

lemma show_nat_no_space: "CHR '' '' \<notin> set (show_nat n)" "CHR 0x0A \<notin> set (show_nat n)"
  using show_nat_token [of n] by (auto simp: token_def list_all_iff graphic_def)

lemma read_line_eq: "10 \<notin> set l \<Longrightarrow> read_line \<lparr>inp = l @ 10 # r, outp = out, sc_disk = d\<rparr> =
    (Inr l, \<lparr>inp = r, outp = out, sc_disk = d\<rparr>)"
  by (simp add: read_line_def dropWhile_append takeWhile_append dropWhile_eq_Nil_conv)

section \<open>The sink rebuilds the tree\<close>

text \<open>The directory has room for the nodes: it is there, nothing refuses access, no file of theirs is a directory
  there and no directory a file.\<close>

definition room_for :: "string \<Rightarrow> fs_node list \<Rightarrow> disk \<Rightarrow> bool" where
  "room_for dir ns d \<longleftrightarrow>
     dir \<in> folders d \<and> fault d = (\<lambda>_. None) \<and> list_all (\<lambda>(p, _). p \<notin> folders d) (planted dir ns)
     \<and> list_all (\<lambda>p. files d p = None) (made dir ns)"

definition plant :: "string \<Rightarrow> fs_node list \<Rightarrow> disk \<Rightarrow> disk" where
  "plant dir ns d =
     d\<lparr>files := files d ++ map_of (rev (planted dir ns)), folders := set (made dir ns) \<union> folders d\<rparr>"

lemma file_header_parts:
  assumes "is_str n"
  shows "splitn_3 (lossy_utf8 (tl (as_bytes (''C0644 '' @ show_nat len @ '' '' @ n)))) = [''0644'', show_nat len, n]"
proof -
  have "is_ascii ((''0644'' @ [CHR '' '']) @ show_nat len @ [CHR '' ''])"
    using show_nat_token [of len] by (auto simp: is_ascii_def token_def graphic_def list_all_iff)
  then have "is_str (((''0644'' @ [CHR '' '']) @ show_nat len @ [CHR '' '']) @ n)"
    using assms by (intro is_str_ascii_append)
  then have "is_str (''0644'' @ CHR '' '' # show_nat len @ CHR '' '' # n)" by simp
  then have "lossy_utf8 (tl (as_bytes (''C0644 '' @ show_nat len @ '' '' @ n))) = ''0644'' @ CHR '' '' # show_nat len @ CHR '' '' # n"
    by (subst lossy_as_bytes [symmetric]) (simp_all add: as_bytes_Cons)
  then show ?thesis
    using splitn_3_parts [of "''0644''" "show_nat len" n] by (simp add: show_nat_no_space)
qed

lemma write_error_parent: "write_error d p = None \<Longrightarrow> \<exists>q. path_parent p = Some q \<and> (q = [] \<or> q \<in> folders d)"
  by (auto simp: write_error_def parent_there_def split: option.splits if_splits)

lemma create_dir_all_known: "q = [] \<or> q \<in> folders d \<Longrightarrow> create_dir_all q d = (None, d)"
  by (subst create_dir_all.simps) (auto simp: mkdir_or_there_def mkdir_def path_exists_def split: option.split)

text \<open>A file that arrives whole, at a path that can be written.\<close>

lemma receive_file_whole:
  assumes "splitn_3 (lossy_utf8 (tl h)) = [m, show_nat (length data), n]" "length data < 2 ^ 64"
    and "is_dir d dir" "path_join dir (trim n) = p" "write_error d p = None"
  shows "receive_file h dir \<lparr>inp = data @ 0 # r, outp = out, sc_disk = d\<rparr> =
    (Inr (), \<lparr>inp = r, outp = out @ [0, 0], sc_disk = d\<lparr>files := (files d)(p \<mapsto> data)\<rparr>\<rparr>)"
proof -
  obtain q where q: "path_parent p = Some q" "create_dir_all q d = (None, d)"
    using write_error_parent [OF assms(5)] create_dir_all_known by blast
  have "write_error (d\<lparr>files := f\<rparr>) p = None" for f
    using write_error_cong [of "d\<lparr>files := f\<rparr>" d p] assms(5) by simp
  with assms q show ?thesis
    by (simp add: receive_file_def Let_def parse_uint_show then_do_def sc_fs_def ack_def put_bytes_def fs_write_def
        receive_data_def)
qed

lemma receive_plain:
  assumes "good_name n" "proper_dir dir" "length data < 2 ^ 64" "dir \<in> folders d" "fault d = (\<lambda>_. None)"
    "path_join dir n \<notin> folders d"
  shows "receive_file (as_bytes (''C0644 '' @ show_nat (length data) @ '' '' @ n)) dir
      \<lparr>inp = data @ 0 # r, outp = out, sc_disk = d\<rparr> =
    (Inr (), \<lparr>inp = r, outp = out @ [0, 0], sc_disk = d\<lparr>files := (files d)(path_join dir n \<mapsto> data)\<rparr>\<rparr>)"
proof (rule receive_file_whole [OF file_header_parts])
  have "\<not> ends_with (path_join dir n) ''/''"
  proof
    assume "ends_with (path_join dir n) ''/''"
    then have "last (path_join dir n) = CHR ''/''" by (auto simp: ends_with_def suffix_def)
    then have "last n = CHR ''/''" using assms(1,2) by (simp add: proper_dir_join good_name_def)
    with last_in_set [of n] assms(1) show False by (simp add: good_name_def)
  qed
  then show "write_error d (path_join dir n) = None"
    using assms by (simp add: write_error_def parent_there_def parent_of_entry)
qed (use assms in \<open>simp_all add: good_name_def is_dir_def\<close>)

lemma create_entry:
  assumes "good_name n" "proper_dir dir" "dir \<in> folders d" "fault d = (\<lambda>_. None)" "files d (path_join dir n) = None"
  shows "create_dir_all (path_join dir n) d = (None, d\<lparr>folders := insert (path_join dir n) (folders d)\<rparr>)"
proof -
  have "mkdir_or_there (path_join dir n) d = (None, d\<lparr>folders := insert (path_join dir n) (folders d)\<rparr>)"
    using assms by (auto simp: mkdir_or_there_def mkdir_def path_exists_def parent_there_def parent_of_entry insert_absorb)
  then show ?thesis using proper_dir_join [OF assms(2) good_name_entry [OF assms(1)]] by (simp add: create_dir_all.simps)
qed

text \<open>The loop on each kind of line.\<close>

lemma sink_loop_file:
  "read_line s = (Inr line, s1) \<Longrightarrow> line \<noteq> [] \<Longrightarrow> hd line = of_char (CHR ''C'') \<Longrightarrow>
    receive_file line dir s1 = (Inr u, s2) \<Longrightarrow> scp_sink_loop dir s = scp_sink_loop dir s2"
  by (subst scp_sink_loop.simps) simp

lemma sink_loop_dir:
  "read_line s = (Inr line, s1) \<Longrightarrow> line \<noteq> [] \<Longrightarrow> hd line = of_char (CHR ''D'') \<Longrightarrow>
    splitn_3 (lossy_utf8 (tl line)) = [a, b, n] \<Longrightarrow> create_dir_all (path_join dir (trim n)) (sc_disk s1) = (None, d) \<Longrightarrow>
    scp_sink_loop dir s = scp_sink_loop (path_join dir (trim n)) (snd (ack (s1\<lparr>sc_disk := d\<rparr>)))"
  by (subst scp_sink_loop.simps) (simp add: Let_def)

lemma sink_loop_leave:
  "read_line s = (Inr line, s1) \<Longrightarrow> line \<noteq> [] \<Longrightarrow> hd line = of_char (CHR ''E'') \<Longrightarrow>
    scp_sink_loop dir s = scp_sink_loop (case path_parent dir of Some p \<Rightarrow> p | None \<Rightarrow> dir) (snd (ack s1))"
  by (subst scp_sink_loop.simps) simp

lemma sink_file:
  assumes "good_name n" "proper_dir dir" "length data < 2 ^ 64" "dir \<in> folders d" "fault d = (\<lambda>_. None)"
    "path_join dir n \<notin> folders d"
  shows "scp_sink_loop dir \<lparr>inp = as_bytes (''C0644 '' @ show_nat (length data) @ '' '' @ n) @ 10 # data @ 0 # r,
      outp = out, sc_disk = d\<rparr> =
    scp_sink_loop dir \<lparr>inp = r, outp = out @ [0, 0], sc_disk = d\<lparr>files := (files d)(path_join dir n \<mapsto> data)\<rparr>\<rparr>"
proof -
  let ?h = "''C0644 '' @ show_nat (length data) @ '' '' @ n"
  have "10 \<notin> set (as_bytes ?h)" using assms(1) by (simp add: newline_as_bytes show_nat_no_space good_name_def)
  from sink_loop_file [OF read_line_eq [OF this] _ _ receive_plain [OF assms]] show ?thesis
    by (simp add: as_bytes_Cons)
qed

lemma sink_dir:
  assumes "good_name n" "proper_dir dir" "dir \<in> folders d" "fault d = (\<lambda>_. None)" "files d (path_join dir n) = None"
  shows "scp_sink_loop dir \<lparr>inp = as_bytes (''D0755 0 '' @ n) @ 10 # r, outp = out, sc_disk = d\<rparr> =
    scp_sink_loop (path_join dir n)
      \<lparr>inp = r, outp = out @ [0], sc_disk = d\<lparr>folders := insert (path_join dir n) (folders d)\<rparr>\<rparr>"
proof -
  let ?h = "''D0755 0 '' @ n"
  have "10 \<notin> set (as_bytes ?h)" using assms(1) by (simp add: newline_as_bytes good_name_def)
  note line = read_line_eq [OF this]
  have "is_ascii ''0755 0 ''" by code_simp
  then have "lossy_utf8 (tl (as_bytes ?h)) = ''0755 0 '' @ n"
    using assms(1) lossy_as_bytes [OF is_str_ascii_append, of "''0755 0 ''" n] by (simp add: good_name_def as_bytes_Cons)
  moreover have "splitn_3 (''0755 0 '' @ n) = [''0755'', ''0'', n]"
    using splitn_3_parts [of "''0755''" "''0''" n] by simp
  ultimately have parts: "splitn_3 (lossy_utf8 (tl (as_bytes ?h))) = [''0755'', ''0'', n]" by (simp only:)
  have "trim n = n" using assms(1) by (simp add: good_name_def)
  with sink_loop_dir [OF line _ _ parts, of dir] create_entry [OF assms] show ?thesis
    by (simp add: as_bytes_Cons ack_def put_bytes_def)
qed

lemma sink_leave:
  assumes "good_name n" "proper_dir dir"
  shows "scp_sink_loop (path_join dir n) \<lparr>inp = of_char (CHR ''E'') # 10 # r, outp = out, sc_disk = d\<rparr> =
    scp_sink_loop dir \<lparr>inp = r, outp = out @ [0], sc_disk = d\<rparr>"
proof -
  have "10 \<notin> set [of_char (CHR ''E'') :: byte]" by simp
  from sink_loop_leave [OF read_line_eq [OF this]] show ?thesis
    by (simp add: parent_of_entry [OF assms(2) good_name_entry [OF assms(1)]] ack_def put_bytes_def)
qed

lemma sink_end: "scp_sink_loop dir \<lparr>inp = [], outp = out, sc_disk = d\<rparr> = (0, \<lparr>inp = [], outp = out, sc_disk = d\<rparr>)"
  by (subst scp_sink_loop.simps) (simp add: read_line_def)

lemma room_for_iff: "room_for dir ns d \<longleftrightarrow>
    dir \<in> folders d \<and> fault d = (\<lambda>_. None) \<and> fst ` set (planted dir ns) \<inter> folders d = {} \<and> (\<forall>p \<in> set (made dir ns). files d p = None)"
  by (force simp: room_for_def list_all_iff)

lemma room_after_file:
  assumes "room_for dir (File_Node n meta (Inr data) # ns) d" "list_all sendable (File_Node n meta (Inr data) # ns)"
    "distinct (map node_name (File_Node n meta (Inr data) # ns))" "proper_dir dir"
  shows "room_for dir ns (d\<lparr>files := (files d)(path_join dir n \<mapsto> data)\<rparr>)"
  using assms places_apart [of "File_Node n meta (Inr data)" ns dir "path_join dir n"]
  by (auto simp: room_for_def list_all_iff under_def)

lemma room_inside:
  assumes "room_for dir (Dir_Node n kids # ns) d" "list_all sendable (Dir_Node n kids # ns)" "proper_dir dir"
  shows "room_for (path_join dir n) kids (d\<lparr>folders := insert (path_join dir n) (folders d)\<rparr>)"
proof -
  have "path_join dir n \<notin> fst ` set (planted (path_join dir n) kids)"
    using assms(2) places_strict [of kids "path_join dir n"] proper_dir_join_proper [OF assms(3), of n] by auto
  with assms(1) show ?thesis by (auto simp: room_for_iff)
qed

lemma room_after_dir:
  assumes "room_for dir (Dir_Node n kids # ns) d" "list_all sendable (Dir_Node n kids # ns)"
    "distinct (map node_name (Dir_Node n kids # ns))" "proper_dir dir"
  shows "room_for dir ns (plant (path_join dir n) kids (d\<lparr>folders := insert (path_join dir n) (folders d)\<rparr>))"
proof -
  have pr: "proper_dir (path_join dir n)" using assms by (simp add: proper_dir_join_proper)
  have out: "\<not> under (path_join dir n) p" if "p \<in> fst ` set (planted dir ns) \<union> set (made dir ns)" for p
    using places_apart [of "Dir_Node n kids" ns dir p] assms that by simp
  have below: "under (path_join dir n) p" if "p \<in> fst ` set (planted (path_join dir n) kids) \<union> set (made (path_join dir n) kids)" for p
    using places_below [OF _ pr that] assms(2) by simp
  have "p \<notin> fst ` set (planted (path_join dir n) kids) \<union> set (made (path_join dir n) kids)" "p \<noteq> path_join dir n"
    if "p \<in> fst ` set (planted dir ns) \<union> set (made dir ns)" for p
    using out [OF that] below [of p] by (auto simp: under_def)
  moreover have "map_of (rev (planted (path_join dir n) kids)) p = None" if "p \<notin> fst ` set (planted (path_join dir n) kids)" for p
    using that by (simp add: map_of_eq_None_iff)
  ultimately show ?thesis
    using assms(1) by (auto simp: room_for_iff plant_def map_add_def split: option.split)
qed

lemma plant_simps [simp]:
  "plant dir [] d = d"
  "plant dir (File_Node n meta (Inr data) # ns) d = plant dir ns (d\<lparr>files := (files d)(path_join dir n \<mapsto> data)\<rparr>)"
  "plant dir (Dir_Node n kids # ns) d =
     plant dir ns (plant (path_join dir n) kids (d\<lparr>folders := insert (path_join dir n) (folders d)\<rparr>))"
  by (simp_all add: plant_def map_add_assoc ac_simps)

lemma sink_loop_plain:
  assumes "list_all sendable ns" "distinct (map node_name ns)" "proper_dir dir" "room_for dir ns d"
  shows "scp_sink_loop dir \<lparr>inp = wire ns @ r, outp = out, sc_disk = d\<rparr> =
    scp_sink_loop dir \<lparr>inp = r, outp = out @ replicate (acks ns) 0, sc_disk = plant dir ns d\<rparr>"
  using assms
proof (induction dir ns arbitrary: r out d rule: made.induct)
  case (2 dir n meta contents ns)
  then obtain data where c: "contents = Inr data" "meta = Inr (length data)" "length data < 2 ^ 64" "good_name n"
    by (cases meta; cases contents) auto
  let ?d = "d\<lparr>files := (files d)(path_join dir n \<mapsto> data)\<rparr>"
  have "room_for dir ns ?d" using 2 c room_after_file by blast
  with 2 have "scp_sink_loop dir \<lparr>inp = wire ns @ r, outp = out @ [0, 0], sc_disk = ?d\<rparr> =
      scp_sink_loop dir \<lparr>inp = r, outp = (out @ [0, 0]) @ replicate (acks ns) 0, sc_disk = plant dir ns ?d\<rparr>"
    by (intro "2.IH") simp_all
  moreover have "dir \<in> folders d" "fault d = (\<lambda>_. None)" "path_join dir n \<notin> folders d"
    using 2 c by (simp_all add: room_for_def)
  ultimately show ?case using sink_file [OF c(4) "2.prems"(3) c(3), of d "wire ns @ r" out] c(1,2) by simp
next
  case (4 dir n kids ns)
  let ?d = "d\<lparr>folders := insert (path_join dir n) (folders d)\<rparr>" and ?p = "path_join dir n"
  have n: "good_name n" and pr: "proper_dir ?p" using 4 by (simp_all add: proper_dir_join_proper)
  have d: "dir \<in> folders d" "fault d = (\<lambda>_. None)" "files d ?p = None" using 4 by (simp_all add: room_for_def)
  have room: "room_for ?p kids ?d" "room_for dir ns (plant ?p kids ?d)"
    using 4 room_inside room_after_dir by blast+
  let ?r = "of_char (CHR ''E'') # 10 # wire ns @ r"
  have "scp_sink_loop dir \<lparr>inp = wire (Dir_Node n kids # ns) @ r, outp = out, sc_disk = d\<rparr> =
      scp_sink_loop ?p \<lparr>inp = wire kids @ ?r, outp = out @ [0], sc_disk = ?d\<rparr>"
    using sink_dir [OF n "4.prems"(3) d, of "wire kids @ ?r" out] by simp
  also have "\<dots> = scp_sink_loop ?p \<lparr>inp = ?r, outp = (out @ [0]) @ replicate (acks kids) 0, sc_disk = plant ?p kids ?d\<rparr>"
    using 4 pr room by (intro "4.IH"(1)) simp_all
  also have "\<dots> = scp_sink_loop dir
      \<lparr>inp = wire ns @ r, outp = ((out @ [0]) @ replicate (acks kids) 0) @ [0], sc_disk = plant ?p kids ?d\<rparr>"
    using sink_leave [OF n "4.prems"(3)] by simp
  also have "\<dots> = scp_sink_loop dir \<lparr>inp = r, outp = (((out @ [0]) @ replicate (acks kids) 0) @ [0]) @ replicate (acks ns) 0,
      sc_disk = plant dir ns (plant ?p kids ?d)\<rparr>"
    using 4 room by (intro "4.IH"(2)) simp_all
  finally show ?case by (simp add: replicate_add replicate_app_Cons_same)
qed simp_all

text \<open>The order in which the entries are sent does not matter.\<close>

lemma places_nodes:
  "set (planted dir ns) = (\<Union>x \<in> set ns. set (planted dir [x]))"
  "set (made dir ns) = (\<Union>x \<in> set ns. set (made dir [x]))"
  by (induction dir ns rule: made.induct) auto

lemma plain_in_order: "sendable x \<Longrightarrow> sendable (in_order x) \<and> node_name (in_order x) = node_name x"
proof (induction x)
  case (Dir_Node n kids)
  then have kids: "list_all sendable (map in_order kids)" "map node_name (map in_order kids) = map node_name kids"
    by (auto simp: list_all_iff)
  from Dir_Node.prems have "distinct (map node_name (map in_order kids))" by (simp only: kids(2) sendable.simps)
  then have "distinct (map node_name (sort_key node_name (map in_order kids)))"
    by (simp only: distinct_map distinct_sort set_sort simp_thms)
  with Dir_Node.prems kids(1) show ?case by (auto simp: list_all_iff)
qed simp_all

lemma places_in_order:
  "set (planted dir [in_order x]) = set (planted dir [x])" "set (made dir [in_order x]) = set (made dir [x])"
proof (induction x arbitrary: dir)
  case (Dir_Node n kids)
  {
    case 1
    show ?case
      using Dir_Node(1) places_nodes(1) [of "path_join dir n" "sort_key node_name (map in_order kids)"]
        places_nodes(1) [of "path_join dir n" kids] by simp
  next
    case 2
    show ?case
      using Dir_Node(2) places_nodes(2) [of "path_join dir n" "sort_key node_name (map in_order kids)"]
        places_nodes(2) [of "path_join dir n" kids] by simp
  }
qed simp_all

section \<open>The whole copy\<close>

lemma scp_source_plain:
  assumes "look_up path = Inr (Dir_Node x kids)" "sendable (Dir_Node (name_or_empty path) kids)"
  shows "scp_source look_up path True
      \<lparr>inp = 0 # replicate (acks [in_order (Dir_Node (name_or_empty path) kids)]) 0, outp = out, sc_disk = d\<rparr> =
    (Inr (), \<lparr>inp = [], outp = out @ wire [in_order (Dir_Node (name_or_empty path) kids)], sc_disk = d\<rparr>)"
proof -
  let ?n = "name_or_empty path" and ?kids = "sort_key node_name (map in_order kids)"
  have pl: "sendable (Dir_Node ?n ?kids)" using plain_in_order [OF assms(2)] by simp
  then have "send_entries path ?kids \<lparr>inp = replicate (acks ?kids) 0 @ [0],
      outp = out @ as_bytes (''D0755 0 '' @ ?n) @ [10], sc_disk = d\<rparr> =
    (Inr (), \<lparr>inp = [0], outp = out @ as_bytes (''D0755 0 '' @ ?n) @ 10 # wire ?kids, sc_disk = d\<rparr>)"
    by (simp add: send_entries_plain)
  moreover have "replicate (acks [in_order (Dir_Node ?n kids)]) (0 :: byte) = 0 # replicate (acks ?kids) 0 @ [0]"
    by (simp add: replicate_append_same)
  ultimately show ?thesis
    using assms(1) pl by (simp add: scp_source_def send_dir_def then_do_def open_dir_def close_dir_def put_bytes_def
        expect_ack_def good_name_def as_bytes_Cons)
qed

lemma scp_sink_plain:
  assumes "sendable x" "proper_dir target" "room_for target [x] d"
  shows "scp_sink target \<lparr>inp = wire [x], outp = [], sc_disk = d\<rparr> =
    (0, \<lparr>inp = [], outp = 0 # replicate (acks [x]) 0, sc_disk = plant target [x] d\<rparr>)"
  using sink_loop_plain [of "[x]" target d "[]" "[0]"] assms
  by (simp add: scp_sink_def ack_def put_bytes_def sink_end del: wire.simps acks.simps plant_simps)

lemma plant_in_order:
  assumes "sendable x" "proper_dir dir"
  shows "plant dir [in_order x] d = d\<lparr>files := files d ++ map_of (planted dir [x]), folders := folders d \<union> set (made dir [x])\<rparr>"
proof -
  have "distinct (map fst (planted dir [x]))" using planted_distinct [of "[x]" dir] assms by simp
  moreover have "distinct (map fst (planted dir [in_order x]))"
    using planted_distinct [of "[in_order x]" dir] assms plain_in_order by simp
  ultimately have "map_of (rev (planted dir [in_order x])) = map_of (planted dir [x])"
    by (subst map_of_inject_set) (simp_all add: places_in_order rev_map [symmetric])
  then show ?thesis by (simp add: plant_def places_in_order Un_commute)
qed

lemma room_in_order: "room_for dir [in_order x] d = room_for dir [x] d"
  by (simp only: room_for_iff places_in_order)

text \<open>What the two commands ask for.\<close>

definition scp_path :: "string \<Rightarrow> bool" where
  "scp_path p \<longleftrightarrow> token p \<and> hd p \<noteq> CHR ''-''"

lemma handle_scp_runs:
  assumes "scp_path p"
  shows "handle_scp look_up (''scp -r -t '' @ p) s = scp_sink p s"
    "handle_scp look_up (''scp -r -f '' @ p) s = (case scp_source look_up p True s of (r, s') \<Rightarrow> (exit_code r, s'))"
proof -
  have t: "token ''scp''" "token ''-r''" "token ''-t''" "token ''-f''" by code_simp+
  have "split_whitespace (join '' '' [''scp'', ''-r'', ''-t'', p]) = [''scp'', ''-r'', ''-t'', p]"
    "split_whitespace (join '' '' [''scp'', ''-r'', ''-f'', p]) = [''scp'', ''-r'', ''-f'', p]"
    using assms t by (simp_all add: split_whitespace_tokens scp_path_def del: join.simps)
  then have sw: "split_whitespace (''scp -r -t '' @ p) = [''scp'', ''-r'', ''-t'', p]"
    "split_whitespace (''scp -r -f '' @ p) = [''scp'', ''-r'', ''-f'', p]" by simp_all
  have "scp_arg p a = a\<lparr>target_path := p\<rparr>" for a
    using assms by (auto simp: scp_path_def scp_arg_def)
  moreover have "p \<noteq> []" using assms by (simp add: scp_path_def token_def)
  ultimately show "handle_scp look_up (''scp -r -t '' @ p) s = scp_sink p s"
    "handle_scp look_up (''scp -r -f '' @ p) s = (case scp_source look_up p True s of (r, s') \<Rightarrow> (exit_code r, s'))"
    unfolding handle_scp_def sw by (simp_all add: Let_def scp_arg_def)
qed

text \<open>C15. A directory tree copied with \<open>scp -r\<close> from one server to another arrives as it was. When the source
  (\<open>scp -r -f path\<close>) reads as acknowledgements what the sink (\<open>scp -r -t target\<close>) answers, and the sink reads
  what the source sends, both end with exit code 0 and nothing left over; afterwards the sink's disk is the
  old one with exactly the files of the tree, with their contents, and its directories below the target. The
  tree's names are single lines without outer whitespace, every file can be read and has the length the
  system announced, the target exists, and nothing there is a file for a directory or the other way
  round.\<close>

theorem scp_tree_copied:
  assumes "look_up path = Inr (Dir_Node x kids)" "sendable (Dir_Node (name_or_empty path) kids)"
    and "scp_path path" "scp_path target" "proper_dir target"
    and "room_for target [Dir_Node (name_or_empty path) kids] d"
  shows "\<exists>sent replies.
    handle_scp look_up (''scp -r -f '' @ path) \<lparr>inp = replies, outp = [], sc_disk = d0\<rparr> =
      (0, \<lparr>inp = [], outp = sent, sc_disk = d0\<rparr>) \<and>
    handle_scp look_up (''scp -r -t '' @ target) \<lparr>inp = sent, outp = [], sc_disk = d\<rparr> =
      (0, \<lparr>inp = [], outp = replies, sc_disk =
         d\<lparr>files := files d ++ map_of (planted target [Dir_Node (name_or_empty path) kids]),
           folders := folders d \<union> set (made target [Dir_Node (name_or_empty path) kids])\<rparr>\<rparr>)"
proof -
  let ?x = "Dir_Node (name_or_empty path) kids"
  have src: "scp_source look_up path True \<lparr>inp = 0 # replicate (acks [in_order ?x]) 0, outp = [], sc_disk = d0\<rparr> =
      (Inr (), \<lparr>inp = [], outp = wire [in_order ?x], sc_disk = d0\<rparr>)"
    using scp_source_plain [of look_up path x kids "[]" d0] assms(1,2) by simp
  have snk: "scp_sink target \<lparr>inp = wire [in_order ?x], outp = [], sc_disk = d\<rparr> =
      (0, \<lparr>inp = [], outp = 0 # replicate (acks [in_order ?x]) 0, sc_disk = plant target [in_order ?x] d\<rparr>)"
    using plain_in_order [OF assms(2)] assms(5,6) room_in_order by (intro scp_sink_plain) blast+
  show ?thesis
    unfolding handle_scp_runs [OF assms(3)] handle_scp_runs [OF assms(4)] plant_in_order [OF assms(2,5), symmetric]
    by (rule exI [of _ "wire [in_order ?x]"], rule exI [of _ "0 # replicate (acks [in_order ?x]) 0"])
      (simp only: src snk prod.case exit_code_def sum.case simp_thms)
qed

definition sample_tree :: "fs_node list" where
  "sample_tree = [File_Node ''b'' (Inr 2) (Inr [104, 105]), Dir_Node ''a'' [File_Node ''c'' (Inr 0) (Inr [])]]"

definition sample_target :: disk where
  "sample_target = \<lparr>files = (\<lambda>_. None), folders = {''/t''}, fault = (\<lambda>_. None), other_device = (\<lambda>_ _. False)\<rparr>"

theorem scp_tree_copied_witness:
  "\<exists>sent replies.
    handle_scp (\<lambda>_. Inr (Dir_Node ''d'' sample_tree)) (''scp -r -f '' @ ''/x/d'') \<lparr>inp = replies, outp = [], sc_disk = sample_target\<rparr> =
      (0, \<lparr>inp = [], outp = sent, sc_disk = sample_target\<rparr>) \<and>
    handle_scp (\<lambda>_. Inr (Dir_Node ''d'' sample_tree)) (''scp -r -t '' @ ''/t'') \<lparr>inp = sent, outp = [], sc_disk = sample_target\<rparr> =
      (0, \<lparr>inp = [], outp = replies, sc_disk =
         sample_target\<lparr>files := files sample_target ++ map_of (planted ''/t'' [Dir_Node (name_or_empty ''/x/d'') sample_tree]),
           folders := folders sample_target \<union> set (made ''/t'' [Dir_Node (name_or_empty ''/x/d'') sample_tree])\<rparr>\<rparr>)"
proof (rule scp_tree_copied)
  have names: "name_or_empty ''/x/d'' = ''d''" "good_name ''a''" "good_name ''b''" "good_name ''c''" "good_name ''d''" by code_simp+
  then show "sendable (Dir_Node (name_or_empty ''/x/d'') sample_tree)" by (simp add: sample_tree_def)
  show "scp_path ''/x/d''" "scp_path ''/t''" "proper_dir ''/t''" by code_simp+
  have "planted ''/t'' [Dir_Node (name_or_empty ''/x/d'') sample_tree] = [(''/t/d/b'', [104, 105]), (''/t/d/a/c'', [])]"
    "made ''/t'' [Dir_Node (name_or_empty ''/x/d'') sample_tree] = [''/t/d'', ''/t/d/a'']" by code_simp+
  then show "room_for ''/t'' [Dir_Node (name_or_empty ''/x/d'') sample_tree] sample_target"
    by (simp add: room_for_def sample_target_def list_all_iff)
qed simp

section \<open>Names that leave the target\<close>

text \<open>The sink does not check the name in a file header: an absolute path replaces the target, since
  \<open>Path::join\<close> does. Whatever the target, the file anywhere on the disk is overwritten with the sent
  contents, and the transfer succeeds.\<close>

theorem scp_writes_anywhere:
  assumes "is_dir d target" "write_error d p = None" "starts_with p ''/''" "CHR 0x0A \<notin> set p" "trim p = p" "is_str p"
    and "length data < 2 ^ 64"
  shows "\<exists>s. scp_sink target
      \<lparr>inp = as_bytes (''C0644 '' @ show_nat (length data) @ '' '' @ p) @ 10 # data @ [0], outp = [], sc_disk = d\<rparr> = (0, s) \<and>
    files (sc_disk s) = (files d)(p \<mapsto> data)"
proof -
  let ?h = "''C0644 '' @ show_nat (length data) @ '' '' @ p"
  have "10 \<notin> set (as_bytes ?h)" using assms(4) by (simp add: newline_as_bytes show_nat_no_space)
  note line = read_line_eq [OF this]
  have "path_join target (trim p) = p" using assms(3,5) by (simp add: path_join_def)
  note received = receive_file_whole [OF file_header_parts [OF assms(6)] assms(7,1) this assms(2)]
  from sink_loop_file [OF line _ _ received] show ?thesis
    by (simp add: scp_sink_def ack_def put_bytes_def as_bytes_Cons sink_end)
qed

theorem scp_writes_anywhere_witness:
  "\<exists>s. scp_sink ''/t''
      \<lparr>inp = as_bytes (''C0644 '' @ show_nat (length [1, 2 :: byte]) @ '' '' @ ''/etc/passwd'') @ 10 # [1, 2] @ [0], outp = [],
        sc_disk = sample_target\<lparr>folders := {''/t'', ''/etc''}\<rparr>\<rparr> = (0, s) \<and>
    files (sc_disk s) = (files (sample_target\<lparr>folders := {''/t'', ''/etc''}\<rparr>))(''/etc/passwd'' \<mapsto> [1, 2])"
proof (rule scp_writes_anywhere)
  show "write_error (sample_target\<lparr>folders := {''/t'', ''/etc''}\<rparr>) ''/etc/passwd'' = None"
  proof -
    have "path_parent ''/etc/passwd'' = Some ''/etc''" "\<not> ends_with ''/etc/passwd'' ''/''" by code_simp+
    then show ?thesis by (simp add: write_error_def parent_there_def sample_target_def)
  qed
  show "starts_with ''/etc/passwd'' ''/''" "trim ''/etc/passwd'' = ''/etc/passwd''" "is_str ''/etc/passwd''" by code_simp+
qed (simp_all add: is_dir_def sample_target_def)

text \<open>A channel that ends early leaves what came, in place of what was there.\<close>

lemma receive_data_truncated:
  "write_error (sc_disk s) p = None \<Longrightarrow> length (inp s) < len \<Longrightarrow>
    \<exists>e s'. receive_data p len s = (Inl e, s') \<and> files (sc_disk s') p = Some (inp s)"
  by (auto simp: receive_data_def fs_write_def Let_def)

text \<open>A length that is too short (the link's own, when the entry is a symbolic link) makes the rest of the
  contents headers.\<close>

lemma receive_data_desync:
  "len < length data \<Longrightarrow> receive_data p len (s\<lparr>inp := data @ 0 # r\<rparr>) = (Inr (), s') \<Longrightarrow> inp s' = drop (Suc len) data @ 0 # r"
  by (auto simp: receive_data_def Let_def)

text \<open>A line \<open>E\<close> at the target leads above it.\<close>

lemma leave_climbs:
  "scp_sink_loop dir \<lparr>inp = of_char (CHR ''E'') # 10 # r, outp = out, sc_disk = d\<rparr> =
    scp_sink_loop (case path_parent dir of Some p \<Rightarrow> p | None \<Rightarrow> dir) \<lparr>inp = r, outp = out @ [0], sc_disk = d\<rparr>"
proof -
  have "10 \<notin> set [of_char (CHR ''E'') :: byte]" by simp
  from sink_loop_leave [OF read_line_eq [OF this]] show ?thesis by (simp add: ack_def put_bytes_def)
qed

end
