(* ===== verification/Stun.thy ===== *)
theory Stun
  imports Net_Addr
begin

text \<open>
  \<open>mrsh-relay/stun.rs\<close>: the STUN client that finds the external address and the kind of NAT. A server's answer
  is a datagram, or the error of sending, waiting and receiving; the random transaction identifiers are
  arguments. A datagram is read into a buffer of 512 bytes.
\<close>

section \<open>Addresses in a response\<close>

type_synonym mapped = "ip_addr \<times> u16"

definition MAGIC_COOKIE :: u32 where "MAGIC_COOKIE = 0x2112A442"
definition BINDING_REQUEST :: u16 where "BINDING_REQUEST = 0x0001"
definition BINDING_RESPONSE :: u16 where "BINDING_RESPONSE = 0x0101"
definition ATTR_MAPPED_ADDRESS :: u16 where "ATTR_MAPPED_ADDRESS = 0x0001"
definition ATTR_XOR_MAPPED_ADDRESS :: u16 where "ATTR_XOR_MAPPED_ADDRESS = 0x0020"

definition u16_at :: "nat \<Rightarrow> bytes \<Rightarrow> u16" where
  "u16_at i b = word_of_nat (from_be (take 2 (drop i b)))"

definition cookie_byte :: "nat \<Rightarrow> byte" where
  "cookie_byte i = ucast (drop_bit (24 - 8 * i) MAGIC_COOKIE)"

definition parse_mapped_address :: "bytes \<Rightarrow> mapped result" where
  "parse_mapped_address data =
     (if length data < 8 then Inl (Failed ''MAPPED-ADDRESS too short'')
      else if data ! 1 = 0x01 then Inr (V4 (data ! 4) (data ! 5) (data ! 6) (data ! 7), u16_at 2 data)
      else Inl (Failed (''unsupported address family: '' @ show_nat (unat (data ! 1)))))"

definition parse_xor_mapped_address :: "bytes \<Rightarrow> mapped result" where
  "parse_xor_mapped_address data =
     (if length data < 8 then Inl (Failed ''XOR-MAPPED-ADDRESS too short'')
      else if data ! 1 = 0x01
      then Inr (V4 (data ! 4 XOR cookie_byte 0) (data ! 5 XOR cookie_byte 1) (data ! 6 XOR cookie_byte 2) (data ! 7 XOR cookie_byte 3),
                u16_at 2 data XOR ucast (drop_bit 16 MAGIC_COOKIE))
      else Inl (Failed (''unsupported address family: '' @ show_nat (unat (data ! 1)))))"

section \<open>Requests and responses\<close>

definition stun_request :: "bytes \<Rightarrow> bytes" where
  "stun_request txn_id =
     be_bytes 2 (unat BINDING_REQUEST) @ be_bytes 2 0 @ be_bytes 4 (unat MAGIC_COOKIE) @ txn_id"

text \<open>The loop over the attributes up to \<open>limit = 20 + msg_len\<close>. \<open>offset\<close> is at most 3 beyond a position in the
  buffer, so the numbers stay far below the width of \<open>usize\<close>.\<close>

function stun_attrs :: "bytes \<Rightarrow> nat \<Rightarrow> nat \<Rightarrow> mapped result" where
  "stun_attrs buf limit offset =
     (if offset + 4 \<le> limit
      then let attr_type = u16_at offset buf; attr_len = unat (u16_at (offset + 2) buf); start = offset + 4
           in if limit < start + attr_len then Inl (Failed ''no mapped address in STUN response'')
              else if attr_type = ATTR_XOR_MAPPED_ADDRESS then parse_xor_mapped_address (take attr_len (drop start buf))
              else if attr_type = ATTR_MAPPED_ADDRESS then parse_mapped_address (take attr_len (drop start buf))
              else stun_attrs buf limit (start + (attr_len + 3) div 4 * 4)
      else Inl (Failed ''no mapped address in STUN response''))"
  by pat_completeness auto
termination
  by (relation "measure (\<lambda>(buf, limit, offset). limit + 4 - offset)") auto

declare stun_attrs.simps [simp del]

definition stun_binding :: "bytes \<Rightarrow> bytes result \<Rightarrow> mapped result" where
  "stun_binding txn_id answer =
     and_then answer (\<lambda>datagram.
       let received = take 512 datagram; n = length received; buf = received @ replicate (512 - n) 0 in
       if n < 20 then Inl (Failed (''STUN response too short: '' @ show_nat n @ '' bytes''))
       else if u16_at 0 buf \<noteq> BINDING_RESPONSE then Inl (Failed ''unexpected STUN message type'')
       else if take 12 (drop 8 buf) \<noteq> txn_id then Inl (Failed ''STUN transaction ID mismatch'')
       else let msg_len = unat (u16_at 2 buf) in
            if n < 20 + msg_len then Inl (Failed ''STUN message length exceeds packet'')
            else stun_attrs buf (20 + msg_len) 20)"

section \<open>Kinds of NAT\<close>

datatype nat_type = Open_Nat | Cone_Nat | Symmetric_Nat | Unknown_Nat

record nat_info =
  nat_kind :: nat_type
  external_addr :: "mapped option"

definition STUN_SERVERS :: "string list" where
  "STUN_SERVERS = [''stun.l.google.com:19302'', ''stun1.l.google.com:19302'']"

text \<open>\<open>bound\<close>: the address of the socket, if it could be bound; \<open>queries\<close>: for each server the identifier sent
  and the answer.\<close>

definition detect_nat_type :: "ip_addr option \<Rightarrow> (bytes \<times> bytes result) list \<Rightarrow> nat_info" where
  "detect_nat_type bound queries =
     (case bound of
        None \<Rightarrow> \<lparr>nat_kind = Unknown_Nat, external_addr = None\<rparr>
      | Some local_ip \<Rightarrow>
          (case take 2 (concat (map (\<lambda>(txn_id, answer). case stun_binding txn_id answer of Inr a \<Rightarrow> [a] | Inl _ \<Rightarrow> []) queries)) of
             [] \<Rightarrow> \<lparr>nat_kind = Unknown_Nat, external_addr = None\<rparr>
           | [addr] \<Rightarrow> \<lparr>nat_kind = Unknown_Nat, external_addr = Some addr\<rparr>
           | addr1 # addr2 # _ \<Rightarrow>
               \<lparr>nat_kind = (if fst addr1 = fst addr2 \<and> snd addr1 = snd addr2
                          then if local_ip = fst addr1 then Open_Nat else Cone_Nat
                          else Symmetric_Nat),
                external_addr = Some addr1\<rparr>))"

section \<open>A server's answer is understood\<close>

text \<open>A response by RFC 5389: the header and the attributes, each padded to a multiple of four bytes.\<close>

definition stun_attr :: "u16 \<times> bytes \<Rightarrow> bytes" where
  "stun_attr = (\<lambda>(t, v). be_bytes 2 (unat t) @ be_bytes 2 (length v) @ v @ replicate ((length v + 3) div 4 * 4 - length v) 0)"

definition stun_reply :: "bytes \<Rightarrow> (u16 \<times> bytes) list \<Rightarrow> bytes" where
  "stun_reply txn_id attrs =
     (let body = concat (map stun_attr attrs)
      in be_bytes 2 (unat BINDING_RESPONSE) @ be_bytes 2 (length body) @ be_bytes 4 (unat MAGIC_COOKIE) @ txn_id @ body)"

definition xor_mapped :: "byte \<Rightarrow> byte \<Rightarrow> byte \<Rightarrow> byte \<Rightarrow> u16 \<Rightarrow> bytes" where
  "xor_mapped a b c d port =
     [0, 1] @ be_bytes 2 (unat (port XOR 0x2112)) @ [a XOR 0x21, b XOR 0x12, c XOR 0xA4, d XOR 0x42]"

lemma cookie_bytes: "cookie_byte 0 = 0x21" "cookie_byte 1 = 0x12" "cookie_byte 2 = 0xA4" "cookie_byte 3 = 0x42" "cookie_byte (Suc 0) = 0x12"
  by (simp_all add: cookie_byte_def MAGIC_COOKIE_def)

lemma xor_twice: "(x XOR m) XOR m = (x :: 'a :: len word)"
  by (simp add: xor.assoc)

lemma cookie_high: "ucast (drop_bit 16 MAGIC_COOKIE) = (0x2112 :: u16)"
  by (simp add: MAGIC_COOKIE_def)

lemma u16_at_append: "length xs = i \<Longrightarrow> n < 65536 \<Longrightarrow> u16_at i (xs @ be_bytes 2 n @ ys) = word_of_nat n"
  by (simp add: u16_at_def bytes_simps)

lemma parse_xor_mapped:
  "parse_xor_mapped_address (xor_mapped a b c d port) = Inr (V4 a b c d, port)"
proof -
  have port: "u16_at 2 (xor_mapped a b c d port) = port XOR 0x2112"
    using u16_at_append [of "[0, 1]" 2 "unat (port XOR 0x2112)"] by (simp add: xor_mapped_def)
  obtain x y where "be_bytes 2 (unat (port XOR 0x2112)) = [x, y]"
    using length_be_bytes [of 2 "unat (port XOR 0x2112)"] by (auto simp only: numeral_2_eq_2 length_Suc_conv length_0_conv)
  then have "xor_mapped a b c d port = [0, 1, x, y, a XOR 0x21, b XOR 0x12, c XOR 0xA4, d XOR 0x42]"
    by (simp add: xor_mapped_def)
  with port show ?thesis by (simp add: parse_xor_mapped_address_def cookie_bytes cookie_high xor_twice)
qed

section \<open>Walking the attributes\<close>

lemma length_stun_attr: "length (stun_attr (t, v)) = 4 + (length v + 3) div 4 * 4"
proof -
  have "length v \<le> (length v + 3) div 4 * 4" by linarith
  then show ?thesis by (simp add: stun_attr_def)
qed

lemma stun_attrs_step:
  assumes "u16_at offset buf = t" "u16_at (offset + 2) buf = word_of_nat (length v)" "take (length v) (drop (offset + 4) buf) = v"
    and "length v < 65536" "offset + 4 + length v \<le> limit"
  shows "stun_attrs buf limit offset =
    (if t = ATTR_XOR_MAPPED_ADDRESS then parse_xor_mapped_address v
     else if t = ATTR_MAPPED_ADDRESS then parse_mapped_address v
     else stun_attrs buf limit (offset + (4 + (length v + 3) div 4 * 4)))"
  using assms by (subst stun_attrs.simps) (simp add: Let_def unat_u16_of_nat add.assoc)

text \<open>An attribute that is no address is skipped; the address ends the walk.\<close>

lemma stun_attrs_at:
  assumes "length pre = offset" "length v < 65536" "offset + 4 + length v \<le> limit"
  shows "stun_attrs (pre @ stun_attr (t, v) @ rest) limit offset =
    (if t = ATTR_XOR_MAPPED_ADDRESS then parse_xor_mapped_address v
     else if t = ATTR_MAPPED_ADDRESS then parse_mapped_address v
     else stun_attrs (pre @ stun_attr (t, v) @ rest) limit (offset + length (stun_attr (t, v))))"
proof -
  let ?buf = "pre @ stun_attr (t, v) @ rest"
  have b: "?buf = pre @ be_bytes 2 (unat t) @ (be_bytes 2 (length v) @ v @ replicate ((length v + 3) div 4 * 4 - length v) 0 @ rest)"
    "?buf = (pre @ be_bytes 2 (unat t)) @ be_bytes 2 (length v) @ (v @ replicate ((length v + 3) div 4 * 4 - length v) 0 @ rest)"
    "?buf = (pre @ be_bytes 2 (unat t) @ be_bytes 2 (length v)) @ v @ (replicate ((length v + 3) div 4 * 4 - length v) 0 @ rest)"
    by (simp_all add: stun_attr_def)
  have "u16_at offset ?buf = t"
    unfolding b(1) using assms(1) unsigned_less [of t] by (subst u16_at_append) simp_all
  moreover have "u16_at (offset + 2) ?buf = word_of_nat (length v)"
    unfolding b(2) using assms(1,2) by (subst u16_at_append) simp_all
  moreover have "take (length v) (drop (offset + 4) ?buf) = v"
    unfolding b(3) using assms(1) by simp
  ultimately show ?thesis
    unfolding length_stun_attr using assms(2,3) by (intro stun_attrs_step)
qed

definition other_attr :: "u16 \<times> bytes \<Rightarrow> bool" where
  "other_attr a \<longleftrightarrow> fst a \<noteq> ATTR_XOR_MAPPED_ADDRESS \<and> fst a \<noteq> ATTR_MAPPED_ADDRESS \<and> length (snd a) < 65536"

lemma stun_attrs_skip:
  assumes "list_all other_attr as" "length pre = offset" "length v < 65536"
    and "offset + length (concat (map stun_attr as)) + 4 + length v \<le> limit"
  shows "stun_attrs (pre @ concat (map stun_attr as) @ stun_attr (ATTR_XOR_MAPPED_ADDRESS, v) @ rest) limit offset =
    parse_xor_mapped_address v"
  using assms
proof (induction as arbitrary: pre offset)
  case Nil
  with stun_attrs_at [of pre offset v limit ATTR_XOR_MAPPED_ADDRESS rest] show ?case by simp
next
  case (Cons a as)
  obtain t u where a: "a = (t, u)" by (cases a)
  then have o: "other_attr (t, u)" using Cons.prems(1) by simp
  let ?more = "concat (map stun_attr as) @ stun_attr (ATTR_XOR_MAPPED_ADDRESS, v) @ rest"
  have "length u \<le> length (stun_attr (t, u)) - 4" unfolding length_stun_attr by linarith
  then have "stun_attrs (pre @ stun_attr (t, u) @ ?more) limit offset =
      stun_attrs (pre @ stun_attr (t, u) @ ?more) limit (offset + length (stun_attr (t, u)))"
    using stun_attrs_at [of pre offset u limit t ?more] o Cons.prems(2,4) by (simp add: other_attr_def a length_stun_attr)
  also have "\<dots> = parse_xor_mapped_address v"
    using Cons.IH [of "pre @ stun_attr (t, u)" "offset + length (stun_attr (t, u))"] Cons.prems by (simp add: a)
  finally show ?case by (simp add: a)
qed

lemma stun_binding_reply:
  assumes "length txn_id = 12" "length body \<le> 492"
  shows "stun_binding txn_id (Inr (be_bytes 2 (unat BINDING_RESPONSE) @ be_bytes 2 (length body) @ be_bytes 4 (unat MAGIC_COOKIE) @ txn_id @ body)) =
    stun_attrs ((be_bytes 2 (unat BINDING_RESPONSE) @ be_bytes 2 (length body) @ be_bytes 4 (unat MAGIC_COOKIE) @ txn_id) @ body
      @ replicate (492 - length body) 0) (20 + length body) 20"
proof -
  let ?buf = "be_bytes 2 (unat BINDING_RESPONSE) @ be_bytes 2 (length body) @ (be_bytes 4 (unat MAGIC_COOKIE) @ txn_id @ body
      @ replicate (492 - length body) 0)"
  have "u16_at 0 ?buf = BINDING_RESPONSE"
    using u16_at_append [of "[]" 0 "unat BINDING_RESPONSE"] by simp
  moreover have "u16_at 2 ?buf = word_of_nat (length body)"
    using u16_at_append [of "be_bytes 2 (unat BINDING_RESPONSE)" 2 "length body"] assms(2) by simp
  moreover have "take 12 (drop 8 ?buf) = txn_id" using assms(1) by simp
  ultimately show ?thesis
    using assms by (simp add: stun_binding_def Let_def unat_u16_of_nat)
qed

text \<open>C22. The client understands a server that follows the RFC: a binding response with its transaction identifier
  and any other attributes before the XOR-mapped address (and after it), each padded to four bytes, that fits
  the buffer yields exactly that address and port.\<close>

theorem stun_response_understood:
  assumes "list_all other_attr as" "length txn_id = 12"
    and "length (stun_reply txn_id (as @ (ATTR_XOR_MAPPED_ADDRESS, xor_mapped a b c d port) # more_attrs)) \<le> 512"
  shows "stun_binding txn_id (Inr (stun_reply txn_id (as @ (ATTR_XOR_MAPPED_ADDRESS, xor_mapped a b c d port) # more_attrs))) =
    Inr (V4 a b c d, port)"
proof -
  let ?v = "xor_mapped a b c d port"
  define body where "body = concat (map stun_attr (as @ (ATTR_XOR_MAPPED_ADDRESS, ?v) # more_attrs))"
  let ?head = "be_bytes 2 (unat BINDING_RESPONSE) @ be_bytes 2 (length body) @ be_bytes 4 (unat MAGIC_COOKIE) @ txn_id"
  have reply: "stun_reply txn_id (as @ (ATTR_XOR_MAPPED_ADDRESS, ?v) # more_attrs) =
      be_bytes 2 (unat BINDING_RESPONSE) @ be_bytes 2 (length body) @ be_bytes 4 (unat MAGIC_COOKIE) @ txn_id @ body"
    by (simp add: stun_reply_def Let_def body_def)
  then have len: "length ?head = 20" "length body \<le> 492" using assms(2,3) by simp_all
  have v: "length ?v = 8" by (simp add: xor_mapped_def)
  have split: "body @ z = concat (map stun_attr as) @ stun_attr (ATTR_XOR_MAPPED_ADDRESS, ?v) @ concat (map stun_attr more_attrs) @ z" for z
    by (simp add: body_def)
  have "length body = length (concat (map stun_attr as)) + 12 + length (concat (map stun_attr more_attrs))"
    using v by (simp add: body_def length_stun_attr)
  then have "stun_attrs (?head @ body @ replicate (492 - length body) 0) (20 + length body) 20 = parse_xor_mapped_address ?v"
    unfolding split using v by (intro stun_attrs_skip [OF assms(1) len(1)]) simp_all
  then show ?thesis
    unfolding reply stun_binding_reply [OF assms(2) len(2)] by (simp add: parse_xor_mapped)
qed

theorem stun_response_understood_witness:
  "stun_binding (replicate 12 7) (Inr (stun_reply (replicate 12 7)
      ([(0x8022, [1, 2, 3])] @ (ATTR_XOR_MAPPED_ADDRESS, xor_mapped 203 0 113 9 4660) # []))) = Inr (V4 203 0 113 9, 4660)"
proof (rule stun_response_understood)
  show "list_all other_attr [(0x8022, [1, 2, 3])]"
    by (simp add: other_attr_def ATTR_XOR_MAPPED_ADDRESS_def ATTR_MAPPED_ADDRESS_def)
  show "length (stun_reply (replicate 12 7) ([(0x8022, [1, 2, 3])] @ (ATTR_XOR_MAPPED_ADDRESS, xor_mapped 203 0 113 9 4660) # [])) \<le> 512"
    by (simp add: stun_reply_def length_stun_attr xor_mapped_def)
qed simp

section \<open>The kind of NAT\<close>

text \<open>The socket is bound to \<open>0.0.0.0\<close>, so its own address is that one: an open host is taken for one behind a cone NAT.\<close>

lemma nat_never_open:
  assumes "external_addr (detect_nat_type (Some (V4 0 0 0 0)) queries) = Some (ip, port)" "ip \<noteq> V4 0 0 0 0"
  shows "nat_kind (detect_nat_type (Some (V4 0 0 0 0)) queries) \<noteq> Open_Nat"
  using assms by (auto simp: detect_nat_type_def split: list.splits)

lemma nat_symmetric:
  assumes "stun_binding i1 r1 = Inr a1" "stun_binding i2 r2 = Inr a2"
  shows "nat_kind (detect_nat_type (Some local_ip) [(i1, r1), (i2, r2)]) = Symmetric_Nat \<longleftrightarrow> a1 \<noteq> a2"
  using assms by (auto simp: detect_nat_type_def prod_eq_iff)

end
