(* ===== verification/Delta_Sync.thy ===== *)
theory Delta_Sync
  imports Rust_Str
begin

text \<open>
  Delta transfer, \<open>mrsh-transfer/src/delta.rs\<close>: block signatures of the old file, the search for
  matching blocks in the new one, and the reconstruction. The weak checksum (Adler-32), the strong
  one (MD5 in Base64) and Base64 itself are parameters.
\<close>

section \<open>Signatures\<close>

definition BLOCK_SIZE :: nat where "BLOCK_SIZE = 4096"

lemma BLOCK_SIZE_pos [simp]: "0 < BLOCK_SIZE" "BLOCK_SIZE \<noteq> 0"
  by (simp_all add: BLOCK_SIZE_def)

record delta_sig =
  sig_index :: nat
  sig_weak :: u32
  sig_strong :: string

record delta_op =
  dop_type :: string
  dop_index :: nat
  dop_data :: string

record delta_params =
  weak_hash :: "bytes \<Rightarrow> u32"
  strong_hash :: "bytes \<Rightarrow> string"
  b64_enc :: "bytes \<Rightarrow> string"
  b64_dec :: "string \<Rightarrow> bytes option"

text \<open>\<open>data[i..(i + BLOCK_SIZE).min(len)]\<close>.\<close>

definition block_at :: "bytes \<Rightarrow> nat \<Rightarrow> bytes" where
  "block_at data i = take (min (i + BLOCK_SIZE) (length data) - i) (drop i data)"

function signature_loop :: "delta_params \<Rightarrow> bytes \<Rightarrow> nat \<Rightarrow> delta_sig list" where
  "signature_loop H data i =
     (if i < length data
      then \<lparr>sig_index = i div BLOCK_SIZE, sig_weak = weak_hash H (block_at data i),
            sig_strong = strong_hash H (block_at data i)\<rparr> # signature_loop H data (i + BLOCK_SIZE)
      else [])"
  by pat_completeness auto
termination
  by (relation "measure (\<lambda>(H, data, i). length data - i)") (auto simp: BLOCK_SIZE_def)

declare signature_loop.simps [simp del]

definition compute_signatures :: "delta_params \<Rightarrow> bytes \<Rightarrow> delta_sig list" where
  "compute_signatures H data = signature_loop H data 0"

section \<open>Computing a delta\<close>

definition data_op :: "delta_params \<Rightarrow> bytes \<Rightarrow> delta_op" where
  "data_op H bs = \<lparr>dop_type = ''data'', dop_index = 0, dop_data = b64_enc H bs\<rparr>"

definition match_op :: "nat \<Rightarrow> delta_op" where
  "match_op i = \<lparr>dop_type = ''match'', dop_index = i, dop_data = []\<rparr>"

text \<open>The lookup map, weak checksum to the signatures that have it, in order.\<close>

definition build_weak_map :: "delta_sig list \<Rightarrow> (u32 \<rightharpoonup> delta_sig list)" where
  "build_weak_map sigs =
     fold (\<lambda>s m. m(sig_weak s \<mapsto> (case m (sig_weak s) of Some l \<Rightarrow> l | None \<Rightarrow> []) @ [s])) sigs Map.empty"

definition flush :: "delta_params \<Rightarrow> bytes \<Rightarrow> delta_op list" where
  "flush H unmatched = (if unmatched = [] then [] else [data_op H unmatched])"

text \<open>Whether a block is tried at a position: a full block, or the short one at the end of the file.\<close>

definition try_here :: "bytes \<Rightarrow> nat \<Rightarrow> bool" where
  "try_here new_data i \<longleftrightarrow>
     i + BLOCK_SIZE \<le> length new_data \<or> i = length new_data - length new_data mod BLOCK_SIZE"

definition find_match :: "delta_params \<Rightarrow> (u32 \<rightharpoonup> delta_sig list) \<Rightarrow> bytes \<Rightarrow> nat \<Rightarrow> delta_sig option" where
  "find_match H wm new_data i =
     (if try_here new_data i
      then (case wm (weak_hash H (block_at new_data i)) of
              Some candidates \<Rightarrow> find (\<lambda>s. sig_strong s = strong_hash H (block_at new_data i)) candidates
            | None \<Rightarrow> None)
      else None)"

function delta_loop ::
  "delta_params \<Rightarrow> (u32 \<rightharpoonup> delta_sig list) \<Rightarrow> bytes \<Rightarrow> nat \<Rightarrow> bytes \<Rightarrow> delta_op list \<Rightarrow> delta_op list" where
  "delta_loop H wm new_data i unmatched ops =
     (if i < length new_data
      then (case find_match H wm new_data i of
              Some s \<Rightarrow> delta_loop H wm new_data (min (i + BLOCK_SIZE) (length new_data)) []
                         (ops @ flush H unmatched @ [match_op (sig_index s)])
            | None \<Rightarrow> delta_loop H wm new_data (i + 1) (unmatched @ [new_data ! i]) ops)
      else ops @ flush H unmatched)"
  by pat_completeness auto
termination
  by (relation "measure (\<lambda>(H, wm, new_data, i, unmatched, ops). length new_data - i)")
    (auto simp: BLOCK_SIZE_def)

declare delta_loop.simps [simp del]

definition compute_delta :: "delta_params \<Rightarrow> bytes \<Rightarrow> delta_sig list \<Rightarrow> delta_op list" where
  "compute_delta H new_data remote_sigs =
     (if remote_sigs = [] then [data_op H new_data]
      else delta_loop H (build_weak_map remote_sigs) new_data 0 [] [])"

section \<open>Applying a delta\<close>

definition apply_op :: "delta_params \<Rightarrow> bytes \<Rightarrow> delta_op \<Rightarrow> bytes" where
  "apply_op H existing opn =
     (if dop_type opn = ''match'' then
        (let start = dop_index opn * BLOCK_SIZE; end' = min (start + BLOCK_SIZE) (length existing)
         in if start < length existing then take (end' - start) (drop start existing) else [])
      else if dop_type opn = ''data'' then
        (case b64_dec H (dop_data opn) of Some d \<Rightarrow> d | None \<Rightarrow> [])
      else [])"

definition apply_delta :: "delta_params \<Rightarrow> bytes \<Rightarrow> delta_op list \<Rightarrow> bytes" where
  "apply_delta H existing delta = concat (map (apply_op H existing) delta)"

definition delta_stats :: "delta_params \<Rightarrow> delta_op list \<Rightarrow> nat \<times> nat" where
  "delta_stats H delta =
     (length (filter (\<lambda>d. dop_type d = ''match'') delta),
      sum_list (map (\<lambda>d. if dop_type d = ''data''
          then (case b64_dec H (dop_data d) of Some x \<Rightarrow> length x | None \<Rightarrow> 0) else 0) delta))"

section \<open>Signatures describe the blocks\<close>

lemma signature_loop_iff:
  "s \<in> set (signature_loop H data i) \<longleftrightarrow>
    (\<exists>k. i + k * BLOCK_SIZE < length data \<and> s = \<lparr>sig_index = (i + k * BLOCK_SIZE) div BLOCK_SIZE,
       sig_weak = weak_hash H (block_at data (i + k * BLOCK_SIZE)),
       sig_strong = strong_hash H (block_at data (i + k * BLOCK_SIZE))\<rparr>)"
  (is "_ \<longleftrightarrow> (\<exists>k. ?P i k)")
proof (induction H data i rule: signature_loop.induct)
  case (1 H data i)
  let ?P = "\<lambda>i k. i + k * BLOCK_SIZE < length data \<and> s = \<lparr>sig_index = (i + k * BLOCK_SIZE) div BLOCK_SIZE,
       sig_weak = weak_hash H (block_at data (i + k * BLOCK_SIZE)),
       sig_strong = strong_hash H (block_at data (i + k * BLOCK_SIZE))\<rparr>"
  have "(\<exists>k. ?P i k) \<longleftrightarrow> ?P i 0 \<or> (\<exists>k. ?P i (Suc k))" by (metis not0_implies_Suc)
  moreover have "?P i (Suc k) = ?P (i + BLOCK_SIZE) k" for k by (simp add: add.assoc)
  ultimately have "(\<exists>k. ?P i k) \<longleftrightarrow> ?P i 0 \<or> (\<exists>k. ?P (i + BLOCK_SIZE) k)" by simp
  then show ?case
    using 1 by (cases "i < length data") (simp_all add: signature_loop.simps [of H data i])
qed

definition signature_of :: "delta_params \<Rightarrow> bytes \<Rightarrow> nat \<Rightarrow> delta_sig" where
  "signature_of H data k = \<lparr>sig_index = k, sig_weak = weak_hash H (block_at data (k * BLOCK_SIZE)),
     sig_strong = strong_hash H (block_at data (k * BLOCK_SIZE))\<rparr>"

lemma compute_signatures_iff:
  "s \<in> set (compute_signatures H data) \<longleftrightarrow> (\<exists>k. k * BLOCK_SIZE < length data \<and> s = signature_of H data k)"
  by (simp add: compute_signatures_def signature_loop_iff signature_of_def)

lemma build_weak_map_Some:
  "build_weak_map sigs w = (let c = filter (\<lambda>s. sig_weak s = w) sigs in if c = [] then None else Some c)"
proof (induction sigs rule: rev_induct)
  case (snoc s sigs)
  then show ?case by (auto simp: build_weak_map_def Let_def split: if_splits)
qed (simp add: build_weak_map_def)

lemma find_match_iff:
  "find_match H (build_weak_map sigs) d i =
     (if try_here d i
      then find (\<lambda>s. sig_strong s = strong_hash H (block_at d i))
             (filter (\<lambda>s. sig_weak s = weak_hash H (block_at d i)) sigs)
      else None)"
  by (auto simp: find_match_def build_weak_map_Some Let_def)

section \<open>Reconstruction\<close>

text \<open>What the round trip relies on: Base64 decodes what it encodes, and on the blocks compared, equal
  checksums mean equal blocks.\<close>

definition b64_sound :: "delta_params \<Rightarrow> bool" where
  "b64_sound H \<longleftrightarrow> (\<forall>x. b64_dec H (b64_enc H x) = Some x)"

definition no_collision :: "delta_params \<Rightarrow> bytes \<Rightarrow> bytes \<Rightarrow> bool" where
  "no_collision H old new \<longleftrightarrow>
     (\<forall>i<length new. \<forall>k<length old. try_here new i \<longrightarrow> k * BLOCK_SIZE < length old \<longrightarrow>
        weak_hash H (block_at new i) = weak_hash H (block_at old (k * BLOCK_SIZE)) \<longrightarrow>
        strong_hash H (block_at new i) = strong_hash H (block_at old (k * BLOCK_SIZE)) \<longrightarrow>
        block_at new i = block_at old (k * BLOCK_SIZE))"

lemma apply_delta_append [simp]: "apply_delta H old (xs @ ys) = apply_delta H old xs @ apply_delta H old ys"
  by (simp add: apply_delta_def)

lemma apply_data_op: "b64_sound H \<Longrightarrow> apply_delta H old [data_op H bs] = bs"
  by (simp add: apply_delta_def apply_op_def data_op_def b64_sound_def)

lemma apply_flush: "b64_sound H \<Longrightarrow> apply_delta H old (flush H um) = um"
  using apply_data_op [of H old um] by (auto simp: flush_def apply_delta_def)

lemma apply_match_op: "k * BLOCK_SIZE < length old \<Longrightarrow> apply_delta H old [match_op k] = block_at old (k * BLOCK_SIZE)"
  by (simp add: apply_delta_def apply_op_def match_op_def block_at_def Let_def)

lemma find_match_block:
  assumes "find_match H (build_weak_map (compute_signatures H old)) new i = Some s"
    "no_collision H old new" "i < length new"
  shows "apply_delta H old [match_op (sig_index s)] = block_at new i"
proof -
  have t: "try_here new i" and f: "find (\<lambda>s. sig_strong s = strong_hash H (block_at new i))
      (filter (\<lambda>s. sig_weak s = weak_hash H (block_at new i)) (compute_signatures H old)) = Some s"
    using assms(1) by (auto simp: find_match_iff split: if_splits)
  then have "s \<in> set (compute_signatures H old)" "sig_weak s = weak_hash H (block_at new i)"
    "sig_strong s = strong_hash H (block_at new i)"
    by (auto simp: find_Some_iff dest: nth_mem)
  then obtain k where k: "k * BLOCK_SIZE < length old" "s = signature_of H old k"
    "weak_hash H (block_at new i) = weak_hash H (block_at old (k * BLOCK_SIZE))"
    "strong_hash H (block_at new i) = strong_hash H (block_at old (k * BLOCK_SIZE))"
    by (auto simp: compute_signatures_iff signature_of_def)
  have "k \<le> k * BLOCK_SIZE" by (simp add: BLOCK_SIZE_def)
  with k(1) have "k < length old" by linarith
  with assms(2,3) t k have "block_at new i = block_at old (k * BLOCK_SIZE)" by (auto simp: no_collision_def)
  with k show ?thesis by (simp add: apply_match_op signature_of_def)
qed

lemma block_at_next: "i < length d \<Longrightarrow> block_at d i @ drop (min (i + BLOCK_SIZE) (length d)) d = drop i d"
  by (simp add: block_at_def min_def) (metis add.commute append_take_drop_id drop_drop le_add_diff_inverse2 nat_le_linear)

lemma delta_loop_apply:
  assumes "b64_sound H" "no_collision H old new"
  shows "apply_delta H old (delta_loop H (build_weak_map (compute_signatures H old)) new i um ops)
    = apply_delta H old ops @ um @ drop i new"
proof (induction "length new - i" arbitrary: i um ops rule: less_induct)
  case less
  let ?wm = "build_weak_map (compute_signatures H old)"
  show ?case
  proof (cases "i < length new")
    case False
    then show ?thesis by (simp add: delta_loop.simps apply_flush [OF assms(1)])
  next
    case True
    show ?thesis
    proof (cases "find_match H ?wm new i")
      case None
      then have "delta_loop H ?wm new i um ops = delta_loop H ?wm new (i + 1) (um @ [new ! i]) ops"
        using True by (simp add: delta_loop.simps [of H ?wm new i])
      with less [of "i + 1"] True show ?thesis by (simp add: Cons_nth_drop_Suc)
    next
      case (Some s)
      let ?j = "min (i + BLOCK_SIZE) (length new)"
      have "delta_loop H ?wm new i um ops = delta_loop H ?wm new ?j [] (ops @ flush H um @ [match_op (sig_index s)])"
        using True Some by (simp add: delta_loop.simps [of H ?wm new i])
      moreover have "length new - ?j < length new - i" using True by (simp add: BLOCK_SIZE_def)
      ultimately show ?thesis
        using less [of ?j] find_match_block [OF Some assms(2) True] block_at_next [OF True]
        by (simp add: apply_flush [OF assms(1)])
    qed
  qed
qed

text \<open>The delta reconstructs the file.\<close>

lemma delta_reconstructs:
  assumes "b64_sound H" "no_collision H old new"
  shows "apply_delta H old (compute_delta H new (compute_signatures H old)) = new"
proof (cases "compute_signatures H old = []")
  case True
  with assms(1) show ?thesis by (simp add: compute_delta_def apply_data_op)
next
  case False
  with delta_loop_apply [OF assms, of 0 "[]" "[]"] show ?thesis
    by (simp add: compute_delta_def) (simp add: apply_delta_def)
qed

definition identity_hash :: delta_params where
  "identity_hash = \<lparr>weak_hash = (\<lambda>_. 0), strong_hash = str_of_bytes, b64_enc = str_of_bytes,
     b64_dec = (\<lambda>s. Some (as_bytes s))\<rparr>"

section \<open>An unchanged file costs no data\<close>

lemma try_here_aligned: "k * BLOCK_SIZE < length d \<Longrightarrow> try_here d (k * BLOCK_SIZE)"
proof (cases "k * BLOCK_SIZE + BLOCK_SIZE \<le> length d")
  case False
  assume "k * BLOCK_SIZE < length d"
  with False have "length d div BLOCK_SIZE = k" by (intro div_nat_eqI) (simp_all add: ac_simps)
  then have "length d - length d mod BLOCK_SIZE = k * BLOCK_SIZE" by (simp add: minus_mod_eq_div_mult)
  then show ?thesis by (simp add: try_here_def)
qed (simp add: try_here_def)

lemma find_match_self:
  assumes "k * BLOCK_SIZE < length d"
  shows "\<exists>s. find_match H (build_weak_map (compute_signatures H d)) d (k * BLOCK_SIZE) = Some s"
proof -
  have "signature_of H d k \<in> set (compute_signatures H d)" using assms by (auto simp: compute_signatures_iff)
  then have "find (\<lambda>s. sig_strong s = strong_hash H (block_at d (k * BLOCK_SIZE)))
      (filter (\<lambda>s. sig_weak s = weak_hash H (block_at d (k * BLOCK_SIZE))) (compute_signatures H d)) \<noteq> None"
    by (auto simp: find_None_iff signature_of_def intro: exI [of _ "signature_of H d k"])
  with try_here_aligned [OF assms] show ?thesis by (simp add: find_match_iff)
qed

lemma delta_loop_self:
  "list_all (\<lambda>d. dop_type d = ''match'') ops \<Longrightarrow>
    list_all (\<lambda>d. dop_type d = ''match'')
      (delta_loop H (build_weak_map (compute_signatures H d)) d (min (k * BLOCK_SIZE) (length d)) [] ops)"
proof (induction "length d - k * BLOCK_SIZE" arbitrary: k ops rule: less_induct)
  case less
  show ?case
  proof (cases "k * BLOCK_SIZE < length d")
    case False
    with less.prems show ?thesis by (simp add: delta_loop.simps flush_def)
  next
    case True
    from find_match_self [OF True] obtain s where
      s: "find_match H (build_weak_map (compute_signatures H d)) d (k * BLOCK_SIZE) = Some s" by blast
    have "list_all (\<lambda>d. dop_type d = ''match'') (ops @ [match_op (sig_index s)])"
      using less.prems by (simp add: match_op_def)
    from less.hyps [OF _ this, of "Suc k"] True s show ?thesis
      by (subst delta_loop.simps) (simp add: flush_def BLOCK_SIZE_def add.commute)
  qed
qed

text \<open>An unchanged file costs no data: for any checksums, the delta of a non-empty file against its
  own signatures consists of block matches alone.\<close>

theorem delta_unchanged:
  assumes "d \<noteq> []"
  shows "list_all (\<lambda>x. dop_type x = ''match'') (compute_delta H d (compute_signatures H d)) \<and>
    snd (delta_stats H (compute_delta H d (compute_signatures H d))) = 0"
proof -
  have "compute_signatures H d \<noteq> []" using assms by (auto simp: compute_signatures_def signature_loop.simps)
  with delta_loop_self [of "[]" H d 0] have
    all: "list_all (\<lambda>x. dop_type x = ''match'') (compute_delta H d (compute_signatures H d))"
    by (simp add: compute_delta_def)
  then have "map (\<lambda>x. if dop_type x = ''data'' then (case b64_dec H (dop_data x) of Some y \<Rightarrow> length y | None \<Rightarrow> 0) else 0)
      (compute_delta H d (compute_signatures H d)) = map (\<lambda>_. 0) (compute_delta H d (compute_signatures H d))"
    by (intro map_cong refl) (auto simp: list_all_iff)
  then have "snd (delta_stats H (compute_delta H d (compute_signatures H d))) = 0"
    by (simp only: delta_stats_def snd_conv) simp
  with all show ?thesis by simp
qed

theorem delta_unchanged_witness:
  "list_all (\<lambda>x. dop_type x = ''match'') (compute_delta identity_hash [1, 2] (compute_signatures identity_hash [1, 2]))"
  using delta_unchanged [of "[1, 2]" identity_hash] by simp

end
