(* ===== verification/Sync_Files.thy ===== *)
theory Sync_Files
  imports Delta_Sync Protocol File_System Byte_Stream
begin

text \<open>
  The sync handlers of the server for one file, \<open>mrsh-server/src/sync/transfer.rs\<close>, with the
  conversions of \<open>sync/protocol.rs\<close>: signatures, delta, patch, pull, and the two binary streams
  pull-delta and push-chunked. The checksums, Base64, gzip, zstd and serde's encodings are parameters;
  the disk is the file system of the server.
\<close>

record sync_params =
  hashes :: delta_params
  gzip_encode :: "bytes \<Rightarrow> bytes"
  gzip_decode :: "bytes \<Rightarrow> bytes option"
  zstd_decode :: "bytes \<Rightarrow> bytes option"
  sigs_json :: "block_sig list \<Rightarrow> string option"
  ops_json :: "delta_op_msg list \<Rightarrow> bytes option"
  resp_json :: "response \<Rightarrow> bytes option"
  sp_lowercase :: "string \<Rightarrow> string"
  session_zero :: bool

record sync_conn = stream +
  disk_of :: disk

type_synonym 'a sync = "(sync_conn, 'a) act"

section \<open>Conversions\<close>

text \<open>\<open>usize as i32\<close>, \<open>i32 as usize\<close>.\<close>

definition as_i32 :: "nat \<Rightarrow> int" where
  "as_i32 n = sint (word_of_nat n :: 32 word)"

definition as_usize :: "int \<Rightarrow> nat" where
  "as_usize i = nat (i mod 2 ^ 64)"

definition convert_sigs_from_proto :: "block_sig list \<Rightarrow> delta_sig list" where
  "convert_sigs_from_proto =
     map (\<lambda>s. \<lparr>sig_index = as_usize (bs_index s), sig_weak = bs_weak s, sig_strong = bs_strong s\<rparr>)"

definition convert_sigs_to_proto :: "delta_sig list \<Rightarrow> block_sig list" where
  "convert_sigs_to_proto =
     map (\<lambda>s. \<lparr>bs_index = as_i32 (sig_index s), bs_weak = sig_weak s, bs_strong = sig_strong s\<rparr>)"

definition or_default :: "'a list option \<Rightarrow> 'a list" where
  "or_default x = (case x of Some l \<Rightarrow> l | None \<Rightarrow> [])"

definition convert_delta_from_proto :: "delta_op_msg list \<Rightarrow> delta_op list" where
  "convert_delta_from_proto =
     map (\<lambda>m. \<lparr>dop_type = op_type m, dop_index = as_usize (case op_index m of Some i \<Rightarrow> i | None \<Rightarrow> 0),
                dop_data = or_default (op_data m)\<rparr>)"

definition convert_delta_to_proto :: "delta_op list \<Rightarrow> delta_op_msg list" where
  "convert_delta_to_proto =
     map (\<lambda>x. \<lparr>op_type = dop_type x, op_index = (if dop_type x = ''match'' then Some (as_i32 (dop_index x)) else None),
                op_data = (if dop_data x = [] then None else Some (dop_data x))\<rparr>)"

definition gzip_decompress :: "sync_params \<Rightarrow> bytes \<Rightarrow> bytes option" where
  "gzip_decompress P data =
     (if length data < 2 \<or> data ! 0 \<noteq> 0x1F \<or> data ! 1 \<noteq> 0x8B then None else gzip_decode P data)"

definition file_response :: "string \<Rightarrow> nat \<Rightarrow> response" where
  "file_response out n = \<lparr>rs_success = True, rs_output = Some out, rs_error = None, rs_size = Some (int n),
     rs_binary = None, rs_gzip = None\<rparr>"

section \<open>Requests for one file\<close>

definition handle_get_signatures :: "sync_params \<Rightarrow> string \<Rightarrow> disk \<Rightarrow> response" where
  "handle_get_signatures P path d =
     (case fs_read d path of
        Inl Not_Found \<Rightarrow> file_response ''[]'' 0
      | Inl e \<Rightarrow> response_error (''read '' @ path @ '': '' @ show_io e)
      | Inr data \<Rightarrow>
          (case sigs_json P (convert_sigs_to_proto (compute_signatures (hashes P) data)) of
             Some json \<Rightarrow> file_response json (length data)
           | None \<Rightarrow> response_error ''serialize signatures: ''))"

definition handle_compute_delta :: "sync_params \<Rightarrow> string \<Rightarrow> delta_sig list \<Rightarrow> disk \<Rightarrow> response" where
  "handle_compute_delta P path remote_sigs d =
     (case fs_read d path of
        Inl e \<Rightarrow> response_error (''read '' @ path @ '': '' @ show_io e)
      | Inr data \<Rightarrow>
          (case ops_json P (convert_delta_to_proto (compute_delta (hashes P) data remote_sigs)) of
             None \<Rightarrow> response_error ''serialize delta: ''
           | Some json \<Rightarrow>
               (file_response (b64_enc (hashes P) (gzip_encode P json)) (length data))\<lparr>rs_gzip := Some True\<rparr>))"

text \<open>The common head of the handlers that write: \<open>parent\<close>, \<open>exists\<close>, \<open>create_dir_all\<close>.\<close>

definition ensure_parent :: "string \<Rightarrow> disk \<Rightarrow> io_error option \<times> disk" where
  "ensure_parent path d =
     (case path_parent path of
        Some parent \<Rightarrow> if path_exists d parent then (None, d) else create_dir_all parent d
      | None \<Rightarrow> (None, d))"

definition write_file :: "string \<Rightarrow> bytes \<Rightarrow> string \<Rightarrow> disk \<Rightarrow> response \<times> disk" where
  "write_file path data done_text d =
     (case fs_write path data d of
        (None, d') \<Rightarrow> (file_response (show_nat (length data) @ done_text) (length data), d')
      | (Some e, d') \<Rightarrow> (response_error (''write '' @ path @ '': '' @ show_io e), d'))"

definition refuses_profile :: "sync_params \<Rightarrow> string \<Rightarrow> bool" where
  "refuses_profile P path \<longleftrightarrow> session_zero P \<and> path_under_systemprofile (sp_lowercase P) path"

definition profile_refusal :: "string \<Rightarrow> response" where
  "profile_refusal what = response_error (''refusing '' @ what
     @ '' to systemprofile path under SYSTEM service (port 8822).'' @ [CHR 0x0A] @ session_zero_hint ''push'')"

definition or_raw :: "sync_params \<Rightarrow> bytes \<Rightarrow> bytes" where
  "or_raw P raw = (case gzip_decompress P raw of Some x \<Rightarrow> x | None \<Rightarrow> raw)"

definition read_or_empty :: "disk \<Rightarrow> string \<Rightarrow> bytes" where
  "read_or_empty d path = (case fs_read d path of Inr b \<Rightarrow> b | Inl _ \<Rightarrow> [])"

definition handle_apply_patch ::
  "sync_params \<Rightarrow> string \<Rightarrow> delta_op_msg list option \<Rightarrow> string option \<Rightarrow> disk \<Rightarrow> response \<times> disk" where
  "handle_apply_patch P path delta_ops content d =
     (if refuses_profile P path then (profile_refusal ''patch'', d)
      else case ensure_parent path d of
        (Some e, d1) \<Rightarrow> (response_error (''create dir: '' @ show_io e), d1)
      | (None, d1) \<Rightarrow>
          (case content of
             Some content_b64 \<Rightarrow>
               (case b64_dec (hashes P) content_b64 of
                  None \<Rightarrow> (response_error ''decode content: '', d1)
                | Some raw \<Rightarrow> write_file path (or_raw P raw) '' bytes written'' d1)
           | None \<Rightarrow>
               (case delta_ops of
                  Some ops \<Rightarrow>
                    write_file path (apply_delta (hashes P) (read_or_empty d1 path) (convert_delta_from_proto ops))
                      '' bytes written'' d1
                | None \<Rightarrow> (response_error ''patch requires delta or content'', d1))))"

definition handle_pull_file :: "sync_params \<Rightarrow> string \<Rightarrow> disk \<Rightarrow> response" where
  "handle_pull_file P path d =
     (case fs_read d path of
        Inr data \<Rightarrow> (file_response (b64_enc (hashes P) data) (length data))\<lparr>rs_binary := Some True\<rparr>
      | Inl e \<Rightarrow> response_error (''read '' @ path @ '': '' @ show_io e))"

section \<open>Pull-delta\<close>

definition reply_json :: "sync_params \<Rightarrow> response \<Rightarrow> unit sync" where
  "reply_json P resp = put_result (send_json (resp_json P) resp)"

definition M_msg :: "nat \<Rightarrow> bytes" where
  "M_msg index = 0x4D # be_bytes 4 (unat (word_of_nat index :: u32))"

definition D_msg :: "bytes \<Rightarrow> bytes" where
  "D_msg block = 0x44 # be_bytes 4 (unat (word_of_nat (length block) :: u32)) @ block"

text \<open>The message for the block at an offset: a match when a client signature has both its checksums.\<close>

definition block_message :: "delta_params \<Rightarrow> delta_sig list \<Rightarrow> bytes \<Rightarrow> bytes" where
  "block_message H client_sigs block =
     (let hit = (if client_sigs = [] then None
                 else case build_weak_map client_sigs (weak_hash H block) of
                        Some candidates \<Rightarrow> find (\<lambda>s. sig_strong s = strong_hash H block) candidates
                      | None \<Rightarrow> None)
      in case hit of Some s \<Rightarrow> M_msg (sig_index s) | None \<Rightarrow> D_msg block)"

function block_stream :: "delta_params \<Rightarrow> delta_sig list \<Rightarrow> bytes \<Rightarrow> nat \<Rightarrow> bytes" where
  "block_stream H client_sigs data offset =
     (if offset < length data
      then send_message (block_message H client_sigs (block_at data offset))
             @ block_stream H client_sigs data (min (offset + BLOCK_SIZE) (length data))
      else [])"
  by pat_completeness auto
termination
  by (relation "measure (\<lambda>(H, sigs, data, i). length data - i)") (auto simp: BLOCK_SIZE_def)

declare block_stream.simps [simp del]

definition handle_pull_delta :: "sync_params \<Rightarrow> request \<Rightarrow> unit sync" where
  "handle_pull_delta P req c =
     (case sanitize_path (or_default (rq_path req)) of
        Inl e \<Rightarrow> bail (Failed e) c
      | Inr path \<Rightarrow>
          (case fs_read (disk_of c) path of
             Inl e \<Rightarrow> reply_json P (response_error (''read '' @ path @ '': '' @ show_io e)) c
           | Inr data \<Rightarrow>
               then_do (reply_json P (file_response (show_nat (length data)) (length data))) (\<lambda>_.
                 put_bytes (block_stream (hashes P) (convert_sigs_from_proto (or_default (rq_signatures req))) data 0
                   @ send_message [0x45])) c))"

section \<open>Push-chunked\<close>

text \<open>What one message of the stream says: a piece of the file, the end, or an error to report.\<close>

datatype push_message = Piece bytes | Push_Done | Push_Bad string | Push_Broken

definition read_piece :: "sync_params \<Rightarrow> bytes \<Rightarrow> push_message" where
  "read_piece P msg =
     (if length msg < 6 then Push_Bad ''malformed D message: too short''
      else let payload_len = from_be (take 4 (drop 2 msg))
           in if length msg < 6 + payload_len
              then Push_Bad (''malformed D message: expected '' @ show_nat payload_len @ '' payload bytes, got ''
                     @ show_nat (length msg - 6))
              else let payload = take payload_len (drop 6 msg)
                   in if msg ! 1 = 0x01
                      then (case zstd_decode P payload of Some x \<Rightarrow> Piece x | None \<Rightarrow> Push_Broken)
                      else Piece payload)"

definition read_push :: "sync_params \<Rightarrow> bytes \<Rightarrow> push_message" where
  "read_push P msg =
     (if msg = [] then Push_Done
      else if hd msg = 0x44 then read_piece P msg
      else if hd msg = 0x45 then Push_Done
      else Push_Bad (''unexpected message type: 0x'' @ hex_byte (hd msg)))"

text \<open>The loop gives the whole file, or nothing when it has answered with an error and returned.\<close>

function push_loop :: "sync_params \<Rightarrow> bytes \<Rightarrow> bytes option sync" where
  "push_loop P file_data c =
     (case recv c of
        (Inl e, c') \<Rightarrow> (Inl e, c')
      | (Inr msg, c') \<Rightarrow>
          (case read_push P msg of
             Piece x \<Rightarrow> push_loop P (file_data @ x) c'
           | Push_Done \<Rightarrow> (Inr (Some file_data), c')
           | Push_Bad m \<Rightarrow> then_do (reply_json P (response_error m)) (\<lambda>_. give None) c'
           | Push_Broken \<Rightarrow> (Inl Decompress, c')))"
  by pat_completeness auto
termination
  by (relation "measure (\<lambda>(P, acc, c). length (inp c))") (auto dest: recv_shrinks [OF sym])

declare push_loop.simps [simp del]

definition store_file :: "sync_params \<Rightarrow> string \<Rightarrow> bytes \<Rightarrow> unit sync" where
  "store_file P path file_data c =
     (case write_file path file_data '' bytes'' (disk_of c) of
        (resp, d) \<Rightarrow> reply_json P resp (c\<lparr>disk_of := d\<rparr>))"

definition handle_push_chunked :: "sync_params \<Rightarrow> request \<Rightarrow> unit sync" where
  "handle_push_chunked P req c =
     (case sanitize_path (or_default (rq_path req)) of
        Inl e \<Rightarrow> bail (Failed e) c
      | Inr path \<Rightarrow>
          if path = [] then reply_json P (response_error ''missing path'') c
          else if refuses_profile P path then reply_json P (profile_refusal ''push'') c
          else (case ensure_parent path (disk_of c) of
                  (Some e, d) \<Rightarrow>
                    reply_json P (response_error (''create parent dir: '' @ show_io e)) (c\<lparr>disk_of := d\<rparr>)
                | (None, d) \<Rightarrow>
                    then_do (reply_json P (response_ok (Some ''ready''))) (\<lambda>_.
                    then_do (push_loop P []) (\<lambda>r.
                      case r of None \<Rightarrow> give () | Some file_data \<Rightarrow> store_file P path file_data))
                      (c\<lparr>disk_of := d\<rparr>)))"

end
