(* ===== verification/Sync_Client.thy ===== *)
theory Sync_Client
  imports Sync_Files
begin

text \<open>
  The client side of the file transfer, \<open>mrsh-client/src/sync/transfer.rs\<close>, and its conversation with
  the server's handlers. The client state is its byte stream and the capabilities of the server.
\<close>

record client_params =
  req_json :: "request \<Rightarrow> bytes option"
  resp_parse :: "bytes \<Rightarrow> response option"
  sigs_parse :: "string \<Rightarrow> block_sig list option"
  cl_hashes :: delta_params
  zstd_pack :: "bytes \<Rightarrow> bytes option"
  zstd_unpack :: "bytes \<Rightarrow> bytes option"

record client = stream +
  server_caps :: "string list"

type_synonym 'a cl = "(client, 'a) act"

record push_result =
  pu_path :: string
  pu_bytes_sent :: nat
  pu_delta :: bool

record pull_result =
  pl_data :: bytes
  pl_delta :: bool

definition PUSH_CHUNK_SIZE :: nat where "PUSH_CHUNK_SIZE = 10 * 1024 * 1024"

section \<open>Requests and responses\<close>

definition simple_request :: "string \<Rightarrow> request" where
  "simple_request t = \<lparr>req_type = t, rq_command = None, rq_path = None, rq_content = None, rq_binary = None,
     rq_gzip = None, rq_sync_type = None, rq_delta = None, rq_signatures = None, rq_paths = None,
     rq_batch_patches = None, rq_env_vars = None, rq_track = None, rq_version = None,
     rq_allow_downgrade = None, rq_insecure_no_verify = None\<rparr>"

text \<open>\<open>recv_json\<close> and \<open>recv_json_compressed\<close> on the client's stream.\<close>

definition get_json :: "(bytes \<Rightarrow> response result) \<Rightarrow> response cl" where
  "get_json de = then_do recv (\<lambda>d. lift_result (de d))"

definition plain_response :: "client_params \<Rightarrow> bytes \<Rightarrow> response result" where
  "plain_response C d = ok_or Deserialize (resp_parse C d)"

definition client_request :: "client_params \<Rightarrow> request \<Rightarrow> response cl" where
  "client_request C req =
     then_do (put_result (send_json (req_json C) req)) (\<lambda>_ c.
       get_json (if ''zstd'' \<in> set (server_caps c)
                 then decode_compressed (resp_parse C) (zstd_unpack C) else plain_response C) c)"

definition check_response :: "response \<Rightarrow> unit result" where
  "check_response resp =
     (if \<not> rs_success resp then Inl (Failed (case rs_error resp of Some e \<Rightarrow> e | None \<Rightarrow> ''unknown error''))
      else Inr ())"

section \<open>Push\<close>

definition chunk_message :: "client_params \<Rightarrow> bytes \<Rightarrow> bytes result" where
  "chunk_message C chunk =
     and_then (ok_or Serialize (zstd_pack C chunk)) (\<lambda>compressed.
       let (flag, payload) = (if length compressed < length chunk then (1, compressed) else (0, chunk))
       in Inr (0x44 # flag # be_bytes 4 (unat (word_of_nat (length payload) :: u32)) @ payload))"

fun send_chunks :: "client_params \<Rightarrow> bytes list \<Rightarrow> unit cl" where
  "send_chunks C [] = give ()"
| "send_chunks C (c # cs) =
     then_do (lift_result (chunk_message C c)) (\<lambda>msg.
     then_do (put_bytes (send_message msg)) (\<lambda>_. send_chunks C cs))"

definition chunked_request :: "string \<Rightarrow> nat \<Rightarrow> request" where
  "chunked_request remote_path n = (simple_request ''sync'')
     \<lparr>rq_sync_type := Some ''push-chunked'', rq_path := Some remote_path, rq_content := Some (show_nat n)\<rparr>"

text \<open>\<open>push_full\<close> sends the pieces of a buffer, \<open>push_full_streaming\<close> what each \<open>read\<close> of the file
  gives; they differ in nothing else.\<close>

definition push_pieces :: "client_params \<Rightarrow> string \<Rightarrow> nat \<Rightarrow> bytes list \<Rightarrow> push_result cl" where
  "push_pieces C remote_path n pieces =
     then_do (put_result (send_json (req_json C) (chunked_request remote_path n))) (\<lambda>_.
     then_do (get_json (plain_response C)) (\<lambda>ack.
       if \<not> rs_success ack
       then bail (Failed (''push-chunked rejected: '' @ (case rs_error ack of Some e \<Rightarrow> e | None \<Rightarrow> ''unknown'')))
       else
         then_do (send_chunks C pieces) (\<lambda>_.
         then_do (put_bytes (send_message [0x45])) (\<lambda>_.
         then_do (get_json (plain_response C)) (\<lambda>resp.
         then_do (lift_result (check_response resp)) (\<lambda>_.
           give \<lparr>pu_path = remote_path, pu_bytes_sent = length (concat pieces), pu_delta = False\<rparr>))))))"

definition push_full :: "client_params \<Rightarrow> bytes \<Rightarrow> string \<Rightarrow> push_result cl" where
  "push_full C data remote_path = push_pieces C remote_path (length data) (chunks PUSH_CHUNK_SIZE data)"

definition push_full_streaming :: "client_params \<Rightarrow> bytes list \<Rightarrow> nat \<Rightarrow> string \<Rightarrow> push_result cl" where
  "push_full_streaming C reads file_size remote_path =
     push_pieces C remote_path file_size (takeWhile (\<lambda>r. r \<noteq> []) reads)"

definition delta_ops_to_proto :: "delta_op list \<Rightarrow> delta_op_msg list" where
  "delta_ops_to_proto =
     map (\<lambda>x. \<lparr>op_type = dop_type x, op_index = (if dop_type x = ''match'' then Some (as_i32 (dop_index x)) else None),
                op_data = (if dop_type x = ''data'' then Some (dop_data x) else None)\<rparr>)"

definition push_delta :: "client_params \<Rightarrow> bytes \<Rightarrow> string \<Rightarrow> block_sig list \<Rightarrow> push_result cl" where
  "push_delta C local_data remote_path remote_sigs =
     then_do (client_request C ((simple_request ''push-delta'')\<lparr>rq_path := Some remote_path,
         rq_delta := Some (delta_ops_to_proto
           (compute_delta (cl_hashes C) local_data (convert_sigs_from_proto remote_sigs)))\<rparr>)) (\<lambda>resp.
     then_do (lift_result (check_response resp)) (\<lambda>_.
       give \<lparr>pu_path = remote_path, pu_bytes_sent = length local_data, pu_delta = True\<rparr>))"

definition sigs_request :: "string \<Rightarrow> request" where
  "sigs_request remote_path = (simple_request ''push-sigs'')\<lparr>rq_path := Some remote_path\<rparr>"

definition push :: "client_params \<Rightarrow> bytes \<Rightarrow> string \<Rightarrow> push_result cl" where
  "push C local_data remote_path =
     then_do (client_request C (sigs_request remote_path)) (\<lambda>resp.
       if \<not> rs_success resp then push_full C local_data remote_path
       else
         let remote_sigs = or_default (sigs_parse C (or_default (rs_output resp)))
         in if remote_sigs = [] then push_full C local_data remote_path
            else push_delta C local_data remote_path remote_sigs)"

text \<open>\<open>push_file\<close>: the size and the contents of the local file are what the system calls return.\<close>

definition push_file ::
  "client_params \<Rightarrow> nat option \<Rightarrow> bytes list \<Rightarrow> bytes option \<Rightarrow> string \<Rightarrow> push_result cl" where
  "push_file C metadata reads contents remote_path =
     then_do (lift_result (ok_or (Failed ''stat local file'') metadata)) (\<lambda>file_size.
     then_do (client_request C (sigs_request remote_path)) (\<lambda>resp.
       if \<not> rs_success resp then push_full_streaming C reads file_size remote_path
       else
         let remote_sigs = or_default (sigs_parse C (or_default (rs_output resp)))
         in if remote_sigs = [] then push_full_streaming C reads file_size remote_path
            else then_do (lift_result (ok_or (Failed ''read local file for delta'') contents)) (\<lambda>local_data.
                   push_delta C local_data remote_path remote_sigs)))"

section \<open>Pull\<close>

definition local_sigs :: "delta_params \<Rightarrow> bytes option \<Rightarrow> block_sig list" where
  "local_sigs H local_data = convert_sigs_to_proto (compute_signatures H (or_default local_data))"

definition pull_request :: "delta_params \<Rightarrow> bytes option \<Rightarrow> string \<Rightarrow> request" where
  "pull_request H local_data remote_path = (simple_request ''sync'')
     \<lparr>rq_sync_type := Some ''pull-delta'', rq_path := Some remote_path,
      rq_signatures := Some (local_sigs H local_data)\<rparr>"

datatype pull_message = Block bytes | Pull_End | Pull_Bad string

definition read_pull :: "bytes list \<Rightarrow> bytes \<Rightarrow> pull_message" where
  "read_pull local_blocks msg =
     (if msg = [] then Pull_Bad ''pull-delta: empty message from server''
      else if hd msg = 0x4D then
        (if length msg < 5 then Pull_Bad ''pull-delta: M message too short''
         else let idx = from_be (take 4 (drop 1 msg))
              in if idx < length local_blocks then Block (local_blocks ! idx)
                 else Pull_Bad (''pull-delta: M block index '' @ show_nat idx @ '' out of range (have ''
                        @ show_nat (length local_blocks) @ '')''))
      else if hd msg = 0x44 then
        (if length msg < 5 then Pull_Bad ''pull-delta: D message too short''
         else let data_len = from_be (take 4 (drop 1 msg))
              in if length msg < 5 + data_len
                 then Pull_Bad (''pull-delta: D message truncated (expected '' @ show_nat data_len
                        @ '' bytes, got '' @ show_nat (length msg - 5) @ '')'')
                 else Block (take data_len (drop 5 msg)))
      else if hd msg = 0x45 then Pull_End
      else Pull_Bad (''pull-delta: unknown message type 0x'' @ hex_byte (hd msg)))"

function pull_loop :: "bytes list \<Rightarrow> bytes \<Rightarrow> bytes cl" where
  "pull_loop local_blocks result_data c =
     (case recv c of
        (Inl e, c') \<Rightarrow> (Inl e, c')
      | (Inr msg, c') \<Rightarrow>
          (case read_pull local_blocks msg of
             Block b \<Rightarrow> pull_loop local_blocks (result_data @ b) c'
           | Pull_End \<Rightarrow> (Inr result_data, c')
           | Pull_Bad m \<Rightarrow> (Inl (Failed m), c')))"
  by pat_completeness auto
termination
  by (relation "measure (\<lambda>(bs, acc, c). length (inp c))") (auto dest: recv_shrinks [OF sym])

declare pull_loop.simps [simp del]

definition pull :: "client_params \<Rightarrow> bytes option \<Rightarrow> string \<Rightarrow> pull_result cl" where
  "pull C local_data remote_path =
     (let local_blocks = chunks BLOCK_SIZE (or_default local_data)
      in then_do (put_result (send_json (req_json C) (pull_request (cl_hashes C) local_data remote_path))) (\<lambda>_.
         then_do (get_json (plain_response C)) (\<lambda>resp.
         then_do (lift_result (check_response resp)) (\<lambda>_.
         then_do (pull_loop local_blocks []) (\<lambda>result_data.
           give \<lparr>pl_data = result_data, pl_delta = local_blocks \<noteq> []\<rparr>)))))"

section \<open>The conversions are inverse\<close>

lemma as_usize_i32: "n < 2147483648 \<Longrightarrow> as_usize (as_i32 n) = n"
proof -
  assume n: "n < 2147483648"
  then have "sint (word_of_nat n :: 32 word) = int n"
    by (simp add: signed_of_nat signed_take_bit_int_eq_self_iff)
  with n show ?thesis by (simp add: as_usize_def as_i32_def)
qed

text \<open>The index of a block fits \<open>i32\<close>: files of less than 8 TiB.\<close>

definition indexable :: "bytes \<Rightarrow> bool" where
  "indexable data \<longleftrightarrow> length data \<le> 2147483648 * BLOCK_SIZE"

lemma signature_index_bound:
  assumes "indexable data" "s \<in> set (compute_signatures H data)"
  shows "sig_index s < 2147483648"
  using assms by (auto simp: indexable_def compute_signatures_iff signature_of_def BLOCK_SIZE_def)

lemma convert_sigs_inverse:
  "indexable data \<Longrightarrow>
     convert_sigs_from_proto (convert_sigs_to_proto (compute_signatures H data)) = compute_signatures H data"
  unfolding convert_sigs_from_proto_def convert_sigs_to_proto_def map_map
  by (intro map_idI) (simp add: signature_index_bound as_usize_i32)

section \<open>Blocks\<close>

lemma chunks_block:
  "k * n < length d \<Longrightarrow> 0 < n \<Longrightarrow> k < length (chunks n d) \<and> chunks n d ! k = take n (drop (k * n) d)"
proof (induction k arbitrary: d)
  case 0
  then show ?case by (subst (1 2) chunks.simps) auto
next
  case (Suc k)
  then have "k * n < length (drop n d)" "d \<noteq> []" by auto
  with Suc show ?case by (subst (1 2) chunks.simps) (auto simp: add.commute)
qed

lemma block_at_take: "block_at d i = take BLOCK_SIZE (drop i d)"
  by (cases "i + BLOCK_SIZE \<le> length d") (simp_all add: block_at_def min_def)

lemma recv_sent: "inp c = send_message m @ r \<Longrightarrow> wire_sendable m \<Longrightarrow> recv c = (Inr m, c\<lparr>inp := r\<rparr>)"
  by (simp add: recv_def recv_send_message)

lemma read_D: "length b < 4294967296 \<Longrightarrow> read_pull bs (D_msg b) = Block b"
  by (simp add: read_pull_def D_msg_def bytes_simps unat_u32_of_nat)

lemma read_M: "k < length bs \<Longrightarrow> k < 4294967296 \<Longrightarrow> read_pull bs (M_msg k) = Block (bs ! k)"
  by (simp add: read_pull_def M_msg_def bytes_simps unat_u32_of_nat)

text \<open>Each block of the server's file arrives as that block.\<close>

lemma block_arrives:
  assumes "indexable old" "no_collision H old new" "k * BLOCK_SIZE < length new"
  shows "read_pull (chunks BLOCK_SIZE old) (block_message H (compute_signatures H old) (block_at new (k * BLOCK_SIZE)))
    = Block (block_at new (k * BLOCK_SIZE))"
    (is "read_pull ?bs (block_message H ?sigs ?b) = _")
proof (cases "find_match H (build_weak_map ?sigs) new (k * BLOCK_SIZE)")
  case None
  with try_here_aligned [OF assms(3)] have "block_message H ?sigs ?b = D_msg ?b"
    by (simp add: find_match_def block_message_def split: option.splits)
  then show ?thesis by (simp add: read_D block_at_take BLOCK_SIZE_def)
next
  case (Some s)
  have "?sigs \<noteq> []" using Some by (auto simp: find_match_def build_weak_map_def split: if_splits)
  with Some try_here_aligned [OF assms(3)] have m: "block_message H ?sigs ?b = M_msg (sig_index s)"
    by (simp add: find_match_def block_message_def split: option.splits)
  have "s \<in> set ?sigs"
    using Some by (auto simp: find_match_iff find_Some_iff split: if_splits dest: nth_mem)
  then obtain j where j: "j * BLOCK_SIZE < length old" "sig_index s = j"
    by (auto simp: compute_signatures_iff signature_of_def)
  have "j < 2147483648" using signature_index_bound [OF assms(1) \<open>s \<in> set ?sigs\<close>] j by simp
  moreover have "apply_delta H old [match_op j] = ?b" using find_match_block [OF Some assms(2,3)] j by simp
  moreover have "apply_delta H old [match_op j] = ?bs ! j" "j < length ?bs"
    using chunks_block [OF j(1)] by (simp_all add: apply_match_op [OF j(1)] block_at_take)
  ultimately show ?thesis by (simp add: m j(2) read_M)
qed

lemma block_message_sendable: "length b \<le> BLOCK_SIZE \<Longrightarrow> wire_sendable (block_message H sigs b)"
  by (auto simp: block_message_def Let_def wire_sendable_def M_msg_def D_msg_def BLOCK_SIZE_def split: option.split)

lemma pull_loop_stream:
  assumes "indexable old" "no_collision H old new"
    and "inp c = block_stream H (compute_signatures H old) new (min (k * BLOCK_SIZE) (length new)) @ send_message [0x45] @ rest"
  shows "pull_loop (chunks BLOCK_SIZE old) acc c = (Inr (acc @ drop (k * BLOCK_SIZE) new), c\<lparr>inp := rest\<rparr>)"
  using assms(3)
proof (induction "length new - k * BLOCK_SIZE" arbitrary: k acc c rule: less_induct)
  case less
  show ?case
  proof (cases "k * BLOCK_SIZE < length new")
    case False
    with less.prems have "inp c = send_message [0x45] @ rest" by (simp add: block_stream.simps)
    then have "recv c = (Inr [0x45], c\<lparr>inp := rest\<rparr>)" by (rule recv_sent) (simp add: wire_sendable_def)
    with False show ?thesis by (simp add: pull_loop.simps read_pull_def)
  next
    case True
    let ?b = "block_at new (k * BLOCK_SIZE)" and ?s = "block_stream H (compute_signatures H old) new"
    let ?r = "?s (min (Suc k * BLOCK_SIZE) (length new)) @ send_message [0x45] @ rest"
    have "inp c = send_message (block_message H (compute_signatures H old) ?b) @ ?r"
      using less.prems True by (simp add: block_stream.simps [of _ _ _ "k * BLOCK_SIZE"] add.commute)
    moreover have "length ?b \<le> BLOCK_SIZE" by (simp add: block_at_take)
    ultimately have "recv c = (Inr (block_message H (compute_signatures H old) ?b), c\<lparr>inp := ?r\<rparr>)"
      by (intro recv_sent block_message_sendable)
    then have "pull_loop (chunks BLOCK_SIZE old) acc c = pull_loop (chunks BLOCK_SIZE old) (acc @ ?b) (c\<lparr>inp := ?r\<rparr>)"
      using block_arrives [OF assms(1,2) True] by (simp add: pull_loop.simps [of _ acc])
    also have "\<dots> = (Inr ((acc @ ?b) @ drop (Suc k * BLOCK_SIZE) new), c\<lparr>inp := rest\<rparr>)"
      using less.hyps [of "Suc k" "c\<lparr>inp := ?r\<rparr>"] True by (simp add: BLOCK_SIZE_def)
    also have "(acc @ ?b) @ drop (Suc k * BLOCK_SIZE) new = acc @ drop (k * BLOCK_SIZE) new"
      using block_at_next [OF True] by (simp add: min_def add.commute split: if_splits)
    finally show ?thesis .
  qed
qed

section \<open>A pull gives the server's file\<close>

text \<open>The client parses the response as the server wrote it.\<close>

definition understood :: "sync_params \<Rightarrow> client_params \<Rightarrow> response \<Rightarrow> bool" where
  "understood P C r \<longleftrightarrow> (\<exists>b. resp_json P r = Some b \<and> wire_sendable b \<and> resp_parse C b = Some r)"

definition response_bytes :: "sync_params \<Rightarrow> response \<Rightarrow> bytes" where
  "response_bytes P r = send_message (case resp_json P r of Some b \<Rightarrow> b | None \<Rightarrow> [])"

lemma reply_understood:
  "understood P C r \<Longrightarrow> reply_json P r s = (Inr (), s\<lparr>outp := outp s @ response_bytes P r\<rparr>)"
  by (auto simp: understood_def reply_json_def put_result_def send_json_def put_bytes_def response_bytes_def give_def)

lemma get_understood:
  "understood P C r \<Longrightarrow> inp c = response_bytes P r @ rest \<Longrightarrow>
     get_json (plain_response C) c = (Inr r, c\<lparr>inp := rest\<rparr>)"
  by (auto simp: understood_def response_bytes_def get_json_def plain_response_def then_do_def recv_sent give_def)

lemma put_request:
  "req_json C r = Some b \<Longrightarrow> put_result (send_json (req_json C) r) c = (Inr (), c\<lparr>outp := outp c @ send_message b\<rparr>)"
  by (simp add: put_result_def send_json_def put_bytes_def give_def)

lemma chunks_Nil_iff: "chunks BLOCK_SIZE d \<noteq> [] \<longleftrightarrow> d \<noteq> []"
  by (simp add: chunks.simps)

text \<open>What the handler writes for a client that has \<open>old\<close>, and that the client reads it.\<close>

definition pull_answer :: "sync_params \<Rightarrow> bytes \<Rightarrow> bytes \<Rightarrow> bytes" where
  "pull_answer P old data = response_bytes P (file_response (show_nat (length data)) (length data))
     @ block_stream (hashes P) (compute_signatures (hashes P) old) data 0 @ send_message [0x45]"

lemma pull_answered:
  assumes "understood P C (file_response (show_nat (length data)) (length data))"
    and "sanitize_path path = Inr path" "fs_read (disk_of s) path = Inr data" "indexable (or_default local)"
  shows "handle_pull_delta P (pull_request (hashes P) local path) s
    = (Inr (), s\<lparr>outp := outp s @ pull_answer P (or_default local) data\<rparr>)"
proof -
  have "or_default (rq_path (pull_request (hashes P) local path)) = path"
    "convert_sigs_from_proto (or_default (rq_signatures (pull_request (hashes P) local path)))
      = compute_signatures (hashes P) (or_default local)"
    using convert_sigs_inverse [OF assms(4)] by (simp_all add: pull_request_def local_sigs_def or_default_def)
  with assms(2,3) show ?thesis
    by (simp add: handle_pull_delta_def then_do_def reply_understood [OF assms(1)] put_bytes_def pull_answer_def)
qed

lemma pull_reads_answer:
  assumes "cl_hashes C = hashes P" "req_json C (pull_request (hashes P) local path) = Some rq"
    and "understood P C (file_response (show_nat (length data)) (length data))"
    and "indexable (or_default local)" "no_collision (hashes P) (or_default local) data"
    and "inp c = pull_answer P (or_default local) data @ rest"
  shows "pull C local path c
    = (Inr \<lparr>pl_data = data, pl_delta = or_default local \<noteq> []\<rparr>, c\<lparr>inp := rest, outp := outp c @ send_message rq\<rparr>)"
proof -
  let ?blocks = "block_stream (hashes P) (compute_signatures (hashes P) (or_default local)) data 0 @ send_message [0x45]"
  have "pull_loop (chunks BLOCK_SIZE (or_default local)) [] (c\<lparr>outp := outp c @ send_message rq, inp := ?blocks @ rest\<rparr>)
      = (Inr data, c\<lparr>outp := outp c @ send_message rq, inp := rest\<rparr>)"
    using pull_loop_stream [OF assms(4,5), where k = 0 and acc = "[]" and rest = rest] by simp
  with assms(1,2,6) show ?thesis
    by (simp add: pull_def then_do_def put_request get_understood [OF assms(3)] check_response_def
        file_response_def chunks_Nil_iff give_def pull_answer_def)
qed

text \<open>C26. A delta pull gives the client the server's file, whatever older version it starts from: the
  stream the handler writes for the client's request is read by the client's loop as exactly the file,
  the request is all the client sends, and what follows the stream is left unread. It relies on the two
  ends agreeing on the checksums and the response's JSON, and on no two different blocks that are
  compared having both checksums equal.\<close>

theorem pull_delivers:
  assumes "cl_hashes C = hashes P" "req_json C (pull_request (hashes P) local path) = Some rq"
    and "understood P C (file_response (show_nat (length data)) (length data))"
    and "sanitize_path path = Inr path" "fs_read (disk_of s) path = Inr data"
    and "indexable (or_default local)" "no_collision (hashes P) (or_default local) data"
  shows "\<exists>out. handle_pull_delta P (pull_request (hashes P) local path) s = (Inr (), s\<lparr>outp := outp s @ out\<rparr>) \<and>
    pull C local path (c\<lparr>inp := out @ rest\<rparr>)
      = (Inr \<lparr>pl_data = data, pl_delta = or_default local \<noteq> []\<rparr>, c\<lparr>inp := rest, outp := outp c @ send_message rq\<rparr>)"
proof -
  have "pull C local path (c\<lparr>inp := pull_answer P (or_default local) data @ rest\<rparr>)
      = (Inr \<lparr>pl_data = data, pl_delta = or_default local \<noteq> []\<rparr>, c\<lparr>inp := rest, outp := outp c @ send_message rq\<rparr>)"
    using pull_reads_answer [OF assms(1-3,6,7), of "c\<lparr>inp := pull_answer P (or_default local) data @ rest\<rparr>" rest] by simp
  with pull_answered [OF assms(3-6)] show ?thesis by blast
qed

section \<open>A push stores the client's file\<close>

definition packable :: "sync_params \<Rightarrow> client_params \<Rightarrow> bytes \<Rightarrow> bool" where
  "packable P C piece \<longleftrightarrow> length piece \<le> PUSH_CHUNK_SIZE \<and> (\<exists>z. zstd_pack C piece = Some z \<and> zstd_decode P z = Some piece)"

definition piece_bytes :: "client_params \<Rightarrow> bytes \<Rightarrow> bytes" where
  "piece_bytes C piece = (case chunk_message C piece of Inr m \<Rightarrow> m | Inl _ \<Rightarrow> [])"

lemma packable_message:
  assumes "packable P C piece"
  shows "chunk_message C piece = Inr (piece_bytes C piece)" "wire_sendable (piece_bytes C piece)"
    "read_push P (piece_bytes C piece) = Piece piece"
proof -
  obtain z where z: "zstd_pack C piece = Some z" "zstd_decode P z = Some piece" and l: "length piece \<le> 10485760"
    using assms by (auto simp: packable_def PUSH_CHUNK_SIZE_def)
  define f p where "f = (if length z < length piece then 1 else 0 :: byte)"
    and "p = (if length z < length piece then z else piece)"
  have m: "chunk_message C piece = Inr (0x44 # f # be_bytes 4 (unat (word_of_nat (length p) :: u32)) @ p)"
    by (simp add: chunk_message_def z f_def p_def)
  have "length p \<le> 10485760" using l by (simp add: p_def)
  with m z show "chunk_message C piece = Inr (piece_bytes C piece)" "wire_sendable (piece_bytes C piece)"
    "read_push P (piece_bytes C piece) = Piece piece"
    by (simp_all add: piece_bytes_def wire_sendable_def read_push_def read_piece_def bytes_simps unat_u32_of_nat
        numeral_2_eq_2 [symmetric]) (simp_all add: f_def p_def)
qed

definition chunk_stream :: "client_params \<Rightarrow> bytes list \<Rightarrow> bytes" where
  "chunk_stream C pieces = concat (map (\<lambda>p. send_message (piece_bytes C p)) pieces) @ send_message [0x45]"

lemma send_chunks_stream:
  "list_all (packable P C) pieces \<Longrightarrow>
     send_chunks C pieces c = (Inr (), c\<lparr>outp := outp c @ concat (map (\<lambda>p. send_message (piece_bytes C p)) pieces)\<rparr>)"
  by (induction pieces arbitrary: c) (simp_all add: give_def lift_result_def packable_message(1) [of P] then_do_def put_bytes_def)

lemma push_loop_stream:
  "list_all (packable P C) pieces \<Longrightarrow> inp s = chunk_stream C pieces @ rest \<Longrightarrow>
     push_loop P acc s = (Inr (Some (acc @ concat pieces)), s\<lparr>inp := rest\<rparr>)"
proof (induction pieces arbitrary: acc s)
  case Nil
  then have "recv s = (Inr [0x45], s\<lparr>inp := rest\<rparr>)"
    by (intro recv_sent) (simp_all add: chunk_stream_def wire_sendable_def)
  then show ?case by (simp add: push_loop.simps read_push_def)
next
  case (Cons p pieces)
  then have p: "packable P C p" by simp
  have "recv s = (Inr (piece_bytes C p), s\<lparr>inp := chunk_stream C pieces @ rest\<rparr>)"
    using Cons.prems packable_message(2) [OF p] by (intro recv_sent) (simp_all add: chunk_stream_def)
  with Cons packable_message(3) [OF p] show ?case by (simp add: push_loop.simps [of P acc s])
qed

definition push_done :: "bytes \<Rightarrow> response" where
  "push_done data = file_response (show_nat (length data) @ '' bytes'') (length data)"

lemma push_chunked_serves:
  assumes "list_all (packable P C) pieces" "understood P C (response_ok (Some ''ready''))"
    and "understood P C (push_done (concat pieces))"
    and "sanitize_path path = Inr path" "path \<noteq> []" "\<not> refuses_profile P path"
    and "ensure_parent path (disk_of s) = (None, d)" "write_error d path = None"
    and "inp s = chunk_stream C pieces @ rest"
  shows "handle_push_chunked P (chunked_request path n) s =
    (Inr (), s\<lparr>inp := rest, disk_of := snd (fs_write path (concat pieces) d),
       outp := outp s @ response_bytes P (response_ok (Some ''ready'')) @ response_bytes P (push_done (concat pieces))\<rparr>)"
proof -
  have "or_default (rq_path (chunked_request path n)) = path" by (simp add: chunked_request_def or_default_def)
  moreover have "write_file path (concat pieces) '' bytes'' d = (push_done (concat pieces), snd (fs_write path (concat pieces) d))"
    using assms(8) by (simp add: write_file_def fs_write_def push_done_def)
  ultimately show ?thesis
    using assms(4-9) by (simp add: handle_push_chunked_def then_do_def reply_understood [OF assms(2)] reply_understood [OF assms(3)]
        push_loop_stream [OF assms(1), where rest = rest] store_file_def)
qed

lemma push_pieces_sends:
  assumes "list_all (packable P C) pieces" "understood P C (response_ok (Some ''ready''))"
    and "understood P C (push_done (concat pieces))" "req_json C (chunked_request path n) = Some rq"
    and "inp c = response_bytes P (response_ok (Some ''ready'')) @ response_bytes P (push_done (concat pieces)) @ rest"
  shows "push_pieces C path n pieces c =
    (Inr \<lparr>pu_path = path, pu_bytes_sent = length (concat pieces), pu_delta = False\<rparr>,
     c\<lparr>inp := rest, outp := outp c @ send_message rq @ chunk_stream C pieces\<rparr>)"
  using assms(4,5)
  by (simp add: push_pieces_def then_do_def put_request get_understood [OF assms(2)] get_understood [OF assms(3)]
      send_chunks_stream [OF assms(1)] put_bytes_def check_response_def response_ok_def push_done_def file_response_def
      give_def chunk_stream_def)

lemma ensure_parent_frame:
  "ensure_parent path d = (r, d') \<Longrightarrow> files d' = files d \<and> fault d' = fault d \<and> folders d \<subseteq> folders d'"
  by (auto simp: ensure_parent_def split: option.splits if_splits dest: create_dir_all_frame)

text \<open>C27. A full push stores the client's file: the pieces the client sends, compressed or not, are put
  together by the server's handler into exactly the data, written under the path and nowhere else; both
  answers reach the client, which reports success, and neither end reads past the conversation.\<close>

theorem push_stores:
  assumes "list_all (packable P C) (chunks PUSH_CHUNK_SIZE data)"
    and "understood P C (response_ok (Some ''ready''))" "understood P C (push_done data)"
    and "req_json C (chunked_request path (length data)) = Some rq"
    and "sanitize_path path = Inr path" "path \<noteq> []" "\<not> refuses_profile P path"
    and "ensure_parent path (disk_of s) = (None, d)" "write_error d path = None"
  shows "\<exists>up down d'. push_full C data path (c\<lparr>inp := down @ rest\<rparr>)
      = (Inr \<lparr>pu_path = path, pu_bytes_sent = length data, pu_delta = False\<rparr>,
         c\<lparr>inp := rest, outp := outp c @ send_message rq @ up\<rparr>) \<and>
    handle_push_chunked P (chunked_request path (length data)) (s\<lparr>inp := up @ later\<rparr>)
      = (Inr (), s\<lparr>inp := later, outp := outp s @ down, disk_of := d'\<rparr>) \<and>
    fs_read d' path = Inr data \<and> files d' = (files (disk_of s))(path \<mapsto> data)"
proof -
  let ?ps = "chunks PUSH_CHUNK_SIZE data" and ?d = "snd (fs_write path data d)"
  let ?down = "response_bytes P (response_ok (Some ''ready'')) @ response_bytes P (push_done data)"
  have [simp]: "concat ?ps = data" by (rule concat_chunks) (simp add: PUSH_CHUNK_SIZE_def)
  have "push_full C data path (c\<lparr>inp := ?down @ rest\<rparr>)
      = (Inr \<lparr>pu_path = path, pu_bytes_sent = length data, pu_delta = False\<rparr>,
         c\<lparr>inp := rest, outp := outp c @ send_message rq @ chunk_stream C ?ps\<rparr>)"
    using push_pieces_sends [OF assms(1,2) _ assms(4), of "c\<lparr>inp := ?down @ rest\<rparr>" rest] assms(3)
    by (simp add: push_full_def)
  moreover have "handle_push_chunked P (chunked_request path (length data)) (s\<lparr>inp := chunk_stream C ?ps @ later\<rparr>)
      = (Inr (), s\<lparr>inp := later, outp := outp s @ ?down, disk_of := ?d\<rparr>)"
    using push_chunked_serves [OF assms(1,2) _ assms(5-7), of "s\<lparr>inp := chunk_stream C ?ps @ later\<rparr>" d later "length data"]
      assms(3,8,9) by simp
  moreover have "files d = files (disk_of s)" using ensure_parent_frame [OF assms(8)] by simp
  ultimately show ?thesis
    using assms(9)
    by (rule_tac exI [of _ "chunk_stream C ?ps"], rule_tac exI [of _ ?down], rule_tac exI [of _ ?d])
      (simp add: fs_read_write fs_write_files)
qed

section \<open>A patch makes the server's file the client's\<close>

definition op_fits :: "delta_op \<Rightarrow> bool" where
  "op_fits x \<longleftrightarrow> dop_type x = ''data'' \<and> dop_index x = 0 \<or> dop_type x = ''match'' \<and> dop_index x < 2147483648 \<and> dop_data x = []"

lemma convert_delta_inverse:
  "list_all op_fits ops \<Longrightarrow> convert_delta_from_proto (delta_ops_to_proto ops) = ops"
  "list_all op_fits ops \<Longrightarrow> convert_delta_from_proto (convert_delta_to_proto ops) = ops"
  by (auto simp: convert_delta_from_proto_def delta_ops_to_proto_def convert_delta_to_proto_def list_all_iff op_fits_def
      or_default_def as_usize_i32 as_usize_def [of 0] intro!: map_idI)

lemma flush_fits: "list_all op_fits (flush H um)"
  by (simp add: flush_def data_op_def op_fits_def)

lemma delta_loop_fits:
  assumes "\<And>s. s \<in> set sigs \<Longrightarrow> sig_index s < 2147483648"
  shows "list_all op_fits ops \<Longrightarrow> list_all op_fits (delta_loop H (build_weak_map sigs) new i um ops)"
proof (induction "length new - i" arbitrary: i um ops rule: less_induct)
  case less
  show ?case
  proof (cases "i < length new")
    case False
    with less.prems show ?thesis by (simp add: delta_loop.simps flush_fits)
  next
    case True
    show ?thesis
    proof (cases "find_match H (build_weak_map sigs) new i")
      case None
      with True less.hyps [of "i + 1"] less.prems show ?thesis by (subst delta_loop.simps) simp
    next
      case (Some s)
      then have "s \<in> set sigs" by (auto simp: find_match_iff find_Some_iff split: if_splits dest: nth_mem)
      then have "list_all op_fits (ops @ flush H um @ [match_op (sig_index s)])"
        using less.prems assms by (simp add: flush_fits match_op_def op_fits_def)
      with True Some less.hyps [of "min (i + BLOCK_SIZE) (length new)"] show ?thesis
        by (subst delta_loop.simps) (simp add: BLOCK_SIZE_def)
    qed
  qed
qed

lemma compute_delta_fits: "indexable old \<Longrightarrow> list_all op_fits (compute_delta H new (compute_signatures H old))"
  using delta_loop_fits [of "compute_signatures H old" "[]"] signature_index_bound
  by (auto simp: compute_delta_def data_op_def op_fits_def)

text \<open>C25. Signatures, delta and patch make the server's file equal to the client's: when the client
  computes the delta of its data from the signatures the server gave for its file, in their wire form,
  the patch handler writes exactly that data, and no other file changes. A file the server does not
  have yet counts as empty.\<close>

theorem patch_updates:
  assumes "b64_sound (hashes P)" "no_collision (hashes P) (read_or_empty d path) new" "indexable (read_or_empty d path)"
    and "\<not> refuses_profile P path" "ensure_parent path d = (None, d1)" "write_error d1 path = None"
    and "sigs = convert_sigs_to_proto (compute_signatures (hashes P) (read_or_empty d path))"
    and "ops = delta_ops_to_proto (compute_delta (hashes P) new (convert_sigs_from_proto sigs))"
  shows "\<exists>d'. handle_apply_patch P path (Some ops) None d
      = (file_response (show_nat (length new) @ '' bytes written'') (length new), d') \<and>
    fs_read d' path = Inr new \<and> files d' = (files d)(path \<mapsto> new)"
proof -
  let ?H = "hashes P" and ?old = "read_or_empty d path"
  note frame = ensure_parent_frame [OF assms(5)]
  have "fault d1 path = None" "path \<notin> folders d1"
    using assms(6) by (auto simp: write_error_def split: option.splits if_splits)
  with frame have "fs_read d1 path = fs_read d path" by (auto simp: fs_read_def)
  then have "read_or_empty d1 path = ?old" by (simp add: read_or_empty_def)
  moreover have "apply_delta ?H ?old (convert_delta_from_proto ops) = new"
    using assms(3) delta_reconstructs [OF assms(1,2)]
    by (simp add: assms(7,8) convert_sigs_inverse convert_delta_inverse compute_delta_fits)
  ultimately have "handle_apply_patch P path (Some ops) None d
      = (file_response (show_nat (length new) @ '' bytes written'') (length new), snd (fs_write path new d1))"
    using assms(4-6) by (simp add: handle_apply_patch_def write_file_def fs_write_def)
  with assms(6) frame show ?thesis by (simp add: fs_read_write fs_write_files)
qed

section \<open>Concrete conversations\<close>

definition sample_sync :: sync_params where
  "sample_sync = \<lparr>hashes = identity_hash, gzip_encode = (\<lambda>b. b), gzip_decode = Some, zstd_decode = Some,
     sigs_json = (\<lambda>_. Some ''[]''), ops_json = (\<lambda>_. Some []),
     resp_json = (\<lambda>r. Some (as_bytes (case rs_output r of Some x \<Rightarrow> x | None \<Rightarrow> ''!''))),
     sp_lowercase = (\<lambda>s. s), session_zero = False\<rparr>"

definition sample_parse :: "bytes \<Rightarrow> response option" where
  "sample_parse b = Some (if b = as_bytes ''ready'' then response_ok (Some ''ready'')
     else file_response (str_of_bytes b) 3)"

definition sample_client :: client_params where
  "sample_client = \<lparr>req_json = (\<lambda>_. Some [1]), resp_parse = sample_parse, sigs_parse = (\<lambda>_. None),
     cl_hashes = identity_hash, zstd_pack = Some, zstd_unpack = Some\<rparr>"

definition sample_disk :: disk where
  "sample_disk = \<lparr>files = [''f'' \<mapsto> [1, 2, 3]], folders = {}, fault = (\<lambda>_. None), other_device = (\<lambda>_ _. False)\<rparr>"

lemma sample_understood:
  "understood sample_sync sample_client (response_ok (Some ''ready''))"
  "understood sample_sync sample_client (file_response ''3'' 3)"
  "understood sample_sync sample_client (file_response ''3 bytes'' 3)"
  by (auto simp: understood_def sample_sync_def sample_client_def sample_parse_def response_ok_def file_response_def
      wire_sendable_def) (auto simp: as_bytes_def)

lemma sample_no_collision: "no_collision identity_hash old new"
proof -
  have "str_of_bytes x = str_of_bytes y \<Longrightarrow> x = y" for x y by (metis as_bytes_str_of_bytes)
  then show ?thesis by (auto simp: no_collision_def identity_hash_def)
qed

lemma sample_fields [simp]:
  "hashes sample_sync = identity_hash" "cl_hashes sample_client = identity_hash" "session_zero sample_sync = False"
  "req_json sample_client r = Some [1]" "zstd_decode sample_sync = Some" "zstd_pack sample_client = Some"
  by (simp_all add: sample_sync_def sample_client_def)

lemma sample_length: "show_nat 3 = ''3''" "length [a, b, c] = 3"
  by code_simp simp

theorem pull_delivers_witness:
  "\<exists>out. handle_pull_delta sample_sync (pull_request identity_hash (Some [9]) ''f'') \<lparr>inp = [], outp = [], disk_of = sample_disk\<rparr>
      = (Inr (), \<lparr>inp = [], outp = out, disk_of = sample_disk\<rparr>) \<and>
    pull sample_client (Some [9]) ''f'' \<lparr>inp = out, outp = [], server_caps = []\<rparr>
      = (Inr \<lparr>pl_data = [1, 2, 3], pl_delta = True\<rparr>, \<lparr>inp = [], outp = send_message [1], server_caps = []\<rparr>)"
proof -
  let ?s = "\<lparr>inp = [], outp = [], disk_of = sample_disk\<rparr>"
  have "understood sample_sync sample_client (file_response (show_nat (length [1, 2, 3 :: byte])) (length [1, 2, 3 :: byte]))"
    using sample_understood(2) by (simp only: sample_length)
  moreover have "sanitize_path ''f'' = Inr ''f''" by code_simp
  moreover have "fs_read (disk_of ?s) ''f'' = Inr [1, 2, 3]" by (simp add: fs_read_def sample_disk_def)
  moreover have "indexable (or_default (Some [9]))" by (simp add: indexable_def or_default_def BLOCK_SIZE_def)
  moreover have "no_collision (hashes sample_sync) (or_default (Some [9])) [1, 2, 3]" by (simp add: sample_no_collision)
  ultimately have "\<exists>out. handle_pull_delta sample_sync (pull_request (hashes sample_sync) (Some [9]) ''f'') ?s
      = (Inr (), ?s\<lparr>outp := outp ?s @ out\<rparr>) \<and>
    pull sample_client (Some [9]) ''f'' (\<lparr>inp = [], outp = [], server_caps = []\<rparr>\<lparr>inp := out @ []\<rparr>)
      = (Inr \<lparr>pl_data = [1, 2, 3], pl_delta = or_default (Some [9 :: byte]) \<noteq> []\<rparr>,
         \<lparr>inp = [], outp = [], server_caps = []\<rparr>\<lparr>inp := [], outp := outp \<lparr>inp = [], outp = [], server_caps = []\<rparr> @ send_message [1]\<rparr>)"
    by (intro pull_delivers) simp_all
  then show ?thesis by (simp add: or_default_def)
qed

theorem patch_updates_witness:
  "\<exists>d'. fs_read d' ''f'' = Inr [1, 2, 4] \<and>
    handle_apply_patch sample_sync ''f'' (Some (delta_ops_to_proto (compute_delta identity_hash [1, 2, 4]
        (convert_sigs_from_proto (convert_sigs_to_proto (compute_signatures identity_hash [1, 2, 3])))))) None sample_disk
      = (file_response ''3 bytes written'' 3, d')"
proof -
  have f: "path_parent ''f'' = Some []" "\<not> ends_with ''f'' ''/''" by code_simp+
  then have e: "ensure_parent ''f'' sample_disk = (None, sample_disk)" "write_error sample_disk ''f'' = None"
    by (simp_all add: ensure_parent_def path_exists_def create_dir_all.simps write_error_def parent_there_def sample_disk_def)
  have r: "read_or_empty sample_disk ''f'' = [1, 2, 3]" by (simp add: read_or_empty_def fs_read_def sample_disk_def)
  have "b64_sound (hashes sample_sync)" by (simp add: b64_sound_def) (simp add: identity_hash_def)
  with patch_updates [where P = sample_sync and d = sample_disk and path = "''f''" and new = "[1, 2, 4]", OF _ _ _ _ e refl refl]
    sample_no_collision show ?thesis
    by (simp only: r sample_fields sample_length refuses_profile_def indexable_def) (auto simp: BLOCK_SIZE_def)
qed

theorem push_stores_witness:
  "\<exists>up down d'. push_full sample_client [7, 8, 9] ''g'' \<lparr>inp = down, outp = [], server_caps = []\<rparr>
      = (Inr \<lparr>pu_path = ''g'', pu_bytes_sent = 3, pu_delta = False\<rparr>,
         \<lparr>inp = [], outp = send_message [1] @ up, server_caps = []\<rparr>) \<and>
    handle_push_chunked sample_sync (chunked_request ''g'' 3) \<lparr>inp = up, outp = [], disk_of = sample_disk\<rparr>
      = (Inr (), \<lparr>inp = [], outp = down, disk_of = d'\<rparr>) \<and>
    fs_read d' ''g'' = Inr [7, 8, 9]"
proof -
  let ?data = "[7, 8, 9 :: byte]"
  have "list_all (packable sample_sync sample_client) (chunks PUSH_CHUNK_SIZE ?data)"
    by (simp add: chunks.simps packable_def PUSH_CHUNK_SIZE_def)
  moreover have "understood sample_sync sample_client (push_done ?data)"
    using sample_understood(3) by (simp only: push_done_def sample_length) simp
  moreover have g: "sanitize_path ''g'' = Inr ''g''" "path_parent ''g'' = Some []" "\<not> ends_with ''g'' ''/''"
    by code_simp+
  moreover from this have "ensure_parent ''g'' sample_disk = (None, sample_disk)" "write_error sample_disk ''g'' = None"
    by (simp_all add: ensure_parent_def path_exists_def create_dir_all.simps write_error_def parent_there_def sample_disk_def)
  ultimately show ?thesis
    using push_stores [where P = sample_sync and C = sample_client and data = ?data and path = "''g''" and rq = "[1]"
        and s = "\<lparr>inp = [], outp = [], disk_of = sample_disk\<rparr>" and d = sample_disk
        and c = "\<lparr>inp = [], outp = [], server_caps = []\<rparr>" and rest = "[]" and later = "[]"]
      sample_understood(1)
    by (simp only: refuses_profile_def sample_fields sample_length) (auto simp del: sample_length)
qed

end
