(* ===== verification/Chunking.thy ===== *)
theory Chunking
  imports Rust_Str
begin

text \<open>
  Content-defined chunking, \<open>mrsh-transfer/src/chunking.rs\<close>: the Rabin tables and the rolling hash
  in 64-bit words, the chunk iterator, and the hashes of a file. SHA-256 is a parameter.
\<close>

section \<open>The rolling hash\<close>

definition MIN_CHUNK_SIZE :: nat where "MIN_CHUNK_SIZE = 2 * 1024"
definition AVG_CHUNK_SIZE :: nat where "AVG_CHUNK_SIZE = 64 * 1024"
definition MAX_CHUNK_SIZE :: nat where "MAX_CHUNK_SIZE = 256 * 1024"
definition WINDOW_SIZE :: nat where "WINDOW_SIZE = 48"
definition RABIN_POLY :: u64 where "RABIN_POLY = 0x3DA3358B4DC173"
definition CHUNK_MASK :: u64 where "CHUNK_MASK = word_of_nat (AVG_CHUNK_SIZE - 1)"

text \<open>The entries of the two tables of \<open>RabinTables::new\<close>.\<close>

definition out_entry :: "byte \<Rightarrow> u64" where
  "out_entry i = ((\<lambda>hash. push_bit 1 hash XOR (drop_bit 63 hash * RABIN_POLY)) ^^ WINDOW_SIZE) (ucast i)"

definition mod_entry :: "byte \<Rightarrow> u64" where
  "mod_entry i =
     ((\<lambda>hash. if hash AND 1 \<noteq> 0 then drop_bit 1 hash XOR RABIN_POLY else drop_bit 1 hash) ^^ 8) (ucast i)"

definition roll_in :: "u64 \<Rightarrow> byte \<Rightarrow> u64" where
  "roll_in hash b = push_bit 8 hash XOR mod_entry (ucast (drop_bit 56 hash)) XOR ucast b"

definition roll :: "u64 \<Rightarrow> byte \<Rightarrow> byte \<Rightarrow> u64" where
  "roll hash out b = roll_in (hash XOR out_entry out) b"

section \<open>The chunker\<close>

record chunk =
  chunk_offset :: nat
  chunk_length :: nat
  chunk_hash :: string

definition hash_sha256 :: "(bytes \<Rightarrow> bytes) \<Rightarrow> bytes \<Rightarrow> string" where
  "hash_sha256 sha256 data = concat (map hex_byte (sha256 data))"

text \<open>The hash after the byte at \<open>pos\<close>, and the loop that rolls until a boundary or the maximal size.\<close>

definition roll_at :: "bytes \<Rightarrow> nat \<Rightarrow> nat \<Rightarrow> u64 \<Rightarrow> u64" where
  "roll_at data start pos hash =
     (let out_byte = (if WINDOW_SIZE + start \<le> pos then data ! (pos - WINDOW_SIZE) else 0)
      in roll hash out_byte (data ! pos))"

function roll_until :: "bytes \<Rightarrow> nat \<Rightarrow> nat \<Rightarrow> nat \<Rightarrow> u64 \<Rightarrow> nat" where
  "roll_until data start max_pos pos hash =
     (if pos < max_pos then
        if length data \<le> pos then pos
        else if roll_at data start pos hash AND CHUNK_MASK = 0 then pos + 1
        else roll_until data start max_pos (pos + 1) (roll_at data start pos hash)
      else pos)"
  by pat_completeness auto
termination
  by (relation "measure (\<lambda>(data, start, max_pos, pos, hash). max_pos - pos)") auto

declare roll_until.simps [simp del]

text \<open>The end of the chunk that begins at \<open>start\<close>: skip to the minimal size, hash the window before
  it, roll on.\<close>

definition chunk_end :: "bytes \<Rightarrow> nat \<Rightarrow> nat" where
  "chunk_end data start =
     (let min_pos = min (start + MIN_CHUNK_SIZE) (length data);
          max_pos = min (start + MAX_CHUNK_SIZE) (length data);
          window_start = (if WINDOW_SIZE + start \<le> min_pos then min_pos - WINDOW_SIZE else start);
          hash = fold (\<lambda>b h. roll_in h b) (take (min_pos - window_start) (drop window_start data)) 0
      in roll_until data start max_pos min_pos hash)"

definition next_chunk :: "(bytes \<Rightarrow> bytes) \<Rightarrow> bytes \<Rightarrow> nat \<Rightarrow> (chunk \<times> nat) option" where
  "next_chunk sha256 data pos =
     (if length data \<le> pos then None
      else
        let pos' = chunk_end data pos; d = take (pos' - pos) (drop pos data)
        in Some (\<lparr>chunk_offset = pos, chunk_length = length d, chunk_hash = hash_sha256 sha256 d\<rparr>, pos'))"

lemma roll_until_bounds:
  "pos \<le> roll_until data start max_pos pos hash \<and> roll_until data start max_pos pos hash \<le> max pos max_pos"
proof (induction data start max_pos pos hash rule: roll_until.induct)
  case (1 data start max_pos pos hash)
  show ?case
  proof (cases "pos < max_pos \<and> pos < length data \<and> roll_at data start pos hash AND CHUNK_MASK \<noteq> 0")
    case True
    then have "roll_until data start max_pos pos hash = roll_until data start max_pos (pos + 1) (roll_at data start pos hash)"
      by (subst roll_until.simps) simp
    with 1 True show ?thesis by auto
  next
    case False
    then have "roll_until data start max_pos pos hash \<in> {pos, pos + 1} \<and> (roll_until data start max_pos pos hash = pos + 1 \<longrightarrow> pos < max_pos)"
      by (subst (1 2) roll_until.simps) auto
    then show ?thesis by auto
  qed
qed

lemma chunk_end_bounds:
  assumes "start < length data"
  shows "min (start + MIN_CHUNK_SIZE) (length data) \<le> chunk_end data start \<and>
    chunk_end data start \<le> min (start + MAX_CHUNK_SIZE) (length data)"
proof -
  have "min (start + MIN_CHUNK_SIZE) (length data) \<le> min (start + MAX_CHUNK_SIZE) (length data)"
    by (simp add: MIN_CHUNK_SIZE_def MAX_CHUNK_SIZE_def)
  then show ?thesis
    using roll_until_bounds [of "min (start + MIN_CHUNK_SIZE) (length data)" data start "min (start + MAX_CHUNK_SIZE) (length data)"]
    unfolding chunk_end_def Let_def by (metis max.absorb2)
qed

lemma chunk_end_le: "start < length data \<Longrightarrow> chunk_end data start \<le> length data"
  using chunk_end_bounds [of start data] by simp

lemma chunk_end_progress: "start < length data \<Longrightarrow> start < chunk_end data start"
  using chunk_end_bounds [of start data] by (auto simp: MIN_CHUNK_SIZE_def)

lemma next_chunk_progress: "next_chunk sha256 data pos = Some (c, pos') \<Longrightarrow> pos < pos' \<and> pos' \<le> length data \<and> pos < length data"
  using chunk_end_progress [of pos data] chunk_end_bounds [of pos data]
  by (auto simp: next_chunk_def Let_def split: if_splits)

text \<open>\<open>collect\<close> of the iterator.\<close>

function chunks_from :: "(bytes \<Rightarrow> bytes) \<Rightarrow> bytes \<Rightarrow> nat \<Rightarrow> chunk list" where
  "chunks_from sha256 data pos =
     (case next_chunk sha256 data pos of None \<Rightarrow> [] | Some (c, pos') \<Rightarrow> c # chunks_from sha256 data pos')"
  by pat_completeness auto
termination
  by (relation "measure (\<lambda>(sha256, data, pos). length data - pos)") (auto dest!: next_chunk_progress)

declare chunks_from.simps [simp del]

definition chunk_data :: "(bytes \<Rightarrow> bytes) \<Rightarrow> bytes \<Rightarrow> chunk list" where
  "chunk_data sha256 data = chunks_from sha256 data 0"

definition file_hashes :: "(bytes \<Rightarrow> bytes) \<Rightarrow> bytes \<Rightarrow> string \<times> string list" where
  "file_hashes sha256 data = (hash_sha256 sha256 data, map chunk_hash (chunk_data sha256 data))"

section \<open>Chunks tile the file\<close>

definition chunk_bytes :: "bytes \<Rightarrow> chunk \<Rightarrow> bytes" where
  "chunk_bytes data c = take (chunk_length c) (drop (chunk_offset c) data)"

lemma chunks_from_unfold:
  "pos < length data \<Longrightarrow> chunks_from sha256 data pos =
     \<lparr>chunk_offset = pos, chunk_length = chunk_end data pos - pos,
      chunk_hash = hash_sha256 sha256 (take (chunk_end data pos - pos) (drop pos data))\<rparr>
     # chunks_from sha256 data (chunk_end data pos)"
  "length data \<le> pos \<Longrightarrow> chunks_from sha256 data pos = []"
proof -
  assume "pos < length data"
  then have "chunk_end data pos \<le> length data" by (rule chunk_end_le)
  then have "length (take (chunk_end data pos - pos) (drop pos data)) = chunk_end data pos - pos" by simp
  moreover have "\<not> length data \<le> pos" using \<open>pos < length data\<close> by simp
  ultimately have "next_chunk sha256 data pos = Some (\<lparr>chunk_offset = pos, chunk_length = chunk_end data pos - pos,
      chunk_hash = hash_sha256 sha256 (take (chunk_end data pos - pos) (drop pos data))\<rparr>, chunk_end data pos)"
    by (simp only: next_chunk_def Let_def if_False)
  then show "chunks_from sha256 data pos =
     \<lparr>chunk_offset = pos, chunk_length = chunk_end data pos - pos,
      chunk_hash = hash_sha256 sha256 (take (chunk_end data pos - pos) (drop pos data))\<rparr>
     # chunks_from sha256 data (chunk_end data pos)"
    by (subst chunks_from.simps) (simp only: option.case prod.case)
qed (simp add: chunks_from.simps [of sha256 data pos] next_chunk_def)

lemma chunks_from_induct [case_names step stop]:
  assumes "\<And>pos. pos < length data \<Longrightarrow> P (chunk_end data pos) \<Longrightarrow> P pos" "\<And>pos. length data \<le> pos \<Longrightarrow> P pos"
  shows "P pos"
proof (induction "length data - pos" arbitrary: pos rule: less_induct)
  case less
  show ?case
  proof (cases "pos < length data")
    case True
    then have "length data - chunk_end data pos < length data - pos"
      using chunk_end_progress [OF True] by linarith
    from less [OF this] show ?thesis by (rule assms(1) [OF True])
  qed (simp add: assms(2))
qed

text \<open>\<open>tiles pos n cs\<close>: the chunks follow each other without gap from \<open>pos\<close> to \<open>n\<close>.\<close>

fun tiles :: "nat \<Rightarrow> nat \<Rightarrow> chunk list \<Rightarrow> bool" where
  "tiles pos n [] = (pos = n)"
| "tiles pos n (c # cs) = (chunk_offset c = pos \<and> 0 < chunk_length c \<and> tiles (pos + chunk_length c) n cs)"

lemma chunks_from_tiles: "pos \<le> length data \<Longrightarrow> tiles pos (length data) (chunks_from sha256 data pos)"
proof (induction pos rule: chunks_from_induct [where data = data])
  case (step pos)
  then have e: "pos < chunk_end data pos" "chunk_end data pos \<le> length data"
    using chunk_end_progress [of pos data] chunk_end_le [of pos data] by simp_all
  have "tiles (pos + (chunk_end data pos - pos)) (length data) (chunks_from sha256 data (chunk_end data pos))"
    using step(2) [OF e(2)] e(1) by simp
  with e step(1) show ?case by (simp only: chunks_from_unfold(1) tiles.simps) simp
qed (simp add: chunks_from_unfold)

lemma tiles_concat: "tiles pos (length data) cs \<Longrightarrow> pos \<le> length data \<Longrightarrow> concat (map (chunk_bytes data) cs) = drop pos data"
proof (induction cs arbitrary: pos)
  case (Cons c cs)
  have "tiles p n cs \<Longrightarrow> p \<le> n" for p n by (induction p n cs rule: tiles.induct) auto
  then have "pos + chunk_length c \<le> length data" using Cons.prems(1) by simp
  with Cons have "concat (map (chunk_bytes data) cs) = drop (pos + chunk_length c) data" by simp
  with Cons.prems(1) append_take_drop_id [of "chunk_length c" "drop pos data"] show ?case
    by (simp add: chunk_bytes_def [of data c] add.commute)
qed simp

lemma chunks_from_sizes:
  "list_all (\<lambda>c. chunk_length c \<le> MAX_CHUNK_SIZE) (chunks_from sha256 data pos) \<and>
   list_all (\<lambda>c. MIN_CHUNK_SIZE \<le> chunk_length c) (butlast (chunks_from sha256 data pos))"
proof (induction pos rule: chunks_from_induct [where data = data])
  case (step pos)
  note b = chunk_end_bounds [OF step(1)]
  have "MIN_CHUNK_SIZE \<le> chunk_end data pos - pos" if "chunks_from sha256 data (chunk_end data pos) \<noteq> []"
  proof -
    have "chunk_end data pos < length data" using that chunks_from_unfold(2) by (meson linorder_not_less)
    with b show ?thesis by (auto simp: min_def split: if_splits)
  qed
  moreover have "chunk_end data pos - pos \<le> MAX_CHUNK_SIZE" using b by linarith
  ultimately show ?case using step by (simp add: chunks_from_unfold(1))
qed (simp add: chunks_from_unfold)

lemma chunks_from_hashes:
  "list_all (\<lambda>c. chunk_hash c = hash_sha256 sha256 (chunk_bytes data c)) (chunks_from sha256 data pos)"
  by (induction pos rule: chunks_from_induct [where data = data]) (simp_all add: chunks_from_unfold chunk_bytes_def)

text \<open>The chunks tile the file: they are non-empty, follow each other from the first byte to the
  last, their contents put together are the file, each carries the hash of its content, none is longer
  than the maximal size, and only the last may be shorter than the minimal size.\<close>

theorem chunk_data_tiles:
  "tiles 0 (length data) (chunk_data sha256 data) \<and>
   concat (map (chunk_bytes data) (chunk_data sha256 data)) = data \<and>
   list_all (\<lambda>c. chunk_hash c = hash_sha256 sha256 (chunk_bytes data c)) (chunk_data sha256 data) \<and>
   list_all (\<lambda>c. chunk_length c \<le> MAX_CHUNK_SIZE) (chunk_data sha256 data) \<and>
   list_all (\<lambda>c. MIN_CHUNK_SIZE \<le> chunk_length c) (butlast (chunk_data sha256 data))"
  using chunks_from_tiles [of 0 data sha256] tiles_concat [of 0 data "chunk_data sha256 data"]
    chunks_from_sizes [of sha256 data 0] chunks_from_hashes [of sha256 data 0]
  by (simp add: chunk_data_def)

section \<open>Appending leaves the finished chunks alone\<close>

lemma roll_until_append:
  "roll_until data start (min M (length data)) pos hash < length data \<Longrightarrow>
    roll_until (data @ xs) start (min M (length (data @ xs))) pos hash = roll_until data start (min M (length data)) pos hash"
proof (induction "min M (length data) - pos" arbitrary: pos hash rule: less_induct)
  case less
  let ?m = "min M (length data)" and ?m' = "min M (length (data @ xs))"
  show ?case
  proof (cases "pos < ?m")
    case False
    then have "roll_until data start ?m pos hash = pos"
      by (subst roll_until.simps) (simp only: if_False)
    with less.prems False have "M \<le> pos" by (simp add: min_def split: if_splits)
    then have "roll_until (data @ xs) start ?m' pos hash = pos" by (subst roll_until.simps) simp
    with \<open>roll_until data start ?m pos hash = pos\<close> show ?thesis by simp
  next
    case True
    then have p: "pos < length data" "pos < ?m'" "pos - WINDOW_SIZE < length data" by auto
    let ?h = "roll_at data start pos hash"
    have same: "roll_at (data @ xs) start pos hash = ?h"
      using p by (simp add: roll_at_def nth_append Let_def)
    have d: "roll_until data start ?m pos hash = (if ?h AND CHUNK_MASK = 0 then pos + 1 else roll_until data start ?m (pos + 1) ?h)"
      using True p by (subst roll_until.simps) simp
    have d': "roll_until (data @ xs) start ?m' pos hash = (if ?h AND CHUNK_MASK = 0 then pos + 1 else roll_until (data @ xs) start ?m' (pos + 1) ?h)"
      using p by (subst roll_until.simps) (simp add: same)
    have "?m - (pos + 1) < ?m - pos" using True by linarith
    from less.hyps [OF this, of ?h] less.prems show ?thesis
      unfolding d d' by (cases "?h AND CHUNK_MASK = 0") simp_all
  qed
qed

lemma chunk_end_append:
  assumes "chunk_end data start < length data" "start < length data"
  shows "chunk_end (data @ xs) start = chunk_end data start"
proof -
  have m: "min (start + MIN_CHUNK_SIZE) (length data) = start + MIN_CHUNK_SIZE"
    using chunk_end_bounds [OF assms(2)] assms(1) by (auto simp: min_def split: if_splits)
  then have m': "min (start + MIN_CHUNK_SIZE) (length (data @ xs)) = start + MIN_CHUNK_SIZE" by simp
  have t: "take (start + MIN_CHUNK_SIZE - w) (drop w (data @ xs)) = take (start + MIN_CHUNK_SIZE - w) (drop w data)" for w
    using m by (simp flip: drop_take)
  show ?thesis
    using assms(1) unfolding chunk_end_def Let_def m m' t
    by (rule roll_until_append)
qed

text \<open>Appending keeps the finished chunks: every chunk of a file but its last is also, at the same
  offset and with the same hash, a chunk of any longer file that begins with it.\<close>

theorem chunk_data_append:
  "prefix (butlast (chunk_data sha256 data)) (chunk_data sha256 (data @ xs))"
proof -
  have "prefix (butlast (chunks_from sha256 data pos)) (chunks_from sha256 (data @ xs) pos)" for pos
  proof (induction pos rule: chunks_from_induct [where data = data])
    case (step pos)
    show ?case
    proof (cases "chunk_end data pos < length data")
      case True
      then have "chunk_end (data @ xs) pos = chunk_end data pos" using step(1) by (rule chunk_end_append)
      with step True show ?thesis by (auto simp: chunks_from_unfold(1))
    next
      case False
      with step(1) show ?thesis by (simp add: chunks_from_unfold)
    qed
  qed (simp add: chunks_from_unfold)
  then show ?thesis by (simp add: chunk_data_def)
qed

end
