(* ===== verification/Block_Cache.thy ===== *)
theory Block_Cache
  imports Chunking File_System
begin

text \<open>
  The deduplication cache of \<open>mrsh-transfer/src/blockcache.rs\<close>: which block of which file has a
  hash, and the hashes of the files that were indexed. The hash maps are association lists, whose order
  stands for the map's iteration order; SHA-256, MessagePack and the times the system reports are
  parameters.
\<close>

definition DEFAULT_MAX_AGE_SECS :: nat where "DEFAULT_MAX_AGE_SECS = 48 * 3600"

record block_source =
  bsrc_path :: string
  bsrc_offset :: nat
  bsrc_size :: nat

record cached_file =
  cf_path :: string
  cf_size :: nat
  cf_mod_time :: int
  cf_block_hashes :: "string list"
  cf_content_hash :: string

record block_record =
  br_sources :: "block_source list"
  br_last_used :: int
  br_created :: int

record file_record =
  fr_size :: nat
  fr_mod_time :: int
  fr_block_hashes :: "string list"
  fr_content_hash :: string
  fr_last_seen :: int

record cache =
  bc_blocks :: "(string \<times> block_record) list"
  bc_files :: "(string \<times> file_record) list"
  bc_data_path :: string
  bc_max_age_secs :: nat
  bc_dirty :: bool

type_synonym cache_store = "(string \<times> block_record) list \<times> (string \<times> file_record) list"

record cache_env =
  now_unix :: int
  mtime_of :: "string \<Rightarrow> int"
  ce_sha256 :: "bytes \<Rightarrow> bytes"
  store_encode :: "cache_store \<Rightarrow> bytes option"
  store_decode :: "bytes \<Rightarrow> cache_store option"
  with_extension_tmp :: "string \<Rightarrow> string"

section \<open>Loading and flushing\<close>

definition cache_new :: "cache_env \<Rightarrow> string \<Rightarrow> disk \<Rightarrow> cache result \<times> disk" where
  "cache_new E data_path d =
     (case (case path_parent data_path of Some p \<Rightarrow> create_dir_all p d | None \<Rightarrow> (None, d)) of
        (Some e, d') \<Rightarrow> (Inl (Failed ''create cache dir''), d')
      | (None, d') \<Rightarrow>
          let empty = \<lparr>bc_blocks = [], bc_files = [], bc_data_path = data_path,
                bc_max_age_secs = DEFAULT_MAX_AGE_SECS, bc_dirty = False\<rparr>
          in (Inr (case fs_read d' data_path of
                     Inr data \<Rightarrow>
                       (if data \<noteq> [] then
                          (case store_decode E data of
                             Some (bl, fl) \<Rightarrow> empty\<lparr>bc_blocks := bl, bc_files := fl\<rparr>
                           | None \<Rightarrow> empty)
                        else empty)
                   | Inl _ \<Rightarrow> empty), d'))"

definition cache_flush :: "cache_env \<Rightarrow> cache \<Rightarrow> disk \<Rightarrow> unit result \<times> cache \<times> disk" where
  "cache_flush E c d =
     (if \<not> bc_dirty c then (Inr (), c, d)
      else case store_encode E (bc_blocks c, bc_files c) of
        None \<Rightarrow> (Inl (Failed ''serialize cache''), c, d)
      | Some data \<Rightarrow>
          let tmp_path = with_extension_tmp E (bc_data_path c)
          in (case fs_write tmp_path data d of
                (Some e, d1) \<Rightarrow> (Inl (Failed ''write cache tmp''), c, d1)
              | (None, d1) \<Rightarrow>
                  (case fs_rename tmp_path (bc_data_path c) d1 of
                     (None, d2) \<Rightarrow> (Inr (), c\<lparr>bc_dirty := False\<rparr>, d2)
                   | (Some _, d2) \<Rightarrow> (Inr (), c\<lparr>bc_dirty := False\<rparr>, snd (fs_remove tmp_path d2)))))"

section \<open>Indexing\<close>

definition add_block_source :: "string \<Rightarrow> string \<Rightarrow> nat \<Rightarrow> nat \<Rightarrow> int \<Rightarrow> cache \<Rightarrow> cache" where
  "add_block_source hash path offset len now c =
     (let entry = (case map_of (bc_blocks c) hash of
                     Some e \<Rightarrow> e
                   | None \<Rightarrow> \<lparr>br_sources = [], br_last_used = now, br_created = now\<rparr>);
          known = list_ex (\<lambda>s. bsrc_path s = path \<and> bsrc_offset s = offset) (br_sources entry);
          sources = (if known then br_sources entry
                     else br_sources entry @ [\<lparr>bsrc_path = path, bsrc_offset = offset, bsrc_size = len\<rparr>])
      in c\<lparr>bc_blocks := AList.update hash (entry\<lparr>br_sources := sources, br_last_used := now\<rparr>) (bc_blocks c),
           bc_dirty := True\<rparr>)"

definition file_info_of :: "string \<Rightarrow> file_record \<Rightarrow> cached_file" where
  "file_info_of path e = \<lparr>cf_path = path, cf_size = fr_size e, cf_mod_time = fr_mod_time e,
     cf_block_hashes = fr_block_hashes e, cf_content_hash = fr_content_hash e\<rparr>"

text \<open>\<open>fs::metadata\<close>: the length of a file; directories have one too, but are never read.\<close>

definition file_len :: "disk \<Rightarrow> string \<Rightarrow> nat option" where
  "file_len d p = (case fault d p of Some _ \<Rightarrow> None
     | None \<Rightarrow> (case files d p of Some b \<Rightarrow> Some (length b) | None \<Rightarrow> if p \<in> folders d then Some 0 else None))"

definition index_data :: "cache_env \<Rightarrow> string \<Rightarrow> bytes \<Rightarrow> nat \<Rightarrow> cache \<Rightarrow> cache" where
  "index_data E path data len c =
     (let chunks = chunk_data (ce_sha256 E) data;
          c1 = fold (\<lambda>k. add_block_source (chunk_hash k) path (chunk_offset k) (chunk_length k) (now_unix E)) chunks c
      in c1\<lparr>bc_files := AList.update path
              \<lparr>fr_size = len, fr_mod_time = mtime_of E path, fr_block_hashes = map chunk_hash chunks,
               fr_content_hash = hash_sha256 (ce_sha256 E) data, fr_last_seen = now_unix E\<rparr> (bc_files c1),
            bc_dirty := True\<rparr>)"

definition index_file :: "cache_env \<Rightarrow> disk \<Rightarrow> string \<Rightarrow> cache \<Rightarrow> cached_file result \<times> cache" where
  "index_file E d path c =
     (case file_len d path of
        None \<Rightarrow> (Inl (Failed (''stat '' @ path)), c)
      | Some len \<Rightarrow>
          let read_it =
            (case fs_read d path of
               Inl _ \<Rightarrow> (Inl (Failed (''read '' @ path)), c)
             | Inr data \<Rightarrow>
                 let c' = index_data E path data len c
                 in (Inr \<lparr>cf_path = path, cf_size = len, cf_mod_time = mtime_of E path,
                       cf_block_hashes = map chunk_hash (chunk_data (ce_sha256 E) data),
                       cf_content_hash = hash_sha256 (ce_sha256 E) data\<rparr>, c'))
          in (case map_of (bc_files c) path of
                Some existing \<Rightarrow>
                  if fr_size existing = len \<and> fr_mod_time existing = mtime_of E path
                  then (Inr (file_info_of path existing),
                        c\<lparr>bc_files := AList.update path (existing\<lparr>fr_last_seen := now_unix E\<rparr>) (bc_files c), bc_dirty := True\<rparr>)
                  else read_it
              | None \<Rightarrow> read_it))"

section \<open>Lookups\<close>

definition find_by_content_hash :: "cache_env \<Rightarrow> disk \<Rightarrow> string \<Rightarrow> cache \<Rightarrow> string list \<times> cache" where
  "find_by_content_hash E d hash c =
     (let hits = filter (\<lambda>(p, e). fr_content_hash e = hash) (bc_files c)
      in (map fst (filter (\<lambda>(p, e). path_exists d p) hits),
          c\<lparr>bc_files := map (\<lambda>(p, e). (p, if fr_content_hash e = hash then e\<lparr>fr_last_seen := now_unix E\<rparr> else e))
              (filter (\<lambda>(p, e). fr_content_hash e \<noteq> hash \<or> path_exists d p) (bc_files c)),
            bc_dirty := bc_dirty c \<or> hits \<noteq> []\<rparr>))"

definition find_block_sources :: "cache_env \<Rightarrow> disk \<Rightarrow> string \<Rightarrow> cache \<Rightarrow> block_source list \<times> cache" where
  "find_block_sources E d hash c =
     (case map_of (bc_blocks c) hash of
        None \<Rightarrow> ([], c)
      | Some entry \<Rightarrow>
          let valid = filter (\<lambda>s. path_exists d (bsrc_path s)) (br_sources entry)
          in if valid = []
             then ([], c\<lparr>bc_blocks := AList.delete hash (bc_blocks c), bc_dirty := True\<rparr>)
             else (valid, c\<lparr>bc_blocks := AList.update hash (entry\<lparr>br_sources := valid, br_last_used := now_unix E\<rparr>) (bc_blocks c),
                     bc_dirty := True\<rparr>))"

definition get_file_info :: "string \<Rightarrow> cache \<Rightarrow> cached_file option" where
  "get_file_info path c = map_option (file_info_of path) (map_of (bc_files c) path)"

definition remove_file :: "string \<Rightarrow> cache \<Rightarrow> cache" where
  "remove_file path c =
     (if map_of (bc_files c) path \<noteq> None then c\<lparr>bc_files := AList.delete path (bc_files c), bc_dirty := True\<rparr> else c)"

definition cache_cleanup :: "cache_env \<Rightarrow> cache \<Rightarrow> nat \<times> cache" where
  "cache_cleanup E c =
     (let cutoff = now_unix E - int (bc_max_age_secs c);
          bl = filter (\<lambda>(_, e). \<not> br_last_used e < cutoff) (bc_blocks c);
          fl = filter (\<lambda>(_, e). \<not> fr_last_seen e < cutoff) (bc_files c);
          removed = length (bc_blocks c) - length bl + (length (bc_files c) - length fl)
      in (removed, c\<lparr>bc_blocks := bl, bc_files := fl, bc_dirty := bc_dirty c \<or> removed > 0\<rparr>))"

definition cache_stats :: "cache \<Rightarrow> nat \<times> nat" where
  "cache_stats c = (length (bc_blocks c), length (bc_files c))"

section \<open>The cache remembers what was read\<close>

text \<open>\<open>known sha reads c\<close>: every record of the cache was computed from contents that were read under
  the path it names.\<close>

definition record_of :: "(bytes \<Rightarrow> bytes) \<Rightarrow> (string \<times> bytes) set \<Rightarrow> string \<Rightarrow> file_record \<Rightarrow> bool" where
  "record_of sha reads p r \<longleftrightarrow>
     (\<exists>data. (p, data) \<in> reads \<and> fr_size r = length data \<and> (fr_content_hash r, fr_block_hashes r) = file_hashes sha data)"

definition source_of :: "(bytes \<Rightarrow> bytes) \<Rightarrow> (string \<times> bytes) set \<Rightarrow> string \<Rightarrow> block_source \<Rightarrow> bool" where
  "source_of sha reads h s \<longleftrightarrow>
     (\<exists>data. (bsrc_path s, data) \<in> reads \<and> h = hash_sha256 sha (take (bsrc_size s) (drop (bsrc_offset s) data)))"

definition known :: "(bytes \<Rightarrow> bytes) \<Rightarrow> (string \<times> bytes) set \<Rightarrow> cache \<Rightarrow> bool" where
  "known sha reads c \<longleftrightarrow>
     (\<forall>p r. (p, r) \<in> set (bc_files c) \<longrightarrow> record_of sha reads p r) \<and>
     (\<forall>h b s. (h, b) \<in> set (bc_blocks c) \<longrightarrow> s \<in> set (br_sources b) \<longrightarrow> source_of sha reads h s)"

text \<open>The operations in any order; a step that reads a file adds its contents to what was read.\<close>

inductive cache_run :: "(bytes \<Rightarrow> bytes) \<Rightarrow> (string \<times> bytes) set \<Rightarrow> cache \<Rightarrow> bool" for sha where
  start: "bc_blocks c = [] \<Longrightarrow> bc_files c = [] \<Longrightarrow> cache_run sha {} c"
| index: "cache_run sha reads c \<Longrightarrow> ce_sha256 E = sha \<Longrightarrow>
    cache_run sha (reads \<union> {p} \<times> {b. fs_read d p = Inr b}) (snd (index_file E d p c))"
| find: "cache_run sha reads c \<Longrightarrow> cache_run sha reads (snd (find_by_content_hash E d h c))"
| find_block: "cache_run sha reads c \<Longrightarrow> cache_run sha reads (snd (find_block_sources E d h c))"
| remove: "cache_run sha reads c \<Longrightarrow> cache_run sha reads (remove_file p c)"
| sweep: "cache_run sha reads c \<Longrightarrow> cache_run sha reads (snd (cache_cleanup E c))"

lemma known_mono: "known sha reads c \<Longrightarrow> reads \<subseteq> reads' \<Longrightarrow> known sha reads' c"
  by (fastforce simp: known_def record_of_def source_of_def)

lemma known_subset:
  "known sha reads c \<Longrightarrow> set (bc_files c') \<subseteq> set (bc_files c) \<Longrightarrow> set (bc_blocks c') \<subseteq> set (bc_blocks c) \<Longrightarrow>
     known sha reads c'"
  by (fastforce simp: known_def)

lemma known_cong [simp]: "known sha reads (c\<lparr>bc_dirty := x\<rparr>) = known sha reads c"
  by (simp add: known_def)

lemma set_update_subset: "set (AList.update k v xs) \<subseteq> insert (k, v) (set xs)"
  by (induction xs) auto

lemma set_delete_subset: "set (AList.delete k xs) \<subseteq> set xs"
  by (auto simp: AList.delete_eq)

lemma known_update_file:
  assumes "known sha reads c" "record_of sha reads p r"
  shows "known sha reads (c\<lparr>bc_files := AList.update p r (bc_files c)\<rparr>)"
  using assms set_update_subset [of p r "bc_files c"] unfolding known_def by auto

lemma known_update_block:
  assumes "known sha reads c" "\<And>s. s \<in> set (br_sources b) \<Longrightarrow> source_of sha reads h s"
  shows "known sha reads (c\<lparr>bc_blocks := AList.update h b (bc_blocks c)\<rparr>)"
  using assms set_update_subset [of h b "bc_blocks c"] unfolding known_def by (auto dest!: subsetD)

lemma known_lookup:
  "known sha reads c \<Longrightarrow> map_of (bc_files c) p = Some r \<Longrightarrow> record_of sha reads p r"
  "known sha reads c \<Longrightarrow> map_of (bc_blocks c) h = Some b \<Longrightarrow> s \<in> set (br_sources b) \<Longrightarrow> source_of sha reads h s"
  by (auto simp: known_def dest!: map_of_SomeD)

lemma record_of_seen [simp]: "record_of sha reads p (r\<lparr>fr_last_seen := t\<rparr>) = record_of sha reads p r"
  by (simp add: record_of_def)

lemma known_add_source:
  assumes "known sha reads c" "source_of sha reads h \<lparr>bsrc_path = p, bsrc_offset = i, bsrc_size = n\<rparr>"
  shows "known sha reads (add_block_source h p i n t c)"
proof -
  define e where "e = (case map_of (bc_blocks c) h of Some e \<Rightarrow> e | None \<Rightarrow> \<lparr>br_sources = [], br_last_used = t, br_created = t\<rparr>)"
  have "source_of sha reads h s" if "s \<in> set (br_sources e)" for s
    using that known_lookup(2) [OF assms(1), of h] by (auto simp: e_def split: option.splits)
  then show ?thesis
    using assms unfolding add_block_source_def Let_def e_def [symmetric]
    by (auto intro!: known_update_block [of sha reads c, THEN known_cong [THEN iffD2]] simp del: known_cong split: if_splits)
qed

lemma known_add_sources:
  "known sha reads c \<Longrightarrow> (p, data) \<in> reads \<Longrightarrow> set ks \<subseteq> set (chunk_data sha data) \<Longrightarrow>
     known sha reads (fold (\<lambda>k. add_block_source (chunk_hash k) p (chunk_offset k) (chunk_length k) t) ks c)"
proof (induction ks arbitrary: c)
  case (Cons k ks)
  then have "chunk_hash k = hash_sha256 sha (chunk_bytes data k)"
    using chunks_from_hashes [of sha data 0] by (auto simp: chunk_data_def list_all_iff)
  with Cons.prems have "known sha reads (add_block_source (chunk_hash k) p (chunk_offset k) (chunk_length k) t c)"
    by (intro known_add_source) (auto simp: source_of_def chunk_bytes_def)
  with Cons show ?case by simp
qed simp

lemma known_index_data:
  assumes "known (ce_sha256 E) reads c" "(p, data) \<in> reads" "n = length data"
  shows "known (ce_sha256 E) reads (index_data E p data n c)"
  unfolding index_data_def Let_def known_cong
  using assms known_add_sources [OF assms(1,2), of "chunk_data (ce_sha256 E) data" "now_unix E"]
  by (intro known_update_file) (auto simp: record_of_def file_hashes_def)

lemma file_len_read: "fs_read d p = Inr b \<Longrightarrow> file_len d p = Some (length b)"
  by (auto simp: fs_read_def file_len_def split: option.splits if_splits)

lemma known_index_file:
  assumes "known (ce_sha256 E) reads c"
  shows "known (ce_sha256 E) (reads \<union> {p} \<times> {b. fs_read d p = Inr b}) (snd (index_file E d p c))"
    (is "known _ ?reads _")
proof -
  note k = known_mono [OF assms, of ?reads, simplified]
  have again: "known (ce_sha256 E) ?reads (c\<lparr>bc_files := AList.update p (e\<lparr>fr_last_seen := t\<rparr>) (bc_files c), bc_dirty := x\<rparr>)"
    if "map_of (bc_files c) p = Some e" for e t x
    using known_update_file [OF k, of p "e\<lparr>fr_last_seen := t\<rparr>"] known_lookup(1) [OF k that]
    by (simp del: fun_upd_apply)
  have "known (ce_sha256 E) ?reads (index_data E p b n c)" if "fs_read d p = Inr b" "file_len d p = Some n" for b n
    using that file_len_read [OF that(1)] by (intro known_index_data [OF k]) auto
  with k again show ?thesis
    by (auto simp: index_file_def Let_def split: option.split sum.split)
qed

lemma known_find:
  assumes "known sha reads c"
  shows "known sha reads (snd (find_by_content_hash E d h c))"
  using assms by (auto simp: find_by_content_hash_def Let_def known_def)

lemma known_find_block:
  assumes "known sha reads c"
  shows "known sha reads (snd (find_block_sources E d h c))"
proof (cases "map_of (bc_blocks c) h")
  case (Some e)
  let ?valid = "filter (\<lambda>s. path_exists d (bsrc_path s)) (br_sources e)"
  have "known sha reads (c\<lparr>bc_blocks := AList.update h (e\<lparr>br_sources := ?valid, br_last_used := t\<rparr>) (bc_blocks c)\<rparr>)" for t
    using known_lookup(2) [OF assms Some] by (intro known_update_block [OF assms]) auto
  moreover have "known sha reads (c\<lparr>bc_blocks := AList.delete h (bc_blocks c)\<rparr>)"
    using set_delete_subset [of h] by (intro known_subset [OF assms]) auto
  ultimately show ?thesis by (simp add: find_block_sources_def Some Let_def)
qed (simp add: find_block_sources_def assms)

lemma known_run: "cache_run sha reads c \<Longrightarrow> known sha reads c"
proof (induction rule: cache_run.induct)
  case (start c)
  then show ?case by (simp add: known_def)
next
  case (index reads c E p d)
  then show ?case using known_index_file by blast
next
  case (remove reads c p)
  then show ?case
    using known_subset [of sha reads c "c\<lparr>bc_files := AList.delete p (bc_files c)\<rparr>"] set_delete_subset [of p "bc_files c"]
    by (simp add: remove_file_def)
next
  case (sweep reads c E)
  then show ?case by (auto simp: cache_cleanup_def Let_def intro: known_subset)
qed (auto intro: known_find known_find_block)

text \<open>C33. The cache says nothing that was not so: after any sequence of operations, the record of a file
  holds the size, the content hash and the chunk hashes of one content that was read under that path,
  and each source of a block names a range that had the block's hash in a content read under its path.\<close>

theorem cache_remembers:
  assumes "cache_run sha reads c"
  shows "(get_file_info p c = Some info \<longrightarrow>
      (\<exists>data. (p, data) \<in> reads \<and> cf_size info = length data \<and>
        (cf_content_hash info, cf_block_hashes info) = file_hashes sha data)) \<and>
    (s \<in> set (fst (find_block_sources E d h c)) \<longrightarrow> path_exists d (bsrc_path s) \<and>
      (\<exists>data. (bsrc_path s, data) \<in> reads \<and> h = hash_sha256 sha (take (bsrc_size s) (drop (bsrc_offset s) data))))"
proof -
  note k = known_run [OF assms]
  have "record_of sha reads p r" if "map_of (bc_files c) p = Some r" for r using known_lookup(1) [OF k that] .
  moreover have "source_of sha reads h s" if "map_of (bc_blocks c) h = Some b" "s \<in> set (br_sources b)" for b
    using known_lookup(2) [OF k that] .
  ultimately show ?thesis
    by (auto simp: get_file_info_def file_info_of_def record_of_def source_of_def find_block_sources_def Let_def
        split: option.splits if_splits)
qed

definition sample_cache_env :: cache_env where
  "sample_cache_env = \<lparr>now_unix = 10, mtime_of = (\<lambda>_. 5), ce_sha256 = (\<lambda>b. b), store_encode = (\<lambda>_. Some [0]),
     store_decode = (\<lambda>_. None), with_extension_tmp = (\<lambda>p. p @ ''.tmp'')\<rparr>"

definition small_disk :: disk where
  "small_disk = \<lparr>files = [''f'' \<mapsto> [1]], folders = {}, fault = (\<lambda>_. None), other_device = (\<lambda>_ _. False)\<rparr>"

definition empty_cache :: cache where
  "empty_cache = \<lparr>bc_blocks = [], bc_files = [], bc_data_path = ''c'', bc_max_age_secs = DEFAULT_MAX_AGE_SECS, bc_dirty = False\<rparr>"

lemma small_read: "fs_read small_disk ''f'' = Inr [1]"
  by (simp add: fs_read_def small_disk_def)

lemma small_index:
  "get_file_info ''f'' (snd (index_file sample_cache_env small_disk ''f'' empty_cache))
     = Some \<lparr>cf_path = ''f'', cf_size = 1, cf_mod_time = 5,
         cf_block_hashes = map chunk_hash (chunk_data (\<lambda>b. b) [1]), cf_content_hash = hash_sha256 (\<lambda>b. b) [1]\<rparr>"
  using file_len_read [OF small_read]
  by (simp add: index_file_def small_read empty_cache_def index_data_def Let_def get_file_info_def file_info_of_def
      update_conv' sample_cache_env_def)

theorem cache_remembers_witness:
  "\<exists>info data. get_file_info ''f'' (snd (index_file sample_cache_env small_disk ''f'' empty_cache)) = Some info \<and>
     cf_size info = length data \<and> (''f'', data) \<in> {(''f'', [1])} \<and>
     (cf_content_hash info, cf_block_hashes info) = file_hashes (\<lambda>b. b) data"
proof -
  let ?sha = "\<lambda>b :: bytes. b"
  have "cache_run ?sha {} empty_cache" by (rule cache_run.start) (simp_all add: empty_cache_def)
  then have "cache_run ?sha ({} \<union> {''f''} \<times> {b. fs_read small_disk ''f'' = Inr b})
      (snd (index_file sample_cache_env small_disk ''f'' empty_cache))"
    by (rule cache_run.index) (simp add: sample_cache_env_def)
  from cache_remembers [OF this, THEN conjunct1, rule_format, OF small_index] show ?thesis
    using small_index by (auto simp: small_read)
qed

end
