(* ===== verification/Sync_Batch.thy ===== *)
theory Sync_Batch
  imports Sync_Files Block_Cache
begin

text \<open>
  The sync handlers of the server for many files: \<open>sync/diff.rs\<close> (batches, smart-sync,
  find-and-move), \<open>sync/dir.rs\<close> (walk, index, statistics) and the dispatch of \<open>sync/mod.rs\<close>. The JSON of
  the lists they exchange is a parameter, as is what the operating system lists for a directory.
\<close>

record file_signatures =
  fsig_path :: string
  fsig_sigs :: "block_sig list"
  fsig_size :: int
  fsig_error :: "string option"

record patch_result =
  pr_path :: string
  pr_size :: int
  pr_success :: bool
  pr_error :: "string option"

record bin_meta =
  bm_path :: string
  bm_size :: int
  bm_backup :: "string option"

record sync_request =
  sr_dest :: string
  sr_hash :: string
  sr_blocks :: "string list"

record sync_result =
  sy_dest :: string
  sy_status :: string
  sy_source :: "string option"
  sy_missing :: "string list option"

record find_move_item =
  fm_dest :: string
  fm_hash :: string
  fm_size :: int
  fm_root :: string

record find_move_result =
  fmr_dest :: string
  fmr_found :: bool
  fmr_source :: "string option"
  fmr_moved :: bool
  fmr_error :: "string option"

record walk_entry =
  we_path :: string
  we_size :: int
  we_mtime :: int

text \<open>What the system lists below a directory: readable and unreadable directories, files (regular or
  not) with size and time, and entries whose type cannot be read.\<close>

datatype node = Folder string "node list" | Locked string io_error | Leaf string nat int bool | Broken io_error

record batch_params =
  bp_sync :: sync_params
  bp_cache :: cache_env
  file_sigs_json :: "file_signatures list \<Rightarrow> string option"
  patch_results_json :: "patch_result list \<Rightarrow> string option"
  bin_meta_parse :: "string \<Rightarrow> bin_meta list option"
  smart_parse :: "string \<Rightarrow> sync_request list option"
  smart_json :: "sync_result list \<Rightarrow> string option"
  find_parse :: "string \<Rightarrow> find_move_item list option"
  find_json :: "find_move_result list \<Rightarrow> string option"
  walk_json :: "walk_entry list \<Rightarrow> string option"
  stats_json :: "nat \<Rightarrow> nat \<Rightarrow> string"
  list_dir :: "disk \<Rightarrow> string \<Rightarrow> (io_error + node list) option"
  lock_poisoned :: bool

section \<open>Batches\<close>

definition file_signatures_of :: "sync_params \<Rightarrow> disk \<Rightarrow> string \<Rightarrow> file_signatures" where
  "file_signatures_of P d path =
     (let item = \<lparr>fsig_path = path, fsig_sigs = [], fsig_size = 0, fsig_error = None\<rparr>
      in case fs_read d path of
           Inr data \<Rightarrow> item\<lparr>fsig_sigs := convert_sigs_to_proto (compute_signatures (hashes P) data),
                         fsig_size := int (length data)\<rparr>
         | Inl Not_Found \<Rightarrow> item
         | Inl e \<Rightarrow> item\<lparr>fsig_error := Some (''read '' @ path @ '': '' @ show_io e)\<rparr>)"

definition json_response :: "string \<Rightarrow> string option \<Rightarrow> response" where
  "json_response what json =
     (case json of Some j \<Rightarrow> response_ok (Some j) | None \<Rightarrow> response_error (''serialize '' @ what @ '': ''))"

definition handle_batch_signatures :: "batch_params \<Rightarrow> string list \<Rightarrow> disk \<Rightarrow> response" where
  "handle_batch_signatures B paths d =
     json_response ''batch-signatures'' (file_sigs_json B (map (file_signatures_of (bp_sync B) d) paths))"

definition backup :: "string option \<Rightarrow> string \<Rightarrow> disk \<Rightarrow> disk" where
  "backup sfx_opt path d =
     (case sfx_opt of
        Some sfx \<Rightarrow> if path_exists d path then snd (fs_rename path (path @ sfx) d) else d
      | None \<Rightarrow> d)"

definition patch_failed :: "string \<Rightarrow> string \<Rightarrow> patch_result" where
  "patch_failed path e = \<lparr>pr_path = path, pr_size = 0, pr_success = False, pr_error = Some e\<rparr>"

definition write_item :: "string \<Rightarrow> bytes \<Rightarrow> int \<Rightarrow> disk \<Rightarrow> patch_result \<times> disk" where
  "write_item path data len d =
     (case fs_write path data d of
        (None, d') \<Rightarrow> (\<lparr>pr_path = path, pr_size = len, pr_success = True, pr_error = None\<rparr>, d')
      | (Some e, d') \<Rightarrow> (patch_failed path (''write '' @ path @ '': '' @ show_io e), d'))"

definition patch_item :: "sync_params \<Rightarrow> batch_patch_item \<Rightarrow> disk \<Rightarrow> patch_result \<times> disk" where
  "patch_item P patch d =
     (let path = bp_path patch in
      case ensure_parent path d of
        (Some e, d1) \<Rightarrow> (patch_failed path (''create dir: '' @ show_io e), d1)
      | (None, d1) \<Rightarrow>
          let final_data =
            (case bp_content patch of
               Some content_b64 \<Rightarrow>
                 (case b64_dec (hashes P) content_b64 of
                    None \<Rightarrow> Inl ''decode content: ''
                  | Some raw \<Rightarrow> Inr (or_raw P raw))
             | None \<Rightarrow>
                 (case bp_delta patch of
                    Some ops \<Rightarrow> Inr (apply_delta (hashes P) (read_or_empty d1 path) (convert_delta_from_proto ops))
                  | None \<Rightarrow> Inl ''no content or delta provided''))
          in (case final_data of
                Inl e \<Rightarrow> (patch_failed path e, d1)
              | Inr data \<Rightarrow> write_item path data (int (length data)) (backup (backup_suffix patch) path d1)))"

fun patch_items :: "sync_params \<Rightarrow> batch_patch_item list \<Rightarrow> disk \<Rightarrow> patch_result list \<times> disk" where
  "patch_items P [] d = ([], d)"
| "patch_items P (p # ps) d =
     (case patch_item P p d of (r, d1) \<Rightarrow> case patch_items P ps d1 of (rs, d2) \<Rightarrow> (r # rs, d2))"

definition handle_batch_patch :: "batch_params \<Rightarrow> batch_patch_item list \<Rightarrow> disk \<Rightarrow> response \<times> disk" where
  "handle_batch_patch B patches d =
     (case patch_items (bp_sync B) patches d of
        (results, d') \<Rightarrow> (json_response ''batch-patch'' (patch_results_json B results), d'))"

section \<open>The binary batch\<close>

text \<open>\<open>offset + item.size as usize\<close> wraps; the slice \<open>blob[offset..end]\<close> panics when the wrapped end lies
  before the offset. (A build with overflow checks panics at the addition.)\<close>

fun bin_items :: "bytes \<Rightarrow> bin_meta list \<Rightarrow> nat \<Rightarrow> disk \<Rightarrow> patch_result list result \<times> disk" where
  "bin_items blob [] offset d = (Inr [], d)"
| "bin_items blob (item # items) offset d =
     (let path = bm_path item; fin = (offset + as_usize (bm_size item)) mod 2 ^ 64;
          add = (\<lambda>r rest. case rest of (Inr rs, d') \<Rightarrow> (Inr (r # rs), d') | (Inl e, d') \<Rightarrow> (Inl e, d'))
      in case sanitize_path path of
           Inl e \<Rightarrow> add (patch_failed path e) (bin_items blob items fin d)
         | Inr _ \<Rightarrow>
             if length blob < fin then
               add (patch_failed path (''insufficient data: need '' @ show_int (bm_size item) @ '' bytes at offset ''
                      @ show_nat offset @ '', have '' @ show_nat (length blob)))
                 (bin_items blob items offset d)
             else if fin < offset then (Inl Panicked, d)
             else
               let d1 = snd (ensure_parent path d); d2 = backup (bm_backup item) path d1
               in (case write_item path (take (fin - offset) (drop offset blob)) (bm_size item) d2 of
                     (r, d3) \<Rightarrow> add r (bin_items blob items fin d3)))"

definition handle_batch_patch_bin :: "batch_params \<Rightarrow> request \<Rightarrow> unit sync" where
  "handle_batch_patch_bin B req =
     (case bin_meta_parse B (case rq_content req of Some m \<Rightarrow> m | None \<Rightarrow> ''[]'') of
        None \<Rightarrow> reply_json (bp_sync B) (response_error ''invalid bin-patch metadata: '')
      | Some items \<Rightarrow>
          then_do recv (\<lambda>blob c.
            case bin_items blob items 0 (disk_of c) of
              (Inl e, d) \<Rightarrow> (Inl e, c\<lparr>disk_of := d\<rparr>)
            | (Inr results, d) \<Rightarrow>
                reply_json (bp_sync B) (response_ok (Some (or_default (patch_results_json B results)))) (c\<lparr>disk_of := d\<rparr>)))"

section \<open>Smart sync\<close>

definition move_file :: "string \<Rightarrow> string \<Rightarrow> disk \<Rightarrow> io_error option \<times> disk" where
  "move_file src dst d =
     (case (case path_parent dst of Some parent \<Rightarrow> create_dir_all parent d | None \<Rightarrow> (None, d)) of
        (Some e, d1) \<Rightarrow> (Some e, d1)
      | (None, d1) \<Rightarrow>
          (case fs_rename src dst d1 of
             (None, d2) \<Rightarrow> (None, d2)
           | (Some _, d2) \<Rightarrow>
               (case fs_copy src dst d2 of
                  (Some e, d3) \<Rightarrow> (Some e, d3)
                | (None, d3) \<Rightarrow> fs_remove src d3)))"

definition has_hash :: "cache_env \<Rightarrow> disk \<Rightarrow> string \<Rightarrow> string \<Rightarrow> bool" where
  "has_hash E d path hash = (case fs_read d path of Inr data \<Rightarrow> hash_sha256 (ce_sha256 E) data = hash | Inl _ \<Rightarrow> False)"

fun try_sources :: "cache_env \<Rightarrow> sync_request \<Rightarrow> string list \<Rightarrow> disk \<Rightarrow> string option \<times> disk" where
  "try_sources E req [] d = (None, d)"
| "try_sources E req (src # srcs) d =
     (if src = sr_dest req then try_sources E req srcs d
      else if has_hash E d src (sr_hash req) then
        (case move_file src (sr_dest req) d of
           (None, d') \<Rightarrow> (Some src, d')
         | (Some _, d') \<Rightarrow> try_sources E req srcs d')
      else try_sources E req srcs d)"

fun missing_blocks :: "cache_env \<Rightarrow> disk \<Rightarrow> string list \<Rightarrow> cache \<Rightarrow> string list \<times> cache" where
  "missing_blocks E d [] c = ([], c)"
| "missing_blocks E d (h # hs) c =
     (case find_block_sources E d h c of
        (sources, c1) \<Rightarrow>
          (case missing_blocks E d hs c1 of
             (missing, c2) \<Rightarrow> (if sources = [] then h # missing else missing, c2)))"

definition sync_status :: "sync_request \<Rightarrow> string \<Rightarrow> sync_result" where
  "sync_status req status = \<lparr>sy_dest = sr_dest req, sy_status = status, sy_source = None, sy_missing = None\<rparr>"

text \<open>Steps 2 to 4 for one request: look for the content elsewhere, then for blocks, then give up.\<close>

definition smart_find :: "cache_env \<Rightarrow> sync_request \<Rightarrow> cache \<Rightarrow> disk \<Rightarrow> sync_result \<times> cache \<times> disk" where
  "smart_find E req c d =
     (case find_by_content_hash E d (sr_hash req) c of
        (sources, c1) \<Rightarrow>
          (case try_sources E req sources d of
             (Some src, d1) \<Rightarrow>
               ((sync_status req ''moved'')\<lparr>sy_source := Some src\<rparr>, snd (index_file E d1 (sr_dest req) c1), d1)
           | (None, d1) \<Rightarrow>
               (case missing_blocks E d1 (sr_blocks req) c1 of
                  (missing, c2) \<Rightarrow>
                    if sr_blocks req \<noteq> [] \<and> length missing < length (sr_blocks req)
                    then ((sync_status req ''partial'')\<lparr>sy_missing := Some missing\<rparr>, c2, d1)
                    else (sync_status req ''transfer'', c2, d1))))"

definition smart_one :: "cache_env \<Rightarrow> sync_request \<Rightarrow> cache \<Rightarrow> disk \<Rightarrow> sync_result \<times> cache \<times> disk" where
  "smart_one E req c d =
     (if path_exists d (sr_dest req) then
        (if (case get_file_info (sr_dest req) c of Some info \<Rightarrow> cf_content_hash info = sr_hash req | None \<Rightarrow> False)
         then (sync_status req ''exists'', c, d)
         else if has_hash E d (sr_dest req) (sr_hash req)
         then (sync_status req ''exists'', snd (index_file E d (sr_dest req) c), d)
         else smart_find E req c d)
      else smart_find E req (remove_file (sr_dest req) c) d)"

fun smart_all :: "cache_env \<Rightarrow> sync_request list \<Rightarrow> cache \<Rightarrow> disk \<Rightarrow> sync_result list \<times> cache \<times> disk" where
  "smart_all E [] c d = ([], c, d)"
| "smart_all E (r # rs) c d =
     (case smart_one E r c d of (x, c1, d1) \<Rightarrow> case smart_all E rs c1 d1 of (xs, c2, d2) \<Rightarrow> (x # xs, c2, d2))"

definition poisoned :: response where
  "poisoned = response_error ''cache lock poisoned: ''"

definition handle_smart_sync :: "batch_params \<Rightarrow> string \<Rightarrow> cache \<Rightarrow> disk \<Rightarrow> response \<times> cache \<times> disk" where
  "handle_smart_sync B content c d =
     (case smart_parse B content of
        None \<Rightarrow> (response_error ''invalid smart-sync request: '', c, d)
      | Some requests \<Rightarrow>
          if lock_poisoned B then (poisoned, c, d)
          else (case smart_all (bp_cache B) requests c d of
                  (results, c1, d1) \<Rightarrow>
                    (case cache_flush (bp_cache B) c1 d1 of
                       (_, c2, d2) \<Rightarrow> (json_response ''smart-sync results'' (smart_json B results), c2, d2))))"

section \<open>Find and move\<close>

text \<open>The index of the files below the root that have one of the requested sizes; unreadable directories
  and entries are skipped.\<close>

fun index_nodes :: "cache_env \<Rightarrow> disk \<Rightarrow> int set \<Rightarrow> node list \<Rightarrow> (string \<times> string list) list \<Rightarrow> (string \<times> string list) list" where
  "index_nodes E d sizes [] ix = ix"
| "index_nodes E d sizes (Folder p kids # ns) ix = index_nodes E d sizes ns (index_nodes E d sizes kids ix)"
| "index_nodes E d sizes (Locked p e # ns) ix = index_nodes E d sizes ns ix"
| "index_nodes E d sizes (Broken e # ns) ix = index_nodes E d sizes ns ix"
| "index_nodes E d sizes (Leaf p len t reg # ns) ix =
     index_nodes E d sizes ns
       (if int len \<in> sizes then
          (case fs_read d p of
             Inr data \<Rightarrow>
               (let h = hash_sha256 (ce_sha256 E) data
                in AList.update h (or_default (map_of ix h) @ [p]) ix)
           | Inl _ \<Rightarrow> ix)
        else ix)"

text \<open>The move itself: a rename, or a copy and a removal whose failure is ignored.\<close>

definition move_here :: "string \<Rightarrow> string \<Rightarrow> disk \<Rightarrow> io_error option \<times> disk" where
  "move_here src dst d =
     (let d1 = (case path_parent dst of Some parent \<Rightarrow> snd (create_dir_all parent d) | None \<Rightarrow> d)
      in case fs_rename src dst d1 of
           (None, d2) \<Rightarrow> (None, d2)
         | (Some _, d2) \<Rightarrow>
             (case fs_copy src dst d2 of
                (None, d3) \<Rightarrow> (None, snd (fs_remove src d3))
              | (Some e, d3) \<Rightarrow> (Some e, d3)))"

definition find_move_one ::
  "cache_env \<Rightarrow> (string \<times> string list) list \<Rightarrow> find_move_item \<Rightarrow> disk \<Rightarrow> find_move_result \<times> disk" where
  "find_move_one E ix item d =
     (let result = \<lparr>fmr_dest = fm_dest item, fmr_found = False, fmr_source = None, fmr_moved = False, fmr_error = None\<rparr>
      in if path_exists d (fm_dest item) \<and> has_hash E d (fm_dest item) (fm_hash item)
         then (result\<lparr>fmr_found := True, fmr_source := Some (fm_dest item)\<rparr>, d)
         else case find (\<lambda>p. p \<noteq> fm_dest item) (or_default (map_of ix (fm_hash item))) of
                None \<Rightarrow> (result, d)
              | Some src \<Rightarrow>
                  (case move_here src (fm_dest item) d of
                     (None, d') \<Rightarrow> (result\<lparr>fmr_found := True, fmr_source := Some src, fmr_moved := True\<rparr>, d')
                   | (Some e, d') \<Rightarrow>
                       (result\<lparr>fmr_found := True, fmr_source := Some src, fmr_error := Some (show_io e)\<rparr>, d')))"

fun find_move_all ::
  "cache_env \<Rightarrow> (string \<times> string list) list \<Rightarrow> find_move_item list \<Rightarrow> disk \<Rightarrow> find_move_result list \<times> disk" where
  "find_move_all E ix [] d = ([], d)"
| "find_move_all E ix (i # items) d =
     (case find_move_one E ix i d of (r, d1) \<Rightarrow> case find_move_all E ix items d1 of (rs, d2) \<Rightarrow> (r # rs, d2))"

definition handle_find_and_move :: "batch_params \<Rightarrow> batch_patch_item list \<Rightarrow> disk \<Rightarrow> response \<times> disk" where
  "handle_find_and_move B patches d =
     (case (case patches of p # _ \<Rightarrow> bp_content p | [] \<Rightarrow> None) of
        None \<Rightarrow> (response_error ''No find-move items provided'', d)
      | Some content \<Rightarrow>
          (case find_parse B content of
             None \<Rightarrow> (response_error ''Invalid find-move items: '', d)
           | Some [] \<Rightarrow> (response_ok (Some ''[]''), d)
           | Some (i # items) \<Rightarrow>
               let ix = (case list_dir B d (fm_root i) of
                           Some (Inr nodes) \<Rightarrow> index_nodes (bp_cache B) d (fm_size ` set (i # items)) nodes []
                         | _ \<Rightarrow> [])
               in (case find_move_all (bp_cache B) ix (i # items) d of
                     (results, d') \<Rightarrow>
                       (response_ok (Some (case find_json B results of Some j \<Rightarrow> j | None \<Rightarrow> ''[]'')), d'))))"

section \<open>Directories\<close>

fun walk_nodes :: "node list \<Rightarrow> walk_entry list \<Rightarrow> io_error option \<times> walk_entry list" where
  "walk_nodes [] entries = (None, entries)"
| "walk_nodes (Folder p kids # ns) entries =
     (case walk_nodes kids entries of (Some e, es) \<Rightarrow> (Some e, es) | (None, es) \<Rightarrow> walk_nodes ns es)"
| "walk_nodes (Locked p e # ns) entries = (Some e, entries)"
| "walk_nodes (Broken e # ns) entries = (Some e, entries)"
| "walk_nodes (Leaf p len t reg # ns) entries =
     walk_nodes ns (entries @ [\<lparr>we_path = p, we_size = int len, we_mtime = t\<rparr>])"

definition handle_walk :: "batch_params \<Rightarrow> string \<Rightarrow> disk \<Rightarrow> response" where
  "handle_walk B path d =
     (case (case list_dir B d path of
              None \<Rightarrow> (None, [])
            | Some (Inl e) \<Rightarrow> (Some e, [])
            | Some (Inr nodes) \<Rightarrow> walk_nodes nodes []) of
        (Some e, _) \<Rightarrow> response_error (''walk '' @ path @ '': '' @ show_io e)
      | (None, entries) \<Rightarrow> json_response ''walk'' (walk_json B entries))"

definition handle_cache_stats :: "batch_params \<Rightarrow> cache \<Rightarrow> response" where
  "handle_cache_stats B c =
     (if lock_poisoned B then poisoned
      else case cache_stats c of (blocks, fs) \<Rightarrow> response_ok (Some (stats_json B blocks fs)))"

fun index_dir_nodes ::
  "cache_env \<Rightarrow> disk \<Rightarrow> node list \<Rightarrow> nat \<Rightarrow> cache \<Rightarrow> io_error option \<times> nat \<times> cache" where
  "index_dir_nodes E d [] n c = (None, n, c)"
| "index_dir_nodes E d (Folder p kids # ns) n c =
     (case index_dir_nodes E d kids n c of
        (Some e, n1, c1) \<Rightarrow> (Some e, n1, c1)
      | (None, n1, c1) \<Rightarrow> index_dir_nodes E d ns n1 c1)"
| "index_dir_nodes E d (Locked p e # ns) n c = (Some e, n, c)"
| "index_dir_nodes E d (Broken e # ns) n c = (Some e, n, c)"
| "index_dir_nodes E d (Leaf p len t reg # ns) n c =
     (if reg \<and> is_str p then
        (case index_file E d p c of
           (Inr _, c1) \<Rightarrow> index_dir_nodes E d ns (n + 1) c1
         | (Inl _, c1) \<Rightarrow> index_dir_nodes E d ns n c1)
      else index_dir_nodes E d ns n c)"

definition handle_index_dir :: "batch_params \<Rightarrow> string \<Rightarrow> cache \<Rightarrow> disk \<Rightarrow> response \<times> cache \<times> disk" where
  "handle_index_dir B path c d =
     (case list_dir B d path of
        None \<Rightarrow> (response_error (''not a directory: '' @ path), c, d)
      | Some listing \<Rightarrow>
          if lock_poisoned B then (poisoned, c, d)
          else (case (case listing of Inl e \<Rightarrow> (Some e, 0, c) | Inr nodes \<Rightarrow> index_dir_nodes (bp_cache B) d nodes 0 c) of
                  (Some e, _, c1) \<Rightarrow> (response_error (''walk '' @ path @ '': '' @ show_io e), c1, d)
                | (None, n, c1) \<Rightarrow>
                    (case cache_flush (bp_cache B) c1 d of
                       (_, c2, d2) \<Rightarrow> (response_ok (Some (''Indexed '' @ show_nat n @ '' files'')), c2, d2))))"

section \<open>Dispatch\<close>

text \<open>Requests that change neither the cache nor, perhaps, the disk.\<close>

definition keep_cache :: "cache \<Rightarrow> response \<times> disk \<Rightarrow> response \<times> cache \<times> disk" where
  "keep_cache c r = (fst r, c, snd r)"

definition handle_sync :: "batch_params \<Rightarrow> request \<Rightarrow> cache \<Rightarrow> disk \<Rightarrow> response \<times> cache \<times> disk" where
  "handle_sync B req c d =
     (let P = bp_sync B; sync_type = or_default (rq_sync_type req); raw_path = or_default (rq_path req)
      in case (if raw_path \<noteq> [] then sanitize_path raw_path else Inr raw_path) of
           Inl e \<Rightarrow> (response_error e, c, d)
         | Inr path \<Rightarrow>
             if sync_type = ''signatures'' then (handle_get_signatures P path d, c, d)
             else if sync_type = ''delta'' then
               (handle_compute_delta P path (convert_sigs_from_proto (or_default (rq_signatures req))) d, c, d)
             else if sync_type = ''patch'' then keep_cache c (handle_apply_patch P path (rq_delta req) (rq_content req) d)
             else if sync_type = ''pull'' then (handle_pull_file P path d, c, d)
             else if sync_type = ''walk'' then (handle_walk B path d, c, d)
             else if sync_type = ''batch-signatures'' then (handle_batch_signatures B (or_default (rq_paths req)) d, c, d)
             else if sync_type = ''batch-patch'' then
               keep_cache c (handle_batch_patch B (or_default (rq_batch_patches req)) d)
             else if sync_type = ''cache-stats'' then (handle_cache_stats B c, c, d)
             else if sync_type = ''index-dir'' then handle_index_dir B path c d
             else if sync_type = ''smart-sync'' then handle_smart_sync B (or_default (rq_content req)) c d
             else if sync_type = ''find-and-move'' then
               keep_cache c (handle_find_and_move B (or_default (rq_batch_patches req)) d)
             else (response_error (''unknown sync type: '' @ sync_type), c, d))"

section \<open>The binary batch stores every file\<close>

lemma writable_parent: "write_error d p = None \<Longrightarrow> ensure_parent p d = (None, d)"
  by (auto simp: write_error_def parent_there_def ensure_parent_def path_exists_def create_dir_all.simps
      split: option.splits if_splits)

definition bin_meta_of :: "string \<times> bytes \<Rightarrow> bin_meta" where
  "bin_meta_of e = \<lparr>bm_path = fst e, bm_size = int (length (snd e)), bm_backup = None\<rparr>"

definition item_ready :: "disk \<Rightarrow> string \<Rightarrow> bool" where
  "item_ready d p \<longleftrightarrow> sanitize_path p = Inr p \<and> write_error d p = None"

definition stored :: "string \<times> bytes \<Rightarrow> patch_result" where
  "stored e = \<lparr>pr_path = fst e, pr_size = int (length (snd e)), pr_success = True, pr_error = None\<rparr>"

lemma item_ready_write [simp]: "item_ready (snd (fs_write p b d)) q = item_ready d q"
  by (simp add: item_ready_def write_error_cong [of "snd (fs_write p b d)" d])

lemma bin_items_append:
  "list_all (\<lambda>e. item_ready d (fst e)) es \<Longrightarrow> length (pre @ concat (map snd es) @ tail) < 2 ^ 64 \<Longrightarrow>
     bin_items (pre @ concat (map snd es) @ tail) (map bin_meta_of es @ items) (length pre) d
       = (case bin_items (pre @ concat (map snd es) @ tail) items (length (pre @ concat (map snd es)))
            (fold (\<lambda>(p, b) d. snd (fs_write p b d)) es d) of
            (Inr rs, d') \<Rightarrow> (Inr (map stored es @ rs), d')
          | (Inl e, d') \<Rightarrow> (Inl e, d'))"
proof (induction es arbitrary: pre d)
  case (Cons e es)
  obtain p b where e: "e = (p, b)" by (cases e)
  from Cons.prems have ready: "sanitize_path p = Inr p" "write_error d p = None" by (auto simp: e item_ready_def)
  have n: "length pre + length b < 2 ^ 64" using Cons.prems(2) by (simp add: e)
  have "as_usize (int (length b)) = length b" using n by (simp add: as_usize_def)
  moreover have "(length pre + length b) mod 2 ^ 64 = length pre + length b" using n by (rule mod_less)
  moreover have "write_item p b (int (length b)) d = (stored e, snd (fs_write p b d))"
    using ready by (simp add: write_item_def fs_write_def stored_def e)
  moreover have "list_all (\<lambda>e. item_ready (snd (fs_write p b d)) (fst e)) es" using Cons.prems by (simp add: e)
  note Cons.IH [OF this, of "pre @ b"]
  ultimately show ?case
    using ready Cons.prems(2)
    by (simp add: e bin_meta_of_def [of "(p, b)"] writable_parent backup_def add.assoc split: prod.split sum.split)
qed (simp split: prod.split sum.split)

lemma bin_items_store:
  assumes "list_all (\<lambda>e. item_ready d (fst e)) es" "length (concat (map snd es)) < 2 ^ 64"
  shows "bin_items (concat (map snd es)) (map bin_meta_of es) 0 d
       = (Inr (map stored es), fold (\<lambda>(p, b) d. snd (fs_write p b d)) es d)"
  using bin_items_append [OF assms(1), of "[]" "[]" "[]"] assms(2) by simp

lemma writes_stored:
  assumes "distinct (map fst es)" "list_all (\<lambda>e. item_ready d (fst e)) es"
  shows "list_all (\<lambda>(p, b). disk_get (fold (\<lambda>(p, b) d. snd (fs_write p b d)) es d) p = Some b) es"
proof -
  have "disk_get (fold (\<lambda>(p, b) d. snd (fs_write p b d)) es d) p = Some b" if "(p, b) \<in> set es" for p b
  proof (rule disk_store.puts_get [OF assms(1) that])
    show "write_error d p = None" using assms(2) that by (auto simp: list_all_iff item_ready_def)
  qed
  then show ?thesis by (auto simp: list_all_iff)
qed

text \<open>The binary batch stores every file: when the blob is the files of the list put together, each
  file is written under its path with exactly its bytes, every entry of the answer reports success, and
  no file outside the list changes.\<close>

theorem batch_bin_stores:
  assumes "bin_meta_parse B m = Some (map bin_meta_of es)" "rq_content req = Some m"
    and "distinct (map fst es)" "list_all (\<lambda>e. item_ready (disk_of c) (fst e)) es"
    and "wire_sendable (concat (map snd es))" "inp c = send_message (concat (map snd es)) @ rest"
    and "resp_json (bp_sync B) (response_ok (Some (or_default (patch_results_json B (map stored es))))) = Some answer"
  shows "\<exists>d'. handle_batch_patch_bin B req c
      = (Inr (), c\<lparr>inp := rest, outp := outp c @ send_message answer, disk_of := d'\<rparr>) \<and>
    (\<forall>(p, b) \<in> set es. disk_get d' p = Some b) \<and>
    (\<forall>p. p \<notin> fst ` set es \<longrightarrow> disk_get d' p = disk_get (disk_of c) p)"
proof -
  let ?blob = "concat (map snd es)" and ?d = "fold (\<lambda>(p, b) d. snd (fs_write p b d)) es (disk_of c)"
  have "length ?blob < 2 ^ 64" using assms(5) by (simp add: wire_sendable_def)
  then have "bin_items ?blob (map bin_meta_of es) 0 (disk_of c) = (Inr (map stored es), ?d)"
    using bin_items_store [OF assms(4)] by simp
  moreover have "recv c = (Inr ?blob, c\<lparr>inp := rest\<rparr>)"
    using assms(5,6) by (simp add: recv_def recv_send_message)
  ultimately have "handle_batch_patch_bin B req c
      = (Inr (), c\<lparr>inp := rest, outp := outp c @ send_message answer, disk_of := ?d\<rparr>)"
    using assms(1,2,7) by (simp add: handle_batch_patch_bin_def then_do_def reply_json_def put_result_def send_json_def
        put_bytes_def give_def)
  moreover have "\<forall>(p, b) \<in> set es. disk_get ?d p = Some b" using writes_stored [OF assms(3,4)] by (simp add: list_all_iff)
  moreover have "disk_get ?d p = disk_get (disk_of c) p" if "p \<notin> fst ` set es" for p
    using that by (rule disk_store.puts_other)
  ultimately show ?thesis by blast
qed

lemma bin_negative:
  assumes "sanitize_path (bm_path item) = Inr q" "bm_size item = - int k" "0 < k" "k \<le> offset"
    and "offset \<le> length blob" "length blob < 2 ^ 63"
  shows "bin_items blob (item # items) offset d = (Inl Panicked, d)"
proof -
  have "as_usize (- int k) = 2 ^ 64 - k"
  proof -
    have "(- int k) mod 2 ^ 64 = 2 ^ 64 - int k"
      using assms(3-6) by (subst minus_mod_int_eq) (auto simp: mod_pos_pos_trivial)
    then show ?thesis using assms(3-6) by (simp add: as_usize_def nat_diff_distrib)
  qed
  moreover have "(offset + (2 ^ 64 - k)) mod 2 ^ 64 = offset - k"
  proof -
    have "offset + (2 ^ 64 - k) = (offset - k) + 2 ^ 64" using assms(3-6) by simp
    then show ?thesis using assms(3-6) by (simp only: mod_add_self2) simp
  qed
  moreover have "\<not> length blob < offset - k" "offset - k < offset" using assms(3-5) by simp_all
  ultimately show ?thesis using assms(1,2) by (simp add: Let_def)
qed

text \<open>C40. A negative size ends the handler of a binary batch: after items that are stored, an item whose size
  is as far below zero as bytes of the blob are consumed, or less far, makes the end of the item wrap to before its start,
  and the slice panics. The client gets no answer, the files of the items before it stay, and the items after it are not looked at.\<close>

theorem bin_negative_panics:
  assumes "bin_meta_parse B m = Some (map bin_meta_of es @ item # items)" "rq_content req = Some m"
    and "distinct (map fst es)" "list_all (\<lambda>e. item_ready (disk_of c) (fst e)) es"
    and "wire_sendable (concat (map snd es) @ tail)" "inp c = send_message (concat (map snd es) @ tail) @ rest"
    and "sanitize_path (bm_path item) = Inr q" "bm_size item = - int k" "0 < k" "k \<le> length (concat (map snd es))"
  shows "\<exists>d'. handle_batch_patch_bin B req c = (Inl Panicked, c\<lparr>inp := rest, disk_of := d'\<rparr>) \<and>
    list_all (\<lambda>(p, b). disk_get d' p = Some b) es \<and> (\<forall>p. p \<in> fst ` set es \<or> disk_get d' p = disk_get (disk_of c) p)"
proof -
  let ?blob = "concat (map snd es) @ tail" and ?d = "fold (\<lambda>(p, b) d. snd (fs_write p b d)) es (disk_of c)"
  have n: "length ?blob < 2 ^ 63" using assms(5) by (simp add: wire_sendable_def)
  have "bin_items ?blob (item # items) (length (concat (map snd es))) ?d = (Inl Panicked, ?d)"
    using n by (intro bin_negative [OF assms(7-10)]) simp_all
  then have "bin_items ?blob (map bin_meta_of es @ item # items) 0 (disk_of c) = (Inl Panicked, ?d)"
    using bin_items_append [OF assms(4), of "[]" tail "item # items"] n by simp
  moreover have "recv c = (Inr ?blob, c\<lparr>inp := rest\<rparr>)" using assms(5,6) by (simp add: recv_def recv_send_message)
  ultimately have "handle_batch_patch_bin B req c = (Inl Panicked, c\<lparr>inp := rest, disk_of := ?d\<rparr>)"
    using assms(1,2) by (simp add: handle_batch_patch_bin_def then_do_def)
  moreover have "disk_get ?d p = disk_get (disk_of c) p" if "p \<notin> fst ` set es" for p
    using that by (rule disk_store.puts_other)
  ultimately show ?thesis using writes_stored [OF assms(3,4)] by blast
qed

definition sample_batch :: batch_params where
  "sample_batch = \<lparr>bp_sync = \<lparr>hashes = identity_hash, gzip_encode = (\<lambda>b. b), gzip_decode = Some, zstd_decode = Some,
       sigs_json = (\<lambda>_. Some []), ops_json = (\<lambda>_. Some []), resp_json = (\<lambda>_. Some [0]), sp_lowercase = (\<lambda>s. s),
       session_zero = False\<rparr>,
     bp_cache = sample_cache_env, file_sigs_json = (\<lambda>_. Some []), patch_results_json = (\<lambda>_. Some []),
     bin_meta_parse = (\<lambda>_. Some (map bin_meta_of [(''g'', [7]), (''h'', [8, 9])])), smart_parse = (\<lambda>_. None),
     smart_json = (\<lambda>_. Some []), find_parse = (\<lambda>_. None), find_json = (\<lambda>_. Some []), walk_json = (\<lambda>_. Some []),
     stats_json = (\<lambda>_ _. []), list_dir = (\<lambda>_ _. None), lock_poisoned = False\<rparr>"

definition bin_request :: request where
  "bin_request = \<lparr>req_type = ''sync'', rq_command = None, rq_path = None, rq_content = Some ''m'', rq_binary = None,
     rq_gzip = None, rq_sync_type = Some ''batch-patch-bin'', rq_delta = None, rq_signatures = None, rq_paths = None,
     rq_batch_patches = None, rq_env_vars = None, rq_track = None, rq_version = None, rq_allow_downgrade = None,
     rq_insecure_no_verify = None\<rparr>"

theorem batch_bin_stores_witness:
  "\<exists>d'. handle_batch_patch_bin sample_batch bin_request \<lparr>inp = send_message [7, 8, 9], outp = [], disk_of = small_disk\<rparr>
      = (Inr (), \<lparr>inp = [], outp = send_message [0], disk_of = d'\<rparr>) \<and>
    disk_get d' ''g'' = Some [7] \<and> disk_get d' ''h'' = Some [8, 9] \<and> disk_get d' ''f'' = Some [1]"
proof -
  let ?es = "[(''g'', [7]), (''h'', [8, 9 :: byte])]"
  let ?c = "\<lparr>inp = send_message [7, 8, 9], outp = [], disk_of = small_disk\<rparr>"
  have "path_parent ''g'' = Some []" "\<not> ends_with ''g'' ''/''" "path_parent ''h'' = Some []" "\<not> ends_with ''h'' ''/''"
    by code_simp+
  then have ready: "list_all (\<lambda>e. item_ready (disk_of ?c) (fst e)) ?es"
    by (simp add: item_ready_def sanitize_path_def write_error_def parent_there_def small_disk_def)
  obtain d' where d': "handle_batch_patch_bin sample_batch bin_request ?c
      = (Inr (), ?c\<lparr>inp := [], outp := outp ?c @ send_message [0], disk_of := d'\<rparr>)"
    "\<forall>(p, b) \<in> set ?es. disk_get d' p = Some b" "\<forall>p. p \<notin> fst ` set ?es \<longrightarrow> disk_get d' p = disk_get (disk_of ?c) p"
    by (atomize_elim, rule batch_bin_stores [where m = "''m''" and es = ?es and c = ?c and rest = "[]" and B = sample_batch
          and req = bin_request and answer = "[0]", OF _ _ _ ready])
      (simp_all add: sample_batch_def bin_request_def wire_sendable_def)
  have "disk_get d' ''f'' = Some [1]" using spec [OF d'(3), of "''f''"] by (simp add: disk_get_def small_read)
  with d'(1,2) show ?thesis by (intro exI [of _ d']) simp
qed

definition negative_batch :: batch_params where
  "negative_batch = sample_batch\<lparr>bin_meta_parse :=
     (\<lambda>_. Some (map bin_meta_of [(''g'', [7, 8])] @ \<lparr>bm_path = ''h'', bm_size = - 1, bm_backup = None\<rparr> # []))\<rparr>"

theorem bin_negative_panics_witness:
  "\<exists>d'. handle_batch_patch_bin negative_batch bin_request \<lparr>inp = send_message [7, 8], outp = [], disk_of = small_disk\<rparr>
      = (Inl Panicked, \<lparr>inp = [], outp = [], disk_of = d'\<rparr>) \<and> disk_get d' ''g'' = Some [7, 8]"
proof -
  let ?es = "[(''g'', [7, 8 :: byte])]"
  let ?c = "\<lparr>inp = send_message [7, 8], outp = [], disk_of = small_disk\<rparr>"
  have "path_parent ''g'' = Some []" "\<not> ends_with ''g'' ''/''" by code_simp+
  then have ready: "list_all (\<lambda>e. item_ready (disk_of ?c) (fst e)) ?es"
    by (simp add: item_ready_def sanitize_path_def write_error_def parent_there_def small_disk_def)
  have "\<exists>d'. handle_batch_patch_bin negative_batch bin_request ?c = (Inl Panicked, ?c\<lparr>inp := [], disk_of := d'\<rparr>) \<and>
      list_all (\<lambda>(p, b). disk_get d' p = Some b) ?es \<and> (\<forall>p. p \<in> fst ` set ?es \<or> disk_get d' p = disk_get (disk_of ?c) p)"
    by (rule bin_negative_panics [where m = "''m''" and es = ?es and tail = "[]" and k = 1 and q = "''h''" and items = "[]"
        and item = "\<lparr>bm_path = ''h'', bm_size = - 1, bm_backup = None\<rparr>", OF _ _ _ ready])
      (simp_all add: negative_batch_def bin_request_def wire_sendable_def sanitize_path_def)
  then show ?thesis by auto
qed

section \<open>Smart sync never invents a file\<close>

lemma mkdir_new: "mkdir p d = (r, d') \<Longrightarrow> q \<in> folders d' \<Longrightarrow> q \<in> folders d \<or> files d q = None"
  by (auto simp: mkdir_def path_exists_def split: option.splits if_splits)

lemma mkdir_or_there_new: "mkdir_or_there p d = (r, d') \<Longrightarrow> q \<in> folders d' \<Longrightarrow> q \<in> folders d \<or> files d q = None"
  using mkdir_new [of p d] by (auto simp: mkdir_or_there_def split: prod.splits option.splits if_splits)

lemma create_dir_all_new:
  "create_dir_all p d = (r, d') \<Longrightarrow> q \<in> folders d' \<Longrightarrow> q \<in> folders d \<or> files d q = None"
proof (induction p d arbitrary: r d' rule: create_dir_all.induct)
  case (1 p d)
  obtain r1 d1 where m: "mkdir_or_there p d = (r1, d1)" by (cases "mkdir_or_there p d")
  show ?case
  proof (cases "p \<noteq> [] \<and> r1 = Some Not_Found \<and> path_parent p \<noteq> None")
    case False
    with "1.prems" m mkdir_or_there_new [OF m] show ?thesis
      by (subst (asm) create_dir_all.simps) (auto split: option.splits io_error.splits if_splits)
  next
    case True
    then obtain p' where p': "path_parent p = Some p'" by auto
    obtain r2 d2 where c: "create_dir_all p' d = (r2, d2)" by (cases "create_dir_all p' d")
    have ih: "q \<in> folders d2 \<Longrightarrow> q \<in> folders d \<or> files d q = None"
      using "1.IH" [OF _ m [symmetric] _ _ p' c] True by auto
    have "create_dir_all p d = (case r2 of Some e \<Rightarrow> (Some e, d2) | None \<Rightarrow> mkdir_or_there p d2)"
      using True m p' c by (subst create_dir_all.simps) simp
    then show ?thesis
      using ih "1.prems" mkdir_or_there_new [of p d2 r d' q] create_dir_all_frame [OF c]
      by (cases r2) auto
  qed
qed

lemma fs_read_Inr: "fs_read d p = Inr b \<longleftrightarrow> fault d p = None \<and> p \<notin> folders d \<and> files d p = Some b"
  by (auto simp: fs_read_def split: option.splits)

lemma rename_read:
  assumes "fs_rename a b d = (None, d')" "fs_read d a = Inr data" "a \<noteq> b"
  shows "fs_read d' b = Inr data"
  using assms by (auto simp: fs_rename_def fs_read_Inr moved_def under_def split: option.splits if_splits)

lemma move_file_read:
  assumes "move_file src dst d = (None, d')" "fs_read d src = Inr data" "src \<noteq> dst"
  shows "fs_read d' dst = Inr data"
proof -
  obtain d1 where d1: "(case path_parent dst of Some parent \<Rightarrow> create_dir_all parent d | None \<Rightarrow> (None, d)) = (None, d1)"
    using assms(1) by (auto simp: move_file_def split: prod.splits option.splits)
  have r1: "fs_read d1 src = Inr data"
    using d1 assms(2) create_dir_all_frame create_dir_all_new
    by (fastforce simp: fs_read_Inr split: option.splits)
  show ?thesis
  proof (cases "fs_rename src dst d1")
    case (Pair r d2)
    show ?thesis
    proof (cases r)
      case None
      with Pair assms(1) d1 have "d' = d2" by (simp add: move_file_def)
      with rename_read [OF _ r1 assms(3)] Pair None show ?thesis by simp
    next
      case (Some e)
      then have "d2 = d1" using Pair by (auto simp: fs_rename_def split: option.splits if_splits)
      with Some Pair assms(1) d1 r1 obtain d3 where "fs_write dst data d1 = (None, d3)" "fs_remove src d3 = (None, d')"
        by (auto simp: move_file_def fs_copy_def split: prod.splits option.splits)
      moreover from this(1) have "fs_read d3 dst = Inr data" using fs_read_write [of d1 dst data]
        by (auto simp: fs_write_def split: option.splits)
      ultimately show ?thesis using assms(3) by (auto simp: fs_remove_def fs_read_Inr split: sum.splits)
    qed
  qed
qed

lemma try_sources_hash:
  "try_sources E req srcs d = (Some src, d') \<Longrightarrow> has_hash E d' (sr_dest req) (sr_hash req)"
proof (induction srcs arbitrary: d)
  case (Cons s srcs)
  show ?case
  proof (cases "s \<noteq> sr_dest req \<and> has_hash E d s (sr_hash req)")
    case True
    then obtain data where data: "fs_read d s = Inr data" "hash_sha256 (ce_sha256 E) data = sr_hash req"
      by (auto simp: has_hash_def split: sum.splits)
    obtain r d1 where m: "move_file s (sr_dest req) d = (r, d1)" by (cases "move_file s (sr_dest req) d")
    show ?thesis
    proof (cases r)
      case None
      with m True Cons.prems have "d' = d1" by simp
      with move_file_read [OF _ data(1)] m None True data(2) show ?thesis by (simp add: has_hash_def)
    next
      case (Some e)
      with m True Cons show ?thesis by simp
    qed
  next
    case False
    with Cons show ?thesis by (auto split: if_splits)
  qed
qed simp

lemma smart_find_moved:
  assumes "smart_find E req c d = (r, c', d')" "sy_status r = ''exists'' \<or> sy_status r = ''moved''"
  shows "has_hash E d' (sr_dest req) (sr_hash req)"
  using assms try_sources_hash
  by (auto simp: smart_find_def sync_status_def split: prod.splits option.splits if_splits)

text \<open>Smart sync never invents a file: when a request is answered with exists or moved, the destination
  has a content with the requested hash, unless the answer rests on a cache record alone, which then was
  made from a content read under that path before.\<close>

theorem smart_sync_sound:
  assumes "cache_run (ce_sha256 E) reads c" "smart_one E req c d = (r, c', d')"
    and "sy_status r = ''exists'' \<or> sy_status r = ''moved''"
  shows "has_hash E d' (sr_dest req) (sr_hash req) \<or>
    d' = d \<and> path_exists d (sr_dest req) \<and>
      (\<exists>data. (sr_dest req, data) \<in> reads \<and> hash_sha256 (ce_sha256 E) data = sr_hash req)"
proof -
  have "\<exists>data. (sr_dest req, data) \<in> reads \<and> hash_sha256 (ce_sha256 E) data = cf_content_hash info"
    if "get_file_info (sr_dest req) c = Some info" for info
    using that known_lookup(1) [OF known_run [OF assms(1)], of "sr_dest req"]
    by (fastforce simp: get_file_info_def file_info_of_def record_of_def file_hashes_def)
  then show ?thesis
    using assms(2,3) smart_find_moved by (auto simp: smart_one_def split: if_splits option.splits)
qed

definition ask :: "string \<Rightarrow> sync_request" where
  "ask p = \<lparr>sr_dest = p, sr_hash = ''01'', sr_blocks = []\<rparr>"

lemma small_hash: "hash_sha256 (\<lambda>b. b) [1] = ''01''"
  by (simp add: hash_sha256_def) code_simp

theorem smart_sync_sound_witness:
  "\<exists>r c' d'. smart_one sample_cache_env (ask ''f'') empty_cache small_disk = (r, c', d') \<and> sy_status r = ''exists'' \<and>
     has_hash sample_cache_env d' ''f'' ''01''"
proof -
  let ?one = "smart_one sample_cache_env (ask ''f'') empty_cache small_disk"
  have "has_hash sample_cache_env small_disk ''f'' ''01''"
    by (simp add: has_hash_def small_read sample_cache_env_def small_hash)
  then have s: "?one = (sync_status (ask ''f'') ''exists'', snd (index_file sample_cache_env small_disk ''f'' empty_cache), small_disk)"
    by (simp add: smart_one_def ask_def path_exists_def get_file_info_def empty_cache_def small_disk_def)
  have "cache_run (ce_sha256 sample_cache_env) {} empty_cache" by (rule cache_run.start) (simp_all add: empty_cache_def)
  from smart_sync_sound [OF this s] show ?thesis
    by (simp add: s) (simp add: sync_status_def ask_def)
qed

lemma add_sources_files [simp]:
  "bc_files (fold (\<lambda>k. add_block_source (chunk_hash k) p (chunk_offset k) (chunk_length k) t) ks c) = bc_files c"
  by (induction ks arbitrary: c) (simp_all add: add_block_source_def Let_def)

lemma small_parent: "path_parent ''g'' = Some []"
  by code_simp

lemma small_rename: "\<exists>d'. fs_rename ''f'' ''g'' small_disk = (None, d') \<and> fs_read d' ''f'' = Inl Not_Found"
  using small_parent
  by (auto simp: fs_rename_def small_disk_def path_exists_def parent_there_def occupied_def under_def moved_def
      starts_with_def fs_read_def split: if_splits)

text \<open>Two files with the same content break a smart sync: asked for a file the server has and for a
  second one with the same content, it confirms the first, then moves it away to make the second; both
  answers claim success, and the first file is gone.\<close>

theorem smart_sync_loses_file:
  "\<exists>rs c' d'. smart_all sample_cache_env [ask ''f'', ask ''g''] empty_cache small_disk = (rs, c', d') \<and>
     map sy_status rs = [''exists'', ''moved''] \<and> fs_read small_disk ''f'' = Inr [1] \<and>
     fs_read d' ''f'' = Inl Not_Found \<and> fs_read d' ''g'' = Inr [1]"
proof -
  let ?E = sample_cache_env and ?c1 = "snd (index_file sample_cache_env small_disk ''f'' empty_cache)"
  have h: "has_hash ?E small_disk ''f'' ''01''"
    by (simp add: has_hash_def small_read sample_cache_env_def small_hash)
  then have one: "smart_one ?E (ask ''f'') empty_cache small_disk = (sync_status (ask ''f'') ''exists'', ?c1, small_disk)"
    by (simp add: smart_one_def ask_def path_exists_def get_file_info_def empty_cache_def small_disk_def)
  obtain e where c1: "bc_files ?c1 = [(''f'', e)]" "fr_content_hash e = ''01''"
    using file_len_read [OF small_read] small_hash
    by (auto simp: index_file_def small_read index_data_def Let_def add_sources_files empty_cache_def sample_cache_env_def)
  obtain d' where ren: "fs_rename ''f'' ''g'' small_disk = (None, d')" and gone: "fs_read d' ''f'' = Inl Not_Found"
    using small_rename by blast
  have "move_file ''f'' ''g'' small_disk = (None, d')"
    using ren small_parent by (simp add: move_file_def create_dir_all.simps)
  then have "try_sources ?E (ask ''g'') [''f''] small_disk = (Some ''f'', d')"
    using h by (simp add: ask_def)
  moreover have "sr_hash (ask ''g'') = ''01''" by (simp add: ask_def)
  moreover obtain c2 where "find_by_content_hash ?E small_disk ''01'' ?c1 = ([''f''], c2)"
    using c1 by (simp add: find_by_content_hash_def Let_def path_exists_def small_disk_def)
  ultimately have "\<exists>c2. smart_find ?E (ask ''g'') ?c1 small_disk
      = ((sync_status (ask ''g'') ''moved'')\<lparr>sy_source := Some ''f''\<rparr>, c2, d')"
    by (simp add: smart_find_def del: try_sources.simps)
  moreover have "smart_one ?E (ask ''g'') ?c1 small_disk = smart_find ?E (ask ''g'') ?c1 small_disk"
    using c1 by (simp add: smart_one_def ask_def path_exists_def small_disk_def remove_file_def)
  moreover have "fs_read d' ''g'' = Inr [1]" using rename_read [OF ren small_read] by simp
  ultimately show ?thesis using one gone small_read by (auto simp: sync_status_def)
qed

end
