(* ===== verification/Glob.thy ===== *)
theory Glob
  imports Rust_Str
begin

text \<open>
  Exclusion patterns of the directory synchronisation, \<open>glob_match\<close> and \<open>is_excluded\<close> of
  \<open>mrsh-client/src/sync/dir.rs\<close>: the matcher is a loop over two indices that goes back to the last
  star; it is compared with the recursive meaning of a pattern.
\<close>

section \<open>The matcher\<close>

definition ascii_lower_char :: "char \<Rightarrow> char" where
  "ascii_lower_char c = (let n = (of_char c :: nat) in if 65 \<le> n \<and> n \<le> 90 then char_of (n + 32) else c)"

definition eq_ignore_ascii_case :: "char \<Rightarrow> char \<Rightarrow> bool" where
  "eq_ignore_ascii_case a b \<longleftrightarrow> ascii_lower_char a = ascii_lower_char b"

text \<open>The last star and the text position it was tried at; \<open>None\<close> is the source's \<open>usize::MAX\<close>.\<close>

partial_function (option) glob_loop :: "string \<Rightarrow> string \<Rightarrow> nat \<Rightarrow> nat \<Rightarrow> (nat \<times> nat) option \<Rightarrow> bool option" where
  "glob_loop p t i j star =
     (if j < length t then
        (if i < length p \<and> (p ! i = CHR ''?'' \<or> eq_ignore_ascii_case (p ! i) (t ! j))
         then glob_loop p t (i + 1) (j + 1) star
         else if i < length p \<and> p ! i = CHR ''*'' then glob_loop p t (i + 1) j (Some (i, j))
         else case star of
           Some (star_p, star_t) \<Rightarrow> glob_loop p t (star_p + 1) (star_t + 1) (Some (star_p, star_t + 1))
         | None \<Rightarrow> Some False)
      else Some (dropWhile ((=) (CHR ''*'')) (drop i p) = []))"

definition glob_match :: "string \<Rightarrow> string \<Rightarrow> bool option" where
  "glob_match pattern text = glob_loop pattern text 0 0 None"

declare glob_loop.simps [code]

section \<open>The matcher returns\<close>

text \<open>What holds of the loop's variables whenever it starts again.\<close>

definition glob_state :: "string \<Rightarrow> string \<Rightarrow> nat \<Rightarrow> nat \<Rightarrow> (nat \<times> nat) option \<Rightarrow> bool" where
  "glob_state p t i j star \<longleftrightarrow> i \<le> length p \<and> j \<le> length t \<and>
     (case star of None \<Rightarrow> True | Some (sp, st) \<Rightarrow> sp < i \<and> st \<le> j)"

text \<open>A new star leaves less of the pattern, a step back less of the text after the star, a match less
  of the text.\<close>

definition glob_measure :: "string \<Rightarrow> string \<Rightarrow> nat \<Rightarrow> nat \<Rightarrow> (nat \<times> nat) option \<Rightarrow> nat \<times> nat \<times> nat" where
  "glob_measure p t i j star =
     (case star of None \<Rightarrow> length p + 1 | Some (sp, st) \<Rightarrow> length p - sp,
      case star of None \<Rightarrow> 0 | Some (sp, st) \<Rightarrow> length t - st,
      length t - j)"

text \<open>The cases of an iteration.\<close>

definition glob_fits :: "string \<Rightarrow> string \<Rightarrow> nat \<Rightarrow> nat \<Rightarrow> bool" where
  "glob_fits p t i j \<longleftrightarrow> i < length p \<and> (p ! i = CHR ''?'' \<or> eq_ignore_ascii_case (p ! i) (t ! j))"

definition glob_at_star :: "string \<Rightarrow> nat \<Rightarrow> bool" where
  "glob_at_star p i \<longleftrightarrow> i < length p \<and> p ! i = CHR ''*''"

lemma glob_loop_cases:
  "\<not> j < length t \<Longrightarrow> glob_loop p t i j star = Some (dropWhile ((=) (CHR ''*'')) (drop i p) = [])"
  "j < length t \<Longrightarrow> glob_fits p t i j \<Longrightarrow> glob_loop p t i j star = glob_loop p t (i + 1) (j + 1) star"
  "j < length t \<Longrightarrow> \<not> glob_fits p t i j \<Longrightarrow> glob_at_star p i \<Longrightarrow>
     glob_loop p t i j star = glob_loop p t (i + 1) j (Some (i, j))"
  "j < length t \<Longrightarrow> \<not> glob_fits p t i j \<Longrightarrow> \<not> glob_at_star p i \<Longrightarrow>
     glob_loop p t i j (Some (sp, st)) = glob_loop p t (sp + 1) (st + 1) (Some (sp, st + 1))"
  "j < length t \<Longrightarrow> \<not> glob_fits p t i j \<Longrightarrow> \<not> glob_at_star p i \<Longrightarrow> glob_loop p t i j None = Some False"
  by (subst glob_loop.simps, auto simp: glob_fits_def glob_at_star_def)+

lemma glob_state_step:
  "glob_state p t i j star \<Longrightarrow> j < length t \<Longrightarrow> glob_fits p t i j \<Longrightarrow> glob_state p t (i + 1) (j + 1) star"
  "glob_state p t i j star \<Longrightarrow> glob_at_star p i \<Longrightarrow> glob_state p t (i + 1) j (Some (i, j))"
  "glob_state p t i j (Some (sp, st)) \<Longrightarrow> j < length t \<Longrightarrow> glob_state p t (sp + 1) (st + 1) (Some (sp, st + 1))"
  by (auto simp: glob_state_def glob_fits_def glob_at_star_def split: option.splits)

lemma glob_induct [consumes 1, case_names at_end fits at_star retry fail]:
  assumes "glob_state p t i j star"
    and at_end: "\<And>i j star. glob_state p t i j star \<Longrightarrow> \<not> j < length t \<Longrightarrow> P i j star"
    and fits: "\<And>i j star. glob_state p t i j star \<Longrightarrow> j < length t \<Longrightarrow> glob_fits p t i j \<Longrightarrow>
      P (i + 1) (j + 1) star \<Longrightarrow> P i j star"
    and at_star: "\<And>i j star. glob_state p t i j star \<Longrightarrow> j < length t \<Longrightarrow> \<not> glob_fits p t i j \<Longrightarrow> glob_at_star p i \<Longrightarrow>
      P (i + 1) j (Some (i, j)) \<Longrightarrow> P i j star"
    and retry: "\<And>i j sp st. glob_state p t i j (Some (sp, st)) \<Longrightarrow> j < length t \<Longrightarrow> \<not> glob_fits p t i j \<Longrightarrow>
      \<not> glob_at_star p i \<Longrightarrow> P (sp + 1) (st + 1) (Some (sp, st + 1)) \<Longrightarrow> P i j (Some (sp, st))"
    and fail: "\<And>i j. glob_state p t i j None \<Longrightarrow> j < length t \<Longrightarrow> \<not> glob_fits p t i j \<Longrightarrow> \<not> glob_at_star p i \<Longrightarrow> P i j None"
  shows "P i j star"
  using assms(1)
proof (induction "glob_measure p t i j star" arbitrary: i j star
    rule: wf_induct_rule [OF wf_lex_prod [OF wf_less_than wf_lex_prod [OF wf_less_than wf_less_than]]])
  case (1 i j star)
  note IH = 1(1) and inv = 1(2)
  consider "\<not> j < length t" | "j < length t" "glob_fits p t i j"
    | "j < length t" "\<not> glob_fits p t i j" "glob_at_star p i"
    | "j < length t" "\<not> glob_fits p t i j" "\<not> glob_at_star p i"
    by blast
  then show ?case
  proof cases
    case 1
    with at_end inv show ?thesis by blast
  next
    case 2
    have "P (i + 1) (j + 1) star"
      using inv 2 by (intro IH glob_state_step) (auto simp: glob_measure_def split: option.splits)
    with fits inv 2 show ?thesis by blast
  next
    case 3
    have "P (i + 1) j (Some (i, j))"
      using inv 3 by (intro IH glob_state_step) (auto simp: glob_measure_def glob_state_def split: option.splits)
    with at_star inv 3 show ?thesis by blast
  next
    case 4
    show ?thesis
    proof (cases star)
      case None
      with fail inv 4 show ?thesis by blast
    next
      case (Some s)
      then obtain sp st where s: "star = Some (sp, st)" by (cases s) auto
      have "P (sp + 1) (st + 1) (Some (sp, st + 1))"
        using inv 4(1) by (intro IH) (auto simp: s glob_measure_def glob_state_def)
      with retry inv 4 s show ?thesis by blast
    qed
  qed
qed

lemma glob_start: "glob_state p t 0 0 None"
  by (simp add: glob_state_def)

lemma glob_loop_returns: "glob_state p t i j star \<Longrightarrow> \<exists>b. glob_loop p t i j star = Some b"
  by (induction rule: glob_induct) (auto simp: glob_loop_cases intro: exI [of _ False])

text \<open>C31. The matcher of exclusion patterns returns for every pattern and every text: the loop can go
  back to the last star only finitely often.\<close>

theorem glob_match_returns: "\<exists>b. glob_match pattern text = Some b"
  using glob_loop_returns [OF glob_start] by (simp add: glob_match_def)

section \<open>The meaning of a pattern\<close>

fun glob :: "string \<Rightarrow> string \<Rightarrow> bool" where
  "glob [] t = (t = [])"
| "glob (c # p) [] = (c = CHR ''*'' \<and> glob p [])"
| "glob (c # p) (d # t) =
     (if c = CHR ''*'' then glob p (d # t) \<or> glob (c # p) t
      else (c = CHR ''?'' \<or> eq_ignore_ascii_case c d) \<and> glob p t)"

lemma glob_star: "glob (CHR ''*'' # p) t \<longleftrightarrow> (\<exists>k \<le> length t. glob p (drop k t))"
proof (induction t)
  case Nil
  then show ?case by simp
next
  case (Cons d t)
  have "(\<exists>k \<le> length (d # t). glob p (drop k (d # t)))
      \<longleftrightarrow> glob p (d # t) \<or> (\<exists>k \<le> length t. glob p (drop k t))"
    by (metis Suc_le_mono drop0 drop_Suc_Cons length_Cons nat.exhaust zero_le)
  with Cons show ?case by simp
qed

text \<open>Every character of a pattern but a star stands for one character.\<close>

lemma glob_length: "glob p t \<Longrightarrow> length (filter (\<lambda>c. c \<noteq> CHR ''*'') p) \<le> length t"
  by (induction p t rule: glob.induct) (auto split: if_splits)

lemma glob_end: "glob p [] \<longleftrightarrow> dropWhile ((=) (CHR ''*'')) p = []"
  by (induction p) auto

lemma glob_literals:
  "CHR ''*'' \<notin> set l \<Longrightarrow> glob (l @ p) t \<Longrightarrow> length l \<le> length t \<and> glob p (drop (length l) t)"
proof (induction l arbitrary: t)
  case Nil
  then show ?case by simp
next
  case (Cons c l)
  then show ?case by (cases t) auto
qed

section \<open>The matcher decides the meaning\<close>

text \<open>What is left to decide in a state of the loop, and what the loop knows of the part of the
  pattern since the last star.\<close>

definition glob_left :: "string \<Rightarrow> string \<Rightarrow> nat \<Rightarrow> nat \<Rightarrow> (nat \<times> nat) option \<Rightarrow> bool" where
  "glob_left p t i j star =
     (case star of None \<Rightarrow> glob (drop i p) (drop j t)
      | Some (sp, st) \<Rightarrow> glob (CHR ''*'' # drop (sp + 1) p) (drop st t))"

definition glob_since :: "string \<Rightarrow> string \<Rightarrow> nat \<Rightarrow> nat \<Rightarrow> (nat \<times> nat) option \<Rightarrow> bool" where
  "glob_since p t i j star \<longleftrightarrow>
     (case star of None \<Rightarrow> True
      | Some (sp, st) \<Rightarrow>
          (\<exists>l. drop (sp + 1) p = l @ drop i p \<and> CHR ''*'' \<notin> set l \<and> j = st + length l \<and>
             (glob (drop (sp + 1) p) (drop st t) \<longleftrightarrow> glob (drop i p) (drop j t))))"

lemma eq_star: "eq_ignore_ascii_case (CHR ''*'') d \<longleftrightarrow> d = CHR ''*''"
proof (cases "65 \<le> (of_char d :: nat) \<and> (of_char d :: nat) \<le> 90")
  case True
  have "char_of (of_char d + 32 :: nat) \<noteq> CHR ''*''"
  proof
    assume "char_of (of_char d + 32 :: nat) = CHR ''*''"
    then have "(of_char (char_of (of_char d + 32 :: nat)) :: nat) = of_char (CHR ''*'')" by (rule arg_cong)
    with True show False by simp
  qed
  moreover have "d \<noteq> CHR ''*''" using True by auto
  ultimately have "ascii_lower_char d \<noteq> CHR ''*''" "d \<noteq> CHR ''*''"
    using True by (auto simp: ascii_lower_char_def Let_def)
  then show ?thesis by (auto simp: eq_ignore_ascii_case_def ascii_lower_char_def Let_def)
qed (auto simp: eq_ignore_ascii_case_def ascii_lower_char_def Let_def)

lemma fits_step:
  assumes "glob_fits p t i j" "j < length t" "CHR ''*'' \<notin> set t"
  shows "p ! i \<noteq> CHR ''*''" "glob (drop i p) (drop j t) \<longleftrightarrow> glob (drop (i + 1) p) (drop (j + 1) t)"
proof -
  have "t ! j \<noteq> CHR ''*''" using assms(2,3) nth_mem by fastforce
  with assms(1) show *: "p ! i \<noteq> CHR ''*''" by (auto simp: glob_fits_def eq_star)
  from assms(1) have "drop i p = p ! i # drop (i + 1) p" by (simp add: glob_fits_def Cons_nth_drop_Suc)
  moreover have "drop j t = t ! j # drop (j + 1) t" using assms(2) by (simp add: Cons_nth_drop_Suc)
  ultimately show "glob (drop i p) (drop j t) \<longleftrightarrow> glob (drop (i + 1) p) (drop (j + 1) t)"
    using assms(1) * by (auto simp: glob_fits_def)
qed

lemma mismatch:
  assumes "\<not> glob_fits p t i j" "\<not> glob_at_star p i" "j < length t" "i \<le> length p"
  shows "\<not> glob (drop i p) (drop j t)"
proof (cases "i < length p")
  case True
  then have "drop i p = p ! i # drop (i + 1) p" by (simp add: Cons_nth_drop_Suc)
  moreover have "drop j t = t ! j # drop (j + 1) t" using assms(3) by (simp add: Cons_nth_drop_Suc)
  ultimately show ?thesis using assms(1,2) True by (auto simp: glob_fits_def glob_at_star_def)
qed (use assms(3,4) in simp)

lemma glob_star_later: "glob (CHR ''*'' # p) (drop m t) \<Longrightarrow> j \<le> m \<Longrightarrow> m \<le> length t \<Longrightarrow> glob (CHR ''*'' # p) (drop j t)"
  unfolding glob_star by (elim exE conjE, rule_tac x = "k + (m - j)" in exI) (simp add: ac_simps)

lemma glob_loop_left:
  assumes "CHR ''*'' \<notin> set t"
  shows "glob_state p t i j star \<Longrightarrow> glob_since p t i j star \<Longrightarrow> glob_loop p t i j star = Some (glob_left p t i j star)"
proof (induction rule: glob_induct)
  case (at_end i j star)
  then have j: "j = length t" by (simp add: glob_state_def)
  have "glob_left p t i j star \<longleftrightarrow> glob (drop i p) []"
  proof (cases star)
    case None
    with j show ?thesis by (simp add: glob_left_def)
  next
    case (Some s)
    then obtain sp st l where s: "star = Some (sp, st)" "drop (sp + 1) p = l @ drop i p" "CHR ''*'' \<notin> set l"
      "j = st + length l" "glob (drop (sp + 1) p) (drop st t) \<longleftrightarrow> glob (drop i p) (drop j t)"
      using at_end.prems by (cases s) (auto simp: glob_since_def)
    have "glob (drop i p) []" if k: "glob (drop (sp + 1) p) (drop k (drop st t))" for k
    proof -
      have "filter (\<lambda>c. c \<noteq> CHR ''*'') l = l" using s(3) by (induction l) auto
      then have "length l + length (filter (\<lambda>c. c \<noteq> CHR ''*'') (drop i p)) \<le> length t - st"
        using glob_length [OF k] s(2) by simp
      then have "filter (\<lambda>c. c \<noteq> CHR ''*'') (drop i p) = []" using s(4) j by simp
      then show ?thesis by (simp add: glob_end filter_empty_conv dropWhile_eq_Nil_conv)
    qed
    moreover have "glob (drop (sp + 1) p) (drop 0 (drop st t))" if "glob (drop i p) []" using that s(5) j by simp
    ultimately show ?thesis by (auto simp: glob_left_def s(1) glob_star simp del: drop_drop)
  qed
  then show ?case using at_end(2) by (simp add: glob_loop_cases glob_end)
next
  case (fits i j star)
  note step = fits_step [OF fits(3,2) assms]
  have "glob_since p t (i + 1) (j + 1) star"
  proof (cases star)
    case None
    then show ?thesis by (simp add: glob_since_def)
  next
    case (Some s)
    then obtain sp st l where s: "star = Some (sp, st)" "drop (sp + 1) p = l @ drop i p" "CHR ''*'' \<notin> set l"
      "j = st + length l" "glob (drop (sp + 1) p) (drop st t) \<longleftrightarrow> glob (drop i p) (drop j t)"
      using fits.prems by (cases s) (auto simp: glob_since_def)
    have "drop i p = p ! i # drop (i + 1) p" using fits(3) by (simp add: glob_fits_def Cons_nth_drop_Suc)
    with s step show ?thesis by (auto simp: glob_since_def intro!: exI [of _ "l @ [p ! i]"])
  qed
  moreover have "glob_left p t (i + 1) (j + 1) star = glob_left p t i j star"
    using step(2) by (simp add: glob_left_def split: option.split)
  ultimately show ?case using fits by (simp add: glob_loop_cases)
next
  case (at_star i j star)
  have d: "drop i p = CHR ''*'' # drop (i + 1) p" using at_star(4) by (simp add: glob_at_star_def Cons_nth_drop_Suc [symmetric])
  have "glob_left p t (i + 1) j (Some (i, j)) = glob_left p t i j star"
  proof (cases star)
    case None
    with d show ?thesis by (simp add: glob_left_def)
  next
    case (Some s)
    then obtain sp st l where s: "star = Some (sp, st)" "drop (sp + 1) p = l @ drop i p" "CHR ''*'' \<notin> set l"
      "j = st + length l" "glob (drop (sp + 1) p) (drop st t) \<longleftrightarrow> glob (drop i p) (drop j t)"
      using at_star.prems by (cases s) (auto simp: glob_since_def)
    have "glob (drop i p) (drop j t)" if k: "glob (drop (sp + 1) p) (drop k (drop st t))" "k \<le> length (drop st t)" for k
    proof -
      have "length l \<le> length (drop (k + st) t) \<and> glob (drop i p) (drop (length l) (drop (k + st) t))"
        using glob_literals [OF s(3), of "drop i p" "drop (k + st) t"] k(1) s(2) by simp
      moreover have "length l + (k + st) \<le> length t" using calculation k(2) at_star(2) s(4) by auto
      ultimately show ?thesis
        using glob_star_later [of "drop (i + 1) p" "length l + (k + st)" t j] s(4) by (simp add: d)
    qed
    moreover have "glob (drop (sp + 1) p) (drop 0 (drop st t))" if "glob (drop i p) (drop j t)" using that s(5) by simp
    ultimately show ?thesis by (auto simp: glob_left_def s(1) glob_star [of _ "drop st t"] d simp del: drop_drop)
  qed
  moreover have "glob_since p t (i + 1) j (Some (i, j))" by (simp add: glob_since_def)
  ultimately show ?case using at_star by (simp add: glob_loop_cases)
next
  case (retry i j sp st)
  have "\<not> glob (drop (sp + 1) p) (drop st t)"
    using retry(1-4,6) mismatch by (auto simp: glob_since_def glob_state_def)
  moreover have "drop st t = t ! st # drop (st + 1) t"
    using retry(1,2) by (simp add: glob_state_def Cons_nth_drop_Suc)
  ultimately have "glob_left p t (sp + 1) (st + 1) (Some (sp, st + 1)) = glob_left p t i j (Some (sp, st))"
    by (simp add: glob_left_def)
  moreover have "glob_since p t (sp + 1) (st + 1) (Some (sp, st + 1))" by (simp add: glob_since_def)
  ultimately show ?case using retry by (simp add: glob_loop_cases)
next
  case (fail i j)
  then show ?case using mismatch by (auto simp: glob_loop_cases glob_left_def glob_state_def)
qed

text \<open>C30. On a text without a star of its own the matcher decides the meaning of the pattern: a star
  stands for any characters, a question mark for one, any other character for itself in either case. A
  star in the text is taken for a literal match of the pattern's star, which then stands for it alone
  (lemma \<open>glob_match_star_text\<close>).\<close>

theorem glob_match_meaning:
  assumes "CHR ''*'' \<notin> set text"
  shows "glob_match pattern text = Some (glob pattern text)"
  using glob_loop_left [OF assms glob_start] by (simp add: glob_match_def glob_left_def glob_since_def)

theorem glob_match_meaning_witness:
  "glob_match ''*a?.LOG'' ''bananas.log'' = Some True"
proof -
  have "CHR ''*'' \<notin> set ''bananas.log''" by simp
  moreover have "glob ''*a?.LOG'' ''bananas.log''" by code_simp
  ultimately show ?thesis using glob_match_meaning [of "''bananas.log''" "''*a?.LOG''"] by simp
qed

lemma glob_match_star_text: "glob_match ''*'' ''*a'' = Some False \<and> glob ''*'' ''*a''"
  by code_simp

section \<open>Exclusion\<close>

definition filename :: "string \<Rightarrow> string" where
  "filename rel = last (split_char (CHR 0x5C) [] rel)"

definition is_excluded :: "string \<Rightarrow> string set \<Rightarrow> string list \<Rightarrow> bool" where
  "is_excluded rel dirs globs \<longleftrightarrow>
     list_ex (\<lambda>component. component \<in> dirs) (split_char (CHR 0x5C) [] rel)
     \<or> list_ex (\<lambda>pat. glob_match pat (filename rel) = Some True \<or> glob_match pat rel = Some True) globs"

end
