(* ===== verification/Sync_Dir.thy ===== *)
theory Sync_Dir
  imports Sync_Client Sync_Batch Glob
begin

text \<open>
  Whole directories on the client: \<open>mrsh-client/src/sync/dir.rs\<close> (recursive push and pull, mirror
  deletion, the walk and the path helpers) and \<open>sync/diff.rs\<close> (\<open>sync_dir\<close>, newer wins). The state is the
  client's connection with the local disk. What the system lists below a directory, the parsed JSON of
  the server's walk, lossy decoding of file names and the iteration order of a hash map are parameters;
  the messages printed to the terminal are left out, their panics are not.
\<close>

record transfer_options =
  to_progress :: bool
  to_dry_run :: bool
  to_backup_suffix :: "string option"

record dir_sync_result =
  dr_files_total :: nat
  dr_files_transferred :: nat
  dr_bytes_total :: nat

record sync_dir_result =
  sd_pulled :: nat
  sd_pushed :: nat
  sd_unchanged :: nat
  sd_pull_bytes :: nat
  sd_push_bytes :: nat

text \<open>A directory entry as \<open>read_dir\<close> gives it: one that cannot be read, one whose type cannot be read,
  a directory that can be listed or not, anything else with its metadata (size and modification time).\<close>

datatype entry = Unread string | Untyped string string | Sub string "entry list" | Sub_Locked string string
  | Plain string "string + int \<times> int"

record dir_params =
  dp_client :: client_params
  walk_parse :: "string \<Rightarrow> walk_entry list option"
  list_local :: "disk \<Rightarrow> string \<Rightarrow> string + entry list"
  lossy :: "string \<Rightarrow> string"
  map_order :: "string list \<Rightarrow> string list"
  file_reads :: "bytes \<Rightarrow> bytes list"

type_synonym 'a dir_act = "(client \<times> disk, 'a) act"

type_synonym file_map = "(string \<times> int \<times> int) list"

definition on_client :: "'a cl \<Rightarrow> 'a dir_act" where
  "on_client m s = (case m (fst s) of (r, c) \<Rightarrow> (r, c, snd s))"

section \<open>Paths\<close>

definition to_bk :: "string \<Rightarrow> string" where
  "to_bk = map (\<lambda>c. if c = CHR ''/'' then CHR 0x5C else c)"

definition to_fwd :: "string \<Rightarrow> string" where
  "to_fwd = map (\<lambda>c. if c = CHR 0x5C then CHR ''/'' else c)"

definition is_sep :: "char \<Rightarrow> bool" where
  "is_sep c \<longleftrightarrow> c = CHR ''/'' \<or> c = CHR 0x5C"

definition trim_end_seps :: "string \<Rightarrow> string" where
  "trim_end_seps s = rev (dropWhile is_sep (rev s))"

definition normalize_with_prefixes :: "string \<Rightarrow> string \<Rightarrow> string \<Rightarrow> string" where
  "normalize_with_prefixes remote_prefix_bk remote_prefix_fwd remote_path =
     (let normalized = to_bk remote_path
      in if starts_with normalized remote_prefix_bk
         then dropWhile ((=) (CHR 0x5C)) (drop (length remote_prefix_bk) normalized)
         else
           let fwd = to_fwd remote_path
           in if starts_with fwd remote_prefix_fwd
              then to_bk (dropWhile ((=) (CHR ''/'')) (drop (length remote_prefix_fwd) fwd))
              else dropWhile ((=) (CHR 0x5C)) normalized)"

definition normalize_remote_rel_path :: "string \<Rightarrow> string \<Rightarrow> string" where
  "normalize_remote_rel_path remote_dir = normalize_with_prefixes (to_bk remote_dir) (to_fwd remote_dir)"

definition join_remote_path :: "string \<Rightarrow> string \<Rightarrow> string" where
  "join_remote_path remote_dir rel =
     (let base = trim_end_seps remote_dir; r = to_bk (dropWhile is_sep rel)
      in if r = [] then base else base @ [CHR 0x5C] @ r)"

section \<open>The local walks\<close>

text \<open>An entry below the root is known by the names that lead to it: \<open>strip_prefix(root)\<close> of its path is
  those names joined, here the prefix \<open>pre\<close> with its name.\<close>

fun walk_local :: "dir_params \<Rightarrow> string \<Rightarrow> string \<Rightarrow> entry list \<Rightarrow> (string \<times> string) list result" where
  "walk_local D remote_dir pre [] = Inr []"
| "walk_local D remote_dir pre (Unread e # es) = Inl (Failed e)"
| "walk_local D remote_dir pre (Untyped n e # es) = Inl (Failed e)"
| "walk_local D remote_dir pre (Sub_Locked n e # es) = Inl (Failed e)"
| "walk_local D remote_dir pre (Sub n kids # es) =
     and_then (walk_local D remote_dir (pre @ n @ ''/'') kids) (\<lambda>below.
     and_then (walk_local D remote_dir pre es) (\<lambda>later. Inr (below @ later)))"
| "walk_local D remote_dir pre (Plain n m # es) =
     (let remote_path = trim_end_seps remote_dir @ ''/'' @ to_fwd (lossy D (pre @ n))
      in and_then (walk_local D remote_dir pre es) (\<lambda>later. Inr ((pre @ n, remote_path) # later)))"

fun walk_local_with_mtime ::
  "dir_params \<Rightarrow> string set \<Rightarrow> string list \<Rightarrow> string \<Rightarrow> entry list \<Rightarrow> file_map \<Rightarrow> file_map result" where
  "walk_local_with_mtime D dirs globs pre [] m = Inr m"
| "walk_local_with_mtime D dirs globs pre (Unread e # es) m = Inl (Failed e)"
| "walk_local_with_mtime D dirs globs pre (Untyped n e # es) m =
     (if lossy D n \<in> dirs then walk_local_with_mtime D dirs globs pre es m else Inl (Failed e))"
| "walk_local_with_mtime D dirs globs pre (Sub_Locked n e # es) m =
     (if lossy D n \<in> dirs then walk_local_with_mtime D dirs globs pre es m else Inl (Failed e))"
| "walk_local_with_mtime D dirs globs pre (Sub n kids # es) m =
     (if lossy D n \<in> dirs then walk_local_with_mtime D dirs globs pre es m
      else and_then (walk_local_with_mtime D dirs globs (pre @ n @ ''/'') kids m)
             (walk_local_with_mtime D dirs globs pre es))"
| "walk_local_with_mtime D dirs globs pre (Plain n meta # es) m =
     (if lossy D n \<in> dirs then walk_local_with_mtime D dirs globs pre es m
      else case meta of
        Inl e \<Rightarrow> Inl (Failed e)
      | Inr (len, mtime) \<Rightarrow>
          let rel = to_bk (lossy D (pre @ n))
          in walk_local_with_mtime D dirs globs pre es
               (if is_excluded rel dirs globs then m else AList.update rel (len, mtime) m))"

definition read_root :: "dir_params \<Rightarrow> disk \<Rightarrow> string \<Rightarrow> entry list result" where
  "read_root D d dir = (case list_local D d dir of Inl e \<Rightarrow> Inl (Failed e) | Inr es \<Rightarrow> Inr es)"

definition local_files :: "dir_params \<Rightarrow> string set \<Rightarrow> string list \<Rightarrow> disk \<Rightarrow> string \<Rightarrow> file_map result" where
  "local_files D dirs globs d dir =
     and_then (read_root D d dir) (\<lambda>es. walk_local_with_mtime D dirs globs [] es [])"

section \<open>Progress\<close>

text \<open>\<open>&name[name.len() - 27..]\<close> panics inside a character.\<close>

definition display_name :: "string \<Rightarrow> string option" where
  "display_name name =
     (if length name > 30
      then let tail = drop (length name - 27) name
           in if cont (hd (as_bytes tail)) then None else Some (''...'' @ tail)
      else Some name)"

definition print_progress :: "string \<Rightarrow> unit result" where
  "print_progress name = (case display_name name of None \<Rightarrow> Inl Panicked | Some _ \<Rightarrow> Inr ())"

definition base_name :: "string \<Rightarrow> string" where
  "base_name p = last (split_char (CHR ''/'') [] p)"

section \<open>Push a directory\<close>

text \<open>A request whose outcome is ignored.\<close>

definition send_exec :: "client_params \<Rightarrow> string \<Rightarrow> client \<Rightarrow> client" where
  "send_exec C cmd c = snd (client_request C ((simple_request ''exec'')\<lparr>rq_command := Some cmd\<rparr>) c)"

definition remote_parent :: "string \<Rightarrow> string option" where
  "remote_parent p =
     (let ps = split_char (CHR ''/'') [] p in if length ps < 2 then None else Some (join ''/'' (butlast ps)))"

definition mkdir_command :: "string \<Rightarrow> string" where
  "mkdir_command dir =
     (if CHR '':'' \<in> set dir \<or> starts_with dir [CHR 0x5C, CHR 0x5C]
      then ''cmd /c if not exist \"'' @ dir @ ''\" mkdir \"'' @ dir @ ''\"''
      else ''SH:mkdir -p '' @ [CHR 0x27] @ dir @ [CHR 0x27])"

definition quoted :: "string \<Rightarrow> string" where
  "quoted p = [CHR 0x27] @ p @ [CHR 0x27]"

definition backup_remote :: "client_params \<Rightarrow> string \<Rightarrow> string \<Rightarrow> client \<Rightarrow> client" where
  "backup_remote C remote_path sfx =
     send_exec C (''if (Test-Path '' @ quoted remote_path @ '') { Move-Item -Force '' @ quoted remote_path @ '' ''
       @ quoted (remote_path @ sfx) @ '' }'')"

definition local_push :: "dir_params \<Rightarrow> string \<Rightarrow> string \<Rightarrow> push_result dir_act" where
  "local_push D local_path remote_path s =
     (let data = fs_read (snd s) local_path
      in on_client (push_file (dp_client D)
           (case data of Inr b \<Rightarrow> Some (length b) | Inl _ \<Rightarrow> None)
           (case data of Inr b \<Rightarrow> file_reads D b | Inl _ \<Rightarrow> [])
           (case data of Inr b \<Rightarrow> Some b | Inl _ \<Rightarrow> None) remote_path) s)"

fun push_each ::
  "dir_params \<Rightarrow> transfer_options \<Rightarrow> string \<Rightarrow> (string \<times> string) list \<Rightarrow> dir_sync_result \<Rightarrow> dir_sync_result dir_act" where
  "push_each D opts local_dir [] r = give r"
| "push_each D opts local_dir ((rel, remote_path) # fs) r = (\<lambda>s.
     let local_path = path_join local_dir rel in
     case fs_read (snd s) local_path of
       Inl _ \<Rightarrow> push_each D opts local_dir fs r s
     | Inr data \<Rightarrow>
         let r1 = r\<lparr>dr_bytes_total := dr_bytes_total r + length data\<rparr>
         in then_do (lift_result (if to_progress opts then print_progress (lossy D (base_name local_path)) else Inr ()))
             (\<lambda>_ s.
               let s1 = (case to_backup_suffix opts of
                           Some sfx \<Rightarrow> (backup_remote (dp_client D) remote_path sfx (fst s), snd s) | None \<Rightarrow> s)
               in then_do (local_push D local_path remote_path)
                   (\<lambda>_. push_each D opts local_dir fs (r1\<lparr>dr_files_transferred := dr_files_transferred r1 + 1\<rparr>)) s1) s)"

text \<open>The set of parent directories is a hash set: each is made once, in the order of the set.\<close>

definition push_dir :: "dir_params \<Rightarrow> transfer_options \<Rightarrow> string \<Rightarrow> string \<Rightarrow> dir_sync_result dir_act" where
  "push_dir D opts local_dir remote_dir s =
     then_do (lift_result (and_then (read_root D (snd s) local_dir) (walk_local D remote_dir []))) (\<lambda>fs s.
       let r = \<lparr>dr_files_total = length fs, dr_files_transferred = 0, dr_bytes_total = 0\<rparr>
       in if fs = [] \<or> to_dry_run opts then give r s
          else
            let parents = map_order D (remdups (List.map_filter (\<lambda>f. remote_parent (snd f)) fs));
                c1 = fold (\<lambda>dir. send_exec (dp_client D) (mkdir_command dir)) parents (fst s)
            in push_each D opts local_dir fs r (c1, snd s)) s"

section \<open>Pull a directory\<close>

definition walk_request :: "string \<Rightarrow> request" where
  "walk_request remote_dir = (simple_request ''sync'')\<lparr>rq_sync_type := Some ''walk'', rq_path := Some remote_dir\<rparr>"

definition pull_rel :: "string \<Rightarrow> string \<Rightarrow> string" where
  "pull_rel remote_dir p =
     (if starts_with p remote_dir then dropWhile is_sep (drop (length remote_dir) p) else p)"

definition make_parent :: "string \<Rightarrow> disk \<Rightarrow> io_error option \<times> disk" where
  "make_parent p d = (case path_parent p of Some q \<Rightarrow> create_dir_all q d | None \<Rightarrow> (None, d))"

definition backup_local :: "dir_params \<Rightarrow> transfer_options \<Rightarrow> string \<Rightarrow> disk \<Rightarrow> disk" where
  "backup_local D opts local_file d =
     (case to_backup_suffix opts of
        Some sfx \<Rightarrow> if path_exists d local_file then snd (fs_copy local_file (lossy D local_file @ sfx) d) else d
      | None \<Rightarrow> d)"

definition read_old :: "disk \<Rightarrow> string \<Rightarrow> bytes option" where
  "read_old d p = (case fs_read d p of Inr b \<Rightarrow> Some b | Inl _ \<Rightarrow> None)"

fun pull_each ::
  "dir_params \<Rightarrow> transfer_options \<Rightarrow> string \<Rightarrow> string \<Rightarrow> walk_entry list \<Rightarrow> dir_sync_result \<Rightarrow> dir_sync_result dir_act" where
  "pull_each D opts remote_dir local_dir [] r = give r"
| "pull_each D opts remote_dir local_dir (e # es) r = (\<lambda>(c, d).
     let rel = pull_rel remote_dir (we_path e);
         remote_file = remote_dir @ [CHR 0x5C] @ to_bk rel;
         local_file = path_join local_dir (to_fwd rel)
     in case make_parent local_file d of
          (Some er, d1) \<Rightarrow> (Inl (Failed (show_io er)), c, d1)
        | (None, d1) \<Rightarrow>
            then_do (lift_result (if to_progress opts then print_progress rel else Inr ())) (\<lambda>_ (c, d1).
              let d2 = backup_local D opts local_file d1
              in case pull (dp_client D) (read_old d2 local_file) remote_file c of
                   (Inr p, c') \<Rightarrow>
                     (case fs_write local_file (pl_data p) d2 of
                        (Some _, d3) \<Rightarrow> pull_each D opts remote_dir local_dir es r (c', d3)
                      | (None, d3) \<Rightarrow>
                          pull_each D opts remote_dir local_dir es
                            (r\<lparr>dr_bytes_total := dr_bytes_total r + length (pl_data p),
                               dr_files_transferred := dr_files_transferred r + 1\<rparr>) (c', d3))
                 | (Inl _, c') \<Rightarrow> pull_each D opts remote_dir local_dir es r (c', d2)) (c, d1))"


section \<open>Mirror: delete what is not here\<close>

definition remove_command :: "string list \<Rightarrow> string" where
  "remove_command ps = ''Remove-Item -Force '' @ join '', '' (map quoted ps)"

definition remote_extras :: "string \<Rightarrow> string set \<Rightarrow> walk_entry list \<Rightarrow> string list" where
  "remote_extras remote_dir local_set entries =
     map (join_remote_path remote_dir)
       (filter (\<lambda>rel. rel \<notin> local_set) (map (\<lambda>e. normalize_remote_rel_path remote_dir (we_path e)) entries))"

definition delete_remote_extras :: "dir_params \<Rightarrow> string \<Rightarrow> string \<Rightarrow> nat dir_act" where
  "delete_remote_extras D local_dir remote_dir =
     then_do (on_client (client_request (dp_client D) (walk_request remote_dir))) (\<lambda>resp s.
       if \<not> rs_success resp then give 0 s
       else
         let remote_entries = or_default (walk_parse D (or_default (rs_output resp)))
         in then_do (lift_result (local_files D {} [] (snd s) local_dir))
              (\<lambda>local_map (c, d).
                let to_delete = remote_extras remote_dir (fst ` set local_map) remote_entries
                in (Inr (length to_delete),
                    fold (\<lambda>ps. send_exec (dp_client D) (remove_command ps)) (chunks 50 to_delete) c, d)) s)"

section \<open>Synchronise both ways\<close>

definition SYNC_EXCLUDE_DIRS :: "string list" where
  "SYNC_EXCLUDE_DIRS = [''.git'', ''.venv'', ''.tmp'', ''.beads'', ''.claude'', ''.pytest_cache'', ''.ruff_cache'',
     ''__pycache__'', ''node_modules'', ''target'']"

definition syncignore :: "disk \<Rightarrow> string \<Rightarrow> string list" where
  "syncignore d local_dir =
     (case fs_read d (path_join local_dir ''.syncignore'') of
        Inr b \<Rightarrow> (case from_utf8 b of
                   Inr s \<Rightarrow> filter (\<lambda>l. l \<noteq> [] \<and> \<not> starts_with l ''#'') (map trim (lines s))
                 | Inl _ \<Rightarrow> [])
      | Inl _ \<Rightarrow> [])"

definition is_glob :: "string \<Rightarrow> bool" where
  "is_glob pat \<longleftrightarrow> CHR ''*'' \<in> set pat \<or> CHR ''?'' \<in> set pat"

definition all_excludes :: "disk \<Rightarrow> string \<Rightarrow> string list \<Rightarrow> string list" where
  "all_excludes d local_dir exclude = SYNC_EXCLUDE_DIRS @ syncignore d local_dir @ exclude"

definition exclude_dirs :: "disk \<Rightarrow> string \<Rightarrow> string list \<Rightarrow> string set" where
  "exclude_dirs d local_dir exclude = set (filter (\<lambda>p. \<not> is_glob p) (all_excludes d local_dir exclude))"

definition exclude_globs :: "disk \<Rightarrow> string \<Rightarrow> string list \<Rightarrow> string list" where
  "exclude_globs d local_dir exclude = filter is_glob (all_excludes d local_dir exclude)"

fun remote_files :: "string \<Rightarrow> string set \<Rightarrow> string list \<Rightarrow> walk_entry list \<Rightarrow> file_map \<Rightarrow> file_map" where
  "remote_files remote_dir dirs globs [] m = m"
| "remote_files remote_dir dirs globs (e # es) m =
     (let rel = normalize_with_prefixes (to_bk remote_dir) (to_fwd remote_dir) (we_path e)
      in remote_files remote_dir dirs globs es
           (if is_excluded rel dirs globs then m else AList.update rel (we_size e, we_mtime e) m))"

datatype verdict = Unchanged | Pull_It | Push_It

text \<open>The chain of conditions for a file of the remote map; the second and the fifth only repeat what
  an earlier or later one decides.\<close>

definition compare_file :: "int \<times> int \<Rightarrow> (int \<times> int) option \<Rightarrow> verdict" where
  "compare_file remote local =
     (case (remote, local) of
        ((rsize, rmtime), None) \<Rightarrow> Pull_It
      | ((rsize, rmtime), Some (lsize, lmtime)) \<Rightarrow>
          if rsize = lsize \<and> (rmtime = 0 \<or> lmtime = 0 \<or> rmtime = lmtime) then Unchanged
          else if rsize = lsize \<and> rmtime = lmtime then Unchanged
          else if rmtime > 0 \<and> lmtime > 0 \<and> rmtime > lmtime then Pull_It
          else if rmtime > 0 \<and> lmtime > 0 \<and> lmtime > rmtime then Push_It
          else if rsize \<noteq> lsize \<and> (rmtime = 0 \<or> lmtime = 0) then Pull_It
          else Pull_It)"

definition verdict_of :: "file_map \<Rightarrow> file_map \<Rightarrow> string \<Rightarrow> verdict" where
  "verdict_of remote local rel = compare_file (the (map_of remote rel)) (map_of local rel)"

definition sync_plan ::
  "(string list \<Rightarrow> string list) \<Rightarrow> file_map \<Rightarrow> file_map \<Rightarrow> string list \<times> string list \<times> nat" where
  "sync_plan order remote local =
     (let rels = order (map fst remote)
      in (filter (\<lambda>rel. verdict_of remote local rel = Pull_It) rels,
          filter (\<lambda>rel. verdict_of remote local rel = Push_It) rels
            @ filter (\<lambda>rel. map_of remote rel = None) (order (map fst local)),
          length (filter (\<lambda>rel. verdict_of remote local rel = Unchanged) rels)))"

fun sync_pull :: "dir_params \<Rightarrow> string \<Rightarrow> string \<Rightarrow> string list \<Rightarrow> sync_dir_result \<Rightarrow> sync_dir_result dir_act" where
  "sync_pull D remote_dir local_dir [] r = give r"
| "sync_pull D remote_dir local_dir (rel # rels) r = (\<lambda>(c, d).
     let local_path = path_join local_dir (to_fwd rel); d1 = snd (make_parent local_path d)
     in case pull (dp_client D) (read_old d1 local_path) (remote_dir @ [CHR 0x5C] @ rel) c of
          (Inr p, c') \<Rightarrow>
            (let r1 = r\<lparr>sd_pull_bytes := sd_pull_bytes r + length (pl_data p)\<rparr>
             in case fs_write local_path (pl_data p) d1 of
                  (Some er, d2) \<Rightarrow> (Inl (Failed (show_io er)), c', d2)
                | (None, d2) \<Rightarrow> sync_pull D remote_dir local_dir rels (r1\<lparr>sd_pulled := sd_pulled r1 + 1\<rparr>) (c', d2))
        | (Inl _, c') \<Rightarrow> sync_pull D remote_dir local_dir rels r (c', d1))"

fun sync_push :: "dir_params \<Rightarrow> string \<Rightarrow> string \<Rightarrow> string list \<Rightarrow> sync_dir_result \<Rightarrow> sync_dir_result dir_act" where
  "sync_push D remote_dir local_dir [] r = give r"
| "sync_push D remote_dir local_dir (rel # rels) r = (\<lambda>s.
     case local_push D (path_join local_dir (to_fwd rel)) (remote_dir @ [CHR 0x5C] @ rel) s of
       (Inr p, s') \<Rightarrow>
         sync_push D remote_dir local_dir rels
           (r\<lparr>sd_pushed := sd_pushed r + 1, sd_push_bytes := sd_push_bytes r + pu_bytes_sent p\<rparr>) s'
     | (Inl _, s') \<Rightarrow> sync_push D remote_dir local_dir rels r s')"

definition sync_dir ::
  "dir_params \<Rightarrow> transfer_options \<Rightarrow> string list \<Rightarrow> string \<Rightarrow> string \<Rightarrow> sync_dir_result dir_act" where
  "sync_dir D opts exclude local_dir remote_dir s =
     (let dirs = exclude_dirs (snd s) local_dir exclude; globs = exclude_globs (snd s) local_dir exclude
      in then_do (on_client (client_request (dp_client D) (walk_request remote_dir))) (\<lambda>resp.
         then_do (lift_result (check_response resp)) (\<lambda>_ s.
           let remote = remote_files remote_dir dirs globs (or_default (walk_parse D (or_default (rs_output resp)))) []
           in then_do (lift_result (local_files D dirs globs (snd s) local_dir)) (\<lambda>local.
                case sync_plan (map_order D) remote local of
                  (to_pull, to_push, unchanged) \<Rightarrow>
                    let r = \<lparr>sd_pulled = 0, sd_pushed = 0, sd_unchanged = unchanged, sd_pull_bytes = 0, sd_push_bytes = 0\<rparr>
                    in if to_dry_run opts then give r
                       else then_do (sync_pull D remote_dir local_dir to_pull r)
                              (sync_push D remote_dir local_dir to_push)) s)) s)"

section \<open>Newer wins\<close>

definition same_file :: "int \<times> int \<Rightarrow> int \<times> int \<Rightarrow> bool" where
  "same_file r l \<longleftrightarrow> fst r = fst l \<and> (snd r = 0 \<or> snd l = 0 \<or> snd r = snd l)"

definition older :: "int \<times> int \<Rightarrow> int \<times> int \<Rightarrow> bool" where
  "older r l \<longleftrightarrow> 0 < snd r \<and> snd r < snd l"

lemma compare_file_cases:
  "compare_file r None = Pull_It"
  "compare_file r (Some l) = (if same_file r l then Unchanged else if older r l then Push_It else Pull_It)"
  by (cases r; cases l; auto simp: compare_file_def same_file_def older_def)+

text \<open>What a two-way synchronisation plans for each name, whatever order the hash maps give: a file
  that only one side has goes to the other; of a file both have, equal size with equal or unknown times
  leaves both alone, a known older time of the server's makes it a push, and all else a pull. No name is
  both pulled and pushed, or twice.\<close>

theorem sync_plan_newer_wins:
  assumes "\<And>xs. set (order xs) = set xs" "\<And>xs. distinct xs \<Longrightarrow> distinct (order xs)"
    and "distinct (map fst remote)" "distinct (map fst local)"
    and "sync_plan order remote local = (to_pull, to_push, unchanged)"
  shows "(rel \<in> set to_pull \<longleftrightarrow> (\<exists>r. map_of remote rel = Some r \<and>
      (case map_of local rel of None \<Rightarrow> True | Some l \<Rightarrow> \<not> same_file r l \<and> \<not> older r l))) \<and>
    (rel \<in> set to_push \<longleftrightarrow> (\<exists>l. map_of local rel = Some l \<and>
      (case map_of remote rel of None \<Rightarrow> True | Some r \<Rightarrow> \<not> same_file r l \<and> older r l))) \<and>
    distinct (to_pull @ to_push) \<and>
    unchanged = card {rel. \<exists>r l. map_of remote rel = Some r \<and> map_of local rel = Some l \<and> same_file r l}"
proof -
  have dom: "map_of m x = None \<longleftrightarrow> x \<notin> fst ` set m" for m :: file_map and x by (simp add: map_of_eq_None_iff)
  have plan: "to_pull = filter (\<lambda>rel. verdict_of remote local rel = Pull_It) (order (map fst remote))"
    "to_push = filter (\<lambda>rel. verdict_of remote local rel = Push_It) (order (map fst remote))
       @ filter (\<lambda>rel. map_of remote rel = None) (order (map fst local))"
    "unchanged = length (filter (\<lambda>rel. verdict_of remote local rel = Unchanged) (order (map fst remote)))"
    using assms(5) by (auto simp: sync_plan_def Let_def)
  have pull: "rel \<in> set to_pull \<longleftrightarrow> (\<exists>r. map_of remote rel = Some r \<and>
      (case map_of local rel of None \<Rightarrow> True | Some l \<Rightarrow> \<not> same_file r l \<and> \<not> older r l))" for rel
    using dom [of remote rel] plan
    by (cases "map_of remote rel"; cases "map_of local rel") (auto simp: assms(1) verdict_of_def compare_file_cases)
  have push: "rel \<in> set to_push \<longleftrightarrow> (\<exists>l. map_of local rel = Some l \<and>
      (case map_of remote rel of None \<Rightarrow> True | Some r \<Rightarrow> \<not> same_file r l \<and> older r l))" for rel
    using dom [of remote rel] dom [of local rel] plan
    by (cases "map_of remote rel"; cases "map_of local rel") (auto simp: assms(1) verdict_of_def compare_file_cases)
  have dist: "distinct (to_pull @ to_push)"
    using plan assms(2) [OF assms(3)] assms(2) [OF assms(4)]
    by (auto simp: assms(1) dom)
  have eq: "{rel. \<exists>r l. map_of remote rel = Some r \<and> map_of local rel = Some l \<and> same_file r l}
      = set (filter (\<lambda>rel. verdict_of remote local rel = Unchanged) (order (map fst remote)))" (is "?A = ?B")
  proof (rule set_eqI)
    fix rel
    show "rel \<in> ?A \<longleftrightarrow> rel \<in> ?B"
      using dom [of remote rel]
      by (cases "map_of remote rel"; cases "map_of local rel") (auto simp: assms(1) verdict_of_def compare_file_cases)
  qed
  have "card (set (filter Q (order (map fst remote)))) = length (filter Q (order (map fst remote)))" for Q
    using assms(2) [OF assms(3)] by (intro distinct_card) simp
  then have "unchanged = card ?A" by (simp only: plan(3) eq)
  with pull push dist show ?thesis by blast
qed

theorem sync_plan_newer_wins_witness:
  "''a'' \<in> set (fst (sync_plan rev [(''a'', 1, 5), (''b'', 1, 5)] [(''a'', 2, 3), (''c'', 1, 1)]))"
  using sync_plan_newer_wins [of rev "[(''a'', 1, 5), (''b'', 1, 5)]" "[(''a'', 2, 3), (''c'', 1, 1)]"
      "[''b'', ''a'']" "[''c'']" 0 "''a''"]
  by (simp add: sync_plan_def verdict_of_def compare_file_def Let_def)

section \<open>Which texts name one file\<close>

text \<open>The components of a path from its end, as the system resolves it where no symbolic link is: empty ones
  and \<open>.\<close> stay, \<open>..\<close> goes up.\<close>

definition step_into :: "bool \<Rightarrow> string \<Rightarrow> string list \<Rightarrow> string list" where
  "step_into absolute n up =
     (if trivial_part n then up
      else if n = ''..'' then (case up of [] \<Rightarrow> if absolute then [] else [n] | x # r \<Rightarrow> if x = n then n # up else r)
      else n # up)"

definition resolved_path :: "string \<Rightarrow> bool \<times> string list" where
  "resolved_path p = (starts_with p ''/'', fold (step_into (starts_with p ''/'')) (split_char (CHR ''/'') [] p) [])"

definition plain_name :: "string \<Rightarrow> bool" where
  "plain_name n \<longleftrightarrow> \<not> trivial_part n \<and> n \<noteq> ''..''"

definition plain_rel :: "string \<Rightarrow> bool" where
  "plain_rel rel \<longleftrightarrow> CHR ''/'' \<notin> set rel \<and> list_all plain_name (split_char (CHR 0x5C) [] rel)"

lemma split_to_fwd:
  "CHR ''/'' \<notin> set s \<Longrightarrow> split_char (CHR ''/'') cur (to_fwd s) = split_char (CHR 0x5C) cur s"
  by (induction "CHR 0x5C" cur s rule: split_char.induct) (auto simp: to_fwd_def)

lemma steps_into_plain: "list_all plain_name ns \<Longrightarrow> fold (step_into absolute) ns up = rev ns @ up"
  by (induction ns arbitrary: up) (auto simp: plain_name_def step_into_def)

lemma plain_rel_front:
  assumes "plain_rel rel"
  shows "\<exists>c s. to_fwd rel = c # s \<and> c \<noteq> CHR ''/''"
proof (cases rel)
  case Nil
  with assms show ?thesis by (simp add: plain_rel_def plain_name_def trivial_part_def)
next
  case (Cons c s)
  with assms have "c \<noteq> CHR 0x5C" by (auto simp: plain_rel_def plain_name_def trivial_part_def)
  with assms Cons show ?thesis by (auto simp: plain_rel_def to_fwd_def)
qed

lemma resolved_join:
  assumes "plain_rel rel"
  shows "resolved_path (path_join dir (to_fwd rel))
    = (fst (resolved_path dir), rev (split_char (CHR 0x5C) [] rel) @ snd (resolved_path dir))"
proof -
  obtain c s where f: "to_fwd rel = c # s" "c \<noteq> CHR ''/''" using plain_rel_front [OF assms] by blast
  have sp: "split_char (CHR ''/'') [] (to_fwd rel) = split_char (CHR 0x5C) [] rel" "list_all plain_name (split_char (CHR 0x5C) [] rel)"
    using assms by (simp_all add: plain_rel_def split_to_fwd)
  consider (bare) "dir = []" | (closed) d where "dir = d @ ''/''" | (rest) "dir \<noteq> []" "\<not> ends_with dir ''/''"
    by (auto simp: ends_with_def suffix_def)
  then show ?thesis
  proof cases
    case bare
    then show ?thesis using f sp
      by (simp add: path_join_def starts_with_def resolved_path_def steps_into_plain step_into_def trivial_part_def)
  next
    case closed
    then have "path_join dir (to_fwd rel) = d @ CHR ''/'' # to_fwd rel"
      using f by (simp add: path_join_def starts_with_def ends_with_def)
    moreover have "starts_with (d @ CHR ''/'' # x) ''/'' = starts_with dir ''/''" for x
      using closed by (cases d) (auto simp: starts_with_def)
    moreover have "split_char (CHR ''/'') [] dir = split_char (CHR ''/'') [] d @ [[]]"
      using closed split_char_append [of "CHR ''/''" "[]" d "[]"] by simp
    ultimately show ?thesis
      using sp by (simp add: resolved_path_def split_char_append steps_into_plain) (simp add: step_into_def trivial_part_def)
  next
    case rest
    then have "path_join dir (to_fwd rel) = dir @ CHR ''/'' # to_fwd rel"
      using f by (simp add: path_join_def starts_with_def)
    moreover have "starts_with (dir @ x) ''/'' = starts_with dir ''/''" for x
      using rest by (cases dir) (auto simp: starts_with_def)
    ultimately show ?thesis using sp by (simp add: resolved_path_def split_char_append steps_into_plain)
  qed
qed

lemma plain_path_inject:
  assumes "plain_rel a" "plain_rel b" "resolved_path (path_join dir (to_fwd a)) = resolved_path (path_join dir (to_fwd b))"
  shows "a = b"
proof -
  have "split_char (CHR 0x5C) [] a = split_char (CHR 0x5C) [] b"
    using assms(3) by (simp add: resolved_join [OF assms(1)] resolved_join [OF assms(2)])
  then show ?thesis using join_split_char [of "CHR 0x5C" "[]"] by (metis append_Nil rev.simps(1))
qed

section \<open>What a synchronisation leaves alone\<close>

definition clean_rel :: "string \<Rightarrow> bool" where
  "clean_rel r \<longleftrightarrow> CHR ''/'' \<notin> set r \<and> \<not> starts_with r [CHR 0x5C]"

lemma dropWhile_front: "\<not> starts_with (dropWhile ((=) c) s) [c]"
  by (induction s) (auto simp: starts_with_def)

lemma to_bk_no_slash: "CHR ''/'' \<notin> set (to_bk s)"
  by (auto simp: to_bk_def)

lemma to_bk_front: "CHR 0x5C \<notin> set x \<Longrightarrow> x = [] \<or> hd x \<noteq> CHR ''/'' \<Longrightarrow> \<not> starts_with (to_bk x) [CHR 0x5C]"
  by (cases x) (auto simp: starts_with_def to_bk_def)

lemma normalize_clean: "clean_rel (normalize_with_prefixes a b p)"
proof -
  have sub: "CHR ''/'' \<notin> set (dropWhile P (drop n (to_bk s)))" for P n s
    using to_bk_no_slash [of s] by (metis in_set_dropD set_dropWhileD)
  have "\<not> starts_with (to_bk (dropWhile ((=) (CHR ''/'')) (drop n (to_fwd s)))) [CHR 0x5C]" for n s
  proof -
    have "CHR 0x5C \<notin> set (to_fwd s)" by (auto simp: to_fwd_def)
    then have "CHR 0x5C \<notin> set (dropWhile ((=) (CHR ''/'')) (drop n (to_fwd s)))"
      by (metis in_set_dropD set_dropWhileD)
    moreover have "x = [] \<or> hd x \<noteq> CHR ''/''" if "x = dropWhile ((=) (CHR ''/'')) (drop n (to_fwd s))" for x
      using that hd_dropWhile [of "(=) (CHR ''/'')" "drop n (to_fwd s)"] by metis
    ultimately show ?thesis by (intro to_bk_front) blast+
  qed
  moreover have "\<not> starts_with (dropWhile ((=) (CHR 0x5C)) x) [CHR 0x5C]" for x by (rule dropWhile_front)
  moreover have "CHR ''/'' \<notin> set (dropWhile P (to_bk x))" for P x using sub [of P 0 x] by simp
  ultimately show ?thesis
    unfolding clean_rel_def normalize_with_prefixes_def Let_def using sub to_bk_no_slash by presburger
qed

lemma make_parent_frame: "files (snd (make_parent p d)) = files d"
proof (cases "path_parent p")
  case (Some q)
  then show ?thesis using create_dir_all_frame [of q d] by (cases "create_dir_all q d") (simp add: make_parent_def)
qed (simp add: make_parent_def)

lemma sync_pull_frame:
  assumes "\<And>rel. rel \<in> set rels \<Longrightarrow> path_join local_dir (to_fwd rel) \<noteq> p"
  shows "files (snd (snd (sync_pull D remote_dir local_dir rels r (c, d)))) p = files d p"
  using assms
proof (induction rels arbitrary: r c d)
  case Nil
  then show ?case by (simp add: give_def)
next
  case (Cons rel rels)
  have "files (snd (fs_write (path_join local_dir (to_fwd rel)) b (snd (make_parent (path_join local_dir (to_fwd rel)) d)))) p
      = files d p" for b
    using Cons.prems [of rel] by (simp add: fs_write_files make_parent_frame)
  with Cons show ?case
    by (auto simp: Let_def make_parent_frame split: prod.split sum.split option.split)
      (metis make_parent_frame snd_conv)+
qed

lemma on_client_disk: "snd (snd (on_client m s)) = snd s"
  by (simp add: on_client_def split: prod.split)

lemma sync_push_frame: "snd (snd (sync_push D remote_dir local_dir rels r s)) = snd s"
proof (induction rels arbitrary: r s)
  case Nil
  then show ?case by (simp add: give_def)
next
  case (Cons rel rels)
  have "snd (snd (local_push D a b s)) = snd s" for a b by (simp add: local_push_def Let_def on_client_disk)
  with Cons show ?case by (auto split: prod.split sum.split) (metis snd_conv)+
qed

lemma map_of_update_list: "map_of (AList.update k v m) x = (if x = k then Some v else map_of m x)"
  by (simp add: update_conv')

lemma remote_files_entry:
  "map_of (remote_files remote_dir dirs globs es m) rel = Some v \<Longrightarrow>
     map_of m rel = Some v \<or> (\<exists>e \<in> set es. normalize_remote_rel_path remote_dir (we_path e) = rel \<and> v = (we_size e, we_mtime e))"
proof (induction es arbitrary: m)
  case Nil
  then show ?case by simp
next
  case (Cons e es)
  show ?case
  proof (cases "is_excluded (normalize_remote_rel_path remote_dir (we_path e)) dirs globs")
    case True
    with Cons show ?thesis by (fastforce simp: Let_def normalize_remote_rel_path_def)
  next
    case False
    then have "map_of (AList.update (normalize_remote_rel_path remote_dir (we_path e)) (we_size e, we_mtime e) m) rel = Some v
        \<or> (\<exists>e \<in> set es. normalize_remote_rel_path remote_dir (we_path e) = rel \<and> v = (we_size e, we_mtime e))"
      using Cons.prems by (intro Cons.IH) (simp add: Let_def normalize_remote_rel_path_def)
    then show ?thesis by (auto simp: map_of_update_list split: if_splits)
  qed
qed

lemma remote_files_distinct: "distinct (map fst m) \<Longrightarrow> distinct (map fst (remote_files remote_dir dirs globs es m))"
  by (induction es arbitrary: m) (auto simp: Let_def distinct_update)

text \<open>C29. A two-way synchronisation never touches a local file that the server's listing does not beat:
  whatever else the server answers to the walk and to every later request, and however the run ends, a
  local file which no entry of the listing names with another size or time, or only with an older time, has
  the content it had, under every text that names it. The names of the listing and of the file are taken to
  be plain (no component that is empty, \<open>.\<close> or \<open>..\<close>); without that an entry such as \<open>./f\<close> has the file
  overwritten. Names that differ only in case are two files, and the local tree has no symbolic links.\<close>

theorem sync_dir_keeps_newer:
  assumes "\<And>xs. set (map_order D xs) = set xs"
    and "local_files D (exclude_dirs d local_dir exclude) (exclude_globs d local_dir exclude) d local_dir = Inr local"
    and "map_of local rel = Some l" "plain_rel rel"
    and "\<And>resp c1 e. client_request (dp_client D) (walk_request remote_dir) c = (Inr resp, c1) \<Longrightarrow>
      e \<in> set (or_default (walk_parse D (or_default (rs_output resp)))) \<Longrightarrow>
      plain_rel (normalize_remote_rel_path remote_dir (we_path e)) \<and>
      (normalize_remote_rel_path remote_dir (we_path e) = rel \<longrightarrow>
        same_file (we_size e, we_mtime e) l \<or> older (we_size e, we_mtime e) l)"
    and "resolved_path p = resolved_path (path_join local_dir (to_fwd rel))"
  shows "files (snd (snd (sync_dir D opts exclude local_dir remote_dir (c, d)))) p = files d p"
proof -
  obtain r0 c0 where req: "client_request (dp_client D) (walk_request remote_dir) c = (r0, c0)"
    by (cases "client_request (dp_client D) (walk_request remote_dir) c")
  show ?thesis
  proof (cases "\<exists>resp. r0 = Inr resp \<and> check_response resp = Inr ()")
    case False
    with req show ?thesis
      by (auto simp: sync_dir_def Let_def then_do_def on_client_def lift_result_def split: sum.splits)
  next
    case True
    then obtain resp where r0: "r0 = Inr resp" and ok: "check_response resp = Inr ()" by auto
    define remote where "remote = remote_files remote_dir (exclude_dirs d local_dir exclude)
      (exclude_globs d local_dir exclude) (or_default (walk_parse D (or_default (rs_output resp)))) []"
    obtain to_pull to_push n where plan: "sync_plan (map_order D) remote local = (to_pull, to_push, n)"
      by (cases "sync_plan (map_order D) remote local") auto
    have "rel' \<in> set to_pull \<Longrightarrow> path_join local_dir (to_fwd rel') \<noteq> p" for rel'
    proof
      assume rel': "rel' \<in> set to_pull" and p: "path_join local_dir (to_fwd rel') = p"
      then obtain v where v: "map_of remote rel' = Some v" "verdict_of remote local rel' = Pull_It"
        using plan assms(1) by (auto simp: sync_plan_def Let_def dest!: weak_map_of_SomeI)
      then obtain e where e: "e \<in> set (or_default (walk_parse D (or_default (rs_output resp))))"
        "normalize_remote_rel_path remote_dir (we_path e) = rel'" "v = (we_size e, we_mtime e)"
        by (auto simp: remote_def dest: remote_files_entry)
      note beaten = assms(5) [OF req [unfolded r0] e(1)]
      have "rel' = rel"
        using plain_path_inject [of rel' rel local_dir] beaten e(2) assms(4,6) p by simp
      with beaten e v assms(3) show False
        by (auto simp: verdict_of_def compare_file_cases split: if_splits)
    qed
    then show ?thesis
      using req r0 ok plan assms(2) sync_pull_frame [of to_pull local_dir p] sync_push_frame
      by (auto simp: sync_dir_def Let_def then_do_def on_client_def remote_def [symmetric] give_def
          split: prod.splits sum.splits) (metis snd_conv)+
  qed
qed

section \<open>Remote names\<close>

lemma to_bk_append: "to_bk (a @ b) = to_bk a @ to_bk b"
  by (simp add: to_bk_def)

lemma to_bk_sep [simp]: "to_bk (CHR 0x5C # s) = CHR 0x5C # to_bk s"
  by (simp add: to_bk_def)

lemma to_bk_id: "CHR ''/'' \<notin> set r \<Longrightarrow> to_bk r = r"
  by (induction r) (auto simp: to_bk_def)

lemma join_clean:
  assumes "clean_rel rel" "rel \<noteq> []"
  shows "join_remote_path dir rel = trim_end_seps dir @ [CHR 0x5C] @ rel"
proof -
  have "dropWhile is_sep rel = rel"
    using assms by (cases rel) (auto simp: clean_rel_def starts_with_def is_sep_def)
  with assms show ?thesis by (simp add: join_remote_path_def to_bk_id clean_rel_def)
qed

definition one_separator :: "string \<Rightarrow> bool" where
  "one_separator dir \<longleftrightarrow> dir = trim_end_seps dir \<or> (\<exists>c. is_sep c \<and> dir = trim_end_seps dir @ [c])"

text \<open>The name the client builds for a file below the remote directory is taken apart again to the
  same relative name, in either style of separators, unless the directory is written with two or more
  separators at its end.\<close>

theorem remote_name_roundtrip:
  assumes "clean_rel rel" "rel \<noteq> []" "one_separator dir"
  shows "normalize_remote_rel_path dir (join_remote_path dir rel) = rel"
proof -
  let ?b = "to_bk (trim_end_seps dir)"
  have bk: "to_bk (join_remote_path dir rel) = ?b @ [CHR 0x5C] @ rel"
    using assms(1) by (simp add: join_clean [OF assms(1,2)] to_bk_append to_bk_id to_bk_sep clean_rel_def)
  have rel: "dropWhile ((=) (CHR 0x5C)) rel = rel"
    using assms(1,2) by (cases rel) (auto simp: clean_rel_def starts_with_def)
  have "to_bk dir = ?b \<or> to_bk dir = ?b @ [CHR 0x5C]"
  proof -
    consider "dir = trim_end_seps dir" | c where "is_sep c" "dir = trim_end_seps dir @ [c]"
      using assms(3) by (auto simp: one_separator_def)
    then show ?thesis
    proof cases
      case 1
      then show ?thesis by metis
    next
      case 2
      then have "to_bk dir = ?b @ to_bk [c]" by (metis to_bk_append)
      with 2(1) show ?thesis by (auto simp: to_bk_def is_sep_def)
    qed
  qed
  then show ?thesis
    by (auto simp: normalize_remote_rel_path_def normalize_with_prefixes_def Let_def bk rel starts_with_def)
qed

theorem remote_name_roundtrip_witness:
  "normalize_remote_rel_path ''/srv/d/'' (join_remote_path ''/srv/d/'' [CHR ''a'', CHR 0x5C, CHR ''b'']) = [CHR ''a'', CHR 0x5C, CHR ''b'']"
proof (rule remote_name_roundtrip)
  show "one_separator ''/srv/d/''"
    by (simp add: one_separator_def trim_end_seps_def is_sep_def)
qed (simp_all add: clean_rel_def starts_with_def)

text \<open>Mirror deletion spares what is here: whatever the server lists, the paths handed to
  \<open>Remove-Item\<close> do not include the remote path of a file of the local tree; and every file the server
  lists that the local tree lacks is among them.\<close>

theorem mirror_deletes_extras:
  assumes "clean_rel rel" "rel \<noteq> []"
  shows "join_remote_path dir rel \<in> set (remote_extras dir local_set entries) \<longleftrightarrow>
    rel \<notin> local_set \<and> (\<exists>e \<in> set entries. normalize_remote_rel_path dir (we_path e) = rel)"
proof -
  have inj: "join_remote_path dir a = join_remote_path dir rel \<longleftrightarrow> a = rel" if "clean_rel a" for a
  proof (cases "a = []")
    case True
    then show ?thesis using assms(2) by (simp add: join_clean [OF assms]) (simp add: join_remote_path_def to_bk_def)
  next
    case False
    with that show ?thesis by (simp add: join_clean assms)
  qed
  have "clean_rel (normalize_remote_rel_path dir p)" for p
    unfolding normalize_remote_rel_path_def by (rule normalize_clean)
  moreover have "join_remote_path dir rel \<in> set (remote_extras dir local_set entries) \<longleftrightarrow>
      (\<exists>e \<in> set entries. normalize_remote_rel_path dir (we_path e) \<notin> local_set \<and>
         join_remote_path dir (normalize_remote_rel_path dir (we_path e)) = join_remote_path dir rel)"
  proof -
    have "x \<in> set (map f (filter Q (map g es))) \<longleftrightarrow> (\<exists>e \<in> set es. Q (g e) \<and> f (g e) = x)"
      for x :: string and f :: "string \<Rightarrow> string" and Q and g :: "walk_entry \<Rightarrow> string" and es by auto
    then show ?thesis unfolding remote_extras_def .
  qed
  ultimately show ?thesis using inj by metis
qed

theorem mirror_deletes_extras_witness:
  "join_remote_path ''/srv/d'' ''old'' \<in> set (remote_extras ''/srv/d'' {''new''}
     [\<lparr>we_path = ''/srv/d/new'', we_size = 1, we_mtime = 5\<rparr>, \<lparr>we_path = ''/srv/d/old'', we_size = 2, we_mtime = 5\<rparr>])"
proof -
  have "clean_rel ''old''" by (simp add: clean_rel_def starts_with_def)
  moreover have "normalize_remote_rel_path ''/srv/d'' ''/srv/d/old'' = ''old''" by code_simp
  ultimately show ?thesis
    using mirror_deletes_extras [of "''old''" "''/srv/d''" "{''new''}" "[\<lparr>we_path = ''/srv/d/new'', we_size = 1, we_mtime = 5\<rparr>,
       \<lparr>we_path = ''/srv/d/old'', we_size = 2, we_mtime = 5\<rparr>]"] by simp
qed

section \<open>Pulling a directory gives the server's files\<close>

definition remote_of :: "string \<Rightarrow> walk_entry \<Rightarrow> string" where
  "remote_of remote_dir e = remote_dir @ [CHR 0x5C] @ to_bk (pull_rel remote_dir (we_path e))"

definition local_of :: "string \<Rightarrow> string \<Rightarrow> walk_entry \<Rightarrow> string" where
  "local_of remote_dir local_dir e = path_join local_dir (to_fwd (pull_rel remote_dir (we_path e)))"




















section \<open>Sample runs\<close>

definition file_entry :: "string \<Rightarrow> int \<Rightarrow> int \<Rightarrow> walk_entry" where
  "file_entry p n t = \<lparr>we_path = p, we_size = n, we_mtime = t\<rparr>"

definition sample_dirs :: "walk_entry list \<Rightarrow> dir_params" where
  "sample_dirs es = \<lparr>dp_client = sample_client, walk_parse = (\<lambda>_. Some es),
     list_local = (\<lambda>_ _. Inr [Plain ''f'' (Inr (3, 9))]), lossy = (\<lambda>s. s), map_order = rev,
     file_reads = chunks PUSH_CHUNK_SIZE\<rparr>"

definition local_disk :: disk where
  "local_disk = \<lparr>files = [''l/f'' \<mapsto> [7]], folders = {''l''}, fault = (\<lambda>_. None), other_device = (\<lambda>_ _. False)\<rparr>"

definition no_options :: transfer_options where
  "no_options = \<lparr>to_progress = False, to_dry_run = False, to_backup_suffix = None\<rparr>"

theorem sync_dir_keeps_newer_witness:
  "files (snd (snd (sync_dir (sample_dirs [file_entry ''/r/f'' 5 4]) no_options [] ''l'' ''/r''
     (\<lparr>inp = send_message (as_bytes ''ready''), outp = [], server_caps = []\<rparr>, local_disk)))) ''l/f'' = Some [7]"
proof -
  let ?D = "sample_dirs [file_entry ''/r/f'' 5 4]"
  have "local_files ?D (exclude_dirs local_disk ''l'' []) (exclude_globs local_disk ''l'' []) local_disk ''l'' = Inr [(''f'', 3, 9)]"
  proof -
    have "files local_disk (path_join ''l'' ''.syncignore'') = None" by code_simp
    then have "syncignore local_disk ''l'' = []" by (simp add: syncignore_def fs_read_def local_disk_def split: sum.split)
    then have "exclude_dirs local_disk ''l'' [] = set SYNC_EXCLUDE_DIRS" "exclude_globs local_disk ''l'' [] = []"
      by (simp_all add: exclude_dirs_def exclude_globs_def all_excludes_def SYNC_EXCLUDE_DIRS_def is_glob_def)
    moreover have "to_bk ''f'' = ''f''" "split_char (CHR 0x5C) [] ''f'' = [''f'']" "''f'' \<notin> set SYNC_EXCLUDE_DIRS"
      by code_simp+
    ultimately show ?thesis
      by (simp add: local_files_def read_root_def sample_dirs_def is_excluded_def)
  qed
  moreover have "plain_rel ''f''" by code_simp
  moreover have "plain_rel (normalize_remote_rel_path ''/r'' (we_path e)) \<and> older (we_size e, we_mtime e) (3, 9)"
    if "e \<in> set (or_default (walk_parse ?D x))" for e x
  proof -
    have "normalize_remote_rel_path ''/r'' ''/r/f'' = ''f''" by code_simp
    with that \<open>plain_rel ''f''\<close> show ?thesis by (simp add: sample_dirs_def file_entry_def or_default_def older_def)
  qed
  moreover have "set (map_order ?D xs) = set xs" for xs by (simp add: sample_dirs_def)
  moreover have "resolved_path ''l/f'' = resolved_path (path_join ''l'' (to_fwd ''f''))" by code_simp
  moreover have "files local_disk ''l/f'' = Some [7]" by (simp add: local_disk_def)
  ultimately show ?thesis
    using sync_dir_keeps_newer [of ?D local_disk "''l''" "[]" "[(''f'', 3, 9)]" "''f''" "(3, 9)" "''/r''"
        "\<lparr>inp = send_message (as_bytes ''ready''), outp = [], server_caps = []\<rparr>" "''l/f''" no_options] by simp
qed





section \<open>Lemmas on defects\<close>

text \<open>With the progress bar a name of more than 30 bytes whose 27th byte from the end is inside a
  character stops the whole transfer.\<close>

lemma progress_panics:
  "to_progress opts \<Longrightarrow> 30 < length rel \<Longrightarrow> cont (hd (as_bytes (drop (length rel - 27) rel))) \<Longrightarrow>
   pull_rel remote_dir (we_path e) = rel \<Longrightarrow>
   make_parent (path_join local_dir (to_fwd rel)) d = (None, d1) \<Longrightarrow>
     pull_each D opts remote_dir local_dir (e # es) r (c, d) = (Inl Panicked, c, d1)"
  by (simp add: print_progress_def display_name_def Let_def bail_def)

text \<open>Every file of a directory is asked for under a name with a backslash, which on a Unix server is
  another file.\<close>

lemma remote_of_backslash: "\<exists>n. remote_of remote_dir e = remote_dir @ CHR 0x5C # n \<and> CHR ''/'' \<notin> set n"
  using to_bk_no_slash by (auto simp: remote_of_def)

text \<open>A name the server made up reaches any local path.\<close>

lemma pull_rel_escapes:
  "local_of ''/srv'' ''/home/u/d'' (file_entry ''../.ssh/authorized_keys'' 1 1) = ''/home/u/d/../.ssh/authorized_keys''"
  by code_simp

text \<open>The name \<open>./f\<close> is not the key of \<open>f\<close> in the map of the local files, but its target is that file.\<close>

lemma dot_name_is_another_key:
  "normalize_remote_rel_path ''/r'' ''/r/./f'' = CHR ''.'' # CHR 0x5C # ''f''"
  "resolved_path (path_join ''l'' (to_fwd (normalize_remote_rel_path ''/r'' ''/r/./f''))) = resolved_path ''l/f''"
  by code_simp+

text \<open>A file name with a quote ends the quoted argument of the command that deletes it.\<close>

lemma remove_command_injects:
  "remove_command [''x'' @ [CHR 0x27] @ ''; Remove-Item -Recurse C: #'']
     = ''Remove-Item -Force '' @ [CHR 0x27] @ ''x'' @ [CHR 0x27] @ ''; Remove-Item -Recurse C: #'' @ [CHR 0x27]"
  by (simp add: remove_command_def quoted_def)

end
