(* ===== verification/Update_Status.thy ===== *)
theory Update_Status
  imports File_System
begin

text \<open>
  \<open>mrsh-server/src/update_status.rs\<close>: the outcome of the last self-update with the state of the watchdog,
  kept as text in a file of the data directory, and the marker of an update in flight. The format and
  its reader, the operations on the files, and the state machine that decides on a rollback. Times are
  \<open>i64\<close> seconds; reading the clock is an argument \<open>t\<close>.
\<close>

section \<open>The record and its text\<close>

definition ROLLBACK_FAILURE_THRESHOLD :: u32 where
  "ROLLBACK_FAILURE_THRESHOLD = 3"

record update_status =
  us_status :: string
  us_ts :: int
  watchdog_active :: bool
  watchdog_started_at :: int
  heartbeat_failures :: u32
  previous_binary_path :: string

definition status_record :: "string \<Rightarrow> int \<Rightarrow> string \<Rightarrow> update_status" where
  "status_record st t prev = \<lparr>us_status = st, us_ts = t, watchdog_active = False, watchdog_started_at = 0,
     heartbeat_failures = 0, previous_binary_path = prev\<rparr>"

definition never :: update_status where
  "never = status_record ''never'' 0 []"

definition plain :: "char \<Rightarrow> bool" where
  "plain c \<longleftrightarrow> c \<notin> {CHR 0x22, CHR 0x5C, CHR 0x0A, CHR 0x0D, CHR 0x09}"

definition sanitize_reason :: "string \<Rightarrow> string" where
  "sanitize_reason reason = take_chars 80 (filter plain reason)"

definition success_now :: "int \<Rightarrow> update_status" where
  "success_now t = status_record ''success'' t []"

definition failed_now :: "int \<Rightarrow> string \<Rightarrow> update_status" where
  "failed_now t reason = status_record (''failed:'' @ sanitize_reason reason) t []"

definition show_bool :: "bool \<Rightarrow> string" where
  "show_bool b = (if b then ''true'' else ''false'')"

text \<open>The six members of the text, joined by a comma and a space.\<close>

definition json_member :: "string \<Rightarrow> string \<Rightarrow> string" where
  "json_member key v = ''\"'' @ key @ ''\": '' @ v"

definition json_quoted :: "string \<Rightarrow> string" where
  "json_quoted v = ''\"'' @ v @ ''\"''"

definition members :: "update_status \<Rightarrow> string list" where
  "members s =
     [json_member ''status'' (json_quoted (us_status s)),
      json_member ''ts'' (show_int (us_ts s)),
      json_member ''watchdog_active'' (show_bool (watchdog_active s)),
      json_member ''watchdog_started_at'' (show_int (watchdog_started_at s)),
      json_member ''consecutive_heartbeat_failures'' (show_nat (unat (heartbeat_failures s))),
      json_member ''previous_binary_path'' (json_quoted (sanitize_reason (previous_binary_path s)))]"

definition us_encode :: "update_status \<Rightarrow> string" where
  "us_encode s = ''{'' @ join '', '' (members s) @ ''}''"

fun split_commas :: "bool \<Rightarrow> string \<Rightarrow> string \<Rightarrow> string list" where
  "split_commas in_quotes cur [] = (if cur = [] then [] else [rev cur])"
| "split_commas in_quotes cur (c # cs) =
     (if c = CHR 0x22 then split_commas (\<not> in_quotes) (c # cur) cs
      else if c = CHR '','' \<and> \<not> in_quotes then rev cur # split_commas in_quotes [] cs
      else split_commas in_quotes (c # cur) cs)"

definition split_top_level_commas :: "string \<Rightarrow> string list" where
  "split_top_level_commas s = split_commas False [] s"

text \<open>What has been read so far: the status, the time, and the members that have a default.\<close>

type_synonym partial_status = "string option \<times> int option \<times> update_status"

definition parse_part :: "string \<Rightarrow> partial_status \<Rightarrow> partial_status option" where
  "parse_part part acc =
     (let p = trim part in
      case find_str '':'' p of
        None \<Rightarrow> None
      | Some colon \<Rightarrow>
          let key = trim_matches (CHR 0x22) (trim (take colon p));
              val = trim (drop (colon + 1) p)
          in Some (case acc of (status, ts, s) \<Rightarrow>
               if key = ''status'' then (Some (trim_matches (CHR 0x22) val), ts, s)
               else if key = ''ts'' then (status, parse_int (2 ^ 63) val, s)
               else if key = ''watchdog_active'' then (status, ts, s\<lparr>watchdog_active := (val = ''true'')\<rparr>)
               else if key = ''watchdog_started_at''
               then (status, ts, s\<lparr>watchdog_started_at := (case parse_int (2 ^ 63) val of Some n \<Rightarrow> n | None \<Rightarrow> 0)\<rparr>)
               else if key = ''consecutive_heartbeat_failures''
               then (status, ts, s\<lparr>heartbeat_failures :=
                       (case parse_uint (2 ^ 32) val of Some n \<Rightarrow> word_of_nat n | None \<Rightarrow> 0)\<rparr>)
               else if key = ''previous_binary_path''
               then (status, ts, s\<lparr>previous_binary_path := trim_matches (CHR 0x22) val\<rparr>)
               else (status, ts, s)))"

fun parse_parts :: "string list \<Rightarrow> partial_status \<Rightarrow> partial_status option" where
  "parse_parts [] acc = Some acc"
| "parse_parts (p # ps) acc = (case parse_part p acc of None \<Rightarrow> None | Some acc' \<Rightarrow> parse_parts ps acc')"

definition us_parse :: "string \<Rightarrow> update_status option" where
  "us_parse text =
     (let s = trim text in
      if \<not> starts_with s ''{'' \<or> \<not> ends_with s ''}'' then None
      else case parse_parts (split_top_level_commas (butlast (tl s))) (None, None, never) of
             Some (Some status, ts, r) \<Rightarrow>
               Some (r\<lparr>us_status := status, us_ts := (case ts of Some n \<Rightarrow> n | None \<Rightarrow> 0)\<rparr>)
           | _ \<Rightarrow> None)"

section \<open>The files\<close>

definition status_path :: "string \<Rightarrow> string" where
  "status_path dir = path_join dir ''last_update.json''"

definition status_tmp :: "string \<Rightarrow> string" where
  "status_tmp dir = path_join dir ''last_update.json.tmp''"

definition pending_path :: "string \<Rightarrow> string" where
  "pending_path dir = path_join dir ''last_update.pending''"

definition us_read :: "string \<Rightarrow> disk \<Rightarrow> update_status" where
  "us_read dir d =
     (case read_to_string d (status_path dir) of
        Inr text \<Rightarrow> (case us_parse text of Some s \<Rightarrow> s | None \<Rightarrow> never)
      | Inl _ \<Rightarrow> never)"

definition us_write :: "string \<Rightarrow> update_status \<Rightarrow> disk \<Rightarrow> io_error option \<times> disk" where
  "us_write dir s d =
     (case create_dir_all dir d of (_, d0) \<Rightarrow>
      case fs_write (status_tmp dir) (as_bytes (us_encode s)) d0 of
        (Some e, d1) \<Rightarrow> (Some e, d1)
      | (None, d1) \<Rightarrow>
          (case fs_rename (status_tmp dir) (status_path dir) d1 of
             (None, d2) \<Rightarrow> (None, d2)
           | (Some _, d2) \<Rightarrow>
               (case fs_remove (status_tmp dir) d2 of (_, d3) \<Rightarrow>
                  fs_write (status_path dir) (as_bytes (us_encode s)) d3)))"

definition write_pending :: "string \<Rightarrow> string \<Rightarrow> disk \<Rightarrow> io_error option \<times> disk" where
  "write_pending dir new_binary d =
     (case create_dir_all dir d of (_, d0) \<Rightarrow> fs_write (pending_path dir) (as_bytes new_binary) d0)"

definition clear_pending :: "string \<Rightarrow> disk \<Rightarrow> disk" where
  "clear_pending dir d = snd (fs_remove (pending_path dir) d)"

definition has_pending :: "string \<Rightarrow> disk \<Rightarrow> bool" where
  "has_pending dir d \<longleftrightarrow> fault d (pending_path dir) = None \<and> path_exists d (pending_path dir)"

definition reconcile_on_startup :: "string \<Rightarrow> int \<Rightarrow> disk \<Rightarrow> update_status \<times> disk" where
  "reconcile_on_startup dir t d =
     (if has_pending dir d then
        let s = (us_read dir d)\<lparr>us_status := ''success'', us_ts := t, heartbeat_failures := 0\<rparr>
        in (s, clear_pending dir (snd (us_write dir s d)))
      else (us_read dir d, d))"

definition record_update_failure :: "string \<Rightarrow> int \<Rightarrow> string \<Rightarrow> disk \<Rightarrow> io_error option \<times> disk" where
  "record_update_failure dir t reason d = us_write dir (failed_now t reason) (clear_pending dir d)"

definition arm_watchdog :: "string \<Rightarrow> int \<Rightarrow> string \<Rightarrow> disk \<Rightarrow> io_error option \<times> disk" where
  "arm_watchdog dir t prev_bak_path d =
     us_write dir ((us_read dir d)\<lparr>watchdog_active := True, watchdog_started_at := t, heartbeat_failures := 0,
                     previous_binary_path := prev_bak_path\<rparr>) d"

datatype watchdog_action = Continue | Clear_Watchdog | Rollback_Triggered

definition saturating_succ :: "u32 \<Rightarrow> u32" where
  "saturating_succ n = (if n = - 1 then - 1 else n + 1)"

definition record_heartbeat_outcome :: "string \<Rightarrow> bool \<Rightarrow> disk \<Rightarrow> watchdog_action \<times> disk" where
  "record_heartbeat_outcome dir success d =
     (let s = us_read dir d in
      if \<not> watchdog_active s then (Continue, d)
      else if success then
        (Clear_Watchdog, snd (us_write dir (s\<lparr>watchdog_active := False, heartbeat_failures := 0\<rparr>) d))
      else
        let n = saturating_succ (heartbeat_failures s)
        in if ROLLBACK_FAILURE_THRESHOLD \<le> n
           then (Rollback_Triggered, snd (us_write dir (s\<lparr>watchdog_active := False, heartbeat_failures := 0\<rparr>) d))
           else (Continue, snd (us_write dir (s\<lparr>heartbeat_failures := n\<rparr>) d)))"


section \<open>Reading back what was written\<close>

text \<open>A record whose text the reader understands: no quote in the status, times within \<open>i64\<close>.\<close>

definition i64 :: "int \<Rightarrow> bool" where
  "i64 n \<longleftrightarrow> - (2 ^ 63) \<le> n \<and> n < 2 ^ 63"

definition readable :: "update_status \<Rightarrow> bool" where
  "readable s \<longleftrightarrow> CHR 0x22 \<notin> set (us_status s) \<and> is_str (us_status s) \<and> i64 (us_ts s) \<and> i64 (watchdog_started_at s)
     \<and> is_str (previous_binary_path s)"

definition sanitized :: "update_status \<Rightarrow> update_status" where
  "sanitized s = s\<lparr>previous_binary_path := sanitize_reason (previous_binary_path s)\<rparr>"

definition closed :: "string \<Rightarrow> bool" where
  "closed f \<longleftrightarrow> f \<noteq> [] \<and> (\<forall>cur rest. split_commas False cur (f @ rest) = split_commas False (rev f @ cur) rest)"

lemma split_quoted:
  "CHR 0x22 \<notin> set f \<Longrightarrow> split_commas True cur (f @ rest) = split_commas True (rev f @ cur) rest"
  by (induction f arbitrary: cur) auto

lemma split_bare:
  "CHR 0x22 \<notin> set f \<Longrightarrow> CHR '','' \<notin> set f \<Longrightarrow> split_commas False cur (f @ rest) = split_commas False (rev f @ cur) rest"
  by (induction f arbitrary: cur) auto

lemma closed_member:
  assumes "CHR 0x22 \<notin> set k" "CHR 0x22 \<notin> set v"
  shows "closed (json_member k (json_quoted v))" "CHR '','' \<notin> set v \<Longrightarrow> closed (json_member k v)"
  using assms by (simp_all add: closed_def json_member_def json_quoted_def split_quoted split_bare)

text \<open>Fields joined by a comma and a space come apart with the space in front.\<close>

lemma split_joined:
  "list_all closed fs \<Longrightarrow> fs \<noteq> [] \<Longrightarrow>
     split_commas False cur (join '', '' fs) = (rev cur @ hd fs) # map ((#) (CHR '' '')) (tl fs)"
proof (induction fs arbitrary: cur)
  case (Cons f fs)
  have f: "f \<noteq> []" "split_commas False cur (f @ r) = split_commas False (rev f @ cur) r" for r
    using Cons.prems(1) by (auto simp: closed_def)
  show ?case
  proof (cases fs)
    case Nil
    with f(1) f(2) [of "[]"] show ?thesis by (simp add: rev_swap)
  next
    case (Cons g gs)
    with Cons.IH [of "'' ''"] Cons.prems f(2) [of "'', '' @ join '', '' fs"] show ?thesis by simp
  qed
qed simp

lemma trim_after_space: "trim (CHR '' '' # json_member k v) = trim (json_member k v)"
  by (rule trim_space)

lemma trim_member: "v \<noteq> [] \<Longrightarrow> graphic (last v) \<Longrightarrow> trim (json_member k v) = json_member k v"
  by (rule trim_graphic_ends) (simp_all add: json_member_def graphic_def)

lemma find_colon: "CHR '':'' \<notin> set k \<Longrightarrow> find_str '':'' (k @ CHR '':'' # s) = Some (length k)"
  by (induction k) auto

lemma parse_part_member:
  assumes "CHR '':'' \<notin> set k" "CHR 0x22 \<notin> set k" "v \<noteq> []" "graphic (hd v)" "graphic (last v)"
    and "p = json_member k v \<or> p = CHR '' '' # json_member k v"
  shows "parse_part p (status, ts, s) = Some
    (if k = ''status'' then (Some (trim_matches (CHR 0x22) v), ts, s)
     else if k = ''ts'' then (status, parse_int (2 ^ 63) v, s)
     else if k = ''watchdog_active'' then (status, ts, s\<lparr>watchdog_active := (v = ''true'')\<rparr>)
     else if k = ''watchdog_started_at''
     then (status, ts, s\<lparr>watchdog_started_at := (case parse_int (2 ^ 63) v of Some n \<Rightarrow> n | None \<Rightarrow> 0)\<rparr>)
     else if k = ''consecutive_heartbeat_failures''
     then (status, ts, s\<lparr>heartbeat_failures :=
             (case parse_uint (2 ^ 32) v of Some n \<Rightarrow> word_of_nat n | None \<Rightarrow> 0)\<rparr>)
     else if k = ''previous_binary_path''
     then (status, ts, s\<lparr>previous_binary_path := trim_matches (CHR 0x22) v\<rparr>)
     else (status, ts, s))"
proof -
  have p: "trim p = (''\"'' @ k @ ''\"'') @ CHR '':'' # ('' '' @ v)"
    using assms(6) trim_member [OF assms(3,5)] trim_after_space [of k v] by (auto simp: json_member_def)
  have c: "find_str '':'' (trim p) = Some (length (''\"'' @ k @ ''\"''))"
    unfolding p using assms(1) by (intro find_colon) auto
  have q: "trim (''\"'' @ k @ ''\"'') = ''\"'' @ k @ ''\"''" by (rule trim_graphic_ends) (simp_all add: graphic_def)
  have v: "trim v = v" using assms(3-5) by (rule trim_graphic_ends)
  have "take (length (''\"'' @ k @ ''\"'')) (trim p) = ''\"'' @ k @ ''\"''"
    "drop (length (''\"'' @ k @ ''\"'') + 1) (trim p) = '' '' @ v" by (simp_all add: p)
  then have key: "trim_matches (CHR 0x22) (trim (take (length (''\"'' @ k @ ''\"'')) (trim p))) = k"
    and val: "trim (drop (length (''\"'' @ k @ ''\"'') + 1) (trim p)) = v"
    using trim_matches_quoted [OF assms(2)] q v trim_space [of v] by simp_all
  show ?thesis by (simp only: parse_part_def Let_def c option.case key val prod.case)
qed

lemmas parse_first = parse_part_member [OF _ _ _ _ _ disjI1 [OF refl]]
lemmas parse_next = parse_part_member [OF _ _ _ _ _ disjI2 [OF refl]]

lemma sanitized_text: "CHR 0x22 \<notin> set (sanitize_reason r)"
  by (auto simp: sanitize_reason_def plain_def dest: take_chars_set)

lemma token_ends: "token s \<Longrightarrow> s \<noteq> [] \<and> graphic (hd s) \<and> graphic (last s)"
  by (auto simp: token_def list_all_iff)

lemma number_closed: "token v \<Longrightarrow> CHR 0x22 \<notin> set v \<Longrightarrow> CHR '','' \<notin> set v \<Longrightarrow> CHR 0x22 \<notin> set k \<Longrightarrow> closed (json_member k v)"
  by (simp add: closed_member)

lemma show_nat_chars: "c \<in> set (show_nat n) \<Longrightarrow> 48 \<le> (of_char c :: nat) \<and> (of_char c :: nat) < 58"
  by (auto dest!: show_nat_digits simp: take_bit_nat_eq_self)

lemma show_nat_no: "CHR 0x22 \<notin> set (show_nat n)" "CHR '','' \<notin> set (show_nat n)"
  using show_nat_chars [of _ n] by (fastforce)+

lemma show_int_no: "CHR 0x22 \<notin> set (show_int n)" "CHR '','' \<notin> set (show_int n)"
  using show_nat_no by (auto simp: show_int_def)

lemma show_bool_ends: "show_bool b \<noteq> []" "graphic (hd (show_bool b))" "graphic (last (show_bool b))"
    "CHR 0x22 \<notin> set (show_bool b)" "CHR '','' \<notin> set (show_bool b)" "show_bool b = ''true'' \<longleftrightarrow> b"
  by (auto simp: show_bool_def graphic_def)

lemma json_quoted_ends: "json_quoted v \<noteq> []" "graphic (hd (json_quoted v))" "graphic (last (json_quoted v))"
  by (auto simp: json_quoted_def graphic_def)

lemma us_parse_encode:
  assumes "CHR 0x22 \<notin> set (us_status s)" "i64 (us_ts s)" "i64 (watchdog_started_at s)"
  shows "us_parse (us_encode s) = Some (sanitized s)"
proof -
  have t: "trim (us_encode s) = us_encode s"
    by (rule trim_graphic_ends) (simp_all add: us_encode_def graphic_def)
  have closed: "list_all closed (members s)"
    using assms(1) by (simp add: members_def closed_member sanitized_text show_int_no show_nat_no show_bool_ends)
  have "split_top_level_commas (butlast (tl (us_encode s)))
      = hd (members s) # map ((#) (CHR '' '')) (tl (members s))"
    using split_joined [OF closed, of "[]"]
    by (simp add: us_encode_def butlast_append split_top_level_commas_def members_def)
  moreover have "parse_int (2 ^ 63) (show_int n) = Some n" if "i64 n" for n
    using that by (intro parse_int_show) (simp_all add: i64_def)
  moreover have "parse_uint (2 ^ 32) (show_nat (unat w)) = Some (unat w)" for w :: u32
    by (rule parse_uint_show) (use unsigned_less [of w] in simp)
  moreover note token_ends [OF show_int_token] token_ends [OF show_nat_token] show_bool_ends json_quoted_ends
  moreover have "trim_matches (CHR 0x22) (json_quoted v) = v" if "CHR 0x22 \<notin> set v" for v
    using trim_matches_quoted [OF that] by (simp add: json_quoted_def)
  ultimately have "parse_parts (split_top_level_commas (butlast (tl (us_encode s)))) (None, None, never)
      = Some (Some (us_status s), Some (us_ts s), (sanitized s)\<lparr>us_status := ''never'', us_ts := 0\<rparr>)"
    using assms sanitized_text [of "previous_binary_path s"]
    by (simp add: members_def parse_first parse_next sanitized_def never_def status_record_def)
  with t show ?thesis by (simp add: us_parse_def us_encode_def starts_with_def ends_with_def suffix_def sanitized_def)
qed


section \<open>What a write leaves on the disk\<close>

lemma is_str_join: "is_str sep \<Longrightarrow> list_all is_str xs \<Longrightarrow> is_str (join sep xs)"
  by (induction xs) (auto simp: join_Cons is_str_append)

lemma token_is_str: "token s \<Longrightarrow> is_str s"
  by (rule is_ascii_is_str) (auto simp: token_def is_ascii_def graphic_def list_all_iff)

lemma is_str_member: "is_ascii k \<Longrightarrow> is_str v \<Longrightarrow> is_str (json_member k v)"
  using is_str_append [of "''\"'' @ k @ ''\": ''" v] is_ascii_is_str [of "''\"'' @ k @ ''\": ''"]
  by (simp add: json_member_def is_ascii_def)

lemma is_str_quoted: "is_str v \<Longrightarrow> is_str (json_quoted v)"
  unfolding json_quoted_def by (intro is_str_append) (simp_all add: is_ascii_def)

lemma is_str_sanitized: "is_str r \<Longrightarrow> is_str (sanitize_reason r)"
  unfolding sanitize_reason_def
  by (intro is_str_take_chars is_str_filter) (auto simp: plain_def)

lemma is_str_encode: "readable s \<Longrightarrow> is_str (us_encode s)"
proof -
  assume "readable s"
  then have "list_all is_str (members s)"
    using token_is_str [OF show_nat_token] token_is_str [OF show_int_token]
    by (auto simp: members_def readable_def show_bool_def is_str_sanitized intro!: is_str_member is_str_quoted)
      (simp_all add: is_ascii_def)
  then show ?thesis unfolding us_encode_def by (intro is_str_append is_str_join) (simp_all add: is_ascii_def)
qed

lemma paths_distinct: "status_tmp dir \<noteq> status_path dir" "pending_path dir \<noteq> status_path dir"
  by (auto simp: status_tmp_def status_path_def pending_path_def path_join_def starts_with_def)

lemma path_lengths: "length (status_tmp dir) = length (status_path dir) + 4" "length dir < length (status_path dir)"
  by (simp_all add: status_tmp_def status_path_def path_join_def starts_with_def)

lemma us_read_cong: "fs_read d' (status_path dir) = fs_read d (status_path dir) \<Longrightarrow> us_read dir d' = us_read dir d"
  by (simp add: us_read_def read_to_string_def)

lemma us_read_text:
  assumes "fs_read d (status_path dir) = Inr (as_bytes (us_encode s))" "readable s"
  shows "us_read dir d = sanitized s"
  using assms us_parse_encode [of s] is_str_encode [OF assms(2)]
  by (simp add: us_read_def read_to_string_def readable_def)

text \<open>A write that succeeds leaves the record, one that fails leaves what was there, or nothing readable.\<close>

lemma us_write_read:
  assumes "us_write dir s d = (r, d')" "readable s"
  shows "us_read dir d' = (if r = None then sanitized s else us_read dir d) \<or> r \<noteq> None \<and> us_read dir d' = never"
proof -
  let ?path = "status_path dir" and ?tmp = "status_tmp dir" and ?b = "as_bytes (us_encode s)"
  obtain r0 d0 where d0: "create_dir_all dir d = (r0, d0)" by fastforce
  then have read0: "us_read dir d0 = us_read dir d \<or> us_read dir d0 = never"
    using create_dir_all_read [of dir d r0 d0 ?path]
    by (auto simp: us_read_def read_to_string_def)
  obtain r1 d1 where d1: "fs_write ?tmp ?b d0 = (r1, d1)" by fastforce
  have same: "fs_read d1 ?path = fs_read d0 ?path"
    using fs_read_write_other [OF paths_distinct(1) [symmetric], of dir ?b d0] d1 by simp
  show ?thesis
  proof (cases r1)
    case (Some e)
    with assms(1) d0 d1 have "r = Some e \<and> d' = d1" by (simp add: us_write_def)
    with read0 us_read_cong [OF same] show ?thesis by auto
  next
    case None
    then have tmp: "write_error d0 ?tmp = None" "d1 = d0\<lparr>files := (files d0)(?tmp \<mapsto> ?b)\<rparr>"
      using d1 by (auto simp: fs_write_def split: option.splits)
    obtain r2 d2 where d2: "fs_rename ?tmp ?path d1 = (r2, d2)" by fastforce
    show ?thesis
    proof (cases r2)
      case None
      have "?tmp \<notin> folders d1" using tmp by (auto simp: write_error_def split: option.splits if_splits)
      with fs_rename_target [of ?tmp ?path d1 d2] d2 None paths_distinct(1)
      have "files d2 ?path = files d1 ?tmp \<and> ?path \<notin> folders d2 \<and> fault d2 ?path = None" by simp
      then have "fs_read d2 ?path = Inr ?b" by (simp add: fs_read_def tmp(2))
      moreover have "r = None \<and> d' = d2" using assms(1) d0 d1 d2 \<open>r1 = None\<close> None by (simp add: us_write_def)
      ultimately show ?thesis using us_read_text assms(2) by simp
    next
      case (Some e)
      then have "d2 = d1" using d2 fs_rename_error by metis
      obtain r3 d3 where d3: "fs_remove ?tmp d2 = (r3, d3)" by fastforce
      have eq: "fs_write ?path ?b d3 = (r, d')"
        using assms(1) d0 d1 d2 d3 \<open>r1 = None\<close> Some by (simp add: us_write_def)
      show ?thesis
      proof (cases r)
        case None
        then have "fs_read d' ?path = Inr ?b"
          using eq fs_read_write [of d3 ?path ?b] by (auto simp: fs_write_def split: option.splits)
        with None us_read_text assms(2) show ?thesis by simp
      next
        case (Some e')
        then have "d' = d3" using eq by (auto simp: fs_write_def split: option.splits)
        moreover have "fs_read d3 ?path = fs_read d2 ?path"
          using fs_remove_read [OF paths_distinct(1) [symmetric], of dir d2] d3 by simp
        ultimately have "us_read dir d' = us_read dir d0"
          using same \<open>d2 = d1\<close> by (intro us_read_cong) simp
        with read0 Some show ?thesis by auto
      qed
    qed
  qed
qed

section \<open>When the status can be written\<close>

definition ready :: "string \<Rightarrow> disk \<Rightarrow> bool" where
  "ready dir d \<longleftrightarrow> (dir = [] \<or> dir \<in> folders d \<and> fault d dir = None)
     \<and> write_error d (status_path dir) = None \<and> write_error d (status_tmp dir) = None"

lemma ready_dir: "ready dir d \<Longrightarrow> create_dir_all dir d = (None, d)"
  by (subst create_dir_all.simps) (auto simp: ready_def mkdir_or_there_def mkdir_def path_exists_def)

lemma ready_cong: "folders d' = folders d \<Longrightarrow> fault d' = fault d \<Longrightarrow> ready dir d' = ready dir d"
  by (simp add: ready_def write_error_cong [of d' d])

lemma status_tmp_path: "status_tmp dir = status_path dir @ ''.tmp''"
  by (simp add: status_tmp_def status_path_def path_join_def starts_with_def)

lemma ready_rename:
  assumes r: "ready dir d" and m: "fs_rename (status_tmp dir) (status_path dir) d = (None, d')"
  shows "ready dir d'"
proof -
  let ?path = "status_path dir" and ?tmp = "status_tmp dir"
  have tmp: "?tmp = ?path @ CHR ''.'' # ''tmp''" by (simp add: status_tmp_path)
  have none: "?path \<notin> folders d" "?tmp \<notin> folders d"
    using r by (auto simp: ready_def write_error_def split: option.splits if_splits)
  have nu: "\<not> under ?path ?tmp" by (auto simp: tmp under_def starts_with_def)
  have gone: "?tmp \<notin> folders d'" "?path \<notin> folders d'" and fault: "fault d' = fault d"
    using fs_rename_source [OF m paths_distinct(1) nu] fs_rename_target [OF m paths_distinct(1) none(2)] by simp_all
  have same: "q \<in> folders d'" if "path_parent p = Some q" "p = ?path \<or> p = ?tmp" "q \<in> folders d" for p q
  proof -
    have l: "length q < length p" "prefix q p" using that path_parent_shorter path_parent_prefix by auto
    have "q \<noteq> ?path" using none(1) that(3) by auto
    have "prefix q (?path @ CHR ''.'' # ''tmp'')" using l(2) that(2) tmp by (auto intro: prefix_order.trans)
    then have "\<not> under ?path q" using \<open>q \<noteq> ?path\<close> by (intro not_under_ext) auto
    moreover have "\<not> under ?tmp q" using l(1) that(2) by (intro short_not_under) (auto simp: path_lengths)
    ultimately show ?thesis using fs_rename_folders [OF m] that(3) by simp
  qed
  have "write_error d' p = None" if "p = ?path \<or> p = ?tmp" for p
  proof -
    have "write_error d p = None" using that r by (auto simp: ready_def)
    with that gone same fault show ?thesis
      by (auto simp: write_error_def parent_there_def split: option.splits if_splits)
  qed
  moreover have "dir \<in> folders d'" if "dir \<in> folders d"
    using that path_lengths [of dir] fs_rename_folders [OF m] by (simp add: short_not_under)
  ultimately show ?thesis using r fault by (auto simp: ready_def)
qed

lemma us_write_ready:
  assumes "ready dir d"
  obtains d' where "us_write dir s d = (None, d')" "ready dir d'"
proof -
  let ?b = "as_bytes (us_encode s)"
  obtain d1 where d1: "fs_write (status_tmp dir) ?b d = (None, d1)"
    using assms by (auto simp: ready_def fs_write_def)
  have r1: "ready dir d1" using assms d1 fs_write_frame [of "status_tmp dir" ?b d] ready_cong [of d1 d] by simp
  obtain r2 d2 where d2: "fs_rename (status_tmp dir) (status_path dir) d1 = (r2, d2)" by fastforce
  show ?thesis
  proof (cases r2)
    case None
    with d1 d2 ready_dir [OF assms] ready_rename [OF r1] show ?thesis by (intro that) (auto simp: us_write_def)
  next
    case (Some e)
    obtain r3 d3 where d3: "fs_remove (status_tmp dir) d2 = (r3, d3)" by fastforce
    have "d2 = d1" using Some d2 fs_rename_error by metis
    then have "ready dir d3" using r1 fs_remove_frame [OF d3] ready_cong [of d3 d2] by simp
    then obtain d4 where "fs_write (status_path dir) ?b d3 = (None, d4)" by (auto simp: ready_def fs_write_def)
    moreover from this have "ready dir d4"
      using \<open>ready dir d3\<close> fs_write_frame [of "status_path dir" ?b d3] ready_cong [of d4 d3] by simp
    ultimately show ?thesis using d1 d2 d3 Some ready_dir [OF assms] by (intro that) (auto simp: us_write_def)
  qed
qed


section \<open>The record in every history\<close>

lemma sanitize_fixed: "list_all plain r \<Longrightarrow> char_count r \<le> 80 \<Longrightarrow> sanitize_reason r = r"
  using filter_True [of r plain] by (simp add: sanitize_reason_def take_chars_all list_all_iff)

lemma sanitize_plain: "list_all plain (sanitize_reason r)" "char_count (sanitize_reason r) \<le> 80"
  by (auto simp: sanitize_reason_def list_all_iff char_count_take_chars dest: take_chars_set)

lemma sanitize_idem [simp]: "sanitize_reason (sanitize_reason r) = sanitize_reason r"
  by (rule sanitize_fixed) (rule sanitize_plain)+

text \<open>What the file holds: a record that survives being written again, with a counter below the threshold.\<close>

definition well_formed :: "update_status \<Rightarrow> bool" where
  "well_formed s \<longleftrightarrow> readable s \<and> sanitize_reason (previous_binary_path s) = previous_binary_path s
     \<and> heartbeat_failures s < ROLLBACK_FAILURE_THRESHOLD"

lemma well_formed_never [simp]: "well_formed never"
  by (simp add: well_formed_def never_def status_record_def readable_def i64_def sanitize_reason_def
      ROLLBACK_FAILURE_THRESHOLD_def is_ascii_is_str is_ascii_def)

lemma well_formed_sanitized:
  "readable s \<Longrightarrow> heartbeat_failures s < ROLLBACK_FAILURE_THRESHOLD \<Longrightarrow> well_formed (sanitized s)"
  by (simp add: well_formed_def sanitized_def readable_def is_str_sanitized)

lemma sanitized_well_formed: "well_formed s \<Longrightarrow> sanitized s = s"
  by (simp add: sanitized_def well_formed_def)

lemma readable_failed: "is_str reason \<Longrightarrow> i64 t \<Longrightarrow> readable (failed_now t reason)"
  using sanitized_text [of reason] is_str_append [of "''failed:''", OF _ is_str_sanitized [of reason]]
  by (simp add: failed_now_def status_record_def readable_def i64_def is_ascii_def)

lemma us_write_any:
  assumes "readable s"
  shows "us_read dir (snd (us_write dir s d)) \<in> {sanitized s, us_read dir d, never}"
proof -
  obtain r d' where w: "us_write dir s d = (r, d')" by fastforce
  have "us_read dir d' = sanitized s \<or> us_read dir d' = us_read dir d \<or> us_read dir d' = never"
    using us_write_read [OF w assms] by metis
  then show ?thesis by (simp only: w snd_conv insert_iff empty_iff simp_thms)
qed

lemma us_write_well_formed:
  assumes "well_formed (us_read dir d)" "readable s" "heartbeat_failures s < ROLLBACK_FAILURE_THRESHOLD"
  shows "well_formed (us_read dir (snd (us_write dir s d)))"
  using us_write_any [OF assms(2), of dir d] assms well_formed_sanitized [OF assms(2,3)]
  by (metis insertE singletonD well_formed_never)

lemma clear_pending_read [simp]: "us_read dir (clear_pending dir d) = us_read dir d"
  unfolding clear_pending_def by (intro us_read_cong fs_remove_read paths_distinct(2) [symmetric])

lemma write_pending_read: "us_read dir (snd (write_pending dir new d)) \<in> {us_read dir d, never}"
proof -
  obtain r0 d0 where d0: "create_dir_all dir d = (r0, d0)" by fastforce
  then have "us_read dir d0 \<in> {us_read dir d, never}"
    using create_dir_all_read [of dir d r0 d0 "status_path dir"] by (auto simp: us_read_def read_to_string_def)
  moreover have "us_read dir (snd (fs_write (pending_path dir) (as_bytes new) d0)) = us_read dir d0"
    by (intro us_read_cong fs_read_write_other paths_distinct(2) [symmetric])
  ultimately show ?thesis using d0 by (simp add: write_pending_def)
qed

text \<open>The histories of a data directory: the operations in any order, on a disk whose writes may fail, between
  changes elsewhere that leave the status file alone.\<close>

inductive status_run :: "string \<Rightarrow> disk \<Rightarrow> bool" for dir where
  start: "fs_read d (status_path dir) = Inl Not_Found \<Longrightarrow> status_run dir d"
| elsewhere: "status_run dir d \<Longrightarrow> fs_read d' (status_path dir) = fs_read d (status_path dir) \<Longrightarrow> status_run dir d'"
| pending: "status_run dir d \<Longrightarrow> status_run dir (snd (write_pending dir new d))"
| startup: "status_run dir d \<Longrightarrow> i64 t \<Longrightarrow> status_run dir (snd (reconcile_on_startup dir t d))"
| failure: "status_run dir d \<Longrightarrow> i64 t \<Longrightarrow> is_str reason \<Longrightarrow> status_run dir (snd (record_update_failure dir t reason d))"
| arm: "status_run dir d \<Longrightarrow> i64 t \<Longrightarrow> is_str bak \<Longrightarrow> status_run dir (snd (arm_watchdog dir t bak d))"
| heartbeat: "status_run dir d \<Longrightarrow> status_run dir (snd (record_heartbeat_outcome dir ok d))"

lemma next_failure:
  "n < ROLLBACK_FAILURE_THRESHOLD \<Longrightarrow> saturating_succ n = n + 1 \<and> unat (n + 1) = unat n + 1"
proof -
  assume "n < ROLLBACK_FAILURE_THRESHOLD"
  then have n: "unat n < 3" by (simp add: ROLLBACK_FAILURE_THRESHOLD_def word_less_nat_alt)
  then have "n \<noteq> - 1" by (auto simp: unsigned_minus_1_eq_mask mask_eq_exp_minus_1)
  with n show ?thesis by (simp add: saturating_succ_def unat_word_ariths)
qed

lemma status_run_well_formed: "status_run dir d \<Longrightarrow> well_formed (us_read dir d)"
proof (induction rule: status_run.induct)
  case (start d)
  then show ?case by (simp add: us_read_def read_to_string_def)
next
  case (elsewhere d d')
  then show ?case using us_read_cong [of d' dir d] by metis
next
  case (pending d new)
  then show ?case using write_pending_read [of dir new d] by (metis insertE singletonD well_formed_never)
next
  case (startup d t)
  then have "readable ((us_read dir d)\<lparr>us_status := ''success'', us_ts := t, heartbeat_failures := 0\<rparr>)"
    by (simp add: well_formed_def readable_def is_ascii_def)
  with startup show ?case
    by (auto simp: reconcile_on_startup_def Let_def ROLLBACK_FAILURE_THRESHOLD_def intro!: us_write_well_formed)
next
  case (failure d t reason)
  have "heartbeat_failures (failed_now t reason) < ROLLBACK_FAILURE_THRESHOLD"
    by (simp add: failed_now_def status_record_def ROLLBACK_FAILURE_THRESHOLD_def)
  with failure us_write_well_formed [of dir "clear_pending dir d" "failed_now t reason"] show ?case
    by (simp add: record_update_failure_def readable_failed)
next
  case (arm d t bak)
  then show ?case unfolding arm_watchdog_def
    by (intro us_write_well_formed) (auto simp: well_formed_def readable_def ROLLBACK_FAILURE_THRESHOLD_def)
next
  case (heartbeat d ok)
  then have "readable (us_read dir d)" by (simp add: well_formed_def)
  with heartbeat show ?case
    by (auto simp: record_heartbeat_outcome_def Let_def readable_def ROLLBACK_FAILURE_THRESHOLD_def not_le
        intro!: us_write_well_formed)
qed

section \<open>The watchdog as a state machine\<close>

text \<open>The contract: off, or on with the failures counted so far.\<close>

datatype watch = Off | On nat

fun watch_step :: "bool \<Rightarrow> watch \<Rightarrow> watchdog_action \<times> watch" where
  "watch_step ok Off = (Continue, Off)"
| "watch_step True (On n) = (Clear_Watchdog, Off)"
| "watch_step False (On n) = (if n < 2 then (Continue, On (n + 1)) else (Rollback_Triggered, Off))"

definition watch_of :: "update_status \<Rightarrow> watch" where
  "watch_of s = (if watchdog_active s then On (unat (heartbeat_failures s)) else Off)"

lemma us_write_ready_read:
  assumes "ready dir d" "readable s"
  shows "fst (us_write dir s d) = None \<and> ready dir (snd (us_write dir s d)) \<and> us_read dir (snd (us_write dir s d)) = sanitized s"
proof -
  obtain d' where "us_write dir s d = (None, d')" "ready dir d'" using assms(1) by (rule us_write_ready)
  with us_write_read [OF this(1) assms(2)] show ?thesis by simp
qed

lemma heartbeat_refines:
  assumes "well_formed (us_read dir d)" "ready dir d" "record_heartbeat_outcome dir ok d = (a, d')"
  shows "watch_step ok (watch_of (us_read dir d)) = (a, watch_of (us_read dir d'))
    \<and> ready dir d' \<and> well_formed (us_read dir d')
    \<and> us_read dir d' = (us_read dir d)\<lparr>watchdog_active := watchdog_active (us_read dir d'),
          heartbeat_failures := heartbeat_failures (us_read dir d')\<rparr>"
proof -
  let ?s = "us_read dir d"
  have s: "sanitize_reason (previous_binary_path ?s) = previous_binary_path ?s" "readable ?s" "heartbeat_failures ?s < ROLLBACK_FAILURE_THRESHOLD"
    using assms(1) by (auto simp: well_formed_def)
  have wr: "ready dir (snd (us_write dir s' d)) \<and> us_read dir (snd (us_write dir s' d)) = s'"
    if "s' = ?s\<lparr>watchdog_active := b, heartbeat_failures := n\<rparr>" for s' b n
  proof -
    have "readable s'" "sanitized s' = s'" using s(1,2) by (simp_all add: that readable_def sanitized_def)
    with us_write_ready_read [OF assms(2)] show ?thesis by simp
  qed
  have n: "saturating_succ (heartbeat_failures ?s) = heartbeat_failures ?s + 1"
    "unat (heartbeat_failures ?s + 1) = unat (heartbeat_failures ?s) + 1"
    "ROLLBACK_FAILURE_THRESHOLD \<le> heartbeat_failures ?s + 1 \<longleftrightarrow> \<not> unat (heartbeat_failures ?s) < 2"
    using next_failure [OF s(3)] by (auto simp: ROLLBACK_FAILURE_THRESHOLD_def word_le_nat_alt)
  consider "\<not> watchdog_active ?s" | "watchdog_active ?s" ok
    | "watchdog_active ?s" "\<not> ok" "unat (heartbeat_failures ?s) < 2"
    | "watchdog_active ?s" "\<not> ok" "\<not> unat (heartbeat_failures ?s) < 2" by blast
  then show ?thesis
  proof cases
    case 1
    with assms show ?thesis by (simp add: record_heartbeat_outcome_def watch_of_def)
  next
    case 2
    with assms wr [where b = False and n = 0, OF refl] s show ?thesis
      by (auto simp: record_heartbeat_outcome_def Let_def watch_of_def well_formed_def readable_def ROLLBACK_FAILURE_THRESHOLD_def)
  next
    case 3
    have "?s\<lparr>heartbeat_failures := m\<rparr> = ?s\<lparr>watchdog_active := True, heartbeat_failures := m\<rparr>" for m using 3(1) by simp
    with 3 assms wr [where b = True and n = "heartbeat_failures ?s + 1", OF refl] s n show ?thesis
      by (auto simp: record_heartbeat_outcome_def Let_def watch_of_def well_formed_def readable_def not_le)
  next
    case 4
    with assms wr [where b = False and n = 0, OF refl] s n show ?thesis
      by (auto simp: record_heartbeat_outcome_def Let_def watch_of_def well_formed_def readable_def ROLLBACK_FAILURE_THRESHOLD_def)
  qed
qed


fun heartbeats :: "string \<Rightarrow> bool list \<Rightarrow> disk \<Rightarrow> watchdog_action list \<times> disk" where
  "heartbeats dir [] d = ([], d)"
| "heartbeats dir (ok # oks) d =
     (case record_heartbeat_outcome dir ok d of (a, d1) \<Rightarrow> case heartbeats dir oks d1 of (as, d2) \<Rightarrow> (a # as, d2))"

fun watch_run :: "bool list \<Rightarrow> watch \<Rightarrow> watchdog_action list \<times> watch" where
  "watch_run [] w = ([], w)"
| "watch_run (ok # oks) w = (case watch_step ok w of (a, w1) \<Rightarrow> case watch_run oks w1 of (as, w2) \<Rightarrow> (a # as, w2))"

lemma heartbeats_refine:
  assumes "well_formed (us_read dir d)" "ready dir d" "heartbeats dir oks d = (as, d')"
  shows "watch_run oks (watch_of (us_read dir d)) = (as, watch_of (us_read dir d'))"
  using assms
proof (induction oks arbitrary: d as)
  case (Cons ok oks)
  obtain a d1 where h: "record_heartbeat_outcome dir ok d = (a, d1)" by fastforce
  obtain as1 where t: "heartbeats dir oks d1 = (as1, d')" "as = a # as1"
    using Cons.prems(3) h by (auto split: prod.splits)
  from heartbeat_refines [OF Cons.prems(1,2) h] Cons.IH [OF _ _ t(1)] show ?case by (simp add: t(2))
qed simp

lemma watch_run_Off [simp]: "watch_run oks Off = (replicate (length oks) Continue, Off)"
  by (induction oks) auto

text \<open>C14. The record of the last update stays well-formed: after any history of markers, startups, failures,
  armings and heartbeats on a disk whose writes may fail at any point, what is read from the status file is
  valid text without quotes, with times in range, a sanitized path and a failure counter below the
  threshold; and writing that record, when the write succeeds, makes exactly it be read again.\<close>

theorem status_well_formed:
  assumes "status_run dir d"
  shows "well_formed (us_read dir d) \<and>
    (\<forall>d'. us_write dir (us_read dir d) d = (None, d') \<longrightarrow> us_read dir d' = us_read dir d)"
proof -
  have wf: "well_formed (us_read dir d)" using assms by (rule status_run_well_formed)
  then have "readable (us_read dir d)" by (simp add: well_formed_def)
  with us_write_read [of dir "us_read dir d" d None] sanitized_well_formed [OF wf] wf show ?thesis by simp
qed

text \<open>C13. The watchdog on disk is the three-failure state machine: after any history, while the status can be
  written, a sequence of heartbeats takes the actions of the abstract watchdog (off, or on with a count) and
  leaves its state. A rollback is therefore ordered by the third failure in a row of an armed watchdog, and
  the first success disarms it.\<close>

theorem watchdog_refines:
  assumes "status_run dir d" and "ready dir d" and "heartbeats dir oks d = (as, d')"
  shows "watch_run oks (watch_of (us_read dir d)) = (as, watch_of (us_read dir d'))"
  using heartbeats_refine [OF status_run_well_formed [OF assms(1)] assms(2,3)] .

text \<open>What the abstract watchdog decides once armed.\<close>

lemma watch_run_armed:
  "watch_run oks (On 0) = (as, w) \<Longrightarrow>
     (Rollback_Triggered \<in> set as \<longleftrightarrow> take 3 oks = [False, False, False]) \<and>
     (Clear_Watchdog \<in> set as \<longleftrightarrow> True \<in> set (take 3 oks))"
  by (cases oks; cases "tl oks"; cases "tl (tl oks)"; cases "hd oks"; cases "hd (tl oks)"; cases "hd (tl (tl oks))")
    (auto split: prod.splits)

section \<open>Witnesses\<close>

definition empty_disk :: disk where
  "empty_disk = \<lparr>files = Map.empty, folders = {''/d''}, fault = (\<lambda>_. None), other_device = (\<lambda>_ _. False)\<rparr>"

lemma empty_disk_start: "status_run ''/d'' empty_disk" "us_read ''/d'' empty_disk = never"
  by (auto intro!: status_run.start simp: fs_read_def empty_disk_def status_path_def path_join_def starts_with_def
      ends_with_def suffix_def us_read_def read_to_string_def)

lemma empty_disk_ready: "ready ''/d'' empty_disk"
  by (simp add: ready_def write_error_def parent_there_def path_parent_def trivial_part_def empty_disk_def status_path_def
      status_tmp_def path_join_def starts_with_def ends_with_def suffix_def)

lemma empty_disk_armed:
  "status_run ''/d'' (snd (arm_watchdog ''/d'' 5 ''/b'' empty_disk)) \<and> ready ''/d'' (snd (arm_watchdog ''/d'' 5 ''/b'' empty_disk))
   \<and> watch_of (us_read ''/d'' (snd (arm_watchdog ''/d'' 5 ''/b'' empty_disk))) = On 0"
proof -
  have "readable (never\<lparr>watchdog_active := True, watchdog_started_at := 5, heartbeat_failures := 0, previous_binary_path := ''/b''\<rparr>)"
    by (simp add: readable_def never_def status_record_def i64_def is_ascii_def)
  from us_write_ready_read [OF empty_disk_ready this] status_run.arm [OF empty_disk_start(1), of 5 "''/b''"]
  show ?thesis by (simp add: arm_watchdog_def empty_disk_start(2) sanitized_def watch_of_def i64_def is_ascii_def)
qed

theorem status_well_formed_witness:
  "well_formed (us_read ''/d'' (snd (arm_watchdog ''/d'' 5 ''/b'' empty_disk)))"
  using status_well_formed [OF conjunct1 [OF empty_disk_armed]] by simp

theorem watchdog_refines_witness:
  "fst (heartbeats ''/d'' [False, False, False] (snd (arm_watchdog ''/d'' 5 ''/b'' empty_disk)))
     = [Continue, Continue, Rollback_Triggered]"
proof -
  obtain as d' where h: "heartbeats ''/d'' [False, False, False] (snd (arm_watchdog ''/d'' 5 ''/b'' empty_disk)) = (as, d')"
    by fastforce
  from watchdog_refines [OF _ _ h] empty_disk_armed show ?thesis by (simp add: h del: heartbeats.simps)
qed

end
