(* ===== verification/Rendezvous.thy ===== *)
theory Rendezvous
  imports Rdv_Proto Relay_Codec "HOL-Library.Char_ord" "HOL-Library.List_Lexorder" "HOL-Library.Product_Lexorder"
begin

text \<open>
  The rendezvous server, \<open>mrsh-relay/src/rendezvous/server.rs\<close> and \<open>server_tcp.rs\<close>: devices register
  under an id, clients ask for their address, list them or have a relay request forwarded, operators
  publish versions that servers query and fetch. The registry is an association list; the clock, the
  hash and the protobuf codec are parameters.
\<close>

section \<open>State\<close>

text \<open>A notification stream is named by a number.\<close>

record peer_entry =
  pe_addr :: sock_addr
  pe_last_seen :: nat
  pe_group_hash :: string
  pe_hostname :: string
  pe_platform :: string
  pe_service_port :: u16
  pe_encrypted_net_info :: bytes
  pe_ports :: "port_info list"
  pe_current_version :: string
  pe_last_update_status :: string
  pe_last_update_at_unix :: int
  pe_track :: string
  pe_auto_upgrade :: bool
  pe_tcp_notify :: "nat option"

definition PEER_EXPIRY :: nat where "PEER_EXPIRY = from_secs 300"

record version_advert_entry =
  ve_advert :: version_advert
  ve_binary_blob :: bytes

record rendezvous_server =
  rv_key :: string
  rv_relay_server :: string

record rdv_state =
  peers :: "(string \<times> peer_entry) list"
  version_adverts :: "((string \<times> string) \<times> version_advert_entry) list"

text \<open>What a handler reads besides: the monotonic clock in nanoseconds, the time in seconds since the
  epoch, the version of the build, and SHA-256.\<close>

record rdv_env =
  now :: nat
  unix_secs :: u64
  pkg_version :: string
  rdv_sha256 :: "bytes \<Rightarrow> bytes"

definition rdv_start :: rdv_state where
  "rdv_start = \<lparr>peers = [], version_adverts = []\<rparr>"

definition unix_tm :: "rdv_env \<Rightarrow> u32" where
  "unix_tm E = ucast (unix_secs E)"

section \<open>Registration\<close>

definition entry_of :: "nat \<Rightarrow> sock_addr \<Rightarrow> register_peer \<Rightarrow> nat option \<Rightarrow> peer_entry" where
  "entry_of t addr rp notify =
     \<lparr>pe_addr = addr, pe_last_seen = t, pe_group_hash = rp_group_hash rp, pe_hostname = rp_hostname rp,
      pe_platform = rp_platform rp, pe_service_port = ucast (rp_service_port rp),
      pe_encrypted_net_info = rp_encrypted_net_info rp, pe_ports = rp_ports rp,
      pe_current_version = rp_current_version rp, pe_last_update_status = rp_last_update_status rp,
      pe_last_update_at_unix = rp_last_update_at_unix rp, pe_track = rp_track rp,
      pe_auto_upgrade = rp_auto_upgrade rp, pe_tcp_notify = notify\<rparr>"

definition existing_tcp :: "string \<Rightarrow> (string \<times> peer_entry) list \<Rightarrow> nat option" where
  "existing_tcp i ps = (case map_of ps i of Some e \<Rightarrow> pe_tcp_notify e | None \<Rightarrow> None)"

definition handle_register_peer :: "rdv_env \<Rightarrow> register_peer \<Rightarrow> sock_addr \<Rightarrow> rdv_state \<Rightarrow> rdv_state" where
  "handle_register_peer E rp src s =
     (if rp_id rp \<noteq> []
      then s\<lparr>peers := AList.update (rp_id rp) (entry_of (now E) src rp (existing_tcp (rp_id rp) (peers s))) (peers s)\<rparr>
      else s)"

definition expire_peers :: "nat \<Rightarrow> rdv_state \<Rightarrow> rdv_state" where
  "expire_peers t s = s\<lparr>peers := filter (\<lambda>(_, e). t - pe_last_seen e < PEER_EXPIRY) (peers s)\<rparr>"

section \<open>Looking devices up\<close>

definition not_found :: "rendezvous_server \<Rightarrow> punch_failure \<Rightarrow> punch_hole_response" where
  "not_found R f = \<lparr>phs_socket_addr = [], phs_failure = f, phs_relay_server = rv_relay_server R,
     phs_encrypted_net_info = [], phs_ports = []\<rparr>"

definition handle_punch_hole ::
  "rendezvous_server \<Rightarrow> rdv_env \<Rightarrow> punch_hole_request \<Rightarrow> sock_addr \<Rightarrow> rdv_state \<Rightarrow> rendezvous_union option" where
  "handle_punch_hole R E req src s =
     (if rv_key R \<noteq> [] \<and> phr_licence_key req \<noteq> rv_key R
      then Some (Punch_Hole_Response (not_found R License_Mismatch))
      else case map_of (peers s) (phr_id req) of
             Some e \<Rightarrow>
               let encoded_addr = encode_socket_addr (unix_tm E) (pe_addr e)
               in if fst (pe_addr e) = fst src
                  then Some (Fetch_Local_Addr \<lparr>fla_socket_addr = encoded_addr, fla_relay_server = rv_relay_server R,
                         fla_encrypted_net_info = pe_encrypted_net_info e\<rparr>)
                  else Some (Punch_Hole_Response \<lparr>phs_socket_addr = encoded_addr, phs_failure = Id_Not_Exist,
                         phs_relay_server = rv_relay_server R, phs_encrypted_net_info = pe_encrypted_net_info e,
                         phs_ports = pe_ports e\<rparr>)
           | None \<Rightarrow> Some (Punch_Hole_Response (not_found R Id_Not_Exist)))"

definition group_peer_of :: "rdv_env \<Rightarrow> string \<times> peer_entry \<Rightarrow> group_peer" where
  "group_peer_of E p =
     (case p of (i, e) \<Rightarrow>
       \<lparr>gp_device_id = i, gp_hostname = pe_hostname e, gp_platform = pe_platform e,
        gp_socket_addr = encode_socket_addr (unix_tm E) (pe_addr e),
        gp_last_seen_secs = unix_secs E - word_of_nat (as_secs (now E - pe_last_seen e)),
        gp_service_port = ucast (pe_service_port e), gp_ports = pe_ports e,
        gp_encrypted_net_info = pe_encrypted_net_info e, gp_current_version = pe_current_version e,
        gp_last_update_status = pe_last_update_status e, gp_last_update_at_unix = pe_last_update_at_unix e,
        gp_track = pe_track e, gp_auto_upgrade = pe_auto_upgrade e\<rparr>)"

definition handle_list_peers :: "rendezvous_server \<Rightarrow> rdv_env \<Rightarrow> string \<Rightarrow> rdv_state \<Rightarrow> rendezvous_union option" where
  "handle_list_peers R E licence_key s =
     (if rv_key R \<noteq> [] \<and> licence_key \<noteq> rv_key R then None
      else Some (List_Peers_Response (map (group_peer_of E) (peers s))))"

definition hex_encode :: "bytes \<Rightarrow> string" where
  "hex_encode bs = concat (map hex_byte bs)"

definition abs_diff :: "u64 \<Rightarrow> u64 \<Rightarrow> u64" where
  "abs_diff a b = (if a < b then b - a else a - b)"

definition handle_group_query :: "rdv_env \<Rightarrow> group_query \<Rightarrow> rdv_state \<Rightarrow> rendezvous_union option" where
  "handle_group_query E gq s =
     (if gq_group_hash gq = [] then None
      else if 300 < abs_diff (unix_secs E) (gq_nonce gq) then None
      else
        let computed_hash = (if gq_hmac_proof gq \<noteq> [] then hex_encode (rdv_sha256 E (gq_hmac_proof gq)) else [])
        in if computed_hash \<noteq> gq_group_hash gq then None
           else Some (Group_Query_Response
                  (map (group_peer_of E) (filter (\<lambda>(_, e). pe_group_hash e = gq_group_hash gq) (peers s)))))"

section \<open>Versions\<close>

definition handle_publish_version :: "rdv_env \<Rightarrow> publish_version_request \<Rightarrow> rdv_state \<Rightarrow> rendezvous_union \<times> rdv_state" where
  "handle_publish_version E req s =
     (case pv_advert req of
        None \<Rightarrow> (Publish_Version_Response False ''missing advert'', s)
      | Some advert \<Rightarrow>
          if va_platform advert = [] \<or> va_track advert = [] \<or> va_latest_version advert = []
          then (Publish_Version_Response False ''advert requires non-empty platform, track, and latest_version'', s)
          else
            let stamped = advert\<lparr>va_published_at_unix := sint (unix_secs E)\<rparr>
            in (Publish_Version_Response True [],
                s\<lparr>version_adverts := AList.update (va_platform stamped, va_track stamped)
                     \<lparr>ve_advert = stamped, ve_binary_blob = pv_binary_blob req\<rparr> (version_adverts s)\<rparr>))"

text \<open>\<open>semver_greater\<close>: components compare as numbers, or as text when one of them is not a number.\<close>

definition version_part :: "string \<Rightarrow> nat \<times> string" where
  "version_part tok = (case parse_uint (2 ^ 64) tok of Some n \<Rightarrow> (n, []) | None \<Rightarrow> (0, tok))"

definition version_parts :: "string \<Rightarrow> (nat \<times> string) list" where
  "version_parts s = map version_part (split_char (CHR ''.'') [] s)"

definition part_at :: "(nat \<times> string) list \<Rightarrow> nat \<Rightarrow> nat \<times> string" where
  "part_at ps i = (if i < length ps then ps ! i else (0, []))"

function compare_from :: "(nat \<times> string) list \<Rightarrow> (nat \<times> string) list \<Rightarrow> nat \<Rightarrow> nat \<Rightarrow> bool" where
  "compare_from av bv len i =
     (if i < len then
        let (an, as) = part_at av i; (bn, bs) = part_at bv i
        in if as \<noteq> [] \<or> bs \<noteq> [] then
             if bs < as then True else if as < bs then False else compare_from av bv len (i + 1)
           else if bn < an then True else if an < bn then False else compare_from av bv len (i + 1)
      else False)"
  by pat_completeness auto
termination
  by (relation "measure (\<lambda>(av, bv, len, i). len - i)") auto

declare compare_from.simps [simp del]

definition semver_greater :: "string \<Rightarrow> string \<Rightarrow> bool" where
  "semver_greater a b =
     (let av = version_parts a; bv = version_parts b
      in compare_from av bv (max (length av) (length bv)) 0)"

definition handle_query_version :: "query_version_request \<Rightarrow> rdv_state \<Rightarrow> rendezvous_union" where
  "handle_query_version req s =
     (case map_of (version_adverts s) (qv_platform req, qv_track req) of
        Some e \<Rightarrow>
          let update_available =
                (qv_current_version req = [] \<or> semver_greater (va_latest_version (ve_advert e)) (qv_current_version req))
          in Query_Version_Response update_available (if update_available then Some (ve_advert e) else None)
      | None \<Rightarrow> Query_Version_Response False None)"

definition fetch_failed :: "string \<Rightarrow> fetch_binary_response" where
  "fetch_failed msg = \<lparr>fr_found = False, fr_binary_blob = [], fr_signature = [], fr_error_message = msg\<rparr>"

definition handle_fetch_binary :: "fetch_binary_request \<Rightarrow> rdv_state \<Rightarrow> rendezvous_union" where
  "handle_fetch_binary req s =
     Fetch_Binary_Response
       (case map_of (version_adverts s) (fb_platform req, fb_track req) of
          None \<Rightarrow> fetch_failed (''no advert for '' @ fb_platform req @ ''|'' @ fb_track req)
        | Some e \<Rightarrow>
            if va_latest_version (ve_advert e) \<noteq> fb_version req
            then fetch_failed (''version mismatch: requested '' @ fb_version req @ '', advert has ''
                   @ va_latest_version (ve_advert e))
            else if ve_binary_blob e = []
            then fetch_failed ''advert has no inline binary_blob (publish was --no-blob)''
            else \<lparr>fr_found = True, fr_binary_blob = ve_binary_blob e, fr_signature = va_signature (ve_advert e),
                  fr_error_message = []\<rparr>)"

section \<open>Dispatch of a message\<close>

definition handle_message ::
  "rendezvous_server \<Rightarrow> rdv_env \<Rightarrow> rendezvous_union option \<Rightarrow> sock_addr \<Rightarrow> rdv_state
     \<Rightarrow> rendezvous_union option \<times> rdv_state" where
  "handle_message R E msg src s =
     (case msg of
        Some (Register_Peer rp) \<Rightarrow> (Some (Register_Peer_Response False), handle_register_peer E rp src s)
      | Some Register_Pk \<Rightarrow> (Some (Register_Pk_Response 300), s)
      | Some (Punch_Hole_Request phr) \<Rightarrow> (handle_punch_hole R E phr src s, s)
      | Some Health_Check \<Rightarrow>
          (Some (Health_Response \<lparr>hr_timestamp = unix_secs E, hr_peers_online = word_of_nat (length (peers s)),
             hr_relays_active = 0, hr_version = pkg_version E\<rparr>), s)
      | Some (Group_Query gq) \<Rightarrow> (handle_group_query E gq s, s)
      | Some (List_Peers licence_key) \<Rightarrow> (handle_list_peers R E licence_key s, s)
      | Some (Publish_Version_Request pvr) \<Rightarrow> (case handle_publish_version E pvr s of (r, s') \<Rightarrow> (Some r, s'))
      | Some (Query_Version_Request qvr) \<Rightarrow> (Some (handle_query_version qvr s), s)
      | Some (Fetch_Binary_Request fbr) \<Rightarrow> (Some (handle_fetch_binary fbr s), s)
      | _ \<Rightarrow> (None, s))"

text \<open>One datagram: empty and undecodable ones are skipped. The result is what is sent back.\<close>

definition handle_datagram ::
  "(bytes \<Rightarrow> rendezvous_union option option) \<Rightarrow> rendezvous_server \<Rightarrow> rdv_env \<Rightarrow> bytes \<Rightarrow> sock_addr \<Rightarrow> rdv_state
     \<Rightarrow> rendezvous_union option \<times> rdv_state" where
  "handle_datagram decode R E data src s =
     (if data = [] then (None, s)
      else case decode data of None \<Rightarrow> (None, s) | Some msg \<Rightarrow> handle_message R E msg src s)"

section \<open>Messages over TCP\<close>

text \<open>What a TCP connection causes: a reply on it, a notification on a peer's stream, or one by UDP.\<close>

datatype tcp_effect =
    Tcp_Reply bytes
  | Tcp_Notify nat bytes
  | Udp_Send bytes sock_addr

record rdv_codec =
  rdv_decode :: "bytes \<Rightarrow> rendezvous_union option option"
  rdv_encode :: "rendezvous_union \<Rightarrow> bytes"

definition handle_tcp_register :: "rdv_env \<Rightarrow> nat \<Rightarrow> register_peer \<Rightarrow> sock_addr \<Rightarrow> rdv_state \<Rightarrow> rdv_state" where
  "handle_tcp_register E conn rp peer s =
     (let addr = (case map_of (peers s) (rp_id rp) of Some e \<Rightarrow> pe_addr e | None \<Rightarrow> peer)
      in s\<lparr>peers := AList.update (rp_id rp) (entry_of (now E) addr rp (Some conn)) (peers s)\<rparr>)"

text \<open>\<open>stream_ok\<close> says whether the write to a notification stream succeeds in time.\<close>

definition forward_relay ::
  "rdv_codec \<Rightarrow> rendezvous_server \<Rightarrow> rdv_env \<Rightarrow> (nat \<Rightarrow> bool) \<Rightarrow> relay_request \<Rightarrow> sock_addr \<Rightarrow> rdv_state \<Rightarrow> tcp_effect list" where
  "forward_relay C R E stream_ok rr peer s =
     (if rv_key R \<noteq> [] \<and> rr_licence_key rr \<noteq> rv_key R then []
      else if rr_uuid rr = [] then []
      else case map_of (peers s) (rr_id rr) of
             None \<Rightarrow> []
           | Some e \<Rightarrow>
               let relay = (if rr_relay_server rr = [] then rv_relay_server R else rr_relay_server rr);
                   response = rdv_encode C (Relay_Response \<lparr>rl_uuid = rr_uuid rr, rl_relay_server = relay,
                     rl_socket_addr = encode_socket_addr (unix_tm E) peer, rl_target_port = rr_target_port rr\<rparr>)
               in case pe_tcp_notify e of
                    Some st \<Rightarrow>
                      if stream_ok st then [Tcp_Notify st (encode_frame response)]
                      else [Udp_Send response (pe_addr e)]
                  | None \<Rightarrow> [Udp_Send response (pe_addr e)])"

text \<open>Version messages are answered on the connection by the handlers of the datagram path.\<close>

definition reply_over_tcp ::
  "rdv_codec \<Rightarrow> rendezvous_server \<Rightarrow> rdv_env \<Rightarrow> rendezvous_union option \<Rightarrow> sock_addr \<Rightarrow> rdv_state
     \<Rightarrow> (tcp_effect list \<times> rdv_state) result" where
  "reply_over_tcp C R E msg peer s =
     (case handle_message R E msg peer s of
        (Some resp, s') \<Rightarrow> Inr ([Tcp_Reply (encode_frame (rdv_encode C resp))], s')
      | (None, s') \<Rightarrow> Inr ([], s'))"

definition handle_tcp_relay_request ::
  "rdv_codec \<Rightarrow> rendezvous_server \<Rightarrow> rdv_env \<Rightarrow> (nat \<Rightarrow> bool) \<Rightarrow> nat \<Rightarrow> bytes \<Rightarrow> sock_addr \<Rightarrow> rdv_state
     \<Rightarrow> (tcp_effect list \<times> rdv_state) result" where
  "handle_tcp_relay_request C R E stream_ok conn stream peer s =
     and_then (decode_frame stream) (\<lambda>(data, _).
     and_then (ok_or Deserialize (rdv_decode C data)) (\<lambda>msg.
       case msg of
         Some (Publish_Version_Request _) \<Rightarrow> reply_over_tcp C R E msg peer s
       | Some (Query_Version_Request _) \<Rightarrow> reply_over_tcp C R E msg peer s
       | Some (Fetch_Binary_Request _) \<Rightarrow> reply_over_tcp C R E msg peer s
       | Some (Register_Peer rp) \<Rightarrow>
           Inr ([], if rp_id rp \<noteq> [] then handle_tcp_register E conn rp peer s else s)
       | Some (Request_Relay rr) \<Rightarrow> Inr (forward_relay C R E stream_ok rr peer s, s)
       | _ \<Rightarrow> Inr ([], s)))"

section \<open>The order of versions\<close>

text \<open>Lists in lexicographic order, without the least elements at their end.\<close>

definition strip_least :: "'a \<Rightarrow> 'a list \<Rightarrow> 'a list" where
  "strip_least z xs = rev (dropWhile (\<lambda>x. x = z) (rev xs))"

definition padded :: "'a \<Rightarrow> nat \<Rightarrow> 'a list \<Rightarrow> 'a list" where
  "padded z n xs = xs @ replicate (n - length xs) z"

lemma strip_least_append: "\<exists>k. xs = strip_least z xs @ replicate k z"
proof -
  have "xs = rev (dropWhile (\<lambda>x. x = z) (rev xs)) @ rev (takeWhile (\<lambda>x. x = z) (rev xs))"
    by (simp flip: rev_append)
  moreover have "\<forall>x \<in> set (rev (takeWhile (\<lambda>x. x = z) (rev xs))). x = z"
    by (auto dest: set_takeWhileD)
  ultimately show ?thesis by (metis strip_least_def replicate_eqI)
qed

lemma strip_least_last: "strip_least z xs = [] \<or> last (strip_least z xs) \<noteq> z"
proof (cases "strip_least z xs = []")
  case False
  then have "dropWhile (\<lambda>x. x = z) (rev xs) \<noteq> []" by (simp add: strip_least_def)
  with hd_dropWhile [of "\<lambda>x. x = z" "rev xs"] show ?thesis by (simp add: strip_least_def last_rev)
qed simp

lemma padded_less:
  fixes z :: "'a :: linorder"
  assumes "\<And>x. z \<le> x" and "xs = [] \<or> last xs \<noteq> z" and "ys = [] \<or> last ys \<noteq> z"
    and "length xs + k = length ys + l"
  shows "xs @ replicate k z < ys @ replicate l z \<longleftrightarrow> xs < ys"
  using assms(2-)
proof (induction xs arbitrary: ys k l)
  case Nil
  then show ?case
  proof (induction ys arbitrary: k)
    case (Cons y ys)
    then obtain j where j: "k = Suc j" by (cases k) auto
    show ?case
    proof (cases "y = z")
      case True
      with Cons.prems(2) have "ys \<noteq> []" "last ys \<noteq> z" by (auto split: if_splits)
      moreover have "length [] + j = length ys + l" using Cons.prems j by simp
      ultimately show ?thesis using Cons.IH [of j] True j by (cases ys) simp_all
    next
      case False
      with assms(1) [of y] j show ?thesis by simp
    qed
  qed simp
next
  case (Cons x xs)
  show ?case
  proof (cases ys)
    case Nil
    then obtain j where j: "l = Suc j" using Cons.prems by (cases l) auto
    have "\<not> x < z" using assms(1) [of x] by simp
    moreover have "\<not> xs @ replicate k z < replicate j z" if "x = z"
    proof -
      have "xs \<noteq> []" "last xs \<noteq> z" using Cons.prems(1) that by (auto split: if_splits)
      then show ?thesis using Cons.IH [of "[]" k j] Cons.prems Nil j by simp
    qed
    ultimately show ?thesis using Nil j by auto
  next
    case (Cons y ys')
    with Cons.prems Cons.IH [of ys' k l] show ?thesis by (auto split: if_splits)
  qed
qed

text \<open>A component as a pair of its text and its number, the least being the number zero.\<close>

definition part_key :: "nat \<times> string \<Rightarrow> string \<times> nat" where
  "part_key p = (snd p, fst p)"

definition version_key :: "string \<Rightarrow> (string \<times> nat) list" where
  "version_key v = strip_least ([], 0) (map part_key (version_parts v))"

definition proper_part :: "nat \<times> string \<Rightarrow> bool" where
  "proper_part p \<longleftrightarrow> snd p = [] \<or> fst p = 0"

lemma proper_parts: "proper_part (part_at (version_parts v) i)"
  by (auto simp: proper_part_def part_at_def version_parts_def version_part_def split: option.split)

lemma compare_from_less:
  assumes "\<And>i. proper_part (part_at av i)" and "\<And>i. proper_part (part_at bv i)"
  shows "compare_from av bv len i \<longleftrightarrow>
    map (\<lambda>j. part_key (part_at bv j)) [i..<len] < map (\<lambda>j. part_key (part_at av j)) [i..<len]"
proof (induction "len - i" arbitrary: i)
  case 0
  then show ?case by (subst compare_from.simps) simp
next
  case (Suc n)
  then have i: "i < len" and n: "n = len - (i + 1)" by simp_all
  obtain an as bn bs where p: "part_at av i = (an, as)" "part_at bv i = (bn, bs)" by fastforce
  have zero: "as \<noteq> [] \<Longrightarrow> an = 0" "bs \<noteq> [] \<Longrightarrow> bn = 0"
    using assms(1) [of i] assms(2) [of i] p by (auto simp: proper_part_def)
  show ?case
  proof (cases "as = [] \<and> bs = []")
    case True
    with i Suc.hyps(1) [OF n] p show ?thesis
      by (subst compare_from.simps) (auto simp: part_key_def upt_conv_Cons)
  next
    case False
    with i Suc.hyps(1) [OF n] p zero show ?thesis
      by (subst compare_from.simps) (auto simp: part_key_def upt_conv_Cons)
  qed
qed

lemma part_at_padded:
  "length ps \<le> n \<Longrightarrow> map (\<lambda>j. part_key (part_at ps j)) [0..<n] = padded ([], 0) n (map part_key ps)"
  by (rule nth_equalityI) (auto simp: part_at_def padded_def nth_append part_key_def)

lemma least_key: "(([], 0) :: string \<times> nat) \<le> x"
  by (cases x; cases "fst x") (simp_all add: less_eq_prod_simp)

text \<open>Newer is an order: a version is greater than another exactly when its list of components,
  without zeros at its end, comes later in lexicographic order, components being compared by their
  text first and then as numbers. So no version is newer than itself, newer is transitive, and of two
  versions with different components one is newer.\<close>

theorem semver_greater_key: "semver_greater a b \<longleftrightarrow> version_key b < version_key a"
proof -
  let ?z = "([], 0) :: string \<times> nat"
  let ?av = "version_parts a" and ?bv = "version_parts b"
  let ?n = "max (length ?av) (length ?bv)"
  have pad: "\<exists>k. padded ?z ?n (map part_key (version_parts v)) = version_key v @ replicate k ?z" for v
  proof -
    obtain k where "map part_key (version_parts v) = version_key v @ replicate k ?z"
      using strip_least_append [of "map part_key (version_parts v)" ?z, folded version_key_def] by (elim exE)
    then have "map part_key (version_parts v) @ replicate m ?z = version_key v @ replicate (k + m) ?z" for m
      by (metis append_assoc replicate_add)
    then show ?thesis unfolding padded_def by blast
  qed
  obtain k l where kl: "padded ?z ?n (map part_key ?bv) = version_key b @ replicate k ?z"
    "padded ?z ?n (map part_key ?av) = version_key a @ replicate l ?z" using pad by blast
  have "length (padded ?z ?n (map part_key ?bv)) = length (padded ?z ?n (map part_key ?av))"
    by (simp add: padded_def)
  then have len: "length (version_key b) + k = length (version_key a) + l" unfolding kl by simp
  have "semver_greater a b \<longleftrightarrow> padded ?z ?n (map part_key ?bv) < padded ?z ?n (map part_key ?av)"
    unfolding semver_greater_def Let_def by (subst compare_from_less) (auto simp: proper_parts part_at_padded)
  also have "\<dots> \<longleftrightarrow> version_key b < version_key a"
    unfolding kl by (rule padded_less [OF least_key _ _ len]) (simp_all add: version_key_def strip_least_last)
  finally show ?thesis .
qed

text \<open>A release candidate counts as newer than its release.\<close>

lemma semver_rc_greater: "semver_greater ''1.10.30-rc1'' ''1.10.30''"
  by (simp add: semver_greater_def version_parts_def version_part_def parse_uint_def compare_from.simps part_at_def Let_def)

section \<open>Runs\<close>

text \<open>What reaches the server: a datagram, a TCP connection with its number, the periodic sweep.\<close>

datatype rdv_event = Datagram bytes sock_addr | Tcp nat bytes sock_addr | Sweep

definition rdv_step ::
  "rdv_codec \<Rightarrow> rendezvous_server \<Rightarrow> (nat \<Rightarrow> bool) \<Rightarrow> rdv_env \<times> rdv_event \<Rightarrow> rdv_state \<Rightarrow> rdv_state" where
  "rdv_step C R stream_ok e s =
     (case snd e of
        Datagram data src \<Rightarrow> snd (handle_datagram (rdv_decode C) R (fst e) data src s)
      | Tcp conn stream peer \<Rightarrow>
          (case handle_tcp_relay_request C R (fst e) stream_ok conn stream peer s of Inr (_, s') \<Rightarrow> s' | Inl _ \<Rightarrow> s)
      | Sweep \<Rightarrow> expire_peers (now (fst e)) s)"

definition rdv_run ::
  "rdv_codec \<Rightarrow> rendezvous_server \<Rightarrow> (nat \<Rightarrow> bool) \<Rightarrow> (rdv_env \<times> rdv_event) list \<Rightarrow> rdv_state \<Rightarrow> rdv_state" where
  "rdv_run C R stream_ok h s = fold (rdv_step C R stream_ok) h s"

text \<open>The message an event carries.\<close>

definition message_of :: "rdv_codec \<Rightarrow> rdv_event \<Rightarrow> rendezvous_union option" where
  "message_of C ev =
     (case ev of
        Datagram data _ \<Rightarrow> if data = [] then None else (case rdv_decode C data of Some m \<Rightarrow> m | None \<Rightarrow> None)
      | Tcp _ stream _ \<Rightarrow>
          (case decode_frame stream of
             Inr (data, _) \<Rightarrow> (case rdv_decode C data of Some m \<Rightarrow> m | None \<Rightarrow> None)
           | Inl _ \<Rightarrow> None)
      | Sweep \<Rightarrow> None)"

definition registers :: "rdv_codec \<Rightarrow> string \<Rightarrow> rdv_event \<Rightarrow> bool" where
  "registers C i ev \<longleftrightarrow> (\<exists>rp. message_of C ev = Some (Register_Peer rp) \<and> rp_id rp = i)"

lemma publish_peers [simp]: "peers (snd (handle_publish_version E req s)) = peers s"
  by (auto simp: handle_publish_version_def Let_def split: option.split)

lemma handle_message_peers:
  "map_of (peers (snd (handle_message R E msg src s))) i =
     (case msg of
        Some (Register_Peer rp) \<Rightarrow>
          if rp_id rp = i \<and> i \<noteq> [] then Some (entry_of (now E) src rp (existing_tcp i (peers s)))
          else map_of (peers s) i
      | _ \<Rightarrow> map_of (peers s) i)"
  by (auto simp: handle_message_def handle_register_peer_def update_conv split: option.split rendezvous_union.split prod.split)
    (metis publish_peers snd_conv)+

lemma rdv_step_tcp:
  "rdv_step C R stream_ok (E, Tcp conn stream peer) s =
     (case message_of C (Tcp conn stream peer) of
        Some (Register_Peer rp) \<Rightarrow> if rp_id rp \<noteq> [] then handle_tcp_register E conn rp peer s else s
      | Some (Publish_Version_Request pv) \<Rightarrow> snd (handle_publish_version E pv s)
      | _ \<Rightarrow> s)"
proof (cases "decode_frame stream")
  case (Inr p)
  obtain data rest where p: "p = (data, rest)" by (cases p)
  show ?thesis
  proof (cases "rdv_decode C data")
    case (Some msg)
    with Inr p show ?thesis
      by (cases msg)
        (auto simp: rdv_step_def handle_tcp_relay_request_def message_of_def reply_over_tcp_def handle_message_def
          split: rendezvous_union.split prod.split)
  qed (use Inr p in \<open>simp add: rdv_step_def handle_tcp_relay_request_def message_of_def\<close>)
qed (simp add: rdv_step_def handle_tcp_relay_request_def message_of_def)

lemma rdv_step_datagram:
  "rdv_step C R stream_ok (E, Datagram data src) s = snd (handle_message R E (message_of C (Datagram data src)) src s)"
  by (auto simp: rdv_step_def handle_datagram_def message_of_def handle_message_def split: option.split)

lemma rdv_step_other:
  assumes "\<not> registers C i ev" and "ev \<noteq> Sweep"
  shows "map_of (peers (rdv_step C R stream_ok (E, ev) s)) i = map_of (peers s) i"
proof (cases ev)
  case (Datagram data src)
  with assms show ?thesis
    by (auto simp: rdv_step_datagram handle_message_peers registers_def split: option.split rendezvous_union.split)
next
  case (Tcp conn stream peer)
  with assms show ?thesis
    by (auto simp: rdv_step_tcp handle_tcp_register_def update_conv registers_def Let_def
        split: option.split rendezvous_union.split)
qed (use assms in simp)

lemma rdv_step_distinct:
  assumes "distinct (map fst (peers s))"
  shows "distinct (map fst (peers (rdv_step C R stream_ok (E, ev) s)))"
proof (cases ev)
  case (Datagram data src)
  with assms show ?thesis
    by (auto simp: rdv_step_datagram handle_message_def handle_register_peer_def distinct_update
        split: option.split rendezvous_union.split prod.split) (metis publish_peers snd_conv)
next
  case (Tcp conn stream peer)
  with assms show ?thesis
    by (auto simp: rdv_step_tcp handle_tcp_register_def distinct_update Let_def split: option.split rendezvous_union.split)
next
  case Sweep
  with assms show ?thesis by (simp add: rdv_step_def expire_peers_def distinct_map_filter)
qed

lemma rdv_run_distinct: "distinct (map fst (peers s)) \<Longrightarrow> distinct (map fst (peers (rdv_run C R ok h s)))"
  unfolding rdv_run_def by (induction h arbitrary: s) (auto simp: rdv_step_distinct)

lemma rdv_run_simps [simp]:
  "rdv_run C R ok [] s = s" "rdv_run C R ok (e # h) s = rdv_run C R ok h (rdv_step C R ok e s)"
  "rdv_run C R ok (h @ h') s = rdv_run C R ok h' (rdv_run C R ok h s)"
  by (simp_all add: rdv_run_def)

lemma map_of_expire:
  assumes "distinct (map fst (peers s))"
  shows "map_of (peers (expire_peers t s)) i =
    (case map_of (peers s) i of Some e \<Rightarrow> if t - pe_last_seen e < PEER_EXPIRY then Some e else None | None \<Rightarrow> None)"
  using map_of_filter_snd [OF assms, of "\<lambda>e. t - pe_last_seen e < PEER_EXPIRY" i]
  by (simp add: expire_peers_def case_prod_unfold)

text \<open>An entry survives everything but a registration of its id and a sweep after its expiry.\<close>

definition keeps :: "rdv_codec \<Rightarrow> string \<Rightarrow> nat \<Rightarrow> rdv_env \<times> rdv_event \<Rightarrow> bool" where
  "keeps C i t e \<longleftrightarrow> \<not> registers C i (snd e) \<and> (snd e = Sweep \<longrightarrow> now (fst e) < t + PEER_EXPIRY)"

lemma rdv_step_keeps:
  assumes "distinct (map fst (peers s))" and "map_of (peers s) i = Some entry" and "keeps C i (pe_last_seen entry) e"
  shows "map_of (peers (rdv_step C R ok e s)) i = Some entry"
proof (cases "snd e = Sweep")
  case True
  then have "rdv_step C R ok e s = expire_peers (now (fst e)) s" by (simp add: rdv_step_def)
  moreover have "now (fst e) - pe_last_seen entry < PEER_EXPIRY"
    using assms(3) True by (auto simp: keeps_def PEER_EXPIRY_def from_secs_def)
  ultimately show ?thesis using assms by (simp add: map_of_expire)
next
  case False
  with assms show ?thesis using rdv_step_other [of C i "snd e" R ok "fst e" s] by (simp add: keeps_def)
qed

lemma rdv_run_keeps:
  assumes "distinct (map fst (peers s))" and "map_of (peers s) i = Some entry" and "list_all (keeps C i (pe_last_seen entry)) h"
  shows "map_of (peers (rdv_run C R ok h s)) i = Some entry"
  using assms
proof (induction h arbitrary: s)
  case (Cons e h)
  have "map_of (peers (rdv_step C R ok e s)) i = Some entry" using Cons.prems by (intro rdv_step_keeps) simp_all
  moreover have "distinct (map fst (peers (rdv_step C R ok e s)))" using Cons.prems rdv_step_distinct [of s C R ok "fst e" "snd e"] by simp
  ultimately show ?case using Cons by simp
qed simp

text \<open>Without a registration after it, an absent id stays absent.\<close>

lemma rdv_run_absent:
  assumes "distinct (map fst (peers s))" and "map_of (peers s) i = None" and "list_all (\<lambda>e. \<not> registers C i (snd e)) h"
  shows "map_of (peers (rdv_run C R ok h s)) i = None"
  using assms
proof (induction h arbitrary: s)
  case (Cons e h)
  obtain E ev where e: "e = (E, ev)" by (cases e)
  have "map_of (peers (rdv_step C R ok e s)) i = None"
  proof (cases "ev = Sweep")
    case True
    with Cons.prems e show ?thesis by (simp add: rdv_step_def map_of_expire)
  next
    case False
    with Cons.prems e rdv_step_other [of C i ev R ok E s] show ?thesis by simp
  qed
  moreover have "distinct (map fst (peers (rdv_step C R ok e s)))" using Cons.prems e by (simp add: rdv_step_distinct)
  ultimately show ?case using Cons by simp
qed simp

text \<open>The address a registration leaves: a datagram's source; over TCP that of the existing entry, if there is one.\<close>

definition registered_addr :: "rdv_event \<Rightarrow> string \<Rightarrow> (string \<times> peer_entry) list \<Rightarrow> sock_addr option" where
  "registered_addr ev i ps =
     (case ev of
        Datagram _ src \<Rightarrow> Some src
      | Tcp _ _ peer \<Rightarrow> Some (case map_of ps i of Some e \<Rightarrow> pe_addr e | None \<Rightarrow> peer)
      | Sweep \<Rightarrow> None)"

lemma registration_stores:
  assumes "message_of C ev = Some (Register_Peer rp)" "rp_id rp = i" "i \<noteq> []"
  shows "\<exists>addr notify. registered_addr ev i (peers s) = Some addr \<and>
    map_of (peers (rdv_step C R ok (E, ev) s)) i = Some (entry_of (now E) addr rp notify)"
  using assms
  by (cases ev) (auto simp: rdv_step_datagram handle_message_peers rdv_step_tcp handle_tcp_register_def registered_addr_def
      message_of_def update_conv Let_def)

text \<open>C36. Lookup after registration: a client that asks for a device with the right key is given the address, ports and
  network information of the device's last registration, over a datagram or over TCP (where the address of an
  earlier registration is kept), as long as no sweep came five minutes or more after it; once such a sweep has
  come, or when the device never registered, the answer is that the id does not exist. A client behind the
  same address as the device is told to look for it in its own network.\<close>

theorem rdv_lookup:
  assumes key: "rv_key R = [] \<or> lk = rv_key R"
    and reg: "message_of C ev = Some (Register_Peer rp)" "rp_id rp = i" "i \<noteq> []"
    and pre: "distinct (map fst (peers s))"
    and post: "list_all (\<lambda>e. \<not> registers C i (snd e)) post"
    and addr: "registered_addr ev i (peers s) = Some device"
  shows "let s' = rdv_run C R ok ((E, ev) # post) s;
             swept = list_ex (\<lambda>e. snd e = Sweep \<and> now E + PEER_EXPIRY \<le> now (fst e)) post;
             addr = encode_socket_addr (unix_tm E') device
         in handle_punch_hole R E' \<lparr>phr_id = i, phr_licence_key = lk\<rparr> src' s' =
              Some (if swept then Punch_Hole_Response (not_found R Id_Not_Exist)
                    else if fst device = fst src'
                    then Fetch_Local_Addr \<lparr>fla_socket_addr = addr, fla_relay_server = rv_relay_server R,
                           fla_encrypted_net_info = rp_encrypted_net_info rp\<rparr>
                    else Punch_Hole_Response \<lparr>phs_socket_addr = addr, phs_failure = Id_Not_Exist,
                           phs_relay_server = rv_relay_server R, phs_encrypted_net_info = rp_encrypted_net_info rp,
                           phs_ports = rp_ports rp\<rparr>)
            \<and> (list_all (\<lambda>e. \<not> registers C i (snd e)) h \<longrightarrow>
                 handle_punch_hole R E' \<lparr>phr_id = i, phr_licence_key = lk\<rparr> src' (rdv_run C R ok h rdv_start) =
                   Some (Punch_Hole_Response (not_found R Id_Not_Exist)))"
proof -
  let ?s1 = "rdv_step C R ok (E, ev) s"
  obtain notify where m1: "map_of (peers ?s1) i = Some (entry_of (now E) device rp notify)"
    using registration_stores [OF reg, of s R ok E] addr by auto
  let ?entry = "entry_of (now E) device rp notify"
  let ?old = "\<lambda>e. snd e = Sweep \<and> now E + PEER_EXPIRY \<le> now (fst e)"
  have d1: "distinct (map fst (peers ?s1))" using pre by (rule rdv_step_distinct)
  have seen: "pe_last_seen ?entry = now E" by (simp add: entry_of_def)
  have found: "map_of (peers (rdv_run C R ok post ?s1)) i = (if list_ex ?old post then None else Some ?entry)"
  proof (cases "list_ex ?old post")
    case False
    then have "list_all (keeps C i (pe_last_seen ?entry)) post"
      using post by (auto simp: list_all_iff list_ex_iff keeps_def seen not_le)
    with False rdv_run_keeps [OF d1 m1] show ?thesis by simp
  next
    case True
    then have "\<exists>e \<in> set post. ?old e" by (simp add: list_ex_iff)
    from split_list_first_prop [OF this] obtain p1 e p2
      where split: "post = p1 @ e # p2" "?old e" "\<not> list_ex ?old p1"
      unfolding list_ex_iff by blast
    have "list_all (keeps C i (pe_last_seen ?entry)) p1"
      using post split by (auto simp: list_all_iff list_ex_iff keeps_def seen not_le)
    then have "map_of (peers (rdv_run C R ok p1 ?s1)) i = Some ?entry" by (rule rdv_run_keeps [OF d1 m1])
    moreover have "rdv_step C R ok e (rdv_run C R ok p1 ?s1) = expire_peers (now (fst e)) (rdv_run C R ok p1 ?s1)"
      using split by (simp add: rdv_step_def)
    ultimately have "map_of (peers (rdv_step C R ok e (rdv_run C R ok p1 ?s1))) i = None"
      using split(2) rdv_run_distinct [OF d1] by (auto simp: map_of_expire seen)
    moreover have "list_all (\<lambda>e. \<not> registers C i (snd e)) p2" using post split by simp
    moreover have "distinct (map fst (peers (rdv_step C R ok e (rdv_run C R ok p1 ?s1))))"
      by (metis rdv_run_distinct [OF d1] rdv_step_distinct surj_pair)
    ultimately show ?thesis using True split(1) rdv_run_absent by simp
  qed
  have none: "map_of (peers (rdv_run C R ok h rdv_start)) i = None" if "list_all (\<lambda>e. \<not> registers C i (snd e)) h"
    using that rdv_run_absent [of rdv_start i C h R ok] by (simp add: rdv_start_def)
  have nokey: "\<not> (rv_key R \<noteq> [] \<and> phr_licence_key \<lparr>phr_id = i, phr_licence_key = lk\<rparr> \<noteq> rv_key R)"
    using key by auto
  show ?thesis
    unfolding Let_def rdv_run_simps handle_punch_hole_def if_not_P [OF nokey]
  proof (intro conjI impI, goal_cases)
    case 1 show ?case by (cases "list_ex ?old post") (simp_all add: found entry_of_def)
  next
    case 2 then show ?case by (simp add: none)
  qed
qed

section \<open>Published versions\<close>

definition publishes :: "rdv_codec \<Rightarrow> string \<times> string \<Rightarrow> rdv_event \<Rightarrow> bool" where
  "publishes C k ev \<longleftrightarrow>
     (\<exists>req a. message_of C ev = Some (Publish_Version_Request req) \<and> pv_advert req = Some a \<and>
        (va_platform a, va_track a) = k)"

lemma handle_message_adverts:
  "version_adverts (snd (handle_message R E msg src s)) =
     (case msg of Some (Publish_Version_Request req) \<Rightarrow> version_adverts (snd (handle_publish_version E req s))
      | _ \<Rightarrow> version_adverts s)"
  by (auto simp: handle_message_def handle_register_peer_def split: option.split rendezvous_union.split prod.split)

lemma rdv_step_adverts:
  "version_adverts (rdv_step C R ok (E, ev) s) =
     (case message_of C ev of Some (Publish_Version_Request req) \<Rightarrow> version_adverts (snd (handle_publish_version E req s))
      | _ \<Rightarrow> version_adverts s)"
proof (cases ev)
  case (Datagram data src)
  then show ?thesis by (simp add: rdv_step_datagram handle_message_adverts)
next
  case (Tcp conn stream peer)
  then show ?thesis
    by (auto simp: rdv_step_tcp handle_tcp_register_def Let_def split: option.split rendezvous_union.split)
qed (simp add: rdv_step_def expire_peers_def message_of_def)

lemma rdv_run_adverts:
  "list_all (\<lambda>e. \<not> publishes C k (snd e)) h \<Longrightarrow>
     map_of (version_adverts (rdv_run C R ok h s)) k = map_of (version_adverts s) k"
proof (induction h arbitrary: s)
  case (Cons e h)
  obtain E ev where e: "e = (E, ev)" by (cases e)
  have "map_of (version_adverts (rdv_step C R ok e s)) k = map_of (version_adverts s) k"
    using Cons.prems unfolding e rdv_step_adverts publishes_def
    by (auto simp: handle_publish_version_def update_conv Let_def split: option.split rendezvous_union.split)
  with Cons show ?case by simp
qed simp

lemma published_entry:
  assumes "message_of C ev = Some (Publish_Version_Request req)" and "pv_advert req = Some a"
    and "va_platform a = p" "va_track a = t" and "p \<noteq> []" "t \<noteq> []" "va_latest_version a \<noteq> []"
    and "list_all (\<lambda>e. \<not> publishes C (p, t) (snd e)) post"
  shows "map_of (version_adverts (rdv_run C R ok ((E, ev) # post) s)) (p, t) =
    Some \<lparr>ve_advert = a\<lparr>va_published_at_unix := sint (unix_secs E)\<rparr>, ve_binary_blob = pv_binary_blob req\<rparr>"
  using rdv_run_adverts [OF assms(8)] assms(1-7)
  by (simp add: rdv_step_adverts handle_publish_version_def update_conv Let_def)

text \<open>What was published is served: after an accepted publication for a platform and track, and until
  the next one for them, a query is answered with that advert exactly when the asking server reports no
  version or an older one, and a fetch of that version returns exactly the published binary with its
  signature, while a fetch of any other version is refused.\<close>

theorem rdv_version_served:
  assumes "message_of C ev = Some (Publish_Version_Request req)" and "pv_advert req = Some a"
    and "va_platform a = p" "va_track a = t" "va_latest_version a = v" and "p \<noteq> []" "t \<noteq> []" "v \<noteq> []"
    and "list_all (\<lambda>e. \<not> publishes C (p, t) (snd e)) post"
  shows "let s' = rdv_run C R ok ((E, ev) # post) s; newer = (cur = [] \<or> semver_greater v cur)
    in handle_query_version \<lparr>qv_platform = p, qv_track = t, qv_current_version = cur\<rparr> s' =
         Query_Version_Response newer (if newer then Some (a\<lparr>va_published_at_unix := sint (unix_secs E)\<rparr>) else None) \<and>
       (\<exists>msg. handle_fetch_binary \<lparr>fb_platform = p, fb_track = t, fb_version = w\<rparr> s' =
         Fetch_Binary_Response
           (if w = v \<and> pv_binary_blob req \<noteq> []
            then \<lparr>fr_found = True, fr_binary_blob = pv_binary_blob req, fr_signature = va_signature a, fr_error_message = []\<rparr>
            else fetch_failed msg))"
proof -
  have "map_of (version_adverts (rdv_run C R ok ((E, ev) # post) s)) (p, t) =
      Some \<lparr>ve_advert = a\<lparr>va_published_at_unix := sint (unix_secs E)\<rparr>, ve_binary_blob = pv_binary_blob req\<rparr>"
    using published_entry [OF assms(1-4,6,7) _ assms(9)] assms(5,8) by simp
  with assms(5) show ?thesis
    by (simp add: Let_def handle_query_version_def handle_fetch_binary_def) metis
qed

section \<open>Witnesses\<close>

definition sample_peer :: register_peer where
  "sample_peer = \<lparr>rp_id = ''dev1'', rp_group_hash = [], rp_hostname = ''h'', rp_platform = ''linux'', rp_service_port = 8822,
     rp_encrypted_net_info = [7], rp_ports = [], rp_current_version = [], rp_last_update_status = [],
     rp_last_update_at_unix = 0, rp_track = [], rp_auto_upgrade = False\<rparr>"

definition sample_publish :: publish_version_request where
  "sample_publish = \<lparr>pv_advert = Some \<lparr>va_platform = ''l'', va_track = ''s'', va_latest_version = ''2'', va_download_url = [],
     va_signature = [9], va_published_at_unix = 0\<rparr>, pv_binary_blob = [1, 2], pv_operator_signature = []\<rparr>"

text \<open>A codec that tells a registration from a publication by the first byte.\<close>

definition sample_codec :: rdv_codec where
  "sample_codec = \<lparr>rdv_decode = (\<lambda>data. Some (Some (if hd data = 1 then Register_Peer sample_peer
       else Publish_Version_Request sample_publish))),
     rdv_encode = (\<lambda>_. [])\<rparr>"

definition sample_rdv_env :: "nat \<Rightarrow> rdv_env" where
  "sample_rdv_env t = \<lparr>now = from_secs t, unix_secs = 5, pkg_version = ''1'', rdv_sha256 = id\<rparr>"

abbreviation sample_rdv :: rendezvous_server where
  "sample_rdv \<equiv> \<lparr>rv_key = ''k'', rv_relay_server = ''r''\<rparr>"

lemma sample_messages:
  "message_of sample_codec (Datagram [1] src) = Some (Register_Peer sample_peer)"
  "message_of sample_codec (Datagram [2] src) = Some (Publish_Version_Request sample_publish)"
  "message_of sample_codec Sweep = None"
  by (simp_all add: message_of_def sample_codec_def)

theorem rdv_lookup_witness:
  "handle_punch_hole sample_rdv (sample_rdv_env 400) \<lparr>phr_id = ''dev1'', phr_licence_key = ''k''\<rparr> (V4 9 9 9 9, 1)
     (rdv_run sample_codec sample_rdv (\<lambda>_. True)
        [(sample_rdv_env 0, Datagram [1] (V4 1 2 3 4, 5)), (sample_rdv_env 60, Sweep), (sample_rdv_env 300, Sweep)] rdv_start)
   = Some (Punch_Hole_Response (not_found sample_rdv Id_Not_Exist))"
proof -
  have "list_all (\<lambda>e. \<not> registers sample_codec ''dev1'' (snd e)) [(sample_rdv_env 60, Sweep), (sample_rdv_env 300, Sweep)]"
    by (simp add: registers_def sample_messages)
  from rdv_lookup [of sample_rdv "''k''", OF _ sample_messages(1) [of "(V4 1 2 3 4, 5)"] _ _ _ this, where s = rdv_start and E = "sample_rdv_env 0"
      and E' = "sample_rdv_env 400" and device = "(V4 1 2 3 4, 5)" and src' = "(V4 9 9 9 9, 1)"
      and ok = "\<lambda>_. True" and h = "[]"]
  show ?thesis
    by (simp add: sample_peer_def rdv_start_def sample_rdv_env_def PEER_EXPIRY_def from_secs_def Let_def registered_addr_def)
qed

theorem rdv_version_served_witness:
  "\<exists>msg. handle_fetch_binary \<lparr>fb_platform = ''l'', fb_track = ''s'', fb_version = ''2''\<rparr>
     (rdv_run sample_codec sample_rdv (\<lambda>_. True) [(sample_rdv_env 0, Datagram [2] (V4 1 2 3 4, 5)), (sample_rdv_env 60, Sweep)]
        rdv_start) =
     Fetch_Binary_Response \<lparr>fr_found = True, fr_binary_blob = [1, 2], fr_signature = [9], fr_error_message = msg\<rparr>"
proof -
  have "list_all (\<lambda>e. \<not> publishes sample_codec (''l'', ''s'') (snd e)) [(sample_rdv_env 60, Sweep)]"
    by (simp add: publishes_def sample_messages)
  from rdv_version_served [OF sample_messages(2) [of "(V4 1 2 3 4, 5)"] _ _ _ _ _ _ _ this, where R = sample_rdv
      and ok = "\<lambda>_. True" and E = "sample_rdv_env 0" and s = rdv_start and cur = "[]" and w = "''2''" and v = "''2''"]
  show ?thesis by (simp add: sample_publish_def Let_def)
qed

end
