(* ===== verification/Self_Update.thy ===== *)
theory Self_Update
  imports Update_Status Rendezvous Sync_Files
begin

text \<open>
  \<open>mrsh-server/src/selfupdate.rs\<close> (the Linux build), \<open>mrsh-core/src/release_signing.rs\<close> and the queries of
  \<open>mrsh-relay/src/rendezvous/client_query.rs\<close> they use: replacing the running binary, and fetching a signed
  one from a rendezvous server. Functions on the state of a machine, chained as \<open>?\<close> chains them; the
  machine keeps every disk it has been through, so that what holds at any instant can be stated. The steps
  of one status operation count as one.
\<close>

section \<open>The machine\<close>

record machine =
  m_disk :: disk
  past :: "disk list"
  restarts :: "(string \<times> disk) list"

text \<open>What the process finds around it: its own path, lengths of directories, the outcome of \<open>systemctl
  restart\<close>, the environment that names the data directory, the clock, and the build: version, platform and
  release key. \<open>verifier\<close> reads a key in PEM form and gives its Ed25519 check; \<open>err_text\<close> is the text of
  an error that is not a message.\<close>

record host =
  current_exe :: "string option"
  dir_len :: "string \<Rightarrow> nat"
  systemctl :: "string \<Rightarrow> bool"
  data_dir_var :: "string option"
  is_root :: bool
  home_var :: "string option"
  clock :: int
  build_version :: string
  target_musl :: bool
  signing_key_pem :: string
  verifier :: "string \<Rightarrow> (bytes \<Rightarrow> bytes \<Rightarrow> bool) option"
  err_text :: "err \<Rightarrow> string"

definition say :: "host \<Rightarrow> err \<Rightarrow> string" where
  "say H e = (case e of Failed m \<Rightarrow> m | _ \<Rightarrow> err_text H e)"

text \<open>One operation on the disk; one whose error is only logged; one whose error ends the function.\<close>

definition on_disk :: "(disk \<Rightarrow> 'a \<times> disk) \<Rightarrow> machine \<Rightarrow> 'a \<times> machine" where
  "on_disk f m = (case f (m_disk m) of (r, d) \<Rightarrow> (r, m\<lparr>m_disk := d, past := past m @ [m_disk m]\<rparr>))"

definition attempt :: "(disk \<Rightarrow> 'a \<times> disk) \<Rightarrow> (machine, unit) act" where
  "attempt f m = (Inr (), snd (on_disk f m))"

definition must :: "string \<Rightarrow> (disk \<Rightarrow> io_error option \<times> disk) \<Rightarrow> (machine, unit) act" where
  "must context f m =
     (case on_disk f m of (Some _, m') \<Rightarrow> (Inl (Failed context), m') | (None, m') \<Rightarrow> (Inr (), m'))"

definition systemctl_restart :: "host \<Rightarrow> string \<Rightarrow> (machine, bool) act" where
  "systemctl_restart H svc m = (Inr (systemctl H svc), m\<lparr>restarts := restarts m @ [(svc, m_disk m)]\<rparr>)"

definition default_data_dir :: "host \<Rightarrow> disk \<Rightarrow> string" where
  "default_data_dir H d =
     (case data_dir_var H of
        Some v \<Rightarrow> v
      | None \<Rightarrow>
          if is_root H then
            if fault d ''/etc/mrsh'' = None \<and> path_exists d ''/etc/mrsh'' then ''/etc/mrsh''
            else if fault d ''/etc/rsh'' = None \<and> path_exists d ''/etc/rsh'' then ''/etc/rsh''
            else ''/etc/mrsh''
          else case home_var H of Some home \<Rightarrow> path_join home ''.mrsh'' | None \<Rightarrow> ''/etc/mrsh'')"

section \<open>Replacing the binary\<close>

definition MIN_BINARY_SIZE :: nat where
  "MIN_BINARY_SIZE = 1000000"

definition validate_update_path :: "host \<Rightarrow> disk \<Rightarrow> string \<Rightarrow> unit result" where
  "validate_update_path H d path =
     (case metadata_len (dir_len H) d path of
        Inl _ \<Rightarrow> Inl (Failed (''new binary not found: '' @ path))
      | Inr len \<Rightarrow>
          if len < MIN_BINARY_SIZE
          then Inl (Failed (''new binary too small: '' @ show_nat len @ '' bytes (minimum '' @ show_nat MIN_BINARY_SIZE @ '' bytes)''))
          else Inr ())"

text \<open>\<open>str::trim_end_matches\<close> with a text.\<close>

function trim_end_text :: "string \<Rightarrow> string \<Rightarrow> string" where
  "trim_end_text pat s =
     (if pat \<noteq> [] \<and> ends_with s pat then trim_end_text pat (take (length s - length pat) s) else s)"
  by pat_completeness auto
termination
  by (relation "measure (length \<circ> snd)") (auto simp: ends_with_def diff_less intro!: diff_less dest: suffix_length_le suffix_bot.extremum_uniqueI)

declare trim_end_text.simps [simp del]

definition arrow :: string where
  "arrow = [CHR '' '', CHR 0xE2, CHR 0x86, CHR 0x92, CHR '' '']"

definition live_exe :: "string \<Rightarrow> string" where
  "live_exe raw_exe = trim_end_text '' (deleted)'' raw_exe"

definition restart_any :: "host \<Rightarrow> (machine, bool) act" where
  "restart_any H =
     then_do (systemctl_restart H ''mrsh'') (\<lambda>ok. if ok then give True else systemctl_restart H ''rsh'')"

definition replace_binary_linux :: "host \<Rightarrow> string \<Rightarrow> (machine, string \<times> string) act" where
  "replace_binary_linux H new_binary =
     then_do (lift_result (ok_or (Failed ''get current exe path'') (current_exe H))) (\<lambda>raw_exe.
       let exe_path = live_exe raw_exe;
           backup_path = exe_path @ ''.bak'';
           incoming_path = exe_path @ ''.incoming''
       in then_do (attempt (fs_remove backup_path)) (\<lambda>_.
          then_do (must (''backup '' @ exe_path @ arrow @ backup_path) (fs_copy exe_path backup_path)) (\<lambda>_.
          then_do (attempt (fs_remove incoming_path)) (\<lambda>_.
          then_do (must (''stage '' @ new_binary @ arrow @ incoming_path) (fs_copy new_binary incoming_path)) (\<lambda>_.
          then_do (must ''set executable permission on .incoming'' (fs_set_permissions incoming_path)) (\<lambda>_.
          then_do (must (''atomic rename '' @ incoming_path @ arrow @ exe_path) (fs_rename incoming_path exe_path)) (\<lambda>_.
          then_do (attempt (fs_remove new_binary)) (\<lambda>_.
          then_do (restart_any H) (\<lambda>restarted.
            if restarted then give (''updated '' @ exe_path @ '' and restarted via systemd'', backup_path)
            else give (''updated '' @ exe_path @ '' (manual restart required '' @ [CHR 0xE2, CHR 0x80, CHR 0x94]
                   @ '' not running as systemd service)'', backup_path))))))))))"

text \<open>\<open>handle_self_update\<close>; on Unix the path is taken as it is.\<close>

definition handle_self_update :: "host \<Rightarrow> string \<Rightarrow> machine \<Rightarrow> response \<times> machine" where
  "handle_self_update H path m =
     (case validate_update_path H (m_disk m) path of
        Inl e \<Rightarrow> (response_error (say H e), m)
      | Inr _ \<Rightarrow>
          let dir = default_data_dir H (m_disk m);
              m1 = snd (on_disk (write_pending dir path) m)
          in case replace_binary_linux H path m1 of
               (Inr (msg, bak_path), m2) \<Rightarrow>
                 (response_ok (Some msg), snd (on_disk (arm_watchdog dir (clock H) bak_path) m2))
             | (Inl e, m2) \<Rightarrow>
                 (response_error (say H e), snd (on_disk (record_update_failure dir (clock H) (say H e)) m2)))"

section \<open>Signatures\<close>

definition MAX_BINARY_BYTES :: nat where
  "MAX_BINARY_BYTES = 256 * 1024 * 1024"

definition SIGNATURE_SIZE :: nat where
  "SIGNATURE_SIZE = 64"

definition read_binary :: "host \<Rightarrow> disk \<Rightarrow> string \<Rightarrow> bytes result" where
  "read_binary H d path =
     (case metadata_len (dir_len H) d path of
        Inl _ \<Rightarrow> Inl (Failed (''stat binary: '' @ path))
      | Inr len \<Rightarrow>
          if MAX_BINARY_BYTES < len
          then Inl (Failed (''binary '' @ path @ '' is '' @ show_nat len @ '' bytes, exceeds release-signing cap of ''
                 @ show_nat MAX_BINARY_BYTES @ '' bytes''))
          else case fs_read d path of Inl _ \<Rightarrow> Inl (Failed (''read binary: '' @ path)) | Inr b \<Rightarrow> Inr b)"

definition verify_with_key :: "host \<Rightarrow> disk \<Rightarrow> string \<Rightarrow> bytes \<Rightarrow> (bytes \<Rightarrow> bytes \<Rightarrow> bool) \<Rightarrow> bool result" where
  "verify_with_key H d path signature verify =
     (if length signature \<noteq> SIGNATURE_SIZE
      then Inl (Failed (''signature length is '' @ show_nat (length signature) @ '' bytes, expected ''
             @ show_nat SIGNATURE_SIZE @ '' (Ed25519)''))
      else and_then (read_binary H d path) (\<lambda>b. Inr (verify b signature)))"

definition empty_key_message :: string where
  "empty_key_message = ''SIGNING_PUBLIC_KEY_PEM is empty '' @ [CHR 0xE2, CHR 0x80, CHR 0x94]
     @ '' this build was not configured with a release-signing public key. See docs/release-signing.md.''"

definition verify_binary :: "host \<Rightarrow> disk \<Rightarrow> string \<Rightarrow> bytes \<Rightarrow> bool result" where
  "verify_binary H d path signature =
     (if trim (signing_key_pem H) = [] then Inl (Failed empty_key_message)
      else case verifier H (trim (signing_key_pem H)) of
             None \<Rightarrow> Inl (Failed ''parse embedded SIGNING_PUBLIC_KEY_PEM'')
           | Some verify \<Rightarrow> verify_with_key H d path signature verify)"

section \<open>Asking the rendezvous servers\<close>

text \<open>The configured servers (\<open>build_rdv_client_from_config\<close>).\<close>

definition rdv_servers :: "string option \<Rightarrow> string list \<Rightarrow> string list result" where
  "rdv_servers rendezvous_server rendezvous_servers =
     (let servers = (case rendezvous_server of Some s \<Rightarrow> [s] | None \<Rightarrow> []) @ rendezvous_servers
      in if servers = [] then Inl (Failed ''no rendezvous server configured (set rendezvous_server in config)'')
         else Inr servers)"

text \<open>The network: sending a datagram to a server and waiting for one, or the text of what went wrong;
  connecting by TCP, writing, and the bytes that come back. The codec is that of the messages.\<close>

record network =
  udp_ask :: "string \<Rightarrow> bytes \<Rightarrow> string + bytes"
  tcp_ask :: "string \<Rightarrow> bytes \<Rightarrow> string + bytes"
  codec :: rdv_codec

text \<open>Servers are asked in turn until one answers; \<open>last_err\<close> is the latest error.\<close>

fun query_servers :: "host \<Rightarrow> network \<Rightarrow> bytes \<Rightarrow> string \<Rightarrow> string list \<Rightarrow> version_advert option result" where
  "query_servers H N msg last_err [] = Inl (Failed (''query_version failed on all servers; last: '' @ last_err))"
| "query_servers H N msg last_err (srv # rest) =
     (case udp_ask N srv msg of
        Inl e \<Rightarrow> query_servers H N msg e rest
      | Inr buf \<Rightarrow>
          (case rdv_decode (codec N) (take 65535 buf) of
             None \<Rightarrow> query_servers H N msg (err_text H Deserialize) rest
           | Some (Some (Query_Version_Response update_available advert)) \<Rightarrow>
               Inr (if update_available then advert else None)
           | Some _ \<Rightarrow> query_servers H N msg (''unexpected response from '' @ srv) rest))"

definition query_version :: "host \<Rightarrow> network \<Rightarrow> string list \<Rightarrow> string \<Rightarrow> string \<Rightarrow> string \<Rightarrow> version_advert option result" where
  "query_version H N servers platform track current_version =
     (if servers = [] then Inl (Failed ''no rendezvous server configured'')
      else query_servers H N (rdv_encode (codec N) (Query_Version_Request
             \<lparr>qv_platform = platform, qv_track = track, qv_current_version = current_version\<rparr>)) ''no servers'' servers)"

definition fetch_binary_one :: "host \<Rightarrow> network \<Rightarrow> string \<Rightarrow> bytes \<Rightarrow> fetch_binary_response result" where
  "fetch_binary_one H N srv msg =
     (case tcp_ask N srv (encode_frame msg) of
        Inl e \<Rightarrow> Inl (Failed e)
      | Inr reply \<Rightarrow>
          (case decode_frame reply of
             Inl e \<Rightarrow> Inl (Failed (''tcp fetch read: '' @ say H e))
           | Inr (resp_bytes, _) \<Rightarrow>
               (case rdv_decode (codec N) resp_bytes of
                  None \<Rightarrow> Inl (Failed (''decode tcp fetch response: '' @ err_text H Deserialize))
                | Some (Some (Fetch_Binary_Response fbr)) \<Rightarrow> Inr fbr
                | Some _ \<Rightarrow> Inl (Failed (''unexpected response from '' @ srv)))))"

fun fetch_servers :: "host \<Rightarrow> network \<Rightarrow> bytes \<Rightarrow> string \<Rightarrow> string list \<Rightarrow> (bytes \<times> bytes) result" where
  "fetch_servers H N msg last_err [] = Inl (Failed (''fetch_binary failed on all servers; last: '' @ last_err))"
| "fetch_servers H N msg last_err (srv # rest) =
     (case fetch_binary_one H N srv msg of
        Inr resp \<Rightarrow>
          if \<not> fr_found resp then Inl (Failed (''rdv: '' @ fr_error_message resp))
          else Inr (fr_binary_blob resp, fr_signature resp)
      | Inl e \<Rightarrow> fetch_servers H N msg (say H e) rest)"

definition fetch_binary :: "host \<Rightarrow> network \<Rightarrow> string list \<Rightarrow> string \<Rightarrow> string \<Rightarrow> string \<Rightarrow> (bytes \<times> bytes) result" where
  "fetch_binary H N servers platform track version =
     (if servers = [] then Inl (Failed ''no rendezvous server configured'')
      else fetch_servers H N (rdv_encode (codec N) (Fetch_Binary_Request
             \<lparr>fb_platform = platform, fb_track = track, fb_version = version\<rparr>)) ''no servers'' servers)"

section \<open>Updating from a rendezvous server\<close>

definition build_platform :: "host \<Rightarrow> string" where
  "build_platform H = (if target_musl H then ''linux-musl'' else ''linux-glibc'')"

text \<open>\<open>semver_strictly_greater\<close>: each part counts by its leading digits, a value beyond \<open>u64\<close> as 0.\<close>

definition ascii_digit :: "char \<Rightarrow> bool" where
  "ascii_digit c \<longleftrightarrow> 48 \<le> (of_char c :: nat) \<and> (of_char c :: nat) \<le> 57"

definition semver_numbers :: "string \<Rightarrow> nat list" where
  "semver_numbers s =
     map (\<lambda>p. case parse_uint (2 ^ 64) (takeWhile ascii_digit p) of Some n \<Rightarrow> n | None \<Rightarrow> 0) (split_char (CHR ''.'') [] s)"

fun numbers_greater :: "nat list \<Rightarrow> nat list \<Rightarrow> bool" where
  "numbers_greater [] [] = False"
| "numbers_greater (x # xs) [] = (if x \<noteq> 0 then x > 0 else numbers_greater xs [])"
| "numbers_greater [] (y # ys) = (if y \<noteq> 0 then 0 > y else numbers_greater [] ys)"
| "numbers_greater (x # xs) (y # ys) = (if x \<noteq> y then x > y else numbers_greater xs ys)"

definition semver_strictly_greater :: "string \<Rightarrow> string \<Rightarrow> bool" where
  "semver_strictly_greater a b = numbers_greater (semver_numbers a) (semver_numbers b)"

text \<open>Step 3 of \<open>handle_self_update_from_rdv\<close>: the version to install, or the refusal.\<close>

definition dash :: string where
  "dash = [CHR '' '', CHR 0xE2, CHR 0x80, CHR 0x94, CHR '' '']"

definition target_version :: "string option \<Rightarrow> bool \<Rightarrow> string \<Rightarrow> version_advert \<Rightarrow> string result" where
  "target_version version_pin allow_downgrade current_version advert =
     (case version_pin of
        Some pin \<Rightarrow>
          if va_latest_version advert \<noteq> pin
          then Inl (Failed (''self-update-from-rdv: version mismatch'' @ dash @ ''pinned='' @ pin @ '', advert='' @ va_latest_version advert))
          else if \<not> semver_strictly_greater pin current_version \<and> pin \<noteq> current_version \<and> \<not> allow_downgrade
          then Inl (Failed (''self-update-from-rdv: pinned version '' @ pin @ '' is older than running '' @ current_version
                 @ dash @ ''pass --allow-downgrade to accept the rollback''))
          else Inr pin
      | None \<Rightarrow> Inr (va_latest_version advert))"

text \<open>The decision of step 6: nothing when the binary may be used, else the refusal. \<open>fetched\<close> is the disk
  with the fetched file.\<close>

definition check_signature :: "host \<Rightarrow> bool \<Rightarrow> disk \<Rightarrow> string \<Rightarrow> bytes \<Rightarrow> string option" where
  "check_signature H insecure_no_verify fetched path signature =
     (let key_populated = (trim (signing_key_pem H) \<noteq> [])
      in if insecure_no_verify \<and> key_populated
         then Some (''self-update-from-rdv: --insecure-no-verify REJECTED'' @ dash
                @ ''SIGNING_PUBLIC_KEY_PEM is populated, signature verification is mandatory. ''
                @ ''Remove the flag to use the real verify path.'')
         else if insecure_no_verify then None
         else case verify_binary H fetched path signature of
                Inr True \<Rightarrow> None
              | Inr False \<Rightarrow>
                  Some (''self-update-from-rdv: signature verification FAILED'' @ dash @ ''binary rejected, fetched bytes discarded'')
              | Inl e \<Rightarrow>
                  if contains (say H e) ''SIGNING_PUBLIC_KEY_PEM is empty''
                  then Some (''self-update-from-rdv: SIGNING_PUBLIC_KEY_PEM is empty in this build. ''
                         @ ''Pass --insecure-no-verify to proceed anyway (DEV ONLY) or build with ''
                         @ ''a populated signing key (see docs/release-signing.md, rsh-5264.7)'')
                  else Some (''self-update-from-rdv: signature verify error: '' @ say H e))"

definition fetch_verify_and_swap ::
  "host \<Rightarrow> network \<Rightarrow> string list \<Rightarrow> string \<Rightarrow> string \<Rightarrow> string \<Rightarrow> bool \<Rightarrow> machine \<Rightarrow> response \<times> machine" where
  "fetch_verify_and_swap H N servers platform track version insecure_no_verify m =
     (case fetch_binary H N servers platform track version of
        Inl e \<Rightarrow> (response_error (''self-update-from-rdv: fetch_binary failed: '' @ say H e), m)
      | Inr (blob, signature) \<Rightarrow>
          if blob = []
          then (response_error (''self-update-from-rdv: rdv returned empty binary_blob (publish was --no-blob? ''
                  @ ''this PR requires inline blob)''), m)
          else
            let data_dir = default_data_dir H (m_disk m)
            in case on_disk (create_dir_all data_dir) m of
                 (Some e, m1) \<Rightarrow>
                   (response_error (''self-update-from-rdv: create data_dir '' @ data_dir @ '': '' @ show_io e), m1)
               | (None, m1) \<Rightarrow>
                   (let new_path = path_join data_dir ''mrsh.new''
                    in case on_disk (fs_write new_path blob) m1 of
                         (Some e, m2) \<Rightarrow> (response_error (''self-update-from-rdv: write '' @ new_path @ '': '' @ show_io e), m2)
                       | (None, m2) \<Rightarrow>
                           (case check_signature H insecure_no_verify (m_disk m2) new_path signature of
                              Some refusal \<Rightarrow> (response_error refusal, snd (on_disk (fs_remove new_path) m2))
                            | None \<Rightarrow> handle_self_update H new_path m2)))"

definition handle_self_update_from_rdv ::
  "host \<Rightarrow> network \<Rightarrow> string list result \<Rightarrow> string \<Rightarrow> string option \<Rightarrow> bool \<Rightarrow> bool \<Rightarrow> machine \<Rightarrow> response \<times> machine" where
  "handle_self_update_from_rdv H N config_servers track version_pin allow_downgrade insecure_no_verify m =
     (let track = (if track = [] then ''stable'' else track); current_version = build_version H; platform = build_platform H
      in case config_servers of
           Inl e \<Rightarrow> (response_error (''self-update-from-rdv: build rdv client: '' @ say H e), m)
         | Inr servers \<Rightarrow>
             (case query_version H N servers platform track current_version of
                Inl e \<Rightarrow> (response_error (''self-update-from-rdv: query_version failed: '' @ say H e), m)
              | Inr None \<Rightarrow>
                  (response_error (''self-update-from-rdv: no advert for '' @ platform @ ''|'' @ track
                     @ '' (current: '' @ current_version @ '')''), m)
              | Inr (Some advert) \<Rightarrow>
                  (case target_version version_pin allow_downgrade current_version advert of
                     Inl e \<Rightarrow> (response_error (say H e), m)
                   | Inr version \<Rightarrow> fetch_verify_and_swap H N servers platform track version insecure_no_verify m)))"

section \<open>Upgrading on its own\<close>

text \<open>One round of \<open>run_auto_upgrade_query_loop\<close> (\<open>src/server_mode.rs\<close>). \<open>timely\<close> says whether the query was
  answered within its time, \<open>cancelled\<close> whether the server was shut down during the delay before the swap,
  and \<open>meanwhile\<close> is what else happened to the machine in that delay. The result says whether the loop
  ends.\<close>

definition canonical_build_platform :: "host \<Rightarrow> (string \<Rightarrow> string) \<Rightarrow> string \<Rightarrow> string" where
  "canonical_build_platform H to_ascii_lowercase os_family =
     (let os = to_ascii_lowercase os_family
      in if os = ''windows'' then ''windows-msvc'' else if os = ''macos'' then ''macos''
         else if os = ''linux'' then (if target_musl H then ''linux-musl'' else ''linux-glibc'') else os)"

definition auto_upgrade_round ::
  "host \<Rightarrow> network \<Rightarrow> string list \<Rightarrow> string \<Rightarrow> bool \<Rightarrow> string \<Rightarrow> string \<Rightarrow> bool \<Rightarrow> bool \<Rightarrow> (machine \<Rightarrow> machine) \<Rightarrow> machine
     \<Rightarrow> bool \<times> machine" where
  "auto_upgrade_round H N servers data_dir auto_upgrade track platform timely cancelled meanwhile m =
     (if \<not> timely then (False, m)
      else case query_version H N servers platform track (build_version H) of
        Inl _ \<Rightarrow> (False, m)
      | Inr None \<Rightarrow> (False, m)
      | Inr (Some advert) \<Rightarrow>
          if \<not> auto_upgrade then (False, m)
          else if watchdog_active (us_read data_dir (m_disk m)) then (False, m)
          else
            let m1 = meanwhile m
            in if cancelled then (True, m1)
               else if watchdog_active (us_read data_dir (m_disk m1)) then (False, m1)
               else case fetch_verify_and_swap H N servers platform track (va_latest_version advert) False m1 of
                      (resp, m2) \<Rightarrow> (rs_success resp, m2))"

section \<open>What holds at any instant\<close>

text \<open>\<open>runs I P a Q\<close>: started on a disk with \<open>P\<close>, \<open>a\<close> passes only through disks with \<open>I\<close>, and ends on one
  with \<open>Q\<close> when it succeeds.\<close>

definition went :: "(disk \<Rightarrow> bool) \<Rightarrow> machine \<Rightarrow> machine \<Rightarrow> bool" where
  "went I m m' \<longleftrightarrow> (\<exists>ds. past m' = past m @ ds \<and> list_all I ds) \<and> I (m_disk m')"

definition runs :: "(disk \<Rightarrow> bool) \<Rightarrow> (disk \<Rightarrow> bool) \<Rightarrow> (machine, 'a) act \<Rightarrow> (disk \<Rightarrow> bool) \<Rightarrow> bool" where
  "runs I P a Q \<longleftrightarrow>
     (\<forall>m r m'. a m = (r, m') \<longrightarrow> P (m_disk m) \<longrightarrow> went I m m' \<and> (\<forall>x. r = Inr x \<longrightarrow> Q (m_disk m')))"

lemma went_trans: "went I m m' \<Longrightarrow> went I m' m'' \<Longrightarrow> went I m m''"
  unfolding went_def by (elim conjE exE) (auto simp: list_all_append)

lemma went_refl: "I (m_disk m) \<Longrightarrow> went I m m"
  by (auto simp: went_def)

lemma went_mono: "went I m m' \<Longrightarrow> (\<And>d. I d \<Longrightarrow> J d) \<Longrightarrow> went J m m'"
  unfolding went_def by (elim conjE exE) (auto elim: list.pred_mono_strong)

lemma went_on_disk: "I (m_disk m) \<Longrightarrow> I (snd (f (m_disk m))) \<Longrightarrow> went I m (snd (on_disk f m))"
  by (auto simp: went_def on_disk_def split: prod.splits)

lemma m_on_disk [simp]: "m_disk (snd (on_disk f m)) = snd (f (m_disk m))" "fst (on_disk f m) = fst (f (m_disk m))"
  by (simp_all add: on_disk_def split: prod.split)

lemma runs_then_do:
  assumes "runs I P a Q" "\<And>x. runs I Q (f x) R"
  shows "runs I P (then_do a f) R"
  unfolding runs_def
proof (intro allI impI)
  fix m r m'
  assume e: "then_do a f m = (r, m')" and p: "P (m_disk m)"
  obtain r1 m1 where a: "a m = (r1, m1)" by fastforce
  have w: "went I m m1" "\<And>x. r1 = Inr x \<Longrightarrow> Q (m_disk m1)" using assms(1) a p unfolding runs_def by blast+
  show "went I m m' \<and> (\<forall>x. r = Inr x \<longrightarrow> R (m_disk m'))"
  proof (cases r1)
    case (Inl e')
    with a e w(1) show ?thesis by (auto simp: then_do_def)
  next
    case (Inr x)
    then have "f x m1 = (r, m')" using a e by (simp add: then_do_def)
    then have "went I m1 m' \<and> (\<forall>x. r = Inr x \<longrightarrow> R (m_disk m'))"
      using assms(2) [of x] w(2) [OF Inr] unfolding runs_def by blast
    with w(1) show ?thesis by (blast intro: went_trans)
  qed
qed

lemma runs_attempt:
  "(\<And>d. P d \<Longrightarrow> I d \<and> I (snd (f d)) \<and> Q (snd (f d))) \<Longrightarrow> runs I P (attempt f) Q"
  by (auto simp: runs_def attempt_def intro!: went_on_disk)

lemma runs_must:
  assumes "\<And>d. P d \<Longrightarrow> I d \<and> I (snd (f d))" and "\<And>d. P d \<Longrightarrow> fst (f d) = None \<Longrightarrow> Q (snd (f d))"
  shows "runs I P (must context f) Q"
  unfolding runs_def
proof (intro allI impI)
  fix m r m'
  assume e: "must context f m = (r, m')" and p: "P (m_disk m)"
  obtain r1 m1 where o: "on_disk f m = (r1, m1)" by fastforce
  then have "went I m m1" using went_on_disk [of I m f] assms(1) [OF p] by simp
  moreover have "m' = m1" "r = Inr x \<Longrightarrow> r1 = None" for x using e o by (auto simp: must_def split: option.splits)
  moreover have "r1 = None \<Longrightarrow> Q (m_disk m1)"
    using assms(2) [OF p] o m_on_disk [of f m] by simp
  ultimately show "went I m m' \<and> (\<forall>x. r = Inr x \<longrightarrow> Q (m_disk m'))" by auto
qed

lemma runs_give: "(\<And>d. P d \<Longrightarrow> I d \<and> Q d) \<Longrightarrow> runs I P (give x) Q"
  by (auto simp: runs_def give_def intro: went_refl)

lemma runs_bail: "(\<And>d. P d \<Longrightarrow> I d) \<Longrightarrow> runs I P (bail e) Q"
  by (auto simp: runs_def bail_def intro: went_refl)

lemma runs_restart: "(\<And>d. P d \<Longrightarrow> I d \<and> Q d) \<Longrightarrow> runs I P (systemctl_restart H svc) Q"
  by (auto simp: runs_def systemctl_restart_def went_def)

lemma runs_restart_any: "(\<And>d. P d \<Longrightarrow> I d) \<Longrightarrow> runs I P (restart_any H) P"
  unfolding restart_any_def
  by (rule runs_then_do [where Q = P]) (auto intro!: runs_restart runs_give split: if_split)

section \<open>The swap is atomic\<close>

lemma siblings_not_under: "\<not> under (p @ ''.incoming'') (p @ ''.bak'')" "\<not> under (p @ ''.incoming'') p"
  by (auto simp: under_def starts_with_def prefix_def)

text \<open>\<open>swapping old new exe\<close>: the file at \<open>exe\<close> is the old or the new one, whole.\<close>

definition swapping :: "bytes option \<Rightarrow> bytes \<Rightarrow> string \<Rightarrow> disk \<Rightarrow> bool" where
  "swapping old new exe d \<longleftrightarrow> files d exe = old \<or> files d exe = Some new"

lemma replace_runs:
  assumes raw: "current_exe H = Some raw_exe" "exe = live_exe raw_exe"
    and new: "new_binary \<notin> {exe, exe @ ''.bak'', exe @ ''.incoming''}"
  shows "runs (swapping old new exe) (\<lambda>d. files d exe = old \<and> files d new_binary = Some new)
    (replace_binary_linux H new_binary) (\<lambda>d. files d exe = Some new \<and> files d (exe @ ''.bak'') = old)"
proof -
  let ?bak = "exe @ ''.bak''" and ?inc = "exe @ ''.incoming''" and ?I = "swapping old new exe"
  let ?P0 = "\<lambda>d. files d exe = old \<and> files d new_binary = Some new"
  let ?P1 = "\<lambda>d. ?P0 d \<and> files d ?bak = old" and ?P2 = "\<lambda>d. files d exe = old \<and> files d ?bak = old \<and> files d ?inc = Some new"
  let ?P3 = "\<lambda>d. files d exe = Some new \<and> files d ?bak = old"
  note frames = fs_copy_other fs_remove_other
  have inc: "?inc \<noteq> exe" "?inc \<noteq> ?bak" "?bak \<noteq> exe" by simp_all
  have s1: "runs ?I ?P0 (attempt (fs_remove ?bak)) ?P0"
    using new by (intro runs_attempt) (simp add: swapping_def frames)
  have s2: "runs ?I ?P0 (must c (fs_copy exe ?bak)) ?P1" for c
    using new by (intro runs_must) (simp_all add: swapping_def frames fs_copy_target)
  have s3: "runs ?I ?P1 (attempt (fs_remove ?inc)) ?P1"
    using new by (intro runs_attempt) (simp add: swapping_def frames)
  have s4: "runs ?I ?P1 (must c (fs_copy new_binary ?inc)) ?P2" for c
    using new by (intro runs_must) (simp_all add: swapping_def frames fs_copy_target)
  have s5: "runs ?I ?P2 (must c (fs_set_permissions ?inc)) ?P2" for c
    by (intro runs_must) (simp_all add: swapping_def fs_set_permissions_def split: option.split)
  have rename: "files (snd (fs_rename ?inc exe d)) ?bak = files d ?bak \<and>
      files (snd (fs_rename ?inc exe d)) exe = (if fst (fs_rename ?inc exe d) = None then Some new else files d exe)"
    if "files d ?inc = Some new" for d
    using that fs_rename_other [of ?inc ?bak exe d] siblings_not_under(1) [of exe] suffixed_not_under [of "CHR ''.''" exe "''bak''"]
      fs_rename_done [of ?inc exe d] fs_rename_failed [of ?inc exe d] by simp
  have s6: "runs ?I ?P2 (must c (fs_rename ?inc exe)) ?P3" for c
    by (intro runs_must) (simp_all add: swapping_def rename)
  have "exe \<noteq> new_binary" "?bak \<noteq> new_binary" using new by auto
  then have s7: "runs ?I ?P3 (attempt (fs_remove new_binary)) ?P3"
    by (intro runs_attempt) (simp add: swapping_def frames)
  have s8: "runs ?I ?P3 (restart_any H) ?P3" by (rule runs_restart_any) (simp add: swapping_def)
  have s9: "runs ?I ?P3 (give x) ?P3" for x :: "string \<times> string" by (rule runs_give) (simp add: swapping_def)
  show ?thesis
    unfolding replace_binary_linux_def raw(1) ok_or_def option.case then_do_simps Let_def raw(2) [symmetric]
    by (rule runs_then_do [OF s1] runs_then_do [OF s2] runs_then_do [OF s3] runs_then_do [OF s4] runs_then_do [OF s5]
        runs_then_do [OF s6] runs_then_do [OF s7] runs_then_do [OF s8])+ (auto intro: s9)
qed

text \<open>C9. The binary is never absent: while \<open>replace_binary_linux\<close> runs, with any of its operations failing,
  the file at the path of the executable is at every instant the old binary or the new one, whole; when it
  succeeds, the new one is there and the old one is kept under the backup's name. The new binary must not be
  given by one of the three names the swap uses itself.\<close>

theorem exe_never_absent:
  assumes "current_exe H = Some raw_exe" and "exe = live_exe raw_exe"
    and "files (m_disk m) exe = Some old" and "files (m_disk m) new_binary = Some new"
    and "new_binary \<notin> {exe, exe @ ''.bak'', exe @ ''.incoming''}"
    and "replace_binary_linux H new_binary m = (r, m')"
  shows "(\<forall>d \<in> set (drop (length (past m)) (past m')) \<union> {m_disk m'}. files d exe \<in> {Some old, Some new}) \<and>
    (\<forall>msg bak. r = Inr (msg, bak) \<longrightarrow> bak = exe @ ''.bak'' \<and> files (m_disk m') exe = Some new \<and> files (m_disk m') bak = Some old)"
proof -
  have w: "went (swapping (Some old) new exe) m m'"
    "r = Inr x \<Longrightarrow> files (m_disk m') exe = Some new \<and> files (m_disk m') (exe @ ''.bak'') = Some old" for x
    using replace_runs [OF assms(1,2,5), of "Some old" new] assms(3,4,6) unfolding runs_def by blast+
  have "bak = exe @ ''.bak''" if "r = Inr (msg, bak)" for msg bak
    using assms(6) unfolding that replace_binary_linux_def assms(1) ok_or_def option.case then_do_simps Let_def assms(2) [symmetric]
    by (elim then_do_Inr [THEN iffD1, elim_format] exE conjE) (auto simp: give_def then_do_Inr split: if_splits)
  with w show ?thesis by (auto simp: went_def swapping_def list_all_iff)
qed

section \<open>The swap succeeds\<close>

definition ensures :: "(disk \<Rightarrow> bool) \<Rightarrow> (machine, 'a) act \<Rightarrow> ('a \<Rightarrow> disk \<Rightarrow> bool) \<Rightarrow> bool" where
  "ensures P a Q \<longleftrightarrow> (\<forall>m. P (m_disk m) \<longrightarrow> (\<exists>x m'. a m = (Inr x, m') \<and> Q x (m_disk m')))"

lemma ensures_then_do:
  assumes "ensures P a (\<lambda>_. Q)" "\<And>x. ensures Q (f x) R"
  shows "ensures P (then_do a f) R"
  unfolding ensures_def
proof (intro allI impI)
  fix m :: machine
  assume "P (m_disk m)"
  then obtain x m1 where "a m = (Inr x, m1)" "Q (m_disk m1)" using assms(1) unfolding ensures_def by blast
  moreover from this obtain y m2 where "f x m1 = (Inr y, m2)" "R y (m_disk m2)"
    using assms(2) [of x] unfolding ensures_def by blast
  ultimately show "\<exists>y m2. then_do a f m = (Inr y, m2) \<and> R y (m_disk m2)" by (auto simp: then_do_def)
qed

lemma ensures_attempt: "(\<And>d. P d \<Longrightarrow> Q (snd (f d))) \<Longrightarrow> ensures P (attempt f) (\<lambda>_. Q)"
  by (simp add: ensures_def attempt_def)

lemma ensures_must: "(\<And>d. P d \<Longrightarrow> fst (f d) = None \<and> Q (snd (f d))) \<Longrightarrow> ensures P (must c f) (\<lambda>_. Q)"
  by (fastforce simp: ensures_def must_def on_disk_def split: prod.splits option.splits)

lemma ensures_give: "(\<And>d. P d \<Longrightarrow> Q x d) \<Longrightarrow> ensures P (give x) Q"
  by (simp add: ensures_def give_def)

lemma ensures_restart_any: "ensures P (restart_any H) (\<lambda>_. P)"
  unfolding restart_any_def by (rule ensures_then_do) (auto simp: ensures_def systemctl_restart_def give_def)

text \<open>A disk on which the executable can be replaced.\<close>

definition smooth :: "string \<Rightarrow> disk \<Rightarrow> bool" where
  "smooth exe d \<longleftrightarrow> (\<forall>p. fault d p = None) \<and> (\<forall>a b. \<not> other_device d a b) \<and> \<not> occupied d exe
     \<and> parent_there d exe \<and> exe \<notin> folders d
     \<and> write_error d (exe @ ''.bak'') = None \<and> write_error d (exe @ ''.incoming'') = None"

lemma smooth_files:
  assumes "smooth exe d" "folders d' = folders d" "fault d' = fault d" "other_device d' = other_device d"
    and "\<And>p. under exe p \<Longrightarrow> p \<noteq> exe \<Longrightarrow> files d p = None \<Longrightarrow> files d' p = None"
  shows "smooth exe d'"
proof -
  have w: "write_error d' p = write_error d p" for p by (rule write_error_cong [OF assms(2,3)])
  have "parent_there d' exe = parent_there d exe" by (simp add: parent_there_def assms(2) cong: option.case_cong)
  moreover have "\<not> occupied d' exe"
    using assms(1,2,5) unfolding smooth_def occupied_def by (metis domIff)
  ultimately show ?thesis using assms(1-4) by (simp add: smooth_def w)
qed

lemma smooth_facts:
  "smooth exe d \<Longrightarrow> exe \<notin> folders d \<and> fault d p = None \<and> write_error d (exe @ ''.bak'') = None
     \<and> write_error d (exe @ ''.incoming'') = None"
  by (simp add: smooth_def)

lemma smooth_remove: "smooth exe d \<Longrightarrow> smooth exe (snd (fs_remove p d))"
  by (rule smooth_files, assumption) (auto simp: fs_remove_def split: sum.split)

lemma smooth_copy: "smooth exe d \<Longrightarrow> \<not> under exe b \<Longrightarrow> smooth exe (snd (fs_copy a b d))"
proof (rule smooth_files, assumption)
  fix p
  assume "\<not> under exe b" "under exe p" "files d p = None"
  moreover from this have "p \<noteq> b" by auto
  ultimately show "files (snd (fs_copy a b d)) p = None" by (simp add: fs_copy_other)
qed (simp_all add: fs_copy_frame)

lemma smooth_rename:
  assumes "smooth exe d" "files d (exe @ ''.incoming'') = Some b"
  shows "fst (fs_rename (exe @ ''.incoming'') exe d) = None"
proof -
  have "exe @ ''.incoming'' \<notin> folders d"
    using assms(1) by (auto simp: smooth_def write_error_def split: option.splits if_splits)
  with assms siblings_not_under(2) [of exe] show ?thesis by (simp add: smooth_def fs_rename_def path_exists_def)
qed

lemma replace_ensures:
  assumes raw: "current_exe H = Some raw_exe" "exe = live_exe raw_exe"
    and new: "new_binary \<notin> {exe @ ''.bak'', exe @ ''.incoming''}"
  shows "ensures (\<lambda>d. smooth exe d \<and> files d exe = Some old \<and> files d new_binary = Some b \<and> new_binary \<notin> folders d)
    (replace_binary_linux H new_binary)
    (\<lambda>r d. snd r = exe @ ''.bak'' \<and> files d exe = (if new_binary = exe then None else Some b) \<and>
        files d (exe @ ''.bak'') = Some old)"
proof -
  let ?bak = "exe @ ''.bak''" and ?inc = "exe @ ''.incoming''"
  let ?P0 = "\<lambda>d. smooth exe d \<and> files d exe = Some old \<and> files d new_binary = Some b \<and> new_binary \<notin> folders d"
  let ?P1 = "\<lambda>d. ?P0 d \<and> files d ?bak = Some old"
  let ?P2 = "\<lambda>d. smooth exe d \<and> files d exe = Some old \<and> files d ?bak = Some old \<and> files d ?inc = Some b"
  let ?P3 = "\<lambda>d. files d exe = Some b \<and> exe \<notin> folders d \<and> fault d exe = None \<and> files d ?bak = Some old"
  let ?P4 = "\<lambda>d. files d exe = (if new_binary = exe then None else Some b) \<and> files d ?bak = Some old"
  have nu: "\<not> under exe ?bak" "\<not> under exe ?inc" by (simp_all add: suffixed_not_under)
  have rm: "folders (snd (fs_remove p d)) = folders d" for p d by (auto simp: fs_remove_def split: sum.split)
  note frames = fs_copy_other fs_remove_other fs_copy_frame rm
  have s1: "ensures ?P0 (attempt (fs_remove ?bak)) (\<lambda>_. ?P0)"
    using new by (intro ensures_attempt) (simp add: frames smooth_remove)
  have s2: "ensures ?P0 (must c (fs_copy exe ?bak)) (\<lambda>_. ?P1)" for c
    using new nu by (intro ensures_must) (simp add: frames smooth_copy smooth_facts [of exe] fs_copy_ok)
  have s3: "ensures ?P1 (attempt (fs_remove ?inc)) (\<lambda>_. ?P1)"
    using new by (intro ensures_attempt) (simp add: frames smooth_remove)
  have s4: "ensures ?P1 (must c (fs_copy new_binary ?inc)) (\<lambda>_. ?P2)" for c
    using new nu by (intro ensures_must) (simp add: frames smooth_copy smooth_facts [of exe] fs_copy_ok)
  have s5: "ensures ?P2 (must c (fs_set_permissions ?inc)) (\<lambda>_. ?P2)" for c
    by (intro ensures_must) (simp add: fs_set_permissions_def smooth_facts [of exe] path_exists_def)
  have s6: "ensures ?P2 (must c (fs_rename ?inc exe)) (\<lambda>_. ?P3)" for c
  proof (rule ensures_must)
    fix d
    assume p: "?P2 d"
    obtain d' where d': "fs_rename ?inc exe d = (None, d')"
      using smooth_rename [of exe d b] p by (cases "fs_rename ?inc exe d") auto
    have "?inc \<notin> folders d" using p by (auto simp: smooth_def write_error_def split: option.splits if_splits)
    with fs_rename_target [OF d'] have "files d' exe = Some b \<and> exe \<notin> folders d' \<and> fault d' = fault d" using p by simp
    moreover have "files d' ?bak = files d ?bak"
      using fs_rename_other [of ?inc ?bak exe d] siblings_not_under(1) [of exe] nu(1) by (simp add: d')
    ultimately show "fst (fs_rename ?inc exe d) = None \<and> ?P3 (snd (fs_rename ?inc exe d))"
      using p by (simp add: d' smooth_def)
  qed
  have "?bak \<noteq> new_binary" using new by auto
  then have s7: "ensures ?P3 (attempt (fs_remove new_binary)) (\<lambda>_. ?P4)"
    by (intro ensures_attempt) (auto simp: fs_remove_def fs_read_def split: sum.split)
  show ?thesis
    unfolding replace_binary_linux_def raw(1) ok_or_def option.case then_do_simps Let_def raw(2) [symmetric]
    by (rule ensures_then_do [OF s1] ensures_then_do [OF s2] ensures_then_do [OF s3] ensures_then_do [OF s4]
        ensures_then_do [OF s5] ensures_then_do [OF s6] ensures_then_do [OF s7]
        ensures_then_do [OF ensures_restart_any])+ (auto intro: ensures_give)
qed

text \<open>Updating from the executable's own path deletes the program: asked to replace the running binary by
  the file at its own path, on a disk where nothing fails, \<open>replace_binary_linux\<close> swaps the file with its
  own copy, then removes "the source", reports success, and leaves no file at the path of the executable.\<close>

theorem self_update_own_path_deletes:
  assumes "current_exe H = Some raw_exe" and "exe = live_exe raw_exe"
    and "smooth exe (m_disk m)" and "files (m_disk m) exe = Some old"
  shows "\<exists>msg m'. replace_binary_linux H exe m = (Inr (msg, exe @ ''.bak''), m') \<and> files (m_disk m') exe = None
     \<and> files (m_disk m') (exe @ ''.bak'') = Some old"
proof -
  have "exe \<notin> folders (m_disk m)" using assms(3) by (simp add: smooth_def)
  with replace_ensures [OF assms(1,2), of exe old old] assms(3,4) show ?thesis by (fastforce simp: ensures_def)
qed

section \<open>Only verified binaries\<close>

definition outside :: "string \<Rightarrow> string \<Rightarrow> bool" where
  "outside dir p \<longleftrightarrow> \<not> starts_with p (path_join dir [])"

lemma path_join_rel: "\<not> starts_with name ''/'' \<Longrightarrow> path_join dir name = path_join dir [] @ name"
  by (auto simp: path_join_def starts_with_def)

lemma data_paths:
  "status_path dir = path_join dir [] @ ''last_update.json''" "status_tmp dir = path_join dir [] @ ''last_update.json.tmp''"
  "pending_path dir = path_join dir [] @ ''last_update.pending''" "path_join dir ''mrsh.new'' = path_join dir [] @ ''mrsh.new''"
  unfolding status_path_def status_tmp_def pending_path_def
  by (rule path_join_rel, simp add: starts_with_def)+

lemma outside_not_under: "outside dir p \<Longrightarrow> \<not> under (path_join dir [] @ s) p \<and> p \<noteq> path_join dir [] @ s"
  by (auto simp: outside_def under_def starts_with_def dest: append_prefixD)

lemma outside_sibling: "outside dir exe \<Longrightarrow> CHR ''/'' \<notin> set s \<Longrightarrow> path_join dir [] @ n \<noteq> exe @ s"
proof
  assume o: "outside dir exe" and s: "CHR ''/'' \<notin> set s" and e: "path_join dir [] @ n = exe @ s"
  have no: "\<not> prefix (path_join dir []) exe" using o by (simp add: outside_def starts_with_def)
  then obtain t where t: "path_join dir [] = exe @ t" "t \<noteq> []" "prefix t s"
    using e by (auto simp: append_eq_append_conv2 prefix_def)
  have "path_join dir [] \<noteq> [] \<longrightarrow> last (path_join dir []) = CHR ''/''"
    by (auto simp: path_join_def starts_with_def ends_with_def suffix_def)
  with t s show False by (auto dest!: last_in_set set_mono_prefix)
qed

lemma us_write_files:
  assumes "outside dir p"
  shows "files (snd (us_write dir s d)) p = files d p"
proof -
  note p = outside_not_under [OF assms] and paths = data_paths(1,2) [of dir]
  obtain r0 d0 where d0: "create_dir_all dir d = (r0, d0)" by fastforce
  then have f0: "files d0 = files d" using create_dir_all_frame by blast
  obtain r1 d1 where d1: "fs_write (status_tmp dir) (as_bytes (us_encode s)) d0 = (r1, d1)" by fastforce
  then have f1: "files d1 p = files d p"
    using fs_write_files [of "status_tmp dir" "as_bytes (us_encode s)" d0] p by (simp add: paths f0)
  obtain r2 d2 where d2: "fs_rename (status_tmp dir) (status_path dir) d1 = (r2, d2)" by fastforce
  then have f2: "files d2 p = files d p"
    using fs_rename_other [of "status_tmp dir" p "status_path dir" d1] p f1 by (simp add: paths)
  obtain r3 d3 where d3: "fs_remove (status_tmp dir) d2 = (r3, d3)" by fastforce
  then have f3: "files d3 p = files d p" using fs_remove_other [of p "status_tmp dir" d2] p f2 by (simp add: paths)
  have f4: "files (snd (fs_write (status_path dir) b d3)) p = files d p" for b
    using p f3 by (simp add: fs_write_files paths)
  show ?thesis
    by (cases r1; cases r2) (simp_all add: us_write_def d0 d1 d2 d3 f1 f2 f4)
qed

lemma clear_pending_files: "outside dir p \<Longrightarrow> files (clear_pending dir d) p = files d p"
  using outside_not_under [of dir p] by (simp add: clear_pending_def fs_remove_other data_paths)

lemma write_pending_files: "p \<noteq> pending_path dir \<Longrightarrow> files (snd (write_pending dir b d)) p = files d p"
proof -
  obtain r0 d0 where d0: "create_dir_all dir d = (r0, d0)" by fastforce
  then have "files d0 = files d" using create_dir_all_frame by blast
  moreover assume "p \<noteq> pending_path dir"
  ultimately show ?thesis by (simp add: write_pending_def d0 fs_write_files)
qed

lemma handle_went:
  assumes raw: "current_exe H = Some raw_exe" "exe = live_exe raw_exe"
    and exe: "outside (default_data_dir H (m_disk m)) exe" "files (m_disk m) exe = old"
    and path: "files (m_disk m) path = Some new" "path \<notin> {exe, exe @ ''.bak'', exe @ ''.incoming''}"
      "path \<noteq> pending_path (default_data_dir H (m_disk m))"
  shows "went (swapping old new exe) m (snd (handle_self_update H path m))"
proof -
  let ?I = "swapping old new exe" and ?dir = "default_data_dir H (m_disk m)"
  let ?m1 = "snd (on_disk (write_pending ?dir path) m)"
  have e: "exe \<noteq> pending_path ?dir" using outside_not_under [OF exe(1)] by (auto simp: data_paths)
  have w1: "went ?I m ?m1" "files (m_disk ?m1) exe = old" "files (m_disk ?m1) path = Some new"
    using exe(2) path(1,3) e by (auto simp: swapping_def write_pending_files intro!: went_on_disk)
  obtain r m2 where r: "replace_binary_linux H path ?m1 = (r, m2)" by fastforce
  have w2: "went ?I ?m1 m2"
    using replace_runs [OF raw path(2), of old new] w1(2,3) r unfolding runs_def by blast
  then have i: "?I (m_disk m2)" by (simp add: went_def)
  have w3: "went ?I m2 (snd (on_disk (arm_watchdog ?dir (clock H) bak) m2))"
    "went ?I m2 (snd (on_disk (record_update_failure ?dir (clock H) e) m2))" for bak e
    using i by (auto simp: swapping_def arm_watchdog_def record_update_failure_def us_write_files [OF exe(1)]
        clear_pending_files [OF exe(1)] intro!: went_on_disk)
  have "went ?I m m" using exe(2) by (auto simp: swapping_def intro: went_refl)
  with w3 went_trans [OF w1(1)] went_trans [OF w2] show ?thesis
    by (auto simp: handle_self_update_def Let_def r split: sum.split prod.split)
qed

lemma check_signature_passed:
  assumes "trim (signing_key_pem H) \<noteq> []" "check_signature H insecure d path sig = None"
    and "fs_read d path = Inr blob"
  shows "\<exists>verify. verifier H (trim (signing_key_pem H)) = Some verify \<and> verify blob sig \<and> length sig = SIGNATURE_SIZE"
  using assms
  by (auto simp: check_signature_def verify_binary_def verify_with_key_def read_binary_def Let_def
      split: if_splits sum.splits bool.splits option.splits)

text \<open>What a fetched and verified binary is for the release key of the build.\<close>

definition signed_binary :: "host \<Rightarrow> bytes \<Rightarrow> bool" where
  "signed_binary H blob \<longleftrightarrow>
     (\<exists>verify sig. verifier H (trim (signing_key_pem H)) = Some verify \<and> verify blob sig \<and> length sig = SIGNATURE_SIZE)"

lemma fetch_went:
  assumes raw: "current_exe H = Some raw_exe" "exe = live_exe raw_exe"
    and out: "\<And>d. outside (default_data_dir H d) exe" and key: "trim (signing_key_pem H) \<noteq> []"
    and old: "files (m_disk m) exe = old"
    and run: "fetch_verify_and_swap H N servers platform track version insecure m = (resp, m')"
  shows "went (\<lambda>d. files d exe = old) m m' \<or> (\<exists>blob. signed_binary H blob \<and> went (swapping old blob exe) m m')"
proof -
  let ?I = "\<lambda>d. files d exe = old" and ?dir = "default_data_dir H (m_disk m)"
  have refl: "went ?I m m" using old by (intro went_refl) simp
  show ?thesis
  proof (cases "m' = m")
    case True
    with refl show ?thesis by simp
  next
    case False
    then obtain blob sig where f: "fetch_binary H N servers platform track version = Inr (blob, sig)" "blob \<noteq> []"
      using run by (auto simp: fetch_verify_and_swap_def split: sum.splits if_splits)
    obtain r1 m1 where m1: "on_disk (create_dir_all ?dir) m = (r1, m1)" by fastforce
    have f1: "files (m_disk m1) = files (m_disk m)"
      using m1 create_dir_all_frame [of ?dir "m_disk m"] by (auto simp: on_disk_def split: prod.splits)
    then have w1: "went ?I m m1"
      using old m1 went_on_disk [of ?I m "create_dir_all ?dir"] m_on_disk [of "create_dir_all ?dir" m] by simp
    show ?thesis
    proof (cases r1)
      case (Some e)
      with run f m1 w1 show ?thesis by (simp add: fetch_verify_and_swap_def Let_def)
    next
      case None
      let ?new = "path_join ?dir ''mrsh.new''"
      have ne: "exe \<noteq> ?new" using outside_not_under [OF out] by (simp add: data_paths)
      obtain r2 m2 where m2: "on_disk (fs_write ?new blob) m1 = (r2, m2)" by fastforce
      then have d2: "m_disk m2 = snd (fs_write ?new blob (m_disk m1))" "r2 = fst (fs_write ?new blob (m_disk m1))"
        using m_on_disk [of "fs_write ?new blob" m1] by simp_all
      then have e2: "files (m_disk m2) exe = old" using f1 old ne by (simp add: fs_write_files)
      then have w2: "went ?I m1 m2"
        using m2 d2 f1 old went_on_disk [of ?I m1 "fs_write ?new blob"] by simp
      note w = went_trans [OF w1 w2]
      show ?thesis
      proof (cases r2)
        case (Some e)
        with run f m1 m2 None w show ?thesis by (simp add: fetch_verify_and_swap_def Let_def)
      next
        case r2: None
        then have blob: "fs_read (m_disk m2) ?new = Inr blob" "files (m_disk m2) ?new = Some blob"
          using d2 fs_read_write [of "m_disk m1" ?new blob] by (auto simp: fs_write_def split: option.splits)
        show ?thesis
        proof (cases "check_signature H insecure (m_disk m2) ?new sig")
          case (Some refusal)
          then have "m' = snd (on_disk (fs_remove ?new) m2)"
            using run f m1 m2 None r2 by (simp add: fetch_verify_and_swap_def Let_def)
          then have "went ?I m2 m'" using e2 ne by (auto simp: fs_remove_other intro!: went_on_disk)
          with w show ?thesis by (blast intro: went_trans)
        next
          case ok: None
          then have m': "m' = snd (handle_self_update H ?new m2)"
            using run f m1 m2 None r2 by (simp add: fetch_verify_and_swap_def Let_def)
          have "went (swapping old blob exe) m2 m'"
            unfolding m'
          proof (rule handle_went [OF raw out e2 blob(2)])
            show "?new \<notin> {exe, exe @ ''.bak'', exe @ ''.incoming''}"
              using ne outside_sibling [OF out, of "''.bak''"] outside_sibling [OF out, of "''.incoming''"]
              by (auto simp: data_paths)
            show "?new \<noteq> pending_path (default_data_dir H (m_disk m2))"
              by (auto simp: data_paths dest: arg_cong [where f = last])
          qed
          moreover have "went (swapping old blob exe) m m2" using w by (rule went_mono) (simp add: swapping_def)
          moreover have "signed_binary H blob"
            using check_signature_passed [OF key ok blob(1)] by (auto simp: signed_binary_def)
          ultimately show ?thesis by (blast intro: went_trans)
        qed
      qed
    qed
  qed
qed

text \<open>C10. With a release key in the build, an update from a rendezvous server installs only signed binaries:
  whatever the servers answer, whichever flags the request has and whichever disk operations fail, at every
  instant of the request the file at the path of the executable is the one that was there before or one
  whole binary that carries a valid signature of the release key.\<close>

theorem from_rdv_only_verified:
  assumes "current_exe H = Some raw_exe" and "exe = live_exe raw_exe" and "\<And>d. outside (default_data_dir H d) exe"
    and "trim (signing_key_pem H) \<noteq> []" and "files (m_disk m) exe = old"
    and "handle_self_update_from_rdv H N config_servers track pin allow_downgrade insecure_no_verify m = (resp, m')"
  shows "(\<forall>d \<in> set (drop (length (past m)) (past m')) \<union> {m_disk m'}. files d exe = old) \<or>
    (\<exists>blob. signed_binary H blob \<and>
       (\<forall>d \<in> set (drop (length (past m)) (past m')) \<union> {m_disk m'}. files d exe \<in> {old, Some blob}))"
proof -
  have seen: "went I m m' \<longleftrightarrow> (\<exists>ds. past m' = past m @ ds) \<and>
      (\<forall>d \<in> set (drop (length (past m)) (past m')) \<union> {m_disk m'}. I d)" for I
    by (auto simp: went_def list_all_iff)
  have "m' = m \<or> (\<exists>servers p t v i. fetch_verify_and_swap H N servers p t v i m = (resp, m'))"
    using assms(6) by (fastforce simp: handle_self_update_from_rdv_def Let_def split: sum.splits option.splits)
  then have "went (\<lambda>d. files d exe = old) m m' \<or> (\<exists>blob. signed_binary H blob \<and> went (swapping old blob exe) m m')"
  proof
    assume "m' = m"
    moreover have "went (\<lambda>d. files d exe = old) m m" using assms(5) by (intro went_refl) simp
    ultimately show ?thesis by simp
  next
    assume "\<exists>servers p t v i. fetch_verify_and_swap H N servers p t v i m = (resp, m')"
    then show ?thesis by (elim exE) (rule fetch_went [OF assms(1-5)])
  qed
  then show ?thesis unfolding seen swapping_def by auto
qed

section \<open>A published binary arrives\<close>

text \<open>The network of a machine whose servers are a rendezvous server in state \<open>s\<close>.\<close>

definition rdv_network ::
  "rdv_codec \<Rightarrow> rendezvous_server \<Rightarrow> rdv_env \<Rightarrow> (nat \<Rightarrow> bool) \<Rightarrow> nat \<Rightarrow> sock_addr \<Rightarrow> rdv_state \<Rightarrow> network" where
  "rdv_network C R E stream_ok conn src s =
     \<lparr>udp_ask = (\<lambda>_ msg. case fst (handle_datagram (rdv_decode C) R E msg src s) of
                   Some resp \<Rightarrow> Inr (rdv_encode C resp) | None \<Rightarrow> Inl ''timeout''),
      tcp_ask = (\<lambda>_ bytes. case handle_tcp_relay_request C R E stream_ok conn bytes src s of
                   Inr (effects, _) \<Rightarrow> Inr (concat (map (\<lambda>e. case e of Tcp_Reply b \<Rightarrow> b | _ \<Rightarrow> []) effects))
                 | Inl _ \<Rightarrow> Inr []),
      codec = C\<rparr>"

text \<open>What is asked of the codec: the four messages of an update come back as they were, and fit.\<close>

definition carries :: "rdv_codec \<Rightarrow> rendezvous_union \<Rightarrow> nat \<Rightarrow> bool" where
  "carries C u n \<longleftrightarrow> rdv_decode C (rdv_encode C u) = Some (Some u) \<and> rdv_encode C u \<noteq> [] \<and> length (rdv_encode C u) \<le> n"

lemma query_answered:
  assumes "map_of (version_adverts s) (p, t) = Some e" and "cur = [] \<or> semver_greater (va_latest_version (ve_advert e)) cur"
    and "carries C (Query_Version_Request \<lparr>qv_platform = p, qv_track = t, qv_current_version = cur\<rparr>) 65535"
    and "carries C (Query_Version_Response True (Some (ve_advert e))) 65535" and "servers \<noteq> []"
  shows "query_version H (rdv_network C R E ok conn src s) servers p t cur = Inr (Some (ve_advert e))"
proof -
  obtain srv rest where s: "servers = srv # rest" using assms(5) by (cases servers) auto
  let ?req = "Query_Version_Request \<lparr>qv_platform = p, qv_track = t, qv_current_version = cur\<rparr>"
  let ?resp = "Query_Version_Response True (Some (ve_advert e))" and ?N = "rdv_network C R E ok conn src s"
  have "handle_query_version \<lparr>qv_platform = p, qv_track = t, qv_current_version = cur\<rparr> s = ?resp"
    using assms(1,2) by (auto simp: handle_query_version_def)
  with assms(3) have "udp_ask ?N srv (rdv_encode C ?req) = Inr (rdv_encode C ?resp)"
    by (simp add: rdv_network_def handle_datagram_def handle_message_def carries_def)
  moreover have "codec ?N = C" by (simp add: rdv_network_def)
  ultimately show ?thesis using assms(4) by (simp add: s query_version_def carries_def)
qed

lemma fetch_answered:
  fixes e :: version_advert_entry
  defines "resp \<equiv> \<lparr>fr_found = True, fr_binary_blob = ve_binary_blob e, fr_signature = va_signature (ve_advert e),
             fr_error_message = []\<rparr>"
  assumes "map_of (version_adverts s) (p, t) = Some e" and "ve_binary_blob e \<noteq> []" and "va_latest_version (ve_advert e) = v"
    and "carries C (Fetch_Binary_Request \<lparr>fb_platform = p, fb_track = t, fb_version = v\<rparr>) MAX_PAYLOAD"
    and "carries C (Fetch_Binary_Response resp) MAX_PAYLOAD" and "servers \<noteq> []"
  shows "fetch_binary H (rdv_network C R E ok conn src s) servers p t v
    = Inr (ve_binary_blob e, va_signature (ve_advert e))"
proof -
  obtain srv rest where s: "servers = srv # rest" using assms(7) by (cases servers) auto
  let ?req = "Fetch_Binary_Request \<lparr>fb_platform = p, fb_track = t, fb_version = v\<rparr>"
  have d: "decode_frame (encode_frame (rdv_encode C u)) = Inr (rdv_encode C u, [])" if "carries C u MAX_PAYLOAD" for u
    using that codec.dec_enc_alone [of "rdv_encode C u"] by (simp add: carries_def codec_sendable_def)
  have h: "handle_fetch_binary \<lparr>fb_platform = p, fb_track = t, fb_version = v\<rparr> s = Fetch_Binary_Response resp"
    using assms(2-4) by (simp add: handle_fetch_binary_def resp_def)
  have "handle_tcp_relay_request C R E ok conn (encode_frame (rdv_encode C ?req)) src s =
      Inr ([Tcp_Reply (encode_frame (rdv_encode C (Fetch_Binary_Response resp)))], s)"
    using assms(5) d [OF assms(5)] h by (simp add: handle_tcp_relay_request_def carries_def ok_or_def reply_over_tcp_def handle_message_def)
  then have "fetch_binary_one H (rdv_network C R E ok conn src s) srv (rdv_encode C ?req) = Inr resp"
    using assms(6) d [OF assms(6)] by (simp add: fetch_binary_one_def rdv_network_def carries_def)
  then show ?thesis by (simp add: s fetch_binary_def rdv_network_def resp_def)
qed

lemma outside_ext: "outside dir exe \<Longrightarrow> CHR ''/'' \<notin> set s \<Longrightarrow> outside dir (exe @ s)"
proof -
  assume a: "outside dir exe" "CHR ''/'' \<notin> set s"
  have "\<not> starts_with (exe @ s) (path_join dir [])"
  proof
    assume "starts_with (exe @ s) (path_join dir [])"
    then obtain n where "exe @ s = path_join dir [] @ n" by (auto simp: starts_with_def prefix_def)
    with outside_sibling [OF a, of n] show False by simp
  qed
  then show ?thesis by (simp add: outside_def)
qed

lemma data_file_not_under:
  assumes "outside dir exe" "\<not> starts_with dir exe" "CHR ''/'' \<notin> set n" "n \<noteq> []"
  shows "\<not> under exe (path_join dir [] @ n)"
proof
  assume "under exe (path_join dir [] @ n)"
  then consider "path_join dir [] @ n = exe" | "prefix (exe @ ''/'') (path_join dir [] @ n)"
    by (auto simp: under_def starts_with_def)
  then show False
  proof cases
    case 1
    with outside_sibling [OF assms(1), of "[]" n] show False by simp
  next
    case 2
    show False
    proof (cases "prefix (exe @ ''/'') (path_join dir [])")
      case True
      then have "prefix exe dir"
        by (auto simp: path_join_def starts_with_def split: if_splits dest: append_prefixD)
      with assms(2) show False by (simp add: starts_with_def)
    next
      case False
      with 2 obtain t where "exe @ ''/'' = path_join dir [] @ t" "t \<noteq> []" "prefix t n"
        by (auto simp: prefix_append)
      then have "last t = CHR ''/''" "last t \<in> set n"
        by (metis last_appendR last_snoc, metis last_in_set set_mono_prefix subsetD)
      with assms(3) show False by simp
    qed
  qed
qed

lemma smooth_write: "smooth exe d \<Longrightarrow> \<not> under exe p \<Longrightarrow> smooth exe (snd (fs_write p b d))"
proof (rule smooth_files, assumption)
  fix q
  assume "\<not> under exe p" "under exe q" "files d q = None"
  moreover from this have "q \<noteq> p" by auto
  ultimately show "files (snd (fs_write p b d)) q = None" by (simp add: fs_write_files)
qed simp_all

lemma handle_self_update_installs:
  assumes raw: "current_exe H = Some raw_exe" "exe = live_exe raw_exe"
    and dir: "data_dir_var H = Some dir" "dir \<in> folders (m_disk m)" "outside dir exe" "\<not> starts_with dir exe"
    and d: "smooth exe (m_disk m)" "files (m_disk m) exe = Some old"
    and path: "files (m_disk m) path = Some b" "path \<notin> folders (m_disk m)" "MIN_BINARY_SIZE \<le> length b"
      "path \<notin> {exe, exe @ ''.bak'', exe @ ''.incoming''}" "path \<noteq> pending_path dir"
  shows "\<exists>msg m'. handle_self_update H path m = (response_ok (Some msg), m') \<and> files (m_disk m') exe = Some b
    \<and> files (m_disk m') (exe @ ''.bak'') = Some old"
proof -
  have dd: "default_data_dir H x = dir" for x using dir(1) by (simp add: default_data_dir_def)
  let ?m1 = "snd (on_disk (write_pending dir path) m)"
  have pe: "m_disk ?m1 = snd (fs_write (pending_path dir) (as_bytes path) (m_disk m))"
    using create_dir_all_there [OF dir(2)] d(1) by (simp add: write_pending_def smooth_def)
  have nu: "\<not> under exe (pending_path dir)"
    using data_file_not_under [OF dir(3,4), of "''last_update.pending''"] by (simp add: data_paths)
  then have "exe \<noteq> pending_path dir" by (auto simp: under_def)
  with d path have m1: "smooth exe (m_disk ?m1) \<and> files (m_disk ?m1) exe = Some old \<and> files (m_disk ?m1) path = Some b
      \<and> path \<notin> folders (m_disk ?m1)"
    unfolding pe by (simp add: smooth_write nu fs_write_files)
  have "path \<notin> {exe @ ''.bak'', exe @ ''.incoming''}" using path(4) by simp
  from replace_ensures [OF raw this, of old b] m1 path(4) obtain msg m2 where r:
    "replace_binary_linux H path ?m1 = (Inr (msg, exe @ ''.bak''), m2)"
    "files (m_disk m2) exe = Some b" "files (m_disk m2) (exe @ ''.bak'') = Some old"
    unfolding ensures_def by (metis (no_types, lifting) insertI1 prod.collapse)
  have v: "validate_update_path H (m_disk m) path = Inr ()"
    using path(1,3) d(1) by (simp add: validate_update_path_def metadata_len_def smooth_def)
  have ext: "outside dir (exe @ ''.bak'')" by (rule outside_ext [OF dir(3)]) simp
  show ?thesis
    by (simp add: handle_self_update_def v dd Let_def r arm_watchdog_def us_write_files dir(3) ext) blast
qed

lemma swap_installs:
  assumes raw: "current_exe H = Some raw_exe" "exe = live_exe raw_exe"
    and dir: "data_dir_var H = Some dir" "dir \<in> folders (m_disk m)" "outside dir exe" "\<not> starts_with dir exe"
      "write_error (m_disk m) (path_join dir ''mrsh.new'') = None"
    and d: "smooth exe (m_disk m)" "files (m_disk m) exe = Some old"
    and f: "fetch_binary H N servers platform track version = Inr (blob, sig)"
      "MIN_BINARY_SIZE \<le> length blob" "length blob \<le> MAX_BINARY_BYTES"
    and key: "trim (signing_key_pem H) \<noteq> []" "verifier H (trim (signing_key_pem H)) = Some verify"
      "verify blob sig" "length sig = SIGNATURE_SIZE"
  shows "\<exists>msg m'. fetch_verify_and_swap H N servers platform track version False m = (response_ok (Some msg), m')
    \<and> files (m_disk m') exe = Some blob \<and> files (m_disk m') (exe @ ''.bak'') = Some old"
proof -
  let ?new = "path_join dir ''mrsh.new''"
  have dd: "default_data_dir H x = dir" for x using dir(1) by (simp add: default_data_dir_def)
  have nu: "\<not> under exe ?new" using data_file_not_under [OF dir(3,4), of "''mrsh.new''"] by (simp add: data_paths)
  then have ne: "exe \<noteq> ?new" by (auto simp: under_def)
  obtain m1 where m1: "on_disk (create_dir_all dir) m = (None, m1)" "m_disk m1 = m_disk m"
    using create_dir_all_there [OF dir(2)] d(1) by (simp add: on_disk_def smooth_def)
  obtain m2 where m2: "on_disk (fs_write ?new blob) m1 = (None, m2)"
    "m_disk m2 = (m_disk m)\<lparr>files := (files (m_disk m))(?new \<mapsto> blob)\<rparr>"
    using dir(5) m1(2) by (simp add: on_disk_def fs_write_def)
  have fine: "smooth exe (m_disk m2)"
    using smooth_write [OF d(1) nu, of blob] dir(5) by (simp add: m2(2) fs_write_def)
  have "?new \<notin> folders (m_disk m)" using dir(5) by (auto simp: write_error_def split: option.splits if_splits)
  then have new: "files (m_disk m2) ?new = Some blob" "?new \<notin> folders (m_disk m2)" "files (m_disk m2) exe = Some old"
    "dir \<in> folders (m_disk m2)" "fault (m_disk m2) ?new = None"
    using d ne dir(2) by (simp_all add: m2(2) smooth_def)
  have "blob \<noteq> []" using f(2) by (auto simp: MIN_BINARY_SIZE_def)
  moreover have "check_signature H False (m_disk m2) ?new sig = None"
    using key f(3) new by (simp add: check_signature_def verify_binary_def verify_with_key_def read_binary_def
        metadata_len_def fs_read_def)
  moreover have "?new \<notin> {exe, exe @ ''.bak'', exe @ ''.incoming''}"
    using ne outside_sibling [OF dir(3), of "''.bak''"] outside_sibling [OF dir(3), of "''.incoming''"]
    by (auto simp: data_paths)
  moreover have "?new \<noteq> pending_path dir" by (simp add: data_paths)
  ultimately show ?thesis
    using handle_self_update_installs [OF raw dir(1) new(4) dir(3,4) fine new(3,1,2) f(2)] f(1) m1(1) m2(1)
    by (simp add: fetch_verify_and_swap_def dd Let_def)
qed

text \<open>C11. A published release reaches the machine: when a signed binary for the machine's platform and track was
  published at a rendezvous server, and not superseded since, as a version greater than the running one, an
  update request without a pin answers success and leaves exactly the published binary at the path of the
  executable and the former one under the backup's name. (On a disk where nothing fails, for a codec that
  carries the four messages of the exchange.)\<close>

theorem published_update_installs:
  assumes "message_of C ev = Some (Publish_Version_Request req)" and "pv_advert req = Some a"
    and "va_platform a = build_platform H" "va_track a = t" and "t \<noteq> []" and "va_latest_version a = v" "v \<noteq> []"
    and "list_all (\<lambda>e. \<not> publishes C (build_platform H, t) (snd e)) post"
    and "s = rdv_run C R ok ((E, ev) # post) s0" and "semver_greater v (build_version H)" and "pv_binary_blob req = blob"
    and "carries C (Query_Version_Request \<lparr>qv_platform = build_platform H, qv_track = t, qv_current_version = build_version H\<rparr>) 65535"
      "carries C (Query_Version_Response True (Some (a\<lparr>va_published_at_unix := sint (unix_secs E)\<rparr>))) 65535"
      "carries C (Fetch_Binary_Request \<lparr>fb_platform = build_platform H, fb_track = t, fb_version = v\<rparr>) MAX_PAYLOAD"
      "carries C (Fetch_Binary_Response \<lparr>fr_found = True, fr_binary_blob = blob, fr_signature = va_signature a, fr_error_message = []\<rparr>)
         MAX_PAYLOAD"
    and "current_exe H = Some raw_exe" "exe = live_exe raw_exe"
    and "data_dir_var H = Some dir" "dir \<in> folders (m_disk m)" "outside dir exe" "\<not> starts_with dir exe"
      "write_error (m_disk m) (path_join dir ''mrsh.new'') = None"
    and "smooth exe (m_disk m)" "files (m_disk m) exe = Some old"
    and "MIN_BINARY_SIZE \<le> length blob" "length blob \<le> MAX_BINARY_BYTES"
    and "trim (signing_key_pem H) \<noteq> []" "verifier H (trim (signing_key_pem H)) = Some verify"
      "verify blob (va_signature a)" "length (va_signature a) = SIGNATURE_SIZE" and "servers \<noteq> []"
  shows "\<exists>msg m'. handle_self_update_from_rdv H (rdv_network C R E' ok' conn src s) (Inr servers) t None allow False m
      = (response_ok (Some msg), m') \<and> files (m_disk m') exe = Some blob \<and> files (m_disk m') (exe @ ''.bak'') = Some old"
proof -
  let ?e = "\<lparr>ve_advert = a\<lparr>va_published_at_unix := sint (unix_secs E)\<rparr>, ve_binary_blob = blob\<rparr>"
    and ?N = "rdv_network C R E' ok' conn src s" and ?p = "build_platform H"
  have "?p \<noteq> []" by (simp add: build_platform_def)
  then have e: "map_of (version_adverts s) (?p, t) = Some ?e"
    using published_entry [OF assms(1-4) _ assms(5) _ assms(8)] assms(6,7,9,11) by simp
  have "query_version H ?N servers ?p t (build_version H) = Inr (Some (ve_advert ?e))"
    by (rule query_answered [OF e]) (use assms in simp_all)
  moreover have "blob \<noteq> []" using assms(25) by (auto simp: MIN_BINARY_SIZE_def)
  then have "fetch_binary H ?N servers ?p t v = Inr (ve_binary_blob ?e, va_signature (ve_advert ?e))"
    by (intro fetch_answered [OF e]) (use assms in simp_all)
  then have "fetch_binary H ?N servers ?p t v = Inr (blob, va_signature a)" by simp
  note swap_installs [OF assms(16-24) this assms(25-30)]
  ultimately show ?thesis
    using assms(5,6) by (simp add: handle_self_update_from_rdv_def target_version_def)
qed

text \<open>The machine upgrades itself only when allowed: a round of the automatic loop leaves the machine as
  it is, save for what others do meanwhile, unless the host opted in, the rendezvous server offered an advert,
  and the watchdog was off both before the delay and after it; and then it does exactly an update with
  mandatory verification of the advertised version.\<close>

theorem auto_upgrade_gated:
  assumes "auto_upgrade_round H N servers dir auto_upgrade track platform timely cancelled meanwhile m = (stop, m')"
    and "m' \<notin> {m, meanwhile m}"
  shows "auto_upgrade \<and> timely \<and> \<not> cancelled \<and> \<not> watchdog_active (us_read dir (m_disk m)) \<and>
    \<not> watchdog_active (us_read dir (m_disk (meanwhile m))) \<and>
    (\<exists>advert resp. query_version H N servers platform track (build_version H) = Inr (Some advert) \<and>
       fetch_verify_and_swap H N servers platform track (va_latest_version advert) False (meanwhile m) = (resp, m') \<and>
       stop = rs_success resp)"
  using assms by (auto simp: auto_upgrade_round_def Let_def split: if_splits sum.splits option.splits prod.splits)

section \<open>Witnesses\<close>

definition sample_release :: bytes where
  "sample_release = replicate 1000000 0"

lemma length_release: "length sample_release = 1000000"
  by (simp only: sample_release_def length_replicate)

definition sample_host :: host where
  "sample_host = \<lparr>current_exe = Some ''/b/m'', dir_len = (\<lambda>_. 0), systemctl = (\<lambda>_. True), data_dir_var = Some ''/d'',
     is_root = False, home_var = None, clock = 5, build_version = ''1'', target_musl = False, signing_key_pem = ''k'',
     verifier = (\<lambda>_. Some (\<lambda>_ _. True)), err_text = (\<lambda>_. [])\<rparr>"

definition sample_machine :: machine where
  "sample_machine = \<lparr>m_disk = \<lparr>files = [''/b/m'' \<mapsto> [1]], folders = {''/d'', ''/b''}, fault = (\<lambda>_. None),
     other_device = (\<lambda>_ _. False)\<rparr>, past = [], restarts = []\<rparr>"

definition sample_release_advert :: version_advert where
  "sample_release_advert = \<lparr>va_platform = ''linux-glibc'', va_track = ''s'', va_latest_version = ''2'', va_download_url = [],
     va_signature = replicate 64 7, va_published_at_unix = 5\<rparr>"

text \<open>A codec for the messages of the exchange.\<close>

definition release_codec :: rdv_codec where
  "release_codec = \<lparr>
     rdv_decode = (\<lambda>b. Some (Some (
       if b = [1] then Query_Version_Request \<lparr>qv_platform = ''linux-glibc'', qv_track = ''s'', qv_current_version = ''1''\<rparr>
       else if b = [2] then Query_Version_Response True (Some sample_release_advert)
       else if b = [3] then Fetch_Binary_Request \<lparr>fb_platform = ''linux-glibc'', fb_track = ''s'', fb_version = ''2''\<rparr>
       else if b = [4] then Fetch_Binary_Response \<lparr>fr_found = True, fr_binary_blob = sample_release,
         fr_signature = va_signature sample_release_advert, fr_error_message = []\<rparr>
       else Publish_Version_Request \<lparr>pv_advert = Some sample_release_advert, pv_binary_blob = sample_release,
         pv_operator_signature = []\<rparr>))),
     rdv_encode = (\<lambda>u. case u of Query_Version_Request _ \<Rightarrow> [1] | Query_Version_Response _ _ \<Rightarrow> [2]
       | Fetch_Binary_Request _ \<Rightarrow> [3] | Fetch_Binary_Response _ \<Rightarrow> [4] | _ \<Rightarrow> [5])\<rparr>"

lemma sample_exe: "live_exe ''/b/m'' = ''/b/m''"
  by (simp add: live_exe_def trim_end_text.simps ends_with_def suffix_def)

lemma sample_smooth: "smooth ''/b/m'' (m_disk sample_machine)" "files (m_disk sample_machine) ''/b/m'' = Some [1]"
    "write_error (m_disk sample_machine) (path_join ''/d'' ''mrsh.new'') = None"
  by (auto simp: smooth_def sample_machine_def occupied_def under_def starts_with_def write_error_def parent_there_def
      path_parent_def trivial_part_def ends_with_def suffix_def path_join_def split: if_splits)

lemma sample_outside: "outside (default_data_dir sample_host d) ''/b/m''" "outside ''/d'' ''/b/m''" "\<not> starts_with ''/d'' ''/b/m''"
  by (simp_all add: outside_def default_data_dir_def sample_host_def path_join_def starts_with_def ends_with_def)

theorem exe_never_absent_witness:
  "list_all (\<lambda>d. files d ''/b/m'' = Some [1] \<or> files d ''/b/m'' = Some [2])
     (past (snd (replace_binary_linux sample_host ''/d/n'' (sample_machine
       \<lparr>m_disk := (m_disk sample_machine)\<lparr>files := [''/b/m'' \<mapsto> [1], ''/d/n'' \<mapsto> [2]]\<rparr>\<rparr>))))"
proof -
  let ?m = "sample_machine\<lparr>m_disk := (m_disk sample_machine)\<lparr>files := [''/b/m'' \<mapsto> [1], ''/d/n'' \<mapsto> [2]]\<rparr>\<rparr>"
  obtain r m' where r: "replace_binary_linux sample_host ''/d/n'' ?m = (r, m')" by fastforce
  have "past ?m = []" by (simp add: sample_machine_def)
  with exe_never_absent [of sample_host "''/b/m''" "''/b/m''" ?m "[1]" "''/d/n''" "[2]" r m'] r sample_exe
  show ?thesis by (simp add: sample_host_def list_all_iff)
qed

theorem self_update_own_path_deletes_witness:
  "files (m_disk (snd (replace_binary_linux sample_host ''/b/m'' sample_machine))) ''/b/m'' = None"
proof -
  have "\<exists>msg m'. replace_binary_linux sample_host ''/b/m'' sample_machine = (Inr (msg, ''/b/m'' @ ''.bak''), m')
      \<and> files (m_disk m') ''/b/m'' = None \<and> files (m_disk m') (''/b/m'' @ ''.bak'') = Some [1]"
    by (rule self_update_own_path_deletes [of _ "''/b/m''"]) (simp_all only: sample_exe sample_smooth, simp add: sample_host_def)
  then show ?thesis by (elim exE conjE) (simp only: snd_conv)
qed

abbreviation sample_history :: "(rdv_env \<times> rdv_event) list" where
  "sample_history \<equiv> [(sample_rdv_env 0, Datagram [5] (V4 1 2 3 4, 5)), (sample_rdv_env 60, Sweep)]"

definition sample_network :: network where
  "sample_network = rdv_network release_codec sample_rdv (sample_rdv_env 90) (\<lambda>_. True) 0 (V4 1 2 3 4, 5)
     (rdv_run release_codec sample_rdv (\<lambda>_. True) sample_history rdv_start)"

lemma sample_carries:
  "carries release_codec (Query_Version_Request \<lparr>qv_platform = ''linux-glibc'', qv_track = ''s'', qv_current_version = ''1''\<rparr>) 65535"
  "carries release_codec (Query_Version_Response True (Some sample_release_advert)) 65535"
  "carries release_codec (Fetch_Binary_Request \<lparr>fb_platform = ''linux-glibc'', fb_track = ''s'', fb_version = ''2''\<rparr>) MAX_PAYLOAD"
  "carries release_codec (Fetch_Binary_Response \<lparr>fr_found = True, fr_binary_blob = sample_release,
     fr_signature = va_signature sample_release_advert, fr_error_message = []\<rparr>) MAX_PAYLOAD"
  by (simp_all add: carries_def release_codec_def MAX_PAYLOAD_def)

lemma sample_published:
  "message_of release_codec (Datagram [5] src) = Some (Publish_Version_Request \<lparr>pv_advert = Some sample_release_advert,
     pv_binary_blob = sample_release, pv_operator_signature = []\<rparr>)"
  "message_of release_codec Sweep = None"
  by (simp_all add: message_of_def release_codec_def)

lemma sample_advert: "va_platform sample_release_advert = ''linux-glibc''" "va_track sample_release_advert = ''s''"
    "va_latest_version sample_release_advert = ''2''" "length (va_signature sample_release_advert) = 64"
    "sample_release_advert\<lparr>va_published_at_unix := 5\<rparr> = sample_release_advert"
  by (simp_all add: sample_release_advert_def)

lemma sample_newer: "semver_greater ''2'' ''1''"
  by (simp add: semver_greater_def version_parts_def version_part_def parse_uint_def compare_from.simps part_at_def Let_def)

lemma sample_sizes: "MIN_BINARY_SIZE \<le> length sample_release" "length sample_release \<le> MAX_BINARY_BYTES"
  by (simp_all add: length_release MIN_BINARY_SIZE_def MAX_BINARY_BYTES_def)

lemma sample_host_simps: "build_platform sample_host = ''linux-glibc''" "current_exe sample_host = Some ''/b/m''"
    "data_dir_var sample_host = Some ''/d''" "build_version sample_host = ''1''" "trim (signing_key_pem sample_host) = ''k''"
    "verifier sample_host key = Some (\<lambda>_ _. True)"
  by (simp_all add: sample_host_def build_platform_def trim_graphic_ends graphic_def)

theorem published_update_installs_witness:
  "files (m_disk (snd (handle_self_update_from_rdv sample_host sample_network (Inr [''r'']) ''s'' None False False sample_machine)))
     ''/b/m'' = Some sample_release"
proof -
  have "\<exists>msg m'. handle_self_update_from_rdv sample_host sample_network (Inr [''r'']) ''s'' None False False sample_machine
      = (response_ok (Some msg), m') \<and> files (m_disk m') ''/b/m'' = Some sample_release
      \<and> files (m_disk m') (''/b/m'' @ ''.bak'') = Some [1]"
    unfolding sample_network_def
    by (rule published_update_installs [OF sample_published(1), where raw_exe = "''/b/m''" and dir = "''/d''" and v = "''2''"
          and verify = "\<lambda>_ _. True" and a = sample_release_advert and E = "sample_rdv_env 0" and post = "[(sample_rdv_env 60, Sweep)]"
          and ok = "\<lambda>_. True" and R = sample_rdv and ?s0.0 = rdv_start])
      (simp_all add: sample_host_simps sample_advert sample_newer sample_sizes sample_exe sample_smooth sample_outside
        sample_carries publishes_def sample_published SIGNATURE_SIZE_def, simp_all add: sample_rdv_env_def sample_advert
        sample_carries sample_machine_def)
  then show ?thesis by (elim exE conjE) (simp only: snd_conv)
qed

theorem from_rdv_only_verified_witness:
  "let m' = snd (handle_self_update_from_rdv sample_host sample_network (Inr [''r'']) ''s'' None False True sample_machine)
   in files (m_disk m') ''/b/m'' = Some [1] \<or> (\<exists>blob. signed_binary sample_host blob \<and> files (m_disk m') ''/b/m'' = Some blob)"
proof -
  obtain r m' where r: "handle_self_update_from_rdv sample_host sample_network (Inr [''r'']) ''s'' None False True sample_machine = (r, m')"
    by fastforce
  from from_rdv_only_verified [OF sample_host_simps(2) sample_exe [symmetric] sample_outside(1) _ sample_smooth(2) this]
  show ?thesis unfolding r Let_def snd_conv by (auto simp: sample_host_simps)
qed

lemma sample_entry:
  "map_of (version_adverts (rdv_run release_codec sample_rdv (\<lambda>_. True) sample_history rdv_start)) (''linux-glibc'', ''s'') =
     Some \<lparr>ve_advert = sample_release_advert, ve_binary_blob = sample_release\<rparr>"
proof -
  have "list_all (\<lambda>e. \<not> publishes release_codec (''linux-glibc'', ''s'') (snd e)) [(sample_rdv_env 60, Sweep)]"
    by (simp add: publishes_def sample_published)
  from published_entry [OF sample_published(1) _ sample_advert(1,2) _ _ _ this, where E = "sample_rdv_env 0"] show ?thesis
    by (simp add: sample_advert sample_rdv_env_def)
qed

lemma sample_update:
  "query_version sample_host sample_network [''r''] ''linux-glibc'' ''s'' ''1'' = Inr (Some sample_release_advert)"
  "fetch_binary sample_host sample_network [''r''] ''linux-glibc'' ''s'' ''2'' = Inr (sample_release, va_signature sample_release_advert)"
  unfolding sample_network_def
  using query_answered [OF sample_entry, of "''1''" release_codec "[''r'']"]
    fetch_answered [OF sample_entry, of "''2''" release_codec "[''r'']"] sample_carries
  by (simp_all add: sample_advert sample_newer length_0_conv [symmetric] length_release del: length_0_conv)

theorem auto_upgrade_gated_witness:
  "\<not> watchdog_active (us_read ''/d'' (m_disk sample_machine)) \<and>
   files (m_disk (snd (auto_upgrade_round sample_host sample_network [''r''] ''/d'' True ''s'' ''linux-glibc'' True False
     (\<lambda>m. m) sample_machine))) ''/b/m'' = Some sample_release"
proof -
  let ?round = "auto_upgrade_round sample_host sample_network [''r''] ''/d'' True ''s'' ''linux-glibc'' True False (\<lambda>m. m) sample_machine"
  obtain stop m' where r: "?round = (stop, m')" by fastforce
  have sw: "\<exists>msg m''. fetch_verify_and_swap sample_host sample_network [''r''] ''linux-glibc'' ''s'' ''2'' False sample_machine =
      (response_ok (Some msg), m'') \<and> files (m_disk m'') ''/b/m'' = Some sample_release \<and> files (m_disk m'') (''/b/m'' @ ''.bak'') = Some [1]"
    by (rule swap_installs [OF sample_host_simps(2) sample_exe [symmetric] sample_host_simps(3) _ sample_outside(2,3)
          sample_smooth(3,1,2) sample_update(2) sample_sizes])
      (simp_all add: sample_machine_def sample_host_simps SIGNATURE_SIZE_def sample_advert)
  have off: "us_read ''/d'' (m_disk sample_machine) = never"
    by (simp add: us_read_def read_to_string_def fs_read_def sample_machine_def status_path_def path_join_def starts_with_def
        ends_with_def suffix_def)
  have "files (m_disk m') ''/b/m'' = Some sample_release"
    using r sw by (auto simp: auto_upgrade_round_def sample_update sample_host_simps off never_def status_record_def sample_advert)
  moreover have "sample_release \<noteq> [1]"
  proof
    assume "sample_release = [1]"
    then have "length sample_release = length [1 :: byte]" by (rule arg_cong)
    then show False by (simp only: length_release) simp
  qed
  then have "m' \<noteq> sample_machine" using calculation sample_smooth(2) by auto
  ultimately show ?thesis using auto_upgrade_gated [OF r] by (simp add: r)
qed

end
