(* ===== verification/Watchdog.thy ===== *)
theory Watchdog
  imports Self_Update
begin

text \<open>
  \<open>mrsh-server/src/watchdog.rs\<close> (the Linux build): restoring the previous binary, and the probe of
  \<open>src/server_mode.rs\<close> that observes the heartbeats after an update and orders the rollback.
\<close>

section \<open>The rollback\<close>

definition MIN_BAK_SIZE :: nat where
  "MIN_BAK_SIZE = 1000000"

definition validate_bak_path :: "host \<Rightarrow> disk \<Rightarrow> string \<Rightarrow> unit result" where
  "validate_bak_path H d prev_path =
     (if prev_path = [] then Inl (Failed (''previous_binary_path is empty'' @ dash @ ''watchdog state corrupted''))
      else case metadata_len (dir_len H) d prev_path of
             Inl _ \<Rightarrow> Inl (Failed (''previous binary not found: '' @ prev_path))
           | Inr len \<Rightarrow>
               if files d prev_path = None
               then Inl (Failed (''previous_binary_path is not a regular file: '' @ prev_path))
               else if len < MIN_BAK_SIZE
               then Inl (Failed (''previous binary too small: '' @ show_nat len @ '' bytes (minimum '' @ show_nat MIN_BAK_SIZE @ '')''))
               else Inr ())"

definition quarantine_path :: "string \<Rightarrow> int \<Rightarrow> string" where
  "quarantine_path exe_path ts =
     path_join (case path_parent exe_path of Some p \<Rightarrow> p | None \<Rightarrow> ''.'') (name_or_empty exe_path @ ''.failed-'' @ show_int ts)"

definition resolve_live_exe_path :: "host \<Rightarrow> string result" where
  "resolve_live_exe_path H =
     and_then (ok_or (Failed ''get current exe path'') (current_exe H)) (\<lambda>raw_exe.
       let raw = live_exe raw_exe in
       and_then (ok_or (Failed ''current exe has no parent directory'') (path_parent raw)) (\<lambda>dir.
         Inr (path_join dir (trim_end_text ''.prev'' (trim_end_text ''.bak'' (name_or_empty raw))))))"

definition truncate_for_status :: "string \<Rightarrow> string" where
  "truncate_for_status s = take_chars 80 (filter plain s)"

definition schedule_restart :: "machine \<Rightarrow> machine" where
  "schedule_restart m = m\<lparr>restarts := restarts m @ [(''mrsh'', m_disk m), (''rsh'', m_disk m)]\<rparr>"

definition execute_rollback :: "host \<Rightarrow> (machine, unit) act" where
  "execute_rollback H m =
     (let data_dir = default_data_dir H (m_disk m);
          prev_bak = previous_binary_path (us_read data_dir (m_disk m));
          persist = (\<lambda>st m. snd (on_disk (us_write data_dir (status_record st (clock H) prev_bak)) m))
      in case validate_bak_path H (m_disk m) prev_bak of
           Inl e \<Rightarrow> (Inl e, persist (''failed:rolled-back-aborted: '' @ truncate_for_status (say H e)) m)
         | Inr _ \<Rightarrow>
             (case resolve_live_exe_path H of
                Inl e \<Rightarrow> (Inl e, m)
              | Inr exe_path \<Rightarrow>
                  let exists = (fault (m_disk m) exe_path = None \<and> path_exists (m_disk m) exe_path);
                      m1 = (if exists then snd (on_disk (fs_rename exe_path (quarantine_path exe_path (clock H))) m) else m);
                      (renamed, m2) = on_disk (fs_rename prev_bak exe_path) m1;
                      (restored, m3) = (case renamed of
                          None \<Rightarrow> (True, m2)
                        | Some _ \<Rightarrow> (case on_disk (fs_copy prev_bak exe_path) m2 of (copied, m3) \<Rightarrow> (copied = None, m3)))
                  in if \<not> restored
                     then (Inl (Failed ''rolled-back: promote .bak to live failed''),
                           persist (''failed:'' @ truncate_for_status ''rolled-back: promote .bak to live failed'') m3)
                     else
                       let m4 = snd (on_disk (fs_set_permissions exe_path) m3);
                           m5 = persist ''failed:rolled-back'' m4;
                           m6 = snd (on_disk (\<lambda>d. ((), clear_pending data_dir d)) m5)
                       in (Inr (), schedule_restart m6)))"

section \<open>The probe\<close>

text \<open>What the probe waits for: the cancellation, or the next tick, with the time since it started (in
  nanoseconds) and whether the registration it then tries succeeds.\<close>

datatype probe_event = Cancelled | Probe_Tick nat bool

datatype probe_end = Probe_Cancelled | Probe_Expired | Probe_Disarmed | Probe_Cleared | Probe_Rolled_Back "unit result"
  | Probe_Waiting

definition MAX_WATCHDOG_DURATION :: nat where
  "MAX_WATCHDOG_DURATION = from_secs (15 * 60)"

fun run_watchdog_probe :: "host \<Rightarrow> string \<Rightarrow> probe_event list \<Rightarrow> machine \<Rightarrow> probe_end \<times> machine" where
  "run_watchdog_probe H data_dir [] m = (Probe_Waiting, m)"
| "run_watchdog_probe H data_dir (Cancelled # _) m = (Probe_Cancelled, m)"
| "run_watchdog_probe H data_dir (Probe_Tick elapsed success # events) m =
     (if MAX_WATCHDOG_DURATION < elapsed then (Probe_Expired, m)
      else if \<not> watchdog_active (us_read data_dir (m_disk m)) then (Probe_Disarmed, m)
      else case on_disk (record_heartbeat_outcome data_dir success) m of
             (Continue, m') \<Rightarrow> run_watchdog_probe H data_dir events m'
           | (Clear_Watchdog, m') \<Rightarrow> (Probe_Cleared, m')
           | (Rollback_Triggered, m') \<Rightarrow>
               (case execute_rollback H m' of (r, m'') \<Rightarrow> (Probe_Rolled_Back r, m'')))"

section \<open>Three failures\<close>

text \<open>Outside the data directory nothing changes.\<close>

definition agree :: "string \<Rightarrow> disk \<Rightarrow> disk \<Rightarrow> bool" where
  "agree dir d d' \<longleftrightarrow> fault d' = fault d \<and>
     (\<forall>p. outside dir p \<longrightarrow> files d' p = files d p \<and> (p \<in> folders d' \<longleftrightarrow> p \<in> folders d))"

lemma agree_trans: "agree dir d d' \<Longrightarrow> agree dir d' d'' \<Longrightarrow> agree dir d d''"
  by (simp add: agree_def)

lemma agree_write_error:
  assumes "agree dir d d'" "outside dir p"
  shows "write_error d' p = write_error d p"
proof -
  have "parent_there d' p = parent_there d p"
  proof (cases "path_parent p")
    case (Some q)
    then have "outside dir q"
      using assms(2) path_parent_prefix [of p q] by (auto simp: outside_def starts_with_def intro: prefix_order.trans)
    with Some assms(1) show ?thesis by (simp add: parent_there_def agree_def)
  qed (simp add: parent_there_def)
  with assms show ?thesis by (simp add: write_error_def agree_def)
qed

lemma agree_read: "agree dir d d' \<Longrightarrow> outside dir p \<Longrightarrow> fs_read d' p = fs_read d p"
  by (simp add: fs_read_def agree_def split: option.split)

lemma us_write_agree:
  assumes "ready dir d"
  shows "agree dir d (snd (us_write dir s d))"
proof -
  let ?b = "as_bytes (us_encode s)" and ?tmp = "status_tmp dir" and ?path = "status_path dir"
  obtain d1 where d1: "fs_write ?tmp ?b d = (None, d1)" using assms by (auto simp: ready_def fs_write_def)
  then have f1: "folders d1 = folders d" "fault d1 = fault d" using fs_write_frame [of ?tmp ?b d] by simp_all
  obtain r2 d2 where d2: "fs_rename ?tmp ?path d1 = (r2, d2)" by fastforce
  have "fault (snd (us_write dir s d)) = fault d \<and> (outside dir p \<longrightarrow> (p \<in> folders (snd (us_write dir s d)) \<longleftrightarrow> p \<in> folders d))" for p
  proof (cases r2)
    case None
    have "?tmp \<notin> folders d1" using assms by (auto simp: ready_def f1 write_error_def split: option.splits if_splits)
    with d2 None fs_rename_target [of ?tmp ?path d1 d2] have "fault d2 = fault d" using paths_distinct(1) f1 by simp
    moreover have "outside dir p \<longrightarrow> (p \<in> folders d2 \<longleftrightarrow> p \<in> folders d)"
      using d2 None fs_rename_folders [of ?tmp ?path d1 d2 p] outside_not_under [of dir p] f1 by (simp add: data_paths)
    ultimately show ?thesis by (simp add: us_write_def ready_dir [OF assms] d1 d2 None)
  next
    case (Some e)
    then have "d2 = d1" using d2 fs_rename_error by metis
    obtain r3 d3 where d3: "fs_remove ?tmp d2 = (r3, d3)" by fastforce
    then have "folders d3 = folders d \<and> fault d3 = fault d" using fs_remove_frame \<open>d2 = d1\<close> f1 by metis
    then show ?thesis by (simp add: us_write_def ready_dir [OF assms] d1 d2 d3 Some)
  qed
  then show ?thesis by (simp add: agree_def us_write_files)
qed

lemma heartbeat_agree: "ready dir d \<Longrightarrow> agree dir d (snd (record_heartbeat_outcome dir ok d))"
  by (auto simp: record_heartbeat_outcome_def Let_def us_write_agree) (simp_all add: agree_def)

text \<open>An armed probe that sees three failures in time reaches the rollback, with the record it will read.\<close>

lemma probe_reaches_rollback:
  assumes wf: "well_formed (us_read dir (m_disk m))" "ready dir (m_disk m)"
    and armed: "watch_of (us_read dir (m_disk m)) = On 0"
    and t: "t1 \<le> MAX_WATCHDOG_DURATION" "t2 \<le> MAX_WATCHDOG_DURATION" "t3 \<le> MAX_WATCHDOG_DURATION"
  shows "\<exists>m'. run_watchdog_probe H dir (Probe_Tick t1 False # Probe_Tick t2 False # Probe_Tick t3 False # more_events) m
      = (case execute_rollback H m' of (r, m'') \<Rightarrow> (Probe_Rolled_Back r, m'')) \<and>
    watch_of (us_read dir (m_disk m')) = Off \<and> well_formed (us_read dir (m_disk m')) \<and> ready dir (m_disk m') \<and>
    previous_binary_path (us_read dir (m_disk m')) = previous_binary_path (us_read dir (m_disk m)) \<and>
    agree dir (m_disk m) (m_disk m')"
proof -
  have active: "watchdog_active s \<longleftrightarrow> watch_of s \<noteq> Off" for s by (simp add: watch_of_def)
  have beat: "\<exists>m1. on_disk (record_heartbeat_outcome dir False) m0 = (if k < 2 then Continue else Rollback_Triggered, m1) \<and>
      watch_of (us_read dir (m_disk m1)) = (if k < 2 then On (k + 1) else Off) \<and>
      well_formed (us_read dir (m_disk m1)) \<and> ready dir (m_disk m1) \<and>
      previous_binary_path (us_read dir (m_disk m1)) = previous_binary_path (us_read dir (m_disk m0)) \<and>
      agree dir (m_disk m0) (m_disk m1)"
    if w: "well_formed (us_read dir (m_disk m0))" "ready dir (m_disk m0)" "watch_of (us_read dir (m_disk m0)) = On k" for m0 k
  proof -
    obtain a m1 where o: "on_disk (record_heartbeat_outcome dir False) m0 = (a, m1)" by fastforce
    then have r: "record_heartbeat_outcome dir False (m_disk m0) = (a, m_disk m1)"
      using m_on_disk [of "record_heartbeat_outcome dir False" m0] by (metis fst_conv prod.collapse snd_conv)
    from heartbeat_refines [OF w(1,2) r] w(3)
    have "(if k < 2 then (Continue, On (k + 1)) else (Rollback_Triggered, Off)) = (a, watch_of (us_read dir (m_disk m1)))"
      "ready dir (m_disk m1)" "well_formed (us_read dir (m_disk m1))"
      "previous_binary_path (us_read dir (m_disk m1)) = previous_binary_path (us_read dir (m_disk m0))"
      by (simp_all, metis update_status.select_convs(6) update_status.surjective update_status.update_convs(3,5))
    with o r heartbeat_agree [OF w(2), of False] show ?thesis by (auto split: if_splits)
  qed
  obtain m1 where m1: "on_disk (record_heartbeat_outcome dir False) m = (Continue, m1)"
    "watch_of (us_read dir (m_disk m1)) = On 1" "well_formed (us_read dir (m_disk m1))" "ready dir (m_disk m1)"
    "previous_binary_path (us_read dir (m_disk m1)) = previous_binary_path (us_read dir (m_disk m))"
    "agree dir (m_disk m) (m_disk m1)"
    using beat [OF wf armed] by auto
  obtain m2 where m2: "on_disk (record_heartbeat_outcome dir False) m1 = (Continue, m2)"
    "watch_of (us_read dir (m_disk m2)) = On 2" "well_formed (us_read dir (m_disk m2))" "ready dir (m_disk m2)"
    "previous_binary_path (us_read dir (m_disk m2)) = previous_binary_path (us_read dir (m_disk m1))"
    "agree dir (m_disk m1) (m_disk m2)"
    using beat [OF m1(3,4,2)] by (auto simp: numeral_2_eq_2)
  obtain m3 where m3: "on_disk (record_heartbeat_outcome dir False) m2 = (Rollback_Triggered, m3)"
    "watch_of (us_read dir (m_disk m3)) = Off" "well_formed (us_read dir (m_disk m3))" "ready dir (m_disk m3)"
    "previous_binary_path (us_read dir (m_disk m3)) = previous_binary_path (us_read dir (m_disk m2))"
    "agree dir (m_disk m2) (m_disk m3)"
    using beat [OF m2(3,4,2)] by auto
  have "run_watchdog_probe H dir (Probe_Tick t1 False # Probe_Tick t2 False # Probe_Tick t3 False # more_events) m
      = (case execute_rollback H m3 of (r, m'') \<Rightarrow> (Probe_Rolled_Back r, m''))"
    using t m1(1) m2(1) m3(1) armed m1(2) m2(2) by (simp add: active not_less)
  moreover have "agree dir (m_disk m) (m_disk m3)" using m1(6) m2(6) m3(6) by (blast intro: agree_trans)
  ultimately show ?thesis using m1(5) m2(5) m3 by (intro exI [of _ m3]) simp
qed

section \<open>The old binary is back\<close>

lemma quarantine_keeps:
  assumes "fs_rename exe (exe @ CHR ''.'' # n) d = (r, d')" "write_error d exe = None"
    and p: "\<not> under exe p" "\<not> under (exe @ CHR ''.'' # n) p"
  shows "write_error d' exe = None \<and> fs_read d' p = fs_read d p \<and> fault d' = fault d"
proof (cases r)
  case (Some e)
  with assms fs_rename_error show ?thesis by metis
next
  case None
  let ?q = "exe @ CHR ''.'' # n"
  have nu: "\<not> under ?q exe" by (auto simp: under_def starts_with_def dest: prefix_length_le)
  have "exe \<notin> folders d'" using fs_rename_source [of exe ?q d d'] assms(1) None nu by simp
  moreover have fault: "fault d' = fault d" using assms(1) None by (auto simp: fs_rename_def split: option.splits if_splits)
  moreover have "parent_there d' exe"
  proof -
    obtain q where q: "path_parent exe = Some q" "q = [] \<or> q \<in> folders d"
      using assms(2) by (auto simp: write_error_def parent_there_def split: option.splits if_splits)
    then have "length q < length exe" by (simp add: path_parent_shorter)
    then have "\<not> under exe q" "\<not> under ?q q" by (simp_all add: short_not_under)
    with q fs_rename_folders [of exe ?q d d' q] assms(1) None show ?thesis by (auto simp: parent_there_def)
  qed
  ultimately have "write_error d' exe = None"
    using assms(2) by (auto simp: write_error_def split: option.splits if_splits)
  then show ?thesis using fs_rename_read [OF p, of d] assms(1) fault by simp
qed

lemma no_slash_int: "CHR ''/'' \<notin> set (show_int n)"
  using show_nat_chars [of "CHR ''/''"] by (auto simp: show_int_def)

lemma rollback_promotes:
  assumes dir: "data_dir_var H = Some dir" "outside dir exe" "\<not> starts_with dir exe"
    and live: "resolve_live_exe_path H = Inr exe" "quarantine_path exe (clock H) = exe @ ''.failed-'' @ show_int (clock H)"
    and bak: "previous_binary_path (us_read dir (m_disk m)) = exe @ ''.bak''"
      "fs_read (m_disk m) (exe @ ''.bak'') = Inr good" "MIN_BAK_SIZE \<le> length good"
    and w: "write_error (m_disk m) exe = None" and c: "i64 (clock H)" "is_str (exe @ ''.bak'')"
    and off: "watch_of (us_read dir (m_disk m)) = Off"
  shows "\<exists>m'. execute_rollback H m = (Inr (), m') \<and> files (m_disk m') exe = Some good \<and>
    watch_of (us_read dir (m_disk m')) = Off"
proof -
  let ?bak = "exe @ ''.bak''" and ?q = "exe @ ''.failed-'' @ show_int (clock H)"
  have dd: "default_data_dir H x = dir" for x using dir(1) by (simp add: default_data_dir_def)
  have there: "files (m_disk m) ?bak = Some good" "fault (m_disk m) ?bak = None" "?bak \<notin> folders (m_disk m)"
    using bak(2) by (auto simp: fs_read_def split: option.splits if_splits)
  have v: "validate_bak_path H (m_disk m) ?bak = Inr ()"
    using there bak(3) by (simp add: validate_bak_path_def metadata_len_def)
  have q: "?q = exe @ CHR ''.'' # ''failed-'' @ show_int (clock H)" by simp
  have nu_bak: "\<not> under exe ?bak" "\<not> under ?q ?bak" by (auto simp: under_def starts_with_def)
  have nst: "\<not> starts_with dir (exe @ t)" for t using dir(3) by (auto simp: starts_with_def dest: append_prefixD)
  have nu_st: "\<not> under (exe @ t) (status_path dir)" if "CHR ''/'' \<notin> set t" for t
    using data_file_not_under [OF outside_ext [OF dir(2) that] nst, of "''last_update.json''"] by (simp add: data_paths)
  have nus: "\<not> under exe (status_path dir)" "\<not> under ?bak (status_path dir)" "\<not> under ?q (status_path dir)"
    using nu_st [of "[]"] nu_st [of "''.bak''"] nu_st [of "''.failed-'' @ show_int (clock H)"]
      no_slash_int [of "clock H"] by auto
  define m1 where "m1 = (if fault (m_disk m) exe = None \<and> path_exists (m_disk m) exe
      then snd (on_disk (fs_rename exe ?q) m) else m)"
  have k: "write_error (m_disk m1) exe = None \<and> fs_read (m_disk m1) ?bak = Inr good \<and> us_read dir (m_disk m1) = us_read dir (m_disk m)"
  proof (cases "m1 = m")
    case False
    then have m1: "m_disk m1 = snd (fs_rename exe ?q (m_disk m))" by (auto simp: m1_def split: if_splits)
    obtain r d' where r: "fs_rename exe ?q (m_disk m) = (r, d')" by fastforce
    then have s: "m_disk m1 = d'" by (simp only: m1 snd_conv)
    have "us_read dir d' = us_read dir (m_disk m)"
      using quarantine_keeps [OF r [unfolded q] w nus(1) nus(3) [unfolded q]] by (intro us_read_cong) simp
    with quarantine_keeps [OF r [unfolded q] w nu_bak [unfolded q]] bak(2) show ?thesis by (simp only: s simp_thms)
  qed (use w bak(2) in simp)
  then have bak1: "files (m_disk m1) ?bak = Some good" "fault (m_disk m1) ?bak = None" "?bak \<notin> folders (m_disk m1)"
    by (auto simp: fs_read_def split: option.splits if_splits)
  obtain r2 m2 where r2: "on_disk (fs_rename ?bak exe) m1 = (r2, m2)" by fastforce
  then have d2: "r2 = fst (fs_rename ?bak exe (m_disk m1))" "m_disk m2 = snd (fs_rename ?bak exe (m_disk m1))"
    using m_on_disk [of "fs_rename ?bak exe" m1] by simp_all
  obtain m3 where m3: "(case r2 of None \<Rightarrow> (True, m2) | Some _ \<Rightarrow> (case on_disk (fs_copy ?bak exe) m2 of (copied, m3) \<Rightarrow> (copied = None, m3)))
      = (True, m3)" "files (m_disk m3) exe = Some good" "us_read dir (m_disk m3) = us_read dir (m_disk m)"
  proof (cases r2)
    case None
    then have "files (m_disk m2) exe = Some good" using d2 fs_rename_done [of ?bak exe "m_disk m1"] bak1 by simp
    moreover have "us_read dir (m_disk m2) = us_read dir (m_disk m1)"
      unfolding d2(2) using nus by (intro us_read_cong fs_rename_read)
    ultimately show ?thesis using None k by (intro that [of m2]) simp_all
  next
    case (Some e)
    then have d: "m_disk m2 = m_disk m1" using d2 fs_rename_failed [of ?bak exe "m_disk m1"] by simp
    obtain c m3 where c: "on_disk (fs_copy ?bak exe) m2 = (c, m3)" by fastforce
    then have d3: "c = fst (fs_copy ?bak exe (m_disk m1))" "m_disk m3 = snd (fs_copy ?bak exe (m_disk m1))"
      using m_on_disk [of "fs_copy ?bak exe" m2] d by simp_all
    have ok: "fst (fs_copy ?bak exe (m_disk m1)) = None \<and> files (snd (fs_copy ?bak exe (m_disk m1))) exe = Some good"
      using fs_copy_ok [of "m_disk m1" ?bak exe] bak1 k by simp
    have "exe \<noteq> status_path dir" using nus(1) by (auto simp: under_def)
    then have "us_read dir (m_disk m3) = us_read dir (m_disk m1)"
      unfolding d3(2) using k by (intro us_read_cong) (simp add: fs_copy_def fs_read_write_other)
    with ok d3 k Some c show ?thesis by (intro that [of m3]) simp_all
  qed
  let ?s = "status_record ''failed:rolled-back'' (clock H) ?bak"
  have "readable ?s" using c by (simp add: readable_def status_record_def i64_def is_ascii_def)
  from us_write_any [OF this, of dir "m_disk m3"] off m3(3)
  have "watch_of (us_read dir (snd (us_write dir ?s (m_disk m3)))) = Off"
    by (auto simp: watch_of_def sanitized_def status_record_def never_def)
  moreover have "m_disk (snd (on_disk (fs_set_permissions exe) m3)) = m_disk m3"
    by (simp add: fs_set_permissions_def split: option.split)
  ultimately show ?thesis
    unfolding execute_rollback_def dd Let_def bak(1) v live sum.case live(2) m1_def [symmetric] r2 prod.case m3(1)
    by (simp add: schedule_restart_def us_write_files clear_pending_files dir(2) m3(2))
qed

text \<open>C12. A faulty update is undone: after any history that leaves the watchdog armed with no failure counted and
  the backup of the executable on record, three failed registrations within the time of the probe make it put
  the backed-up binary back at the path of the executable, and leave the watchdog off, whether the faulty
  binary could be set aside or not and whether the backup could be renamed or only copied.\<close>

theorem rollback_restores:
  assumes "status_run dir (m_disk m)" and "ready dir (m_disk m)" and "watch_of (us_read dir (m_disk m)) = On 0"
    and "previous_binary_path (us_read dir (m_disk m)) = exe @ ''.bak''"
    and "t1 \<le> MAX_WATCHDOG_DURATION" "t2 \<le> MAX_WATCHDOG_DURATION" "t3 \<le> MAX_WATCHDOG_DURATION"
    and "data_dir_var H = Some dir" "outside dir exe" "\<not> starts_with dir exe" "i64 (clock H)"
    and "resolve_live_exe_path H = Inr exe" "quarantine_path exe (clock H) = exe @ ''.failed-'' @ show_int (clock H)"
    and "fs_read (m_disk m) (exe @ ''.bak'') = Inr good" "MIN_BAK_SIZE \<le> length good" "write_error (m_disk m) exe = None"
  shows "\<exists>m'. run_watchdog_probe H dir (Probe_Tick t1 False # Probe_Tick t2 False # Probe_Tick t3 False # more_events) m
      = (Probe_Rolled_Back (Inr ()), m') \<and> files (m_disk m') exe = Some good \<and> watch_of (us_read dir (m_disk m')) = Off"
proof -
  have wf: "well_formed (us_read dir (m_disk m))" using assms(1) by (rule status_run_well_formed)
  obtain m' where m': "run_watchdog_probe H dir (Probe_Tick t1 False # Probe_Tick t2 False # Probe_Tick t3 False # more_events) m
        = (case execute_rollback H m' of (r, m'') \<Rightarrow> (Probe_Rolled_Back r, m''))"
      "watch_of (us_read dir (m_disk m')) = Off" "well_formed (us_read dir (m_disk m'))"
      "previous_binary_path (us_read dir (m_disk m')) = exe @ ''.bak''" "agree dir (m_disk m) (m_disk m')"
    using probe_reaches_rollback [OF wf assms(2,3,5-7)] assms(4) by metis
  have "outside dir (exe @ ''.bak'')" by (rule outside_ext [OF assms(9)]) simp
  then have read: "fs_read (m_disk m') (exe @ ''.bak'') = Inr good"
    using agree_read [OF m'(5)] assms(14) by simp
  have w: "write_error (m_disk m') exe = None" using agree_write_error [OF m'(5) assms(9)] assms(16) by simp
  have "is_str (exe @ ''.bak'')" using m'(3,4) by (metis readable_def well_formed_def)
  from rollback_promotes [OF assms(8-10,12,13) m'(4) read assms(15) w assms(11) this m'(2)] m'(1) show ?thesis by auto
qed

text \<open>The rollback can lose the way to the backup: the path is stored without its backslashes and cut at 80
  characters, so when no file has that shortened name, an update that armed the watchdog in good order is not
  undone; after three failed heartbeats the rollback aborts and every file outside the data directory, the
  faulty binary included, stays as it is.\<close>

theorem rollback_loses_path:
  assumes "status_run dir d" and "ready dir d" and "i64 t" "is_str bak"
    and "m_disk m = snd (arm_watchdog dir t bak d)"
    and "files d (sanitize_reason bak) = None" "outside dir (sanitize_reason bak)"
    and "t1 \<le> MAX_WATCHDOG_DURATION" "t2 \<le> MAX_WATCHDOG_DURATION" "t3 \<le> MAX_WATCHDOG_DURATION" and "data_dir_var H = Some dir"
  shows "\<exists>e m'. run_watchdog_probe H dir (Probe_Tick t1 False # Probe_Tick t2 False # Probe_Tick t3 False # more_events) m
      = (Probe_Rolled_Back (Inl e), m') \<and> (\<forall>p. outside dir p \<longrightarrow> files (m_disk m') p = files d p)"
proof -
  let ?s = "(us_read dir d)\<lparr>watchdog_active := True, watchdog_started_at := t, heartbeat_failures := 0, previous_binary_path := bak\<rparr>"
  have wf: "well_formed (us_read dir (m_disk m))"
    unfolding assms(5) by (intro status_run_well_formed status_run.arm assms)
  have "readable ?s" using status_run_well_formed [OF assms(1)] assms(3,4) by (simp add: well_formed_def readable_def)
  from us_write_ready_read [OF assms(2) this] us_write_agree [OF assms(2), of ?s]
  have m: "ready dir (m_disk m)" "us_read dir (m_disk m) = sanitized ?s" "agree dir d (m_disk m)"
    by (simp_all add: assms(5) arm_watchdog_def)
  have armed: "watch_of (us_read dir (m_disk m)) = On 0" by (simp add: m(2) watch_of_def sanitized_def)
  obtain m' where m': "run_watchdog_probe H dir (Probe_Tick t1 False # Probe_Tick t2 False # Probe_Tick t3 False # more_events) m
        = (case execute_rollback H m' of (r, m'') \<Rightarrow> (Probe_Rolled_Back r, m''))"
      "previous_binary_path (us_read dir (m_disk m')) = sanitize_reason bak" "agree dir (m_disk m) (m_disk m')"
    using probe_reaches_rollback [OF wf m(1) armed assms(8-10)] by (auto simp: m(2) sanitized_def)
  have a: "agree dir d (m_disk m')" using m(3) m'(3) by (rule agree_trans)
  then have "files (m_disk m') (sanitize_reason bak) = None" using assms(6,7) by (simp add: agree_def)
  then have "validate_bak_path H (m_disk m') (sanitize_reason bak) \<noteq> Inr ()"
    by (auto simp: validate_bak_path_def split: sum.split)
  then obtain e where "validate_bak_path H (m_disk m') (sanitize_reason bak) = Inl e"
    by (cases "validate_bak_path H (m_disk m') (sanitize_reason bak)") auto
  with m'(1,2) a assms(11) show ?thesis
    by (simp add: execute_rollback_def default_data_dir_def Let_def us_write_files agree_def)
qed

text \<open>The path of a Windows installation among them.\<close>

lemma windows_path_lost:
  "sanitize_reason (''C:'' @ CHR 0x5C # ''ProgramData'' @ CHR 0x5C # ''mrsh'' @ CHR 0x5C # ''mrsh.exe.bak'') = ''C:ProgramDatamrshmrsh.exe.bak''"
  by (simp add: sanitize_reason_def plain_def is_cont_def)

section \<open>Witnesses\<close>

definition armed_disk :: "string \<Rightarrow> bytes \<Rightarrow> disk" where
  "armed_disk bak good = snd (arm_watchdog ''/d'' 5 bak
     ((m_disk sample_machine)\<lparr>files := [''/b/m'' \<mapsto> [1], ''/b/m.bak'' \<mapsto> good]\<rparr>))"

lemma before_armed:
  fixes good :: bytes
  defines "d \<equiv> (m_disk sample_machine)\<lparr>files := [''/b/m'' \<mapsto> [1], ''/b/m.bak'' \<mapsto> good]\<rparr>"
  shows "status_run ''/d'' d" "ready ''/d'' d" "us_read ''/d'' d = never"
    "fs_read d ''/b/m.bak'' = Inr good" "write_error d ''/b/m'' = None"
  by (auto intro!: status_run.start simp: d_def sample_machine_def fs_read_def us_read_def read_to_string_def ready_def
      write_error_def parent_there_def path_parent_def trivial_part_def status_path_def status_tmp_def path_join_def
      starts_with_def ends_with_def suffix_def)

theorem rollback_loses_path_witness:
  "\<exists>e m'. run_watchdog_probe sample_host ''/d'' [Probe_Tick 0 False, Probe_Tick 1 False, Probe_Tick 2 False]
      (sample_machine\<lparr>m_disk := armed_disk (''/b'' @ CHR 0x5C # ''m.bak'') sample_release\<rparr>) = (Probe_Rolled_Back (Inl e), m') \<and>
    files (m_disk m') ''/b/m'' = Some [1]"
proof -
  have "\<exists>e m'. run_watchdog_probe sample_host ''/d'' (Probe_Tick 0 False # Probe_Tick 1 False # Probe_Tick 2 False # [])
      (sample_machine\<lparr>m_disk := armed_disk (''/b'' @ CHR 0x5C # ''m.bak'') sample_release\<rparr>) = (Probe_Rolled_Back (Inl e), m') \<and>
    (\<forall>p. outside ''/d'' p \<longrightarrow> files (m_disk m') p
       = files ((m_disk sample_machine)\<lparr>files := [''/b/m'' \<mapsto> [1], ''/b/m.bak'' \<mapsto> sample_release]\<rparr>) p)"
    by (rule rollback_loses_path [OF before_armed(1,2), where bak = "(''/b'' @ CHR 0x5C # ''m.bak'')" and t = 5])
      (simp_all add: sanitize_reason_def plain_def is_cont_def suffix_def sample_machine_def armed_disk_def sample_host_simps MAX_WATCHDOG_DURATION_def from_secs_def i64_def is_ascii_def
        outside_def path_join_def starts_with_def ends_with_def)
  then show ?thesis using sample_outside(2) by (elim exE conjE) fastforce
qed

theorem rollback_restores_witness:
  "files (m_disk (snd (run_watchdog_probe sample_host ''/d'' [Probe_Tick 0 False, Probe_Tick 1 False, Probe_Tick 2 False]
      (sample_machine\<lparr>m_disk := armed_disk ''/b/m.bak'' sample_release\<rparr>)))) ''/b/m'' = Some sample_release"
proof -
  let ?d = "(m_disk sample_machine)\<lparr>files := [''/b/m'' \<mapsto> [1], ''/b/m.bak'' \<mapsto> sample_release]\<rparr>"
    and ?m = "sample_machine\<lparr>m_disk := armed_disk ''/b/m.bak'' sample_release\<rparr>"
  let ?s = "never\<lparr>watchdog_active := True, watchdog_started_at := 5, heartbeat_failures := 0, previous_binary_path := ''/b/m.bak''\<rparr>"
  have "readable ?s" by (simp add: readable_def never_def status_record_def i64_def is_ascii_def)
  from us_write_ready_read [OF before_armed(2) [of sample_release] this] us_write_agree [OF before_armed(2) [of sample_release], of ?s]
  have armed: "ready ''/d'' (m_disk ?m)" "us_read ''/d'' (m_disk ?m) = sanitized ?s" "agree ''/d'' ?d (m_disk ?m)"
    by (simp_all add: armed_disk_def arm_watchdog_def before_armed(3))
  have san: "sanitize_reason ''/b/m.bak'' = ''/b/m.bak''" by (simp add: sanitize_reason_def plain_def is_cont_def)
  have run: "status_run ''/d'' (m_disk ?m)"
    by (simp add: armed_disk_def status_run.arm [OF before_armed(1)] i64_def is_ascii_def)
  have out: "outside ''/d'' ''/b/m''" "outside ''/d'' ''/b/m.bak''"
    by (simp_all add: outside_def path_join_def starts_with_def ends_with_def)
  have bak: "fs_read (m_disk ?m) ''/b/m.bak'' = Inr sample_release"
    using agree_read [OF armed(3) out(2)] before_armed(4) by simp
  have w: "write_error (m_disk ?m) ''/b/m'' = None" using agree_write_error [OF armed(3) out(1)] before_armed(5) by simp
  have live: "resolve_live_exe_path sample_host = Inr ''/b/m''"
    "quarantine_path ''/b/m'' (clock sample_host) = ''/b/m'' @ ''.failed-'' @ show_int (clock sample_host)"
    by (simp_all add: resolve_live_exe_path_def quarantine_path_def sample_host_simps sample_exe ok_or_def path_parent_def
        trivial_part_def name_or_empty_def path_file_name_def path_join_def starts_with_def ends_with_def suffix_def trim_end_text.simps)
  have "\<exists>m'. run_watchdog_probe sample_host ''/d'' (Probe_Tick 0 False # Probe_Tick 1 False # Probe_Tick 2 False # []) ?m
      = (Probe_Rolled_Back (Inr ()), m') \<and> files (m_disk m') ''/b/m'' = Some sample_release \<and> watch_of (us_read ''/d'' (m_disk m')) = Off"
    by (rule rollback_restores [OF run armed(1) _ _ _ _ _ sample_host_simps(3) sample_outside(2,3) _ live])
      (simp_all add: armed(2) [simplified] san bak [simplified] w [simplified] sanitized_def watch_of_def MAX_WATCHDOG_DURATION_def from_secs_def i64_def
        sample_host_def length_release MIN_BAK_SIZE_def)
  then show ?thesis by (elim exE conjE) (simp only: snd_conv)
qed

end
