(* ===== verification/Spec2Isabelle.thy ===== *)
theory Spec2Isabelle
  imports Client_Session Fs_Transport Mux Relay_Connect Relay_Server Scp Stun Sync_Dir Watchdog
begin

text \<open>
  \<^bold>\<open>A verification of mrsh, a remote shell in Rust.\<close>

  The program. A server (\<open>crates/mrsh-server\<close>) accepts connections, authenticates clients by Ed25519
  keys with an optional second factor, and serves requests: commands, file transfer, tunnels, shells,
  sessions. A client (\<open>crates/mrsh-client\<close>) speaks to it over TLS or through a relay. The relay crate
  (\<open>crates/mrsh-relay\<close>) holds the server that joins two clients by a UUID and the rendezvous server
  where devices register and are looked up. \<open>crates/mrsh-transfer\<close> has the delta, chunking and
  deduplication algorithms, \<open>crates/mrsh-core\<close> the wire formats, keys and message records.

  How the parts interact. Every byte between client and server goes through the framing of
  \<open>wire.rs\<close>. A connection is first checked against the rate limiter, then runs the handshake, then the
  request loop, which dispatches each message to command execution, files, sync, sessions or a tunnel,
  under the permissions of the key. The sync handlers work on the file system and on the block cache,
  which is fed by the chunker; the client's transfer code is their other end.

  \<^bold>\<open>Theories and sources.\<close>

  \<^item> \<open>Prelude\<close>, \<open>Rust_Str\<close>: bytes, integers of fixed width, results, the operations of \<open>str\<close> and
    slices that the sources call.
  \<^item> \<open>Framing\<close>: the locale of a codec of messages on a byte stream; \<open>Wire\<close> (\<open>mrsh-core/wire.rs\<close>),
    \<open>Binproto\<close> (\<open>mrsh-core/binproto.rs\<close>), \<open>Relay_Codec\<close> (\<open>mrsh-relay/codec.rs\<close>) and \<open>Mux\<close>
    (\<open>mrsh-server/mux.rs\<close>, with the server side of multiplexed connections) interpret it.
    \<open>Binproto\<close> also has the locale of a field codec with its four interpretations.
  \<^item> \<open>Protocol\<close> (\<open>mrsh-core/protocol.rs\<close>): the message records.
  \<^item> \<open>Auth_Keys\<close> (\<open>mrsh-core/auth.rs\<close>): key files, options, revocation, recovery codes.
  \<^item> \<open>Rate_Limit\<close>, \<open>Session_Store\<close>, \<open>Calendar\<close>, \<open>Tunnel\<close>, \<open>Exec\<close>, \<open>Dispatch\<close>: the files of the same
    purpose in \<open>mrsh-server\<close> (\<open>ratelimit.rs\<close>, \<open>session.rs\<close>, the dates of \<open>session.rs\<close> and
    \<open>fileops.rs\<close>, \<open>tunnel.rs\<close> with \<open>Net_Addr\<close> for addresses, \<open>exec.rs\<close> and \<open>safety.rs\<close>,
    \<open>dispatch.rs\<close> with the permission check of \<open>handler.rs\<close>).
  \<^item> \<open>Byte_Stream\<close>, \<open>Connection\<close>, \<open>Handshake\<close>, \<open>Request_Loop\<close>: \<open>handler.rs\<close>, as functions on the state of
    a connection (input, output, session store, calls made, recovery file, hijacks) chained as \<open>?\<close>
    chains them. \<open>Client_Session\<close>: \<open>mrsh-client/client.rs\<close>, the other end of such a connection.
  \<^item> \<open>Delta_Sync\<close>, \<open>Chunking\<close>, \<open>Block_Cache\<close>: \<open>delta.rs\<close>, \<open>chunking.rs\<close>, \<open>blockcache.rs\<close> of
    \<open>mrsh-transfer\<close>.
  \<^item> \<open>File_System\<close>: the part of \<open>std::fs\<close> and \<open>std::path\<close> the sources use, with the locale of a keyed
    store that the disk interprets; \<open>Sync_Files\<close> and \<open>Sync_Batch\<close>: \<open>mrsh-server/sync/\<close>;
    \<open>Sync_Client\<close>: \<open>mrsh-client/sync/transfer.rs\<close> and the conversations with the server; \<open>Sync_Dir\<close>:
    \<open>sync/dir.rs\<close> and \<open>sync/diff.rs\<close> of the client, with \<open>Glob\<close>, the matcher of exclusion patterns.
  \<^item> \<open>Scp\<close>: \<open>mrsh-server/scp.rs\<close>, source and sink of the scp protocol.
  \<^item> \<open>Fs_Transport\<close>: \<open>mrsh-core/fs_transport.rs\<close> and \<open>mrsh-server/fs_listener.rs\<close>, a stream over files in a
    shared directory; the futures are stages, polls and operations interleave.
  \<^item> \<open>Rdv_Proto\<close>, \<open>Relay_Server\<close>, \<open>Rendezvous\<close>: \<open>relay.rs\<close> and \<open>rendezvous/\<close> of \<open>mrsh-relay\<close>.
  \<^item> \<open>Stun\<close>, \<open>Net_Info\<close>: \<open>stun.rs\<close> and \<open>net_crypto.rs\<close> of \<open>mrsh-relay\<close>; \<open>Relay_Connect\<close>: \<open>relay_connect.rs\<close> of
    \<open>mrsh-client\<close>, the attempts to reach a device; \<open>Config_File\<close>: \<open>mrsh-core/config.rs\<close>, the configuration file.
  \<^item> \<open>Update_Status\<close>, \<open>Self_Update\<close>, \<open>Watchdog\<close>: \<open>update_status.rs\<close>, \<open>selfupdate.rs\<close> and \<open>watchdog.rs\<close> of
    \<open>mrsh-server\<close> (Linux build), \<open>mrsh-core/release_signing.rs\<close>, the version queries of
    \<open>rendezvous/client_query.rs\<close>, and the probe and upgrade loop of \<open>src/server_mode.rs\<close>.

  Records are the structs, datatypes the enums, with the source's names, prefixed where two structs
  share a field name. Hash maps whose iteration order is visible are association lists, the others maps.
  Lengths and offsets into buffers are \<open>nat\<close>; integers are words, or \<open>int\<close> with the wrap-around written
  out, where a cast or an overflow matters. Errors are values of \<open>err\<close>, a panic is \<open>Panicked\<close>, which ends
  the task that meets it, and in the release profile (\<open>panic = "abort"\<close>) the process with all its tasks.

  \<^bold>\<open>What is shown.\<close> The properties are the theorems with a C number.

  \<^item> Encodings: streams of wire messages, the authentication and request payloads and the rendezvous
    addresses are read back as they were written.
  \<^item> Access: a handshake succeeds only for an authorized, unrevoked key with a valid signature and,
    where demanded, a second factor, and it does succeed then; nothing happens before it; in the request
    loop (multiplexed connections bypass it) a JSON client does only what its key permits, streams of files
    included; the guard of commands refuses what it lists; tunnels reach only allowed targets; a recovery
    code works once, as long as the file it is taken from can be written; bans follow from failures and
    failures lead to bans.
    The client's handshake and the server's, each run on what the other writes, let an authorized client
    in with capabilities both agree on, and lock out the owner of a key with a second factor.
  \<^item> State: client counts of sessions, the limits and pairing of the relay under every interleaving
    (as inductively defined reachable states; a relay task that panics keeps its slot), what the block
    cache remembers, what a rendezvous lookup and a version query answer after any history.
  \<^item> Transfer: a pull, a push, a patch and a binary batch leave exactly the intended file, end to end from
    the client's code to the server's disk; a streamed command reaches the user whole; pulling a directory makes the
    directories that are missing and leaves all of its files, a tree copied by scp arrives as it was (and a
    hostile name is written anywhere), a shared directory is a faithful pipe whose sessions are served once;
    a two-way synchronisation lets the newer file win and never touches one the server's listing does not beat, under
    any text that names it, when the names of the listing are plain (\<open>Sync_Dir.resolved_path\<close> says which texts
    name one file where there are no symbolic links); chunks tile a file; streamed output arrives complete.
  \<^item> Reaching a device: a STUN response and the sealed network information of a server are read as they were
    written, the latter by members of its groups only; the client connects to itself when the device is its own and
    otherwise to no other address than these give. A configuration whose values survive on their lines is
    read back as saved, and a server that the user logs in to can write to it.
  \<^item> Updates: the executable is never absent during a swap, only signed binaries are installed from a
    rendezvous server, a published one arrives, the watchdog is the three-failure machine on disk, and a
    faulty update is rolled back; with the two ways in which the code loses the binary or the rollback.
  \<^item> Errors: where the code does something it should not (the manifest's findings), a theorem states the
    behaviour as it is.

  \<^bold>\<open>Parameters.\<close> Code outside the repository is an argument of the definitions that use it:
  cryptographic primitives and checksums, JSON, MessagePack, protobuf and compression codecs, Unicode case
  mapping, the spawning of processes, clocks, the listing of directories. What a theorem needs of them is
  a hypothesis of its own (a decoder inverts its encoder, two blocks that are compared do not collide),
  and its witness instantiates them. The platform is a parameter where the sources branch on it; the
  file system is that of the Unix build.

  \<^bold>\<open>Termination.\<close> No definition uses fuel: every loop is a total function, by the length of the input
  not yet read or of the data left. The glob matcher, whose measure needs an invariant of its variables,
  is a partial function that is proved to return. Concurrency is modelled where tasks share state (sessions, relay,
  rendezvous, rate limiter) by steps in any order; a message is written in one step, so a write that
  \<open>select!\<close> abandons half-way is outside the model of the multiplexed connection.

  \<^bold>\<open>Not modelled.\<close> Terminals, Windows services, desktop and screen functions, QUIC and SSH front ends
  (glue to other crates), key generation, the command line, the dashboards and fleet commands of the
  client, plugins, the Windows part of the self-update.
\<close>

end
